(* ===== verification/Goodix_Prelude.thy ===== *)
theory Goodix_Prelude
  imports Main "HOL-Library.Word" "HOL-Library.Signed_Division"
begin

text \<open>
  Shared vocabulary of the development: the machine integers of the C sources, byte buffers
  and in-place writes into them, the little-endian accessors that several source files define
  for themselves, the GLib error codes used as error values, and the C rules for signed
  conversion, division and right shift.
\<close>

unbundle bit_operations_syntax

section \<open>Names for the types of the model\<close>

type_synonym byte = "8 word"
type_synonym u16 = "16 word"
type_synonym u32 = "32 word"
type_synonym bytes = "byte list"

text \<open>The \<open>GIOErrorEnum\<close> codes the sources report through \<open>GError\<close>. \<open>NO_ERROR\<close> is a failure that leaves the
  error unset, and \<open>IRQ_TIMED_OUT\<close> the \<open>G_IO_ERROR_TIMED_OUT\<close> whose message says that the interrupt line never
  went to a level, which the driver tells from other timeouts by that message.\<close>

datatype gio_error =
    G_IO_ERROR_FAILED
  | G_IO_ERROR_EXISTS
  | G_IO_ERROR_INVALID_ARGUMENT
  | G_IO_ERROR_PERMISSION_DENIED
  | G_IO_ERROR_NOT_SUPPORTED
  | G_IO_ERROR_TIMED_OUT
  | G_IO_ERROR_CLOSED
  | G_IO_ERROR_INVALID_DATA
  | G_IO_ERROR_NOT_FOUND
  | G_IO_ERROR_BUSY
  | G_IO_ERROR_CANCELLED
  | G_IO_ERROR_NOT_INITIALIZED
  | G_IO_ERROR_CONNECTION_CLOSED
  | NO_ERROR
  | IRQ_TIMED_OUT

type_synonym 'a result = "gio_error + 'a"

named_theorems le_simps \<open>reading back little-endian fields\<close>
named_theorems buf_simps \<open>buffer writes: lengths, reads inside and outside the written range\<close>

section \<open>Writes into a buffer\<close>

text \<open>
  \<open>write_at buf off bs\<close> is a \<open>memcpy\<close> of \<open>bs\<close> to \<open>buf + off\<close>. The lemmas ask for the write
  to be in range; nothing is claimed of a write past the end.
\<close>

definition write_at :: "'a list \<Rightarrow> nat \<Rightarrow> 'a list \<Rightarrow> 'a list" where
  "write_at buf off bs = take off buf @ bs @ drop (off + length bs) buf"

lemma length_write_at [simp, buf_simps]:
  "off + length bs \<le> length buf \<Longrightarrow> length (write_at buf off bs) = length buf"
  by (simp add: write_at_def)

lemma nth_write_at [buf_simps]:
  assumes "off + length bs \<le> length buf" and "i < length buf"
  shows "write_at buf off bs ! i =
    (if i < off then buf ! i else if i < off + length bs then bs ! (i - off) else buf ! i)"
  using assms by (auto simp: write_at_def nth_append)

lemma nth_write_at_before [buf_simps]:
  "off + length bs \<le> length buf \<Longrightarrow> i < off \<Longrightarrow> write_at buf off bs ! i = buf ! i"
  by (simp add: nth_write_at)

lemma nth_write_at_after [buf_simps]:
  "off + length bs \<le> i \<Longrightarrow> i < length buf \<Longrightarrow> write_at buf off bs ! i = buf ! i"
  by (simp add: nth_write_at)

lemma nth_write_at_inside [buf_simps]:
  "off + length bs \<le> length buf \<Longrightarrow> off \<le> i \<Longrightarrow> i < off + length bs \<Longrightarrow>
   write_at buf off bs ! i = bs ! (i - off)"
  by (simp add: nth_write_at)

lemma take_drop_write_at_same [buf_simps]:
  "off + length bs \<le> length buf \<Longrightarrow> take (length bs) (drop off (write_at buf off bs)) = bs"
  by (simp add: write_at_def)

lemma take_drop_write_at_before [buf_simps]:
  assumes "off + length bs \<le> length buf" and "i + n \<le> off"
  shows "take n (drop i (write_at buf off bs)) = take n (drop i buf)"
  using assms by (intro nth_equalityI) (auto simp: nth_write_at)

lemma take_drop_write_at_after [buf_simps]:
  assumes "off + length bs \<le> length buf" and "off + length bs \<le> i"
  shows "take n (drop i (write_at buf off bs)) = take n (drop i buf)"
  using assms by (intro nth_equalityI) (auto simp: nth_write_at)

lemma take_write_at_before [buf_simps]:
  "off + length bs \<le> length buf \<Longrightarrow> n \<le> off \<Longrightarrow> take n (write_at buf off bs) = take n buf"
  using take_drop_write_at_before [of off bs buf 0 n] by simp

lemma drop_write_at_after [buf_simps]:
  assumes "off + length bs \<le> length buf" and "off + length bs \<le> i"
  shows "drop i (write_at buf off bs) = drop i buf"
  using assms by (intro nth_equalityI) (auto simp: nth_write_at)

lemma drop_write_at_same: "off \<le> length buf \<Longrightarrow> drop off (write_at buf off bs) = bs @ drop (off + length bs) buf"
  by (simp add: write_at_def)

section \<open>Little-endian fields\<close>

definition le16_bytes :: "u16 \<Rightarrow> bytes" where
  "le16_bytes v = [ucast v, ucast (drop_bit 8 v)]"

definition le32_bytes :: "u32 \<Rightarrow> bytes" where
  "le32_bytes v =
     [ucast v, ucast (drop_bit 8 v), ucast (drop_bit 16 v), ucast (drop_bit 24 v)]"

definition le16_at :: "bytes \<Rightarrow> nat \<Rightarrow> u16" where
  "le16_at p i = ucast (p ! i) OR push_bit 8 (ucast (p ! (i + 1)))"

definition le32_at :: "bytes \<Rightarrow> nat \<Rightarrow> u32" where
  "le32_at p i =
     ucast (p ! i) OR push_bit 8 (ucast (p ! (i + 1)))
       OR push_bit 16 (ucast (p ! (i + 2))) OR push_bit 24 (ucast (p ! (i + 3)))"

lemma length_le_bytes [simp, buf_simps]:
  "length (le16_bytes v) = 2" "length (le32_bytes w) = 4"
  by (simp_all add: le16_bytes_def le32_bytes_def)

lemma le16_join: "ucast (ucast v :: byte) OR push_bit 8 (ucast (ucast (drop_bit 8 v) :: byte)) = (v :: u16)"
  by (rule bit_word_eqI) (auto simp: bit_simps)

lemma le32_join:
  "ucast (ucast v :: byte) OR push_bit 8 (ucast (ucast (drop_bit 8 v) :: byte))
     OR push_bit 16 (ucast (ucast (drop_bit 16 v) :: byte))
     OR push_bit 24 (ucast (ucast (drop_bit 24 v) :: byte)) = (v :: u32)"
proof (rule bit_word_eqI)
  fix n assume "n < LENGTH(32)"
  then consider "n < 8" | "8 \<le> n" "n < 16" | "16 \<le> n" "n < 24" | "24 \<le> n" "n < 32"
    by fastforce
  then show "bit (ucast (ucast v :: byte) OR push_bit 8 (ucast (ucast (drop_bit 8 v) :: byte))
     OR push_bit 16 (ucast (ucast (drop_bit 16 v) :: byte))
     OR push_bit 24 (ucast (ucast (drop_bit 24 v) :: byte)) :: u32) n = bit v n"
    by cases (auto simp: bit_simps)
qed

lemma le16_split:
  "ucast (ucast a OR push_bit 8 (ucast b) :: u16) = (a :: byte)"
  "ucast (drop_bit 8 (ucast a OR push_bit 8 (ucast b) :: u16)) = (b :: byte)"
  by (rule bit_word_eqI, auto simp: bit_simps dest: bit_imp_le_length)+

lemma le32_split:
  fixes a b c d :: byte
  defines "v \<equiv> (ucast a OR push_bit 8 (ucast b) OR push_bit 16 (ucast c) OR push_bit 24 (ucast d)) :: u32"
  shows "ucast v = a" "ucast (drop_bit 8 v) = b" "ucast (drop_bit 16 v) = c" "ucast (drop_bit 24 v) = d"
  unfolding v_def by (rule bit_word_eqI, auto simp: bit_simps dest: bit_imp_le_length)+

lemma less_4_cases: "i < (4::nat) \<Longrightarrow> i = 0 \<or> i = 1 \<or> i = 2 \<or> i = 3"
  by linarith

lemma le16_at_bytes [simp, le_simps]: "le16_at (le16_bytes v) 0 = v"
  by (simp add: le16_at_def le16_bytes_def le16_join)

lemma le32_at_bytes [simp, le_simps]: "le32_at (le32_bytes v) 0 = v"
  using le32_join [of v] by (simp add: le32_at_def le32_bytes_def)

lemma take_2_drop: "i + 2 \<le> length p \<Longrightarrow> take 2 (drop i p) = [p ! i, p ! (i + 1)]"
  by (rule nth_equalityI) (auto simp: less_2_cases_iff)

lemma take_4_drop:
  "i + 4 \<le> length p \<Longrightarrow> take 4 (drop i p) = [p ! i, p ! (i + 1), p ! (i + 2), p ! (i + 3)]"
  by (rule nth_equalityI) (auto dest!: less_4_cases simp: numeral_2_eq_2 numeral_3_eq_3)

lemma le16_bytes_at [le_simps]:
  "i + 2 \<le> length p \<Longrightarrow> le16_bytes (le16_at p i) = take 2 (drop i p)"
  by (simp only: le16_bytes_def le16_at_def le16_split take_2_drop)

lemma le32_bytes_at [le_simps]:
  "i + 4 \<le> length p \<Longrightarrow> le32_bytes (le32_at p i) = take 4 (drop i p)"
  by (simp only: le32_bytes_def le32_at_def le32_split take_4_drop)

lemma le16_at_cong: "p ! i = q ! j \<Longrightarrow> p ! (i + 1) = q ! (j + 1) \<Longrightarrow> le16_at p i = le16_at q j"
  by (simp add: le16_at_def)

lemma le32_at_cong:
  "(\<And>k. k < 4 \<Longrightarrow> p ! (i + k) = q ! (j + k)) \<Longrightarrow> le32_at p i = le32_at q j"
proof -
  assume eq: "\<And>k. k < 4 \<Longrightarrow> p ! (i + k) = q ! (j + k)"
  have "p ! i = q ! j" "p ! (i + 1) = q ! (j + 1)" "p ! (i + 2) = q ! (j + 2)" "p ! (i + 3) = q ! (j + 3)"
    using eq [of 0] eq [of 1] eq [of 2] eq [of 3] by simp_all
  then show ?thesis by (simp only: le32_at_def)
qed

lemma le16_at_append [le_simps]: "le16_at (xs @ ys) (length xs + i) = le16_at ys i"
  by (simp add: le16_at_def nth_append)

lemma le32_at_append [le_simps]: "le32_at (xs @ ys) (length xs + i) = le32_at ys i"
  by (simp add: le32_at_def nth_append)

lemma le16_at_write_at [le_simps]:
  "off + 2 \<le> length buf \<Longrightarrow> le16_at (write_at buf off (le16_bytes v)) off = v"
  by (simp add: le16_at_def nth_write_at le16_bytes_def le16_join)

lemma le32_at_write_at [le_simps]:
  "off + 4 \<le> length buf \<Longrightarrow> le32_at (write_at buf off (le32_bytes v)) off = v"
  using le32_join [of v] by (simp add: le32_at_def nth_write_at le32_bytes_def)

lemma le16_at_write_other [le_simps]:
  "off + length bs \<le> length buf \<Longrightarrow> i + 2 \<le> off \<or> off + length bs \<le> i \<and> i + 2 \<le> length buf \<Longrightarrow>
   le16_at (write_at buf off bs) i = le16_at buf i"
  by (auto simp: le16_at_def nth_write_at)

lemma le32_at_write_other [le_simps]:
  "off + length bs \<le> length buf \<Longrightarrow> i + 4 \<le> off \<or> off + length bs \<le> i \<and> i + 4 \<le> length buf \<Longrightarrow>
   le32_at (write_at buf off bs) i = le32_at buf i"
  by (auto simp: le32_at_def nth_write_at)

lemma le16_bytes_inj [simp]: "le16_bytes v = le16_bytes w \<longleftrightarrow> v = w"
  by (metis le16_at_bytes)

lemma le32_bytes_inj [simp]: "le32_bytes v = le32_bytes w \<longleftrightarrow> v = w"
  by (metis le32_at_bytes)

lemma le32_at_update:
  assumes "k + 4 \<le> length p" and "i < length p" and "b \<noteq> p ! i"
  shows "le32_at (p[i := b]) k = le32_at p k \<longleftrightarrow> \<not> (k \<le> i \<and> i < k + 4)"
proof
  assume "le32_at (p[i := b]) k = le32_at p k"
  then have "le32_bytes (le32_at (p[i := b]) k) = le32_bytes (le32_at p k)" by simp
  then have "take 4 (drop k (p[i := b])) = take 4 (drop k p)"
    using assms(1) by (simp add: le32_bytes_at)
  then have "take 4 (drop k (p[i := b])) ! (i - k) = take 4 (drop k p) ! (i - k)" by simp
  then show "\<not> (k \<le> i \<and> i < k + 4)"
    using assms by auto
next
  assume "\<not> (k \<le> i \<and> i < k + 4)"
  then show "le32_at (p[i := b]) k = le32_at p k"
    by (intro le32_at_cong) (auto simp: nth_list_update)
qed

text \<open>Loops that store an array of 16-bit values little-endian, one after the other.\<close>

definition write_le16s :: "bytes \<Rightarrow> nat \<Rightarrow> u16 list \<Rightarrow> bytes" where
  "write_le16s buf off ws =
     foldl (\<lambda>buf i. write_at buf (off + i * 2) (le16_bytes (ws ! i))) buf [0..<length ws]"

definition le16s :: "u16 list \<Rightarrow> bytes" where
  "le16s ws = concat (map le16_bytes ws)"

lemma length_le16s [simp, buf_simps]: "length (le16s ws) = 2 * length ws"
  by (induction ws) (simp_all add: le16s_def)

lemma write_at_append:
  "off + length bs + length cs \<le> length buf \<Longrightarrow>
   write_at (write_at buf off bs) (off + length bs) cs = write_at buf off (bs @ cs)"
  by (simp add: write_at_def add.assoc add.commute add.left_commute)

lemma write_le16s_eq:
  assumes "off + 2 * length ws \<le> length buf"
  shows "write_le16s buf off ws = write_at buf off (le16s ws)"
proof -
  have "n \<le> length ws \<Longrightarrow>
    foldl (\<lambda>buf i. write_at buf (off + i * 2) (le16_bytes (ws ! i))) buf [0..<n] =
    write_at buf off (le16s (take n ws))" for n
  proof (induction n)
    case (Suc n)
    then have "length (le16s (take n ws)) = n * 2" by simp
    then show ?case
      using Suc assms write_at_append [of off "le16s (take n ws)" "le16_bytes (ws ! n)" buf]
      by (simp add: take_Suc_conv_app_nth le16s_def mult.commute)
  qed (simp add: write_at_def le16s_def)
  from this [of "length ws"] show ?thesis by (simp add: write_le16s_def)
qed

lemma nth_le16s:
  "i < length ws \<Longrightarrow> le16s ws ! (2 * i) = ucast (ws ! i) \<and>
   le16s ws ! (2 * i + 1) = ucast (drop_bit 8 (ws ! i))"
proof (induction ws arbitrary: i)
  case (Cons w ws)
  then show ?case by (cases i) (auto simp: le16s_def le16_bytes_def)
qed simp

lemma le16_at_le16s [le_simps]: "i < length ws \<Longrightarrow> le16_at (le16s ws) (2 * i) = ws ! i"
  using nth_le16s [of i ws] by (simp add: le16_at_def le16_join)

lemma le16_at_write_le16s [le_simps]:
  assumes "off + 2 * length ws \<le> length buf" and "i < length ws"
  shows "le16_at (write_at buf off (le16s ws)) (off + 2 * i) = ws ! i"
proof -
  have "le16_at (write_at buf off (le16s ws)) (off + 2 * i) = le16_at (le16s ws) (2 * i)"
    using assms by (intro le16_at_cong) (simp_all add: nth_write_at_inside)
  then show ?thesis using assms(2) by (simp add: le16_at_le16s)
qed

section \<open>Exclusive or\<close>

lemma xor_zero_iff: "x XOR y = 0 \<longleftrightarrow> x = (y :: 'a::len word)"
proof
  assume "x XOR y = 0"
  then have "(x XOR y) XOR y = 0 XOR y" by simp
  then show "x = y" by (simp add: xor.assoc)
qed simp

lemma xor_right_cancel [simp]: "x XOR z = y XOR z \<longleftrightarrow> x = (y :: 'a::len word)"
proof
  assume "x XOR z = y XOR z"
  then have "(x XOR z) XOR z = (y XOR z) XOR z" by (rule arg_cong)
  then show "x = y" by (simp add: xor.assoc)
qed simp

lemma xor_left_cancel [simp]: "z XOR x = z XOR y \<longleftrightarrow> x = (y :: 'a::len word)"
  by (simp add: xor.commute [of z])

lemma byte_bit_high: "8 \<le> n \<Longrightarrow> \<not> bit (b :: byte) n"
  by (auto dest: bit_imp_le_length)

lemma byte_bit_low: "bit (b :: byte) n \<Longrightarrow> n < 8"
  by (auto dest: bit_imp_le_length)

lemma byte_eqI: "(\<And>n. n < 8 \<Longrightarrow> bit (a :: byte) n = bit b n) \<Longrightarrow> a = b"
  by (rule bit_word_eqI) simp

lemma take_bit_word_iff: "take_bit n w = w \<longleftrightarrow> unat (w :: 'a::len word) < 2 ^ n"
  by (simp add: word_unat_eq_iff unsigned_take_bit_eq take_bit_nat_eq_self_iff)

section \<open>Narrowing conversions\<close>

lemma take_bit_narrow: "n \<le> m \<Longrightarrow> take_bit n (take_bit m x) = take_bit n (x :: int)"
  by (simp add: min_def)

lemma ucast_add_down:
  "LENGTH('b) \<le> LENGTH('a) \<Longrightarrow> ucast (x + y :: 'a::len word) = (ucast x + ucast y :: 'b::len word)"
proof transfer
  fix x y :: int assume le: "LENGTH('b) \<le> LENGTH('a)"
  have "take_bit LENGTH('b) (take_bit LENGTH('a) x + take_bit LENGTH('a) y) =
    take_bit LENGTH('b) (take_bit LENGTH('b) (take_bit LENGTH('a) x) + take_bit LENGTH('b) (take_bit LENGTH('a) y))"
    by (simp only: take_bit_add)
  then show "take_bit LENGTH('b) (take_bit LENGTH('a) (x + y)) = take_bit LENGTH('b) (take_bit LENGTH('a) x + take_bit LENGTH('a) y)"
    using le by (simp only: take_bit_narrow take_bit_add)
qed

lemma ucast_uminus_down:
  "LENGTH('b) \<le> LENGTH('a) \<Longrightarrow> ucast (- y :: 'a::len word) = (- ucast y :: 'b::len word)"
proof transfer
  fix y :: int assume le: "LENGTH('b) \<le> LENGTH('a)"
  have "take_bit LENGTH('b) (- take_bit LENGTH('a) y) = take_bit LENGTH('b) (- take_bit LENGTH('b) (take_bit LENGTH('a) y))"
    by (simp only: take_bit_minus)
  then show "take_bit LENGTH('b) (take_bit LENGTH('a) (- y)) = take_bit LENGTH('b) (- take_bit LENGTH('a) y)"
    using le by (simp only: take_bit_narrow take_bit_minus)
qed

lemma ucast_back: "LENGTH('b) \<le> LENGTH('a) \<Longrightarrow> ucast (ucast x :: 'a::len word) = (x :: 'b::len word)"
  by transfer (simp add: min_def)

section \<open>C signed integers\<close>

text \<open>
  A \<open>gint32\<close> is an \<open>int\<close> of the model. \<open>i32\<close> is the conversion \<open>(gint32) x\<close>, which reduces
  to the two's complement range; \<open>sdiv\<close> of the library is C's truncating \<open>/\<close>, and
  \<open>x >> n\<close> on a signed value is \<open>drop_bit n x\<close>, the arithmetic shift.
\<close>

definition i32 :: "int \<Rightarrow> int" where
  "i32 x = signed_take_bit 31 x"

definition in_i32 :: "int \<Rightarrow> bool" where
  "in_i32 x \<longleftrightarrow> - (2 ^ 31) \<le> x \<and> x < 2 ^ 31"

lemma i32_id [simp]: "in_i32 x \<Longrightarrow> i32 x = x"
  by (simp add: i32_def in_i32_def signed_take_bit_int_eq_self)

lemma in_i32_i32 [simp]: "in_i32 (i32 x)"
  using signed_take_bit_int_greater_eq_minus_exp [of 31 x] signed_take_bit_int_less_exp [of 31 x]
  by (simp add: i32_def in_i32_def)

lemma i32_small: "- 2147483648 \<le> x \<Longrightarrow> x \<le> 2147483647 \<Longrightarrow> i32 x = x"
  by (simp add: in_i32_def)

text \<open>The same for \<open>gint64\<close> and \<open>gint16\<close>.\<close>

definition i64 :: "int \<Rightarrow> int" where
  "i64 x = signed_take_bit 63 x"

definition i16 :: "int \<Rightarrow> int" where
  "i16 x = signed_take_bit 15 x"

lemma i64_small: "- (2 ^ 63) \<le> x \<Longrightarrow> x < 2 ^ 63 \<Longrightarrow> i64 x = x"
  by (simp add: i64_def signed_take_bit_int_eq_self)

lemma i64_0 [simp]: "i64 0 = 0" by (simp add: i64_def)

lemma i32_0 [simp]: "i32 0 = 0" by (simp add: i32_def)

definition of_i32 :: "int \<Rightarrow> u32" where
  "of_i32 x = word_of_int x"

definition to_i32 :: "u32 \<Rightarrow> int" where
  "to_i32 w = sint w"

lemma to_of_i32 [simp]: "to_i32 (of_i32 x) = i32 x"
  by (simp add: to_i32_def of_i32_def i32_def sint_sbintrunc')

lemma in_to_i32 [simp]: "in_i32 (to_i32 w)"
  using sint_range_size [of w] by (simp add: to_i32_def in_i32_def word_size)

lemma funpow_8: "(f ^^ 8) x = f (f (f (f (f (f (f (f x)))))))"
  by (simp add: numeral_eq_Suc)

section \<open>Lists updated by index\<close>

lemma list_of_length_4:
  assumes "length bs = 4"
  shows "\<exists>a b c d. bs = [a, b, c, d]"
proof -
  have "length bs = Suc (Suc (Suc (Suc 0)))" using assms by simp
  then show ?thesis by (auto simp: length_Suc_conv)
qed

lemma length_filter_mono: "(\<And>x. P x \<Longrightarrow> Q x) \<Longrightarrow> length (filter P xs) \<le> length (filter Q xs)"
  by (induction xs) auto

lemma list_update_decomp:
  "i < length xs \<Longrightarrow> xs[i := b] = take i xs @ b # drop (Suc i) xs"
  by (simp add: upd_conv_take_nth_drop)

lemma le32_at_0_append: "le32_at (le32_bytes v @ ys) 0 = v"
  using le32_at_bytes [of v] by (simp add: le32_at_def le32_bytes_def)

lemma le32_at_4_append: "le32_at (le32_bytes u @ le32_bytes v @ ys) 4 = v"
  using le32_at_append [of "le32_bytes u" "le32_bytes v @ ys" 0] by (simp add: le32_at_0_append)

end
