(* ===== verification/Goodix_Codec.thy ===== *)
theory Goodix_Codec
  imports Goodix_Prelude
begin

text \<open>
  The contract of an encoder and its decoder, which the framing, the image packing, the
  calibration file, the template envelope, the BIR record, the print data and the packed
  template all promise. \<open>valid\<close> says which values the encoder accepts. An exact codec also
  accepts nothing but encoded values, so its wire form is canonical.
\<close>

locale codec =
  fixes enc :: "'a \<Rightarrow> 'b" and dec :: "'b \<Rightarrow> 'a option" and valid :: "'a \<Rightarrow> bool"
  assumes dec_enc: "valid x \<Longrightarrow> dec (enc x) = Some x"
begin

lemma enc_inj: "valid x \<Longrightarrow> valid y \<Longrightarrow> enc x = enc y \<Longrightarrow> x = y"
  by (metis dec_enc option.inject)

lemma inj_on_enc: "inj_on enc {x. valid x}"
  by (auto intro: inj_onI enc_inj)

end

locale exact_codec = codec +
  assumes dec_exact: "dec y = Some x \<Longrightarrow> valid x \<and> y = enc x"
begin

lemma dec_iff: "dec y = Some x \<longleftrightarrow> valid x \<and> y = enc x"
  using dec_enc dec_exact by blast

lemma dec_inj: "dec y = Some x \<Longrightarrow> dec z = Some x \<Longrightarrow> y = z"
  by (simp add: dec_iff)

lemma dec_None: "dec y = None \<longleftrightarrow> (\<forall>x. valid x \<longrightarrow> y \<noteq> enc x)"
  using dec_iff [of y] by (cases "dec y") auto

end

end
