(* ===== verification/Goodix_Crc.thy ===== *)
theory Goodix_Crc
  imports Goodix_Prelude
begin

text \<open>
  Checksums of \<open>lib/goodix/common\<close>: the CRC-32/MPEG-2 of goodix-crc.c and the MCU
  configuration checksum of goodix-mcu-config.c. The two locales state once what makes a running
  checksum detect errors; every checksum of the repository (the wire sum, the MCU word sum, the
  two CRC registers) is an interpretation of one of them, in the theory of its own component.
\<close>

section \<open>Running checksums that detect errors\<close>

locale running_checksum =
  fixes step :: "'s \<Rightarrow> 'e \<Rightarrow> 's"
  assumes step_state_inj: "step s e = step t e \<Longrightarrow> s = t"
    and step_elem_inj: "step s e = step s d \<Longrightarrow> e = d"
begin

lemma fold_state_inj: "foldl step s xs = foldl step t xs \<Longrightarrow> s = t"
  by (induction xs arbitrary: s t) (auto dest: step_state_inj)

lemma detects_one_element:
  "foldl step s (xs @ a # ys) = foldl step s (xs @ b # ys) \<longleftrightarrow> a = b"
  by (auto dest: fold_state_inj step_elem_inj)

lemma detects_update:
  assumes "i < length xs"
  shows "foldl step s (xs[i := b]) = foldl step s xs \<longleftrightarrow> b = xs ! i"
proof -
  have "xs = take i xs @ xs ! i # drop (Suc i) xs"
    using assms by (rule id_take_nth_drop)
  then have "foldl step s xs = foldl step s (take i xs @ xs ! i # drop (Suc i) xs)"
    by (rule arg_cong)
  then show ?thesis
    using detects_one_element [of s "take i xs" b "drop (Suc i) xs" "xs ! i"]
    by (simp only: list_update_decomp [OF assms])
qed

end

text \<open>
  A 32-bit CRC register clocked eight times per byte. \<open>place k b\<close> is where the byte that
  enters the register \<open>k\<close> bytes from now would sit; eight clocks move it one place nearer.
\<close>

definition crc_byte_step :: "(u32 \<Rightarrow> u32) \<Rightarrow> (nat \<Rightarrow> byte \<Rightarrow> u32) \<Rightarrow> u32 \<Rightarrow> byte \<Rightarrow> u32" where
  "crc_byte_step bit_step place s b = (bit_step ^^ 8) (s XOR place 0 b)"

locale crc_register =
  fixes bit_step :: "u32 \<Rightarrow> u32" and place :: "nat \<Rightarrow> byte \<Rightarrow> u32"
  assumes bit_step_xor: "bit_step (x XOR y) = bit_step x XOR bit_step y"
    and bit_step_zero: "bit_step x = 0 \<Longrightarrow> x = 0"
    and place_shift: "k < 3 \<Longrightarrow> (bit_step ^^ 8) (place (Suc k) b) = place k b"
    and place_inj:
      "place 0 a XOR place 1 b XOR place 2 c XOR place 3 d =
       place 0 a' XOR place 1 b' XOR place 2 c' XOR place 3 d' \<Longrightarrow>
       a = a' \<and> b = b' \<and> c = c' \<and> d = d'"
begin

lemma clocks_xor: "(bit_step ^^ n) (x XOR y) = (bit_step ^^ n) x XOR (bit_step ^^ n) y"
  by (induction n) (simp_all add: bit_step_xor)

lemma bit_step_inj: "bit_step x = bit_step y \<Longrightarrow> x = y"
  using bit_step_zero [of "x XOR y"] by (simp add: bit_step_xor xor_zero_iff)

lemma clocks_inj: "(bit_step ^^ n) x = (bit_step ^^ n) y \<Longrightarrow> x = y"
  by (induction n) (auto dest: bit_step_inj)

lemma place_0_inj: "place 0 a = place 0 b \<Longrightarrow> a = b"
  using place_inj [of a 0 0 0 b 0 0 0] by simp

lemma clocks_add: "(bit_step ^^ (m + n)) x = (bit_step ^^ m) ((bit_step ^^ n) x)"
  by (simp add: funpow_add)

lemma clocks_place:
  "(bit_step ^^ 8) (place 1 b) = place 0 b"
  "(bit_step ^^ 16) (place 2 b) = place 0 b"
  "(bit_step ^^ 24) (place 3 b) = place 0 b"
proof -
  show 1: "(bit_step ^^ 8) (place 1 b) = place 0 b" for b
    using place_shift [of 0 b] by simp
  show 2: "(bit_step ^^ 16) (place 2 b) = place 0 b" for b
    using clocks_add [of 8 8 "place 2 b"] place_shift [of 1 b] 1 [of b] by (simp add: numeral_2_eq_2)
  show "(bit_step ^^ 24) (place 3 b) = place 0 b"
    using clocks_add [of 16 8 "place 3 b"] place_shift [of 2 b] 2 [of b] by (simp add: numeral_3_eq_3)
qed

text \<open>Four bytes in sequence are one 32-bit word loaded at once.\<close>

lemma four_bytes:
  "foldl (crc_byte_step bit_step place) s [a, b, c, d] =
   (bit_step ^^ 32) (s XOR (place 0 a XOR place 1 b XOR place 2 c XOR place 3 d))"
proof -
  have "(bit_step ^^ 32) x = (bit_step ^^ 8) ((bit_step ^^ 24) x)"
    and "(bit_step ^^ 24) x = (bit_step ^^ 8) ((bit_step ^^ 16) x)"
    and "(bit_step ^^ 16) x = (bit_step ^^ 8) ((bit_step ^^ 8) x)" for x
    using clocks_add [of 8 24 x] clocks_add [of 8 16 x] clocks_add [of 8 8 x] by simp_all
  note split = this
  have "foldl (crc_byte_step bit_step place) s [a, b, c, d] =
    (bit_step ^^ 8) ((bit_step ^^ 8) ((bit_step ^^ 8) ((bit_step ^^ 8) (s XOR place 0 a)
      XOR place 0 b) XOR place 0 c) XOR place 0 d)"
    by (simp add: crc_byte_step_def)
  also have "\<dots> = (bit_step ^^ 8) ((bit_step ^^ 8) ((bit_step ^^ 8) ((bit_step ^^ 8) (s XOR place 0 a)
      XOR (bit_step ^^ 8) (place 1 b)) XOR (bit_step ^^ 16) (place 2 c)) XOR (bit_step ^^ 24) (place 3 d))"
    by (simp only: clocks_place)
  also have "\<dots> = (bit_step ^^ 32) (s XOR (place 0 a XOR place 1 b XOR place 2 c XOR place 3 d))"
    by (simp only: split clocks_xor xor.assoc)
  finally show ?thesis .
qed

lemma four_bytes_inj:
  "foldl (crc_byte_step bit_step place) s [a, b, c, d] =
   foldl (crc_byte_step bit_step place) s [a', b', c', d'] \<Longrightarrow> [a, b, c, d] = [a', b', c', d']"
  unfolding four_bytes by (drule clocks_inj, simp only: xor_left_cancel, drule place_inj, simp)

end

sublocale crc_register \<subseteq> running_checksum "crc_byte_step bit_step place"
  by unfold_locales (auto simp: crc_byte_step_def dest!: clocks_inj place_0_inj)

context crc_register
begin

text \<open>Any corruption confined to four consecutive bytes changes the register.\<close>

lemma detects_burst:
  assumes "length bs = 4" and "length bs' = 4"
    and eq: "foldl (crc_byte_step bit_step place) s (xs @ bs @ ys) =
      foldl (crc_byte_step bit_step place) s (xs @ bs' @ ys)"
  shows "bs = bs'"
proof -
  obtain a b c d where bs: "bs = [a, b, c, d]"
    using list_of_length_4 [OF assms(1)] by blast
  obtain a' b' c' d' where bs': "bs' = [a', b', c', d']"
    using list_of_length_4 [OF assms(2)] by blast
  have "foldl (crc_byte_step bit_step place) (foldl (crc_byte_step bit_step place) s xs) bs =
    foldl (crc_byte_step bit_step place) (foldl (crc_byte_step bit_step place) s xs) bs'"
    by (rule fold_state_inj [where xs = ys]) (use eq in \<open>simp only: foldl_append\<close>)
  then show ?thesis unfolding bs bs' by (rule four_bytes_inj)
qed

end

section \<open>CRC-32/MPEG-2 (goodix-crc.c)\<close>

definition crc32_mpeg2_bit :: "u32 \<Rightarrow> u32" where
  "crc32_mpeg2_bit crc = push_bit 1 crc XOR (0x04c11db7 AND - drop_bit 31 crc)"

definition crc32_mpeg2_step :: "u32 \<Rightarrow> byte \<Rightarrow> u32" where
  "crc32_mpeg2_step crc b = (crc32_mpeg2_bit ^^ 8) (crc XOR push_bit 24 (ucast b))"

definition goodix_crc32_mpeg2 :: "bytes \<Rightarrow> nat \<Rightarrow> u32" where
  "goodix_crc32_mpeg2 data len = foldl crc32_mpeg2_step 0xffffffff (take len data)"

definition msb_place :: "nat \<Rightarrow> byte \<Rightarrow> u32" where
  "msb_place k b = push_bit (24 - 8 * k) (ucast b)"

lemma drop_bit_31: "drop_bit 31 (x :: u32) = of_bool (bit x 31)"
  proof (rule bit_word_eqI)
  fix n show "bit (drop_bit 31 x) n = bit (of_bool (bit x 31) :: u32) n"
    using bit_imp_le_length [of x "31 + n"] by (cases n) (auto simp: bit_simps bit_0)
qed

lemma crc32_mpeg2_bit_alt:
  "crc32_mpeg2_bit x = push_bit 1 x XOR (if bit x 31 then 0x04c11db7 else 0)"
  by (simp add: crc32_mpeg2_bit_def drop_bit_31)

lemma crc32_mpeg2_clear: "\<not> bit x 31 \<Longrightarrow> crc32_mpeg2_bit x = push_bit 1 x"
  by (simp add: crc32_mpeg2_bit_alt)

lemma crc32_mpeg2_clears:
  "(\<And>j. j < n \<Longrightarrow> \<not> bit x (31 - j)) \<Longrightarrow> n \<le> 31 \<Longrightarrow> (crc32_mpeg2_bit ^^ n) x = push_bit n x"
proof (induction n)
  case (Suc n)
  have "(crc32_mpeg2_bit ^^ n) x = push_bit n x" using Suc by simp
  moreover have "\<not> bit (push_bit n x) 31" using Suc.prems(1) [of n] by (simp add: bit_simps)
  ultimately show ?case by (simp add: crc32_mpeg2_clear push_bit_push_bit)
qed simp

interpretation mpeg2: crc_register crc32_mpeg2_bit msb_place
proof
  fix x y :: u32
  show "crc32_mpeg2_bit (x XOR y) = crc32_mpeg2_bit x XOR crc32_mpeg2_bit y"
    by (auto simp: crc32_mpeg2_bit_alt push_bit_xor bit_xor_iff xor.assoc xor.left_commute)
next
  fix x :: u32 assume z: "crc32_mpeg2_bit x = 0"
  have "\<not> bit x 31"
  proof
    assume "bit x 31"
    then have "bit (crc32_mpeg2_bit x) 0" unfolding crc32_mpeg2_bit_alt bit_xor_iff bit_push_bit_iff by (simp add: bit_0)
    with z show False by simp
  qed
  then have p: "push_bit 1 x = 0" using z by (simp add: crc32_mpeg2_clear)
  show "x = 0"
  proof (rule bit_word_eqI)
    fix n assume n: "n < LENGTH(32)"
    show "bit x n = bit 0 n"
    proof (cases "n = 31")
      case False
      with n have "bit (push_bit 1 x) (Suc n) = bit x n" unfolding bit_push_bit_iff by simp
      with p show ?thesis by simp
    qed (use \<open>\<not> bit x 31\<close> in simp)
  qed
next
  fix k :: nat and b :: byte assume k: "k < 3"
  have "(crc32_mpeg2_bit ^^ 8) (msb_place (Suc k) b) = push_bit 8 (msb_place (Suc k) b)"
    using k by (intro crc32_mpeg2_clears) (auto simp: msb_place_def bit_simps dest: bit_imp_le_length)
  then show "(crc32_mpeg2_bit ^^ 8) (msb_place (Suc k) b) = msb_place k b"
    using k by (simp add: msb_place_def push_bit_push_bit)
next
  fix a b c d a' b' c' d' :: byte
  assume "msb_place 0 a XOR msb_place 1 b XOR msb_place 2 c XOR msb_place 3 d =
       msb_place 0 a' XOR msb_place 1 b' XOR msb_place 2 c' XOR msb_place 3 d'"
  then have "bit (msb_place 0 a XOR msb_place 1 b XOR msb_place 2 c XOR msb_place 3 d) n =
       bit (msb_place 0 a' XOR msb_place 1 b' XOR msb_place 2 c' XOR msb_place 3 d') n" for n
    by simp
  note eq = this
  have "bit a n = bit a' n \<and> bit b n = bit b' n \<and> bit c n = bit c' n \<and> bit d n = bit d' n"
    if n: "n < 8" for n
  proof (intro conjI)
    show "bit a n = bit a' n"
      using eq [of "24 + n"] n by (simp add: msb_place_def bit_simps byte_bit_high)
    show "bit b n = bit b' n"
      using eq [of "16 + n"] n by (simp add: msb_place_def bit_simps byte_bit_high)
    show "bit c n = bit c' n"
      using eq [of "8 + n"] n by (simp add: msb_place_def bit_simps byte_bit_high)
    show "bit d n = bit d' n"
      using eq [of n] n by (simp add: msb_place_def bit_simps byte_bit_high)
  qed
  then show "a = a' \<and> b = b' \<and> c = c' \<and> d = d'"
    by (auto intro: byte_eqI)
qed

lemma crc32_mpeg2_step_eq: "crc32_mpeg2_step = crc_byte_step crc32_mpeg2_bit msb_place"
  by (intro ext) (simp add: crc32_mpeg2_step_def crc_byte_step_def msb_place_def)

text \<open>CRC-32/MPEG-2 detects every corruption confined to four consecutive bytes (a burst of
  at most 32 bits): two messages that differ only inside such a window have different CRCs.\<close>

theorem goodix_crc32_mpeg2_detects_burst:
  assumes "length bs = 4" and "length bs' = 4" and "bs \<noteq> bs'"
    and "len = length xs + 4 + length ys"
  shows "goodix_crc32_mpeg2 (xs @ bs @ ys) len \<noteq> goodix_crc32_mpeg2 (xs @ bs' @ ys) len"
  using assms mpeg2.detects_burst [of bs bs' "0xffffffff" xs ys]
  by (auto simp: goodix_crc32_mpeg2_def crc32_mpeg2_step_eq)

theorem goodix_crc32_mpeg2_detects_burst_witness:
  "goodix_crc32_mpeg2 ([7] @ [1, 2, 3, 4] @ [9]) 6 \<noteq> goodix_crc32_mpeg2 ([7] @ [1, 2, 3, 5] @ [9]) 6"
  by (rule goodix_crc32_mpeg2_detects_burst) simp_all

lemma goodix_crc32_mpeg2_one_byte:
  assumes "i < len" and "len \<le> length data"
  shows "goodix_crc32_mpeg2 (data[i := b]) len = goodix_crc32_mpeg2 data len \<longleftrightarrow> b = data ! i"
  using assms mpeg2.detects_update [of i "take len data" "0xffffffff" b]
  by (simp add: goodix_crc32_mpeg2_def crc32_mpeg2_step_eq take_update_swap)

text \<open>The check value of the test suite (tests/goodix-common/test-goodix-crc.c).\<close>

lemma crc32_mpeg2_check_value:
  "goodix_crc32_mpeg2 [0x31, 0x32, 0x33, 0x34, 0x35, 0x36, 0x37, 0x38, 0x39] 9 = 0x0376e6e7"
  by (simp add: goodix_crc32_mpeg2_def crc32_mpeg2_step_def funpow_8 crc32_mpeg2_bit_def)

section \<open>The MCU configuration checksum (goodix-mcu-config.c)\<close>

definition config_shape_valid :: "bytes \<Rightarrow> bool" where
  "config_shape_valid config \<longleftrightarrow> length config \<ge> 2 \<and> length config mod 2 = 0"

definition calculate_checksum :: "bytes \<Rightarrow> u16" where
  "calculate_checksum config =
     (let sum = foldl (\<lambda>(sum :: u32) k. sum + ucast (le16_at config (2 * k))) 0xa5a5
                  [0..<(length config - 2) div 2]
      in ucast (0 - sum))"

definition goodix_mcu_config_checksum_valid :: "bytes \<Rightarrow> bool" where
  "goodix_mcu_config_checksum_valid config =
     (if \<not> config_shape_valid config then False
      else le16_at config (length config - 2) = calculate_checksum config)"

text \<open>\<open>None\<close> is the \<open>FALSE\<close> of a badly shaped blob, which is left as it was.\<close>

definition goodix_mcu_config_update_checksum :: "bytes \<Rightarrow> bytes option" where
  "goodix_mcu_config_update_checksum config =
     (if \<not> config_shape_valid config then None
      else Some (write_at config (length config - 2) (le16_bytes (calculate_checksum config))))"

interpretation word_sum: running_checksum "(+) :: u16 \<Rightarrow> u16 \<Rightarrow> u16"
  by unfold_locales simp_all

definition config_words :: "bytes \<Rightarrow> u16 list" where
  "config_words config = map (\<lambda>k. le16_at config (2 * k)) [0..<length config div 2]"

lemma ucast_foldl_plus:
  "ucast (foldl (\<lambda>(s :: u32) k. s + ucast (f k :: u16)) a ks) = foldl (+) (ucast a :: u16) (map f ks)"
  by (induction ks arbitrary: a) (simp_all add: ucast_add_down ucast_back)

lemma calculate_checksum_words:
  "calculate_checksum config =
     - foldl (+) 0xa5a5 (map (\<lambda>k. le16_at config (2 * k)) [0..<(length config - 2) div 2])"
  using ucast_foldl_plus [of "\<lambda>k. le16_at config (2 * k)" "0xa5a5"]
  by (simp add: calculate_checksum_def Let_def ucast_uminus_down)

lemma config_words_split:
  assumes "config_shape_valid config"
  shows "config_words config =
    map (\<lambda>k. le16_at config (2 * k)) [0..<(length config - 2) div 2] @ [le16_at config (length config - 2)]"
proof -
  define m where "m = length config div 2 - 1"
  have "length config = 2 * Suc m"
    using assms unfolding config_shape_valid_def m_def by presburger
  then show ?thesis by (simp add: config_words_def)
qed

lemma checksum_valid_iff_words:
  assumes "config_shape_valid config"
  shows "goodix_mcu_config_checksum_valid config \<longleftrightarrow> foldl (+) 0xa5a5 (config_words config) = 0"
  using assms
  by (simp add: goodix_mcu_config_checksum_valid_def calculate_checksum_words config_words_split
      eq_neg_iff_add_eq_0 add.commute)

text \<open>Updating the checksum of an MCU configuration of even, non-zero length makes the blob
  valid and changes nothing but its last two bytes; a badly shaped blob is refused.\<close>

theorem goodix_mcu_config_update_valid:
  "case goodix_mcu_config_update_checksum config of
     None \<Rightarrow> \<not> config_shape_valid config
   | Some config' \<Rightarrow> goodix_mcu_config_checksum_valid config' \<and> length config' = length config \<and>
       take (length config - 2) config' = take (length config - 2) config"
proof (cases "config_shape_valid config")
  case True
  define n where "n = length config - 2"
  have n: "length config = n + 2" "config_shape_valid config"
    using True by (auto simp: n_def config_shape_valid_def)
  let ?c = "write_at config n (le16_bytes (calculate_checksum config))"
  have len: "length ?c = length config" using n by simp
  have "calculate_checksum ?c = calculate_checksum config"
  proof -
    have "le16_at ?c (2 * k) = le16_at config (2 * k)" if "k < n div 2" for k
      using that n by (intro le16_at_cong) (simp_all add: nth_write_at_before)
    then show ?thesis
      unfolding calculate_checksum_words len using n(1)
      by (intro arg_cong [where f = "\<lambda>ws. - foldl (+) 0xa5a5 ws"] map_cong) simp_all
  qed
  moreover have "le16_at ?c n = calculate_checksum config"
    using n by (simp add: le16_at_write_at)
  ultimately show ?thesis
    using n by (simp add: goodix_mcu_config_update_checksum_def goodix_mcu_config_checksum_valid_def
        config_shape_valid_def n_def [symmetric] take_write_at_before)
qed (simp add: goodix_mcu_config_update_checksum_def)

text \<open>A valid MCU configuration in which any one byte (a checksum byte included) is changed
  is no longer valid.\<close>

theorem goodix_mcu_config_detects_one_byte:
  assumes "goodix_mcu_config_checksum_valid config" and i: "i < length config" and b: "b \<noteq> config ! i"
  shows "\<not> goodix_mcu_config_checksum_valid (config[i := b])"
proof -
  have shape: "config_shape_valid config"
    using assms(1) by (auto simp: goodix_mcu_config_checksum_valid_def split: if_splits)
  then have shape': "config_shape_valid (config[i := b])" by (simp add: config_shape_valid_def)
  have len: "i div 2 < length (config_words config)" "length config = 2 * length (config_words config)"
    using shape i by (auto simp: config_words_def config_shape_valid_def)
  have "config_words (config[i := b]) =
    (config_words config)[i div 2 := le16_at (config[i := b]) (2 * (i div 2))]"
  proof (rule nth_equalityI)
    fix k assume "k < length (config_words (config[i := b]))"
    then have k: "k < length config div 2" by (simp add: config_words_def)
    have "le16_at (config[i := b]) (2 * k) = le16_at config (2 * k)" if "k \<noteq> i div 2"
    proof -
      have "2 * k \<noteq> i" "2 * k + 1 \<noteq> i" using that by presburger+
      then show ?thesis by (simp add: le16_at_def)
    qed
    with k show "config_words (config[i := b]) ! k =
      (config_words config)[i div 2 := le16_at (config[i := b]) (2 * (i div 2))] ! k"
      by (cases "k = i div 2") (simp_all add: config_words_def)
  qed (simp add: config_words_def)
  moreover have "le16_at (config[i := b]) (2 * (i div 2)) \<noteq> config_words config ! (i div 2)"
  proof
    define j where "j = 2 * (i div 2)"
    have j: "j + 2 \<le> length config" "i = j \<or> i = j + 1"
      using shape i unfolding config_shape_valid_def j_def by presburger+
    assume "le16_at (config[i := b]) (2 * (i div 2)) = config_words config ! (i div 2)"
    then have "le16_bytes (le16_at (config[i := b]) j) = le16_bytes (le16_at config j)"
      using len(1) by (simp add: config_words_def j_def)
    then have "[(config[i := b]) ! j, (config[i := b]) ! (j + 1)] = [config ! j, config ! (j + 1)]"
      using j(1) by (simp only: le16_bytes_at length_list_update take_2_drop)
    then have "config[i := b] ! i = config ! i" using j(2) by (elim disjE) simp_all
    with b i show False by simp
  qed
  ultimately show ?thesis
    using assms(1) word_sum.detects_update [OF len(1), of "0xa5a5"]
    by (simp add: checksum_valid_iff_words [OF shape] checksum_valid_iff_words [OF shape'])
qed

theorem goodix_mcu_config_detects_one_byte_witness:
  "\<not> goodix_mcu_config_checksum_valid ([1, 2, 0x5a, 0x58][0 := 9])"
  by (rule goodix_mcu_config_detects_one_byte) code_simp+

end
