(* ===== verification/Goodix_Wire.thy ===== *)
theory Goodix_Wire
  imports Goodix_Codec Goodix_Crc
begin

text \<open>
  The transport-neutral framing of goodix-wire.c: the four-byte outer header, the command
  packet (command byte, little-endian length, payload, checksum) and the command identity
  macros of goodix-wire.h. Buffers are byte lists; an output buffer is passed in and returned
  updated, and \<open>None\<close> is the \<open>FALSE\<close> of the C function. A \<open>NULL\<close> payload is \<open>None\<close>.
\<close>

section \<open>Command identity\<close>

definition goodix_wire_command_id :: "u32 \<Rightarrow> u32 \<Rightarrow> byte" where
  "goodix_wire_command_id category operation =
     ucast (push_bit 4 (category AND 0x0f) OR push_bit 1 (operation AND 0x07))"

definition goodix_wire_command_category :: "byte \<Rightarrow> byte" where
  "goodix_wire_command_category command_id = drop_bit 4 command_id"

definition goodix_wire_command_operation :: "byte \<Rightarrow> byte" where
  "goodix_wire_command_operation command_id = drop_bit 1 command_id AND 0x07"

definition goodix_wire_command_continuation :: "byte \<Rightarrow> bool" where
  "goodix_wire_command_continuation command_id \<longleftrightarrow> command_id AND 0x01 \<noteq> 0"

section \<open>The command checksum\<close>

definition goodix_wire_checksum :: "bytes \<Rightarrow> nat \<Rightarrow> byte" where
  "goodix_wire_checksum data len =
     ucast (0xaa - foldl (\<lambda>(sum :: u32) b. sum + ucast b) 0 (take len data))"

interpretation byte_sum: running_checksum "(+) :: byte \<Rightarrow> byte \<Rightarrow> byte"
  by unfold_locales simp_all

lemma ucast_byte_sum:
  "ucast (foldl (\<lambda>(s :: u32) b. s + ucast b) a bs) = foldl (+) (ucast a :: byte) bs"
  by (induction bs arbitrary: a) (simp_all add: ucast_add_down ucast_back)

lemma wire_checksum_eq: "goodix_wire_checksum data len = 0xaa - foldl (+) 0 (take len data)"
  using ucast_byte_sum [of 0 "take len data"]
  by (simp add: goodix_wire_checksum_def diff_conv_add_uminus ucast_add_down ucast_uminus_down
      del: add_uminus_conv_diff)

lemma foldl_plus_start: "foldl (+) (a :: byte) bs = a + foldl (+) 0 bs"
proof (induction bs arbitrary: a)
  case (Cons b bs)
  show ?case using Cons [of "a + b"] Cons [of b] by (simp add: add.assoc)
qed simp

section \<open>The outer header\<close>

definition goodix_wire_encode_outer_header :: "byte \<Rightarrow> u16 \<Rightarrow> bytes" where
  "goodix_wire_encode_outer_header flags payload_length =
     (let h0 = flags; h1 = ucast payload_length; h2 = ucast (drop_bit 8 payload_length)
      in [h0, h1, h2, h0 + h1 + h2])"

definition goodix_wire_decode_outer_header :: "bytes \<Rightarrow> (byte \<times> u16) option" where
  "goodix_wire_decode_outer_header header =
     (if header ! 0 + header ! 1 + header ! 2 \<noteq> header ! 3 then None
      else Some (header ! 0, le16_at header 1))"

section \<open>Command packets\<close>

definition goodix_wire_encode_command ::
    "byte \<Rightarrow> bytes option \<Rightarrow> nat \<Rightarrow> bytes \<Rightarrow> (bytes \<times> nat) option" where
  "goodix_wire_encode_command command payload payload_length output =
     (let total = payload_length + 4; wire_length = (of_nat (payload_length + 1) :: u16) in
      if payload = None \<and> payload_length \<noteq> 0 \<or> payload_length > 65535 - 1 \<or> length output < total
      then None
      else
        let out1 = write_at output 0 [command];
            out2 = write_at out1 1 [ucast wire_length, ucast (drop_bit 8 wire_length)];
            out3 = (if payload_length > 0
                    then write_at out2 3 (take payload_length (the payload)) else out2);
            out4 = write_at out3 (total - 1) [goodix_wire_checksum out3 (total - 1)]
        in Some (out4, total))"

definition goodix_wire_validate_command :: "bytes \<Rightarrow> bool \<Rightarrow> nat option" where
  "goodix_wire_validate_command packet allow_null_checksum =
     (if length packet < 4 then None
      else
        let wire_length = le16_at packet 1 in
        if wire_length < 1 then None
        else
          let total = 3 + unat wire_length in
          if length packet < total then None
          else
            let checksum = packet ! (total - 1) in
            if checksum \<noteq> goodix_wire_checksum packet (total - 1) \<and>
               \<not> (allow_null_checksum \<and> checksum = 0x88)
            then None
            else Some (unat wire_length - 1))"

definition goodix_wire_decode_command :: "bytes \<Rightarrow> bool \<Rightarrow> (byte \<times> bytes) option" where
  "goodix_wire_decode_command packet allow_null_checksum =
     (case goodix_wire_validate_command packet allow_null_checksum of
        None \<Rightarrow> None
      | Some decoded_length \<Rightarrow> Some (packet ! 0, take decoded_length (drop 3 packet)))"

section \<open>What the encoder writes\<close>

text \<open>The packet of a command and its payload, written down as one list.\<close>

definition wire_body :: "byte \<Rightarrow> bytes \<Rightarrow> bytes" where
  "wire_body command payload = command # le16_bytes (of_nat (length payload + 1)) @ payload"

definition wire_packet :: "byte \<Rightarrow> bytes \<Rightarrow> bytes" where
  "wire_packet command payload =
     wire_body command payload @ [0xaa - foldl (+) 0 (wire_body command payload)]"

lemma length_wire_body [simp]: "length (wire_body c p) = length p + 3"
  by (simp add: wire_body_def)

lemma length_wire_packet [simp]: "length (wire_packet c p) = length p + 4"
  by (simp add: wire_packet_def)

lemma encode_command_packet:
  assumes "length p \<le> 65534" and "length p + 4 \<le> length output"
  shows "goodix_wire_encode_command c (Some p) (length p) output =
    Some (wire_packet c p @ drop (length p + 4) output, length p + 4)"
proof -
  define hd3 where "hd3 = c # le16_bytes (of_nat (length p + 1))"
  have l: "length hd3 = 3" by (simp add: hd3_def)
  have body: "hd3 @ p = wire_body c p" by (simp add: hd3_def wire_body_def)
  have head: "write_at (write_at output 0 [c]) 1 (le16_bytes (of_nat (length p + 1))) = hd3 @ drop 3 output"
    using assms by (simp add: write_at_def hd3_def drop_Suc numeral_3_eq_3 le16_bytes_def)
  have copy: "(if 0 < length p then write_at (hd3 @ drop 3 output) 3 (take (length p) p)
      else hd3 @ drop 3 output) = wire_body c p @ drop (length p + 3) output"
    by (simp add: write_at_def l add.commute flip: body)
  have check: "write_at (wire_body c p @ drop (length p + 3) output) (length p + 3)
      [goodix_wire_checksum (wire_body c p @ drop (length p + 3) output) (length p + 3)] =
    wire_packet c p @ drop (length p + 4) output"
    by (simp add: write_at_def wire_checksum_eq wire_packet_def add.commute)
  have "length p + 4 - 1 = length p + 3" by simp
  then show ?thesis
    unfolding goodix_wire_encode_command_def Let_def le16_bytes_def [symmetric] option.sel
    using assms by (simp only: head copy check) simp
qed

text \<open>Reading a packet back: the decoder looks only at the advertised bytes.\<close>

lemma wire_packet_fields:
  "wire_packet c p ! 0 = c"
  "le16_at (wire_packet c p) 1 = of_nat (length p + 1)"
  "take (length p) (drop 3 (wire_packet c p)) = p"
  "wire_packet c p ! (length p + 3) = goodix_wire_checksum (wire_packet c p) (length p + 3)"
proof -
  show "wire_packet c p ! 0 = c"
    by (simp add: wire_packet_def wire_body_def)
  show "le16_at (wire_packet c p) 1 = of_nat (length p + 1)"
    using le16_at_bytes [of "of_nat (length p + 1)"]
    by (simp add: wire_packet_def wire_body_def le16_at_def nth_append)
  show "take (length p) (drop 3 (wire_packet c p)) = p"
    by (simp add: wire_packet_def wire_body_def drop_Suc numeral_3_eq_3 le16_bytes_def)
  show "wire_packet c p ! (length p + 3) = goodix_wire_checksum (wire_packet c p) (length p + 3)"
    by (simp add: wire_packet_def wire_checksum_eq nth_append)
qed

lemma validate_wire_packet:
  assumes "length p \<le> 65534"
  shows "goodix_wire_validate_command (wire_packet c p @ rest) allow = Some (length p)"
proof -
  let ?k = "wire_packet c p @ rest"
  have field: "le16_at ?k 1 = of_nat (length p + 1)"
    using wire_packet_fields(2) [of c p] by (simp add: le16_at_def nth_append)
  have len: "unat (of_nat (length p + 1) :: u16) = length p + 1"
    using assms by (simp only: unat_of_nat) simp
  have pos: "\<not> (of_nat (length p + 1) :: u16) < 1"
    using len by (simp add: word_less_nat_alt)
  have "?k ! (length p + 3) = goodix_wire_checksum ?k (length p + 3)"
    using wire_packet_fields(4) [of c p] by (simp add: nth_append wire_checksum_eq)
  then show ?thesis
    using len pos unfolding goodix_wire_validate_command_def field Let_def
    by (simp del: of_nat_add of_nat_Suc add: add.commute)
qed

lemma decode_wire_packet:
  "length p \<le> 65534 \<Longrightarrow> goodix_wire_decode_command (wire_packet c p @ rest) allow = Some (c, p)"
  using wire_packet_fields(1) [of c p] wire_packet_fields(3) [of p c]
  by (simp add: goodix_wire_decode_command_def validate_wire_packet nth_append)

lemma goodix_wire_packet_sum: "foldl (+) 0 (wire_packet c p) = 0xaa"
  by (simp add: wire_packet_def foldl_append)

interpretation wire: codec
  "\<lambda>(c, p). wire_packet c p" "\<lambda>k. goodix_wire_decode_command k False" "\<lambda>(c, p). length p \<le> 65534"
  by unfold_locales (use decode_wire_packet [where rest = "[]"] in auto)

text \<open>A command packet decodes to the command and payload it was encoded from, under either
  checksum policy; the encoder reports the packet size and leaves the rest of the output buffer
  as it was.\<close>

theorem goodix_wire_command_roundtrip:
  assumes "length payload \<le> 65534" and "length payload + 4 \<le> length output"
  shows "\<exists>output'. goodix_wire_encode_command command (Some payload) (length payload) output =
      Some (output', length payload + 4) \<and>
    length output' = length output \<and>
    drop (length payload + 4) output' = drop (length payload + 4) output \<and>
    goodix_wire_decode_command output' allow = Some (command, payload)"
  using assms by (auto simp: encode_command_packet decode_wire_packet)

theorem goodix_wire_command_roundtrip_witness:
  "\<exists>output'. goodix_wire_encode_command 0xe4 (Some [3, 0]) (length [3, 0 :: byte]) (replicate 8 0) =
      Some (output', length [3, 0 :: byte] + 4) \<and>
    length output' = length (replicate 8 (0 :: byte)) \<and>
    drop (length [3, 0 :: byte] + 4) output' = drop (length [3, 0 :: byte] + 4) (replicate 8 0) \<and>
    goodix_wire_decode_command output' False = Some (0xe4, [3, 0])"
  by (rule goodix_wire_command_roundtrip) simp_all

text \<open>The encoder fails exactly when the payload is missing, does not fit a 16-bit length
  field, or the packet does not fit the output buffer.\<close>

theorem goodix_wire_encode_command_fails_iff:
  "goodix_wire_encode_command command payload payload_length output = None \<longleftrightarrow>
     (payload = None \<and> payload_length \<noteq> 0) \<or> 65534 < payload_length \<or> length output < payload_length + 4"
  by (simp add: goodix_wire_encode_command_def Let_def)

text \<open>C0: The bytes of an encoded command packet sum to \<open>0xaa\<close>, as goodix-wire.h promises.\<close>

theorem goodix_wire_packet_sums_to_0xaa:
  assumes "goodix_wire_encode_command command (Some payload) (length payload) output = Some (output', encoded_size)"
  shows "foldl (+) 0 (take encoded_size output') = 0xaa"
proof -
  have "length payload \<le> 65534" "length payload + 4 \<le> length output"
    using assms by (auto simp: goodix_wire_encode_command_def Let_def split: if_splits)
  then have "take encoded_size output' = wire_packet command payload"
    using assms by (simp add: encode_command_packet) auto
  then show ?thesis
    by (simp add: goodix_wire_packet_sum)
qed

theorem goodix_wire_packet_sums_to_0xaa_witness:
  "foldl (+) 0 (take 6 (wire_packet 0xe4 [3, 0])) = (0xaa :: byte)"
proof (rule goodix_wire_packet_sums_to_0xaa)
  show "goodix_wire_encode_command 0xe4 (Some [3, 0]) (length [3, 0 :: byte]) (replicate 6 0) =
    Some (wire_packet 0xe4 [3, 0], 6)"
    by (subst encode_command_packet) simp_all
qed

lemma checksum_mismatch_rejects:
  assumes "le16_at k 1 = of_nat (m + 1)" and "m \<le> 65534"
    and "goodix_wire_checksum k (m + 3) \<noteq> k ! (m + 3)"
  shows "goodix_wire_validate_command k False = None"
proof -
  have "unat (of_nat (m + 1) :: u16) = m + 1"
    using assms(2) by (simp only: unat_of_nat) simp
  then have "k ! (3 + unat (le16_at k 1) - 1) \<noteq> goodix_wire_checksum k (3 + unat (le16_at k 1) - 1)"
    using assms(3) unfolding assms(1) by (simp add: add.commute)
  then show ?thesis by (simp add: goodix_wire_validate_command_def Let_def)
qed

text \<open>A strict validator rejects a packet in which any one byte outside the length field was
  changed, the checksum byte included.\<close>

theorem goodix_wire_detects_one_byte:
  assumes "length payload \<le> 65534" and i: "i < length payload + 4" "i \<noteq> 1" "i \<noteq> 2"
    and b: "b \<noteq> wire_packet command payload ! i"
  shows "goodix_wire_validate_command ((wire_packet command payload)[i := b]) False = None"
proof -
  let ?k = "wire_packet command payload" and ?n = "length payload + 3"
  have field: "le16_at (?k[i := b]) 1 = le16_at ?k 1" using i by (simp add: le16_at_def)
  have sum: "foldl (+) 0 ((?k[i := b])) \<noteq> 0xaa"
    using byte_sum.detects_update [of i ?k 0 b] i b
      goodix_wire_packet_sum [of command payload] by simp
  have "goodix_wire_checksum (?k[i := b]) ?n \<noteq> (?k[i := b]) ! ?n"
  proof
    assume eq: "goodix_wire_checksum (?k[i := b]) ?n = (?k[i := b]) ! ?n"
    have "?k[i := b] = take ?n (?k[i := b]) @ [(?k[i := b]) ! ?n]"
      by (simp add: take_Suc_conv_app_nth [symmetric] del: take_update_swap)
    then have "foldl (+) 0 (?k[i := b]) = foldl (+) 0 (take ?n (?k[i := b])) + (?k[i := b]) ! ?n"
      by (metis foldl_Cons foldl_Nil foldl_append)
    with sum show False by (simp add: wire_checksum_eq flip: eq)
  qed
  then show ?thesis
    using checksum_mismatch_rejects [of "?k[i := b]" "length payload"] assms(1) field
    by (simp only: wire_packet_fields(2) length_list_update length_wire_packet simp_thms)
qed

theorem goodix_wire_detects_one_byte_witness:
  "goodix_wire_validate_command ((wire_packet 0xe4 [3, 0])[3 := 4]) False = None"
  by (rule goodix_wire_detects_one_byte) (simp_all add: wire_packet_def wire_body_def le16_bytes_def)

text \<open>A validated packet lies inside the bytes it was given: the payload length it reports,
  plus the four bytes of overhead, is at most the packet size, so the view that decoding returns
  has exactly the reported length.\<close>

theorem goodix_wire_validate_in_bounds:
  assumes "goodix_wire_validate_command packet allow = Some n"
  shows "n + 4 \<le> length packet \<and> n \<le> 65534 \<and>
    (\<exists>payload. goodix_wire_decode_command packet allow = Some (packet ! 0, payload) \<and> length payload = n)"
proof -
  let ?w = "le16_at packet 1"
  have w: "\<not> ?w < 1" "3 + unat ?w \<le> length packet" "n = unat ?w - 1"
    using assms by (auto simp: goodix_wire_validate_command_def Let_def split: if_splits)
  have "unat ?w \<noteq> 0" using w(1) by (simp add: word_less_nat_alt)
  moreover have "unat ?w < 65536" using unsigned_less [of ?w] by simp
  ultimately show ?thesis
    using w assms by (simp add: goodix_wire_decode_command_def)
qed

theorem goodix_wire_validate_in_bounds_witness:
  "0 + 4 \<le> length [0xe4, 1, 0, 0x88 :: byte] \<and> (0 :: nat) \<le> 65534 \<and>
    (\<exists>payload. goodix_wire_decode_command [0xe4, 1, 0, 0x88] True = Some ([0xe4, 1, 0, 0x88] ! 0, payload)
      \<and> length payload = 0)"
  by (rule goodix_wire_validate_in_bounds)
    (simp add: goodix_wire_validate_command_def le16_at_def Let_def)

section \<open>The outer header and the command identity\<close>

lemma outer_header_fields:
  "ucast (ucast b OR push_bit 8 (ucast c) :: u16) = (b :: byte)"
  "ucast (drop_bit 8 (ucast b OR push_bit 8 (ucast c) :: u16)) = (c :: byte)"
  by (simp_all only: le16_split)

interpretation outer_header: exact_codec
  "\<lambda>(flags, n). goodix_wire_encode_outer_header flags n"
  "\<lambda>h. if length h = 4 then goodix_wire_decode_outer_header h else None" "\<lambda>_. True"
proof
  fix x :: "byte \<times> u16"
  show "(if length (case x of (flags, n) \<Rightarrow> goodix_wire_encode_outer_header flags n) = 4
     then goodix_wire_decode_outer_header (case x of (flags, n) \<Rightarrow> goodix_wire_encode_outer_header flags n)
     else None) = Some x"
    using le16_join [of "snd x"]
    by (cases x) (simp add: goodix_wire_encode_outer_header_def goodix_wire_decode_outer_header_def
        Let_def le16_at_def)
next
  fix h and x :: "byte \<times> u16"
  assume dec: "(if length h = 4 then goodix_wire_decode_outer_header h else None) = Some x"
  then obtain a b c d where h: "h = [a, b, c, d]"
    using list_of_length_4 [of h] by (auto split: if_splits)
  show "True \<and> h = (case x of (flags, n) \<Rightarrow> goodix_wire_encode_outer_header flags n)"
    using dec outer_header_fields [of b c] unfolding h
    by (auto simp: goodix_wire_encode_outer_header_def goodix_wire_decode_outer_header_def Let_def
        le16_at_def simp del: drop_bit_or split: if_splits)
qed

text \<open>The outer header is canonical: a four-byte header decodes to flags and a length if and
  only if it is the encoding of exactly these.\<close>

theorem goodix_wire_outer_header_exact:
  assumes "length header = 4"
  shows "goodix_wire_decode_outer_header header = Some (flags, payload_length) \<longleftrightarrow>
    header = goodix_wire_encode_outer_header flags payload_length"
  using outer_header.dec_iff [of header "(flags, payload_length)"] assms by simp

theorem goodix_wire_outer_header_exact_witness:
  "goodix_wire_decode_outer_header [0xa0, 6, 0, 0xa6] = Some (0xa0, 6) \<longleftrightarrow>
    [0xa0, 6, 0, 0xa6] = goodix_wire_encode_outer_header 0xa0 6"
  by (rule goodix_wire_outer_header_exact) simp

text \<open>A command identity keeps its four-bit category and three-bit operation and never sets the
  continuation bit.\<close>

lemma command_id_fields:
  "goodix_wire_command_category (goodix_wire_command_id c o') = ucast (c AND 0x0f)"
  "goodix_wire_command_operation (goodix_wire_command_id c o') = ucast (o' AND 0x07)"
  "\<not> goodix_wire_command_continuation (goodix_wire_command_id c o')"
proof -
  have m: "(0x0f :: u32) = mask 4" "(0x07 :: u32) = mask 3" "(0x07 :: byte) = mask 3" "(1 :: byte) = mask 1"
    by (simp_all add: mask_eq_exp_minus_1)
  note defs = goodix_wire_command_category_def goodix_wire_command_operation_def
    goodix_wire_command_continuation_def goodix_wire_command_id_def m
  note bits = bit_ucast_iff bit_or_iff bit_and_iff bit_push_bit_iff bit_drop_bit_eq bit_mask_iff
  show "goodix_wire_command_category (goodix_wire_command_id c o') = ucast (c AND 0x0f)"
    unfolding defs by (rule byte_eqI, unfold bits) auto
  show "goodix_wire_command_operation (goodix_wire_command_id c o') = ucast (o' AND 0x07)"
    unfolding defs by (rule byte_eqI, unfold bits) auto
  show "\<not> goodix_wire_command_continuation (goodix_wire_command_id c o')"
    unfolding defs not_not by (rule byte_eqI, unfold bits) auto
qed

end
