(* ===== verification/Goodix_Command.thy ===== *)
theory Goodix_Command
  imports Goodix_Wire
begin

text \<open>
  The command identities and command payloads of goodix-command.c. An encoder that fills a
  caller's array of fixed size returns the bytes of that array. The identities form a linear
  order by their wire value, which is what makes them distinct on the wire.
\<close>

section \<open>Command identities\<close>

datatype goodix_command_id =
    GOODIX_COMMAND_NOP
  | GOODIX_COMMAND_MCU_GET_IMAGE
  | GOODIX_COMMAND_MCU_SWITCH_TO_FDT_DOWN
  | GOODIX_COMMAND_MCU_SWITCH_TO_FDT_UP
  | GOODIX_COMMAND_MCU_SWITCH_TO_FDT_MODE
  | GOODIX_COMMAND_NAV
  | GOODIX_COMMAND_MCU_SWITCH_TO_IDLE_MODE
  | GOODIX_COMMAND_WRITE_SENSOR_REGISTER
  | GOODIX_COMMAND_READ_SENSOR_REGISTER
  | GOODIX_COMMAND_UPLOAD_CONFIG_MCU
  | GOODIX_COMMAND_SET_POWERDOWN_SCAN_FREQUENCY
  | GOODIX_COMMAND_ENABLE_CHIP
  | GOODIX_COMMAND_RESET
  | GOODIX_COMMAND_READ_OTP
  | GOODIX_COMMAND_FIRMWARE_VERSION
  | GOODIX_COMMAND_QUERY_MCU_STATE
  | GOODIX_COMMAND_ACK
  | GOODIX_COMMAND_REQUEST_TLS_CONNECTION
  | GOODIX_COMMAND_TLS_ESTABLISHED
  | GOODIX_COMMAND_PRESET_PSK_WRITE
  | GOODIX_COMMAND_PRESET_PSK_READ

fun goodix_command_value :: "goodix_command_id \<Rightarrow> byte" where
  "goodix_command_value GOODIX_COMMAND_NOP = goodix_wire_command_id 0x0 0x0"
| "goodix_command_value GOODIX_COMMAND_MCU_GET_IMAGE = goodix_wire_command_id 0x2 0x0"
| "goodix_command_value GOODIX_COMMAND_MCU_SWITCH_TO_FDT_DOWN = goodix_wire_command_id 0x3 0x1"
| "goodix_command_value GOODIX_COMMAND_MCU_SWITCH_TO_FDT_UP = goodix_wire_command_id 0x3 0x2"
| "goodix_command_value GOODIX_COMMAND_MCU_SWITCH_TO_FDT_MODE = goodix_wire_command_id 0x3 0x3"
| "goodix_command_value GOODIX_COMMAND_NAV = goodix_wire_command_id 0x5 0x0"
| "goodix_command_value GOODIX_COMMAND_MCU_SWITCH_TO_IDLE_MODE = goodix_wire_command_id 0x7 0x0"
| "goodix_command_value GOODIX_COMMAND_WRITE_SENSOR_REGISTER = goodix_wire_command_id 0x8 0x0"
| "goodix_command_value GOODIX_COMMAND_READ_SENSOR_REGISTER = goodix_wire_command_id 0x8 0x1"
| "goodix_command_value GOODIX_COMMAND_UPLOAD_CONFIG_MCU = goodix_wire_command_id 0x9 0x0"
| "goodix_command_value GOODIX_COMMAND_SET_POWERDOWN_SCAN_FREQUENCY = goodix_wire_command_id 0x9 0x2"
| "goodix_command_value GOODIX_COMMAND_ENABLE_CHIP = goodix_wire_command_id 0x9 0x3"
| "goodix_command_value GOODIX_COMMAND_RESET = goodix_wire_command_id 0xa 0x1"
| "goodix_command_value GOODIX_COMMAND_READ_OTP = goodix_wire_command_id 0xa 0x3"
| "goodix_command_value GOODIX_COMMAND_FIRMWARE_VERSION = goodix_wire_command_id 0xa 0x4"
| "goodix_command_value GOODIX_COMMAND_QUERY_MCU_STATE = goodix_wire_command_id 0xa 0x7"
| "goodix_command_value GOODIX_COMMAND_ACK = goodix_wire_command_id 0xb 0x0"
| "goodix_command_value GOODIX_COMMAND_REQUEST_TLS_CONNECTION = goodix_wire_command_id 0xd 0x0"
| "goodix_command_value GOODIX_COMMAND_TLS_ESTABLISHED = goodix_wire_command_id 0xd 0x2"
| "goodix_command_value GOODIX_COMMAND_PRESET_PSK_WRITE = goodix_wire_command_id 0xe 0x0"
| "goodix_command_value GOODIX_COMMAND_PRESET_PSK_READ = goodix_wire_command_id 0xe 0x2"

lemma goodix_command_values:
  "map goodix_command_value [GOODIX_COMMAND_NOP, GOODIX_COMMAND_MCU_GET_IMAGE,
     GOODIX_COMMAND_MCU_SWITCH_TO_FDT_DOWN, GOODIX_COMMAND_MCU_SWITCH_TO_FDT_UP,
     GOODIX_COMMAND_MCU_SWITCH_TO_FDT_MODE, GOODIX_COMMAND_NAV,
     GOODIX_COMMAND_MCU_SWITCH_TO_IDLE_MODE, GOODIX_COMMAND_WRITE_SENSOR_REGISTER,
     GOODIX_COMMAND_READ_SENSOR_REGISTER, GOODIX_COMMAND_UPLOAD_CONFIG_MCU,
     GOODIX_COMMAND_SET_POWERDOWN_SCAN_FREQUENCY, GOODIX_COMMAND_ENABLE_CHIP,
     GOODIX_COMMAND_RESET, GOODIX_COMMAND_READ_OTP, GOODIX_COMMAND_FIRMWARE_VERSION,
     GOODIX_COMMAND_QUERY_MCU_STATE, GOODIX_COMMAND_ACK, GOODIX_COMMAND_REQUEST_TLS_CONNECTION,
     GOODIX_COMMAND_TLS_ESTABLISHED, GOODIX_COMMAND_PRESET_PSK_WRITE, GOODIX_COMMAND_PRESET_PSK_READ] =
   [0x00, 0x20, 0x32, 0x34, 0x36, 0x50, 0x70, 0x80, 0x82, 0x90, 0x94, 0x96, 0xa2, 0xa6, 0xa8,
    0xae, 0xb0, 0xd0, 0xd4, 0xe0, 0xe4]"
  by (simp add: goodix_wire_command_id_def)

lemmas command_value_numeral = goodix_command_values [unfolded list.map list.inject]

lemma goodix_command_value_inj: "goodix_command_value a = goodix_command_value b \<Longrightarrow> a = b"
  using command_value_numeral by (cases a; cases b) (simp_all del: goodix_command_value.simps)

instantiation goodix_command_id :: linorder
begin

definition less_eq_goodix_command_id :: "goodix_command_id \<Rightarrow> goodix_command_id \<Rightarrow> bool" where
  "less_eq_goodix_command_id a b \<longleftrightarrow> goodix_command_value a \<le> goodix_command_value b"

definition less_goodix_command_id :: "goodix_command_id \<Rightarrow> goodix_command_id \<Rightarrow> bool" where
  "less_goodix_command_id a b \<longleftrightarrow> goodix_command_value a < goodix_command_value b"

instance
  by standard (auto simp: less_eq_goodix_command_id_def less_goodix_command_id_def
      intro: goodix_command_value_inj)

end

text \<open>Every command identity is distinct on the wire, has the continuation bit clear, and is
  rebuilt from its own category and operation, so no two commands share a category and an
  operation.\<close>

theorem goodix_command_identity:
  "(goodix_command_value a = goodix_command_value b \<longleftrightarrow> a = b) \<and>
   \<not> goodix_wire_command_continuation (goodix_command_value a) \<and>
   goodix_wire_command_id (ucast (goodix_wire_command_category (goodix_command_value a)))
     (ucast (goodix_wire_command_operation (goodix_command_value a))) = goodix_command_value a"
proof (intro conjI)
  show "(goodix_command_value a = goodix_command_value b) = (a = b)"
    using goodix_command_value_inj [of a b] by blast
  have "\<exists>c w. goodix_command_value a = goodix_wire_command_id c w"
    by (cases a) (simp_all only: goodix_command_value.simps, blast+)
  then obtain c w where eq: "goodix_command_value a = goodix_wire_command_id c w" by blast
  show "\<not> goodix_wire_command_continuation (goodix_command_value a)"
    unfolding eq by (rule command_id_fields)
  show "goodix_wire_command_id (ucast (goodix_wire_command_category (goodix_command_value a)))
      (ucast (goodix_wire_command_operation (goodix_command_value a))) = goodix_command_value a"
    by (cases a) (simp_all add: goodix_wire_command_id_def goodix_wire_command_category_def
        goodix_wire_command_operation_def)
qed

section \<open>Command payloads\<close>

definition goodix_command_encode_nop :: bytes where
  "goodix_command_encode_nop = replicate 4 0"

definition goodix_command_encode_default :: "byte \<Rightarrow> bytes" where
  "goodix_command_encode_default unused_flags = [unused_flags, 0]"

definition goodix_command_encode_none :: bytes where
  "goodix_command_encode_none = [0, 0]"

definition goodix_command_encode_idle :: "byte \<Rightarrow> bytes" where
  "goodix_command_encode_idle sleep_time = [sleep_time, 0]"

definition goodix_command_encode_reset :: "bool \<Rightarrow> bool \<Rightarrow> byte \<Rightarrow> bytes" where
  "goodix_command_encode_reset reset_sensor soft_reset_mcu sleep_time =
     [(if reset_sensor then 0x01 else 0) OR (if soft_reset_mcu then 0x02 else 0), sleep_time]"

definition goodix_command_encode_register_read :: "u16 \<Rightarrow> byte \<Rightarrow> bytes" where
  "goodix_command_encode_register_read address len = [0] @ le16_bytes address @ [len, 0]"

definition goodix_command_encode_register_write :: "u16 \<Rightarrow> u16 \<Rightarrow> bytes" where
  "goodix_command_encode_register_write address v = [0] @ le16_bytes address @ le16_bytes v"

definition goodix_command_encode_powerdown_frequency :: "u16 \<Rightarrow> bytes" where
  "goodix_command_encode_powerdown_frequency frequency = le16_bytes frequency"

definition goodix_command_encode_enable_chip :: "bool \<Rightarrow> bytes" where
  "goodix_command_encode_enable_chip enable = [if enable then 1 else 0, 0]"

definition goodix_command_encode_storage_header :: "u32 \<Rightarrow> u32 \<Rightarrow> bytes" where
  "goodix_command_encode_storage_header type len = le32_bytes type @ le32_bytes len"

lemmas command_payload_defs = goodix_command_encode_nop_def goodix_command_encode_default_def
  goodix_command_encode_none_def goodix_command_encode_idle_def goodix_command_encode_reset_def
  goodix_command_encode_register_read_def goodix_command_encode_register_write_def
  goodix_command_encode_powerdown_frequency_def goodix_command_encode_enable_chip_def
  goodix_command_encode_storage_header_def

lemma command_payload_lengths [simp]:
  "length goodix_command_encode_nop = 4"
  "length (goodix_command_encode_default f) = 2"
  "length goodix_command_encode_none = 2"
  "length (goodix_command_encode_idle t) = 2"
  "length (goodix_command_encode_reset r s t) = 2"
  "length (goodix_command_encode_register_read a n) = 5"
  "length (goodix_command_encode_register_write a v) = 5"
  "length (goodix_command_encode_powerdown_frequency w) = 2"
  "length (goodix_command_encode_enable_chip e) = 2"
  "length (goodix_command_encode_storage_header ty m) = 8"
  by (simp_all add: command_payload_defs)

lemma register_write_fields:
  "le16_at (goodix_command_encode_register_write a v) 1 = a"
  "le16_at (goodix_command_encode_register_write a v) 3 = v"
  by (simp_all add: goodix_command_encode_register_write_def le16_at_def le16_bytes_def le16_join)

lemma storage_header_fields:
  "le32_at (goodix_command_encode_storage_header ty n @ rest) 0 = ty"
  "le32_at (goodix_command_encode_storage_header ty n @ rest) 4 = n"
  using le32_join [of ty] le32_join [of n]
  by (simp_all add: goodix_command_encode_storage_header_def le32_at_def le32_bytes_def)

interpretation storage_header: codec
  "\<lambda>(ty, n). goodix_command_encode_storage_header ty n"
  "\<lambda>h. if length h = 8 then Some (le32_at h 0, le32_at h 4) else None" "\<lambda>_. True"
  by unfold_locales (use storage_header_fields [where rest = "[]"] in auto)

text \<open>A register write put on the wire is read back as the same command, register address and
  value.\<close>

theorem register_write_on_the_wire:
  assumes "goodix_wire_encode_command (goodix_command_value GOODIX_COMMAND_WRITE_SENSOR_REGISTER)
      (Some (goodix_command_encode_register_write address v)) 5 output = Some (output', n)"
  shows "n = 9 \<and> (\<exists>payload. goodix_wire_decode_command output' False =
      Some (goodix_command_value GOODIX_COMMAND_WRITE_SENSOR_REGISTER, payload) \<and>
    payload ! 0 = 0 \<and> le16_at payload 1 = address \<and> le16_at payload 3 = v)"
proof -
  let ?p = "goodix_command_encode_register_write address v"
    and ?c = "goodix_command_value GOODIX_COMMAND_WRITE_SENSOR_REGISTER"
  have "9 \<le> length output"
    using assms by (auto simp: goodix_wire_encode_command_def Let_def split: if_splits)
  then have "output' = wire_packet ?c ?p @ drop 9 output" "n = 9"
    using assms encode_command_packet [of ?p "output" ?c] by simp_all
  then have "goodix_wire_decode_command output' False = Some (?c, ?p)" "n = 9"
    using decode_wire_packet [where p = ?p and c = ?c] by simp_all
  moreover have "?p ! 0 = 0" by (simp add: goodix_command_encode_register_write_def)
  ultimately show ?thesis by (simp add: register_write_fields [unfolded One_nat_def])
qed

theorem register_write_on_the_wire_witness:
  "(9 :: nat) = 9 \<and> (\<exists>payload. goodix_wire_decode_command
      (wire_packet (goodix_command_value GOODIX_COMMAND_WRITE_SENSOR_REGISTER)
        (goodix_command_encode_register_write 0x0220 0x0801)) False =
      Some (goodix_command_value GOODIX_COMMAND_WRITE_SENSOR_REGISTER, payload) \<and>
    payload ! 0 = 0 \<and> le16_at payload 1 = 0x0220 \<and> le16_at payload 3 = 0x0801)"
proof (rule register_write_on_the_wire)
  show "goodix_wire_encode_command (goodix_command_value GOODIX_COMMAND_WRITE_SENSOR_REGISTER)
      (Some (goodix_command_encode_register_write 0x0220 0x0801)) 5 (replicate 9 0) =
    Some (wire_packet (goodix_command_value GOODIX_COMMAND_WRITE_SENSOR_REGISTER)
        (goodix_command_encode_register_write 0x0220 0x0801), 9)"
    using encode_command_packet [of "goodix_command_encode_register_write 0x0220 0x0801" "replicate 9 0"]
    by simp
qed

end
