(* ===== verification/Goodix_Image.thy ===== *)
theory Goodix_Image
  imports Goodix_Codec
begin

text \<open>
  The raw12 unpacking of goodix-image.c (six bytes hold four 12-bit pixels) and the sensor
  profile table of goodix-sensor-profile.c. The pixel array is passed in and returned updated.
  \<open>raw12_pack\<close> is the abstract packing that the decoder inverts.
\<close>

section \<open>Raw12 unpacking\<close>

definition raw12_group :: "bytes \<Rightarrow> u16 list" where
  "raw12_group source =
    [push_bit 8 (ucast (source ! 0 AND 0x0f)) OR ucast (source ! 1),
     push_bit 4 (ucast (source ! 3)) OR ucast (drop_bit 4 (source ! 0)),
     push_bit 8 (ucast (source ! 5 AND 0x0f)) OR ucast (source ! 2),
     push_bit 4 (ucast (source ! 4)) OR ucast (drop_bit 4 (source ! 5))]"

definition goodix_raw12_decode :: "bytes \<Rightarrow> u16 list \<Rightarrow> u16 list \<times> nat" where
  "goodix_raw12_decode packed pixels =
     (let groups = min (length packed div 6) (length pixels div 4)
      in (foldl (\<lambda>px group. write_at px (group * 4) (raw12_group (drop (group * 6) packed)))
            pixels [0..<groups],
          groups * 4))"

text \<open>The packing that the sensor uses, as the comments of the decoder describe it.\<close>

definition raw12_pack_group :: "u16 list \<Rightarrow> bytes" where
  "raw12_pack_group px =
    [ucast (drop_bit 8 (px ! 0)) OR push_bit 4 (ucast (px ! 1)),
     ucast (px ! 0), ucast (px ! 2), ucast (drop_bit 4 (px ! 1)), ucast (drop_bit 4 (px ! 3)),
     ucast (drop_bit 8 (px ! 2)) OR push_bit 4 (ucast (px ! 3))]"

definition raw12_pack :: "u16 list \<Rightarrow> bytes" where
  "raw12_pack px = concat (map (\<lambda>g. raw12_pack_group (drop (4 * g) px)) [0..<length px div 4])"

lemma length_raw12_group [simp]: "length (raw12_group s) = 4"
  by (simp add: raw12_group_def)

lemma length_raw12_pack_group [simp]: "length (raw12_pack_group p) = 6"
  by (simp add: raw12_pack_group_def)

lemma mask_low_4: "(0x0f :: byte) = mask 4"
  by (simp add: mask_eq_exp_minus_1)

lemma bit_12: "(p :: u16) < 4096 \<Longrightarrow> bit p n \<Longrightarrow> n < 12"
proof (rule ccontr)
  assume p: "p < 4096" "bit p n" and "\<not> n < 12"
  have "p = take_bit 12 p"
    using p(1) take_bit_word_iff [of 12 p] by (simp add: word_less_nat_alt)
  then have "bit (take_bit 12 p) n" using p(2) by simp
  with \<open>\<not> n < 12\<close> show False by (simp add: bit_take_bit_iff)
qed

lemma raw12_high_low:
  assumes "p < 4096"
  shows "push_bit 8 (ucast ((ucast (drop_bit 8 p) OR push_bit 4 (ucast (q :: u16)) :: byte) AND 0x0f))
      OR ucast (ucast p :: byte) = (p :: u16)" (is ?low)
    and "q < 4096 \<Longrightarrow> push_bit 4 (ucast (ucast (drop_bit 4 p) :: byte))
      OR ucast (drop_bit 4 (ucast (drop_bit 8 (q :: u16)) OR push_bit 4 (ucast p) :: byte)) = p"
proof -
  show ?low
    unfolding mask_low_4 by (rule bit_word_eqI) (auto simp: bit_simps dest: bit_12 [OF assms])
  show "push_bit 4 (ucast (ucast (drop_bit 4 p) :: byte))
      OR ucast (drop_bit 4 (ucast (drop_bit 8 (q :: u16)) OR push_bit 4 (ucast p) :: byte)) = p"
    if "q < 4096"
    by (rule bit_word_eqI) (auto simp: bit_simps dest: bit_12 [OF assms] bit_12 [OF that])
qed

lemma raw12_group_pack:
  assumes "length px = 4" and "\<forall>p \<in> set px. p < 4096"
  shows "raw12_group (raw12_pack_group px @ rest) = px"
proof -
  obtain a b c d where px: "px = [a, b, c, d]"
    using list_of_length_4 [OF assms(1)] by blast
  with assms(2) have lt: "a < 4096" "b < 4096" "c < 4096" "d < 4096" by simp_all
  show ?thesis
    using raw12_high_low(1) [OF lt(1), of b] raw12_high_low(1) [OF lt(3), of d]
      raw12_high_low(2) [OF lt(2) lt(1)] raw12_high_low(2) [OF lt(4) lt(3)]
    unfolding px by (simp add: raw12_group_def raw12_pack_group_def)
qed

lemma raw12_group_cong: "take 6 s = take 6 t \<Longrightarrow> 6 \<le> length s \<Longrightarrow> 6 \<le> length t \<Longrightarrow> raw12_group s = raw12_group t"
proof -
  assume eq: "take 6 s = take 6 t"
  have "s ! i = t ! i" if "i < 6" for i
    using that arg_cong [OF eq, of "\<lambda>l. l ! i"] by simp
  then show ?thesis by (simp add: raw12_group_def)
qed

lemma raw12_group_bound: "p \<in> set (raw12_group s) \<Longrightarrow> p < 4096"
proof -
  have small: "(push_bit 8 (ucast (x AND 0x0f)) OR ucast y :: u16) < 4096"
    "(push_bit 4 (ucast y) OR ucast (drop_bit 4 x) :: u16) < 4096" for x y :: byte
  proof -
    have "take_bit 12 (push_bit 8 (ucast (x AND 0x0f)) OR ucast y :: u16) = push_bit 8 (ucast (x AND 0x0f)) OR ucast y"
      unfolding mask_low_4 by (rule bit_word_eqI) (auto simp: bit_simps dest: bit_imp_le_length)
    moreover have "take_bit 12 (push_bit 4 (ucast y) OR ucast (drop_bit 4 x) :: u16) = push_bit 4 (ucast y) OR ucast (drop_bit 4 x)"
      by (rule bit_word_eqI) (auto simp: bit_simps dest: bit_imp_le_length)
    ultimately show "(push_bit 8 (ucast (x AND 0x0f)) OR ucast y :: u16) < 4096"
      "(push_bit 4 (ucast y) OR ucast (drop_bit 4 x) :: u16) < 4096"
      by (simp_all only: take_bit_word_iff word_less_nat_alt) simp_all
  qed
  assume "p \<in> set (raw12_group s)"
  then show ?thesis by (auto simp: raw12_group_def small)
qed

text \<open>The loop fills the pixel array group by group.\<close>

lemma raw12_loop:
  "n * 4 \<le> length pixels \<Longrightarrow>
   foldl (\<lambda>px group. write_at px (group * 4) (raw12_group (drop (group * 6) packed))) pixels [0..<n] =
   concat (map (\<lambda>g. raw12_group (drop (g * 6) packed)) [0..<n]) @ drop (n * 4) pixels"
proof (induction n)
  case (Suc n)
  have "length (concat (map (\<lambda>g. raw12_group (drop (g * 6) packed)) [0..<n])) = n * 4"
    by (induction n) simp_all
  with Suc show ?case by (simp add: write_at_def)
qed simp

lemma length_raw12_pack: "length (raw12_pack px) = 6 * (length px div 4)"
proof -
  have "length (concat (map (\<lambda>g. raw12_pack_group (drop (4 * g) px)) [0..<n])) = 6 * n" for n
    by (induction n) simp_all
  then show ?thesis by (simp add: raw12_pack_def)
qed

lemma drop_concat_map:
  assumes "\<And>g. length (f g) = k" and "g < n"
  shows "take k (drop (g * k) (concat (map f [0..<n]))) = f g"
  using assms(2)
proof (induction n)
  case (Suc n)
  have len: "length (concat (map f [0..<m])) = m * k" for m
    by (induction m) (simp_all add: assms(1))
  show ?case
  proof (cases "g = n")
    case False
    then have "g * k + k \<le> n * k" using Suc.prems by (metis Suc_leI add.commute less_antisym mult_Suc mult_le_mono1)
    then show ?thesis using Suc False by (simp add: len)
  qed (simp add: len assms(1))
qed simp

lemma concat_groups_of_4:
  "length px = 4 * n \<Longrightarrow> concat (map (\<lambda>g. take 4 (drop (4 * g) px)) [0..<n]) = px"
proof -
  have "concat (map (\<lambda>g. take 4 (drop (4 * g) px)) [0..<m]) = take (4 * m) px" for m
    by (induction m) (simp_all add: take_add [symmetric] add.commute)
  moreover assume "length px = 4 * n"
  ultimately show ?thesis by simp
qed

lemma raw12_decode_pack:
  assumes "length px mod 4 = 0" and "\<forall>p \<in> set px. p < 4096" and "length px \<le> length pixels"
  shows "goodix_raw12_decode (raw12_pack px) pixels = (px @ drop (length px) pixels, length px)"
proof -
  define n where "n = length px div 4"
  have n: "length px = 4 * n" using assms(1) unfolding n_def by presburger
  have groups: "min (length (raw12_pack px) div 6) (length pixels div 4) = n"
    using assms(3) n by (simp add: length_raw12_pack)
  have "raw12_group (drop (g * 6) (raw12_pack px)) = take 4 (drop (4 * g) px)" if g: "g < n" for g
  proof -
    have l4: "length (take 4 (drop (4 * g) px)) = 4" using g n by simp
    have "raw12_pack_group (drop (4 * g) px) = raw12_pack_group (take 4 (drop (4 * g) px))"
      by (simp add: raw12_pack_group_def)
    moreover have "take 6 (drop (g * 6) (raw12_pack px)) = raw12_pack_group (drop (4 * g) px)"
      unfolding raw12_pack_def using g n by (intro drop_concat_map) simp_all
    ultimately have "raw12_group (drop (g * 6) (raw12_pack px)) = raw12_group (raw12_pack_group (take 4 (drop (4 * g) px)) @ [])"
      using g n by (intro raw12_group_cong) (simp_all add: length_raw12_pack)
    then show ?thesis
      using raw12_group_pack [OF l4, of "[]"] assms(2) by (auto dest!: in_set_takeD in_set_dropD)
  qed
  then have "map (\<lambda>g. raw12_group (drop (g * 6) (raw12_pack px))) [0..<n] = map (\<lambda>g. take 4 (drop (4 * g) px)) [0..<n]"
    by (intro map_cong) simp_all
  then have "concat (map (\<lambda>g. raw12_group (drop (g * 6) (raw12_pack px))) [0..<n]) = px"
    using concat_groups_of_4 [OF n] by (simp only:)
  moreover have "n * 4 \<le> length pixels" using assms(3) n by simp
  ultimately show ?thesis
    by (simp add: goodix_raw12_decode_def groups raw12_loop n mult.commute)
qed

interpretation raw12: codec raw12_pack
  "\<lambda>packed. Some (fst (goodix_raw12_decode packed (replicate (length packed div 6 * 4) 0)))"
  "\<lambda>px. length px mod 4 = 0 \<and> (\<forall>p \<in> set px. p < 4096)"
proof (unfold_locales, elim conjE)
  fix px :: "u16 list"
  assume px: "length px mod 4 = 0" "\<forall>p \<in> set px. p < 4096"
  then have "length px \<le> length (replicate (length (raw12_pack px) div 6 * 4) (0 :: u16))"
    by (simp add: length_raw12_pack) presburger
  then show "Some (fst (goodix_raw12_decode (raw12_pack px) (replicate (length (raw12_pack px) div 6 * 4) 0))) = Some px"
    using raw12_decode_pack [OF px] px(1) by (simp add: length_raw12_pack)
qed

text \<open>Unpacking inverts the raw12 packing: whole groups of 12-bit pixels come back unchanged at
  the start of the pixel array, the rest of the array is kept, and the count returned is the
  number of pixels.\<close>

theorem goodix_raw12_roundtrip:
  assumes "length px mod 4 = 0" and "\<forall>p \<in> set px. p < 4096" and "length px \<le> length pixels"
  shows "goodix_raw12_decode (raw12_pack px) pixels = (px @ drop (length px) pixels, length px)"
  using assms by (rule raw12_decode_pack)

theorem goodix_raw12_roundtrip_witness:
  "goodix_raw12_decode (raw12_pack [1, 0xfff, 0x123, 7]) [0, 0, 0, 0, 5] =
    ([1, 0xfff, 0x123, 7] @ drop (length [1, 0xfff, 0x123, 7 :: u16]) [0, 0, 0, 0, 5], length [1, 0xfff, 0x123, 7 :: u16])"
  by (rule goodix_raw12_roundtrip) simp_all

text \<open>Unpacking any bytes writes only within the pixel array: it keeps the array's length,
  writes whole groups bounded by both sizes, every written pixel is a 12-bit value, and pixels
  after the count are untouched.\<close>

theorem goodix_raw12_decode_bounds:
  "case goodix_raw12_decode packed pixels of (pixels', n) \<Rightarrow>
     length pixels' = length pixels \<and> n = 4 * min (length packed div 6) (length pixels div 4) \<and>
     set (take n pixels') \<subseteq> {p. p < 4096} \<and> drop n pixels' = drop n pixels"
proof -
  define n where "n = min (length packed div 6) (length pixels div 4)"
  let ?g = "concat (map (\<lambda>g. raw12_group (drop (g * 6) packed)) [0..<n])"
  have len: "length ?g = n * 4" by (induction n) simp_all
  have le: "n * 4 \<le> length pixels" by (simp add: n_def)
  have "set ?g \<subseteq> {p. p < 4096}" using raw12_group_bound by auto
  with len le raw12_loop [OF le, of packed] show ?thesis
    by (simp add: goodix_raw12_decode_def n_def [symmetric])
qed

section \<open>Sensor profiles (goodix-sensor-profile.c)\<close>

datatype goodix_sensor_algorithm = GOODIX_SENSOR_ALGORITHM_UNKNOWN | GOODIX_SENSOR_ALGORITHM_CHICAGO_HS

record goodix_sensor_profile =
  chip_id :: u32
  sensor_type :: byte
  profile_width :: u16
  profile_height :: u16
  otp_size :: u16
  fdt_trigger_min :: byte
  fdt_trigger_max :: byte
  algorithm :: goodix_sensor_algorithm
  algorithm_name :: string

definition profiles :: "goodix_sensor_profile list" where
  "profiles = [\<lparr> chip_id = 0x2504, sensor_type = 12, profile_width = 80, profile_height = 64,
     otp_size = 64, fdt_trigger_min = 5, fdt_trigger_max = 6,
     algorithm = GOODIX_SENSOR_ALGORITHM_CHICAGO_HS, algorithm_name = ''ChicagoHS'' \<rparr>]"

definition goodix_sensor_profile_lookup :: "u32 \<Rightarrow> goodix_sensor_profile option" where
  "goodix_sensor_profile_lookup chip = find (\<lambda>p. chip_id p = chip) profiles"

lemma goodix_sensor_profile_lookup_Some:
  "goodix_sensor_profile_lookup chip = Some p \<longleftrightarrow> chip = 0x2504 \<and> p = hd profiles"
  by (auto simp: goodix_sensor_profile_lookup_def profiles_def)

end
