(* ===== verification/Chicago_Calibration.thy ===== *)
theory Chicago_Calibration
  imports Goodix_Crc Goodix_Codec
begin

text \<open>
  goodix-chicago-calibration.c: the 0x224b0-byte calibration payload (two CRC words, the Q13
  gain map, the offset or image-base map, the temporal sample count, opaque rest), its
  generation and rebasing from a finger-free frame, and the sensor-bound file that holds it.
  A \<open>GBytes\<close> is its byte list; \<open>g_file_set_contents\<close> and \<open>g_file_get_contents\<close> are
  parameters over a file system state of any type.
\<close>

declare upt_rec_numeral [simp del]

section \<open>Layout\<close>

abbreviation (input) SENSOR_ID_LEN :: nat where "SENSOR_ID_LEN \<equiv> 16"
abbreviation (input) CALIBRATION_PAYLOAD_LEN :: nat where "CALIBRATION_PAYLOAD_LEN \<equiv> 0x224b0"
abbreviation (input) CALIBRATION_FILE_LEN :: nat where
  "CALIBRATION_FILE_LEN \<equiv> SENSOR_ID_LEN + CALIBRATION_PAYLOAD_LEN"
abbreviation (input) IMAGE_WIDTH :: nat where "IMAGE_WIDTH \<equiv> 80"
abbreviation (input) IMAGE_HEIGHT :: nat where "IMAGE_HEIGHT \<equiv> 64"
abbreviation (input) PIXELS :: nat where "PIXELS \<equiv> 5120"
abbreviation (input) MAP_BYTES :: nat where "MAP_BYTES \<equiv> 10240"
abbreviation (input) OFFSET_MAP_CRC_OFFSET :: nat where "OFFSET_MAP_CRC_OFFSET \<equiv> 4"
abbreviation (input) GAIN_MAP_OFFSET :: nat where "GAIN_MAP_OFFSET \<equiv> 8"
abbreviation (input) OFFSET_MAP_OFFSET :: nat where "OFFSET_MAP_OFFSET \<equiv> 0x9928"
abbreviation (input) TEMPORAL_SAMPLE_COUNT_OFFSET :: nat where "TEMPORAL_SAMPLE_COUNT_OFFSET \<equiv> 0x18488"

section \<open>The map CRC: reflected CRC-32 without final complement\<close>

definition crc32_reflected_bit :: "u32 \<Rightarrow> u32" where
  "crc32_reflected_bit crc = drop_bit 1 crc XOR (if crc AND 1 \<noteq> 0 then 0xedb88320 else 0)"

definition calibration_map_crc32 :: "bytes \<Rightarrow> nat \<Rightarrow> u32" where
  "calibration_map_crc32 data len =
     foldl (\<lambda>crc b. (crc32_reflected_bit ^^ 8) (crc XOR ucast b)) 0xffffffff (take len data)"

definition lsb_place :: "nat \<Rightarrow> byte \<Rightarrow> u32" where
  "lsb_place k b = push_bit (8 * k) (ucast b)"

lemma crc32_reflected_bit_alt:
  "crc32_reflected_bit x = drop_bit 1 x XOR (if bit x 0 then 0xedb88320 else 0)"
  by (simp add: crc32_reflected_bit_def and_one_eq bit_0 odd_iff_mod_2_eq_one even_iff_mod_2_eq_zero)

lemma crc32_reflected_clears:
  "(\<And>j. j < n \<Longrightarrow> \<not> bit x j) \<Longrightarrow> (crc32_reflected_bit ^^ n) x = drop_bit n x"
proof (induction n)
  case (Suc n)
  have "(crc32_reflected_bit ^^ n) x = drop_bit n x" using Suc by simp
  moreover have "\<not> bit (drop_bit n x) 0" using Suc.prems(1) [of n] by (simp add: bit_drop_bit_eq)
  ultimately show ?case
    using crc32_reflected_bit_alt [of "drop_bit n x"] by (simp add: drop_bit_drop_bit)
qed simp

interpretation map_crc: crc_register crc32_reflected_bit lsb_place
proof
  fix x y :: u32
  show "crc32_reflected_bit (x XOR y) = crc32_reflected_bit x XOR crc32_reflected_bit y"
    by (auto simp: crc32_reflected_bit_alt drop_bit_xor bit_xor_iff xor.assoc xor.left_commute)
next
  fix x :: u32 assume z: "crc32_reflected_bit x = 0"
  have high: "\<not> bit (drop_bit 1 x) 31" using bit_imp_le_length [of x 32] by (auto simp: bit_drop_bit_eq)
  have "\<not> bit x 0"
  proof
    assume "bit x 0"
    then have "bit (crc32_reflected_bit x) 31 = bit (0xedb88320 :: u32) 31"
      using high by (simp only: crc32_reflected_bit_alt bit_xor_iff if_True) simp
    moreover have "bit (0xedb88320 :: u32) 31" by simp
    ultimately show False using z by simp
  qed
  moreover have "drop_bit 1 x = 0" using z \<open>\<not> bit x 0\<close> by (simp add: crc32_reflected_bit_alt)
  ultimately have "\<not> bit x n" for n
    by (cases n) (use bit_drop_bit_eq [of 1 x] in \<open>auto simp: fun_eq_iff\<close>)
  then show "x = 0" by (auto intro: bit_word_eqI)
next
  fix k :: nat and b :: byte
  have "(crc32_reflected_bit ^^ 8) (lsb_place (Suc k) b) = drop_bit 8 (lsb_place (Suc k) b)"
    by (intro crc32_reflected_clears) (simp add: lsb_place_def bit_push_bit_iff)
  moreover assume "k < 3"
  ultimately show "(crc32_reflected_bit ^^ 8) (lsb_place (Suc k) b) = lsb_place k b"
    by (auto simp: lsb_place_def bit_simps intro!: bit_word_eqI) (drule byte_bit_low, simp)
next
  fix a b c d a' b' c' d' :: byte
  assume "lsb_place 0 a XOR lsb_place 1 b XOR lsb_place 2 c XOR lsb_place 3 d =
       lsb_place 0 a' XOR lsb_place 1 b' XOR lsb_place 2 c' XOR lsb_place 3 d'"
  then have "bit (lsb_place 0 a XOR lsb_place 1 b XOR lsb_place 2 c XOR lsb_place 3 d) n =
       bit (lsb_place 0 a' XOR lsb_place 1 b' XOR lsb_place 2 c' XOR lsb_place 3 d') n" for n
    by simp
  note eq = this
  have "bit a n = bit a' n \<and> bit b n = bit b' n \<and> bit c n = bit c' n \<and> bit d n = bit d' n"
    if n: "n < 8" for n
  proof (intro conjI)
    show "bit a n = bit a' n"
      using eq [of n] n by (simp add: lsb_place_def bit_simps byte_bit_high)
    show "bit b n = bit b' n"
      using eq [of "8 + n"] n by (simp add: lsb_place_def bit_simps byte_bit_high)
    show "bit c n = bit c' n"
      using eq [of "16 + n"] n by (simp add: lsb_place_def bit_simps byte_bit_high)
    show "bit d n = bit d' n"
      using eq [of "24 + n"] n by (simp add: lsb_place_def bit_simps byte_bit_high)
  qed
  then show "a = a' \<and> b = b' \<and> c = c' \<and> d = d'"
    by (auto intro: byte_eqI)
qed

lemma map_crc_step_eq:
  "(\<lambda>crc b. (crc32_reflected_bit ^^ 8) (crc XOR ucast b)) = crc_byte_step crc32_reflected_bit lsb_place"
  by (intro ext) (simp add: crc_byte_step_def lsb_place_def)

lemma calibration_map_crc32_update:
  "i < len \<Longrightarrow> len \<le> length data \<Longrightarrow>
   calibration_map_crc32 (data[i := b]) len = calibration_map_crc32 data len \<longleftrightarrow> b = data ! i"
  using map_crc.detects_update [of i "take len data" "0xffffffff" b]
  by (simp add: calibration_map_crc32_def map_crc_step_eq take_update_swap)

section \<open>Building a calibration\<close>

text \<open>
  \<open>prepare_image_base\<close> is the local array \<open>prepared\<close> of \<open>calibration_set_image_base\<close>: the
  12-bit clamp and the repair of the non-corner samples of the first and last rows.
\<close>

definition prepare_image_base :: "u16 list \<Rightarrow> u16 list" where
  "prepare_image_base image_base =
     foldl (\<lambda>prepared column.
              let p1 = prepared[column := prepared ! (IMAGE_WIDTH + column)]
              in p1[(IMAGE_HEIGHT - 1) * IMAGE_WIDTH + column :=
                    p1 ! ((IMAGE_HEIGHT - 2) * IMAGE_WIDTH + column)])
       (map (\<lambda>pixel. min (image_base ! pixel) 0x0fff) [0..<PIXELS])
       [1..<IMAGE_WIDTH - 1]"

definition calibration_set_image_base :: "bytes \<Rightarrow> u16 list \<Rightarrow> bytes" where
  "calibration_set_image_base payload image_base =
     (let p1 = write_le16s payload OFFSET_MAP_OFFSET (prepare_image_base image_base)
      in write_at p1 OFFSET_MAP_CRC_OFFSET
           (le32_bytes (calibration_map_crc32 (drop OFFSET_MAP_OFFSET p1) MAP_BYTES)))"

text \<open>The version marker "Preprocess_v_1.01.01" with its terminating zero.\<close>

definition calibration_version :: bytes where
  "calibration_version = [0x50, 0x72, 0x65, 0x70, 0x72, 0x6f, 0x63, 0x65, 0x73, 0x73, 0x5f, 0x76,
     0x5f, 0x31, 0x2e, 0x30, 0x31, 0x2e, 0x30, 0x31, 0]"

definition goodix_chicago_calibration_generate :: "u16 list \<Rightarrow> bytes" where
  "goodix_chicago_calibration_generate image_base =
     (let p0 = replicate CALIBRATION_PAYLOAD_LEN 0;
          p1 = write_le16s p0 GAIN_MAP_OFFSET (replicate PIXELS 0x2000);
          p2 = write_at p1 0 (le32_bytes (calibration_map_crc32 (drop GAIN_MAP_OFFSET p1) MAP_BYTES));
          p3 = calibration_set_image_base p2 image_base;
          p4 = write_at p3 TEMPORAL_SAMPLE_COUNT_OFFSET (le32_bytes 0)
      in write_at p4 0x22490 calibration_version)"

definition goodix_chicago_calibration_validate_payload :: "bytes \<Rightarrow> unit result" where
  "goodix_chicago_calibration_validate_payload data =
     (if length data \<noteq> CALIBRATION_PAYLOAD_LEN then Inl G_IO_ERROR_INVALID_DATA
      else if le32_at data 0 \<noteq> calibration_map_crc32 (drop GAIN_MAP_OFFSET data) MAP_BYTES \<or>
              le32_at data OFFSET_MAP_CRC_OFFSET \<noteq>
                calibration_map_crc32 (drop OFFSET_MAP_OFFSET data) MAP_BYTES
      then Inl G_IO_ERROR_INVALID_DATA
      else Inr ())"

definition goodix_chicago_calibration_rebase :: "bytes \<Rightarrow> u16 list \<Rightarrow> bytes result" where
  "goodix_chicago_calibration_rebase payload image_base =
     (case goodix_chicago_calibration_validate_payload payload of
        Inl e \<Rightarrow> Inl e
      | Inr _ \<Rightarrow> Inr (calibration_set_image_base payload image_base))"

definition goodix_chicago_calibration_get_corrections :: "bytes \<Rightarrow> nat \<Rightarrow> (u16 \<times> u16) result" where
  "goodix_chicago_calibration_get_corrections data pixel =
     (if length data \<noteq> CALIBRATION_PAYLOAD_LEN then Inl G_IO_ERROR_INVALID_DATA
      else if pixel \<ge> PIXELS then Inl G_IO_ERROR_INVALID_ARGUMENT
      else let map_offset = 2 * pixel
           in Inr (le16_at data (GAIN_MAP_OFFSET + map_offset), le16_at data (OFFSET_MAP_OFFSET + map_offset)))"

definition goodix_chicago_calibration_get_temporal_sample_count :: "bytes \<Rightarrow> u32 result" where
  "goodix_chicago_calibration_get_temporal_sample_count data =
     (if length data \<noteq> CALIBRATION_PAYLOAD_LEN then Inl G_IO_ERROR_INVALID_DATA
      else Inr (le32_at data TEMPORAL_SAMPLE_COUNT_OFFSET))"

section \<open>The calibration file\<close>

definition goodix_chicago_calibration_save ::
    "('fs \<Rightarrow> 'path \<Rightarrow> bytes \<Rightarrow> 'fs result) \<Rightarrow> 'fs \<Rightarrow> 'path \<Rightarrow> bytes \<Rightarrow> bytes \<Rightarrow> 'fs result" where
  "goodix_chicago_calibration_save set_contents fs path sensor_id payload =
     (case goodix_chicago_calibration_validate_payload payload of
        Inl e \<Rightarrow> Inl e
      | Inr _ \<Rightarrow> set_contents fs path (take SENSOR_ID_LEN sensor_id @ payload))"

definition goodix_chicago_calibration_load ::
    "('fs \<Rightarrow> 'path \<Rightarrow> bytes result) \<Rightarrow> 'fs \<Rightarrow> 'path \<Rightarrow> bytes \<Rightarrow> bytes result" where
  "goodix_chicago_calibration_load get_contents fs path sensor_id =
     (case get_contents fs path of
        Inl e \<Rightarrow> Inl e
      | Inr contents \<Rightarrow>
          if length contents \<noteq> CALIBRATION_FILE_LEN then Inl G_IO_ERROR_INVALID_DATA
          else if take SENSOR_ID_LEN contents \<noteq> take SENSOR_ID_LEN sensor_id
          then Inl G_IO_ERROR_PERMISSION_DENIED
          else
            let payload = take CALIBRATION_PAYLOAD_LEN (drop SENSOR_ID_LEN contents)
            in case goodix_chicago_calibration_validate_payload payload of
                 Inl e \<Rightarrow> Inl e
               | Inr _ \<Rightarrow> Inr payload)"

section \<open>What the edge repair computes\<close>

text \<open>The row a sample of the prepared frame is taken from.\<close>

definition repair_source :: "nat \<Rightarrow> nat" where
  "repair_source pixel =
     (let row = pixel div IMAGE_WIDTH; column = pixel mod IMAGE_WIDTH in
      if column = 0 \<or> column = IMAGE_WIDTH - 1 then pixel
      else if row = 0 then IMAGE_WIDTH + column
      else if row = IMAGE_HEIGHT - 1 then (IMAGE_HEIGHT - 2) * IMAGE_WIDTH + column
      else pixel)"

lemma edge_repair_loop:
  assumes "length base = PIXELS" and "n \<le> 78"
  defines "body \<equiv> \<lambda>prepared column. let p1 = prepared[column := prepared ! (80 + column)]
      in p1[(64 - 1) * 80 + column := p1 ! ((64 - 2) * 80 + column :: nat)]"
  shows "length (foldl body base [1..<Suc n]) = PIXELS \<and>
    (\<forall>pixel < PIXELS. foldl body base [1..<Suc n] ! pixel =
      base ! (if 1 \<le> pixel \<and> pixel \<le> n then 80 + pixel
              else if 5041 \<le> pixel \<and> pixel \<le> 5040 + n then pixel - 80 else pixel))"
  using assms(2)
proof (induction n)
  case 0
  then show ?case using assms(1) by auto
next
  case (Suc n)
  let ?p = "foldl body base [1..<Suc n]"
  have p: "length ?p = PIXELS" "n < 78" using Suc by simp_all
  have nth: "?p ! pixel = base ! (if 1 \<le> pixel \<and> pixel \<le> n then 80 + pixel
      else if 5041 \<le> pixel \<and> pixel \<le> 5040 + n then pixel - 80 else pixel)" if "pixel < PIXELS" for pixel
    using Suc that by simp
  have step: "foldl body base [1..<Suc (Suc n)] =
      (?p[Suc n := ?p ! (81 + n)])[5041 + n := (?p[Suc n := ?p ! (81 + n)]) ! (4961 + n)]"
    by (simp add: body_def Let_def)
  have up: "?p ! (81 + n) = base ! (81 + n)" using nth [of "81 + n"] p(2) by simp
  have down: "(?p[Suc n := x]) ! (4961 + n) = base ! (4961 + n)" for x
    using nth [of "4961 + n"] p by simp
  show ?case unfolding step up down
  proof (intro conjI allI impI)
    fix pixel assume "pixel < PIXELS"
    then show "(?p[Suc n := base ! (81 + n)])[5041 + n := base ! (4961 + n)] ! pixel =
      base ! (if 1 \<le> pixel \<and> pixel \<le> Suc n then 80 + pixel
              else if 5041 \<le> pixel \<and> pixel \<le> 5040 + Suc n then pixel - 80 else pixel)"
      using p nth [of pixel] by (auto simp: nth_list_update add.commute)
  qed (use p in simp)
qed

lemma length_prepare_image_base [simp]: "length (prepare_image_base image_base) = PIXELS"
  using edge_repair_loop [of "map (\<lambda>pixel. min (image_base ! pixel) 0x0fff) [0..<PIXELS]" 78]
  by (simp add: prepare_image_base_def)

lemma nth_prepare_image_base:
  assumes "pixel < PIXELS"
  shows "prepare_image_base image_base ! pixel = min (image_base ! repair_source pixel) 0x0fff"
proof -
  let ?src = "if 1 \<le> pixel \<and> pixel \<le> 78 then 80 + pixel
      else if 5041 \<le> pixel \<and> pixel \<le> 5118 then pixel - 80 else pixel"
  have src: "repair_source pixel = ?src"
  proof -
    consider "pixel < 80" | "80 \<le> pixel" "pixel < 5040" | "5040 \<le> pixel" by linarith
    then show ?thesis
    proof cases
      case 2
      then have "pixel div 80 \<noteq> 0" "pixel div 80 < 63" by (simp_all add: div_eq_0_iff div_less_iff_less_mult)
      with 2 show ?thesis by (simp add: repair_source_def Let_def)
    next
      case 3
      then have "pixel = 63 * 80 + (pixel - 5040)" "pixel - 5040 < 80" using assms by simp_all
      then have "pixel div 80 = 63" "pixel mod 80 = pixel - 5040"
        by (metis add.commute div_mult_self3 div_less add_cancel_right_left mod_mult_self1 mod_less zero_neq_numeral)+
      with 3 show ?thesis using assms by (auto simp: repair_source_def Let_def)
    qed (auto simp: repair_source_def Let_def)
  qed
  have "?src < PIXELS" using assms by auto
  then show ?thesis
    using edge_repair_loop [of "map (\<lambda>pixel. min (image_base ! pixel) 0x0fff) [0..<PIXELS]" 78] assms
    by (simp add: prepare_image_base_def src)
qed

lemma set_image_base_eq:
  assumes "length payload = CALIBRATION_PAYLOAD_LEN"
  shows "calibration_set_image_base payload image_base =
    write_at (write_at payload OFFSET_MAP_OFFSET (le16s (prepare_image_base image_base)))
      OFFSET_MAP_CRC_OFFSET (le32_bytes (calibration_map_crc32 (le16s (prepare_image_base image_base)) MAP_BYTES))"
  using assms
  by (simp add: calibration_set_image_base_def write_le16s_eq calibration_map_crc32_def
      drop_write_at_same)

text \<open>The parts of a payload that the operations read.\<close>

definition gain_map :: "bytes \<Rightarrow> bytes" where
  "gain_map data = take MAP_BYTES (drop GAIN_MAP_OFFSET data)"

definition offset_map :: "bytes \<Rightarrow> bytes" where
  "offset_map data = take MAP_BYTES (drop OFFSET_MAP_OFFSET data)"

lemma calibration_map_crc32_take [simp]:
  "calibration_map_crc32 (drop k data) n = calibration_map_crc32 (take n (drop k data)) n"
  by (simp add: calibration_map_crc32_def)

lemma validate_iff:
  "goodix_chicago_calibration_validate_payload data = Inr () \<longleftrightarrow>
    length data = CALIBRATION_PAYLOAD_LEN \<and>
    le32_at data 0 = calibration_map_crc32 (gain_map data) MAP_BYTES \<and>
    le32_at data OFFSET_MAP_CRC_OFFSET = calibration_map_crc32 (offset_map data) MAP_BYTES"
  by (simp add: goodix_chicago_calibration_validate_payload_def gain_map_def offset_map_def)

lemma length_set_image_base [simp]:
  "length payload = CALIBRATION_PAYLOAD_LEN \<Longrightarrow>
   length (calibration_set_image_base payload image_base) = CALIBRATION_PAYLOAD_LEN"
  by (simp add: set_image_base_eq)

lemma set_image_base_fields:
  fixes image_base :: "u16 list"
  assumes "length payload = CALIBRATION_PAYLOAD_LEN"
  defines "p \<equiv> calibration_set_image_base payload image_base"
  shows "offset_map p = le16s (prepare_image_base image_base)"
    and "le32_at p OFFSET_MAP_CRC_OFFSET = calibration_map_crc32 (offset_map p) MAP_BYTES"
    and "le32_at p 0 = le32_at payload 0"
    and "gain_map p = gain_map payload"
    and "drop (OFFSET_MAP_OFFSET + MAP_BYTES) p = drop (OFFSET_MAP_OFFSET + MAP_BYTES) payload"
proof -
  let ?map = "le16s (prepare_image_base image_base)"
  have len: "length payload = CALIBRATION_PAYLOAD_LEN" by fact
  have p: "p = write_at (write_at payload OFFSET_MAP_OFFSET ?map) OFFSET_MAP_CRC_OFFSET
      (le32_bytes (calibration_map_crc32 ?map MAP_BYTES))"
    unfolding p_def by (rule set_image_base_eq [OF len])
  have l1: "length (write_at payload OFFSET_MAP_OFFSET ?map) = CALIBRATION_PAYLOAD_LEN"
    using len by simp
  show om: "offset_map p = ?map"
    using len l1 take_drop_write_at_same [of OFFSET_MAP_OFFSET ?map payload]
    by (simp add: p offset_map_def take_drop_write_at_after)
  show "le32_at p OFFSET_MAP_CRC_OFFSET = calibration_map_crc32 (offset_map p) MAP_BYTES"
    unfolding om using l1 by (simp add: p le32_at_write_at)
  show "le32_at p 0 = le32_at payload 0"
    using len l1 by (simp add: p le32_at_write_other)
  show "gain_map p = gain_map payload"
    using len l1 by (simp add: p gain_map_def take_drop_write_at_before take_drop_write_at_after)
  show "drop (OFFSET_MAP_OFFSET + MAP_BYTES) p = drop (OFFSET_MAP_OFFSET + MAP_BYTES) payload"
    using len l1 by (simp add: p drop_write_at_after)
qed

lemma le16_at_map:
  assumes "pixel < PIXELS" and "length data = CALIBRATION_PAYLOAD_LEN"
  shows "le16_at data (GAIN_MAP_OFFSET + 2 * pixel) = le16_at (gain_map data) (2 * pixel)"
    and "le16_at data (OFFSET_MAP_OFFSET + 2 * pixel) = le16_at (offset_map data) (2 * pixel)"
  using assms by (auto simp: gain_map_def offset_map_def intro!: le16_at_cong)

lemma generate_fields:
  fixes image_base :: "u16 list"
  defines "p \<equiv> goodix_chicago_calibration_generate image_base"
  shows "length p = CALIBRATION_PAYLOAD_LEN"
    and "gain_map p = le16s (replicate PIXELS 0x2000)"
    and "offset_map p = le16s (prepare_image_base image_base)"
    and "le32_at p 0 = calibration_map_crc32 (gain_map p) MAP_BYTES"
    and "le32_at p OFFSET_MAP_CRC_OFFSET = calibration_map_crc32 (offset_map p) MAP_BYTES"
    and "le32_at p TEMPORAL_SAMPLE_COUNT_OFFSET = 0"
proof -
  define p0 :: bytes where "p0 = replicate CALIBRATION_PAYLOAD_LEN 0"
  let ?gain = "le16s (replicate PIXELS 0x2000)"
  define p1 where "p1 = write_at p0 GAIN_MAP_OFFSET ?gain"
  define p2 where "p2 = write_at p1 0 (le32_bytes (calibration_map_crc32 ?gain MAP_BYTES))"
  define p3 where "p3 = calibration_set_image_base p2 image_base"
  define p4 where "p4 = write_at p3 TEMPORAL_SAMPLE_COUNT_OFFSET (le32_bytes 0)"
  have l0: "length p0 = CALIBRATION_PAYLOAD_LEN" by (simp add: p0_def)
  then have l1: "length p1 = CALIBRATION_PAYLOAD_LEN" by (simp add: p1_def)
  then have l2: "length p2 = CALIBRATION_PAYLOAD_LEN" by (simp add: p2_def)
  then have l3: "length p3 = CALIBRATION_PAYLOAD_LEN" by (simp add: p3_def)
  then have l4: "length p4 = CALIBRATION_PAYLOAD_LEN" by (simp add: p4_def)
  have lv: "length calibration_version = 21" by (simp add: calibration_version_def)
  have "write_le16s p0 GAIN_MAP_OFFSET (replicate PIXELS 0x2000) = p1"
    using l0 by (simp add: p1_def write_le16s_eq)
  moreover have g1: "take MAP_BYTES (drop GAIN_MAP_OFFSET p1) = ?gain"
    using l0 take_drop_write_at_same [of GAIN_MAP_OFFSET ?gain p0] by (simp add: p1_def)
  ultimately have p: "p = write_at p4 0x22490 calibration_version"
    by (simp add: p_def goodix_chicago_calibration_generate_def Let_def p0_def [symmetric]
        p2_def [symmetric] p3_def [symmetric] p4_def [symmetric])
  show len: "length p = CALIBRATION_PAYLOAD_LEN"
    using l4 by (simp add: p lv)
  note far = take_drop_write_at_before take_drop_write_at_after le32_at_write_other
  have "gain_map p2 = ?gain" using l1 g1 by (simp add: p2_def gain_map_def far)
  then have g3: "gain_map p3 = ?gain" unfolding p3_def by (simp add: set_image_base_fields l2)
  then show gain: "gain_map p = ?gain"
    using l3 l4 by (simp add: p p4_def gain_map_def lv far)
  have om: "offset_map p = offset_map p3"
    using l3 l4 by (simp add: p p4_def offset_map_def lv far)
  then show "offset_map p = le16s (prepare_image_base image_base)"
    unfolding p3_def by (simp add: set_image_base_fields l2)
  have crcs: "le32_at p 0 = le32_at p3 0" "le32_at p OFFSET_MAP_CRC_OFFSET = le32_at p3 OFFSET_MAP_CRC_OFFSET"
    using l3 l4 by (simp_all add: p p4_def lv far)
  have "le32_at p3 0 = le32_at p2 0" unfolding p3_def by (simp add: set_image_base_fields l2)
  also have "\<dots> = calibration_map_crc32 ?gain MAP_BYTES"
    using l1 by (simp add: p2_def le32_at_write_at)
  finally show "le32_at p 0 = calibration_map_crc32 (gain_map p) MAP_BYTES"
    by (simp add: crcs gain)
  show "le32_at p OFFSET_MAP_CRC_OFFSET = calibration_map_crc32 (offset_map p) MAP_BYTES"
    unfolding crcs om unfolding p3_def by (simp add: set_image_base_fields l2)
  show "le32_at p TEMPORAL_SAMPLE_COUNT_OFFSET = 0"
    using l3 l4 le32_at_write_at [of TEMPORAL_SAMPLE_COUNT_OFFSET p3 0]
    by (simp add: p p4_def lv le32_at_write_other)
qed

lemma generate_valid:
  "goodix_chicago_calibration_validate_payload (goodix_chicago_calibration_generate image_base) = Inr ()"
  by (simp add: validate_iff generate_fields)

section \<open>Properties\<close>

text \<open>A freshly generated calibration passes validation, gives every pixel unity Q13 gain and
  the prepared no-finger sample (12-bit clamped, taken from the repaired row) as its offset, and
  starts with a temporal sample count of zero.\<close>

theorem calibration_generate_correct:
  "goodix_chicago_calibration_validate_payload (goodix_chicago_calibration_generate image_base) = Inr () \<and>
   goodix_chicago_calibration_get_temporal_sample_count (goodix_chicago_calibration_generate image_base) = Inr 0 \<and>
   goodix_chicago_calibration_get_corrections (goodix_chicago_calibration_generate image_base) pixel =
     (if pixel < PIXELS then Inr (0x2000, min (image_base ! repair_source pixel) 0x0fff)
      else Inl G_IO_ERROR_INVALID_ARGUMENT)"
proof (intro conjI)
  let ?p = "goodix_chicago_calibration_generate image_base"
  show "goodix_chicago_calibration_validate_payload ?p = Inr ()"
    by (simp add: validate_iff generate_fields)
  show "goodix_chicago_calibration_get_temporal_sample_count ?p = Inr 0"
    by (simp add: goodix_chicago_calibration_get_temporal_sample_count_def generate_fields)
  show "goodix_chicago_calibration_get_corrections ?p pixel =
     (if pixel < PIXELS then Inr (0x2000, min (image_base ! repair_source pixel) 0x0fff)
      else Inl G_IO_ERROR_INVALID_ARGUMENT)"
    by (simp add: goodix_chicago_calibration_get_corrections_def le16_at_map generate_fields
        le16_at_le16s nth_prepare_image_base)
qed



text \<open>C40: A calibration saved for a sensor loads back unchanged for that sensor and is refused for
  any other; the file operations are assumed only to return what was stored.\<close>

theorem calibration_file_roundtrip:
  assumes stored: "\<And>fs path contents fs'. set_contents fs path contents = Inr fs' \<Longrightarrow>
      get_contents fs' path = Inr contents"
    and saved: "goodix_chicago_calibration_save set_contents fs path sensor_id payload = Inr fs'"
    and ids: "length sensor_id = SENSOR_ID_LEN" "length other_id = SENSOR_ID_LEN"
  shows "goodix_chicago_calibration_load get_contents fs' path other_id =
    (if other_id = sensor_id then Inr payload else Inl G_IO_ERROR_PERMISSION_DENIED)"
proof -
  have valid: "goodix_chicago_calibration_validate_payload payload = Inr ()"
    and "set_contents fs path (sensor_id @ payload) = Inr fs'"
    using saved ids by (auto simp: goodix_chicago_calibration_save_def split: sum.splits)
  then have "get_contents fs' path = Inr (sensor_id @ payload)" by (intro stored)
  moreover have "length payload = CALIBRATION_PAYLOAD_LEN" using valid by (simp add: validate_iff)
  ultimately show ?thesis
    using valid ids by (simp add: goodix_chicago_calibration_load_def)
qed

theorem calibration_file_roundtrip_witness:
  "goodix_chicago_calibration_load (\<lambda>fs path. if path = (0 :: nat) then Inr fs else Inl G_IO_ERROR_FAILED)
      (replicate SENSOR_ID_LEN 7 @ goodix_chicago_calibration_generate (replicate PIXELS 0)) 0
      (replicate SENSOR_ID_LEN 8) =
    (if replicate SENSOR_ID_LEN (8 :: byte) = replicate SENSOR_ID_LEN 7
     then Inr (goodix_chicago_calibration_generate (replicate PIXELS 0))
     else Inl G_IO_ERROR_PERMISSION_DENIED)"
  by (rule calibration_file_roundtrip [where fs = "[]" and
        set_contents = "\<lambda>fs path contents. if path = (0 :: nat) then Inr contents else Inl G_IO_ERROR_FAILED"])
    (simp_all add: goodix_chicago_calibration_save_def generate_valid split: if_splits)

text \<open>A valid calibration in which any one byte of the two maps or of their CRC words is changed
  is refused.\<close>

theorem calibration_detects_one_byte:
  assumes "goodix_chicago_calibration_validate_payload payload = Inr ()"
    and i: "i < GAIN_MAP_OFFSET + MAP_BYTES \<or> OFFSET_MAP_OFFSET \<le> i \<and> i < OFFSET_MAP_OFFSET + MAP_BYTES"
    and b: "b \<noteq> payload ! i"
  shows "goodix_chicago_calibration_validate_payload (payload[i := b]) = Inl G_IO_ERROR_INVALID_DATA"
proof -
  let ?q = "payload[i := b]"
  have len: "length payload = CALIBRATION_PAYLOAD_LEN" and il: "i < length payload"
    using assms(1) i by (auto simp: validate_iff)
  have same32: "le32_at ?q k = le32_at payload k \<longleftrightarrow> \<not> (k \<le> i \<and> i < k + 4)" if "k + 4 \<le> length payload" for k
    by (rule le32_at_update) (use that il b in simp_all)
  have maps: "k \<le> i \<Longrightarrow> i < k + n \<Longrightarrow> k + n \<le> length payload \<Longrightarrow>
      take n (drop k ?q) = (take n (drop k payload))[i - k := b]"
    "i < k \<or> k + n \<le> i \<Longrightarrow> take n (drop k ?q) = take n (drop k payload)" for k n
    using il by (auto simp: drop_update_swap take_update_swap list_update_beyond)
  have crc: "k \<le> i \<Longrightarrow> i < k + MAP_BYTES \<Longrightarrow> k + MAP_BYTES \<le> length payload \<Longrightarrow>
      calibration_map_crc32 (take MAP_BYTES (drop k ?q)) MAP_BYTES \<noteq>
      calibration_map_crc32 (take MAP_BYTES (drop k payload)) MAP_BYTES" for k
    using b by (simp add: maps calibration_map_crc32_update)
  consider "i < 4" | "4 \<le> i" "i < 8" | "8 \<le> i" "i < 8 + MAP_BYTES" | "OFFSET_MAP_OFFSET \<le> i" "i < OFFSET_MAP_OFFSET + MAP_BYTES"
    using i by force
  then have "goodix_chicago_calibration_validate_payload ?q \<noteq> Inr ()"
    by cases (use assms(1) len same32 [of 0] same32 [of 4] crc [of 8] crc [of OFFSET_MAP_OFFSET] in
      \<open>auto simp: validate_iff gain_map_def offset_map_def maps\<close>)
  then show ?thesis
    by (auto simp: goodix_chicago_calibration_validate_payload_def split: if_splits)
qed

theorem calibration_detects_one_byte_witness:
  "goodix_chicago_calibration_validate_payload
     ((goodix_chicago_calibration_generate (replicate PIXELS 5))[8 := 1]) = Inl G_IO_ERROR_INVALID_DATA"
proof (rule calibration_detects_one_byte)
  let ?p = "goodix_chicago_calibration_generate (replicate PIXELS 5)"
  show "goodix_chicago_calibration_validate_payload ?p = Inr ()"
    by (simp add: validate_iff generate_fields)
  have "gain_map ?p ! 0 = (0 :: byte)"
    using nth_le16s [of 0 "replicate PIXELS 0x2000"] by (simp add: generate_fields)
  then show "1 \<noteq> ?p ! 8" by (simp add: gain_map_def generate_fields)
qed simp

end
