(* ===== verification/Chicago_Template.thy ===== *)
theory Chicago_Template
  imports Chicago_Calibration
begin

text \<open>
  goodix-chicago-template.c and goodix-chicago-bir.c: the system-template envelope (type, length,
  payload, random field and CRC), the libfprint print data, and the ANSI-381 BIR record of one
  raw frame. A view that points into the caller's bytes is a record holding those bytes; a
  \<open>GVariant\<close> is told apart only by whether it has the type \<open>(uayayay)\<close>; SHA-256 is a parameter.
\<close>

section \<open>The system-template envelope\<close>

abbreviation (input) SYSTEM_TEMPLATE_TYPE_V1 :: u32 where "SYSTEM_TEMPLATE_TYPE_V1 \<equiv> 0xffdffc01"
abbreviation (input) SYSTEM_TEMPLATE_TYPE_V2 :: u32 where "SYSTEM_TEMPLATE_TYPE_V2 \<equiv> 0xffdffc02"
abbreviation (input) V1_RANDOM_LEN :: nat where "V1_RANDOM_LEN \<equiv> 32"
abbreviation (input) V1_TRAILER_LEN :: nat where "V1_TRAILER_LEN \<equiv> 36"
abbreviation (input) V2_HEADER_LEN :: nat where "V2_HEADER_LEN \<equiv> 104"

record template_view =
  view_type :: u32
  declared_payload_len :: u32
  chicago_payload :: bytes
  view_random :: "bytes option"
  stored_crc :: u32

definition template_v1_crc :: "bytes \<Rightarrow> nat \<Rightarrow> u32" where
  "template_v1_crc payload payload_without_crc_len =
     goodix_crc32_mpeg2 payload (unat (of_nat payload_without_crc_len :: u16))"

definition template_type_supported :: "u32 \<Rightarrow> bool" where
  "template_type_supported type \<longleftrightarrow> type = SYSTEM_TEMPLATE_TYPE_V1 \<or> type = SYSTEM_TEMPLATE_TYPE_V2"

definition goodix_chicago_template_parse :: "bytes \<Rightarrow> template_view result" where
  "goodix_chicago_template_parse data =
     (if length data < 8 then Inl G_IO_ERROR_INVALID_DATA
      else
        let type = le32_at data 0; declared = le32_at data 4 in
        if \<not> template_type_supported type then Inl G_IO_ERROR_NOT_SUPPORTED
        else if unat declared \<noteq> length data - 8 then Inl G_IO_ERROR_INVALID_DATA
        else if type = SYSTEM_TEMPLATE_TYPE_V1 then
          if unat declared < V1_TRAILER_LEN then Inl G_IO_ERROR_INVALID_DATA
          else
            let inner_len = unat declared - V1_TRAILER_LEN;
                stored = le32_at data (8 + inner_len + V1_RANDOM_LEN);
                expected = template_v1_crc (drop 8 data) (unat declared - 4)
            in if stored \<noteq> expected then Inl G_IO_ERROR_INVALID_DATA
               else Inr \<lparr> view_type = type, declared_payload_len = declared,
                          chicago_payload = take inner_len (drop 8 data),
                          view_random = Some (take V1_RANDOM_LEN (drop (8 + inner_len) data)),
                          stored_crc = stored \<rparr>
        else if length data < V2_HEADER_LEN then Inl G_IO_ERROR_INVALID_DATA
        else Inr \<lparr> view_type = type, declared_payload_len = declared,
                   chicago_payload = drop V2_HEADER_LEN data, view_random = None, stored_crc = 0 \<rparr>)"

definition goodix_chicago_template_wrap_v1 :: "bytes \<Rightarrow> bytes \<Rightarrow> bytes option" where
  "goodix_chicago_template_wrap_v1 inner random =
     (if \<not> length inner \<le> 0xffffffff - V1_TRAILER_LEN then None
      else
        let payload_len = length inner + V1_TRAILER_LEN;
            body = inner @ take V1_RANDOM_LEN random
        in Some (le32_bytes SYSTEM_TEMPLATE_TYPE_V1 @ le32_bytes (of_nat payload_len) @ body @
                 le32_bytes (template_v1_crc body (payload_len - 4))))"

section \<open>Print data\<close>

datatype g_variant = Uayayay u32 bytes bytes bytes | Other_variant

abbreviation (input) PRINT_DATA_VERSION :: u32 where "PRINT_DATA_VERSION \<equiv> 1"
abbreviation (input) CALIBRATION_DIGEST_LEN :: nat where "CALIBRATION_DIGEST_LEN \<equiv> 32"

definition goodix_chicago_print_data_build ::
    "(bytes \<Rightarrow> bytes) \<Rightarrow> bytes \<Rightarrow> bytes \<Rightarrow> bytes \<Rightarrow> g_variant" where
  "goodix_chicago_print_data_build sha256 sensor_id calibration packed_template =
     Uayayay PRINT_DATA_VERSION (take SENSOR_ID_LEN sensor_id)
       (take CALIBRATION_DIGEST_LEN (sha256 calibration)) packed_template"

fun goodix_chicago_print_data_parse ::
    "g_variant option \<Rightarrow> bytes option \<Rightarrow> bytes \<Rightarrow> bytes result" where
  "goodix_chicago_print_data_parse (Some (Uayayay version sensor digest template)) expected_sensor_id
     expected_calibration =
     (if version \<noteq> PRINT_DATA_VERSION then Inl G_IO_ERROR_NOT_SUPPORTED
      else if length sensor \<noteq> SENSOR_ID_LEN \<or> length digest \<noteq> CALIBRATION_DIGEST_LEN \<or> length template = 0
      then Inl G_IO_ERROR_INVALID_DATA
      else if (case expected_sensor_id of None \<Rightarrow> False | Some e \<Rightarrow> sensor \<noteq> take SENSOR_ID_LEN e)
      then Inl G_IO_ERROR_INVALID_DATA
      else Inr template)"
| "goodix_chicago_print_data_parse _ expected_sensor_id expected_calibration = Inl G_IO_ERROR_NOT_SUPPORTED"

section \<open>The BIR record\<close>

abbreviation (input) BIR_TOTAL_LEN :: nat where "BIR_TOTAL_LEN \<equiv> 10376"
abbreviation (input) BIR_STANDARD_OFFSET :: nat where "BIR_STANDARD_OFFSET \<equiv> 0x50"
abbreviation (input) BIR_PIXELS_OFFSET :: nat where "BIR_PIXELS_OFFSET \<equiv> 0x88"

text \<open>Every header field of the record, in the order it is written.\<close>

definition bir_fields :: "(nat \<times> bytes) list" where
  "bir_fields =
    [(0x00, le32_bytes 0x30), (0x04, le32_bytes 0x20), (0x08, le32_bytes (0x38 + 10240)),
     (0x0c, le32_bytes 0x50), (0x20 + 0x28, le16_bytes 0x001b), (0x20 + 0x2a, le16_bytes 0x0401),
     (0x50 + 0x00, le32_bytes (0x38 + 10240)), (0x50 + 0x08, le32_bytes 0x46495200),
     (0x50 + 0x0c, le32_bytes 0x30313000), (0x50 + 0x10, le16_bytes 0x001b),
     (0x50 + 0x12, le16_bytes 0x0401), (0x50 + 0x14, le16_bytes 1), (0x50 + 0x16, le16_bytes 1),
     (0x50 + 0x18, le16_bytes 500), (0x50 + 0x1a, le16_bytes 500), (0x50 + 0x1c, le16_bytes 500),
     (0x50 + 0x1e, le16_bytes 500), (0x50 + 0x20, [1]), (0x50 + 0x21, [1]), (0x50 + 0x22, [16]),
     (0x50 + 0x23, [0]), (0x50 + 0x28, le32_bytes (0x10 + 10240)), (0x50 + 0x2c, le16_bytes 80),
     (0x50 + 0x2e, le16_bytes 64), (0x50 + 0x30, [2]), (0x50 + 0x31, [1]), (0x50 + 0x32, [1]),
     (0x50 + 0x33, [0xfe])]"

definition goodix_chicago_bir_build :: "u16 list option \<Rightarrow> bytes result" where
  "goodix_chicago_bir_build raw16 =
     (case raw16 of
        None \<Rightarrow> Inl G_IO_ERROR_INVALID_ARGUMENT
      | Some raw \<Rightarrow>
          let rec = foldl (\<lambda>r (off, bs). write_at r off bs) (replicate BIR_TOTAL_LEN 0) bir_fields
          in Inr (write_le16s rec BIR_PIXELS_OFFSET (take PIXELS raw)))"

record bir_view =
  raw16_le :: bytes
  bir_columns :: u16
  bir_rows :: u16

definition bir_wrapper_valid :: "bytes \<Rightarrow> bool" where
  "bir_wrapper_valid data \<longleftrightarrow>
     le32_at data 0x00 = 0x30 \<and> le32_at data 0x04 = 0x20 \<and>
     le32_at data 0x08 = 0x38 + 10240 \<and> le32_at data 0x0c = 0x50"

definition bir_standard_valid :: "bytes \<Rightarrow> bool" where
  "bir_standard_valid standard \<longleftrightarrow>
     le32_at standard 0x00 = 0x38 + 10240 \<and> le32_at standard 0x04 = 0 \<and>
     le32_at standard 0x08 = 0x46495200 \<and> le32_at standard 0x0c = 0x30313000 \<and>
     le16_at standard 0x10 = 0x001b \<and> le16_at standard 0x12 = 0x0401 \<and>
     le16_at standard 0x14 = 1 \<and> le16_at standard 0x16 = 1 \<and>
     le16_at standard 0x18 = 500 \<and> le16_at standard 0x1a = 500 \<and>
     le16_at standard 0x1c = 500 \<and> le16_at standard 0x1e = 500 \<and>
     standard ! 0x20 = 1 \<and> standard ! 0x21 = 1 \<and> standard ! 0x22 = 16 \<and> standard ! 0x23 = 0 \<and>
     le32_at standard 0x28 = 0x10 + 10240 \<and>
     le16_at standard 0x2c = 80 \<and> le16_at standard 0x2e = 64 \<and>
     standard ! 0x30 = 2 \<and> standard ! 0x31 = 1 \<and> standard ! 0x32 = 1 \<and> standard ! 0x33 = 0xfe"

definition goodix_chicago_bir_parse :: "bytes \<Rightarrow> bir_view result" where
  "goodix_chicago_bir_parse data =
     (if length data \<noteq> BIR_TOTAL_LEN then Inl G_IO_ERROR_INVALID_DATA
      else if \<not> bir_wrapper_valid data then Inl G_IO_ERROR_INVALID_DATA
      else if \<not> bir_standard_valid (drop BIR_STANDARD_OFFSET data) then Inl G_IO_ERROR_INVALID_DATA
      else Inr \<lparr> raw16_le = drop BIR_PIXELS_OFFSET data, bir_columns = 80, bir_rows = 64 \<rparr>)"

section \<open>Lemmas on the envelope\<close>

lemma template_v1_crc_take:
  "n = length body \<Longrightarrow> template_v1_crc (body @ rest) n = template_v1_crc body n"
proof -
  assume "n = length body"
  moreover have "unat (of_nat n :: u16) \<le> n" by (simp add: unat_of_nat)
  ultimately show ?thesis by (simp add: template_v1_crc_def goodix_crc32_mpeg2_def)
qed

lemma template_envelope:
  fixes body :: bytes and crc :: u32
  assumes "length body = n + 32" and "n \<le> 0xffffffff - 36"
  defines "d \<equiv> le32_bytes SYSTEM_TEMPLATE_TYPE_V1 @ le32_bytes (of_nat (n + 36)) @ body @ le32_bytes crc"
  shows "goodix_chicago_template_parse d =
    (if crc \<noteq> template_v1_crc body (n + 32) then Inl G_IO_ERROR_INVALID_DATA
     else Inr \<lparr> view_type = SYSTEM_TEMPLATE_TYPE_V1, declared_payload_len = of_nat (n + 36),
       chicago_payload = take n body, view_random = Some (drop n body), stored_crc = crc \<rparr>)"
proof -
  have len: "unat (of_nat (n + 36) :: u32) = n + 36"
    using assms(2) by (simp only: unat_of_nat) simp
  have fields: "le32_at d 0 = SYSTEM_TEMPLATE_TYPE_V1" "le32_at d 4 = of_nat (n + 36)" "length d = n + 44"
    using assms(1) by (simp_all only: d_def le32_at_0_append le32_at_4_append) simp
  have drop8: "drop 8 d = body @ le32_bytes crc" by (simp add: d_def)
  have "le32_at d (n + 40) = le32_at (drop 8 d) (n + 32)"
    using fields(3) by (intro le32_at_cong) (simp add: ac_simps)
  also have "\<dots> = crc"
    using le32_at_append [of body "le32_bytes crc" 0] assms(1) by (simp add: drop8)
  finally have crc: "le32_at d (n + 40) = crc" .
  have "drop (8 + n) d = drop n (drop 8 d)" by (simp only: drop_drop add.commute)
  then have parts: "take n (drop 8 d) = take n body" "take 32 (drop (8 + n) d) = drop n body"
    using assms(1) by (simp_all add: drop8)
  have expected: "template_v1_crc (drop 8 d) (n + 32) = template_v1_crc body (n + 32)"
    using assms(1) by (simp add: drop8 template_v1_crc_take)
  show ?thesis
    using fields len crc parts expected
    by (simp add: goodix_chicago_template_parse_def template_type_supported_def Let_def add.commute
        del: of_nat_add)
qed

lemma template_wrap:
  assumes "length random = V1_RANDOM_LEN" and "length inner \<le> 0xffffffff - 36"
  shows "goodix_chicago_template_wrap_v1 inner random =
    Some (le32_bytes SYSTEM_TEMPLATE_TYPE_V1 @ le32_bytes (of_nat (length inner + 36)) @ (inner @ random) @
          le32_bytes (template_v1_crc (inner @ random) (length inner + 32)))"
  using assms by (simp add: goodix_chicago_template_wrap_v1_def Let_def add.commute)

text \<open>The prefix of \<open>n\<close> payload bytes that the narrowed CRC length covers.\<close>

lemma template_v1_crc_update:
  assumes "n \<le> length body" and "i < length body" and "b \<noteq> body ! i"
  shows "template_v1_crc (body[i := b]) n = template_v1_crc body n \<longleftrightarrow> n mod 65536 \<le> i"
proof -
  have len: "unat (of_nat n :: u16) = n mod 65536" by (simp add: unat_of_nat)
  have le: "n mod 65536 \<le> length body"
    using assms(1) mod_less_eq_dividend [of n 65536] by linarith
  show ?thesis
  proof (cases "i < n mod 65536")
    case True
    then show ?thesis
      unfolding template_v1_crc_def len using goodix_crc32_mpeg2_one_byte [OF True le, of b] assms(3) by simp
  next
    case False
    then show ?thesis
      unfolding template_v1_crc_def len by (simp add: goodix_crc32_mpeg2_def)
  qed
qed

interpretation template: codec
  "\<lambda>(inner, random). the (goodix_chicago_template_wrap_v1 inner random)"
  "\<lambda>d. case goodix_chicago_template_parse d of
         Inl _ \<Rightarrow> None | Inr v \<Rightarrow> map_option (Pair (chicago_payload v)) (view_random v)"
  "\<lambda>(inner, random). length random = V1_RANDOM_LEN \<and> length inner \<le> 0xffffffff - 36"
  by unfold_locales (auto simp: template_wrap template_envelope simp del: append_assoc of_nat_add)

text \<open>Wrapping a packed template and parsing the envelope gives the same template and random
  field; only a template too large for the 32-bit length field is refused.\<close>

theorem template_wrap_parse:
  assumes "length random = V1_RANDOM_LEN"
  shows "case goodix_chicago_template_wrap_v1 inner random of
      None \<Rightarrow> 0xffffffff - V1_TRAILER_LEN < length inner
    | Some wrapped \<Rightarrow> length wrapped = length inner + 44 \<and>
        (\<exists>view. goodix_chicago_template_parse wrapped = Inr view \<and>
          view_type view = SYSTEM_TEMPLATE_TYPE_V1 \<and> chicago_payload view = inner \<and>
          view_random view = Some random)"
proof (cases "length inner \<le> 0xffffffff - 36")
  case True
  then show ?thesis
    using assms template_envelope [of "inner @ random" "length inner"]
    by (simp add: template_wrap del: append_assoc of_nat_add)
qed (simp add: goodix_chicago_template_wrap_v1_def)

theorem template_wrap_parse_witness:
  "case goodix_chicago_template_wrap_v1 [1, 2] (replicate V1_RANDOM_LEN 9) of
      None \<Rightarrow> 0xffffffff - V1_TRAILER_LEN < length [1, 2 :: byte]
    | Some wrapped \<Rightarrow> length wrapped = length [1, 2 :: byte] + 44 \<and>
        (\<exists>view. goodix_chicago_template_parse wrapped = Inr view \<and>
          view_type view = SYSTEM_TEMPLATE_TYPE_V1 \<and> chicago_payload view = [1, 2] \<and>
          view_random view = Some (replicate V1_RANDOM_LEN 9))"
  by (rule template_wrap_parse) simp

text \<open>The envelope CRC covers only the first (size mod 65536) bytes of template and random
  field: a change of one byte there is refused, a change of one byte after them is accepted and
  delivered.\<close>

theorem template_crc_coverage:
  assumes "length random = V1_RANDOM_LEN" and "length inner \<le> 0xffffffff - V1_TRAILER_LEN"
    and "goodix_chicago_template_wrap_v1 inner random = Some wrapped"
    and i: "i < length inner" and b: "b \<noteq> inner ! i"
  shows "if i < (length inner + 32) mod 65536
    then goodix_chicago_template_parse (wrapped[8 + i := b]) = Inl G_IO_ERROR_INVALID_DATA
    else \<exists>view. goodix_chicago_template_parse (wrapped[8 + i := b]) = Inr view \<and>
      chicago_payload view = inner[i := b]"
proof -
  let ?body = "inner @ random" and ?n = "length inner"
  let ?crc = "template_v1_crc ?body (?n + 32)"
  have w: "wrapped = le32_bytes SYSTEM_TEMPLATE_TYPE_V1 @ le32_bytes (of_nat (?n + 36)) @ ?body @ le32_bytes ?crc"
    using assms template_wrap [OF assms(1), of inner] by simp
  have upd: "wrapped[8 + i := b] = le32_bytes SYSTEM_TEMPLATE_TYPE_V1 @ le32_bytes (of_nat (?n + 36)) @
      ?body[i := b] @ le32_bytes ?crc"
    using i unfolding w by (simp add: list_update_append)
  have body: "?body[i := b] = inner[i := b] @ random" using i by (simp add: list_update_append)
  have "?crc = template_v1_crc (?body[i := b]) (?n + 32) \<longleftrightarrow> (?n + 32) mod 65536 \<le> i"
    using template_v1_crc_update [of "?n + 32" ?body i b] assms(1) i b by (auto simp: nth_append)
  then show ?thesis
    unfolding upd using assms(1,2) i template_envelope [of "?body[i := b]" ?n ?crc]
    by (auto simp: body)
qed

theorem template_crc_coverage_witness:
  "if 0 < (length (replicate 65504 (0 :: byte)) + 32) mod 65536
    then goodix_chicago_template_parse ((the (goodix_chicago_template_wrap_v1 (replicate 65504 0)
      (replicate V1_RANDOM_LEN 9)))[8 + 0 := 1]) = Inl G_IO_ERROR_INVALID_DATA
    else \<exists>view. goodix_chicago_template_parse ((the (goodix_chicago_template_wrap_v1 (replicate 65504 0)
      (replicate V1_RANDOM_LEN 9)))[8 + 0 := 1]) = Inr view \<and>
      chicago_payload view = (replicate 65504 0)[0 := 1]"
  by (rule template_crc_coverage [where random = "replicate V1_RANDOM_LEN 9"]) (simp_all add: template_wrap)

section \<open>Lemmas on the print data\<close>

text \<open>Print data parses back to the packed template it was built from, for the sensor it was
  built for and for no other, whatever calibration is then in use; an empty template is refused.\<close>

theorem print_data_roundtrip:
  assumes "length sensor_id = SENSOR_ID_LEN" and "length other_id = SENSOR_ID_LEN"
    and "\<And>bytes. length (sha256 bytes) = CALIBRATION_DIGEST_LEN"
  shows "goodix_chicago_print_data_parse
      (Some (goodix_chicago_print_data_build sha256 sensor_id calibration packed_template))
      (Some other_id) other_calibration =
    (if packed_template \<noteq> [] \<and> other_id = sensor_id then Inr packed_template
     else Inl G_IO_ERROR_INVALID_DATA)"
  using assms by (auto simp: goodix_chicago_print_data_build_def)

theorem print_data_roundtrip_witness:
  "goodix_chicago_print_data_parse
      (Some (goodix_chicago_print_data_build (\<lambda>_. replicate CALIBRATION_DIGEST_LEN 0)
        (replicate SENSOR_ID_LEN 3) [1] [2, 3]))
      (Some (replicate SENSOR_ID_LEN 3)) [4] =
    (if [2, 3 :: byte] \<noteq> [] \<and> replicate SENSOR_ID_LEN (3 :: byte) = replicate SENSOR_ID_LEN 3
     then Inr [2, 3] else Inl G_IO_ERROR_INVALID_DATA)"
  by (rule print_data_roundtrip) simp_all

section \<open>Lemmas on the BIR record\<close>

lemma write_at_prefix:
  "off + length bs \<le> length xs \<Longrightarrow> write_at (xs @ ys) off bs = write_at xs off bs @ ys"
  by (simp add: write_at_def)

lemma writes_prefix:
  "\<forall>(off, bs) \<in> set fs. off + length bs \<le> length xs \<Longrightarrow>
   foldl (\<lambda>r (off, bs). write_at r off bs) (xs @ ys) fs =
   foldl (\<lambda>r (off, bs). write_at r off bs) xs fs @ ys"
  by (induction fs arbitrary: xs) (auto simp: write_at_prefix)

definition bir_header :: bytes where
  "bir_header = foldl (\<lambda>r (off, bs). write_at r off bs) (replicate 0x88 0) bir_fields"

lemma bir_header_checks:
  "length bir_header = 0x88" "bir_wrapper_valid bir_header"
  "bir_standard_valid (drop BIR_STANDARD_OFFSET bir_header)"
  by code_simp+

lemma bir_build_eq:
  assumes "length raw = PIXELS"
  shows "goodix_chicago_bir_build (Some raw) = Inr (bir_header @ le16s raw)"
proof -
  have "replicate BIR_TOTAL_LEN (0 :: byte) = replicate 0x88 0 @ replicate 10240 0"
    by (simp flip: replicate_add)
  moreover have "\<forall>(off, bs) \<in> set bir_fields. off + length bs \<le> 0x88"
    by (simp add: bir_fields_def)
  ultimately have rec: "foldl (\<lambda>r (off, bs). write_at r off bs) (replicate BIR_TOTAL_LEN 0) bir_fields =
      bir_header @ replicate 10240 0"
    using writes_prefix [of bir_fields "replicate 0x88 0" "replicate 10240 0"]
    by (simp add: bir_header_def)
  show ?thesis
    unfolding goodix_chicago_bir_build_def option.case Let_def rec
    using assms bir_header_checks(1) by (simp add: write_le16s_eq write_at_def)
qed

lemma le_at_prefix:
  "i + 2 \<le> length xs \<Longrightarrow> le16_at (xs @ ys) i = le16_at xs i"
  "i + 4 \<le> length xs \<Longrightarrow> le32_at (xs @ ys) i = le32_at xs i"
  by (auto simp: nth_append intro!: le16_at_cong le32_at_cong)

lemma bir_valid_prefix:
  "length h = 0x88 \<Longrightarrow> bir_wrapper_valid (h @ ys) = bir_wrapper_valid h"
  "length t = 0x38 \<Longrightarrow> bir_standard_valid (t @ ys) = bir_standard_valid t"
  by (simp_all add: bir_wrapper_valid_def bir_standard_valid_def le_at_prefix nth_append del: One_nat_def)

interpretation bir: codec
  "\<lambda>raw. bir_header @ le16s raw"
  "\<lambda>d. case goodix_chicago_bir_parse d of Inl _ \<Rightarrow> None
     | Inr v \<Rightarrow> Some (map (\<lambda>i. le16_at (raw16_le v) (2 * i)) [0..<PIXELS])"
  "\<lambda>raw. length raw = PIXELS"
proof
  fix raw :: "u16 list" assume len: "length raw = PIXELS"
  have "goodix_chicago_bir_parse (bir_header @ le16s raw) =
      Inr \<lparr> raw16_le = le16s raw, bir_columns = 80, bir_rows = 64 \<rparr>"
    using len bir_header_checks by (simp add: goodix_chicago_bir_parse_def bir_valid_prefix)
  moreover have "map (\<lambda>i. le16_at (le16s raw) (2 * i)) [0..<PIXELS] = raw"
    using len by (intro nth_equalityI) (simp_all add: le16_at_le16s)
  ultimately show "(case goodix_chicago_bir_parse (bir_header @ le16s raw) of Inl _ \<Rightarrow> None
     | Inr v \<Rightarrow> Some (map (\<lambda>i. le16_at (raw16_le v) (2 * i)) [0..<PIXELS])) = Some raw"
    by simp
qed

text \<open>The BIR record of a raw frame is accepted by the parser, which exposes every pixel of the
  frame.\<close>

theorem bir_roundtrip:
  assumes "length raw = PIXELS"
  shows "\<exists>record view. goodix_chicago_bir_build (Some raw) = Inr record \<and>
    goodix_chicago_bir_parse record = Inr view \<and> bir_columns view = 80 \<and> bir_rows view = 64 \<and>
    map (\<lambda>i. le16_at (raw16_le view) (2 * i)) [0..<PIXELS] = raw"
  using bir.dec_enc [OF assms] bir_build_eq [OF assms]
  by (auto simp: goodix_chicago_bir_parse_def split: if_splits sum.splits)

theorem bir_roundtrip_witness:
  "\<exists>record view. goodix_chicago_bir_build (Some (replicate PIXELS 0x123)) = Inr record \<and>
    goodix_chicago_bir_parse record = Inr view \<and> bir_columns view = 80 \<and> bir_rows view = 64 \<and>
    map (\<lambda>i. le16_at (raw16_le view) (2 * i)) [0..<PIXELS] = replicate PIXELS 0x123"
  by (rule bir_roundtrip) simp

end
