(* ===== verification/Chicago_Policy.thy ===== *)
theory Chicago_Policy
  imports Goodix_Prelude
begin

text \<open>
  The engine enrollment policy of goodix-chicago-enrollment.c: which captures advance the
  enrollment, which are rejected with a direction to move in ("tips"), and when the first tipped
  capture is set aside and restored. The counters are natural numbers; every run ends within 20
  captures, so the 32-bit counters of the code cannot wrap.
\<close>

record engine_enrollment_policy =
  touched :: nat
  enrolled :: nat
  tipped :: nat
  used :: nat
  last_tipped :: nat
  continuous_tips :: nat
  tip_index :: nat
  previous_tip_index :: nat
  deferred_pending :: bool
  defer_current_sample :: bool
  restore_deferred_sample :: bool

definition engine_enrollment_policy_init :: engine_enrollment_policy where
  "engine_enrollment_policy_init =
     \<lparr> touched = 0, enrolled = 0, tipped = 0, used = 0, last_tipped = 0, continuous_tips = 0,
       tip_index = 0, previous_tip_index = 0, deferred_pending = False,
       defer_current_sample = False, restore_deferred_sample = False \<rparr>"

definition directions :: "nat list" where
  "directions = [4, 1, 3, 2]"

text \<open>The entry of the function, before it decides: counting, and taking up a pending sample.\<close>

definition policy_enter :: "engine_enrollment_policy \<Rightarrow> engine_enrollment_policy" where
  "policy_enter policy = policy
     \<lparr> touched := touched policy + 1, enrolled := enrolled policy + 1, defer_current_sample := False,
       restore_deferred_sample := deferred_pending policy, deferred_pending := False \<rparr>"

definition policy_tips :: "engine_enrollment_policy \<Rightarrow> nat \<Rightarrow> nat \<Rightarrow> bool" where
  "policy_tips policy position_x position_y \<longleftrightarrow>
     (let tip = used policy + 1 \<ge> 5 \<and> used policy + 1 \<le> 12 \<and> (position_x > 30 \<or> position_y > 20)
      in if tipped policy \<ge> 8 \<or> continuous_tips policy \<ge> 2 then False else tip)"

text \<open>The result is the new policy, the value returned and the reject detail.\<close>

definition engine_enrollment_policy_accept ::
    "engine_enrollment_policy \<Rightarrow> nat \<Rightarrow> nat \<Rightarrow> engine_enrollment_policy \<times> bool \<times> nat" where
  "engine_enrollment_policy_accept policy position_x position_y =
     (let p = policy_enter policy in
      if policy_tips p position_x position_y then
        let q = (if tipped p = 0 then p\<lparr> defer_current_sample := True, deferred_pending := True \<rparr> else p)
        in (q\<lparr> last_tipped := touched q, continuous_tips := continuous_tips q + 1,
               tipped := tipped q + 1, previous_tip_index := tip_index q \<rparr>,
            False, directions ! tip_index q)
      else
        let q = (if last_tipped p \<noteq> 0 \<and> last_tipped p + 1 = touched p
                 then p\<lparr> tip_index := (tip_index p + 1) mod length directions \<rparr> else p)
        in (q\<lparr> continuous_tips := 0, used := used q + 1 \<rparr>, True, 0))"

definition engine_enrollment_policy_complete :: "engine_enrollment_policy \<Rightarrow> bool" where
  "engine_enrollment_policy_complete policy \<longleftrightarrow> used policy \<ge> 12"

section \<open>Runs of the policy\<close>

text \<open>One capture, as the enrollment loop makes it: only while the policy is not complete.\<close>

inductive policy_step ::
    "engine_enrollment_policy \<Rightarrow> nat \<times> nat \<Rightarrow> bool \<times> nat \<Rightarrow> engine_enrollment_policy \<Rightarrow> bool" where
  capture: "\<not> engine_enrollment_policy_complete p \<Longrightarrow>
     engine_enrollment_policy_accept p x y = (p', accepted, detail) \<Longrightarrow>
     policy_step p (x, y) (accepted, detail) p'"

code_pred (modes: i \<Rightarrow> i \<Rightarrow> o \<Rightarrow> o \<Rightarrow> bool) policy_step .

inductive_cases policy_stepE [elim!]: "policy_step p i out p'"
inductive_simps policy_step_iff: "policy_step p (x, y) (accepted, detail) p'"

inductive policy_run :: "(nat \<times> nat) list \<Rightarrow> (bool \<times> nat) list \<Rightarrow> engine_enrollment_policy \<Rightarrow> bool" where
  policy_start: "policy_run [] [] engine_enrollment_policy_init"
| policy_next: "policy_run is outs p \<Longrightarrow> policy_step p i out p' \<Longrightarrow> policy_run (is @ [i]) (outs @ [out]) p'"

text \<open>What every reachable policy satisfies.\<close>

definition policy_inv :: "engine_enrollment_policy \<Rightarrow> bool" where
  "policy_inv p \<longleftrightarrow>
     touched p = used p + tipped p \<and> enrolled p = touched p \<and> used p \<le> 12 \<and> tipped p \<le> 8 \<and>
     continuous_tips p \<le> 2 \<and> tip_index p < 4 \<and> last_tipped p \<le> touched p \<and>
     (tipped p > 0 \<longrightarrow> used p \<ge> 4) \<and> (tipped p = 0 \<longleftrightarrow> last_tipped p = 0) \<and>
     (continuous_tips p > 0 \<longleftrightarrow> tipped p > 0 \<and> last_tipped p = touched p) \<and>
     (deferred_pending p \<longleftrightarrow> tipped p = 1 \<and> last_tipped p = touched p) \<and>
     (deferred_pending p \<longrightarrow> used p < 12) \<and>
     (defer_current_sample p \<longleftrightarrow> deferred_pending p)"

lemma policy_inv_init [simp]: "policy_inv engine_enrollment_policy_init"
  by (simp add: policy_inv_def engine_enrollment_policy_init_def)

lemma policy_tips_bounds:
  "policy_tips p x y \<Longrightarrow> 4 \<le> used p \<and> used p < 12 \<and> tipped p < 8 \<and> continuous_tips p < 2"
  by (auto simp: policy_tips_def Let_def split: if_splits)

lemma policy_enter_fields [simp]:
  "touched (policy_enter p) = touched p + 1" "enrolled (policy_enter p) = enrolled p + 1"
  "tipped (policy_enter p) = tipped p" "used (policy_enter p) = used p"
  "last_tipped (policy_enter p) = last_tipped p" "continuous_tips (policy_enter p) = continuous_tips p"
  "tip_index (policy_enter p) = tip_index p" "deferred_pending (policy_enter p) = False"
  "defer_current_sample (policy_enter p) = False"
  "restore_deferred_sample (policy_enter p) = deferred_pending p"
  by (simp_all add: policy_enter_def)

lemma accept_tip:
  assumes "policy_tips (policy_enter p) x y"
    and "engine_enrollment_policy_accept p x y = (p', accepted, detail)"
  shows "touched p' = touched p + 1" "enrolled p' = enrolled p + 1" "tipped p' = tipped p + 1"
    "used p' = used p" "last_tipped p' = touched p + 1" "continuous_tips p' = continuous_tips p + 1"
    "tip_index p' = tip_index p" "deferred_pending p' = (tipped p = 0)"
    "defer_current_sample p' = (tipped p = 0)" "restore_deferred_sample p' = deferred_pending p"
    "\<not> accepted" "detail = directions ! tip_index p"
  using assms by (auto simp: engine_enrollment_policy_accept_def Let_def split: if_splits)

lemma accept_ok:
  assumes "\<not> policy_tips (policy_enter p) x y"
    and "engine_enrollment_policy_accept p x y = (p', accepted, detail)"
  shows "touched p' = touched p + 1" "enrolled p' = enrolled p + 1" "tipped p' = tipped p"
    "used p' = used p + 1" "last_tipped p' = last_tipped p" "continuous_tips p' = 0"
    "tip_index p' = (if last_tipped p \<noteq> 0 \<and> last_tipped p = touched p then (tip_index p + 1) mod 4 else tip_index p)"
    "deferred_pending p' = False" "defer_current_sample p' = False"
    "restore_deferred_sample p' = deferred_pending p" "accepted" "detail = 0"
  using assms by (auto simp: engine_enrollment_policy_accept_def Let_def directions_def split: if_splits)

lemma policy_inv_accept:
  assumes "policy_inv p" and "\<not> engine_enrollment_policy_complete p"
    and acc: "engine_enrollment_policy_accept p x y = (p', accepted, detail)"
  shows "policy_inv p'"
proof (cases "policy_tips (policy_enter p) x y")
  case True
  then have "used p \<ge> 4" "used p < 12" "tipped p < 8" "continuous_tips p < 2"
    using policy_tips_bounds [OF True] by simp_all
  then show ?thesis
    using assms(1) unfolding policy_inv_def accept_tip [OF True acc] by linarith
next
  case False
  have "used p < 12" using assms(2) by (simp add: engine_enrollment_policy_complete_def)
  moreover have "(if last_tipped p \<noteq> 0 \<and> last_tipped p = touched p then (tip_index p + 1) mod 4 else tip_index p) < 4"
    using assms(1) by (simp add: policy_inv_def)
  ultimately show ?thesis
    using assms(1) unfolding policy_inv_def accept_ok [OF False acc] by auto
qed

lemma policy_run_inv: "policy_run is outs p \<Longrightarrow> policy_inv p \<and> touched p = length is \<and> length outs = length is"
proof (induction rule: policy_run.induct)
  case (policy_next "is" outs p i out p')
  then have "policy_inv p'" using policy_inv_accept by (cases i; cases out) auto
  moreover have "touched p' = touched p + 1"
    using policy_next.hyps(2) accept_tip(1) accept_ok(1) by blast
  ultimately show ?case using policy_next by simp
qed (simp_all, simp add: engine_enrollment_policy_init_def)

section \<open>What a run looks like from outside\<close>

text \<open>Rejections so far, whether the last capture was rejected, and how many groups of consecutive
  rejections have ended.\<close>

definition rejections :: "(bool \<times> nat) list \<Rightarrow> nat" where
  "rejections outs = length (filter (\<lambda>out. \<not> fst out) outs)"

definition last_rejected :: "(bool \<times> nat) list \<Rightarrow> bool" where
  "last_rejected outs \<longleftrightarrow> outs \<noteq> [] \<and> \<not> fst (last outs)"

fun tip_groups :: "(bool \<times> nat) list \<Rightarrow> nat" where
  "tip_groups (a # b # outs) = (if \<not> fst a \<and> fst b then 1 else 0) + tip_groups (b # outs)"
| "tip_groups _ = 0"

lemma rejections_snoc [simp]: "rejections (outs @ [out]) = rejections outs + (if fst out then 0 else 1)"
  by (simp add: rejections_def)

lemma last_rejected_snoc [simp]: "last_rejected (outs @ [out]) \<longleftrightarrow> \<not> fst out"
  by (simp add: last_rejected_def)

lemma tip_groups_snoc:
  "tip_groups (outs @ [out]) = tip_groups outs + (if last_rejected outs \<and> fst out then 1 else 0)"
  by (induction outs rule: tip_groups.induct) (auto simp: last_rejected_def)

definition trailing_rejections :: "(bool \<times> nat) list \<Rightarrow> nat" where
  "trailing_rejections outs = length (takeWhile (\<lambda>out. \<not> fst out) (rev outs))"

lemma trailing_rejections_snoc [simp]:
  "trailing_rejections (outs @ [out]) = (if fst out then 0 else trailing_rejections outs + 1)"
  by (simp add: trailing_rejections_def)

text \<open>The counters of the policy are these observations.\<close>

lemma policy_run_observed:
  "policy_run is outs p \<Longrightarrow> tipped p = rejections outs \<and> used p + rejections outs = length outs \<and>
     (last_tipped p \<noteq> 0 \<and> last_tipped p = touched p \<longleftrightarrow> last_rejected outs) \<and>
     tip_index p = tip_groups outs mod 4 \<and> continuous_tips p = trailing_rejections outs"
proof (induction rule: policy_run.induct)
  case policy_start
  then show ?case
    by (simp add: engine_enrollment_policy_init_def rejections_def last_rejected_def
        trailing_rejections_def)
next
  case (policy_next "is" outs p i out p')
  obtain x y where i: "i = (x, y)" by (cases i)
  obtain accepted detail where out: "out = (accepted, detail)" by (cases out)
  have acc: "engine_enrollment_policy_accept p x y = (p', accepted, detail)"
    using policy_next.hyps(2) i out by auto
  have inv: "touched p \<ge> last_tipped p"
    using policy_run_inv [OF policy_next.hyps(1)] by (simp add: policy_inv_def)
  show ?case
  proof (cases "policy_tips (policy_enter p) x y")
    case True
    then show ?thesis
      using policy_next.IH unfolding out accept_tip [OF True acc] rejections_snoc last_rejected_snoc
        tip_groups_snoc trailing_rejections_snoc
      using accept_tip(11) [OF True acc] by simp
  next
    case False
    then show ?thesis
      using policy_next.IH inv unfolding out accept_ok [OF False acc] rejections_snoc last_rejected_snoc
        tip_groups_snoc trailing_rejections_snoc
      using accept_ok(11) [OF False acc] by (auto simp: mod_Suc_eq)
  qed
qed

text \<open>A sample run: central captures, then one off-centre capture.\<close>

definition sample_run :: "nat \<Rightarrow> engine_enrollment_policy" where
  "sample_run n = ((\<lambda>p. fst (engine_enrollment_policy_accept p 0 0)) ^^ n) engine_enrollment_policy_init"

lemma sample_policy_run:
  "n \<le> 12 \<Longrightarrow> policy_run (replicate n (0, 0)) (replicate n (True, 0)) (sample_run n) \<and> used (sample_run n) = n"
proof (induction n)
  case 0
  then show ?case by (simp add: sample_run_def policy_start) (simp add: engine_enrollment_policy_init_def)
next
  case (Suc n)
  let ?a = "engine_enrollment_policy_accept (sample_run n) 0 0"
  have nt: "\<not> policy_tips (policy_enter (sample_run n)) 0 0"
    by (simp add: policy_tips_def)
  have acc: "?a = (sample_run (Suc n), True, 0)"
    using accept_ok(11,12) [OF nt, of "fst ?a" "fst (snd ?a)" "snd (snd ?a)"]
    by (cases ?a) (auto simp: sample_run_def)
  then have "policy_step (sample_run n) (0, 0) (True, 0) (sample_run (Suc n))"
    using Suc by (auto simp: policy_step_iff engine_enrollment_policy_complete_def)
  then have "policy_run (replicate n (0, 0) @ [(0, 0)]) (replicate n (True, 0) @ [(True, 0)]) (sample_run (Suc n))"
    by (rule policy_next [rotated]) (use Suc in simp)
  moreover have "used (sample_run (Suc n)) = Suc n"
    using Suc accept_ok(4) [OF nt acc] by simp
  ultimately show ?case by (simp only: replicate_append_same replicate_Suc)
qed

lemma accepted_only [simp]:
  "rejections (replicate n (True, d)) = 0" "trailing_rejections (replicate n (True, d)) = 0"
  "tip_groups (replicate n (True, d)) = 0"
proof -
  show "rejections (replicate n (True, d)) = 0" by (simp add: rejections_def)
  show "trailing_rejections (replicate n (True, d)) = 0"
    unfolding trailing_rejections_def rev_replicate by (cases n) simp_all
  show "tip_groups (replicate n (True, d)) = 0"
  proof (induction n)
    case (Suc n)
    then show ?case by (cases n) simp_all
  qed simp
qed

definition rejected_run :: engine_enrollment_policy where
  "rejected_run = fst (engine_enrollment_policy_accept (sample_run 5) 31 0)"

lemma sample_policy_reject: "policy_step (sample_run 5) (31, 0) (False, 4) rejected_run"
proof -
  let ?a = "engine_enrollment_policy_accept (sample_run 5) 31 0"
  have run: "policy_run (replicate 5 (0, 0)) (replicate 5 (True, 0)) (sample_run 5)" "used (sample_run 5) = 5"
    using sample_policy_run [of 5] by simp_all
  have obs: "tipped (sample_run 5) = 0" "continuous_tips (sample_run 5) = 0" "tip_index (sample_run 5) = 0"
    using policy_run_observed [OF run(1)]
    by simp_all
  then have tip: "policy_tips (policy_enter (sample_run 5)) 31 0"
    using run(2) by (simp add: policy_tips_def)
  have "?a = (rejected_run, False, 4)"
    using accept_tip(11,12) [OF tip, of "fst ?a" "fst (snd ?a)" "snd (snd ?a)"] obs
    by (cases ?a) (auto simp: rejected_run_def directions_def)
  then show ?thesis
    using run(2) by (auto simp: policy_step_iff engine_enrollment_policy_complete_def)
qed


text \<open>C7: Whatever positions are captured, the policy completes within 20 captures: twelve accepted
  ones and at most eight rejected, and it is complete exactly when twelve were accepted.\<close>

theorem policy_completes:
  assumes "policy_run is outs p"
  shows "length is \<le> 20 \<and> rejections outs \<le> 8 \<and> used p + rejections outs = length is \<and>
    (engine_enrollment_policy_complete p \<longleftrightarrow> length is = 12 + rejections outs)"
  using policy_run_inv [OF assms] policy_run_observed [OF assms]
  by (auto simp: policy_inv_def engine_enrollment_policy_complete_def)

theorem policy_completes_witness:
  "length (replicate 12 (0 :: nat, 0 :: nat)) \<le> 20 \<and> rejections (replicate 12 (True, 0)) \<le> 8 \<and>
    used (sample_run 12) + rejections (replicate 12 (True, 0)) = length (replicate 12 (0 :: nat, 0 :: nat)) \<and>
    (engine_enrollment_policy_complete (sample_run 12) \<longleftrightarrow>
      length (replicate 12 (0 :: nat, 0 :: nat)) = 12 + rejections (replicate 12 (True, 0)))"
  by (rule policy_completes) (use sample_policy_run [of 12] in simp)

text \<open>C9: The only capture that is ever set aside is the first rejected one, and it is restored on
  the capture right after it, whether that one is accepted or rejected.\<close>

theorem policy_defers_first_rejection:
  assumes "policy_run is outs p" and "policy_step p i out p'"
  shows "(defer_current_sample p' \<longleftrightarrow> \<not> fst out \<and> rejections outs = 0) \<and>
    (restore_deferred_sample p' \<longleftrightarrow> last_rejected outs \<and> rejections outs = 1)"
proof -
  obtain x y where i: "i = (x, y)" by (cases i)
  obtain accepted detail where out: "out = (accepted, detail)" by (cases out)
  have acc: "engine_enrollment_policy_accept p x y = (p', accepted, detail)"
    using assms(2) i out by auto
  have "deferred_pending p \<longleftrightarrow> rejections outs = 1 \<and> last_rejected outs"
    using policy_run_inv [OF assms(1)] policy_run_observed [OF assms(1)]
    by (auto simp: policy_inv_def)
  then show ?thesis
    using policy_run_observed [OF assms(1)] unfolding out
    by (cases "policy_tips (policy_enter p) x y")
      (use accept_tip [OF _ acc] accept_ok [OF _ acc] in auto)
qed

theorem policy_defers_first_rejection_witness:
  "(defer_current_sample rejected_run \<longleftrightarrow>
      \<not> fst (False, 4 :: nat) \<and> rejections (replicate 5 (True, 0)) = 0) \<and>
    (restore_deferred_sample rejected_run \<longleftrightarrow>
      last_rejected (replicate 5 (True, 0)) \<and> rejections (replicate 5 (True, 0)) = 1)"
  by (rule policy_defers_first_rejection [OF conjunct1 [OF sample_policy_run] sample_policy_reject]) simp

text \<open>C8: A capture is rejected exactly when it is off-centre, at least four captures were accepted,
  fewer than eight were rejected and the last two were not both rejected; the direction it
  reports goes through 4, 1, 3, 2 and advances only when a group of rejections has ended.\<close>

theorem policy_rejects_iff:
  assumes "policy_run is outs p" and "policy_step p (x, y) (accepted, detail) p'"
  shows "(\<not> accepted \<longleftrightarrow> (x > 30 \<or> y > 20) \<and> length outs \<ge> 4 + rejections outs \<and>
      rejections outs < 8 \<and> trailing_rejections outs < 2) \<and>
    detail = (if accepted then 0 else [4, 1, 3, 2] ! (tip_groups outs mod 4))"
proof -
  have acc: "engine_enrollment_policy_accept p x y = (p', accepted, detail)"
    and more: "\<not> engine_enrollment_policy_complete p"
    using assms(2) by auto
  note obs = policy_run_observed [OF assms(1)]
  have "policy_tips (policy_enter p) x y \<longleftrightarrow> (x > 30 \<or> y > 20) \<and> length outs \<ge> 4 + rejections outs \<and>
      rejections outs < 8 \<and> trailing_rejections outs < 2"
    using obs more by (auto simp: policy_tips_def engine_enrollment_policy_complete_def)
  then show ?thesis
    using obs accept_tip(11,12) [OF _ acc] accept_ok(11,12) [OF _ acc]
    by (cases "policy_tips (policy_enter p) x y") (auto simp: directions_def)
qed

theorem policy_rejects_iff_witness:
  "(\<not> False \<longleftrightarrow> (31 > (30 :: nat) \<or> 0 > (20 :: nat)) \<and>
      length (replicate 5 (True, 0 :: nat)) \<ge> 4 + rejections (replicate 5 (True, 0)) \<and>
      rejections (replicate 5 (True, 0)) < 8 \<and> trailing_rejections (replicate 5 (True, 0)) < 2) \<and>
    4 = (if False then 0 else [4, 1, 3, 2] ! (tip_groups (replicate 5 (True, 0)) mod 4) :: nat)"
  by (rule policy_rejects_iff [OF conjunct1 [OF sample_policy_run] sample_policy_reject]) simp

end
