(* ===== verification/Chicago_Transform.thy ===== *)
theory Chicago_Transform
  imports Goodix_Prelude
begin

text \<open>
  The affine geometry of goodix-chicago-enrollment.c: Q8 transforms, their normalisation,
  inversion and composition, the three-point affine search, the evidence predicate, overlaps and
  the polygons of the capacity selector. A \<open>gint32[6]\<close> is the record \<open>transform\<close>; signed
  results are reduced with \<open>i32\<close> and \<open>i64\<close> where the code computes at these widths (a signed
  overflow, which C leaves undefined, is modelled as two's complement wrap-around).
\<close>

section \<open>Transforms\<close>

record transform =
  t0 :: int
  t1 :: int
  t2 :: int
  t3 :: int
  t4 :: int
  t5 :: int

definition mk_transform :: "int \<Rightarrow> int \<Rightarrow> int \<Rightarrow> int \<Rightarrow> int \<Rightarrow> int \<Rightarrow> transform" where
  "mk_transform a b x c d y = \<lparr> t0 = a, t1 = b, t2 = x, t3 = c, t4 = d, t5 = y \<rparr>"

lemma mk_transform_fields [simp]:
  "t0 (mk_transform a b x c d y) = a" "t1 (mk_transform a b x c d y) = b" "t2 (mk_transform a b x c d y) = x"
  "t3 (mk_transform a b x c d y) = c" "t4 (mk_transform a b x c d y) = d" "t5 (mk_transform a b x c d y) = y"
  by (simp_all add: mk_transform_def)

lemma mk_transform_eq [simp]:
  "mk_transform a b x c d y = mk_transform a' b' x' c' d' y' \<longleftrightarrow>
     a = a' \<and> b = b' \<and> x = x' \<and> c = c' \<and> d = d' \<and> y = y'"
  by (auto simp: mk_transform_def)

record relation =
  inlier_count :: int
  rel_transform :: transform

definition identity_group_transform :: transform where
  "identity_group_transform = mk_transform 0x100 0 0 0 0x100 0"

section \<open>Integer square root\<close>

function isqrt_start :: "nat \<Rightarrow> nat \<Rightarrow> nat" where
  "isqrt_start bt v = (if bt > v then isqrt_start (bt div 4) v else bt)"
  by pat_completeness auto
termination by (relation "measure fst") auto

function isqrt_loop :: "nat \<Rightarrow> nat \<Rightarrow> nat \<Rightarrow> nat" where
  "isqrt_loop bt v r =
     (if bt = 0 then r
      else if v \<ge> r + bt then isqrt_loop (bt div 4) (v - (r + bt)) (r div 2 + bt)
      else isqrt_loop (bt div 4) v (r div 2))"
  by pat_completeness auto
termination by (relation "measure fst") auto

definition enrollment_integer_square_root :: "nat \<Rightarrow> nat" where
  "enrollment_integer_square_root v = isqrt_loop (isqrt_start (2 ^ 30) v) v 0"

declare isqrt_start.simps [simp del] isqrt_loop.simps [simp del]

section \<open>Normalising, inverting and composing\<close>

definition normalize_group_transform :: "transform \<Rightarrow> transform" where
  "normalize_group_transform input =
     (let cosine = drop_bit 1 (i32 (t0 input + t4 input));
          sine = drop_bit 1 (i32 (t3 input - t1 input));
          magnitude = int (enrollment_integer_square_root (nat ((cosine * cosine + sine * sine) mod 2 ^ 32)))
      in if magnitude = 0 then mk_transform 0x100 0 (t2 input) 0 0x100 (t5 input)
         else let o0 = i32 ((cosine * 0x100 + magnitude div 2) sdiv magnitude);
                  o1 = i32 ((magnitude div 2 - sine * 0x100) sdiv magnitude)
              in mk_transform o0 o1 (t2 input) (i32 (- o1)) o0 (t5 input))"

definition invert_group_transform :: "transform \<Rightarrow> transform" where
  "invert_group_transform input =
     (let determinant = i32 (t0 input * t4 input - t1 input * t3 input)
      in if determinant = 0 then input
         else mk_transform
           (i32 ((t4 input * 2 ^ 16) sdiv determinant))
           (i32 ((- t1 input * 2 ^ 16) sdiv determinant))
           (i32 (i64 ((t5 input * t1 input - t4 input * t2 input) * 2 ^ 8) sdiv determinant))
           (i32 ((- t3 input * 2 ^ 16) sdiv determinant))
           (i32 ((t0 input * 2 ^ 16) sdiv determinant))
           (i32 (i64 ((t3 input * t2 input - t5 input * t0 input) * 2 ^ 8) sdiv determinant)))"

definition compose_group_transform :: "transform \<Rightarrow> transform \<Rightarrow> transform" where
  "compose_group_transform first second = normalize_group_transform (mk_transform
     (i32 (drop_bit 8 (i64 (t0 first * t0 second + t1 first * t3 second))))
     (i32 (drop_bit 8 (i64 (t0 first * t1 second + t1 first * t4 second))))
     (i32 (i32 (drop_bit 8 (i64 (t0 first * t2 second + t1 first * t5 second))) + t2 first))
     (i32 (drop_bit 8 (i64 (t3 first * t0 second + t4 first * t3 second))))
     (i32 (drop_bit 8 (i64 (t3 first * t1 second + t4 first * t4 second))))
     (i32 (i32 (drop_bit 8 (i64 (t3 first * t2 second + t4 first * t5 second))) + t5 first)))"

section \<open>The square root is exact\<close>

lemma four_power_div: "(4 :: nat) ^ j div 4 = (if j = 0 then 0 else 4 ^ (j - 1))"
  by (cases j) auto

lemma four_power: "(4 :: nat) ^ j = (2 ^ j) ^ 2"
  by (simp add: power2_eq_square flip: power_mult_distrib)

lemma isqrt_start_spec:
  assumes "v < 4 ^ j"
  shows "\<exists>i. isqrt_start (4 ^ j div 4) v = 4 ^ i div 4 \<and> v < 4 ^ i"
  using assms
proof (induction j)
  case 0
  then show ?case by (intro exI [of _ 0]) (simp add: isqrt_start.simps)
next
  case (Suc j)
  show ?case
  proof (cases "v < 4 ^ j")
    case True
    then show ?thesis using Suc.IH [OF True] by (simp add: isqrt_start.simps [of "4 ^ j"])
  next
    case False
    then show ?thesis
      using Suc.prems by (intro exI [of _ "Suc j"]) (simp add: isqrt_start.simps [of "4 ^ j"])
  qed
qed

lemma isqrt_loop_spec:
  assumes "p ^ 2 \<le> n" and "n < (p + 2 ^ j) ^ 2"
  shows "(isqrt_loop (4 ^ j div 4) (n - p ^ 2) (p * 2 ^ j)) ^ 2 \<le> n \<and>
    n < (isqrt_loop (4 ^ j div 4) (n - p ^ 2) (p * 2 ^ j) + 1) ^ 2"
  using assms
proof (induction j arbitrary: p)
  case 0
  then show ?case by (simp add: isqrt_loop.simps)
next
  case (Suc j)
  have half: "p * 2 ^ Suc j div 2 = p * 2 ^ j" by simp
  note b4 = four_power [of j]
  have sq: "(p + 2 ^ j) ^ 2 = p ^ 2 + (p * 2 ^ Suc j + 4 ^ j)"
    unfolding b4 by (simp add: power2_eq_square algebra_simps)
  have step: "isqrt_loop (4 ^ j) (n - p ^ 2) (p * 2 ^ Suc j) =
    (if (p + 2 ^ j) ^ 2 \<le> n then isqrt_loop (4 ^ j div 4) (n - (p + 2 ^ j) ^ 2) ((p + 2 ^ j) * 2 ^ j)
     else isqrt_loop (4 ^ j div 4) (n - p ^ 2) (p * 2 ^ j))"
  proof -
    have "n - p ^ 2 \<ge> p * 2 ^ Suc j + 4 ^ j \<longleftrightarrow> (p + 2 ^ j) ^ 2 \<le> n"
      using Suc.prems(1) unfolding sq by linarith
    moreover have "n - p ^ 2 - (p * 2 ^ Suc j + 4 ^ j) = n - (p + 2 ^ j) ^ 2"
      unfolding sq by simp
    moreover have "p * 2 ^ j + 4 ^ j = (p + 2 ^ j) * 2 ^ j"
      unfolding b4 by (simp add: power2_eq_square algebra_simps)
    ultimately show ?thesis
      unfolding isqrt_loop.simps [of "4 ^ j"] half by simp
  qed
  show ?case
  proof (cases "(p + 2 ^ j) ^ 2 \<le> n")
    case True
    have "n < (p + 2 ^ j + 2 ^ j) ^ 2" using Suc.prems(2) by (simp add: mult_2 add.assoc)
    from Suc.IH [OF True this] show ?thesis using step True by simp
  next
    case False
    then have "n < (p + 2 ^ j) ^ 2" by simp
    from Suc.IH [OF Suc.prems(1) this] show ?thesis using step False by simp
  qed
qed

lemma isqrt_bounds:
  assumes "v < 2 ^ 32"
  shows "(enrollment_integer_square_root v) ^ 2 \<le> v" "v < (enrollment_integer_square_root v + 1) ^ 2"
proof -
  have "v < 4 ^ 16" using assms by simp
  then obtain i where i: "isqrt_start (4 ^ 16 div 4) v = 4 ^ i div 4" "v < 4 ^ i"
    using isqrt_start_spec by blast
  have "(2 :: nat) ^ 30 = 4 ^ 16 div 4" by simp
  then have r: "enrollment_integer_square_root v = isqrt_loop (4 ^ i div 4) v 0"
    unfolding enrollment_integer_square_root_def by (simp only: i)
  have "v < (0 + 2 ^ i) ^ 2" using i(2) by (simp add: four_power)
  from isqrt_loop_spec [of 0 v i, OF _ this]
  show "(enrollment_integer_square_root v) ^ 2 \<le> v" "v < (enrollment_integer_square_root v + 1) ^ 2"
    unfolding r by simp_all
qed

text \<open>The integer square root loop returns the exact floor of the square root of every 32-bit
  value, and it terminates.\<close>

theorem enrollment_integer_square_root_correct:
  assumes "v < 2 ^ 32"
  shows "(enrollment_integer_square_root v) ^ 2 \<le> v \<and> v < (enrollment_integer_square_root v + 1) ^ 2"
  using isqrt_bounds [OF assms] by simp

theorem enrollment_integer_square_root_correct_witness:
  "(enrollment_integer_square_root 4294967295) ^ 2 \<le> 4294967295 \<and>
    4294967295 < (enrollment_integer_square_root 4294967295 + 1) ^ 2"
  by (rule enrollment_integer_square_root_correct) simp

section \<open>Normalised transforms\<close>

text \<open>A normalised transform is a similarity whose Q8 coefficients lie in the unit range.\<close>

definition is_rotation :: "transform \<Rightarrow> bool" where
  "is_rotation t \<longleftrightarrow> t0 t = t4 t \<and> t3 t = - t1 t \<and> \<bar>t0 t\<bar> \<le> 0x100 \<and> \<bar>t1 t\<bar> \<le> 0x100"

lemma abs_sdiv_le:
  assumes "\<bar>a :: int\<bar> \<le> k * m + m div 2" and "0 < m" and "0 \<le> k"
  shows "\<bar>a sdiv m\<bar> \<le> k"
proof -
  have "\<bar>a\<bar> div m \<le> (k * m + m div 2) div m"
    using assms by (intro zdiv_mono1) simp_all
  also have "\<dots> = k" using assms(2) by (simp add: div_pos_pos_trivial)
  finally show ?thesis
    using assms(2,3) by (simp add: signed_divide_int_def abs_mult abs_sgn_eq pos_imp_zdiv_nonneg_iff)
qed

lemma root_dominates:
  fixes x y :: int
  assumes "x * x + y * y < 2 ^ 32"
  shows "\<bar>x\<bar> \<le> int (enrollment_integer_square_root (nat (x * x + y * y)))"
proof -
  let ?v = "nat (x * x + y * y)"
  have nn: "0 \<le> x * x + y * y" by simp
  have "?v < 2 ^ 32" using assms by simp
  from isqrt_bounds(2) [OF this]
  have "int ?v < (int (enrollment_integer_square_root ?v) + 1) ^ 2"
    by (metis of_nat_1 of_nat_add of_nat_less_iff of_nat_power)
  moreover have "int ?v = x * x + y * y" using nn by (rule nat_0_le)
  ultimately have "\<bar>x\<bar> ^ 2 < (int (enrollment_integer_square_root ?v) + 1) ^ 2"
    by (simp add: power2_eq_square) (smt (verit) zero_le_square)
  then have "\<bar>x\<bar> < int (enrollment_integer_square_root ?v) + 1"
    by (rule power_less_imp_less_base) simp
  then show ?thesis by simp
qed

text \<open>Normalising yields a rotation in Q8: equal diagonal, opposite off-diagonal and coefficients
  of absolute value at most 0x100, with the translation kept, as long as the squared magnitude
  fits the 32 bits it is computed in.\<close>

theorem normalize_is_rotation:
  assumes "\<bar>t0 t + t4 t\<bar> \<le> 65534" and "\<bar>t3 t - t1 t\<bar> \<le> 65534"
  shows "is_rotation (normalize_group_transform t) \<and>
    t2 (normalize_group_transform t) = t2 t \<and> t5 (normalize_group_transform t) = t5 t"
proof -
  define c where "c = drop_bit 1 (i32 (t0 t + t4 t))"
  define s where "s = drop_bit 1 (i32 (t3 t - t1 t))"
  define m where "m = int (enrollment_integer_square_root (nat (c * c + s * s)))"
  have small: "\<bar>c\<bar> \<le> 32767" "\<bar>s\<bar> \<le> 32767"
    using assms by (auto simp: c_def s_def i32_small drop_bit_eq_div)
  have "c * c + s * s \<le> 2 * (32767 * 32767)"
    using small mult_mono [of "\<bar>c\<bar>" 32767 "\<bar>c\<bar>" 32767] mult_mono [of "\<bar>s\<bar>" 32767 "\<bar>s\<bar>" 32767] by simp
  then have lt: "c * c + s * s < 2 ^ 32" "s * s + c * c < 2 ^ 32" by simp_all
  have mod: "(c * c + s * s) mod 2 ^ 32 = c * c + s * s" using lt by simp
  have dom: "\<bar>c\<bar> \<le> m" "\<bar>s\<bar> \<le> m"
    using root_dominates [OF lt(1)] root_dominates [OF lt(2)] by (simp_all add: m_def add.commute)
  show ?thesis
  proof (cases "m = 0")
    case True
    have "normalize_group_transform t = mk_transform 0x100 0 (t2 t) 0 0x100 (t5 t)"
      unfolding normalize_group_transform_def Let_def c_def [symmetric] s_def [symmetric] mod
        m_def [symmetric] using True by simp
    then show ?thesis by (simp add: is_rotation_def)
  next
    case False
    then have pos: "0 < m" by (simp add: m_def)
    have "\<bar>c * 0x100 + m div 2\<bar> \<le> 0x100 * m + m div 2" "\<bar>m div 2 - s * 0x100\<bar> \<le> 0x100 * m + m div 2"
      using dom pos by auto
    then have q: "\<bar>(c * 0x100 + m div 2) sdiv m\<bar> \<le> 0x100" "\<bar>(m div 2 - s * 0x100) sdiv m\<bar> \<le> 0x100"
      using pos by (auto intro!: abs_sdiv_le)
    have "normalize_group_transform t =
        mk_transform (i32 ((c * 0x100 + m div 2) sdiv m)) (i32 ((m div 2 - s * 0x100) sdiv m)) (t2 t)
          (i32 (- i32 ((m div 2 - s * 0x100) sdiv m))) (i32 ((c * 0x100 + m div 2) sdiv m)) (t5 t)"
      unfolding normalize_group_transform_def Let_def c_def [symmetric] s_def [symmetric] mod
        m_def [symmetric] using False by (simp only: if_False)
    moreover have "\<bar>i32 y\<bar> \<le> 0x100 \<and> i32 y = y \<and> i32 (- y) = - y" if "\<bar>y\<bar> \<le> 0x100" for y
      using that by (simp add: i32_small)
    note this [OF q(1)] this [OF q(2)]
    ultimately show ?thesis using q by (simp only: is_rotation_def mk_transform_fields)
  qed
qed

theorem normalize_is_rotation_witness:
  "is_rotation (normalize_group_transform (mk_transform 250 30 7 (- 30) 260 9)) \<and>
    t2 (normalize_group_transform (mk_transform 250 30 7 (- 30) 260 9)) = t2 (mk_transform 250 30 7 (- 30) 260 9) \<and>
    t5 (normalize_group_transform (mk_transform 250 30 7 (- 30) 260 9)) = t5 (mk_transform 250 30 7 (- 30) 260 9)"
  by (rule normalize_is_rotation) simp_all

section \<open>Points and the three-point affine search\<close>

record point =
  px :: int
  py :: int

definition mk_point :: "int \<Rightarrow> int \<Rightarrow> point" where
  "mk_point x y = \<lparr> px = x, py = y \<rparr>"

lemma mk_point_fields [simp]: "px (mk_point x y) = x" "py (mk_point x y) = y"
  by (simp_all add: mk_point_def)

abbreviation (input) G_MAXINT32 :: int where "G_MAXINT32 \<equiv> 0x7fffffff"

definition affine_from_three_points ::
    "point \<times> point \<times> point \<Rightarrow> point \<times> point \<times> point \<Rightarrow> transform" where
  "affine_from_three_points src tgt =
     (case (src, tgt) of ((s0, s1, s2), (g0, g1, g2)) \<Rightarrow>
       let dx21 = px s1 - px s0; dy21 = py s1 - py s0;
           dx31 = px s2 - px s0; dy31 = py s2 - py s0;
           y_denominator = i64 (dx21 * dy31 - dx31 * dy21);
           tx1 = px g0 * 2 ^ 10; tx2 = px g1 * 2 ^ 10; tx3 = px g2 * 2 ^ 10;
           ty1 = py g0 * 2 ^ 10; ty2 = py g1 * 2 ^ 10; ty3 = py g2 * 2 ^ 10;
           c_q10 = (if y_denominator = 0 then G_MAXINT32
                    else i32 (i64 ((ty2 - ty1) * dy31 - (ty3 - ty1) * dy21) sdiv y_denominator));
           d_q10 = (if y_denominator = 0 then G_MAXINT32
                    else i32 (i64 ((ty2 - ty1) * dx31 - (ty3 - ty1) * dx21) sdiv (- y_denominator)));
           x12 = px s0 - px s1; y12 = py s0 - py s1;
           x23 = px s1 - px s2; y23 = py s1 - py s2;
           x_denominator = i64 (x12 * y23 - x23 * y12);
           a_q10 = (if x_denominator = 0 then G_MAXINT32
                    else i32 (i64 ((tx1 - tx2) * y23 - (tx2 - tx3) * y12) sdiv x_denominator));
           b_q10 = (if x_denominator = 0 then G_MAXINT32
                    else i32 (i64 ((tx1 - tx2) * x23 - (tx2 - tx3) * x12) sdiv (- x_denominator)))
       in mk_transform
            (drop_bit 2 a_q10) (drop_bit 2 b_q10)
            (i32 (drop_bit 10 (i64 (tx1 - b_q10 * py s0 - a_q10 * px s0))))
            (drop_bit 2 c_q10) (drop_bit 2 d_q10)
            (i32 (drop_bit 10 (i64 (ty3 - d_q10 * py s2 - c_q10 * px s2)))))"

definition transform_scale_is_valid :: "transform \<Rightarrow> bool" where
  "transform_scale_is_valid t =
     (let a = t0 t; b = t1 t; c = t3 t; d = t4 t;
          m00 = i64 (a * a + b * b); m01 = i64 (a * c + b * d);
          m10 = i64 (a * c + b * d); m11 = i64 (c * c + d * d);
          trace = i64 (m00 + m11);
          discriminant = i64 (trace * trace + 4 * (m10 * m01 - m11 * m00));
          upper_delta = i64 (0xa3 * 2 ^ 9 - trace);
          lower_delta = i64 (0x191 * 2 ^ 9 - trace)
      in discriminant \<ge> 0 \<and> trace \<ge> 0 \<and> upper_delta \<le> 0 \<and> lower_delta \<ge> 0 \<and>
         i64 (upper_delta * upper_delta) > discriminant \<and>
         i64 (lower_delta * lower_delta) > discriminant)"

record transform_result =
  res_values :: transform
  res_error :: int
  res_inlier_count :: nat
  res_inliers :: "bool list"

abbreviation (input) TRANSFORM_POINT_LIMIT :: nat where "TRANSFORM_POINT_LIMIT \<equiv> 42"

text \<open>\<open>Some squared\<close> for a point within tolerance of its target.\<close>

definition point_residual :: "transform \<Rightarrow> point \<Rightarrow> point \<Rightarrow> int option" where
  "point_residual t src tgt =
     (let predicted_x = drop_bit 8 (i64 (t0 t * px src + t1 t * py src)) + t2 t;
          predicted_y = drop_bit 8 (i64 (t3 t * px src + t4 t * py src)) + t5 t;
          dx = predicted_x - px tgt; dy = predicted_y - py tgt;
          squared = i64 (dx * dx + dy * dy)
      in if \<bar>dx\<bar> \<le> 0x280 \<and> \<bar>dy\<bar> \<le> 0x280 \<and> squared < 0x64000 then Some squared else None)"

definition triple_inliers :: "transform \<Rightarrow> point list \<Rightarrow> point list \<Rightarrow> int option list" where
  "triple_inliers t src tgt = map2 (point_residual t) src tgt"

definition average_error :: "int option list \<Rightarrow> int" where
  "average_error residuals =
     (let hits = List.map_filter id residuals; inlier_count = length hits
      in if inlier_count = 0 then 0x190000
         else (int (inlier_count div 2) + sum_list hits) sdiv int inlier_count)"

text \<open>One round of the three nested loops, for the triple of indices.\<close>

definition estimate_triple ::
    "point list \<Rightarrow> point list \<Rightarrow> nat \<times> nat \<times> nat \<Rightarrow> transform_result \<Rightarrow> transform_result" where
  "estimate_triple src tgt ijk result =
     (case ijk of (i, j, k) \<Rightarrow>
       let t = affine_from_three_points (src ! i, src ! j, src ! k) (tgt ! i, tgt ! j, tgt ! k);
           residuals = triple_inliers t src tgt;
           inliers = map (\<lambda>r. r \<noteq> None) residuals;
           inlier_count = length (filter id inliers);
           err = average_error residuals
       in if (inlier_count > res_inlier_count result \<or>
              inlier_count = res_inlier_count result \<and> err < res_error result) \<and>
             transform_scale_is_valid t
          then \<lparr> res_values = t, res_error = err, res_inlier_count = inlier_count,
                 res_inliers = inliers @ replicate (TRANSFORM_POINT_LIMIT - length inliers) False \<rparr>
          else result)"

text \<open>The search stops as soon as more than 20 points agree.\<close>

fun estimate_loop ::
    "point list \<Rightarrow> point list \<Rightarrow> (nat \<times> nat \<times> nat) list \<Rightarrow> transform_result \<Rightarrow> transform_result" where
  "estimate_loop src tgt [] result = result"
| "estimate_loop src tgt (ijk # rest) result =
     (let result' = estimate_triple src tgt ijk result
      in if res_inlier_count result' > 20 then result' else estimate_loop src tgt rest result')"

definition index_triples :: "nat \<Rightarrow> (nat \<times> nat \<times> nat) list" where
  "index_triples n = [(i, j, k). i \<leftarrow> [0..<n - 2], j \<leftarrow> [i + 1..<n - 1], k \<leftarrow> [j + 1..<n]]"

definition estimate_start :: transform_result where
  "estimate_start = \<lparr> res_values = mk_transform 0 0 0 0 0 0, res_error = 0x190000,
     res_inlier_count = 0, res_inliers = replicate TRANSFORM_POINT_LIMIT False \<rparr>"

text \<open>\<open>None\<close> is the early return for more points than the result can hold.\<close>

definition goodix_chicago_enrollment_estimate_transform ::
    "point list \<Rightarrow> point list \<Rightarrow> transform_result option" where
  "goodix_chicago_enrollment_estimate_transform src tgt =
     (if \<not> length src \<le> TRANSFORM_POINT_LIMIT then None
      else Some (estimate_loop src tgt (index_triples (length src)) estimate_start))"

definition goodix_chicago_enrollment_evidence_is_accepted :: "nat \<Rightarrow> int \<Rightarrow> int \<Rightarrow> bool" where
  "goodix_chicago_enrollment_evidence_is_accepted count metric_a metric_b \<longleftrightarrow>
     count \<ge> 11 \<or> (count \<ge> 6 \<and> metric_a \<ge> 216) \<or> (count \<ge> 7 \<and> metric_a \<ge> 209 \<and> metric_b \<ge> 65)"

text \<open>What the search guarantees of its result.\<close>

definition estimate_ok :: "point list \<Rightarrow> point list \<Rightarrow> transform_result \<Rightarrow> bool" where
  "estimate_ok src tgt result \<longleftrightarrow>
     length (res_inliers result) = TRANSFORM_POINT_LIMIT \<and>
     res_inlier_count result = length (filter id (res_inliers result)) \<and>
     (if res_inlier_count result = 0 then True
      else transform_scale_is_valid (res_values result) \<and>
        (\<forall>i < length src. res_inliers result ! i \<longleftrightarrow>
           point_residual (res_values result) (src ! i) (tgt ! i) \<noteq> None) \<and>
        (\<forall>i. length src \<le> i \<longrightarrow> i < TRANSFORM_POINT_LIMIT \<longrightarrow> \<not> res_inliers result ! i))"

lemma filter_id_false [simp]: "filter id (replicate n False) = []"
  by (induction n) simp_all

lemma estimate_ok_triple:
  assumes "length src = length tgt" and "length src \<le> TRANSFORM_POINT_LIMIT" and "estimate_ok src tgt result"
  shows "estimate_ok src tgt (estimate_triple src tgt ijk result)"
  using assms
  by (cases ijk) (auto simp: estimate_ok_def estimate_triple_def Let_def triple_inliers_def nth_append
      filter_map)

lemma estimate_ok_loop:
  assumes "length src = length tgt" and "length src \<le> TRANSFORM_POINT_LIMIT"
  shows "estimate_ok src tgt result \<Longrightarrow> estimate_ok src tgt (estimate_loop src tgt ijks result)"
  by (induction ijks arbitrary: result) (simp_all add: Let_def estimate_ok_triple [OF assms])

text \<open>The affine search reports exactly the points that its transform maps within tolerance: the
  inlier flags and their count agree with the residual test, nothing beyond the given points is
  flagged, and a transform with inliers has a valid scale.\<close>

theorem estimate_transform_sound:
  assumes "length src = length tgt"
    and "goodix_chicago_enrollment_estimate_transform src tgt = Some result"
  shows "estimate_ok src tgt result"
proof -
  have len: "length src \<le> TRANSFORM_POINT_LIMIT"
    and res: "result = estimate_loop src tgt (index_triples (length src)) estimate_start"
    using assms(2) by (auto simp: goodix_chicago_enrollment_estimate_transform_def split: if_splits)
  have "estimate_ok src tgt estimate_start"
    by (simp add: estimate_ok_def estimate_start_def)
  then show ?thesis unfolding res by (rule estimate_ok_loop [OF assms(1) len])
qed

theorem estimate_transform_sound_witness:
  "estimate_ok [mk_point 0 0, mk_point 2560 0, mk_point 0 2560] [mk_point 256 0, mk_point 2816 0, mk_point 256 2560]
    (the (goodix_chicago_enrollment_estimate_transform
      [mk_point 0 0, mk_point 2560 0, mk_point 0 2560] [mk_point 256 0, mk_point 2816 0, mk_point 256 2560]))"
  by (rule estimate_transform_sound) (simp_all add: goodix_chicago_enrollment_estimate_transform_def)

section \<open>Overlap of a transformed rectangle\<close>

definition grid :: "nat \<Rightarrow> nat \<Rightarrow> (nat \<times> nat) list" where
  "grid width height = [(x, y). y \<leftarrow> [0..<height], x \<leftarrow> [0..<width]]"

definition affine_rectangle_overlap :: "transform \<Rightarrow> nat \<Rightarrow> nat \<Rightarrow> bool \<Rightarrow> nat" where
  "affine_rectangle_overlap t width height half_translation =
     (let translation_x = (if half_translation then drop_bit 1 (t2 t) else t2 t);
          translation_y = (if half_translation then drop_bit 1 (t5 t) else t5 t);
          maximum_x = (int width - 1) * 2 ^ 8; maximum_y = (int height - 1) * 2 ^ 8
      in length (filter (\<lambda>(x, y).
           let mapped_x = t0 t * int x + t1 t * int y + translation_x;
               mapped_y = t3 t * int x + t4 t * int y + translation_y
           in mapped_x \<ge> 0 \<and> mapped_x \<le> maximum_x \<and> mapped_y \<ge> 0 \<and> mapped_y \<le> maximum_y)
           (grid width height)))"

lemma length_grid [simp]: "length (grid width height) = width * height"
proof -
  have "length (concat (map (\<lambda>y. map (\<lambda>x. (x, y)) [0..<width]) [0..<h])) = width * h" for h
    by (induction h) (simp_all add: algebra_simps)
  then show ?thesis by (simp add: grid_def)
qed

lemma set_grid [simp]: "set (grid width height) = {0..<width} \<times> {0..<height}"
  by (auto simp: grid_def)

lemma overlap_le: "affine_rectangle_overlap t width height half \<le> width * height"
  unfolding affine_rectangle_overlap_def Let_def by (rule order_trans [OF length_filter_le]) simp

lemma overlap_identity:
  "affine_rectangle_overlap identity_group_transform width height half = width * height"
proof -
  define keep where "keep = (\<lambda>(x, y).
      let mapped_x = 256 * int x + 0 * int y + 0; mapped_y = 0 * int x + 256 * int y + 0
      in mapped_x \<ge> 0 \<and> mapped_x \<le> (int width - 1) * 2 ^ 8 \<and> mapped_y \<ge> 0 \<and> mapped_y \<le> (int height - 1) * 2 ^ 8)"
  have "\<forall>xy \<in> set (grid width height). keep xy"
    by (auto simp: keep_def Let_def)
  then have "filter keep (grid width height) = grid width height" by (intro filter_True) blast
  moreover have "affine_rectangle_overlap identity_group_transform width height half =
      length (filter keep (grid width height))"
    unfolding affine_rectangle_overlap_def identity_group_transform_def keep_def by (simp cong: if_cong)
  ultimately show ?thesis by simp
qed

section \<open>Polygons of the capacity selector\<close>

definition capacity_transform_point :: "point \<Rightarrow> transform \<Rightarrow> point" where
  "capacity_transform_point p t = mk_point
     (i32 (drop_bit 8 (i64 (t0 t * px p + t1 t * py p + t2 t + 0x80))))
     (i32 (drop_bit 8 (i64 (t3 t * px p + t4 t * py p + t5 t + 0x80))))"

text \<open>
  Called with the result aliasing the argument, the function stores the new \<open>x\<close> before it
  computes \<open>y\<close>, which therefore uses the mapped abscissa.
\<close>

definition capacity_transform_point_in_place :: "point \<Rightarrow> transform \<Rightarrow> point" where
  "capacity_transform_point_in_place p t =
     (let x = i32 (drop_bit 8 (i64 (t0 t * px p + t1 t * py p + t2 t + 0x80)))
      in mk_point x (i32 (drop_bit 8 (i64 (t3 t * x + t4 t * py p + t5 t + 0x80)))))"

record capacity_polygon =
  poly_points :: "point list"
  poly_edges :: "point list"

definition inside_rectangle :: "point \<Rightarrow> int \<Rightarrow> int \<Rightarrow> bool" where
  "inside_rectangle p width height \<longleftrightarrow> px p \<ge> 0 \<and> px p < width \<and> py p \<ge> 0 \<and> py p < height"

definition polygon_corners :: "transform \<Rightarrow> int \<Rightarrow> int \<Rightarrow> point list" where
  "polygon_corners t width height = map (\<lambda>corner. capacity_transform_point corner t)
     [mk_point 0 0, mk_point width 0, mk_point width height, mk_point 0 height]"

definition capacity_build_polygon :: "transform \<Rightarrow> int \<Rightarrow> int \<Rightarrow> bool \<times> capacity_polygon" where
  "capacity_build_polygon t width height =
     (let corners = polygon_corners t width height;
          inside_margin = list_ex (\<lambda>p. px p > 5 \<and> px p < width - 5 \<and> py p > 5 \<and> py p < height - 5) corners;
          inside_expanded = list_ex (\<lambda>p. px p > -5 \<and> px p < width + 5 \<and> py p > -5 \<and> py p < height + 5) corners;
          points = corners @ [hd corners];
          edges = map2 (\<lambda>p q. mk_point (i32 (px q - px p)) (i32 (py q - py p))) corners (tl points);
          polygon = \<lparr> poly_points = points, poly_edges = edges \<rparr>;
          mapped_inside = (\<lambda>p. inside_rectangle (capacity_transform_point_in_place p t) width height);
          half_width = drop_bit 1 width; half_height = drop_bit 1 height;
          accepted =
            (if inside_margin then True
             else if mapped_inside (mk_point half_width half_height) then True
             else if inside_expanded then
               list_ex (\<lambda>k. mapped_inside (mk_point (16 * int k) half_height)) [0..<nat ((width + 15) div 16)] \<or>
               list_ex (\<lambda>k. mapped_inside (mk_point half_width (16 * int k))) [0..<nat ((height + 15) div 16)]
             else False)
      in (accepted, polygon))"

definition capacity_polygon_contains :: "capacity_polygon \<Rightarrow> int \<Rightarrow> int \<Rightarrow> bool" where
  "capacity_polygon_contains polygon x y =
     (let cross = map2 (\<lambda>p e. i64 (i32 (x - px p) * py e - i32 (y - py p) * px e))
            (poly_points polygon) (poly_edges polygon)
      in (cross ! 0 XOR cross ! 2) \<ge> 0 \<and> (cross ! 1 XOR cross ! 3) \<ge> 0)"

text \<open>The sampling positions 1, 4, 7, \<dots> below a limit.\<close>

definition sample_positions :: "nat \<Rightarrow> nat list" where
  "sample_positions limit = map (\<lambda>k. 3 * k + 1) [0..<(limit + 1) div 3]"

definition capacity_redundancy_score :: "bytes \<Rightarrow> capacity_polygon list \<Rightarrow> int" where
  "capacity_redundancy_score coarse_mask polygons =
     (let samples = [(x, y). y \<leftarrow> sample_positions 64, x \<leftarrow> sample_positions 80];
          admitted = filter (\<lambda>(x, y).
            let b = (y div 4) * 20 + x div 4
            in \<not> bit (coarse_mask ! (b div 8)) (b mod 8) \<or>
               list_ex (\<lambda>p. capacity_polygon_contains p (int x) (int y)) polygons) samples
      in if length samples > 0 then int (length admitted) * 100 sdiv int (length samples) else 100)"

lemma coarse_byte_in_range:
  assumes "x < 80" and "y < 64"
  shows "(y div 4 * 20 + x div 4) div 8 < (40 :: nat)"
proof -
  have "y div 4 \<le> 15" "x div 4 \<le> 19" using assms by linarith+
  then have "y div 4 * 20 + x div 4 < 40 * 8" by linarith
  then show ?thesis by (simp add: div_less_iff_less_mult)
qed

text \<open>A redundancy score is a percentage, it never decreases when another template's polygon is
  added, and a map with an empty mask is fully redundant.\<close>

theorem capacity_redundancy_score_bounds:
  "0 \<le> capacity_redundancy_score packed polygons \<and> capacity_redundancy_score packed polygons \<le> 100 \<and>
   capacity_redundancy_score packed polygons \<le> capacity_redundancy_score packed (polygons @ others) \<and>
   capacity_redundancy_score (replicate 40 0) polygons = 100"
proof -
  let ?samples = "[(x, y). y \<leftarrow> sample_positions 64, x \<leftarrow> sample_positions 80]"
  define adm where "adm packed ps = filter (\<lambda>(x, y). let b = (y div 4) * 20 + x div 4 in
      \<not> bit (packed ! (b div 8)) (b mod 8) \<or> list_ex (\<lambda>p. capacity_polygon_contains p (int x) (int y)) ps) ?samples"
    for packed :: bytes and ps
  have n: "length ?samples = 567" by (simp add: sample_positions_def length_concat o_def sum_list_triv del: upt_rec_numeral)
  have score: "capacity_redundancy_score m ps = int (length (adm m ps)) * 100 div 567" for m ps
    unfolding capacity_redundancy_score_def Let_def adm_def [unfolded Let_def, symmetric] n
    by (simp add: signed_divide_int_def sgn_if)
  have le: "length (adm m ps) \<le> 567" for m ps
    unfolding adm_def by (rule order_trans [OF length_filter_le]) (simp only: n)
  have mono: "length (adm packed polygons) \<le> length (adm packed (polygons @ others))"
    unfolding adm_def by (rule length_filter_mono) (auto simp: Let_def)
  have "\<forall>xy \<in> set ?samples. (fst xy, snd xy) \<in> {0..<80} \<times> {0..<64}"
    by (auto simp: sample_positions_def)
  then have "adm (replicate 40 0) polygons = ?samples"
    unfolding adm_def by (intro filter_True) (auto simp: Let_def coarse_byte_in_range)
  then have full: "length (adm (replicate 40 0) polygons) = 567" using n by simp
  show ?thesis
    unfolding score using le [of packed polygons] mono full by (auto intro: zdiv_mono1)
qed

section \<open>Feature correspondences\<close>

record feature_record =
  foreground :: u16
  refined_x :: u16
  refined_y :: u16
  orientation :: u16
  strength :: u32
  descriptor :: bytes

definition popcount :: "bytes \<Rightarrow> nat" where
  "popcount bs = sum_list (map (\<lambda>b. length (filter (bit b) [0..<8])) bs)"

text \<open>Six 32-bit words of the descriptors, from byte 4 to byte 27, compared bit by bit.\<close>

definition descriptor_distance :: "feature_record \<Rightarrow> feature_record \<Rightarrow> nat" where
  "descriptor_distance a b =
     popcount (map2 (XOR) (take 24 (drop 4 (descriptor a))) (take 24 (drop 4 (descriptor b))))"

record candidate =
  old_index :: nat
  new_index :: nat
  best_distance :: nat
  second_distance :: nat

abbreviation (input) CORRESPONDENCE_LIMIT :: nat where "CORRESPONDENCE_LIMIT \<equiv> 31"

text \<open>The scan over the new records: best and second distance, and the index of the best.\<close>

fun best_two :: "feature_record \<Rightarrow> feature_record list \<Rightarrow> nat \<Rightarrow> nat \<times> nat \<times> nat option \<Rightarrow> nat \<times> nat \<times> nat option" where
  "best_two old [] index acc = acc"
| "best_two old (new # news) index (best, second, best_index) =
     (let distance = descriptor_distance old new
      in best_two old news (index + 1)
           (if distance < best then (distance, best, Some index)
            else if distance < second then (best, distance, best_index)
            else (best, second, best_index)))"

definition too_close :: "feature_record \<Rightarrow> feature_record \<Rightarrow> bool" where
  "too_close a b \<longleftrightarrow>
     (let dx = uint (refined_x a) - uint (refined_x b); dy = uint (refined_y a) - uint (refined_y b)
      in \<not> i32 (i32 (dx * dx) + i32 (dy * dy)) \<ge> 0x10000)"

datatype scan_outcome = Scan_next_old | Scan_replaced "candidate list" | Scan_free "candidate list"

text \<open>
  The spatial filter: \<open>selected\<close> is the array with its count, \<open>scan\<close> the position. Dropping a
  candidate moves the last one into its place; the moved one is not looked at again.
\<close>

function scan_selected ::
    "feature_record list \<Rightarrow> candidate \<Rightarrow> nat \<Rightarrow> bool \<Rightarrow> candidate list \<Rightarrow> scan_outcome" where
  "scan_selected news c scan replaced selected =
     (if scan \<ge> length selected then (if replaced then Scan_replaced selected else Scan_free selected)
      else if \<not> too_close (news ! new_index c) (news ! new_index (selected ! scan))
      then scan_selected news c (scan + 1) replaced selected
      else if best_distance (selected ! scan) \<le> best_distance c
      then if \<not> replaced then Scan_next_old else scan_selected news c (scan + 1) replaced selected
      else if \<not> replaced then scan_selected news c (scan + 1) True (selected[scan := c])
      else scan_selected news c (scan + 1) replaced
             (butlast (if scan \<noteq> length selected - 1 then selected[scan := last selected] else selected)))"
  by pat_completeness auto
termination by (relation "measure (\<lambda>(news, c, scan, replaced, selected). length selected - scan)") auto

declare scan_selected.simps [simp del]

definition worst_index :: "candidate list \<Rightarrow> nat" where
  "worst_index selected =
     foldl (\<lambda>worst index. if best_distance (selected ! index) > best_distance (selected ! worst)
                        then index else worst) 0 [1..<length selected]"

definition admit_candidate :: "feature_record list \<Rightarrow> candidate \<Rightarrow> candidate list \<Rightarrow> candidate list" where
  "admit_candidate news c selected =
     (case scan_selected news c 0 False selected of
        Scan_next_old \<Rightarrow> selected
      | Scan_replaced selected' \<Rightarrow> selected'
      | Scan_free selected' \<Rightarrow>
          if length selected' < CORRESPONDENCE_LIMIT then selected' @ [c]
          else let w = worst_index selected'
               in if best_distance c < best_distance (selected' ! w) then selected'[w := c] else selected')"

definition correspondence_step ::
    "feature_record list \<Rightarrow> nat \<times> feature_record \<Rightarrow> candidate list \<Rightarrow> candidate list" where
  "correspondence_step news iold selected =
     (case iold of (i, old) \<Rightarrow>
       case best_two old news 0 (192, 192, None) of
         (best, second, None) \<Rightarrow> selected
       | (best, second, Some j) \<Rightarrow>
           if best * 40 \<ge> second * 38 then selected
           else admit_candidate news
                  \<lparr> old_index = i, new_index = j, best_distance = best, second_distance = second \<rparr> selected)"

definition select_correspondences :: "feature_record list \<Rightarrow> feature_record list \<Rightarrow> candidate list" where
  "select_correspondences olds news =
     foldl (\<lambda>selected iold. correspondence_step news iold selected) [] (enumerate 0 olds)"

definition goodix_chicago_enrollment_find_correspondences ::
    "feature_record list \<Rightarrow> feature_record list \<Rightarrow> (nat \<times> nat) list" where
  "goodix_chicago_enrollment_find_correspondences olds news =
     map (\<lambda>c. (old_index c, new_index c)) (select_correspondences olds news)"

text \<open>What a selected candidate satisfies.\<close>

definition candidate_ok :: "feature_record list \<Rightarrow> feature_record list \<Rightarrow> candidate \<Rightarrow> bool" where
  "candidate_ok olds news c \<longleftrightarrow>
     old_index c < length olds \<and> new_index c < length news \<and>
     best_distance c = descriptor_distance (olds ! old_index c) (news ! new_index c) \<and>
     best_distance c * 40 < second_distance c * 38 \<and> second_distance c \<le> 192 \<and>
     (\<forall>j < length news. j \<noteq> new_index c \<longrightarrow>
        second_distance c \<le> descriptor_distance (olds ! old_index c) (news ! j))"

text \<open>The scan finds the best and the second best distance.\<close>

definition best_two_inv :: "feature_record \<Rightarrow> feature_record list \<Rightarrow> nat \<Rightarrow> nat \<times> nat \<times> nat option \<Rightarrow> bool" where
  "best_two_inv old news n acc =
     (case acc of (best, second, found) \<Rightarrow>
       best \<le> second \<and> second \<le> 192 \<and>
       (case found of
          None \<Rightarrow> best = 192 \<and> (\<forall>j < n. descriptor_distance old (news ! j) \<ge> 192)
        | Some i \<Rightarrow> i < n \<and> best = descriptor_distance old (news ! i) \<and>
            (\<forall>j < n. j \<noteq> i \<longrightarrow> second \<le> descriptor_distance old (news ! j))))"

lemma best_two_step:
  assumes "best_two_inv old news n (best, second, found)" and "n < length news"
  shows "best_two_inv old news (n + 1)
    (let distance = descriptor_distance old (news ! n)
     in if distance < best then (distance, best, Some n)
        else if distance < second then (best, distance, found)
        else (best, second, found))"
  using assms
  by (auto simp: best_two_inv_def Let_def less_Suc_eq split: option.splits)

lemma best_two_spec:
  "best_two_inv old news n acc \<Longrightarrow> n \<le> length news \<Longrightarrow>
   best_two_inv old news (length news) (best_two old (drop n news) n acc)"
proof (induction "length news - n" arbitrary: n acc)
  case 0
  then show ?case by simp
next
  case (Suc k)
  obtain best second found where acc: "acc = (best, second, found)" by (cases acc)
  have n: "n < length news" using Suc by simp
  have d: "drop n news = news ! n # drop (n + 1) news" using n by (simp add: Cons_nth_drop_Suc)
  show ?case
    unfolding acc d best_two.simps Let_def
    by (rule Suc.hyps(1)) (use Suc n best_two_step [of old news n best second found] in \<open>simp_all add: acc Let_def\<close>)
qed

text \<open>The filter only replaces, moves and drops candidates.\<close>

definition scan_ok :: "candidate \<Rightarrow> candidate list \<Rightarrow> scan_outcome \<Rightarrow> bool" where
  "scan_ok c selected out =
     (case out of
        Scan_next_old \<Rightarrow> True
      | Scan_replaced s \<Rightarrow> set s \<subseteq> insert c (set selected) \<and> length s \<le> length selected
      | Scan_free s \<Rightarrow> set s \<subseteq> insert c (set selected) \<and> length s \<le> length selected)"

lemma scan_ok_trans:
  "scan_ok c selected' out \<Longrightarrow> set selected' \<subseteq> insert c (set selected) \<Longrightarrow>
   length selected' \<le> length selected \<Longrightarrow> scan_ok c selected out"
  by (auto simp: scan_ok_def split: scan_outcome.splits)

lemma scan_selected_subset: "scan_ok c selected (scan_selected news c scan replaced selected)"
proof (induction news c scan replaced selected rule: scan_selected.induct)
  case (1 news c scan replaced selected)
  note unfold = scan_selected.simps [of news c scan replaced selected]
  let ?cut = "butlast (if scan \<noteq> length selected - 1 then selected[scan := last selected] else selected)"
  consider "length selected \<le> scan"
    | "scan < length selected" "\<not> too_close (news ! new_index c) (news ! new_index (selected ! scan))"
    | "scan < length selected" "too_close (news ! new_index c) (news ! new_index (selected ! scan))"
      "best_distance (selected ! scan) \<le> best_distance c"
    | "scan < length selected" "too_close (news ! new_index c) (news ! new_index (selected ! scan))"
      "\<not> best_distance (selected ! scan) \<le> best_distance c" "\<not> replaced"
    | "scan < length selected" "too_close (news ! new_index c) (news ! new_index (selected ! scan))"
      "\<not> best_distance (selected ! scan) \<le> best_distance c" replaced
    by linarith
  then show ?case
  proof cases
    case 1
    then show ?thesis unfolding unfold by (simp add: scan_ok_def subset_insertI)
  next
    case 2
    then show ?thesis unfolding unfold using "1.IH"(1) by simp
  next
    case 3
    then show ?thesis unfolding unfold using "1.IH"(2) by (simp add: scan_ok_def)
  next
    case 4
    then have "scan_ok c (selected[scan := c]) (scan_selected news c (scan + 1) True (selected[scan := c]))"
      by (intro "1.IH"(3)) simp_all
    then have "scan_ok c selected (scan_selected news c (scan + 1) True (selected[scan := c]))"
      by (rule scan_ok_trans) (simp_all add: set_update_subset_insert)
    then show ?thesis unfolding unfold using 4 by simp
  next
    case 5
    then have "scan_ok c ?cut (scan_selected news c (scan + 1) replaced ?cut)"
      by (intro "1.IH"(4)) simp_all
    moreover have "set ?cut \<subseteq> insert c (set selected)"
    proof -
      have "last selected \<in> set selected" using 5(1) by (intro last_in_set) auto
      then have "set (selected[scan := last selected]) \<subseteq> set selected"
        using set_update_subset_insert [of selected scan "last selected"] by blast
      then show ?thesis by (auto dest!: in_set_butlastD split: if_splits)
    qed
    ultimately have "scan_ok c selected (scan_selected news c (scan + 1) replaced ?cut)"
      by (rule scan_ok_trans) simp
    then show ?thesis unfolding unfold using 5 by simp
  qed
qed

definition selection_ok :: "feature_record list \<Rightarrow> feature_record list \<Rightarrow> nat \<Rightarrow> candidate list \<Rightarrow> bool" where
  "selection_ok olds news n selected \<longleftrightarrow>
     length selected \<le> CORRESPONDENCE_LIMIT \<and>
     (\<forall>c \<in> set selected. candidate_ok olds news c \<and> old_index c < n)"

lemma admit_candidate_ok:
  assumes "selection_ok olds news n selected" and "candidate_ok olds news c" and "old_index c < n"
  shows "selection_ok olds news n (admit_candidate news c selected)"
proof (cases "scan_selected news c 0 False selected")
  case (Scan_free s)
  have s: "set s \<subseteq> insert c (set selected)" "length s \<le> length selected"
    using scan_selected_subset [of c selected news 0 False] Scan_free by (simp_all add: scan_ok_def)
  have ok: "selection_ok olds news n s" using s assms by (auto simp: selection_ok_def)
  show ?thesis
    using ok assms(2,3) set_update_subset_insert [of s "worst_index s" c]
    by (auto simp: admit_candidate_def Scan_free Let_def selection_ok_def split: if_splits)
next
  case (Scan_replaced s)
  have "set s \<subseteq> insert c (set selected)" "length s \<le> length selected"
    using scan_selected_subset [of c selected news 0 False] Scan_replaced by (simp_all add: scan_ok_def)
  then show ?thesis using assms by (auto simp: admit_candidate_def Scan_replaced selection_ok_def)
qed (use assms in \<open>simp add: admit_candidate_def\<close>)

lemma correspondence_step_ok:
  assumes "selection_ok olds news i selected" and "i < length olds"
  shows "selection_ok olds news (i + 1) (correspondence_step news (i, olds ! i) selected)"
proof -
  have weaker: "selection_ok olds news (i + 1) selected"
    using assms(1) by (auto simp: selection_ok_def)
  obtain best second found where b: "best_two (olds ! i) news 0 (192, 192, None) = (best, second, found)"
    by (cases "best_two (olds ! i) news 0 (192, 192, None)") auto
  have inv: "best_two_inv (olds ! i) news (length news) (best, second, found)"
    using best_two_spec [of "olds ! i" news 0 "(192, 192, None)"] b by (simp add: best_two_inv_def)
  show ?thesis
  proof (cases "found = None \<or> best * 40 \<ge> second * 38")
    case True
    then show ?thesis using weaker by (auto simp: correspondence_step_def b split: option.splits)
  next
    case False
    then obtain j where j: "found = Some j" by auto
    let ?c = "\<lparr> old_index = i, new_index = j, best_distance = best, second_distance = second \<rparr>"
    have "candidate_ok olds news ?c"
      using inv False assms(2) by (simp add: candidate_ok_def best_two_inv_def j)
    then have "selection_ok olds news (i + 1) (admit_candidate news ?c selected)"
      using weaker by (intro admit_candidate_ok) simp_all
    then show ?thesis using False by (simp add: correspondence_step_def b j)
  qed
qed

lemma select_correspondences_ok: "selection_ok olds news (length olds) (select_correspondences olds news)"
proof -
  have "selection_ok olds news n
      (foldl (\<lambda>selected iold. correspondence_step news iold selected) [] (enumerate 0 (take n olds)))"
    if "n \<le> length olds" for n
    using that
  proof (induction n)
    case (Suc n)
    then show ?case
      using correspondence_step_ok [of olds news n]
      by (simp add: take_Suc_conv_app_nth enumerate_append_eq)
  qed (simp add: selection_ok_def)
  from this [of "length olds"] show ?thesis by (simp add: select_correspondences_def)
qed

lemma candidate_ratio:
  assumes "candidate_ok olds news c"
  shows "old_index c < length olds" "new_index c < length news"
    "descriptor_distance (olds ! old_index c) (news ! new_index c) * 40 < 192 * 38"
    "k < length news \<Longrightarrow> k \<noteq> new_index c \<Longrightarrow>
      \<not> descriptor_distance (olds ! old_index c) (news ! k) * 38
         \<le> descriptor_distance (olds ! old_index c) (news ! new_index c) * 40"
proof -
  have c: "best_distance c = descriptor_distance (olds ! old_index c) (news ! new_index c)"
    "best_distance c * 40 < second_distance c * 38" "second_distance c \<le> 192"
    using assms by (simp_all add: candidate_ok_def)
  show "old_index c < length olds" "new_index c < length news"
    using assms by (simp_all add: candidate_ok_def)
  show "descriptor_distance (olds ! old_index c) (news ! new_index c) * 40 < 192 * 38"
    using c by linarith
  assume "k < length news" "k \<noteq> new_index c"
  then have "second_distance c \<le> descriptor_distance (olds ! old_index c) (news ! k)"
    using assms by (simp add: candidate_ok_def)
  then show "\<not> descriptor_distance (olds ! old_index c) (news ! k) * 38
      \<le> descriptor_distance (olds ! old_index c) (news ! new_index c) * 40"
    using c by linarith
qed

text \<open>Every reported correspondence pairs existing records, passes the strict 0.95 ratio test
  against every other new record, and at most 31 are reported, so they fit the caller's array.\<close>

theorem find_correspondences_sound:
  "length (goodix_chicago_enrollment_find_correspondences olds news) \<le> 31 \<and>
   set (goodix_chicago_enrollment_find_correspondences olds news) \<subseteq>
     {(i, j). i < length olds \<and> j < length news \<and>
        {k. k < length news \<and> k \<noteq> j \<and>
           descriptor_distance (olds ! i) (news ! k) * 38 \<le> descriptor_distance (olds ! i) (news ! j) * 40} = {} \<and>
        descriptor_distance (olds ! i) (news ! j) * 40 < 192 * 38}"
proof -
  have ok: "length (select_correspondences olds news) \<le> 31"
    "\<And>c. c \<in> set (select_correspondences olds news) \<Longrightarrow> candidate_ok olds news c"
    using select_correspondences_ok [of olds news] by (auto simp: selection_ok_def)
  note ratio = candidate_ratio [OF ok(2)]
  show ?thesis
    unfolding goodix_chicago_enrollment_find_correspondences_def
    using ok(1) ratio by (simp add: image_subset_iff) blast
qed

end
