(* ===== verification/Chicago_Metrics.thy ===== *)
theory Chicago_Metrics
  imports Chicago_Transform
begin

text \<open>
  The metric maps of goodix-chicago-enrollment.c: packed 40 x 32 bit planes and 20 x 16 masks,
  their warping under a transform, and the agreement metrics of a relation. A plane that is
  sampled is a function from byte offsets to values, so that which offsets are read is visible;
  the three feature planes that \<open>build_metric_data\<close> derives from the enhanced image are arguments.
\<close>

declare upt_rec_numeral [simp del]

abbreviation (input) METRIC_WIDTH :: nat where "METRIC_WIDTH \<equiv> 40"
abbreviation (input) METRIC_HEIGHT :: nat where "METRIC_HEIGHT \<equiv> 32"
abbreviation (input) METRIC_PIXELS :: nat where "METRIC_PIXELS \<equiv> 1280"

section \<open>Packed bit planes\<close>

definition packed_bit :: "bytes \<Rightarrow> nat \<Rightarrow> byte" where
  "packed_bit packed k = drop_bit (k mod 8) (packed ! (k div 8)) AND 1"

definition unpack_metric_bits :: "bytes \<Rightarrow> bytes" where
  "unpack_metric_bits packed = map (packed_bit packed) [0..<METRIC_PIXELS]"

definition expand_metric_mask :: "bytes \<Rightarrow> bytes" where
  "expand_metric_mask packed =
     map (\<lambda>i. let y = i div 80; x = i mod 80 in packed_bit packed ((y div 4) * 20 + x div 4)) [0..<5120]"

definition expand_config1_mask :: "bytes \<Rightarrow> bytes" where
  "expand_config1_mask packed =
     map (\<lambda>i. let y = i div 40; x = i mod 40 in packed_bit packed ((y div 2) * 20 + x div 2)) [0..<METRIC_PIXELS]"

text \<open>A loop that sets the bits of a predicate in a zeroed packed plane.\<close>

definition pack_plane :: "(nat \<Rightarrow> bool) \<Rightarrow> nat \<Rightarrow> nat \<Rightarrow> bytes" where
  "pack_plane f n sz =
     foldl (\<lambda>packed k. if f k then packed[k div 8 := packed ! (k div 8) OR push_bit (k mod 8) 1] else packed)
       (replicate sz 0) [0..<n]"

lemma packed_bit_iff: "packed_bit packed k = (if bit (packed ! (k div 8)) (k mod 8) then 1 else 0)"
  by (simp add: packed_bit_def and_one_eq bit_iff_odd_drop_bit odd_iff_mod_2_eq_one)

lemma packed_bit_less_2: "packed_bit packed k < 2"
  by (simp add: packed_bit_iff)

lemma pack_plane_bits:
  assumes "n \<le> 8 * sz" and "k < 8 * sz"
  shows "bit (pack_plane f n sz ! (k div 8)) (k mod 8) \<longleftrightarrow> k < n \<and> f k"
    and "length (pack_plane f n sz) = sz"
proof -
  let ?step = "\<lambda>packed k. if f k then packed[k div 8 := packed ! (k div 8) OR push_bit (k mod 8) (1 :: byte)] else packed"
  have "length (foldl ?step (replicate sz 0) [0..<m]) = sz \<and>
      (\<forall>k < 8 * sz. bit (foldl ?step (replicate sz 0) [0..<m] ! (k div 8)) (k mod 8) \<longleftrightarrow> k < m \<and> f k)"
    if "m \<le> n" for m
    using that
  proof (induction m)
    case 0
    then show ?case by (auto simp: div_less_iff_less_mult mult.commute)
  next
    case (Suc m)
    let ?p = "foldl ?step (replicate sz 0) [0..<m]"
    have p: "length ?p = sz" "\<And>k. k < 8 * sz \<Longrightarrow> bit (?p ! (k div 8)) (k mod 8) \<longleftrightarrow> k < m \<and> f k"
      using Suc by simp_all
    have m: "m div 8 < sz" using Suc.prems assms(1) by (simp add: div_less_iff_less_mult mult.commute)
    have eq: "k = m" if "k div 8 = m div 8" "k mod 8 = m mod 8" for k
      using that by (metis div_mult_mod_eq)
    have "bit (?step ?p m ! (k div 8)) (k mod 8) \<longleftrightarrow> k < Suc m \<and> f k" if k: "k < 8 * sz" for k
    proof (cases "k div 8 = m div 8")
      case True
      have "bit (push_bit (m mod 8) (1 :: byte)) (k mod 8) \<longleftrightarrow> k = m"
        using True eq [of k] by (auto simp: bit_exp_iff)
      moreover have "?step ?p m ! (k div 8) =
          (if f m then ?p ! (k div 8) OR push_bit (m mod 8) 1 else ?p ! (k div 8))"
        using m p(1) by (simp add: True)
      ultimately have "bit (?step ?p m ! (k div 8)) (k mod 8) \<longleftrightarrow> (k < m \<and> f k) \<or> (f m \<and> k = m)"
        using p(2) [OF k] by (auto simp: bit_or_iff)
      then show ?thesis by (auto simp: less_Suc_eq)
    next
      case False
      then show ?thesis using p(2) [OF k] by (auto simp: less_Suc_eq)
    qed
    then show ?case using p(1) by simp
  qed
  from this [of n] show "bit (pack_plane f n sz ! (k div 8)) (k mod 8) \<longleftrightarrow> k < n \<and> f k"
    and "length (pack_plane f n sz) = sz"
    using assms(2) by (simp_all add: pack_plane_def)
qed

lemma packed_bit_pack_plane:
  "n \<le> 8 * sz \<Longrightarrow> k < n \<Longrightarrow> packed_bit (pack_plane f n sz) k = (if f k then 1 else 0)"
  by (simp add: packed_bit_iff pack_plane_bits)

section \<open>Metric data\<close>

record metric_data =
  primary :: bytes
  secondary :: bytes
  validity :: bytes
  coarse_mask :: bytes
  position_map :: bytes
  packed_resolution :: nat

definition metric_data_build_position_map :: "metric_data \<Rightarrow> metric_data" where
  "metric_data_build_position_map m = m\<lparr> position_map :=
     pack_plane (\<lambda>b. let y = b div 40; x = b mod 40
                     in packed_bit (coarse_mask m) ((y div 2) * 20 + x div 2) \<noteq> 0) METRIC_PIXELS 160 \<rparr>"

text \<open>The feature-plane index of a metric pixel, and the histogram over the masked samples.\<close>

definition even_pixel :: "nat \<Rightarrow> nat" where
  "even_pixel b = (let y = b div 40; x = b mod 40 in (y * 2) * 80 + x * 2)"

definition metric_histogram :: "bytes \<Rightarrow> bytes \<Rightarrow> nat \<Rightarrow> nat" where
  "metric_histogram prepared feature_mask v =
     length (filter (\<lambda>b. feature_mask ! even_pixel b \<noteq> 0 \<and> unat (prepared ! even_pixel b) = v) [0..<METRIC_PIXELS])"

fun quantile_threshold :: "(nat \<Rightarrow> nat) \<Rightarrow> nat \<Rightarrow> nat list \<Rightarrow> nat \<Rightarrow> nat" where
  "quantile_threshold histogram target [] previous = 0"
| "quantile_threshold histogram target (v # vs) previous =
     (let cumulative = previous + histogram v
      in if cumulative \<ge> target
         then (if (int target - int previous) mod 2 ^ 32 < (int cumulative - int target) mod 2 ^ 32
               then v - 1 else v)
         else quantile_threshold histogram target vs cumulative)"

definition metric_threshold :: "bytes \<Rightarrow> bytes \<Rightarrow> nat" where
  "metric_threshold prepared feature_mask =
     (let quantile_samples = length (filter (\<lambda>b. feature_mask ! even_pixel b \<noteq> 0) [0..<METRIC_PIXELS]);
          target = (quantile_samples * 205 + 128) div 256;
          histogram = metric_histogram prepared feature_mask
      in quantile_threshold histogram target [1..<256] (histogram 0))"

definition block_population :: "bytes \<Rightarrow> nat \<Rightarrow> nat" where
  "block_population feature_mask b =
     (let block_y = b div 20; block_x = b mod 20
      in sum_list (map (\<lambda>(x, y). unat (feature_mask ! ((block_y * 4 + y) * 80 + block_x * 4 + x))) (grid 4 4)))"

definition goodix_chicago_enrollment_build_metric_data :: "bytes \<Rightarrow> bytes \<Rightarrow> bytes \<Rightarrow> metric_data" where
  "goodix_chicago_enrollment_build_metric_data source prepared feature_mask =
     (let threshold = metric_threshold prepared feature_mask
      in metric_data_build_position_map
        \<lparr> primary = pack_plane (\<lambda>b. source ! even_pixel b > 200) METRIC_PIXELS 160,
          secondary = pack_plane (\<lambda>b. unat (prepared ! even_pixel b) > threshold) METRIC_PIXELS 160,
          validity = pack_plane (\<lambda>b. source ! even_pixel b > 55) METRIC_PIXELS 160,
          coarse_mask = pack_plane (\<lambda>b. block_population feature_mask b \<ge> 8) 320 40,
          position_map = replicate 160 0, packed_resolution = 0 \<rparr>)"

text \<open>The planes built from an enhanced image carry at every metric pixel exactly the threshold
  test of the even feature pixel it samples, and every cell of the position map is the coarse
  mask bit of its 2 x 2 block.\<close>

theorem build_metric_data_bits:
  assumes "k < METRIC_PIXELS"
    and m_def: "m = goodix_chicago_enrollment_build_metric_data source prepared feature_mask"
  shows "(packed_bit (primary m) k = 1 \<longleftrightarrow> source ! ((k div 40) * 160 + (k mod 40) * 2) > 200) \<and>
    (packed_bit (validity m) k = 1 \<longleftrightarrow> source ! ((k div 40) * 160 + (k mod 40) * 2) > 55) \<and>
    packed_bit (position_map m) k = packed_bit (coarse_mask m) ((k div 80) * 20 + (k mod 40) div 2) \<and>
    (packed_bit (position_map m) k = 1 \<longleftrightarrow> block_population feature_mask ((k div 80) * 20 + (k mod 40) div 2) \<ge> 8)"
proof -
  have even: "even_pixel k = (k div 40) * 160 + (k mod 40) * 2"
    by (simp add: even_pixel_def)
  have half: "k div 40 div 2 = k div 80" by (simp add: div_mult2_eq [symmetric])
  have "k div 80 \<le> 15" using assms(1) by linarith
  moreover have "(k mod 40) div 2 \<le> 19"
    using mod_less_divisor [of 40 k] by linarith
  ultimately have c: "(k div 80) * 20 + (k mod 40) div 2 < 320" by linarith
  have planes: "packed_bit (primary m) k = (if source ! even_pixel k > 200 then 1 else 0)"
    "packed_bit (validity m) k = (if source ! even_pixel k > 55 then 1 else 0)"
    and mask_bit: "\<And>j. j < 320 \<Longrightarrow> packed_bit (coarse_mask m) j = (if block_population feature_mask j \<ge> 8 then 1 else 0)"
    and pos: "packed_bit (position_map m) k =
      (if packed_bit (coarse_mask m) ((k div 80) * 20 + (k mod 40) div 2) \<noteq> 0 then 1 else 0)"
    using assms(1) by (simp_all add: m_def goodix_chicago_enrollment_build_metric_data_def Let_def
        metric_data_build_position_map_def packed_bit_pack_plane half)
  show ?thesis
    using planes pos mask_bit [OF c] by (simp add: even)
qed

definition sample_metric_data :: metric_data where
  "sample_metric_data =
     goodix_chicago_enrollment_build_metric_data (replicate 5120 201) (replicate 5120 0) (replicate 5120 1)"

theorem build_metric_data_bits_witness:
  "(packed_bit (primary sample_metric_data) 41 = 1
      \<longleftrightarrow> replicate 5120 (201 :: byte) ! ((41 div 40) * 160 + (41 mod 40) * 2) > 200) \<and>
    (packed_bit (validity sample_metric_data) 41 = 1
      \<longleftrightarrow> replicate 5120 (201 :: byte) ! ((41 div 40) * 160 + (41 mod 40) * 2) > 55) \<and>
    packed_bit (position_map sample_metric_data) 41 =
      packed_bit (coarse_mask sample_metric_data) ((41 div 80) * 20 + (41 mod 40) div 2) \<and>
    (packed_bit (position_map sample_metric_data) 41 = 1
      \<longleftrightarrow> block_population (replicate 5120 1) ((41 div 80) * 20 + (41 mod 40) div 2) \<ge> 8)"
  by (rule build_metric_data_bits [OF _ sample_metric_data_def]) simp

section \<open>Warping a plane\<close>

definition transform_metric_coordinate :: "int \<Rightarrow> int \<Rightarrow> transform \<Rightarrow> nat \<Rightarrow> int" where
  "transform_metric_coordinate x y t axis =
     (if axis = 0 then drop_bit 8 (i32 (t0 t * x + t1 t * y + t2 t + 0x80))
      else drop_bit 8 (i32 (t3 t * x + t4 t * y + t5 t + 0x80)))"

record warp_inverse =
  inverse_a :: int
  inverse_b :: int
  inverse_c :: int
  inverse_d :: int
  inverse_x :: int
  inverse_y :: int

definition warp_determinant :: "transform \<Rightarrow> int" where
  "warp_determinant t = i32 (t0 t * t4 t - t1 t * t3 t)"

definition warp_inverse_of :: "transform \<Rightarrow> int \<Rightarrow> warp_inverse" where
  "warp_inverse_of t determinant =
     \<lparr> inverse_a = i32 ((t4 t * 2 ^ 18) sdiv determinant),
       inverse_b = i32 ((t1 t * - 0x40000) sdiv determinant),
       inverse_c = i32 ((t3 t * - 0x40000) sdiv determinant),
       inverse_d = i32 ((t0 t * 2 ^ 18) sdiv determinant),
       inverse_x = i32 (i64 ((t5 t * t1 t - t4 t * t2 t) * 0x400) sdiv determinant),
       inverse_y = i32 (i64 ((t3 t * t2 t - t5 t * t0 t) * 0x400) sdiv determinant) \<rparr>"

text \<open>The weighted mean of four samples, and the mean of the samples that exist at a border.\<close>

definition bilinear_value :: "(int \<Rightarrow> byte) \<Rightarrow> int \<Rightarrow> int \<Rightarrow> int \<Rightarrow> int \<Rightarrow> byte" where
  "bilinear_value m base width fraction_x fraction_y =
     (let top = uint (m base) * (0x400 - fraction_x) + uint (m (base + 1)) * fraction_x;
          bottom = uint (m (base + width)) * (0x400 - fraction_x) + uint (m (base + width + 1)) * fraction_x
      in word_of_int (drop_bit 20 (bottom * fraction_y + top * (0x400 - fraction_y) + 0x80000)))"

definition border_value :: "(int \<Rightarrow> byte) \<Rightarrow> int \<Rightarrow> int \<Rightarrow> bool \<Rightarrow> bool \<Rightarrow> bool \<Rightarrow> bool \<Rightarrow> byte" where
  "border_value m base width left_out top_out right_out bottom_out =
     (let taps = (if \<not> left_out \<and> \<not> top_out then [base] else []) @
                 (if \<not> left_out \<and> \<not> bottom_out then [base + width] else []) @
                 (if \<not> right_out \<and> \<not> top_out then [base + 1] else []) @
                 (if \<not> right_out \<and> \<not> bottom_out then [base + width + 1] else [])
      in if taps = [] then 0xff
         else word_of_int (sum_list (map (\<lambda>i. uint (m i)) taps) div int (length taps)))"

definition metric_source_byte :: "(int \<Rightarrow> byte) \<Rightarrow> int \<Rightarrow> int \<Rightarrow> byte" where
  "metric_source_byte m source_bytes index = (if index \<ge> 0 \<and> index < source_bytes then m index else 0)"

definition metric_sample ::
    "(int \<Rightarrow> byte) \<Rightarrow> int \<Rightarrow> int \<Rightarrow> int \<Rightarrow> warp_inverse \<Rightarrow> int \<Rightarrow> int \<Rightarrow> byte" where
  "metric_sample m source_bytes width height wi fixed_x fixed_y =
     (let gx = i32 (fixed_x + inverse_x wi); gy = i32 (inverse_y wi + fixed_y);
          source_x = drop_bit 10 gx; source_y = drop_bit 10 gy; border = 4;
          read = metric_source_byte m source_bytes
      in if source_x + 1 \<ge> border \<and> source_x < width - border \<and>
            source_y + 1 \<ge> border \<and> source_y < height - border
         then
           let base = source_y * width + source_x;
               left_out = source_x < border; top_out = source_y < border;
               bottom_out = height - border \<le> source_y + 1; right_out = width - border \<le> source_x + 1
           in if \<not> left_out \<and> \<not> top_out \<and> \<not> bottom_out \<and> \<not> right_out
              then bilinear_value read base width (gx - source_x * 0x400) (gy - source_y * 0x400)
              else border_value read base width left_out top_out right_out bottom_out
         else 0xff)"

definition config1_sample ::
    "(int \<Rightarrow> byte) \<Rightarrow> int \<Rightarrow> int \<Rightarrow> warp_inverse \<Rightarrow> int \<Rightarrow> int \<Rightarrow> byte" where
  "config1_sample m width height wi fixed_x fixed_y =
     (let gx = i32 (fixed_x + inverse_x wi); gy = i32 (fixed_y + inverse_y wi);
          source_x = drop_bit 10 gx; source_y = drop_bit 10 gy
      in if source_x + 1 \<ge> 0 \<and> source_x < width \<and> source_y + 1 \<ge> 0 \<and> source_y < height
         then
           let left_out = source_x < 0; top_out = source_y < 0;
               right_out = source_x + 1 \<ge> width; bottom_out = source_y + 1 \<ge> height;
               base = source_y * width + source_x
           in if \<not> left_out \<and> \<not> top_out \<and> \<not> right_out \<and> \<not> bottom_out
              then bilinear_value m base width (gx - source_x * 0x400) (gy - source_y * 0x400)
              else border_value m base width left_out top_out right_out bottom_out
         else 0xff)"

text \<open>The two nested loops of a warp: fixed-point coordinates advance along a row and from row to row.\<close>

fun warp_row :: "(int \<Rightarrow> int \<Rightarrow> byte) \<Rightarrow> warp_inverse \<Rightarrow> nat \<Rightarrow> int \<Rightarrow> int \<Rightarrow> bytes" where
  "warp_row sample wi 0 fixed_x fixed_y = []"
| "warp_row sample wi (Suc n) fixed_x fixed_y =
     sample fixed_x fixed_y # warp_row sample wi n (i32 (fixed_x + inverse_a wi)) (i32 (fixed_y + inverse_c wi))"

fun warp_rows :: "(int \<Rightarrow> int \<Rightarrow> byte) \<Rightarrow> warp_inverse \<Rightarrow> nat \<Rightarrow> nat \<Rightarrow> int \<Rightarrow> int \<Rightarrow> bytes" where
  "warp_rows sample wi width 0 row_x row_y = []"
| "warp_rows sample wi width (Suc n) row_x row_y =
     warp_row sample wi width row_x row_y @
     warp_rows sample wi width n (i32 (row_x + inverse_b wi)) (i32 (row_y + inverse_d wi))"

definition warp_metric_plane :: "(int \<Rightarrow> byte) \<Rightarrow> int \<Rightarrow> int \<Rightarrow> int \<Rightarrow> transform \<Rightarrow> nat \<Rightarrow> nat \<Rightarrow> bytes" where
  "warp_metric_plane m source_bytes width height t output_width output_height =
     (let determinant = warp_determinant t;
          wi = (if determinant \<noteq> 0 then warp_inverse_of t determinant
                 else \<lparr> inverse_a = 1, inverse_b = 0, inverse_c = 0, inverse_d = 1, inverse_x = 0, inverse_y = 0 \<rparr>)
      in warp_rows (metric_sample m source_bytes width height wi) wi output_width output_height 0 0)"

definition warp_config1_plane :: "(int \<Rightarrow> byte) \<Rightarrow> int \<Rightarrow> int \<Rightarrow> transform \<Rightarrow> nat \<Rightarrow> nat \<Rightarrow> bytes option" where
  "warp_config1_plane m width height t output_width output_height =
     (let determinant = warp_determinant t in
      if determinant = 0 then None
      else let wi = warp_inverse_of t determinant
           in Some (warp_rows (config1_sample m width height wi) wi output_width output_height 0 0))"

definition plane_memory :: "bytes \<Rightarrow> int \<Rightarrow> byte" where
  "plane_memory plane index = plane ! nat index"

lemma length_warp_row [simp]: "length (warp_row sample wi n x y) = n"
  by (induction n arbitrary: x y) simp_all

lemma length_warp_rows [simp]: "length (warp_rows sample wi w h x y) = h * w"
  by (induction h arbitrary: x y) simp_all

lemma warp_row_cong: "(\<And>x y. sample x y = sample' x y) \<Longrightarrow> warp_row sample wi n x y = warp_row sample' wi n x y"
  by (induction n arbitrary: x y) simp_all

lemma warp_rows_cong: "(\<And>x y. sample x y = sample' x y) \<Longrightarrow> warp_rows sample wi w h x y = warp_rows sample' wi w h x y"
  by (induction h arbitrary: x y) (simp_all cong: warp_row_cong)

lemma cell_in_plane:
  assumes "0 \<le> x" "x < width" "0 \<le> y" "y < (height :: int)"
  shows "0 \<le> y * width + x" "y * width + x < width * height"
proof -
  show "0 \<le> y * width + x" using assms by (simp add: mult_nonneg_nonneg)
  have "(y + 1) * width \<le> height * width" using assms by (intro mult_right_mono) simp_all
  then show "y * width + x < width * height" using assms by (simp add: algebra_simps)
qed

text \<open>C39: The unchecked plane warp reads only inside the plane: its result, for any transform and any
  output size, is the same for two memories that agree on the \<open>width * height\<close> bytes of the
  plane.\<close>

theorem warp_config1_reads_inside:
  assumes agree: "\<And>i. 0 \<le> i \<Longrightarrow> i < width * height \<Longrightarrow> m i = m' i"
  shows "warp_config1_plane m width height t output_width output_height =
    warp_config1_plane m' width height t output_width output_height"
proof -
  have "config1_sample m width height wi fx fy = config1_sample m' width height wi fx fy" for wi fx fy
  proof -
    define sx where "sx = drop_bit 10 (i32 (fx + inverse_x wi))"
    define sy where "sy = drop_bit 10 (i32 (fy + inverse_y wi))"
    note at = agree [OF cell_in_plane]
    have taps: "0 \<le> sx \<Longrightarrow> sx < width \<Longrightarrow> 0 \<le> sy \<Longrightarrow> sy < height \<Longrightarrow> m (sy * width + sx) = m' (sy * width + sx)"
      "0 \<le> sx + 1 \<Longrightarrow> sx + 1 < width \<Longrightarrow> 0 \<le> sy \<Longrightarrow> sy < height \<Longrightarrow>
        m (sy * width + sx + 1) = m' (sy * width + sx + 1)"
      "0 \<le> sx \<Longrightarrow> sx < width \<Longrightarrow> 0 \<le> sy + 1 \<Longrightarrow> sy + 1 < height \<Longrightarrow>
        m (sy * width + sx + width) = m' (sy * width + sx + width)"
      "0 \<le> sx + 1 \<Longrightarrow> sx + 1 < width \<Longrightarrow> 0 \<le> sy + 1 \<Longrightarrow> sy + 1 < height \<Longrightarrow>
        m (sy * width + sx + width + 1) = m' (sy * width + sx + width + 1)"
      using at [of sx sy] at [of "sx + 1" sy] at [of sx "sy + 1"] at [of "sx + 1" "sy + 1"]
      by (simp_all add: algebra_simps)
    show ?thesis
      unfolding config1_sample_def Let_def sx_def [symmetric] sy_def [symmetric] bilinear_value_def border_value_def
      using taps by auto
  qed
  then show ?thesis
    unfolding warp_config1_plane_def Let_def by (simp cong: warp_rows_cong)
qed

theorem warp_config1_reads_inside_witness:
  "warp_config1_plane (\<lambda>i. if i = 0 then 1 else 0) 2 2 (mk_transform 256 0 0 0 256 0) 2 2 =
    warp_config1_plane (\<lambda>i. if i = 0 then 1 else if i < 4 then 0 else 9) 2 2 (mk_transform 256 0 0 0 256 0) 2 2"
  by (rule warp_config1_reads_inside) simp

section \<open>Relation metrics\<close>

definition plane_corners :: "transform \<Rightarrow> (int \<times> int) list" where
  "plane_corners t = map (\<lambda>(x, y). (transform_metric_coordinate x y t 0, transform_metric_coordinate x y t 1))
     [(0, 0), (39, 0), (39, 31), (0, 31)]"

text \<open>The clamped bounding box (minimum x, minimum y, maximum x, maximum y) of the warped plane.\<close>

definition plane_bounds :: "transform \<Rightarrow> int \<times> int \<times> int \<times> int" where
  "plane_bounds t =
     (let corners = plane_corners t;
          xs = map fst corners; ys = map snd corners
      in (max (foldl min (hd xs) (tl xs)) 0, max (foldl min (hd ys) (tl ys)) 0,
          min (foldl max (hd xs) (tl xs)) 39, min (foldl max (hd ys) (tl ys)) 31))"

definition shift_transform :: "transform \<Rightarrow> int \<Rightarrow> int \<Rightarrow> transform" where
  "shift_transform t minimum_x minimum_y =
     t\<lparr> t2 := i32 (t2 t - minimum_x * 0x100), t5 := i32 (t5 t - minimum_y * 0x100) \<rparr>"

text \<open>The class of every compared cell: old value plus twice the new value, where both are bits and
  both masks are set.\<close>

definition cell_classes ::
    "bytes \<Rightarrow> bytes \<Rightarrow> bytes \<Rightarrow> bytes \<Rightarrow> int \<Rightarrow> int \<Rightarrow> nat \<Rightarrow> nat \<Rightarrow> nat \<Rightarrow> nat list" where
  "cell_classes old_plane old_mask warped_plane warped_mask minimum_x minimum_y output_width width height =
     List.map_filter (\<lambda>(x, y).
       let old_index = nat (minimum_y + int y) * 40 + nat (minimum_x + int x);
           warped_index = y * output_width + x;
           old_value = old_plane ! old_index; new_value = warped_plane ! warped_index
       in if old_value < 2 \<and> new_value < 2 \<and> old_mask ! old_index \<noteq> 0 \<and> warped_mask ! warped_index \<noteq> 0
          then Some (unat old_value + unat new_value * 2) else None)
       (grid width height)"

definition class_count :: "nat list \<Rightarrow> nat \<Rightarrow> nat" where
  "class_count classes k = length (filter (\<lambda>c. c = k) classes)"

definition goodix_chicago_enrollment_calculate_relation_metrics ::
    "bytes \<Rightarrow> bytes \<Rightarrow> bytes \<Rightarrow> bytes \<Rightarrow> transform \<Rightarrow> int \<times> int" where
  "goodix_chicago_enrollment_calculate_relation_metrics new_primary new_mask old_primary old_mask t =
     (let new_plane = unpack_metric_bits new_primary; old_plane = unpack_metric_bits old_primary;
          new_expanded = expand_metric_mask new_mask; old_expanded = expand_metric_mask old_mask
      in case plane_bounds t of (minimum_x, minimum_y, maximum_x, maximum_y) \<Rightarrow>
        if maximum_x < minimum_x \<or> maximum_y < minimum_y then (0, 0)
        else
          let output_width = nat (maximum_x - minimum_x + 1); output_height = nat (maximum_y - minimum_y + 1);
              adjusted = shift_transform t minimum_x minimum_y;
              warped_plane = warp_metric_plane (plane_memory new_plane) 1280 40 32 adjusted output_width output_height;
              warped_mask = warp_metric_plane (plane_memory new_expanded) 5120 40 32 adjusted output_width output_height;
              compare_width = min output_width (nat (40 - minimum_x));
              compare_height = min output_height (nat (32 - minimum_y));
              classes = cell_classes old_plane old_expanded warped_plane warped_mask minimum_x minimum_y
                          output_width compare_width compare_height;
              counts = class_count classes; total = length classes;
              metric_b = (1280 div 2 + total * 0x100) div 1280;
              without_both_one = counts 0 + counts 1 + counts 2;
              primary = int ((counts 0 * 0x100 + without_both_one div 2) div (without_both_one + 1));
              both_one = (counts 3 * 0x100 + total div 2) div (total + 1)
          in (if both_one < 0xf then primary - int ((0xf - both_one) div 2) - 3 else primary, int metric_b))"

definition config1_half_translation :: "int \<Rightarrow> int" where
  "config1_half_translation v =
     (let v1 = i32 (v + 1); v2 = i32 (v1 - drop_bit 31 v1) in drop_bit 1 v2)"

text \<open>\<open>None\<close> is the \<open>FALSE\<close> return; the caller's counts and total are then zero.\<close>

definition calculate_config1_counts ::
    "bytes \<Rightarrow> bytes \<Rightarrow> bytes \<Rightarrow> bytes \<Rightarrow> transform \<Rightarrow> nat list option" where
  "calculate_config1_counts new_packed old_packed new_mask old_mask t =
     (let new_plane = unpack_metric_bits new_packed; old_plane = unpack_metric_bits old_packed;
          new_expanded = expand_config1_mask new_mask; old_expanded = expand_config1_mask old_mask;
          halved = t\<lparr> t2 := config1_half_translation (t2 t), t5 := config1_half_translation (t5 t) \<rparr>
      in case plane_bounds halved of (minimum_x, minimum_y, maximum_x, maximum_y) \<Rightarrow>
        if maximum_x < minimum_x \<or> maximum_y < minimum_y then None
        else
          let output_width = nat (maximum_x - minimum_x + 1); output_height = nat (maximum_y - minimum_y + 1);
              adjusted = shift_transform halved minimum_x minimum_y
          in case (warp_config1_plane (plane_memory new_plane) 40 32 adjusted output_width output_height,
                   warp_config1_plane (plane_memory new_expanded) 40 32 adjusted output_width output_height) of
               (Some warped_plane, Some warped_mask) \<Rightarrow>
                 Some (cell_classes old_plane old_expanded warped_plane warped_mask minimum_x minimum_y output_width
                   (min output_width (nat (40 - minimum_x))) (min output_height (nat (32 - minimum_y))))
             | _ \<Rightarrow> None)"

definition config1_selector_score :: "(nat \<Rightarrow> nat) \<Rightarrow> nat \<Rightarrow> int" where
  "config1_selector_score counts cells =
     (let occupancy = (counts 3 * 0x100) div (counts 1 + counts 2 + counts 3 + 1) in
      if cells = 0 then 128
      else
        let score = (if cells > 1280 div 2
                     then (counts 0 * 0x100 + cells div 2) div cells + 3 + 38
                     else (counts 0 * 0x100 + cells div 2) div (cells + 1) +
                          (cells * 19) div (1280 div 2) + 2 + 19);
            activity = (counts 3 * 0x100 + cells div 2) div cells + 3
        in if activity > 23 \<or> activity > 18 \<and> occupancy > 62 \<or> activity > 19 \<and> occupancy > 50 \<or>
              activity > 17 \<and> occupancy > 40 \<or> score > 230 \<and> activity > 16
           then int score else 128)"

definition goodix_chicago_enrollment_calculate_live_auxiliary_counts_type24 ::
    "bytes \<Rightarrow> transform \<Rightarrow> nat \<times> nat \<times> nat" where
  "goodix_chicago_enrollment_calculate_live_auxiliary_counts_type24 auxiliary t =
     (let packed = foldl (\<lambda>packed index. if auxiliary ! index \<noteq> 0
                          then packed[index div 8 := packed ! (index div 8) OR push_bit (index mod 8) 1]
                          else packed) (replicate 160 0) [0..<6];
          ones = replicate 40 0xff
      in case calculate_config1_counts packed packed ones ones t of
           None \<Rightarrow> (0, 0, 0)
         | Some classes \<Rightarrow> (class_count classes 0, class_count classes 1 + class_count classes 2, class_count classes 3))"

text \<open>The selector score and the two exported metrics.\<close>

definition goodix_chicago_enrollment_calculate_config1_metrics ::
    "metric_data \<Rightarrow> metric_data \<Rightarrow> transform \<Rightarrow> int \<times> int \<times> int" where
  "goodix_chicago_enrollment_calculate_config1_metrics new_data old_data t =
     (case calculate_config1_counts (primary new_data) (primary old_data)
             (coarse_mask new_data) (coarse_mask old_data) t of
        None \<Rightarrow> (0, 0, 0)
      | Some classes \<Rightarrow>
          let counts = class_count classes; total = length classes;
              selector_score = config1_selector_score counts total;
              metric_b = int ((total * 0x100 + 1280 div 2) div 1280);
              without_both_one = counts 0 + counts 1 + counts 2;
              both_one = (counts 3 * 0x100 + total div 2) div (total + 1);
              metric_a = int ((counts 0 * 0x100 + without_both_one div 2) div (without_both_one + 1))
          in (selector_score,
              if both_one < 15 then metric_a - int ((15 - both_one) div 2 + 3) else metric_a,
              metric_b))"

definition goodix_chicago_enrollment_calculate_study_metrics ::
    "metric_data \<Rightarrow> metric_data \<Rightarrow> transform \<Rightarrow> (nat \<times> nat \<times> nat) option" where
  "goodix_chicago_enrollment_calculate_study_metrics new_data old_data t =
     (case calculate_config1_counts (validity new_data) (validity old_data)
             (coarse_mask new_data) (coarse_mask old_data) t of
        None \<Rightarrow> None
      | Some classes \<Rightarrow>
          let counts = class_count classes; total = length classes;
              zeros = counts 0 + counts 1 + counts 2; ones = counts 1 + counts 2 + counts 3
          in Some (if total > 0 then ((counts 0 + counts 3) * 0x100 + total div 2) div total else 0,
                   if zeros > 0 then (counts 0 * 0x100 + zeros div 2) div zeros else 0,
                   if ones > 0 then (counts 3 * 0x100 + ones div 2) div ones else 0))"

section \<open>Bounds of the metrics\<close>

lemma rounded_ratio_le:
  assumes "a \<le> (b :: nat)"
  shows "(a * 256 + b div 2) div (b + 1) \<le> 256" and "(a * 256 + b div 2) div b \<le> 256"
proof -
  have half: "b div 2 \<le> b" by simp
  have "a * 256 + b div 2 < 257 * (b + 1)" using assms half by simp
  then show "(a * 256 + b div 2) div (b + 1) \<le> 256"
    using less_mult_imp_div_less [of "a * 256 + b div 2" 257 "b + 1"] by simp
  show "(a * 256 + b div 2) div b \<le> 256"
  proof (cases "b = 0")
    case False
    then have "b div 2 < b" by simp
    then have "a * 256 + b div 2 < 257 * b" using assms by simp
    then show ?thesis using less_mult_imp_div_less [of "a * 256 + b div 2" 257 b] by simp
  qed simp
qed

lemma class_counts_le_total:
  "class_count classes 0 + class_count classes 1 + class_count classes 2 + class_count classes 3 \<le> length classes"
  by (induction classes) (auto simp: class_count_def split: if_splits)

lemma length_map_filter_le: "length (List.map_filter f xs) \<le> length xs"
  by (simp add: List.map_filter_def)

lemma length_cell_classes: "length (cell_classes op om wp wm x y ow w h) \<le> w * h"
  unfolding cell_classes_def by (rule order_trans [OF length_map_filter_le]) simp

lemma bounded_box:
  assumes "plane_bounds t = (x0, y0, x1, y1)"
  shows "0 \<le> x0" "0 \<le> y0" "x1 \<le> 39" "y1 \<le> 31"
  using assms unfolding plane_bounds_def Let_def prod.inject by linarith+

lemma box_cells:
  assumes "plane_bounds t = (x0, y0, x1, y1)" and "\<not> (x1 < x0 \<or> y1 < y0)"
  shows "min (nat (x1 - x0 + 1)) (nat (40 - x0)) * min (nat (y1 - y0 + 1)) (nat (32 - y0)) \<le> 1280"
proof -
  have "nat (x1 - x0 + 1) \<le> 40" "nat (y1 - y0 + 1) \<le> 32"
    using bounded_box [OF assms(1)] assms(2) by linarith+
  then have "min (nat (x1 - x0 + 1)) (nat (40 - x0)) \<le> 40" "min (nat (y1 - y0 + 1)) (nat (32 - y0)) \<le> 32"
    by linarith+
  then have "min (nat (x1 - x0 + 1)) (nat (40 - x0)) * min (nat (y1 - y0 + 1)) (nat (32 - y0)) \<le> 40 * 32"
    by (rule mult_le_mono)
  then show ?thesis by simp
qed

lemma coverage_le: "n \<le> 1280 \<Longrightarrow> (640 + n * 256) div 1280 \<le> (256 :: nat)"
  using div_le_mono [of "640 + n * 256" "640 + 1280 * 256" 1280] by simp

lemma config1_classes_le:
  "calculate_config1_counts np op nm om t = Some classes \<Longrightarrow> length classes \<le> 1280"
proof -
  assume some: "calculate_config1_counts np op nm om t = Some classes"
  let ?h = "t\<lparr> t2 := config1_half_translation (t2 t), t5 := config1_half_translation (t5 t) \<rparr>"
  obtain x0 y0 x1 y1 where box: "plane_bounds ?h = (x0, y0, x1, y1)" by (cases "plane_bounds ?h") auto
  have ne: "\<not> (x1 < x0 \<or> y1 < y0)"
    using some by (auto simp: calculate_config1_counts_def Let_def box)
  obtain wp wm where "classes = cell_classes (unpack_metric_bits op) (expand_config1_mask om) wp wm x0 y0
      (nat (x1 - x0 + 1)) (min (nat (x1 - x0 + 1)) (nat (40 - x0))) (min (nat (y1 - y0 + 1)) (nat (32 - y0)))"
    using some ne by (auto simp: calculate_config1_counts_def Let_def box split: option.splits)
  then have "length classes \<le> min (nat (x1 - x0 + 1)) (nat (40 - x0)) * min (nat (y1 - y0 + 1)) (nat (32 - y0))"
    using length_cell_classes by simp
  with box_cells [OF box ne] show ?thesis by linarith
qed

lemma q8_agreement_range:
  assumes "a \<le> b"
    and "x = (if c < (15 :: nat) then int ((a * 256 + b div 2) div (b + 1)) - int ((15 - c) div 2) - 3
      else int ((a * 256 + b div 2) div (b + 1)))"
  shows "-10 \<le> x" and "x \<le> 256"
proof -
  have "(15 - c) div 2 \<le> 7" by linarith
  then show "-10 \<le> x" "x \<le> 256"
    using rounded_ratio_le(1) [OF assms(1)] by (auto simp: assms(2))
qed

lemma relation_metrics_range:
  assumes "goodix_chicago_enrollment_calculate_relation_metrics np nm op om t = (a, b)"
  shows "-10 \<le> a \<and> a \<le> 256 \<and> 0 \<le> b \<and> b \<le> 256"
proof -
  obtain x0 y0 x1 y1 where box: "plane_bounds t = (x0, y0, x1, y1)" by (cases "plane_bounds t") auto
  show ?thesis
  proof (cases "x1 < x0 \<or> y1 < y0")
    case True
    then show ?thesis
      using assms by (auto simp: goodix_chicago_enrollment_calculate_relation_metrics_def Let_def box)
  next
    case False
    define classes where "classes = cell_classes (unpack_metric_bits op) (expand_metric_mask om)
        (warp_metric_plane (plane_memory (unpack_metric_bits np)) 1280 40 32 (shift_transform t x0 y0)
           (nat (x1 - x0 + 1)) (nat (y1 - y0 + 1)))
        (warp_metric_plane (plane_memory (expand_metric_mask nm)) 5120 40 32 (shift_transform t x0 y0)
           (nat (x1 - x0 + 1)) (nat (y1 - y0 + 1)))
        x0 y0 (nat (x1 - x0 + 1)) (min (nat (x1 - x0 + 1)) (nat (40 - x0))) (min (nat (y1 - y0 + 1)) (nat (32 - y0)))"
    let ?n = "class_count classes" and ?t = "length classes"
    let ?w = "?n 0 + ?n 1 + ?n 2" and ?c = "(?n 3 * 256 + ?t div 2) div (?t + 1)"
    have ab: "a = (if ?c < 15 then int ((?n 0 * 256 + ?w div 2) div (?w + 1)) - int ((15 - ?c) div 2) - 3
        else int ((?n 0 * 256 + ?w div 2) div (?w + 1)))"
      "b = int ((640 + ?t * 256) div 1280)"
      using assms False unfolding goodix_chicago_enrollment_calculate_relation_metrics_def Let_def box
        prod.case classes_def [symmetric] by (simp_all add: if_split_eq1 del: of_nat_add of_nat_diff)
    have "?t \<le> 1280"
      unfolding classes_def by (rule order_trans [OF length_cell_classes box_cells [OF box False]])
    then have "b \<le> 256" "0 \<le> b" unfolding ab(2) using coverage_le [of ?t] by simp_all
    moreover have "?n 0 \<le> ?w" by simp
    note q8_agreement_range [OF this ab(1)]
    ultimately show ?thesis by blast
  qed
qed

lemma selector_score_range:
  assumes "counts 0 \<le> n"
  shows "0 \<le> config1_selector_score counts n" and "config1_selector_score counts n \<le> 297"
proof -
  have "(counts 0 * 256 + n div 2) div n \<le> 256" "(counts 0 * 256 + n div 2) div (n + 1) \<le> 256"
    using rounded_ratio_le [OF assms] by simp_all
  moreover have "\<not> n > 640 \<Longrightarrow> n * 19 div 640 \<le> 19"
    using div_le_mono [of "n * 19" "640 * 19" 640] by simp
  ultimately show "0 \<le> config1_selector_score counts n" "config1_selector_score counts n \<le> 297"
    by (auto simp: config1_selector_score_def Let_def)
qed

lemma config1_metrics_range:
  assumes "goodix_chicago_enrollment_calculate_config1_metrics new_data old_data t = (s, a, b)"
  shows "0 \<le> s \<and> s \<le> 297 \<and> -10 \<le> a \<and> a \<le> 256 \<and> 0 \<le> b \<and> b \<le> 256"
proof (cases "calculate_config1_counts (primary new_data) (primary old_data)
             (coarse_mask new_data) (coarse_mask old_data) t")
  case None
  then show ?thesis
    using assms by (simp add: goodix_chicago_enrollment_calculate_config1_metrics_def)
next
  case (Some classes)
  let ?n = "class_count classes" and ?t = "length classes"
  let ?w = "?n 0 + ?n 1 + ?n 2" and ?c = "(?n 3 * 256 + ?t div 2) div (?t + 1)"
  have sab: "s = config1_selector_score ?n ?t"
    "a = (if ?c < 15 then int ((?n 0 * 256 + ?w div 2) div (?w + 1)) - int ((15 - ?c) div 2) - 3
        else int ((?n 0 * 256 + ?w div 2) div (?w + 1)))"
    "b = int ((640 + ?t * 256) div 1280)"
    using assms unfolding goodix_chicago_enrollment_calculate_config1_metrics_def Some option.case Let_def
    by (auto simp: add.commute)
  have "b \<le> 256" "0 \<le> b"
    unfolding sab(3) using coverage_le [OF config1_classes_le [OF Some]] by simp_all
  moreover have "?n 0 \<le> ?w" by simp
  note q8_agreement_range [OF this sab(2)]
  moreover have "?n 0 \<le> ?t" using class_counts_le_total [of classes] by simp
  note selector_score_range [of ?n, OF this]
  ultimately show ?thesis unfolding sab(1) by blast
qed

lemma study_metrics_range:
  assumes "goodix_chicago_enrollment_calculate_study_metrics new_data old_data t = Some (x, y, z)"
  shows "x \<le> 256 \<and> y \<le> 256 \<and> z \<le> 256"
proof -
  obtain classes where c: "calculate_config1_counts (validity new_data) (validity old_data)
             (coarse_mask new_data) (coarse_mask old_data) t = Some classes"
    using assms by (auto simp: goodix_chicago_enrollment_calculate_study_metrics_def split: option.splits)
  let ?n = "class_count classes"
  have le: "?n 0 + ?n 3 \<le> length classes" "?n 0 \<le> ?n 0 + ?n 1 + ?n 2" "?n 3 \<le> ?n 1 + ?n 2 + ?n 3"
    using class_counts_le_total [of classes] by simp_all
  show ?thesis
    using assms rounded_ratio_le(2) [OF le(1)] rounded_ratio_le(2) [OF le(2)] rounded_ratio_le(2) [OF le(3)]
    unfolding goodix_chicago_enrollment_calculate_study_metrics_def c option.case Let_def by auto
qed

text \<open>For any planes, masks and transform the exported metrics stay in their Q8 range: agreement
  in -10..256 and coverage in 0..256, in the production metric and in the config-1 metric alike,
  the config-1 selector score in 0..297, and the three class purities of the study metric in
  0..256.\<close>

theorem metrics_in_range:
  "(case goodix_chicago_enrollment_calculate_relation_metrics np nm op om t of
      (a, b) \<Rightarrow> -10 \<le> a \<and> a \<le> 256 \<and> 0 \<le> b \<and> b \<le> 256) \<and>
   (case goodix_chicago_enrollment_calculate_config1_metrics new_data old_data t of
      (s, a, b) \<Rightarrow> 0 \<le> s \<and> s \<le> 297 \<and> -10 \<le> a \<and> a \<le> 256 \<and> 0 \<le> b \<and> b \<le> 256) \<and>
   (case goodix_chicago_enrollment_calculate_study_metrics new_data old_data t of
      None \<Rightarrow> True | Some (x, y, z) \<Rightarrow> x \<le> 256 \<and> y \<le> 256 \<and> z \<le> 256)"
  using relation_metrics_range config1_metrics_range study_metrics_range
  by (auto split: option.splits prod.splits)

end
