(* ===== verification/Chicago_Enrollment.thy ===== *)
theory Chicago_Enrollment
  imports Chicago_Metrics
begin

text \<open>
  The enrollment state of goodix-chicago-enrollment.c: subtemplates, the triangular table of
  relations between them, the group of mutually related subtemplates and the match order; and
  the operations that insert, drop, append and replace a subtemplate. A \<open>NULL\<close> pointer is
  \<open>None\<close>; a failing operation leaves the state as it was.
\<close>

declare upt_rec_numeral [simp del]

abbreviation (input) G_MAXUINT32 :: nat where "G_MAXUINT32 \<equiv> 0xffffffff"
abbreviation (input) ENROLLMENT_CAPACITY :: nat where "ENROLLMENT_CAPACITY \<equiv> 50"

section \<open>State\<close>

record subtemplate =
  record_count :: nat
  active_count :: nat
  quality :: nat
  coverage :: nat
  records :: "feature_record list"
  sub_metric :: "metric_data option"
  group_state :: nat
  relation_base :: nat
  study_state :: nat
  study_flags :: nat
  lineage_index :: nat
  replacement_count :: nat
  study_value_a :: nat
  study_value_b :: nat

record enrollment =
  required_samples :: nat
  capacity :: nat
  record_limit :: nat
  subtemplates :: "subtemplate list"
  relations :: "relation list"
  group_edges :: "nat list"
  transform_count :: nat
  group_anchor :: nat
  has_group_anchor :: bool
  match_order :: "nat list"
  matcher_active_index :: nat
  matcher_value_a :: nat
  matcher_value_b :: nat
  matcher_value_c :: nat
  matcher_value_d :: nat

record enrollment_result =
  packed_position_detail :: nat
  progress :: nat
  position_x :: nat
  position_y :: nat

text \<open>What the matcher hands over about a live probe, and what a gallery entry is shown as.\<close>

record subtemplate_view =
  v_record_count :: nat
  v_active_count :: nat
  v_quality :: nat
  v_coverage :: nat
  v_records :: "feature_record list option"
  v_metric :: "metric_data option"
  v_group_state :: nat
  v_relation_base :: nat
  v_study_state :: nat
  v_study_flags :: nat
  v_lineage_index :: nat
  v_replacement_count :: nat
  v_study_value_a :: nat
  v_study_value_b :: nat
  v_density_positive_percent :: nat
  v_density_class :: nat
  v_density_inactive_count :: nat
  v_live_auxiliary :: bytes

definition goodix_chicago_enrollment_new :: enrollment where
  "goodix_chicago_enrollment_new =
     \<lparr> required_samples = 8, capacity = ENROLLMENT_CAPACITY, record_limit = 120, subtemplates = [],
       relations = [], group_edges = [], transform_count = 0, group_anchor = 0, has_group_anchor = False,
       match_order = replicate ENROLLMENT_CAPACITY G_MAXUINT32, matcher_active_index = G_MAXUINT32,
       matcher_value_a = 0, matcher_value_b = 0, matcher_value_c = 0, matcher_value_d = 0 \<rparr>"

definition weak_relation :: relation where
  "weak_relation = \<lparr> inlier_count = -1, rel_transform = identity_group_transform \<rparr>"

definition u32_inc :: "nat \<Rightarrow> nat" where
  "u32_inc n = (n + 1) mod 2 ^ 32"

section \<open>The first sample\<close>

abbreviation (input) FIRST_POSITION_DETAIL :: nat where "FIRST_POSITION_DETAIL \<equiv> 0x64000064"

text \<open>The fields the results of all insertions share.\<close>

definition insertion_result :: "enrollment \<Rightarrow> nat \<Rightarrow> enrollment_result" where
  "insertion_result self detail =
     \<lparr> packed_position_detail = detail,
       progress = min 100 (length (subtemplates self) * 100 div required_samples self),
       position_x = nat ((100 - int (detail div 2 ^ 24)) mod 2 ^ 32),
       position_y = nat ((100 - int (detail mod 2 ^ 8)) mod 2 ^ 32) \<rparr>"

definition goodix_chicago_enrollment_insert_first ::
    "enrollment \<Rightarrow> feature_record list option \<Rightarrow> nat \<Rightarrow> nat \<Rightarrow> nat \<Rightarrow> nat \<Rightarrow> metric_data option \<Rightarrow>
     (enrollment \<times> enrollment_result) result" where
  "goodix_chicago_enrollment_insert_first self recs n_records n_active qual cov metric =
     (if length (subtemplates self) \<noteq> 0 then Inl G_IO_ERROR_EXISTS
      else if n_records \<noteq> 0 \<and> recs = None \<or> n_records > record_limit self \<or> n_active > n_records
      then Inl G_IO_ERROR_INVALID_ARGUMENT
      else
        let sub = \<lparr> record_count = n_records, active_count = n_active, quality = qual, coverage = cov,
                    records = (case recs of None \<Rightarrow> [] | Some rs \<Rightarrow> take n_records rs),
                    sub_metric = metric, group_state = 0, relation_base = 0, study_state = 0, study_flags = 0,
                    lineage_index = length (subtemplates self), replacement_count = 0,
                    study_value_a = 0, study_value_b = 0 \<rparr>;
            self' = self\<lparr> subtemplates := subtemplates self @ [sub],
                          match_order := (match_order self)[0 := 0],
                          relations := relations self @ [weak_relation],
                          transform_count := transform_count self + 1 \<rparr>
        in Inr (self', insertion_result self' FIRST_POSITION_DETAIL))"

section \<open>Dropping the last sample\<close>

definition goodix_chicago_enrollment_drop_last :: "enrollment \<Rightarrow> enrollment result" where
  "goodix_chicago_enrollment_drop_last self =
     (if length (subtemplates self) = 0 then Inl G_IO_ERROR_INVALID_DATA
      else
        let old_count = length (subtemplates self);
            base = relation_base (subtemplates self ! (old_count - 1));
            rels = take base (relations self);
            edges = rev (dropWhile (\<lambda>edge. \<not> edge < base) (rev (group_edges self)));
            kept = filter (\<lambda>k. k \<noteq> old_count - 1) (take old_count (match_order self));
            order = (kept @ drop (length kept) (match_order self))[old_count - 1 := G_MAXUINT32];
            self' = self\<lparr> relations := rels, group_edges := edges,
                          subtemplates := butlast (subtemplates self), match_order := order,
                          transform_count := length rels \<rparr>
        in Inr (if length (subtemplates self') = 0
                then self'\<lparr> group_anchor := 0, has_group_anchor := False \<rparr> else self'))"

section \<open>Relations between subtemplates\<close>

definition relation_index_between :: "enrollment \<Rightarrow> nat \<Rightarrow> nat \<Rightarrow> nat option" where
  "relation_index_between self newer older =
     (if \<not> newer > older then None
      else let relation_index = relation_base (subtemplates self ! newer) + older
           in if relation_index \<ge> length (relations self) then None else Some relation_index)"

definition relation_between_subtemplates :: "enrollment \<Rightarrow> nat \<Rightarrow> nat \<Rightarrow> relation option" where
  "relation_between_subtemplates self newer older =
     map_option (\<lambda>k. relations self ! k) (relation_index_between self newer older)"

definition group_transform_between :: "enrollment \<Rightarrow> nat \<Rightarrow> nat \<Rightarrow> transform" where
  "group_transform_between self source target =
     (if source = target then identity_group_transform
      else if source > target
      then (case relation_between_subtemplates self source target of
              Some r \<Rightarrow> rel_transform r | None \<Rightarrow> identity_group_transform)
      else (case relation_between_subtemplates self target source of
              Some r \<Rightarrow> invert_group_transform (rel_transform r) | None \<Rightarrow> identity_group_transform))"

definition record_point :: "feature_record \<Rightarrow> point" where
  "record_point r = mk_point (uint (refined_x r)) (uint (refined_y r))"

text \<open>The relation, the two native metrics and the evidence flag.\<close>

definition goodix_chicago_enrollment_build_relation ::
    "feature_record list \<Rightarrow> metric_data \<Rightarrow> feature_record list \<Rightarrow> metric_data \<Rightarrow> relation \<times> int \<times> int \<times> bool" where
  "goodix_chicago_enrollment_build_relation old_records old_metric new_records new_metric =
     (let pairs = goodix_chicago_enrollment_find_correspondences old_records new_records;
          source = map (\<lambda>(i, j). record_point (new_records ! j)) pairs;
          target = map (\<lambda>(i, j). record_point (old_records ! i)) pairs;
          found = the (goodix_chicago_enrollment_estimate_transform source target);
          rel = \<lparr> inlier_count = int (res_inlier_count found), rel_transform = res_values found \<rparr>
      in case goodix_chicago_enrollment_calculate_relation_metrics (primary new_metric) (coarse_mask new_metric)
                (primary old_metric) (coarse_mask old_metric) (rel_transform rel) of
           (metric_a, metric_b) \<Rightarrow>
             (rel, metric_a, metric_b,
              goodix_chicago_enrollment_evidence_is_accepted (res_inlier_count found) metric_a metric_b))"

section \<open>Later samples\<close>

text \<open>The relations and evidence flags against every existing subtemplate; \<open>None\<close> when one of them has
  no metric data.\<close>

definition relation_to_existing ::
    "feature_record list \<Rightarrow> metric_data \<Rightarrow> subtemplate \<Rightarrow> (relation \<times> bool) option" where
  "relation_to_existing recs metric old =
     (case sub_metric old of
        None \<Rightarrow> None
      | Some old_metric \<Rightarrow>
          (case goodix_chicago_enrollment_build_relation (records old) old_metric recs metric of
             (rel, metric_a, metric_b, evidence) \<Rightarrow>
               Some (if inlier_count rel < 6 then weak_relation else rel, evidence)))"

fun relations_to_existing ::
    "feature_record list \<Rightarrow> metric_data \<Rightarrow> subtemplate list \<Rightarrow> (relation \<times> bool) list option" where
  "relations_to_existing recs metric [] = Some []"
| "relations_to_existing recs metric (old # olds) =
     (case relation_to_existing recs metric old of
        None \<Rightarrow> None
      | Some r \<Rightarrow> map_option ((#) r) (relations_to_existing recs metric olds))"

text \<open>The candidate with the most inliers, first one first, and its selector score.\<close>

definition choose_candidate ::
    "metric_data \<Rightarrow> bool \<Rightarrow> (nat \<times> subtemplate \<times> relation \<times> bool) list \<Rightarrow> (nat \<times> int) option" where
  "choose_candidate metric has_group entries =
     map_option (\<lambda>(k, inliers, score). (k, score))
       (foldl (\<lambda>best (k, old, rel, evidence).
          if \<not> evidence \<or> inlier_count rel < 6 \<or> has_group \<and> group_state old \<noteq> 1 then best
          else
            let score = fst (goodix_chicago_enrollment_calculate_config1_metrics metric
                               (the (sub_metric old)) (rel_transform rel))
            in (case best of
                  None \<Rightarrow> Some (k, inlier_count rel, score)
                | Some (_, best_inliers, _) \<Rightarrow>
                    if inlier_count rel > best_inliers then Some (k, inlier_count rel, score) else best))
        None entries)"

text \<open>Filling the gaps of the first group through the new sample.\<close>

definition synthesize_pair :: "enrollment \<Rightarrow> nat \<Rightarrow> nat \<times> nat \<Rightarrow> relation list \<Rightarrow> relation list" where
  "synthesize_pair self current_index pair rels =
     (case pair of (newer, older) \<Rightarrow>
       let k = relation_base (subtemplates self ! newer) + older;
           base = relation_base (subtemplates self ! current_index);
           current_to_older = rels ! (base + older);
           current_to_newer = rels ! (base + newer)
       in if inlier_count (rels ! k) \<ge> 0 then rels
          else if inlier_count current_to_older < 0 \<or> inlier_count current_to_newer < 0 then rels
          else rels[k := \<lparr> inlier_count = 0,
            rel_transform = compose_group_transform (rel_transform current_to_older)
              (invert_group_transform (rel_transform current_to_newer)) \<rparr>])"

definition synthesize_first_group_relations :: "enrollment \<Rightarrow> nat \<Rightarrow> enrollment" where
  "synthesize_first_group_relations self current_index =
     self\<lparr> relations := foldl (\<lambda>rels pair. synthesize_pair self current_index pair rels) (relations self)
       [(newer, older). newer \<leftarrow> [1..<current_index], older \<leftarrow> [0..<newer]] \<rparr>"

definition covered_by_group :: "enrollment \<Rightarrow> nat \<Rightarrow> transform \<Rightarrow> nat \<times> nat \<Rightarrow> bool" where
  "covered_by_group self current_index current_to_anchor xy =
     (case xy of (x, y) \<Rightarrow>
       list_ex (\<lambda>k.
         if k = current_index \<or> group_state (subtemplates self ! k) \<noteq> 1 then False
         else
           let t = compose_group_transform (group_transform_between self (group_anchor self) k) current_to_anchor;
               mapped_x = t0 t * int x + t1 t * int y + drop_bit 1 (t2 t);
               mapped_y = t3 t * int x + t4 t * int y + drop_bit 1 (t5 t)
           in mapped_x \<ge> 0 \<and> mapped_x \<le> 39 * 2 ^ 8 \<and> mapped_y \<ge> 0 \<and> mapped_y \<le> 31 * 2 ^ 8)
         [0..<length (subtemplates self)])"

definition position_map_uncovered_by_group :: "enrollment \<Rightarrow> bytes \<Rightarrow> nat \<Rightarrow> transform \<Rightarrow> nat" where
  "position_map_uncovered_by_group self pos_map current_index current_to_anchor =
     (let uncovered = length (filter (\<lambda>(x, y).
            packed_bit pos_map (y * 40 + x) \<noteq> 0 \<and>
            \<not> covered_by_group self current_index current_to_anchor (x, y)) (grid 40 32))
      in if uncovered < 20 then 0 else uncovered)"

text \<open>The transform from the new sample to the group anchor, through the candidate.\<close>

definition transform_to_anchor :: "enrollment \<Rightarrow> nat \<Rightarrow> nat \<Rightarrow> transform" where
  "transform_to_anchor self current candidate =
     (let current_to_candidate = group_transform_between self current candidate
      in if candidate = group_anchor self then current_to_candidate
         else compose_group_transform (group_transform_between self candidate (group_anchor self))
                current_to_candidate)"

definition make_subtemplate ::
    "enrollment \<Rightarrow> feature_record list \<Rightarrow> nat \<Rightarrow> nat \<Rightarrow> nat \<Rightarrow> nat \<Rightarrow> metric_data \<Rightarrow> bool \<Rightarrow> subtemplate" where
  "make_subtemplate self recs n_records n_active qual cov metric grouped =
     \<lparr> record_count = n_records, active_count = n_active, quality = qual, coverage = cov,
       records = recs, sub_metric = Some metric, group_state = (if grouped then 1 else 0),
       relation_base = length (relations self), study_state = 0, study_flags = 0,
       lineage_index = length (subtemplates self), replacement_count = 0,
       study_value_a = 0, study_value_b = 0 \<rparr>"

text \<open>The insertion proper: founding the group if this sample does, and appending sample, match-order
  entry and relations.\<close>

definition append_sample :: "enrollment \<Rightarrow> subtemplate \<Rightarrow> relation list \<Rightarrow> nat option \<Rightarrow> enrollment" where
  "append_sample self sub rels founder =
     (let self1 = (case founder of
            None \<Rightarrow> self
          | Some candidate \<Rightarrow> self\<lparr> group_anchor := candidate, has_group_anchor := True,
              subtemplates := map (\<lambda>s. s\<lparr> group_state := 1 \<rparr>) (subtemplates self) \<rparr>)
      in self1\<lparr> subtemplates := subtemplates self1 @ [sub],
                match_order := (match_order self)[length (subtemplates self) := length (subtemplates self)],
                relations := relations self @ rels,
                transform_count := length (relations self @ rels) \<rparr>)"

text \<open>What follows the insertion: synthesising the group's relations when it was just founded, or
  storing the transform to the anchor when the sample joined an existing group. The second
  component is that transform.\<close>

definition settle_group ::
    "enrollment \<Rightarrow> nat \<Rightarrow> bool \<Rightarrow> bool \<Rightarrow> nat option \<Rightarrow> bool list \<Rightarrow> enrollment \<times> transform option" where
  "settle_group self old_count has_group grouped candidate evidence =
     (let base = relation_base (subtemplates self ! old_count) in
      if \<not> has_group \<and> grouped then
        let self' = synthesize_first_group_relations self old_count
        in (self'\<lparr> group_edges := group_edges self @
              map (\<lambda>k. base + k) (filter (\<lambda>k. evidence ! k) [0..<old_count]) \<rparr>, None)
      else if has_group \<and> grouped then
        let to_anchor = transform_to_anchor self old_count (the candidate);
            k = base + group_anchor self;
            anchor_relation = relations self ! k;
            strength = (if the candidate \<noteq> group_anchor self \<and> inlier_count anchor_relation < 0
                        then 0 else inlier_count anchor_relation)
        in (self\<lparr> relations := (relations self)[k := \<lparr> inlier_count = strength, rel_transform = to_anchor \<rparr>],
                  group_edges := group_edges self @ [k] \<rparr>, Some to_anchor)
      else (self, None))"

definition position_detail ::
    "enrollment \<Rightarrow> nat \<Rightarrow> bool \<Rightarrow> nat option \<Rightarrow> transform option \<Rightarrow> relation list \<Rightarrow> bytes \<Rightarrow> nat" where
  "position_detail self old_count grouped candidate to_anchor rels pos_map =
     (let has_position_loss = (grouped \<and> has_group_anchor self);
          position_loss =
            (if has_position_loss
             then position_map_uncovered_by_group self pos_map old_count
                    (case to_anchor of Some t \<Rightarrow> t
                     | None \<Rightarrow> transform_to_anchor self old_count (the candidate)) * 4
             else 80 * 64);
          low = 0x100 + (position_loss * 100) div (80 * 64 + 1)
      in if old_count > 0 \<and> inlier_count (rels ! (old_count - 1)) \<ge> 6 then
           let full_overlap = affine_rectangle_overlap (rel_transform (rels ! (old_count - 1))) 80 64 False;
               geometric_penalty = ((80 * 64 - full_overlap) * 100) div (80 * 64 + 1)
           in geometric_penalty * 2 ^ 24 + low
         else if has_position_loss then 0x64 * 2 ^ 24 + low
         else FIRST_POSITION_DETAIL)"

definition goodix_chicago_enrollment_insert_next ::
    "enrollment \<Rightarrow> feature_record list option \<Rightarrow> nat \<Rightarrow> nat \<Rightarrow> nat \<Rightarrow> nat \<Rightarrow> metric_data option \<Rightarrow>
     (enrollment \<times> enrollment_result) result" where
  "goodix_chicago_enrollment_insert_next self recs n_records n_active qual cov metric_opt =
     (let old_count = length (subtemplates self) in
      if old_count = 0 \<or> old_count \<ge> capacity self then Inl G_IO_ERROR_NOT_SUPPORTED
      else if n_records \<noteq> 0 \<and> recs = None \<or> n_records > record_limit self \<or> n_active > n_records \<or>
              metric_opt = None
      then Inl G_IO_ERROR_INVALID_ARGUMENT
      else
        let metric = the metric_opt;
            new_records = (case recs of None \<Rightarrow> [] | Some rs \<Rightarrow> take n_records rs)
        in case relations_to_existing new_records metric (subtemplates self) of
             None \<Rightarrow> Inl G_IO_ERROR_INVALID_DATA
           | Some found \<Rightarrow>
               let rels = map fst found; evidence = map snd found;
                   has_group = list_ex (\<lambda>s. group_state s = 1) (subtemplates self);
                   chosen = choose_candidate metric has_group
                     (enumerate 0 (zip (subtemplates self) found));
                   candidate = map_option fst chosen;
                   grouped = (case chosen of None \<Rightarrow> False | Some (_, score) \<Rightarrow> has_group \<or> score > 205);
                   sub = make_subtemplate self new_records n_records n_active qual cov metric grouped;
                   founder = (if grouped \<and> \<not> has_group then candidate else None);
                   self1 = append_sample self sub rels founder
               in case settle_group self1 old_count has_group grouped candidate evidence of
                    (self2, to_anchor) \<Rightarrow>
                      Inr (self2, insertion_result self2
                        (position_detail self2 old_count grouped candidate to_anchor rels (position_map metric))))"

definition goodix_chicago_enrollment_insert_second ::
    "enrollment \<Rightarrow> feature_record list option \<Rightarrow> nat \<Rightarrow> nat \<Rightarrow> nat \<Rightarrow> nat \<Rightarrow> metric_data option \<Rightarrow>
     (enrollment \<times> enrollment_result) result" where
  "goodix_chicago_enrollment_insert_second self recs n_records n_active qual cov metric_opt =
     (if length (subtemplates self) \<noteq> 1 then Inl G_IO_ERROR_NOT_SUPPORTED
      else goodix_chicago_enrollment_insert_next self recs n_records n_active qual cov metric_opt)"

section \<open>Reading the state\<close>

definition goodix_chicago_enrollment_get_count :: "enrollment \<Rightarrow> nat" where
  "goodix_chicago_enrollment_get_count self = length (subtemplates self)"

definition goodix_chicago_enrollment_get_match_order_index :: "enrollment \<Rightarrow> nat \<Rightarrow> nat option" where
  "goodix_chicago_enrollment_get_match_order_index self schedule_index =
     (if schedule_index \<ge> length (subtemplates self) \<or>
         match_order self ! schedule_index \<ge> length (subtemplates self)
      then None else Some (match_order self ! schedule_index))"

definition goodix_chicago_enrollment_get_capacity :: "enrollment \<Rightarrow> nat" where
  "goodix_chicago_enrollment_get_capacity self = capacity self"

definition goodix_chicago_enrollment_get_required_samples :: "enrollment \<Rightarrow> nat" where
  "goodix_chicago_enrollment_get_required_samples self = required_samples self"

definition goodix_chicago_enrollment_get_transform_count :: "enrollment \<Rightarrow> nat" where
  "goodix_chicago_enrollment_get_transform_count self = transform_count self"

definition goodix_chicago_enrollment_get_relation :: "enrollment \<Rightarrow> nat \<Rightarrow> relation option" where
  "goodix_chicago_enrollment_get_relation self index =
     (if index \<ge> length (relations self) then None else Some (relations self ! index))"

definition goodix_chicago_enrollment_get_subtemplate :: "enrollment \<Rightarrow> nat \<Rightarrow> subtemplate_view option" where
  "goodix_chicago_enrollment_get_subtemplate self index =
     (if index \<ge> length (subtemplates self) then None
      else let s = subtemplates self ! index
           in Some \<lparr> v_record_count = record_count s, v_active_count = active_count s, v_quality = quality s,
                v_coverage = coverage s, v_records = Some (records s), v_metric = sub_metric s,
                v_group_state = group_state s, v_relation_base = relation_base s,
                v_study_state = study_state s, v_study_flags = study_flags s,
                v_lineage_index = lineage_index s, v_replacement_count = replacement_count s,
                v_study_value_a = study_value_a s, v_study_value_b = study_value_b s,
                v_density_positive_percent = 0, v_density_class = 0, v_density_inactive_count = 0,
                v_live_auxiliary = replicate 6 0 \<rparr>)"

section \<open>Well-formed enrollments\<close>

text \<open>The number of relations of \<open>n\<close> subtemplates: the sentinel of the first, and \<open>k\<close> for the later
  sample \<open>k\<close>. It is also the relation base of sample \<open>n\<close>.\<close>

fun triangle :: "nat \<Rightarrow> nat" where
  "triangle 0 = 0"
| "triangle (Suc n) = triangle n + (if n = 0 then 1 else n)"

lemma triangle_closed: "0 < n \<Longrightarrow> triangle n = 1 + n * (n - 1) div 2"
proof (induction n)
  case (Suc n)
  show ?case
  proof (cases n)
    case (Suc m)
    have "(n + 1) * n = n * (n - 1) + 2 * n" using Suc by (simp add: algebra_simps)
    then have "(n + 1) * n div 2 = n * (n - 1) div 2 + n" by simp
    then show ?thesis using Suc.IH Suc by simp
  qed simp
qed simp

lemma triangle_mono: "m \<le> n \<Longrightarrow> triangle m \<le> triangle n"
  by (induction n) (auto simp: le_Suc_eq)

lemma relation_slot_in_range: "newer < n \<Longrightarrow> older < newer \<Longrightarrow> triangle newer + older < triangle n"
  using triangle_mono [of "Suc newer" n] by (simp split: if_splits)

definition subtemplate_ok :: "enrollment \<Rightarrow> subtemplate \<Rightarrow> bool" where
  "subtemplate_ok self s \<longleftrightarrow>
     active_count s \<le> record_count s \<and> record_count s \<le> record_limit self \<and> length (records s) = record_count s"

definition match_order_ok :: "nat list \<Rightarrow> nat \<Rightarrow> bool" where
  "match_order_ok order n \<longleftrightarrow>
     length order = ENROLLMENT_CAPACITY \<and> distinct (take n order) \<and> set (take n order) = {0..<n} \<and>
     drop n order = replicate (ENROLLMENT_CAPACITY - n) G_MAXUINT32"

definition enrollment_wf :: "enrollment \<Rightarrow> bool" where
  "enrollment_wf self \<longleftrightarrow>
     (let n = length (subtemplates self) in
      n \<le> capacity self \<and> capacity self \<le> ENROLLMENT_CAPACITY \<and>
      map relation_base (subtemplates self) = map triangle [0..<n] \<and>
      length (relations self) = triangle n \<and> transform_count self = triangle n \<and>
      (\<forall>edge \<in> set (group_edges self). edge < triangle n) \<and> sorted (group_edges self) \<and>
      (\<forall>s \<in> set (subtemplates self). subtemplate_ok self s) \<and>
      match_order_ok (match_order self) n)"

lemma enrollment_wfD:
  assumes "enrollment_wf self"
  shows "length (subtemplates self) \<le> capacity self" "capacity self \<le> ENROLLMENT_CAPACITY"
    "map relation_base (subtemplates self) = map triangle [0..<length (subtemplates self)]"
    "length (relations self) = triangle (length (subtemplates self))"
    "transform_count self = triangle (length (subtemplates self))"
    "\<And>edge. edge \<in> set (group_edges self) \<Longrightarrow> edge < triangle (length (subtemplates self))"
    "\<And>s. s \<in> set (subtemplates self) \<Longrightarrow> subtemplate_ok self s"
    "match_order_ok (match_order self) (length (subtemplates self))"
    "sorted (group_edges self)"
  using assms unfolding enrollment_wf_def Let_def by blast+

lemma wf_base: "enrollment_wf self \<Longrightarrow> k < length (subtemplates self) \<Longrightarrow> relation_base (subtemplates self ! k) = triangle k"
  using enrollment_wfD(3) [of self] nth_map [of k "subtemplates self" relation_base] by simp

lemma wf_relation_slot:
  assumes "enrollment_wf self" and "newer < length (subtemplates self)" and "older < newer"
  shows "relation_index_between self newer older = Some (triangle newer + older)"
proof -
  have "triangle newer + older < length (relations self)"
    using relation_slot_in_range [OF assms(2,3)] enrollment_wfD(4) [OF assms(1)] by simp
  then show ?thesis using assms by (simp add: relation_index_between_def wf_base Let_def)
qed

lemma match_order_ok_new: "match_order_ok (replicate ENROLLMENT_CAPACITY G_MAXUINT32) 0"
  by (simp add: match_order_ok_def)

lemma match_order_ok_append:
  assumes "match_order_ok order n" and "n < ENROLLMENT_CAPACITY"
  shows "match_order_ok (order[n := n]) (Suc n)"
proof -
  have o: "length order = ENROLLMENT_CAPACITY" "distinct (take n order)" "set (take n order) = {0..<n}"
    "drop n order = replicate (ENROLLMENT_CAPACITY - n) G_MAXUINT32"
    using assms(1) unfolding match_order_ok_def by blast+
  have front: "take (Suc n) (order[n := n]) = take n order @ [n]"
    using o(1) assms(2) by (simp add: take_Suc_conv_app_nth)
  have "drop (Suc n) order = tl (drop n order)"
    by (simp add: drop_Suc tl_drop)
  then have rest: "drop (Suc n) (order[n := n]) = replicate (ENROLLMENT_CAPACITY - Suc n) G_MAXUINT32"
    unfolding o(4) by (simp add: tl_replicate)
  have "distinct (take n order @ [n])" "set (take n order @ [n]) = {0..<Suc n}"
    using o(2,3) by auto
  then show ?thesis unfolding match_order_ok_def front rest using o(1) by simp
qed

definition drop_order :: "nat list \<Rightarrow> nat \<Rightarrow> nat list" where
  "drop_order order n =
     (let kept = filter (\<lambda>k. k \<noteq> n) (take (Suc n) order)
      in (kept @ drop (length kept) order)[n := G_MAXUINT32])"

lemma match_order_ok_drop:
  assumes "match_order_ok order (Suc n)" and "n < ENROLLMENT_CAPACITY"
  shows "match_order_ok (drop_order order n) n"
proof -
  let ?kept = "filter (\<lambda>k. k \<noteq> n) (take (Suc n) order)"
  have o: "length order = ENROLLMENT_CAPACITY" "distinct (take (Suc n) order)"
    "set (take (Suc n) order) = {0..<Suc n}" "drop (Suc n) order = replicate (ENROLLMENT_CAPACITY - Suc n) G_MAXUINT32"
    using assms(1) by (simp_all add: match_order_ok_def)
  have kept: "distinct ?kept" "set ?kept = {0..<n}" using o(2,3) by auto
  then have len: "length ?kept = n" using distinct_card [of ?kept] by simp
  have "drop n order = order ! n # drop (Suc n) order"
    using o(1) assms(2) by (simp add: Cons_nth_drop_Suc)
  then have "drop_order order n = ?kept @ G_MAXUINT32 # drop (Suc n) order"
    using len by (simp add: drop_order_def Let_def list_update_append)
  moreover have "G_MAXUINT32 # replicate (ENROLLMENT_CAPACITY - Suc n) G_MAXUINT32 = replicate (ENROLLMENT_CAPACITY - n) G_MAXUINT32"
    using assms(2) by (simp add: Suc_diff_Suc flip: replicate_Suc)
  ultimately show ?thesis
    using kept len o(1,4) assms(2) by (simp add: match_order_ok_def)
qed

lemma drop_order_append:
  assumes "match_order_ok order n" and "n < ENROLLMENT_CAPACITY"
  shows "drop_order (order[n := n]) n = order"
proof -
  have o: "length order = ENROLLMENT_CAPACITY" "set (take n order) = {0..<n}"
    "drop n order = replicate (ENROLLMENT_CAPACITY - n) G_MAXUINT32"
    using assms(1) by (simp_all add: match_order_ok_def)
  have "take (Suc n) (order[n := n]) = take n order @ [n]"
    using o(1) assms(2) by (simp add: take_Suc_conv_app_nth)
  moreover have "filter (\<lambda>k. k \<noteq> n) (take n order) = take n order"
    using o(2) by (intro filter_True) auto
  moreover have "order ! n = G_MAXUINT32"
    using nth_drop [of n order 0] o(1,3) assms(2) by (simp add: nth_replicate)
  moreover have "take n order @ drop n (order[n := n]) = order[n := n]"
    using append_take_drop_id [of n "order[n := n]"] by simp
  ultimately show ?thesis
    using o(1) assms(2) by (simp add: drop_order_def Let_def) (metis list_update_id list_update_overwrite)
qed

lemma wf_new: "enrollment_wf goodix_chicago_enrollment_new"
  using match_order_ok_new by (simp add: enrollment_wf_def goodix_chicago_enrollment_new_def)

definition records_available :: "feature_record list option \<Rightarrow> nat \<Rightarrow> bool" where
  "records_available recs n \<longleftrightarrow> (case recs of None \<Rightarrow> True | Some rs \<Rightarrow> n \<le> length rs)"

lemma wf_insert_first:
  assumes "enrollment_wf self" and "records_available recs n_records"
    and "goodix_chicago_enrollment_insert_first self recs n_records n_active qual cov metric = Inr (self', res)"
    and "0 < capacity self"
  shows "enrollment_wf self'"
proof -
  have empty: "subtemplates self = []" and ok: "n_records \<le> record_limit self" "n_active \<le> n_records"
    "\<not> (n_records \<noteq> 0 \<and> recs = None)"
    using assms(3) by (auto simp: goodix_chicago_enrollment_insert_first_def Let_def split: if_splits)
  have "match_order_ok ((match_order self)[0 := 0]) (Suc 0)"
    using assms(1) empty by (intro match_order_ok_append) (simp_all add: enrollment_wf_def)
  then show ?thesis
    using assms ok empty
    by (auto simp: goodix_chicago_enrollment_insert_first_def enrollment_wf_def Let_def subtemplate_ok_def
        records_available_def split: if_splits option.splits)
qed

lemma enrollment_wfI:
  assumes "n = length (subtemplates self)" and "n \<le> capacity self" and "capacity self \<le> ENROLLMENT_CAPACITY"
    and "map relation_base (subtemplates self) = map triangle [0..<n]"
    and "length (relations self) = triangle n" and "transform_count self = triangle n"
    and "\<And>edge. edge \<in> set (group_edges self) \<Longrightarrow> edge < triangle n"
    and "\<And>s. s \<in> set (subtemplates self) \<Longrightarrow> subtemplate_ok self s"
    and "match_order_ok (match_order self) n" and "sorted (group_edges self)"
  shows "enrollment_wf self"
  using assms unfolding enrollment_wf_def Let_def by blast

text \<open>What an operation that only rewrites the subtemplates' content and the relations in place leaves.\<close>

lemma wf_same_shape:
  assumes "enrollment_wf self"
    and "map relation_base (subtemplates self') = map relation_base (subtemplates self)"
    and "capacity self' = capacity self" "length (relations self') = length (relations self)"
    and "transform_count self' = transform_count self" "match_order self' = match_order self"
    and "group_edges self' = group_edges self"
    and "\<And>s. s \<in> set (subtemplates self') \<Longrightarrow> subtemplate_ok self' s"
  shows "enrollment_wf self'"
proof -
  have "length (subtemplates self') = length (subtemplates self)"
    using assms(2) by (metis length_map)
  then show ?thesis
    using assms(2-8) enrollment_wfD [OF assms(1)] by (intro enrollment_wfI [OF refl]) auto
qed

lemma wf_append:
  assumes "enrollment_wf self" and "n = length (subtemplates self)" and "0 < n" and "n < capacity self"
    and "subtemplates self' = subs @ [sub]" and "map relation_base subs = map relation_base (subtemplates self)"
    and "\<And>s. s \<in> set subs \<Longrightarrow> subtemplate_ok self' s" and "subtemplate_ok self' sub"
    and "relation_base sub = length (relations self)"
    and "capacity self' = capacity self" and "length (relations self') = length (relations self) + n"
    and "transform_count self' = length (relations self')"
    and "match_order self' = (match_order self)[n := n]"
    and "set (group_edges self') \<subseteq> {0..<length (relations self')}" and "sorted (group_edges self')"
  shows "enrollment_wf self'"
proof (rule enrollment_wfI [where n = "Suc n"])
  note wf = enrollment_wfD [OF assms(1), folded assms(2)]
  have len: "length subs = n" using assms(2,6) by (metis length_map)
  have slots: "length (relations self') = triangle (Suc n)"
    using wf(4) assms(3,11) by simp
  show "Suc n = length (subtemplates self')" using len assms(5) by simp
  show "Suc n \<le> capacity self'" "capacity self' \<le> ENROLLMENT_CAPACITY" using assms(4,10) wf(2) by simp_all
  show "map relation_base (subtemplates self') = map triangle [0..<Suc n]"
    using wf(3,4) assms(5,6,9) by simp
  show "length (relations self') = triangle (Suc n)" "transform_count self' = triangle (Suc n)"
    using slots assms(12) by simp_all
  show "edge < triangle (Suc n)" if "edge \<in> set (group_edges self')" for edge
    using that assms(14) slots by auto
  show "subtemplate_ok self' s" if "s \<in> set (subtemplates self')" for s
    using that assms(5,7,8) by auto
  show "match_order_ok (match_order self') (Suc n)"
    using wf(2,8) assms(4,13) by (simp add: match_order_ok_append)
  show "sorted (group_edges self')" by (rule assms(15))
qed

text \<open>The group state is the only field of a subtemplate an insertion or a rebuild of the group changes.\<close>

lemma subtemplate_ok_group [simp]:
  "subtemplate_ok self (s\<lparr> group_state := g \<rparr>) = subtemplate_ok self s"
  by (simp add: subtemplate_ok_def)

lemma subtemplate_ok_limit:
  "subtemplate_ok self s \<Longrightarrow> record_limit self' = record_limit self \<Longrightarrow> subtemplate_ok self' s"
  by (simp add: subtemplate_ok_def)

lemma length_relations_to_existing:
  "relations_to_existing recs metric olds = Some found \<Longrightarrow> length found = length olds"
  by (induction olds arbitrary: found) (auto split: option.splits)

lemma length_synthesize_pair [simp]: "length (synthesize_pair self c pair rels) = length rels"
  by (simp add: synthesize_pair_def Let_def split: prod.split)

lemma synthesize_pairs_length:
  "length (foldl (\<lambda>rels pair. synthesize_pair self c pair rels) rels pairs) = length rels"
  by (induction pairs arbitrary: rels) simp_all

definition appended_by :: "enrollment \<Rightarrow> subtemplate \<Rightarrow> relation list \<Rightarrow> enrollment \<Rightarrow> bool" where
  "appended_by self sub rels self' \<longleftrightarrow>
     (\<exists>subs. subtemplates self' = subs @ [sub] \<and>
        map (\<lambda>s. s\<lparr> group_state := 0 \<rparr>) subs = map (\<lambda>s. s\<lparr> group_state := 0 \<rparr>) (subtemplates self)) \<and>
     capacity self' = capacity self \<and> record_limit self' = record_limit self \<and>
     required_samples self' = required_samples self \<and>
     length (relations self') = length (relations self) + length rels \<and>
     transform_count self' = length (relations self') \<and>
     match_order self' = (match_order self)[length (subtemplates self) := length (subtemplates self)]"

lemma appended_by_append_sample: "appended_by self sub rels (append_sample self sub rels founder)"
  by (cases founder) (simp_all add: appended_by_def append_sample_def Let_def comp_def)

lemma settle_group_fields:
  assumes "settle_group self k has_group grouped candidate evidence = (self', to_anchor)"
  shows "subtemplates self' = subtemplates self \<and> capacity self' = capacity self \<and>
    record_limit self' = record_limit self \<and> required_samples self' = required_samples self \<and>
    length (relations self') = length (relations self) \<and> transform_count self' = transform_count self \<and>
    match_order self' = match_order self \<and> group_anchor self' = group_anchor self \<and>
    has_group_anchor self' = has_group_anchor self"
  using assms
  by (auto simp: settle_group_def Let_def synthesize_first_group_relations_def synthesize_pairs_length split: if_splits)

lemma settle_group_edges:
  assumes "settle_group self k has_group grouped candidate evidence = (self', to_anchor)"
    and "set (group_edges self) \<subseteq> {0..<relation_base (subtemplates self ! k)}" and "sorted (group_edges self)"
    and "relation_base (subtemplates self ! k) + k \<le> length (relations self)"
    and "has_group \<and> grouped \<Longrightarrow> group_anchor self < k"
  shows "set (group_edges self') \<subseteq> {0..<length (relations self)}" and "sorted (group_edges self')"
    and "\<exists>new. group_edges self' = group_edges self @ new \<and> (\<forall>edge \<in> set new. edge \<ge> relation_base (subtemplates self ! k))"
proof -
  let ?base = "relation_base (subtemplates self ! k)"
  let ?new = "if \<not> has_group \<and> grouped then map (\<lambda>j. ?base + j) (filter (\<lambda>j. evidence ! j) [0..<k])
    else if has_group \<and> grouped then [?base + group_anchor self] else []"
  have edges: "group_edges self' = group_edges self @ ?new"
    using assms(1) by (auto simp: settle_group_def Let_def synthesize_first_group_relations_def split: if_splits)
  have new: "set ?new \<subseteq> {?base..<length (relations self)}"
    using assms(4,5) by auto
  have "sorted (map (\<lambda>j. ?base + j) js)" if "sorted js" for js
    using that by (simp add: sorted_wrt_map)
  then have "sorted ?new" by (simp add: sorted_wrt_filter)
  then show "sorted (group_edges self')"
    unfolding edges sorted_append using assms(2,3) new by fastforce
  show "set (group_edges self') \<subseteq> {0..<length (relations self)}"
    unfolding edges using assms(2,4) new by fastforce
  show "\<exists>new. group_edges self' = group_edges self @ new \<and> (\<forall>edge \<in> set new. edge \<ge> ?base)"
    by (rule exI [where x = ?new]) (use edges new in fastforce)
qed

text \<open>A group member exists only while the anchor is one of the first \<open>k\<close> subtemplates.\<close>

definition anchor_below :: "nat \<Rightarrow> enrollment \<Rightarrow> bool" where
  "anchor_below k self \<longleftrightarrow> (\<exists>s \<in> set (subtemplates self). group_state s = 1) \<longrightarrow> group_anchor self < k"

lemma anchor_below_mono: "anchor_below k self \<Longrightarrow> k \<le> k' \<Longrightarrow> anchor_below k' self"
  by (auto simp: anchor_below_def)

lemma choose_candidate_in:
  assumes "choose_candidate metric has_group entries = Some (k, score)"
  shows "\<exists>old rel evidence. (k, old, rel, evidence) \<in> set entries \<and> evidence \<and> inlier_count rel \<ge> 6 \<and>
    (has_group \<longrightarrow> group_state old = 1)"
proof -
  let ?good = "\<lambda>k. \<exists>old rel evidence. (k, old, rel, evidence) \<in> set entries \<and> evidence \<and> inlier_count rel \<ge> 6 \<and>
    (has_group \<longrightarrow> group_state old = 1)"
  let ?step = "\<lambda>best (k, old, rel, evidence).
          if \<not> evidence \<or> inlier_count rel < 6 \<or> has_group \<and> group_state old \<noteq> 1 then best
          else
            let score = fst (goodix_chicago_enrollment_calculate_config1_metrics metric
                               (the (sub_metric old)) (rel_transform rel))
            in (case best of
                  None \<Rightarrow> Some (k, inlier_count rel, score)
                | Some (_, best_inliers, _) \<Rightarrow>
                    if inlier_count rel > best_inliers then Some (k, inlier_count rel, score) else best)"
  have "pred_option (\<lambda>(k, _). ?good k) (foldl ?step best es)"
    if "set es \<subseteq> set entries" and "pred_option (\<lambda>(k, _). ?good k) best" for es best
    using that
  proof (induction es arbitrary: best)
    case (Cons e es)
    obtain k old rel evidence where e: "e = (k, old, rel, evidence)" by (cases e)
    have "pred_option (\<lambda>(k, _). ?good k) (?step best e)"
    proof (cases "\<not> evidence \<or> inlier_count rel < 6 \<or> has_group \<and> group_state old \<noteq> 1")
      case True
      then show ?thesis using Cons.prems(2) e by simp
    next
      case False
      then have "?good k" using Cons.prems(1) e by (auto simp: not_less)
      then show ?thesis using Cons.prems(2) e False by (auto simp: Let_def split: option.split prod.split)
    qed
    then show ?case using Cons by simp
  qed simp
  from this [of entries None] show ?thesis
    using assms unfolding choose_candidate_def by (auto simp: pred_option_def)
qed

text \<open>A successful later insertion, step by step.\<close>

lemma insert_next_steps:
  assumes "goodix_chicago_enrollment_insert_next self recs n_records n_active qual cov metric_opt = Inr (self', res)"
  obtains metric found has_group chosen grouped founder to_anchor where
    "metric_opt = Some metric"
    "0 < length (subtemplates self)" "length (subtemplates self) < capacity self"
    "n_records \<le> record_limit self" "n_active \<le> n_records" "n_records = 0 \<or> recs \<noteq> None"
    "relations_to_existing (case recs of None \<Rightarrow> [] | Some rs \<Rightarrow> take n_records rs) metric (subtemplates self) = Some found"
    "has_group = list_ex (\<lambda>s. group_state s = 1) (subtemplates self)"
    "chosen = choose_candidate metric has_group (enumerate 0 (zip (subtemplates self) found))"
    "grouped = (case chosen of None \<Rightarrow> False | Some (_, score) \<Rightarrow> has_group \<or> score > 205)"
    "founder = (if grouped \<and> \<not> has_group then map_option fst chosen else None)"
    "settle_group (append_sample self
         (make_subtemplate self (case recs of None \<Rightarrow> [] | Some rs \<Rightarrow> take n_records rs) n_records n_active qual cov metric grouped)
         (map fst found) founder)
       (length (subtemplates self)) has_group grouped (map_option fst chosen) (map snd found) = (self', to_anchor)"
    "res = insertion_result self' (position_detail self' (length (subtemplates self)) grouped (map_option fst chosen)
       to_anchor (map fst found) (position_map metric))"
proof -
  let ?n = "length (subtemplates self)"
  let ?rs = "case recs of None \<Rightarrow> [] | Some rs \<Rightarrow> take n_records rs"
  note insert = assms [unfolded goodix_chicago_enrollment_insert_next_def Let_def]
  have room: "\<not> (?n = 0 \<or> ?n \<ge> capacity self)"
    by (rule notI) (use insert in simp)
  have valid: "\<not> (n_records \<noteq> 0 \<and> recs = None \<or> n_records > record_limit self \<or> n_active > n_records \<or> metric_opt = None)"
  proof (rule notI)
    assume "n_records \<noteq> 0 \<and> recs = None \<or> n_records > record_limit self \<or> n_active > n_records \<or> metric_opt = None"
    then show False using insert by (simp only: room if_False if_True sum.distinct)
  qed
  obtain metric where metric: "metric_opt = Some metric" using valid by auto
  note insert1 = insert [unfolded if_not_P [OF room] if_not_P [OF valid], unfolded metric option.sel]
  obtain found where found: "relations_to_existing ?rs metric (subtemplates self) = Some found"
    using insert1 by (cases "relations_to_existing ?rs metric (subtemplates self)") simp_all
  let ?has = "list_ex (\<lambda>s. group_state s = 1) (subtemplates self)"
  let ?chosen = "choose_candidate metric ?has (enumerate 0 (zip (subtemplates self) found))"
  let ?grouped = "case ?chosen of None \<Rightarrow> False | Some (_, score) \<Rightarrow> ?has \<or> score > 205"
  let ?founder = "if ?grouped \<and> \<not> ?has then map_option fst ?chosen else None"
  let ?settled = "settle_group (append_sample self
         (make_subtemplate self ?rs n_records n_active qual cov metric ?grouped)
         (map fst found) ?founder) ?n ?has ?grouped (map_option fst ?chosen) (map snd found)"
  obtain self2 to_anchor where settled: "?settled = (self2, to_anchor)" by (cases ?settled)
  note insert2 = insert1 [unfolded found option.case, unfolded settled prod.case sum.inject prod.inject]
  show thesis
    by (rule that [OF metric _ _ _ _ _ found refl refl refl refl])
      (use room valid settled insert2 in auto)
qed

lemma grouped_candidate:
  assumes "chosen = choose_candidate metric has_group (enumerate 0 (zip olds found))"
    and "grouped = (case chosen of None \<Rightarrow> False | Some (_, score) \<Rightarrow> has_group \<or> score > 205)" and "grouped"
  shows "\<exists>k score. chosen = Some (k, score) \<and> k < length olds"
proof -
  obtain k score where c: "chosen = Some (k, score)"
    using assms(2,3) by (auto split: option.splits)
  then obtain old rel evidence where "(k, old, rel, evidence) \<in> set (enumerate 0 (zip olds found))"
    using choose_candidate_in assms(1) by metis
  then show ?thesis using c by (auto simp: in_set_enumerate_eq)
qed

lemma appended_by_subtemplates:
  assumes "appended_by self sub rels self'"
  obtains subs where "subtemplates self' = subs @ [sub]"
    "map relation_base subs = map relation_base (subtemplates self)" "length subs = length (subtemplates self)"
    "\<And>s. s \<in> set subs \<Longrightarrow> \<exists>s' \<in> set (subtemplates self). s\<lparr> group_state := 0 \<rparr> = s'\<lparr> group_state := 0 \<rparr>"
proof -
  obtain subs where s: "subtemplates self' = subs @ [sub]"
    "map (\<lambda>s. s\<lparr> group_state := 0 \<rparr>) subs = map (\<lambda>s. s\<lparr> group_state := 0 \<rparr>) (subtemplates self)"
    using assms by (auto simp: appended_by_def)
  have len: "length subs = length (subtemplates self)" using s(2) by (metis length_map)
  have "map relation_base (map (\<lambda>s. s\<lparr> group_state := 0 \<rparr>) subs) =
    map relation_base (map (\<lambda>s. s\<lparr> group_state := 0 \<rparr>) (subtemplates self))"
    using s(2) by simp
  then have base: "map relation_base subs = map relation_base (subtemplates self)" by (simp add: comp_def)
  have "\<exists>s' \<in> set (subtemplates self). s\<lparr> group_state := 0 \<rparr> = s'\<lparr> group_state := 0 \<rparr>" if "s \<in> set subs" for s
    using that s(2) by (metis (no_types, lifting) image_iff image_set)
  then show thesis using that [OF s(1) base len] by blast
qed

lemma subtemplate_ok_ungrouped:
  "s\<lparr> group_state := 0 \<rparr> = s'\<lparr> group_state := 0 \<rparr> \<Longrightarrow> subtemplate_ok self s = subtemplate_ok self s'"
  by (metis subtemplate_ok_group)

lemma anchor_append_sample:
  assumes "anchor_below n self" and "n = length (subtemplates self)"
    and "grouped \<Longrightarrow> \<exists>k score. chosen = Some (k, score) \<and> k < n"
    and "has_group = list_ex (\<lambda>s. group_state s = 1) (subtemplates self)"
    and "founder = (if grouped \<and> \<not> has_group then map_option fst chosen else None)"
    and "self' = append_sample self (make_subtemplate self rs n_records n_active qual cov metric grouped) rels founder"
  shows "anchor_below n self'"
    and "has_group \<and> grouped \<Longrightarrow> group_anchor self' < n"
  using assms
  by (auto simp: anchor_below_def append_sample_def make_subtemplate_def list_ex_iff Let_def split: if_splits)

lemma wf_insert_next:
  assumes wf: "enrollment_wf self" and anchor: "anchor_below (length (subtemplates self)) self"
    and available: "records_available recs n_records"
    and insert: "goodix_chicago_enrollment_insert_next self recs n_records n_active qual cov metric_opt = Inr (self', res)"
  shows "enrollment_wf self'" and "anchor_below (length (subtemplates self)) self'"
    and "length (subtemplates self') = Suc (length (subtemplates self))"
proof -
  let ?n = "length (subtemplates self)"
  let ?rs = "case recs of None \<Rightarrow> [] | Some rs \<Rightarrow> take n_records rs"
  obtain metric found has_group chosen grouped founder to_anchor where
    s: "0 < ?n" "?n < capacity self" "n_records \<le> record_limit self" "n_active \<le> n_records"
      "n_records = 0 \<or> recs \<noteq> None"
      "relations_to_existing ?rs metric (subtemplates self) = Some found"
      "has_group = list_ex (\<lambda>s. group_state s = 1) (subtemplates self)"
      "chosen = choose_candidate metric has_group (enumerate 0 (zip (subtemplates self) found))"
      "grouped = (case chosen of None \<Rightarrow> False | Some (_, score) \<Rightarrow> has_group \<or> score > 205)"
      "founder = (if grouped \<and> \<not> has_group then map_option fst chosen else None)"
      "settle_group (append_sample self (make_subtemplate self ?rs n_records n_active qual cov metric grouped)
         (map fst found) founder) ?n has_group grouped (map_option fst chosen) (map snd found) = (self', to_anchor)"
    using insert_next_steps [OF insert] by metis
  let ?sub = "make_subtemplate self ?rs n_records n_active qual cov metric grouped"
  let ?self1 = "append_sample self ?sub (map fst found) founder"
  have found: "length found = ?n" using s(6) by (rule length_relations_to_existing)
  have app: "appended_by self ?sub (map fst found) ?self1" by (rule appended_by_append_sample)
  obtain subs where subs: "subtemplates ?self1 = subs @ [?sub]"
    "map relation_base subs = map relation_base (subtemplates self)" "length subs = ?n"
    "\<And>s. s \<in> set subs \<Longrightarrow> \<exists>s' \<in> set (subtemplates self). s\<lparr> group_state := 0 \<rparr> = s'\<lparr> group_state := 0 \<rparr>"
    using appended_by_subtemplates [OF app] by metis
  have candidate: "grouped \<Longrightarrow> \<exists>k score. chosen = Some (k, score) \<and> k < ?n"
    using grouped_candidate [OF s(8,9)] by blast
  note anchor1 = anchor_append_sample [OF anchor refl candidate s(7,10) refl]
  note settled = settle_group_fields [OF s(11)]
  have base: "relation_base ?sub = length (relations self)" by (simp add: make_subtemplate_def)
  have edges0: "group_edges ?self1 = group_edges self" by (cases founder) (simp_all add: append_sample_def Let_def)
  have at: "subtemplates ?self1 ! ?n = ?sub" by (simp add: subs(1) subs(3) [symmetric])
  have "set (group_edges ?self1) \<subseteq> {0..<relation_base (subtemplates ?self1 ! ?n)}"
    unfolding edges0 at base using enrollment_wfD(4,6) [OF wf] by auto
  moreover have "relation_base (subtemplates ?self1 ! ?n) + ?n \<le> length (relations ?self1)"
    unfolding at base using app found by (simp add: appended_by_def)
  ultimately have edges: "set (group_edges self') \<subseteq> {0..<length (relations ?self1)}" "sorted (group_edges self')"
    using settle_group_edges(1,2) [OF s(11)] enrollment_wfD(9) [OF wf] anchor1(2) edges0 by simp_all
  have limit: "record_limit self' = record_limit self" using settled app by (simp add: appended_by_def)
  show "enrollment_wf self'"
  proof (rule wf_append [OF wf refl s(1,2)])
    show "subtemplates self' = subs @ [?sub]" using settled subs(1) by simp
    show "map relation_base subs = map relation_base (subtemplates self)" by (rule subs(2))
    show "subtemplate_ok self' s" if "s \<in> set subs" for s
      using subs(4) [OF that] enrollment_wfD(7) [OF wf] subtemplate_ok_ungrouped subtemplate_ok_limit limit by metis
    show "subtemplate_ok self' ?sub"
      using s(3,4,5) available limit
      by (auto simp: subtemplate_ok_def make_subtemplate_def records_available_def split: option.splits)
    show "relation_base ?sub = length (relations self)" by (rule base)
    show "capacity self' = capacity self" "length (relations self') = length (relations self) + ?n"
      "transform_count self' = length (relations self')" "match_order self' = (match_order self)[?n := ?n]"
      using settled app found by (simp_all add: appended_by_def)
    show "set (group_edges self') \<subseteq> {0..<length (relations self')}" "sorted (group_edges self')"
      using edges settled by simp_all
  qed
  show "anchor_below ?n self'" using anchor1(1) settled by (simp add: anchor_below_def)
  show "length (subtemplates self') = Suc ?n" using settled subs(1,3) by simp
qed

lemma drop_edges_eq:
  assumes "sorted edges"
  shows "rev (dropWhile (\<lambda>edge. \<not> edge < base) (rev edges)) = filter (\<lambda>edge. edge < base) edges"
  using assms
proof (induction edges rule: rev_induct)
  case (snoc e edges)
  show ?case
  proof (cases "e < base")
    case True
    then have "filter (\<lambda>edge. edge < base) edges = edges"
      using snoc.prems by (intro filter_True) (auto simp: sorted_append)
    then show ?thesis using True by simp
  next
    case False
    then show ?thesis using snoc by (simp add: sorted_append)
  qed
qed simp

lemma drop_last_nonempty:
  "goodix_chicago_enrollment_drop_last self = Inr self' \<Longrightarrow> \<exists>m. length (subtemplates self) = Suc m"
  by (cases "length (subtemplates self)") (simp_all add: goodix_chicago_enrollment_drop_last_def)

lemma drop_last_fields:
  assumes "enrollment_wf self" and "goodix_chicago_enrollment_drop_last self = Inr self'"
    and m: "length (subtemplates self) = Suc m"
  shows "subtemplates self' = butlast (subtemplates self)" "relations self' = take (triangle m) (relations self)"
    "group_edges self' = filter (\<lambda>edge. edge < triangle m) (group_edges self)"
    "match_order self' = drop_order (match_order self) m" "transform_count self' = length (relations self')"
    "capacity self' = capacity self" "record_limit self' = record_limit self"
    "required_samples self' = required_samples self"
    "group_anchor self' = (if m = 0 then 0 else group_anchor self)"
    "has_group_anchor self' = (m \<noteq> 0 \<and> has_group_anchor self)"
    "matcher_active_index self' = matcher_active_index self" "matcher_value_a self' = matcher_value_a self"
    "matcher_value_b self' = matcher_value_b self" "matcher_value_c self' = matcher_value_c self"
    "matcher_value_d self' = matcher_value_d self"
proof -
  have base: "relation_base (subtemplates self ! m) = triangle m"
    using wf_base [OF assms(1), of m] m by simp
  let ?kept = "self\<lparr> relations := take (triangle m) (relations self),
      group_edges := filter (\<lambda>edge. edge < triangle m) (group_edges self),
      subtemplates := butlast (subtemplates self), match_order := drop_order (match_order self) m,
      transform_count := length (take (triangle m) (relations self)) \<rparr>"
  have "goodix_chicago_enrollment_drop_last self =
      Inr (if m = 0 then ?kept\<lparr> group_anchor := 0, has_group_anchor := False \<rparr> else ?kept)"
    unfolding goodix_chicago_enrollment_drop_last_def Let_def m drop_order_def diff_Suc_1 base
      drop_edges_eq [OF enrollment_wfD(9) [OF assms(1)]]
    using m by (cases m) simp_all
  then have self': "self' = (if m = 0 then ?kept\<lparr> group_anchor := 0, has_group_anchor := False \<rparr> else ?kept)"
    using assms(2) by simp
  show "subtemplates self' = butlast (subtemplates self)" "relations self' = take (triangle m) (relations self)"
    "group_edges self' = filter (\<lambda>edge. edge < triangle m) (group_edges self)"
    "match_order self' = drop_order (match_order self) m" "transform_count self' = length (relations self')"
    "capacity self' = capacity self" "record_limit self' = record_limit self"
    "required_samples self' = required_samples self"
    "group_anchor self' = (if m = 0 then 0 else group_anchor self)"
    "has_group_anchor self' = (m \<noteq> 0 \<and> has_group_anchor self)"
    "matcher_active_index self' = matcher_active_index self" "matcher_value_a self' = matcher_value_a self"
    "matcher_value_b self' = matcher_value_b self" "matcher_value_c self' = matcher_value_c self"
    "matcher_value_d self' = matcher_value_d self"
    unfolding self' by (cases m; simp)+
qed

lemma wf_drop_last:
  assumes wf: "enrollment_wf self" and drop: "goodix_chicago_enrollment_drop_last self = Inr self'"
  shows "enrollment_wf self'" and "length (subtemplates self) = Suc (length (subtemplates self'))"
    and "anchor_below (length (subtemplates self) - 1) self \<Longrightarrow> anchor_below (length (subtemplates self')) self'"
proof -
  obtain m where m: "length (subtemplates self) = Suc m" using drop_last_nonempty [OF drop] by blast
  note f = drop_last_fields [OF wf drop m]
  note d = enrollment_wfD [OF wf, unfolded m]
  have len: "length (subtemplates self') = m" using f(1) m by simp
  then show "length (subtemplates self) = Suc (length (subtemplates self'))" using m by simp
  have short: "triangle m \<le> length (relations self)"
    unfolding d(4) by (rule triangle_mono) simp
  show "enrollment_wf self'"
  proof (rule enrollment_wfI [OF len [symmetric]])
    show "m \<le> capacity self'" "capacity self' \<le> ENROLLMENT_CAPACITY" using d(1,2) f(6) by simp_all
    have "map relation_base (butlast (subtemplates self)) = butlast (map relation_base (subtemplates self))"
      by (rule map_butlast)
    then show "map relation_base (subtemplates self') = map triangle [0..<m]"
      unfolding f(1) d(3) by simp
    show "length (relations self') = triangle m" unfolding f(2) using short by simp
    then show "transform_count self' = triangle m" using f(5) by simp
    show "edge < triangle m" if "edge \<in> set (group_edges self')" for edge
      using that unfolding f(3) by simp
    show "subtemplate_ok self' s" if "s \<in> set (subtemplates self')" for s
      using subtemplate_ok_limit [OF d(7) f(7)] that unfolding f(1) by (blast dest: in_set_butlastD)
    have "m < ENROLLMENT_CAPACITY" using d(1,2) by simp
    then show "match_order_ok (match_order self') m" unfolding f(4) by (rule match_order_ok_drop [OF d(8)])
    show "sorted (group_edges self')" unfolding f(3) using d(9) by (simp add: sorted_wrt_filter)
  qed
  show "anchor_below (length (subtemplates self')) self'" if "anchor_below (length (subtemplates self) - 1) self"
  proof (cases m)
    case 0
    then show ?thesis using len by (simp add: anchor_below_def)
  next
    case (Suc k)
    have "anchor_below m self" using that m by simp
    then show ?thesis unfolding len using f(1,9) Suc by (auto simp: anchor_below_def dest: in_set_butlastD)
  qed
qed

lemma append_sample_ungrouped:
  "append_sample self sub rels None =
     self\<lparr> subtemplates := subtemplates self @ [sub],
           match_order := (match_order self)[length (subtemplates self) := length (subtemplates self)],
           relations := relations self @ rels, transform_count := length (relations self @ rels) \<rparr>"
  by (simp add: append_sample_def)

lemma settle_group_keeps:
  assumes "settle_group self k has_group grouped candidate evidence = (self', to_anchor)"
    and "has_group \<or> \<not> grouped"
  shows "take (relation_base (subtemplates self ! k)) (relations self') = take (relation_base (subtemplates self ! k)) (relations self)"
    and "required_samples self' = required_samples self" "matcher_active_index self' = matcher_active_index self"
    "matcher_value_a self' = matcher_value_a self" "matcher_value_b self' = matcher_value_b self"
    "matcher_value_c self' = matcher_value_c self" "matcher_value_d self' = matcher_value_d self"
  using assms by (auto simp: settle_group_def Let_def split: if_splits)


section \<open>Properties\<close>

lemma relations_to_existing_total:
  "(relations_to_existing recs metric olds = None) = (\<exists>s \<in> set olds. sub_metric s = None)"
  by (induction olds) (auto simp: relation_to_existing_def split: option.splits prod.splits)

lemma insert_next_outcome:
  "goodix_chicago_enrollment_insert_next self recs n_records n_active qual cov metric_opt =
     (let n = length (subtemplates self) in
      if n = 0 \<or> n \<ge> capacity self then Inl G_IO_ERROR_NOT_SUPPORTED
      else if n_records \<noteq> 0 \<and> recs = None \<or> n_records > record_limit self \<or> n_active > n_records \<or> metric_opt = None
      then Inl G_IO_ERROR_INVALID_ARGUMENT
      else if \<exists>s \<in> set (subtemplates self). sub_metric s = None then Inl G_IO_ERROR_INVALID_DATA
      else Inr (projr (goodix_chicago_enrollment_insert_next self recs n_records n_active qual cov metric_opt)))"
proof -
  let ?n = "length (subtemplates self)"
  let ?go = "goodix_chicago_enrollment_insert_next self recs n_records n_active qual cov metric_opt"
  let ?rs = "case recs of None \<Rightarrow> [] | Some rs \<Rightarrow> take n_records rs"
  consider (full) "?n = 0 \<or> ?n \<ge> capacity self"
    | (invalid) "\<not> (?n = 0 \<or> ?n \<ge> capacity self)"
        "n_records \<noteq> 0 \<and> recs = None \<or> n_records > record_limit self \<or> n_active > n_records \<or> metric_opt = None"
    | (valid) "\<not> (?n = 0 \<or> ?n \<ge> capacity self)"
        "\<not> (n_records \<noteq> 0 \<and> recs = None \<or> n_records > record_limit self \<or> n_active > n_records \<or> metric_opt = None)"
    by blast
  then show ?thesis
  proof cases
    case full
    show ?thesis unfolding Let_def if_P [OF full]
      unfolding goodix_chicago_enrollment_insert_next_def Let_def if_P [OF full] by (rule refl)
  next
    case invalid
    show ?thesis unfolding Let_def if_not_P [OF invalid(1)] if_P [OF invalid(2)]
      unfolding goodix_chicago_enrollment_insert_next_def Let_def if_not_P [OF invalid(1)] if_P [OF invalid(2)] by (rule refl)
  next
    case valid
    have go: "?go = (case relations_to_existing ?rs (the metric_opt) (subtemplates self) of
        None \<Rightarrow> Inl G_IO_ERROR_INVALID_DATA | Some found \<Rightarrow> Inr (projr ?go))"
      unfolding goodix_chicago_enrollment_insert_next_def Let_def if_not_P [OF valid(1)] if_not_P [OF valid(2)]
      by (simp add: split_beta split: option.split)
    show ?thesis
    proof (cases "relations_to_existing ?rs (the metric_opt) (subtemplates self)")
      case None
      then have missing: "\<exists>s \<in> set (subtemplates self). sub_metric s = None" by (simp add: relations_to_existing_total)
      show ?thesis unfolding Let_def if_not_P [OF valid(1)] if_not_P [OF valid(2)] if_P [OF missing]
        using go None by simp
    next
      case (Some found)
      then have present: "\<not> (\<exists>s \<in> set (subtemplates self). sub_metric s = None)"
        using relations_to_existing_total [of ?rs "the metric_opt" "subtemplates self"] by simp
      show ?thesis unfolding Let_def if_not_P [OF valid(1)] if_not_P [OF valid(2)] if_not_P [OF present]
        using go Some by simp
    qed
  qed
qed

lemma uncovered_le: "position_map_uncovered_by_group self pos_map k t \<le> 1280"
proof -
  have "length (filter P (grid 40 32)) \<le> 1280" for P
    using length_filter_le [of P "grid 40 32"] by simp
  then show ?thesis by (simp add: position_map_uncovered_by_group_def Let_def)
qed

lemma percent_le: "full \<le> 5120 \<Longrightarrow> full * 100 div (80 * 64 + 1) \<le> (99 :: nat)"
  by simp

lemma position_detail_bytes:
  obtains hi lo where "position_detail self k grouped candidate to_anchor rels pos_map = hi * 2 ^ 24 + lo"
    "hi \<le> 100" "lo < 2 ^ 24" "lo mod 256 \<le> 100"
proof -
  note split = that
  define loss where "loss = (if grouped \<and> has_group_anchor self
             then position_map_uncovered_by_group self pos_map k
                    (case to_anchor of Some t \<Rightarrow> t
                     | None \<Rightarrow> transform_to_anchor self k (the candidate)) * 4
             else 80 * 64)"
  define low where "low = 0x100 + loss * 100 div (80 * 64 + 1)"
  define geometric where "geometric = (80 * 64 - affine_rectangle_overlap (rel_transform (rels ! (k - 1))) 80 64 False) * 100 div (80 * 64 + 1)"
  have detail: "position_detail self k grouped candidate to_anchor rels pos_map =
    (if k > 0 \<and> inlier_count (rels ! (k - 1)) \<ge> 6 then geometric * 2 ^ 24 + low
     else if grouped \<and> has_group_anchor self then 0x64 * 2 ^ 24 + low else FIRST_POSITION_DETAIL)"
    unfolding position_detail_def Let_def low_def loss_def geometric_def ..
  have "loss \<le> 5120" using uncovered_le [of self pos_map k] by (simp add: loss_def mult_le_mono1)
  then have "loss * 100 div (80 * 64 + 1) \<le> 99" by (rule percent_le)
  then obtain extra where extra: "low = 0x100 + extra" "extra \<le> 99" by (simp add: low_def)
  have geo: "geometric \<le> 99" unfolding geometric_def by (rule percent_le) simp
  have "extra < 256" using extra(2) by simp
  then have small: "low < 2 ^ 24" "low mod 256 \<le> 100" using extra by simp_all
  show thesis
  proof (cases "k > 0 \<and> inlier_count (rels ! (k - 1)) \<ge> 6")
    case True
    then show thesis using split [of geometric low] detail geo small by simp
  next
    case not_inlier: False
    show thesis
    proof (cases "grouped \<and> has_group_anchor self")
      case True
      then show thesis using split [of 100 low] detail small unfolding if_not_P [OF not_inlier] by simp
    next
      case False
      then show thesis using split [of 100 100] detail unfolding if_not_P [OF not_inlier] if_not_P [OF False] by simp
    qed
  qed
qed

definition result_in_range :: "enrollment_result \<Rightarrow> bool" where
  "result_in_range r \<longleftrightarrow> progress r \<le> 100 \<and> position_x r \<le> 100 \<and> position_y r \<le> 100"

lemma position_byte: "b \<le> 100 \<Longrightarrow> nat ((100 - int b) mod 2 ^ 32) \<le> 100"
  by simp

lemma insertion_result_in_range:
  assumes "detail = hi * 2 ^ 24 + lo" and "hi \<le> 100" and "lo < 2 ^ 24" and "lo mod 256 \<le> 100"
  shows "result_in_range (insertion_result self detail)"
proof -
  have "detail div 2 ^ 24 \<le> 100" using assms(1-3) by simp
  moreover have "detail mod 2 ^ 8 \<le> 100"
  proof -
    have "detail = lo + 256 * (hi * 2 ^ 16)" using assms(1) by simp
    then have "detail mod 256 = lo mod 256" by (metis mod_mult_self2)
    then show ?thesis using assms(4) by simp
  qed
  ultimately show ?thesis
    unfolding result_in_range_def insertion_result_def using position_byte by simp
qed

text \<open>A sample without feature records has only weak relations and never joins a group.\<close>

lemma no_records_weak:
  assumes "relation_to_existing [] metric old = Some (rel, evidence)"
  shows "inlier_count rel = -1"
proof -
  have "goodix_chicago_enrollment_find_correspondences (records old) [] = []"
    using find_correspondences_sound [of "records old" "[]"] by auto
  then have "inlier_count (fst (goodix_chicago_enrollment_build_relation (records old) m [] metric)) = 0" for m
    by (simp add: goodix_chicago_enrollment_build_relation_def Let_def goodix_chicago_enrollment_estimate_transform_def
        index_triples_def estimate_start_def split: prod.split)
  note zero = this
  obtain m where m: "sub_metric old = Some m"
    using assms by (auto simp: relation_to_existing_def split: option.splits)
  obtain rel0 a b e where built: "goodix_chicago_enrollment_build_relation (records old) m [] metric = (rel0, a, b, e)"
    by (cases "goodix_chicago_enrollment_build_relation (records old) m [] metric")
  then have "inlier_count rel0 = 0" using zero [of m] by simp
  then show ?thesis using assms by (auto simp: relation_to_existing_def m built weak_relation_def)
qed

lemma no_records_all_weak:
  "relations_to_existing [] metric olds = Some found \<Longrightarrow> r \<in> set found \<Longrightarrow> inlier_count (fst r) = -1"
proof (induction olds arbitrary: found)
  case (Cons old olds)
  obtain rel evidence rest where "relation_to_existing [] metric old = Some (rel, evidence)"
    "relations_to_existing [] metric olds = Some rest" "found = (rel, evidence) # rest"
    using Cons.prems(1) by (auto split: option.splits)
  then show ?case using Cons no_records_weak by auto
qed simp

lemma no_records_ungrouped:
  assumes "goodix_chicago_enrollment_insert_next self (Some []) 0 n_active qual cov metric_opt = Inr (self', res)"
  shows "group_state (last (subtemplates self')) = 0"
proof -
  obtain metric found has_group chosen grouped founder to_anchor where
    s: "relations_to_existing [] metric (subtemplates self) = Some found"
      "chosen = choose_candidate metric has_group (enumerate 0 (zip (subtemplates self) found))"
      "grouped = (case chosen of None \<Rightarrow> False | Some (_, score) \<Rightarrow> has_group \<or> score > 205)"
      "settle_group (append_sample self (make_subtemplate self [] 0 n_active qual cov metric grouped)
         (map fst found) founder) (length (subtemplates self)) has_group grouped (map_option fst chosen) (map snd found) =
       (self', to_anchor)"
    by (rule insert_next_steps [OF assms]) (simp only: option.case take_0)
  have "chosen = None"
  proof (cases chosen)
    case (Some c)
    obtain k score where "c = (k, score)" by (cases c)
    then have "choose_candidate metric has_group (enumerate 0 (zip (subtemplates self) found)) = Some (k, score)"
      using Some s(2) by simp
    then obtain old rel evidence where
      "(k, old, rel, evidence) \<in> set (enumerate 0 (zip (subtemplates self) found))" "inlier_count rel \<ge> 6"
      using choose_candidate_in by metis
    then have "(rel, evidence) \<in> set found" "inlier_count rel \<ge> 6"
      by (auto simp: in_set_enumerate_eq dest: nth_mem) (metis nth_mem min.strict_boundedE nth_zip prod.inject length_zip)
    then show ?thesis using no_records_all_weak [OF s(1)] by fastforce
  qed simp
  then have "\<not> grouped" using s(3) by simp
  moreover have "last (subtemplates self') = make_subtemplate self [] 0 n_active qual cov metric grouped"
    using settle_group_fields [OF s(4)] by (cases founder) (simp_all add: append_sample_def Let_def)
  ultimately show ?thesis by (simp add: make_subtemplate_def)
qed

text \<open>Two featureless samples, on which the witnesses below rest.\<close>

definition blank_metric :: metric_data where
  "blank_metric = \<lparr> primary = [], secondary = [], validity = [], coarse_mask = [], position_map = [], packed_resolution = 0 \<rparr>"

definition one_sample :: enrollment where
  "one_sample = fst (projr (goodix_chicago_enrollment_insert_first goodix_chicago_enrollment_new (Some []) 0 0 50 60 (Some blank_metric)))"

definition two_samples :: "enrollment \<times> enrollment_result" where
  "two_samples = projr (goodix_chicago_enrollment_insert_next one_sample (Some []) 0 0 50 60 (Some blank_metric))"

lemma one_sample_inserted:
  "\<exists>res. goodix_chicago_enrollment_insert_first goodix_chicago_enrollment_new (Some []) 0 0 50 60 (Some blank_metric) =
     Inr (one_sample, res)"
  by (simp add: one_sample_def goodix_chicago_enrollment_insert_first_def goodix_chicago_enrollment_new_def Let_def)

lemma one_sample_fields:
  "length (subtemplates one_sample) = 1" "capacity one_sample = 50" "group_state (subtemplates one_sample ! 0) = 0"
  "\<forall>s \<in> set (subtemplates one_sample). sub_metric s = Some blank_metric \<and> group_state s = 0"
  by (simp_all add: one_sample_def goodix_chicago_enrollment_insert_first_def goodix_chicago_enrollment_new_def Let_def)

lemma one_sample_wf: "enrollment_wf one_sample" "anchor_below (length (subtemplates one_sample)) one_sample"
proof -
  obtain res where "goodix_chicago_enrollment_insert_first goodix_chicago_enrollment_new (Some []) 0 0 50 60 (Some blank_metric) =
     Inr (one_sample, res)" using one_sample_inserted by blast
  then show "enrollment_wf one_sample"
    by (rule wf_insert_first [OF wf_new, rotated])
      (simp_all add: records_available_def goodix_chicago_enrollment_new_def)
  show "anchor_below (length (subtemplates one_sample)) one_sample"
    using one_sample_fields(4) by (auto simp: anchor_below_def)
qed

lemma two_samples_inserted:
  "goodix_chicago_enrollment_insert_next one_sample (Some []) 0 0 50 60 (Some blank_metric) = Inr two_samples"
  unfolding two_samples_def
  by (rule insert_next_outcome [THEN trans]) (use one_sample_fields in \<open>auto simp: Let_def\<close>)


text \<open>C10: Inserting a later sample fails exactly when the enrollment is empty or full, the arguments are
  inconsistent or an enrolled sample has no metric data, each with its own error; otherwise it
  succeeds and reports a progress and a position of at most 100.\<close>

theorem enrollment_insert_next_outcome:
  "(case goodix_chicago_enrollment_insert_next self recs n_records n_active qual cov metric_opt of
      Inl e \<Rightarrow> Some e | Inr _ \<Rightarrow> None) =
     (let n = length (subtemplates self) in
      if n = 0 \<or> n \<ge> capacity self then Some G_IO_ERROR_NOT_SUPPORTED
      else if n_records \<noteq> 0 \<and> recs = None \<or> n_records > record_limit self \<or> n_active > n_records \<or> metric_opt = None
      then Some G_IO_ERROR_INVALID_ARGUMENT
      else if \<exists>s \<in> set (subtemplates self). sub_metric s = None then Some G_IO_ERROR_INVALID_DATA
      else None) \<and>
   (case goodix_chicago_enrollment_insert_next self recs n_records n_active qual cov metric_opt of
      Inl e \<Rightarrow> True | Inr (self', res) \<Rightarrow> progress res \<le> 100 \<and> position_x res \<le> 100 \<and> position_y res \<le> 100)"
proof (intro conjI, goal_cases)
  case 1
  then show ?case
    by (subst insert_next_outcome) (auto simp: Let_def)
next
  case 2
  have "result_in_range res"
    if "goodix_chicago_enrollment_insert_next self recs n_records n_active qual cov metric_opt = Inr (self', res)" for self' res
  proof (rule insert_next_steps [OF that], goal_cases)
    case (1 metric found has_group chosen grouped founder to_anchor)
    show ?case unfolding 1(13) by (rule position_detail_bytes) (rule insertion_result_in_range)
  qed
  then show ?case by (auto simp: result_in_range_def split: sum.split)
qed

end
