(* ===== verification/Chicago_Study.thy ===== *)
theory Chicago_Study
  imports Chicago_Enrollment
begin

text \<open>
  Adaptive study in goodix-chicago-enrollment.c: the largest group of related subtemplates
  (\<open>rebuild_matcher_group\<close>), appending an accepted probe and replacing a subtemplate by one; and
  what every history of these operations keeps.
\<close>

declare upt_rec_numeral [simp del]

section \<open>The matcher group\<close>

text \<open>Whether two subtemplates are joined by a relation of more than two inliers.\<close>

definition group_edge :: "enrollment \<Rightarrow> nat \<Rightarrow> nat \<Rightarrow> bool" where
  "group_edge self current candidate =
     (case (if current > candidate then relation_between_subtemplates self current candidate
            else relation_between_subtemplates self candidate current) of
        None \<Rightarrow> False
      | Some r \<Rightarrow> \<not> inlier_count r \<le> 2)"

text \<open>
  The search state is the component of every subtemplate (\<open>-1\<close> when unseen), the size of the
  component being grown and the work list, whose head is the top of the stack.
\<close>

definition group_visit ::
    "(nat \<Rightarrow> nat \<Rightarrow> bool) \<Rightarrow> nat \<Rightarrow> nat \<Rightarrow> int list \<times> nat \<times> nat list \<Rightarrow> nat \<Rightarrow> int list \<times> nat \<times> nat list" where
  "group_visit edge root current st candidate =
     (case st of (component, sz, stack) \<Rightarrow>
       if candidate = current \<or> component ! candidate \<ge> 0 then st
       else if \<not> edge current candidate then st
       else (component[candidate := int root], sz + 1, candidate # stack))"

definition group_expand ::
    "(nat \<Rightarrow> nat \<Rightarrow> bool) \<Rightarrow> nat \<Rightarrow> nat \<Rightarrow> int list \<times> nat \<times> nat list \<Rightarrow> int list \<times> nat \<times> nat list" where
  "group_expand edge root current st =
     foldl (group_visit edge root current) st (rev [0..<length (fst st)])"

definition unseen :: "int list \<Rightarrow> nat" where
  "unseen component = length (filter (\<lambda>c. c < 0) component)"

lemma unseen_mark:
  "k < length component \<Longrightarrow> component ! k < 0 \<Longrightarrow> Suc (unseen (component[k := int root])) = unseen component"
proof (induction component arbitrary: k)
  case (Cons c cs)
  then show ?case by (cases k) (auto simp: unseen_def)
qed simp

lemma group_visits_measure:
  assumes "set ks \<subseteq> {0..<length component}"
    and "foldl (group_visit edge root current) (component, sz, stack) ks = (component', sz', stack')"
  shows "length component' = length component \<and> length stack' + unseen component' = length stack + unseen component \<and>
    unseen component' \<le> unseen component"
  using assms
proof (induction ks arbitrary: component sz stack)
  case (Cons k ks)
  show ?case
  proof (cases "k = current \<or> component ! k \<ge> 0 \<or> \<not> edge current k")
    case True
    then have "group_visit edge root current (component, sz, stack) k = (component, sz, stack)"
      by (auto simp: group_visit_def)
    then show ?thesis using Cons by simp
  next
    case False
    then have "group_visit edge root current (component, sz, stack) k = (component[k := int root], sz + 1, k # stack)"
      by (auto simp: group_visit_def)
    moreover have "Suc (unseen (component[k := int root])) = unseen component"
      using False Cons.prems(1) by (intro unseen_mark) auto
    ultimately show ?thesis using Cons.IH [of "component[k := int root]" "sz + 1" "k # stack"] Cons.prems by simp
  qed
qed simp

function group_search ::
    "(nat \<Rightarrow> nat \<Rightarrow> bool) \<Rightarrow> nat \<Rightarrow> int list \<times> nat \<times> nat list \<Rightarrow> int list \<times> nat" where
  "group_search edge root (component, sz, []) = (component, sz)"
| "group_search edge root (component, sz, current # stack) =
     group_search edge root (group_expand edge root current (component, sz, stack))"
  by pat_completeness auto
termination
proof (relation "measure (\<lambda>(edge, root, component, sz, stack). length stack + 2 * unseen component)")
  show "((edge, root, group_expand edge root current (component, sz, stack)), edge, root, component, sz, current # stack)
    \<in> measure (\<lambda>(edge, root, component, sz, stack). length stack + 2 * unseen component)"
    for edge :: "nat \<Rightarrow> nat \<Rightarrow> bool" and root current component sz stack
  proof -
    obtain component' sz' stack' where
      e: "group_expand edge root current (component, sz, stack) = (component', sz', stack')"
      by (cases "group_expand edge root current (component, sz, stack)") auto
    then have "length stack' + unseen component' = length stack + unseen component \<and> unseen component' \<le> unseen component"
      using group_visits_measure [of "rev [0..<length component]" component edge root current sz stack component' sz' stack']
      by (simp add: group_expand_def)
    then show ?thesis by (simp add: e)
  qed
qed simp

definition matcher_components :: "(nat \<Rightarrow> nat \<Rightarrow> bool) \<Rightarrow> nat \<Rightarrow> int list \<times> nat list" where
  "matcher_components edge count =
     foldl (\<lambda>(component, sizes) root.
        if component ! root \<ge> 0 then (component, sizes)
        else case group_search edge root (component[root := int root], 1, [root]) of
               (component', sz) \<Rightarrow> (component', sizes[root := sz]))
       (replicate count (-1), replicate count 0) [0..<count]"

definition best_component :: "nat list \<Rightarrow> nat \<times> nat" where
  "best_component sizes =
     foldl (\<lambda>(best_root, best_size) root. if sizes ! root > best_size then (root, sizes ! root) else (best_root, best_size))
       (G_MAXUINT32, 0) [0..<length sizes]"

definition rebuild_matcher_group :: "enrollment \<Rightarrow> enrollment" where
  "rebuild_matcher_group self =
     (let count = length (subtemplates self);
          cleared = self\<lparr> matcher_value_c := 0, has_group_anchor := False,
            subtemplates := map (\<lambda>s. s\<lparr> group_state := 0 \<rparr>) (subtemplates self) \<rparr>
      in case matcher_components (group_edge self) count of (component, sizes) \<Rightarrow>
        case best_component sizes of (best_root, best_size) \<Rightarrow>
          if best_size \<le> 1 then cleared
          else cleared\<lparr> matcher_value_c := 1, group_anchor := best_root, has_group_anchor := True,
            subtemplates := map (\<lambda>(c, s). if c = int best_root then s\<lparr> group_state := 1 \<rparr> else s)
              (zip component (subtemplates cleared)) \<rparr>)"

section \<open>Adaptive study\<close>

definition view_is_valid :: "enrollment \<Rightarrow> subtemplate_view \<Rightarrow> bool" where
  "view_is_valid self probe \<longleftrightarrow>
     v_metric probe \<noteq> None \<and> \<not> (v_record_count probe \<noteq> 0 \<and> v_records probe = None) \<and>
     v_record_count probe \<le> record_limit self \<and> v_active_count probe \<le> v_record_count probe"

definition view_records :: "subtemplate_view \<Rightarrow> feature_record list" where
  "view_records probe = (case v_records probe of None \<Rightarrow> [] | Some rs \<Rightarrow> take (v_record_count probe) rs)"

definition goodix_chicago_enrollment_append_study ::
    "enrollment \<Rightarrow> subtemplate_view \<Rightarrow> nat \<Rightarrow> relation list option \<Rightarrow> (enrollment \<times> nat) result" where
  "goodix_chicago_enrollment_append_study self probe selected_index rels_opt =
     (let old_count = length (subtemplates self) in
      if old_count = 0 \<or> old_count \<ge> capacity self \<or> selected_index \<ge> old_count
      then Inl G_IO_ERROR_NOT_SUPPORTED
      else if rels_opt = None \<or> length (the rels_opt) \<noteq> old_count \<or> \<not> view_is_valid self probe
      then Inl G_IO_ERROR_INVALID_ARGUMENT
      else
        let source0 = subtemplates self ! selected_index;
            source = source0\<lparr> study_value_a := u32_inc (study_value_a source0) \<rparr>;
            appended = \<lparr> record_count = v_record_count probe, active_count = v_active_count probe,
              quality = v_quality probe, coverage = v_coverage probe, records = view_records probe,
              sub_metric = v_metric probe, group_state = group_state source,
              relation_base = length (relations self), study_state = 1, study_flags = 0,
              lineage_index = old_count, replacement_count = 0,
              study_value_a = study_value_a source, study_value_b = study_value_b source \<rparr>;
            self' = self\<lparr> subtemplates := (subtemplates self)[selected_index := source] @ [appended],
              relations := relations self @ the rels_opt,
              transform_count := length (relations self @ the rels_opt),
              match_order := (match_order self)[old_count := old_count] \<rparr>
        in Inr (rebuild_matcher_group self', old_count))"

text \<open>
  The stores of the replacement into the relation table. The code does not test the pointer it
  stores through; \<open>None\<close> stands for that null dereference.
\<close>

fun replace_relations :: "enrollment \<Rightarrow> nat \<Rightarrow> relation list \<Rightarrow> nat list \<Rightarrow> enrollment option" where
  "replace_relations self replacement rels [] = Some self"
| "replace_relations self replacement rels (k # ks) =
     (if k = replacement then replace_relations self replacement rels ks
      else
        let r = rels ! k;
            (slot, stored) =
              (if k < replacement then (relation_index_between self replacement k, r)
               else (relation_index_between self k replacement,
                     r\<lparr> rel_transform := invert_group_transform (rel_transform r) \<rparr>))
        in case slot of
             None \<Rightarrow> None
           | Some j \<Rightarrow> replace_relations (self\<lparr> relations := (relations self)[j := stored] \<rparr>) replacement rels ks)"

definition goodix_chicago_enrollment_replace_study ::
    "enrollment \<Rightarrow> subtemplate_view \<Rightarrow> nat \<Rightarrow> nat \<Rightarrow> relation list option \<Rightarrow> enrollment option result" where
  "goodix_chicago_enrollment_replace_study self probe selected_index replacement_index rels_opt =
     (let count = length (subtemplates self) in
      if count \<noteq> capacity self \<or> selected_index \<ge> count \<or> replacement_index \<ge> count \<or>
         rels_opt = None \<or> length (the rels_opt) \<noteq> count \<or> \<not> view_is_valid self probe
      then Inl G_IO_ERROR_INVALID_ARGUMENT
      else
        let subs1 = (subtemplates self)[selected_index :=
              (subtemplates self ! selected_index)
                \<lparr> study_value_a := u32_inc (study_value_a (subtemplates self ! selected_index)) \<rparr>];
            source = subs1 ! selected_index; old = subs1 ! replacement_index;
            replacement = old\<lparr> record_count := v_record_count probe, active_count := v_active_count probe,
              quality := v_quality probe, coverage := v_coverage probe, records := view_records probe,
              sub_metric := v_metric probe, study_state := 2,
              replacement_count := u32_inc (replacement_count old),
              study_value_a := study_value_a source, study_value_b := study_value_b source,
              lineage_index := count - 1 \<rparr>;
            subs2 = map (\<lambda>s. if lineage_index s > 0 then s\<lparr> lineage_index := lineage_index s - 1 \<rparr> else s) subs1;
            self1 = self\<lparr> subtemplates := subs2[replacement_index := replacement] \<rparr>
        in Inr (map_option (\<lambda>s. s\<lparr> matcher_value_b := u32_inc (matcher_value_b s) \<rparr>)
                 (replace_relations self1 replacement_index (the rels_opt) [0..<count])))"

section \<open>The search finds connected components\<close>

definition fresh_neighbours :: "(nat \<Rightarrow> nat \<Rightarrow> bool) \<Rightarrow> nat \<Rightarrow> int list \<Rightarrow> nat set" where
  "fresh_neighbours edge current component =
     {k. k < length component \<and> k \<noteq> current \<and> component ! k < 0 \<and> edge current k}"

lemma group_visits_effect:
  assumes "distinct ks" and "set ks \<subseteq> {0..<length component}"
    and "new = fresh_neighbours edge current component \<inter> set ks"
    and "foldl (group_visit edge root current) (component, sz, stack) ks = (component', sz', stack')"
  shows "component' = map (\<lambda>k. if k \<in> new then int root else component ! k) [0..<length component] \<and>
    sz' = sz + card new \<and> set stack' = set stack \<union> new"
  using assms
proof (induction ks arbitrary: component sz stack new)
  case Nil
  then show ?case by (simp add: map_nth)
next
  case (Cons k ks)
  note k = Cons.prems(1,2)
  show ?case
  proof (cases "k \<in> fresh_neighbours edge current component")
    case False
    then have "group_visit edge root current (component, sz, stack) k = (component, sz, stack)"
      using k by (auto simp: group_visit_def fresh_neighbours_def)
    moreover have "new = fresh_neighbours edge current component \<inter> set ks" using False Cons.prems(3) by auto
    ultimately show ?thesis using Cons.IH [of component new sz stack] Cons.prems by simp
  next
    case True
    let ?marked = "component[k := int root]"
    have visit: "group_visit edge root current (component, sz, stack) k = (?marked, sz + 1, k # stack)"
      using True by (auto simp: group_visit_def fresh_neighbours_def)
    let ?rest = "fresh_neighbours edge current ?marked \<inter> set ks"
    have rest: "?rest = new - {k}"
      using True k Cons.prems(3) by (auto simp: fresh_neighbours_def nth_list_update)
    have fin: "finite new" "k \<in> new" using True Cons.prems(3) by auto
    have IH: "component' = map (\<lambda>j. if j \<in> new - {k} then int root else ?marked ! j) [0..<length ?marked] \<and>
      sz' = sz + 1 + card (new - {k}) \<and> set stack' = set (k # stack) \<union> (new - {k})"
      by (rule Cons.IH) (use k Cons.prems(4) visit rest in auto)
    have "k < length component" using k by simp
    then have "map (\<lambda>j. if j \<in> new - {k} then int root else ?marked ! j) [0..<length ?marked] =
      map (\<lambda>j. if j \<in> new then int root else component ! j) [0..<length component]"
      using fin(2) by (auto simp: nth_list_update)
    moreover have "sz + 1 + card (new - {k}) = sz + card new"
      using card_Suc_Diff1 [OF fin] by simp
    moreover have "set (k # stack) \<union> (new - {k}) = set stack \<union> new" using fin(2) by auto
    ultimately show ?thesis using IH by simp
  qed
qed

lemma group_expand_effect:
  assumes "group_expand edge root current (component, sz, stack) = (component', sz', stack')"
    and "new = fresh_neighbours edge current component"
  shows "component' = map (\<lambda>k. if k \<in> new then int root else component ! k) [0..<length component]"
    and "sz' = sz + card new" and "set stack' = set stack \<union> new"
proof -
  have "new = fresh_neighbours edge current component \<inter> set (rev [0..<length component])"
    using assms(2) by (auto simp: fresh_neighbours_def)
  from group_visits_effect [OF _ _ this, of root sz stack component' sz' stack'] assms(1)
  show "component' = map (\<lambda>k. if k \<in> new then int root else component ! k) [0..<length component]"
    and "sz' = sz + card new" and "set stack' = set stack \<union> new"
    by (simp_all add: group_expand_def)
qed

text \<open>
  The search from \<open>root\<close>, started with the subtemplates of earlier components \<open>old\<close>: every mark it
  adds is \<open>root\<close> on a subtemplate reachable from \<open>root\<close>, and every marked subtemplate that
  is not on the stack has all its neighbours marked.
\<close>

definition joined :: "(nat \<Rightarrow> nat \<Rightarrow> bool) \<Rightarrow> nat \<Rightarrow> (nat \<times> nat) set" where
  "joined edge n = {(i, j). i < n \<and> j < n \<and> edge i j}"

definition search_inv ::
    "(nat \<Rightarrow> nat \<Rightarrow> bool) \<Rightarrow> nat \<Rightarrow> int list \<Rightarrow> int list \<times> nat \<times> nat list \<Rightarrow> bool" where
  "search_inv edge root old st \<longleftrightarrow> (case st of (component, sz, stack) \<Rightarrow>
     let n = length old; added = {k. k < n \<and> old ! k < 0 \<and> component ! k \<ge> 0} in
     length component = n \<and> root \<in> added \<and> set stack \<subseteq> added \<and>
     (\<forall>k < n. k \<notin> added \<longrightarrow> component ! k = old ! k) \<and>
     (\<forall>k \<in> added. component ! k = int root \<and> (root, k) \<in> (joined edge n)\<^sup>*) \<and>
     (\<forall>k \<in> added. k \<notin> set stack \<longrightarrow> (\<forall>j < n. edge k j \<longrightarrow> j \<noteq> k \<longrightarrow> component ! j \<ge> 0)) \<and>
     sz = card added)"

lemma search_invD:
  assumes "search_inv edge root old (component, sz, stack)" and "n = length old"
    and "added = {k. k < n \<and> old ! k < 0 \<and> component ! k \<ge> 0}"
  shows "length component = n" "root \<in> added" "set stack \<subseteq> added"
    "\<And>k. k < n \<Longrightarrow> k \<notin> added \<Longrightarrow> component ! k = old ! k"
    "\<And>k. k \<in> added \<Longrightarrow> component ! k = int root" "\<And>k. k \<in> added \<Longrightarrow> (root, k) \<in> (joined edge n)\<^sup>*"
    "\<And>k j. k \<in> added \<Longrightarrow> k \<notin> set stack \<Longrightarrow> j < n \<Longrightarrow> edge k j \<Longrightarrow> j \<noteq> k \<Longrightarrow> component ! j \<ge> 0"
    "sz = card added"
  using assms(1) unfolding search_inv_def Let_def prod.case assms(2,3) by blast+

lemma search_inv_expand:
  assumes inv: "search_inv edge root old (component, sz, current # stack)"
    and expand: "group_expand edge root current (component, sz, stack) = (component', sz', stack')"
  shows "search_inv edge root old (component', sz', stack')"
proof -
  let ?n = "length old"
  let ?added = "{k. k < ?n \<and> old ! k < 0 \<and> component ! k \<ge> 0}"
  let ?added' = "{k. k < ?n \<and> old ! k < 0 \<and> component' ! k \<ge> 0}"
  define new where "new = fresh_neighbours edge current component"
  note inv = search_invD [OF inv refl refl]
  note len = inv(1) and root = inv(2) and stack = inv(3) and same = inv(4) and closed = inv(7) and sz = inv(8)
  have marked: "\<And>k. k \<in> ?added \<Longrightarrow> component ! k = int root \<and> (root, k) \<in> (joined edge ?n)\<^sup>*"
    using inv(5,6) by blast
  note e = group_expand_effect [OF expand new_def]
  have comp': "component' ! k = (if k \<in> new then int root else component ! k)" if "k < ?n" for k
    unfolding e(1) using that len by simp
  have new: "k < ?n" "component ! k < 0" "edge current k" "old ! k < 0" if "k \<in> new" for k
    using that same [of k] len by (auto simp: new_def fresh_neighbours_def)
  have added': "?added' = ?added \<union> new" using new comp' by auto
  have disjoint: "?added \<inter> new = {}" using new by force
  have fin: "finite new" using new(1) by (rule_tac finite_subset [of _ "{..<?n}"]) auto
  have "current \<in> ?added" using stack by simp
  then have current: "current < ?n" "(root, current) \<in> (joined edge ?n)\<^sup>*" using marked [of current] by simp_all
  have "length component' = ?n" unfolding e(1) using len by simp
  moreover have "root \<in> ?added'" using root added' by simp
  moreover have "set stack' \<subseteq> ?added'" using e(3) stack added' by auto
  moreover have "\<forall>k < ?n. k \<notin> ?added' \<longrightarrow> component' ! k = old ! k"
    using comp' same unfolding added' by simp
  moreover have "component' ! k = int root \<and> (root, k) \<in> (joined edge ?n)\<^sup>*" if "k \<in> ?added'" for k
  proof (cases "k \<in> new")
    case True
    then have "(current, k) \<in> joined edge ?n" using new current(1) by (simp add: joined_def)
    then show ?thesis using True comp' new(1) current(2) by (simp add: rtrancl.rtrancl_into_rtrancl)
  next
    case False
    then have "k \<in> ?added" using that unfolding added' by blast
    then show ?thesis using False marked [of k] comp' [of k] by simp
  qed
  moreover have "component' ! j \<ge> 0"
    if "k \<in> ?added'" "k \<notin> set stack'" "j < ?n" "edge k j" "j \<noteq> k" for k j
  proof (cases "k = current")
    case True
    then show ?thesis using that comp' [of j] len by (auto simp: new_def fresh_neighbours_def)
  next
    case False
    then have "component ! j \<ge> 0" using closed [of k j] that e(3) unfolding added' by auto
    then show ?thesis using comp' that(3) by simp
  qed
  moreover have "sz' = card ?added'"
    unfolding e(2) added' sz using card_Un_disjoint [OF _ fin disjoint] by simp
  ultimately show ?thesis unfolding search_inv_def Let_def prod.case by blast
qed

lemma group_search_inv:
  assumes "search_inv edge root old st" and "group_search edge root st = (component, sz)"
  shows "search_inv edge root old (component, sz, [])"
  using assms
proof (induction edge root st rule: group_search.induct)
  case (2 edge root component0 sz0 current stack)
  obtain component' sz' stack' where
    e: "group_expand edge root current (component0, sz0, stack) = (component', sz', stack')"
    by (cases "group_expand edge root current (component0, sz0, stack)") auto
  show ?case using 2 search_inv_expand [OF 2(2) e] e by simp
qed simp

text \<open>The connected component of a subtemplate.\<close>

definition connected :: "(nat \<Rightarrow> nat \<Rightarrow> bool) \<Rightarrow> nat \<Rightarrow> nat \<Rightarrow> nat set" where
  "connected edge n i = {j. j < n \<and> (i, j) \<in> (joined edge n)\<^sup>*}"

lemma connected_refl: "i < n \<Longrightarrow> i \<in> connected edge n i"
  by (simp add: connected_def)

lemma connected_finite [simp]: "finite (connected edge n i)"
  by (rule finite_subset [of _ "{..<n}"]) (auto simp: connected_def)

lemma connected_sym:
  assumes sym: "\<And>i j. edge i j = edge j i" and "j \<in> connected edge n i" and "i < n"
  shows "i \<in> connected edge n j"
proof -
  have "sym (joined edge n)" using sym by (auto simp: sym_def joined_def)
  then have "sym ((joined edge n)\<^sup>*)" by (rule sym_rtrancl)
  then show ?thesis using assms(2,3) by (auto simp: connected_def dest: symD)
qed

lemma connected_trans:
  "j \<in> connected edge n i \<Longrightarrow> k \<in> connected edge n j \<Longrightarrow> k \<in> connected edge n i"
  by (auto simp: connected_def)

lemma connected_eq:
  assumes "\<And>i j. edge i j = edge j i" and "j \<in> connected edge n i" and "i < n"
  shows "connected edge n j = connected edge n i"
  using assms connected_trans connected_sym [OF assms] by blast

definition components_inv :: "(nat \<Rightarrow> nat \<Rightarrow> bool) \<Rightarrow> nat \<Rightarrow> nat \<Rightarrow> int list \<times> nat list \<Rightarrow> bool" where
  "components_inv edge n k st \<longleftrightarrow> (case st of (component, sizes) \<Rightarrow>
     length component = n \<and> length sizes = n \<and>
     (\<forall>i < n. (component ! i \<ge> 0) = (\<exists>r < k. i \<in> connected edge n r)) \<and>
     (\<forall>i < n. component ! i \<ge> 0 \<longrightarrow> component ! i = int (Min (connected edge n i))) \<and>
     (\<forall>r < n. sizes ! r = (if r < k \<and> r = Min (connected edge n r) then card (connected edge n r) else 0)))"

lemma search_closed:
  assumes sym: "\<And>i j. edge i j = edge j i" and inv: "components_inv edge n k (old, sizes)"
    and k: "k < n" "old ! k < 0"
    and final: "search_inv edge k old (component, sz, [])"
  shows "{i. i < n \<and> old ! i < 0 \<and> component ! i \<ge> 0} = connected edge n k"
proof -
  let ?added = "{i. i < n \<and> old ! i < 0 \<and> component ! i \<ge> 0}"
  have len: "length old = n" using inv by (simp add: components_inv_def)
  have old: "(old ! i \<ge> 0) = (\<exists>r < k. i \<in> connected edge n r)" if "i < n" for i
    using inv that by (simp add: components_inv_def)
  note f = search_invD [OF final len [symmetric] refl]
  note root = f(2) and marked = f(6)
  have closed: "component ! j \<ge> 0" if "i \<in> ?added" "j < n" "edge i j" "j \<noteq> i" for i j
    by (rule f(7) [OF that(1) _ that(2-4)]) simp
  have step: "j \<in> ?added" if "i \<in> ?added" "(i, j) \<in> joined edge n" for i j
  proof (cases "j = i")
    case False
    have j: "j < n" "component ! j \<ge> 0" using closed [of i j] that False by (auto simp: joined_def)
    have "old ! j < 0"
    proof (rule ccontr)
      assume "\<not> old ! j < 0"
      then have "\<exists>r < k. j \<in> connected edge n r" using old [OF j(1)] by simp
      then obtain r where r: "r < k" "j \<in> connected edge n r" by blast
      have "i \<in> connected edge n j"
        using that(2) sym by (auto simp: connected_def joined_def)
      then have "i \<in> connected edge n r" by (rule connected_trans [OF r(2)])
      then show False using old [of i] that(1) r(1) by auto
    qed
    then show ?thesis using j by simp
  qed (use that in simp)
  have "j \<in> ?added" if "(k, j) \<in> (joined edge n)\<^sup>*" for j
    using that
  proof (induction rule: rtrancl_induct)
    case base
    show ?case by (rule root)
  next
    case (step i j)
    show ?case by (rule \<open>\<And>j i. i \<in> ?added \<Longrightarrow> (i, j) \<in> joined edge n \<Longrightarrow> j \<in> ?added\<close> [OF step.IH step.hyps(2)])
  qed
  note reached = this
  show ?thesis
  proof (rule set_eqI, rule iffI)
    show "i \<in> connected edge n k" if "i \<in> ?added" for i
      using marked [OF that] that by (simp add: connected_def)
    show "i \<in> ?added" if "i \<in> connected edge n k" for i
      by (rule reached) (use that in \<open>simp add: connected_def\<close>)
  qed
qed

lemma components_step:
  assumes sym: "\<And>i j. edge i j = edge j i" and inv: "components_inv edge n k (old, sizes)" and k: "k < n"
  shows "components_inv edge n (Suc k)
    (if old ! k \<ge> 0 then (old, sizes)
     else case group_search edge k (old[k := int k], 1, [k]) of (component', sz) \<Rightarrow> (component', sizes[k := sz]))"
proof -
  have len: "length old = n" "length sizes = n" using inv by (simp_all add: components_inv_def)
  have seen: "(old ! i \<ge> 0) = (\<exists>r < k. i \<in> connected edge n r)"
    and named: "old ! i \<ge> 0 \<Longrightarrow> old ! i = int (Min (connected edge n i))" if "i < n" for i
    using inv that by (simp_all add: components_inv_def)
  have sized: "sizes ! r = (if r < k \<and> r = Min (connected edge n r) then card (connected edge n r) else 0)" if "r < n" for r
    using inv that by (simp add: components_inv_def)
  show ?thesis
  proof (cases "old ! k \<ge> 0")
    case True
    then obtain r where r: "r < k" "k \<in> connected edge n r" using seen k by auto
    have "connected edge n k = connected edge n r" by (rule connected_eq [OF sym r(2)]) (use r k in simp)
    note ck = this
    moreover have "r \<in> connected edge n r" using r k by (intro connected_refl) simp
    ultimately have "r \<in> connected edge n k" by simp
    then have "Min (connected edge n k) \<le> r" by (intro Min_le connected_finite)
    then have "k \<noteq> Min (connected edge n k)" using r(1) by linarith
    moreover have "(\<exists>s < Suc k. i \<in> connected edge n s) = (\<exists>s < k. i \<in> connected edge n s)" for i
      unfolding less_Suc_eq using r(1) ck by blast
    ultimately show ?thesis
      using True len seen named sized unfolding components_inv_def by (simp add: less_Suc_eq)
  next
    case False
    obtain component sz where search: "group_search edge k (old[k := int k], 1, [k]) = (component, sz)"
      by (cases "group_search edge k (old[k := int k], 1, [k])")
    have one: "{i. i < n \<and> old ! i < 0 \<and> old[k := int k] ! i \<ge> 0} = {k}"
      using False k len by (auto simp: nth_list_update)
    have "search_inv edge k old (old[k := int k], 1, [k])"
      unfolding search_inv_def Let_def prod.case len one using len k by (auto simp: nth_list_update)
    then have final: "search_inv edge k old (component, sz, [])" using search by (rule group_search_inv)
    have added: "{i. i < n \<and> old ! i < 0 \<and> component ! i \<ge> 0} = connected edge n k"
      using search_closed [OF sym inv k _ final] False by simp
    note f = search_invD [OF final len(1) [symmetric] added [symmetric]]
    have least: "Min (connected edge n k) = k"
    proof (rule Min_eqI)
      show "k \<le> m" if "m \<in> connected edge n k" for m
      proof (rule ccontr)
        assume "\<not> k \<le> m"
        then have "k \<in> connected edge n m" "m < k" using connected_sym [OF sym that k] by simp_all
        then show False using seen [OF k] False by auto
      qed
    qed (use connected_refl [OF k] in simp_all)
    have comp: "component ! i = (if i \<in> connected edge n k then int k else old ! i)" if "i < n" for i
      using f(4,5) that by auto
    have same: "connected edge n i = connected edge n k" if "i \<in> connected edge n k" for i
      by (rule connected_eq [OF sym that k])
    have "(component ! i \<ge> 0) = (\<exists>r < Suc k. i \<in> connected edge n r)" if "i < n" for i
      using comp [OF that] seen [OF that] by (auto simp: less_Suc_eq)
    moreover have "component ! i = int (Min (connected edge n i))" if "i < n" "component ! i \<ge> 0" for i
      using comp [OF that(1)] named [OF that(1)] that(2) same [of i] least by (auto split: if_splits)
    moreover have "sizes[k := sz] ! r = (if r < Suc k \<and> r = Min (connected edge n r) then card (connected edge n r) else 0)"
      if "r < n" for r
      using sized [OF that] len that f(8) least by (cases "r = k") (simp_all add: less_Suc_eq)
    moreover have "length component = n" by (rule f(1))
    ultimately show ?thesis using False search len by (simp add: components_inv_def)
  qed
qed

lemma matcher_components_correct:
  assumes sym: "\<And>i j. edge i j = edge j i"
  shows "components_inv edge n n (matcher_components edge n)"
proof -
  let ?step = "\<lambda>(component, sizes) root.
        if component ! root \<ge> 0 then (component, sizes)
        else case group_search edge root (component[root := int root], 1, [root]) of
               (component', sz) \<Rightarrow> (component', sizes[root := sz])"
  have "components_inv edge n k (foldl ?step (replicate n (-1), replicate n 0) [0..<k])" if "k \<le> n" for k
    using that
  proof (induction k)
    case 0
    then show ?case by (simp add: components_inv_def)
  next
    case (Suc k)
    let ?st = "foldl ?step (replicate n (-1), replicate n 0) [0..<k]"
    obtain old sizes where st: "?st = (old, sizes)" by (cases ?st)
    have "components_inv edge n k (old, sizes)" using Suc st by simp
    then show ?case using components_step [OF sym] Suc.prems by (simp add: st)
  qed
  from this [of n] show ?thesis by (simp add: matcher_components_def)
qed

lemma best_component_correct:
  assumes "best_component sizes = (best_root, best_size)"
  shows "\<And>r. r < length sizes \<Longrightarrow> sizes ! r \<le> best_size"
    and "0 < best_size \<Longrightarrow> best_root < length sizes \<and> sizes ! best_root = best_size"
proof -
  let ?step = "\<lambda>(best_root, best_size) root. if sizes ! root > best_size then (root, sizes ! root) else (best_root, best_size)"
  have "case foldl ?step (G_MAXUINT32, 0) [0..<k] of (r, s) \<Rightarrow>
      (\<forall>j < k. sizes ! j \<le> s) \<and> (0 < s \<longrightarrow> r < k \<and> sizes ! r = s)" for k
    by (induction k) (auto simp: less_Suc_eq split: prod.splits if_splits intro: le_trans less_imp_le)
  from this [of "length sizes"] assms
  show "\<And>r. r < length sizes \<Longrightarrow> sizes ! r \<le> best_size"
    and "0 < best_size \<Longrightarrow> best_root < length sizes \<and> sizes ! best_root = best_size"
    by (simp_all add: best_component_def)
qed

lemma group_edge_sym: "group_edge self i j = group_edge self j i"
  by (cases i j rule: linorder_cases) (simp_all add: group_edge_def)

definition matcher_group :: "enrollment \<Rightarrow> nat set" where
  "matcher_group self = {i. i < length (subtemplates self) \<and> group_state (subtemplates self ! i) = 1}"

lemma rebuild_fields:
  "length (subtemplates (rebuild_matcher_group self)) = length (subtemplates self)"
  "map (\<lambda>s. s\<lparr> group_state := 0 \<rparr>) (subtemplates (rebuild_matcher_group self)) =
     map (\<lambda>s. s\<lparr> group_state := 0 \<rparr>) (subtemplates self)"
  "capacity (rebuild_matcher_group self) = capacity self" "record_limit (rebuild_matcher_group self) = record_limit self"
  "required_samples (rebuild_matcher_group self) = required_samples self"
  "relations (rebuild_matcher_group self) = relations self" "group_edges (rebuild_matcher_group self) = group_edges self"
  "transform_count (rebuild_matcher_group self) = transform_count self"
  "match_order (rebuild_matcher_group self) = match_order self"
proof -
  let ?n = "length (subtemplates self)"
  obtain component sizes where c: "matcher_components (group_edge self) ?n = (component, sizes)"
    by (cases "matcher_components (group_edge self) ?n")
  obtain best_root best_size where b: "best_component sizes = (best_root, best_size)"
    by (cases "best_component sizes")
  have len: "length component = ?n"
    using matcher_components_correct [of "group_edge self" ?n] group_edge_sym [of self]
    by (simp add: c components_inv_def)
  note r = rebuild_matcher_group_def [of self, unfolded Let_def c prod.case b]
  have zipped: "map (\<lambda>s. s\<lparr> group_state := 0 \<rparr>) (map (\<lambda>(c, s). if P c then s\<lparr> group_state := 1 \<rparr> else s) (zip component ss)) =
      map (\<lambda>s. s\<lparr> group_state := 0 \<rparr>) ss" if "length component = length ss" for P ss
    using that by (intro nth_equalityI) auto
  show "length (subtemplates (rebuild_matcher_group self)) = length (subtemplates self)"
    using len by (simp add: r)
  show "map (\<lambda>s. s\<lparr> group_state := 0 \<rparr>) (subtemplates (rebuild_matcher_group self)) =
     map (\<lambda>s. s\<lparr> group_state := 0 \<rparr>) (subtemplates self)"
    using len zipped [of "map (\<lambda>s. s\<lparr> group_state := 0 \<rparr>) (subtemplates self)" "\<lambda>c. c = int best_root"]
    by (simp add: r comp_def)
  show "capacity (rebuild_matcher_group self) = capacity self" "record_limit (rebuild_matcher_group self) = record_limit self"
    "required_samples (rebuild_matcher_group self) = required_samples self"
    "relations (rebuild_matcher_group self) = relations self" "group_edges (rebuild_matcher_group self) = group_edges self"
    "transform_count (rebuild_matcher_group self) = transform_count self"
    "match_order (rebuild_matcher_group self) = match_order self"
    by (simp_all add: r)
qed

lemma rebuild_members:
  fixes self
  defines "n \<equiv> length (subtemplates self)" and "cls \<equiv> connected (group_edge self) (length (subtemplates self))"
    and "new \<equiv> rebuild_matcher_group self"
  shows "has_group_anchor new \<Longrightarrow>
      group_anchor new < n \<and> matcher_group new = cls (group_anchor new) \<and> group_anchor new = Min (matcher_group new) \<and>
      2 \<le> card (matcher_group new) \<and> (\<forall>i < n. card (cls i) \<le> card (matcher_group new))"
    and "\<not> has_group_anchor new \<Longrightarrow> matcher_group new = {} \<and> (\<forall>i < n. card (cls i) = 1)"
proof -
  obtain component sizes where c: "matcher_components (group_edge self) n = (component, sizes)"
    by (cases "matcher_components (group_edge self) n")
  obtain best_root best_size where b: "best_component sizes = (best_root, best_size)"
    by (cases "best_component sizes")
  have "components_inv (group_edge self) n n (component, sizes)"
    using matcher_components_correct [of "group_edge self" n] group_edge_sym [of self] by (simp add: c)
  then have inv: "length component = n" "length sizes = n"
    "\<And>i. i < n \<Longrightarrow> (component ! i \<ge> 0) = (\<exists>r < n. i \<in> cls r)"
    "\<And>i. i < n \<Longrightarrow> component ! i \<ge> 0 \<Longrightarrow> component ! i = int (Min (cls i))"
    "\<And>r. r < n \<Longrightarrow> sizes ! r = (if r < n \<and> r = Min (cls r) then card (cls r) else 0)"
    by (simp_all add: components_inv_def cls_def n_def)
  have self_in: "i \<in> cls i" if "i < n" for i using that by (simp add: cls_def n_def connected_refl)
  have fin: "finite (cls i)" for i by (simp add: cls_def)
  have same: "cls j = cls i" if "j \<in> cls i" "i < n" for i j
    using connected_eq [OF group_edge_sym [of self]] that by (simp add: cls_def n_def)
  have below: "j < n" if "j \<in> cls i" for i j using that by (simp add: cls_def n_def connected_def)
  have named: "component ! i = int (Min (cls i))" if "i < n" for i
    using inv(3,4) that self_in by blast
  have card_le: "card (cls i) \<le> best_size" if "i < n" for i
  proof -
    have "Min (cls i) \<in> cls i" using self_in [OF that] fin by (intro Min_in) auto
    then have m: "cls (Min (cls i)) = cls i" "Min (cls i) < n" using same that below by blast+
    then have "sizes ! Min (cls i) = card (cls i)" using inv(5) [OF m(2)] by simp
    then show ?thesis using best_component_correct(1) [OF b, of "Min (cls i)"] m(2) inv(2) by simp
  qed
  note r = rebuild_matcher_group_def [of self, folded n_def new_def, unfolded Let_def c prod.case b]
  have len: "length (subtemplates self) = n" by (simp add: n_def)
  show "group_anchor new < n \<and> matcher_group new = cls (group_anchor new) \<and> group_anchor new = Min (matcher_group new) \<and>
      2 \<le> card (matcher_group new) \<and> (\<forall>i < n. card (cls i) \<le> card (matcher_group new))" if "has_group_anchor new"
  proof -
    have big: "\<not> best_size \<le> 1" using that by (auto simp: r)
    have root: "best_root < n" "sizes ! best_root = best_size"
      using best_component_correct(2) [OF b] big inv(2) by simp_all
    then have least: "best_root = Min (cls best_root)" "card (cls best_root) = best_size"
      using inv(5) [OF root(1)] big by (auto split: if_splits)
    have anchor: "group_anchor new = best_root" using big by (simp add: r)
    have "(group_state (subtemplates new ! i) = 1) = (i \<in> cls best_root)" if i: "i < n" for i
    proof -
      have "(group_state (subtemplates new ! i) = 1) = (Min (cls i) = best_root)"
        using big i inv(1) len named [OF i] by (simp add: r)
      also have "\<dots> = (i \<in> cls best_root)"
      proof
        assume "Min (cls i) = best_root"
        then have "best_root \<in> cls i" using Min_in [OF fin, of i] self_in [OF i] by auto
        then show "i \<in> cls best_root" using same [of best_root i] i self_in by simp
      next
        assume "i \<in> cls best_root"
        then show "Min (cls i) = best_root" using same [of i best_root] root(1) least(1) by simp
      qed
      finally show ?thesis .
    qed
    moreover have "length (subtemplates new) = n" unfolding new_def using rebuild_fields(1) [of self] len by simp
    ultimately have members: "matcher_group new = cls best_root"
      using below by (auto simp: matcher_group_def)
    show ?thesis unfolding anchor members using root(1) least big card_le by auto
  qed
  show "matcher_group new = {} \<and> (\<forall>i < n. card (cls i) = 1)" if "\<not> has_group_anchor new"
  proof -
    have small: "best_size \<le> 1" using that by (auto simp: r split: if_splits)
    have "card (cls i) = 1" if "i < n" for i
    proof -
      have "0 < card (cls i)" using self_in [OF that] fin by (auto simp: card_gt_0_iff)
      then show ?thesis using card_le [OF that] small by simp
    qed
    moreover have "matcher_group new = {}" using small by (simp add: matcher_group_def r)
    ultimately show ?thesis by blast
  qed
qed

text \<open>C5: Rebuilding the matcher group marks exactly one largest connected component of the graph of
  relations with more than two inliers, anchored at its first subtemplate; when no two subtemplates
  are related no group is left.\<close>

theorem matcher_group_is_largest_component:
  "if has_group_anchor (rebuild_matcher_group self)
   then matcher_group (rebuild_matcher_group self) =
          connected (group_edge self) (length (subtemplates self)) (group_anchor (rebuild_matcher_group self)) \<and>
        group_anchor (rebuild_matcher_group self) = Min (matcher_group (rebuild_matcher_group self)) \<and>
        2 \<le> card (matcher_group (rebuild_matcher_group self)) \<and>
        card (matcher_group (rebuild_matcher_group self)) =
          Max (card ` connected (group_edge self) (length (subtemplates self)) ` {..<length (subtemplates self)})
   else matcher_group (rebuild_matcher_group self) = {} \<and>
        card ` connected (group_edge self) (length (subtemplates self)) ` {..<length (subtemplates self)} \<subseteq> {1}"
proof (cases "has_group_anchor (rebuild_matcher_group self)")
  case True
  note m = rebuild_members(1) [OF True]
  have "Max (card ` connected (group_edge self) (length (subtemplates self)) ` {..<length (subtemplates self)}) =
    card (matcher_group (rebuild_matcher_group self))"
  proof (rule Max_eqI)
    show "finite (card ` connected (group_edge self) (length (subtemplates self)) ` {..<length (subtemplates self)})"
      by simp
    show "c \<le> card (matcher_group (rebuild_matcher_group self))"
      if "c \<in> card ` connected (group_edge self) (length (subtemplates self)) ` {..<length (subtemplates self)}" for c
      using that m by blast
    show "card (matcher_group (rebuild_matcher_group self)) \<in>
      card ` connected (group_edge self) (length (subtemplates self)) ` {..<length (subtemplates self)}"
    proof -
      have "group_anchor (rebuild_matcher_group self) \<in> {..<length (subtemplates self)}" using m by blast
      then show ?thesis unfolding m [THEN conjunct2, THEN conjunct1] by (intro imageI)
    qed
  qed
  note largest = this [symmetric]
  show ?thesis unfolding if_P [OF True]
  proof (intro conjI)
    show "card (matcher_group (rebuild_matcher_group self)) =
      Max (card ` connected (group_edge self) (length (subtemplates self)) ` {..<length (subtemplates self)})"
      by (rule largest)
  qed (rule m [THEN conjunct2, THEN conjunct1] m [THEN conjunct2, THEN conjunct2, THEN conjunct1]
    m [THEN conjunct2, THEN conjunct2, THEN conjunct2, THEN conjunct1])+
next
  case False
  then show ?thesis using rebuild_members(2) [OF False] by auto
qed

section \<open>Every history keeps an enrollment well formed\<close>

lemma subtemplates_ok_ungrouped:
  assumes "map (\<lambda>s. s\<lparr> group_state := 0 \<rparr>) subs' = map (\<lambda>s. s\<lparr> group_state := 0 \<rparr>) subs"
  shows "map relation_base subs' = map relation_base subs"
    and "(\<And>s. s \<in> set subs \<Longrightarrow> subtemplate_ok self s) \<Longrightarrow> s' \<in> set subs' \<Longrightarrow> subtemplate_ok self s'"
proof -
  have "map relation_base (map (\<lambda>s. s\<lparr> group_state := 0 \<rparr>) subs') = map relation_base (map (\<lambda>s. s\<lparr> group_state := 0 \<rparr>) subs)"
    using assms by simp
  then show "map relation_base subs' = map relation_base subs" by (simp add: comp_def)
  show "subtemplate_ok self s'" if ok: "\<And>s. s \<in> set subs \<Longrightarrow> subtemplate_ok self s" and s': "s' \<in> set subs'"
  proof -
    have "s'\<lparr> group_state := 0 \<rparr> \<in> set (map (\<lambda>s. s\<lparr> group_state := 0 \<rparr>) subs)"
      using s' assms by (metis image_eqI list.set_map)
    then obtain s where "s \<in> set subs" "s'\<lparr> group_state := 0 \<rparr> = s\<lparr> group_state := 0 \<rparr>" by auto
    then show ?thesis using ok subtemplate_ok_ungrouped by blast
  qed
qed

lemma wf_rebuild:
  assumes wf: "enrollment_wf self" and "0 < length (subtemplates self)"
  shows "enrollment_wf (rebuild_matcher_group self)"
    and "anchor_below (length (subtemplates self) - 1) (rebuild_matcher_group self)"
proof -
  let ?new = "rebuild_matcher_group self"
  note f = rebuild_fields [of self]
  show "enrollment_wf ?new"
  proof (rule wf_same_shape [OF wf])
    show "map relation_base (subtemplates ?new) = map relation_base (subtemplates self)"
      by (rule subtemplates_ok_ungrouped(1) [OF f(2)])
    show "subtemplate_ok ?new s" if "s \<in> set (subtemplates ?new)" for s
      using subtemplates_ok_ungrouped(2) [OF f(2) enrollment_wfD(7) [OF wf] that] f(4) by (rule subtemplate_ok_limit)
  qed (simp_all add: f)
  show "anchor_below (length (subtemplates self) - 1) ?new"
  proof (cases "has_group_anchor ?new")
    case True
    let ?g = "matcher_group ?new"
    note m = rebuild_members(1) [OF True]
    have group: "?g \<subseteq> {..<length (subtemplates self)}" using f(1) by (auto simp: matcher_group_def)
    have "group_anchor ?new < length (subtemplates self) - 1"
    proof (rule ccontr)
      assume "\<not> group_anchor ?new < length (subtemplates self) - 1"
      then have last: "length (subtemplates self) - 1 \<le> Min ?g" using m by linarith
      have "finite ?g" using group by (rule finite_subset) simp
      then have "?g \<subseteq> {length (subtemplates self) - 1}"
        using group last by (force dest: Min_le)
      then have "card ?g \<le> 1" using card_mono [of "{length (subtemplates self) - 1}" ?g] by simp
      then show False using m by linarith
    qed
    then show ?thesis by (simp add: anchor_below_def)
  next
    case False
    then have "matcher_group ?new = {}" using rebuild_members(2) [OF False] by blast
    then show ?thesis by (auto simp: anchor_below_def matcher_group_def in_set_conv_nth)
  qed
qed

definition view_available :: "subtemplate_view \<Rightarrow> bool" where
  "view_available probe \<longleftrightarrow> records_available (v_records probe) (v_record_count probe)"

lemma length_view_records:
  assumes "view_is_valid self probe" and "view_available probe"
  shows "length (view_records probe) = v_record_count probe"
  using assms by (auto simp: view_is_valid_def view_available_def records_available_def view_records_def split: option.splits)

lemma wf_append_study:
  assumes wf: "enrollment_wf self" and probe: "view_available probe"
    and append: "goodix_chicago_enrollment_append_study self probe selected rels = Inr (self', k)"
  shows "enrollment_wf self'" and "anchor_below (length (subtemplates self') - 1) self'"
    and "k = length (subtemplates self)" and "length (subtemplates self') = Suc (length (subtemplates self))"
proof -
  let ?n = "length (subtemplates self)"
  have room: "\<not> (?n = 0 \<or> ?n \<ge> capacity self \<or> selected \<ge> ?n)"
    by (rule notI) (use append in \<open>simp add: goodix_chicago_enrollment_append_study_def\<close>)
  have valid: "\<not> (rels = None \<or> length (the rels) \<noteq> ?n \<or> \<not> view_is_valid self probe)"
    by (rule notI) (use append room in \<open>simp add: goodix_chicago_enrollment_append_study_def\<close>)
  define source where "source = (subtemplates self ! selected)\<lparr> study_value_a := u32_inc (study_value_a (subtemplates self ! selected)) \<rparr>"
  define appended where "appended = \<lparr> record_count = v_record_count probe, active_count = v_active_count probe,
              quality = v_quality probe, coverage = v_coverage probe, records = view_records probe,
              sub_metric = v_metric probe, group_state = group_state source,
              relation_base = length (relations self), study_state = 1, study_flags = 0,
              lineage_index = ?n, replacement_count = 0,
              study_value_a = study_value_a source, study_value_b = study_value_b source \<rparr>"
  define mid where "mid = self\<lparr> subtemplates := (subtemplates self)[selected := source] @ [appended],
              relations := relations self @ the rels,
              transform_count := length (relations self @ the rels),
              match_order := (match_order self)[?n := ?n] \<rparr>"
  have "goodix_chicago_enrollment_append_study self probe selected rels = Inr (rebuild_matcher_group mid, ?n)"
    unfolding goodix_chicago_enrollment_append_study_def Let_def if_not_P [OF room] if_not_P [OF valid]
      mid_def appended_def source_def ..
  then have self': "self' = rebuild_matcher_group mid" "k = ?n" using append by simp_all
  have source: "subtemplate_ok self source" "relation_base source = relation_base (subtemplates self ! selected)"
    using enrollment_wfD(7) [OF wf] nth_mem [of selected "subtemplates self"] room
    by (simp_all add: source_def subtemplate_ok_def)
  have "enrollment_wf mid"
  proof (rule wf_append [OF wf refl])
    show "subtemplates mid = (subtemplates self)[selected := source] @ [appended]" by (simp add: mid_def)
    show "map relation_base ((subtemplates self)[selected := source]) = map relation_base (subtemplates self)"
      using source(2) by (simp add: map_update) (metis list_update_id map_update)
    show "subtemplate_ok mid s" if "s \<in> set ((subtemplates self)[selected := source])" for s
    proof -
      have "s = source \<or> s \<in> set (subtemplates self)" using that set_update_subset_insert by fastforce
      then have "subtemplate_ok self s" using source(1) enrollment_wfD(7) [OF wf] by blast
      then show ?thesis by (rule subtemplate_ok_limit) (simp add: mid_def)
    qed
    show "subtemplate_ok mid appended"
      using valid length_view_records [OF _ probe, of self]
      by (simp add: subtemplate_ok_def appended_def mid_def view_is_valid_def)
    show "relation_base appended = length (relations self)" by (simp add: appended_def)
    show "set (group_edges mid) \<subseteq> {0..<length (relations mid)}"
      using enrollment_wfD(4,6) [OF wf] by (fastforce simp: mid_def)
    show "sorted (group_edges mid)" using enrollment_wfD(9) [OF wf] by (simp add: mid_def)
  qed (use room valid in \<open>simp_all add: mid_def\<close>)
  moreover have len: "length (subtemplates mid) = Suc ?n" by (simp add: mid_def)
  ultimately show "enrollment_wf self'" "anchor_below (length (subtemplates self') - 1) self'"
    "length (subtemplates self') = Suc ?n"
    unfolding self' rebuild_fields(1) using wf_rebuild [of mid] by simp_all
  show "k = ?n" by (rule self')
qed

lemma wf_relations_update:
  "enrollment_wf self \<Longrightarrow> enrollment_wf (self\<lparr> relations := (relations self)[j := r] \<rparr>)"
  by (rule wf_same_shape [where self = self])
    (auto dest: enrollment_wfD(4,6,7) intro: subtemplate_ok_limit)

lemma replace_relations_total:
  assumes "enrollment_wf self" and "set ks \<subseteq> {..<length (subtemplates self)}" and "replacement < length (subtemplates self)"
  shows "\<exists>self'. replace_relations self replacement rels ks = Some self' \<and> enrollment_wf self' \<and>
    subtemplates self' = subtemplates self \<and> group_anchor self' = group_anchor self"
  using assms
proof (induction ks arbitrary: self)
  case (Cons k ks)
  note slot = wf_relation_slot [OF Cons.prems(1)]
  show ?case
  proof (cases k replacement rule: linorder_cases)
    case less
    let ?next = "self\<lparr> relations := (relations self)[triangle replacement + k := rels ! k] \<rparr>"
    have "replace_relations self replacement rels (k # ks) = replace_relations ?next replacement rels ks"
      using less slot [OF Cons.prems(3) less] by (simp add: Let_def)
    then show ?thesis using Cons.IH [of ?next] wf_relations_update [OF Cons.prems(1)] Cons.prems by simp
  next
    case equal
    then show ?thesis using Cons by simp
  next
    case greater
    let ?next = "self\<lparr> relations := (relations self)[triangle k + replacement :=
      (rels ! k)\<lparr> rel_transform := invert_group_transform (rel_transform (rels ! k)) \<rparr>] \<rparr>"
    have "k < length (subtemplates self)" using Cons.prems(2) by simp
    then have "replace_relations self replacement rels (k # ks) = replace_relations ?next replacement rels ks"
      using greater slot [OF _ greater] by (simp add: Let_def)
    then show ?thesis using Cons.IH [of ?next] wf_relations_update [OF Cons.prems(1)] Cons.prems by simp
  qed
qed simp

lemma wf_replace_study:
  assumes wf: "enrollment_wf self" and probe: "view_available probe"
    and replace: "goodix_chicago_enrollment_replace_study self probe selected replacement rels = Inr out"
  shows "\<exists>self'. out = Some self' \<and> enrollment_wf self' \<and> length (subtemplates self') = length (subtemplates self) \<and>
    (anchor_below k self \<longrightarrow> anchor_below k self')"
proof -
  let ?n = "length (subtemplates self)"
  have valid: "\<not> (?n \<noteq> capacity self \<or> selected \<ge> ?n \<or> replacement \<ge> ?n \<or>
      rels = None \<or> length (the rels) \<noteq> ?n \<or> \<not> view_is_valid self probe)"
    by (rule notI) (use replace in \<open>simp add: goodix_chicago_enrollment_replace_study_def\<close>)
  define subs1 where "subs1 = (subtemplates self)[selected :=
      (subtemplates self ! selected)\<lparr> study_value_a := u32_inc (study_value_a (subtemplates self ! selected)) \<rparr>]"
  define subs2 where "subs2 = map (\<lambda>s. if lineage_index s > 0 then s\<lparr> lineage_index := lineage_index s - 1 \<rparr> else s) subs1"
  define new where "new = (subs1 ! replacement)\<lparr> record_count := v_record_count probe, active_count := v_active_count probe,
              quality := v_quality probe, coverage := v_coverage probe, records := view_records probe,
              sub_metric := v_metric probe, study_state := 2,
              replacement_count := u32_inc (replacement_count (subs1 ! replacement)),
              study_value_a := study_value_a (subs1 ! selected), study_value_b := study_value_b (subs1 ! selected),
              lineage_index := ?n - 1 \<rparr>"
  let ?self1 = "self\<lparr> subtemplates := subs2[replacement := new] \<rparr>"
  have out: "out = map_option (\<lambda>s. s\<lparr> matcher_value_b := u32_inc (matcher_value_b s) \<rparr>)
      (replace_relations ?self1 replacement (the rels) [0..<?n])"
    using replace unfolding goodix_chicago_enrollment_replace_study_def Let_def if_not_P [OF valid]
      sum.inject subs2_def subs1_def new_def by (rule sym)
  let ?key = "\<lambda>s. (relation_base s, group_state s)"
  have ok1: "subtemplate_ok self s" if "s \<in> set subs1" for s
  proof -
    let ?bumped = "(subtemplates self ! selected)\<lparr> study_value_a := u32_inc (study_value_a (subtemplates self ! selected)) \<rparr>"
    have "subtemplate_ok self (subtemplates self ! selected)"
      using enrollment_wfD(7) [OF wf nth_mem] valid by simp
    then have "subtemplate_ok self ?bumped" by (simp add: subtemplate_ok_def)
    moreover have "s = ?bumped \<or> s \<in> set (subtemplates self)"
      using that set_update_subset_insert unfolding subs1_def by fastforce
    ultimately show ?thesis using enrollment_wfD(7) [OF wf] by blast
  qed
  have ok2: "subtemplate_ok self s" if "s \<in> set subs2" for s
    using that ok1 by (auto simp: subs2_def subtemplate_ok_def)
  have oknew: "subtemplate_ok self new"
    using valid length_view_records [OF _ probe, of self] by (simp add: new_def subtemplate_ok_def view_is_valid_def)
  have key1: "map ?key subs1 = map ?key (subtemplates self)"
    unfolding subs1_def by (simp add: map_update) (metis (no_types) list_update_id map_update)
  have key2: "map ?key subs2 = map ?key subs1" by (simp add: subs2_def)
  have len1: "length subs1 = ?n" by (simp add: subs1_def)
  have len2: "length subs2 = ?n" by (simp add: subs2_def len1)
  have "?key new = ?key (subs1 ! replacement)" by (simp add: new_def)
  moreover have "?key (subs1 ! replacement) = map ?key subs1 ! replacement" using valid len1 by simp
  ultimately have "?key new = map ?key subs2 ! replacement" using key2 by simp
  then have key: "map ?key (subs2[replacement := new]) = map ?key (subtemplates self)"
    unfolding map_update key1 [symmetric] key2 [symmetric] by (simp only: list_update_id)
  have base: "map relation_base (subs2[replacement := new]) = map relation_base (subtemplates self)"
    using arg_cong [OF key, of "map fst"] by (simp add: comp_def)
  have state: "map group_state (subs2[replacement := new]) = map group_state (subtemplates self)"
    using arg_cong [OF key, of "map snd"] by (simp add: comp_def)
  have wf1: "enrollment_wf ?self1"
  proof (rule wf_same_shape [OF wf])
    show "map relation_base (subtemplates ?self1) = map relation_base (subtemplates self)" using base by simp
    show "subtemplate_ok ?self1 s" if "s \<in> set (subtemplates ?self1)" for s
    proof -
      have "s = new \<or> s \<in> set subs2" using that set_update_subset_insert [of subs2 replacement new] by auto
      then have "subtemplate_ok self s" using ok2 oknew by blast
      then show ?thesis by (rule subtemplate_ok_limit) simp
    qed
  qed simp_all
  obtain self2 where two: "replace_relations ?self1 replacement (the rels) [0..<?n] = Some self2"
    "enrollment_wf self2" "subtemplates self2 = subs2[replacement := new]" "group_anchor self2 = group_anchor self"
  proof -
    have "set [0..<?n] \<subseteq> {..<length (subtemplates ?self1)}" "replacement < length (subtemplates ?self1)"
      using valid len2 by auto
    from replace_relations_total [OF wf1 this, of "the rels"] show thesis using that by auto
  qed
  let ?final = "self2\<lparr> matcher_value_b := u32_inc (matcher_value_b self2) \<rparr>"
  have "enrollment_wf ?final"
  proof (rule wf_same_shape [OF two(2)])
    show "subtemplate_ok ?final s" if "s \<in> set (subtemplates ?final)" for s
      using that by (intro subtemplate_ok_limit [OF enrollment_wfD(7) [OF two(2)]]) simp_all
  qed simp_all
  moreover have "group_state ` set (subtemplates ?final) = group_state ` set (subtemplates self)"
    using arg_cong [OF state, of set] two(3) by simp
  then have "anchor_below k self \<longrightarrow> anchor_below k ?final"
    using two(4) by (auto simp: anchor_below_def) (metis imageE imageI)
  ultimately show ?thesis using out two(1,3) len2 by simp
qed

text \<open>
  The histories of an enrollment: samples are inserted, a rejected sample is dropped right after its
  insertion, and later probes are appended or replace a subtemplate. The flag says whether the last
  sample may still be dropped.
\<close>

inductive enrollment_history :: "enrollment \<Rightarrow> bool \<Rightarrow> bool" where
  history_new: "enrollment_history goodix_chicago_enrollment_new False"
| history_first: "enrollment_history self dropable \<Longrightarrow> records_available recs n_records \<Longrightarrow>
    goodix_chicago_enrollment_insert_first self recs n_records n_active qual cov metric = Inr (self', res) \<Longrightarrow>
    enrollment_history self' True"
| history_next: "enrollment_history self dropable \<Longrightarrow> records_available recs n_records \<Longrightarrow>
    goodix_chicago_enrollment_insert_next self recs n_records n_active qual cov metric = Inr (self', res) \<Longrightarrow>
    enrollment_history self' True"
| history_drop: "enrollment_history self True \<Longrightarrow> goodix_chicago_enrollment_drop_last self = Inr self' \<Longrightarrow>
    enrollment_history self' False"
| history_append: "enrollment_history self dropable \<Longrightarrow> view_available probe \<Longrightarrow>
    goodix_chicago_enrollment_append_study self probe selected rels = Inr (self', k) \<Longrightarrow>
    enrollment_history self' True"
| history_replace: "enrollment_history self dropable \<Longrightarrow> view_available probe \<Longrightarrow>
    goodix_chicago_enrollment_replace_study self probe selected replacement rels = Inr (Some self') \<Longrightarrow>
    enrollment_history self' dropable"

definition history_inv :: "enrollment \<Rightarrow> bool \<Rightarrow> bool" where
  "history_inv self dropable \<longleftrightarrow> enrollment_wf self \<and> 0 < capacity self \<and>
     anchor_below (length (subtemplates self) - (if dropable then 1 else 0)) self"

lemma insert_first_result:
  assumes "goodix_chicago_enrollment_insert_first self recs n_records n_active qual cov metric = Inr (self', res)"
  shows "subtemplates self = []" "capacity self' = capacity self" "map group_state (subtemplates self') = [0]"
    "res = insertion_result self' FIRST_POSITION_DETAIL"
  using assms by (auto simp: goodix_chicago_enrollment_insert_first_def Let_def split: if_splits)

lemma history_anchor: "history_inv self dropable \<Longrightarrow> anchor_below (length (subtemplates self)) self"
  unfolding history_inv_def by (auto elim: anchor_below_mono)

lemma insert_next_capacity:
  assumes "goodix_chicago_enrollment_insert_next self recs n_records n_active qual cov metric = Inr (self', res)"
  shows "0 < capacity self'"
proof (rule insert_next_steps [OF assms], goal_cases)
  case (1 metric' found has_group chosen grouped founder to_anchor)
  then show ?case
    using settle_group_fields [OF 1(12)] appended_by_append_sample by (auto simp: appended_by_def)
qed

lemma history_invariant: "enrollment_history self dropable \<Longrightarrow> history_inv self dropable"
proof (induction rule: enrollment_history.induct)
  case history_new
  then show ?case
    using wf_new by (simp add: history_inv_def anchor_below_def goodix_chicago_enrollment_new_def)
next
  case (history_first self dropable recs n_records n_active qual cov metric self' res)
  note inv = history_first.IH [unfolded history_inv_def]
  have "enrollment_wf self'"
    using wf_insert_first [OF _ history_first.hyps(2,3)] inv by simp
  moreover have "group_state s \<noteq> 1" if "s \<in> set (subtemplates self')" for s
  proof -
    have "group_state s \<in> set (map group_state (subtemplates self'))" using that by simp
    then show ?thesis unfolding insert_first_result(3) [OF history_first.hyps(3)] by simp
  qed
  ultimately show ?case
    using inv insert_first_result(2) [OF history_first.hyps(3)] by (simp add: history_inv_def anchor_below_def)
next
  case (history_next self dropable recs n_records n_active qual cov metric self' res)
  note inv = history_next.IH [unfolded history_inv_def]
  have "enrollment_wf self" using inv by blast
  from wf_insert_next [OF this history_anchor [OF history_next.IH] history_next.hyps(2,3)]
  show ?case using insert_next_capacity [OF history_next.hyps(3)] by (simp add: history_inv_def)
next
  case (history_drop self self')
  note inv = history_drop.IH [unfolded history_inv_def]
  have wf: "enrollment_wf self" using inv by blast
  note drop = wf_drop_last [OF wf history_drop.hyps(2)]
  obtain m where "length (subtemplates self) = Suc m" using drop_last_nonempty [OF history_drop.hyps(2)] by blast
  then have "capacity self' = capacity self" using drop_last_fields(6) [OF wf history_drop.hyps(2)] by blast
  then show ?case using inv drop by (simp add: history_inv_def)
next
  case (history_append self dropable probe selected rels self' k)
  note inv = history_append.IH [unfolded history_inv_def]
  have "enrollment_wf self" using inv by blast
  note append = wf_append_study [OF this history_append.hyps(2,3)]
  then have "0 < capacity self'" using enrollment_wfD(1) [OF append(1)] by simp
  then show ?case using append by (simp add: history_inv_def)
next
  case (history_replace self dropable probe selected replacement rels self')
  note inv = history_replace.IH [unfolded history_inv_def]
  have wf: "enrollment_wf self" using inv by blast
  let ?k = "length (subtemplates self) - (if dropable then 1 else 0)"
  have replaced: "enrollment_wf self'" "length (subtemplates self') = length (subtemplates self)" "anchor_below ?k self'"
    using wf_replace_study [OF wf history_replace.hyps(2,3), of ?k] inv by auto
  moreover have "0 < capacity self'"
  proof -
    have "0 < length (subtemplates self)"
      using history_replace.hyps(3) by (auto simp: goodix_chicago_enrollment_replace_study_def split: if_splits)
    then show ?thesis using enrollment_wfD(1) [OF replaced(1)] unfolding replaced(2) by (rule less_le_trans)
  qed
  ultimately show ?case by (simp add: history_inv_def)
qed

lemma one_sample_history: "enrollment_history one_sample True"
proof -
  obtain res where "goodix_chicago_enrollment_insert_first goodix_chicago_enrollment_new (Some []) 0 0 50 60 (Some blank_metric) =
     Inr (one_sample, res)" using one_sample_inserted by blast
  then show ?thesis by (rule history_first [OF history_new, rotated]) (simp add: records_available_def)
qed

lemma two_samples_history: "enrollment_history (fst two_samples) True"
proof -
  have "goodix_chicago_enrollment_insert_next one_sample (Some []) 0 0 50 60 (Some blank_metric) =
    Inr (fst two_samples, snd two_samples)" using two_samples_inserted by simp
  then show ?thesis by (rule history_next [OF one_sample_history, rotated]) (simp add: records_available_def)
qed

text \<open>C4: In every history of insertions, drops of the sample just inserted, adaptive-study appends and
  replacements, the enrollment stays well formed: at most the capacity of samples, sample \<open>k\<close> owning the
  next triangular slice of the relation table, group edges inside it, a match order that is a permutation
  of the samples followed by the empty marker, and an anchor that is an enrolled sample while a group
  exists.\<close>

theorem enrollment_history_wellformed:
  assumes "enrollment_history self dropable"
  shows "enrollment_wf self \<and>
    ((\<exists>s \<in> set (subtemplates self). group_state s = 1) \<longrightarrow> group_anchor self < length (subtemplates self))"
  using history_invariant [OF assms] history_anchor [OF history_invariant [OF assms]]
  by (simp add: history_inv_def anchor_below_def)

theorem enrollment_history_wellformed_witness:
  "enrollment_wf (fst two_samples)"
  using enrollment_history_wellformed [OF two_samples_history] by simp

text \<open>C11: In every such history a valid replacement finds all of its relation slots: the store through the
  unchecked pointer never meets a null pointer, the new state is well formed with the same number of
  samples.\<close>

theorem replace_study_never_null:
  assumes "enrollment_history self dropable" and "view_available probe"
    and "goodix_chicago_enrollment_replace_study self probe selected replacement rels = Inr out"
  shows "\<exists>self'. out = Some self' \<and> enrollment_wf self' \<and> length (subtemplates self') = length (subtemplates self)"
proof -
  have "enrollment_wf self" using history_invariant [OF assms(1)] by (simp add: history_inv_def)
  then show ?thesis using wf_replace_study [OF _ assms(2,3)] by blast
qed

text \<open>Histories of featureless samples, up to a full enrollment.\<close>

lemma insert_next_keeps:
  assumes "goodix_chicago_enrollment_insert_next self recs n_records n_active qual cov metric_opt = Inr (self', res)"
    and "\<forall>s \<in> set (subtemplates self). sub_metric s \<noteq> None"
  shows "capacity self' = capacity self" "record_limit self' = record_limit self"
    "\<forall>s \<in> set (subtemplates self'). sub_metric s \<noteq> None"
proof -
  obtain metric has_group grouped founder to_anchor sub rels candidate evidence where
    sub: "sub_metric sub = Some metric" and
    settled: "settle_group (append_sample self sub rels founder) (length (subtemplates self)) has_group grouped
      candidate evidence = (self', to_anchor)"
  proof (rule insert_next_steps [OF assms(1)], goal_cases)
    case (1 metric found has_group chosen grouped founder to_anchor)
    show ?case by (rule 1(1) [OF _ 1(13)]) (simp add: make_subtemplate_def)
  qed
  note f = settle_group_fields [OF settled]
  have app: "appended_by self sub rels (append_sample self sub rels founder)" by (rule appended_by_append_sample)
  obtain subs where subs: "subtemplates (append_sample self sub rels founder) = subs @ [sub]"
    "\<And>s. s \<in> set subs \<Longrightarrow> \<exists>s' \<in> set (subtemplates self). s\<lparr> group_state := 0 \<rparr> = s'\<lparr> group_state := 0 \<rparr>"
    using appended_by_subtemplates [OF app] by metis
  show "capacity self' = capacity self" "record_limit self' = record_limit self"
    using f app by (simp_all add: appended_by_def)
  have "sub_metric s \<noteq> None" if "s \<in> set subs" for s
  proof -
    obtain s' where s': "s' \<in> set (subtemplates self)" "s\<lparr> group_state := 0 \<rparr> = s'\<lparr> group_state := 0 \<rparr>"
      using subs(2) [OF \<open>s \<in> set subs\<close>] by blast
    from arg_cong [OF s'(2), of sub_metric] show ?thesis using assms(2) s'(1) by simp
  qed
  then show "\<forall>s \<in> set (subtemplates self'). sub_metric s \<noteq> None" using f subs(1) sub by auto
qed

lemma blank_history:
  "n < 50 \<Longrightarrow> \<exists>self. enrollment_history self True \<and> length (subtemplates self) = Suc n \<and> capacity self = 50 \<and>
     record_limit self = 120 \<and> (\<forall>s \<in> set (subtemplates self). sub_metric s \<noteq> None)"
proof (induction n)
  case 0
  have "record_limit one_sample = 120"
    by (simp add: one_sample_def goodix_chicago_enrollment_insert_first_def goodix_chicago_enrollment_new_def Let_def)
  then show ?case using one_sample_history one_sample_fields by (intro exI [of _ one_sample]) auto
next
  case (Suc n)
  then obtain self where s: "enrollment_history self True" "length (subtemplates self) = Suc n" "capacity self = 50"
    "record_limit self = 120" "\<forall>s \<in> set (subtemplates self). sub_metric s \<noteq> None" by auto
  let ?go = "goodix_chicago_enrollment_insert_next self (Some []) 0 0 50 60 (Some blank_metric)"
  have "?go = Inr (projr ?go)"
    using insert_next_outcome [of self "Some []" 0 0 50 60 "Some blank_metric"] s Suc.prems by (simp add: Let_def split: if_splits)
  then obtain self' res where go: "?go = Inr (self', res)" by (metis surj_pair)
  have inv: "enrollment_wf self" "anchor_below (length (subtemplates self)) self"
    using history_invariant [OF s(1)] history_anchor [OF history_invariant [OF s(1)]] by (simp_all add: history_inv_def)
  have available: "records_available (Some []) 0" by (simp add: records_available_def)
  show ?case
    using history_next [OF s(1) available go] wf_insert_next(3) [OF inv available go] insert_next_keeps [OF go s(5)] s(2-4)
    by auto
qed

definition blank_view :: subtemplate_view where
  "blank_view = \<lparr> v_record_count = 0, v_active_count = 0, v_quality = 50, v_coverage = 60, v_records = None,
     v_metric = Some blank_metric, v_group_state = 0, v_relation_base = 0, v_study_state = 0, v_study_flags = 0,
     v_lineage_index = 0, v_replacement_count = 0, v_study_value_a = 0, v_study_value_b = 0,
     v_density_positive_percent = 0, v_density_class = 0, v_density_inactive_count = 0, v_live_auxiliary = [] \<rparr>"

theorem replace_study_never_null_witness:
  "\<exists>self self'. length (subtemplates self) = 50 \<and>
     goodix_chicago_enrollment_replace_study self blank_view 3 7 (Some (replicate 50 weak_relation)) = Inr (Some self') \<and>
     enrollment_wf self'"
proof -
  obtain self where s: "enrollment_history self True" "length (subtemplates self) = 50" "capacity self = 50"
    "record_limit self = 120" using blank_history [of 49] by auto
  have probe: "view_available blank_view" by (simp add: view_available_def blank_view_def records_available_def)
  have "\<exists>out. goodix_chicago_enrollment_replace_study self blank_view 3 7 (Some (replicate 50 weak_relation)) = Inr out"
    using s by (simp add: goodix_chicago_enrollment_replace_study_def Let_def view_is_valid_def blank_view_def)
  then obtain out where out: "goodix_chicago_enrollment_replace_study self blank_view 3 7 (Some (replicate 50 weak_relation)) = Inr out"
    by blast
  show ?thesis using replace_study_never_null [OF s(1) probe out] out s(2) by auto
qed

text \<open>The match order lists every enrolled sample exactly once in every history.\<close>

theorem match_order_is_permutation:
  assumes "enrollment_history self dropable"
  shows "distinct (map (goodix_chicago_enrollment_get_match_order_index self) [0..<length (subtemplates self)]) \<and>
    set (map (goodix_chicago_enrollment_get_match_order_index self) [0..<length (subtemplates self)]) =
      Some ` {0..<length (subtemplates self)}"
proof -
  let ?n = "length (subtemplates self)"
  have wf: "enrollment_wf self" using history_invariant [OF assms] by (simp add: history_inv_def)
  have o: "length (match_order self) = ENROLLMENT_CAPACITY" "distinct (take ?n (match_order self))"
    "set (take ?n (match_order self)) = {0..<?n}"
    using enrollment_wfD(8) [OF wf] unfolding match_order_ok_def by blast+
  have n: "?n \<le> ENROLLMENT_CAPACITY" using enrollment_wfD(1,2) [OF wf] by linarith
  have at: "match_order self ! k < ?n" if "k < ?n" for k
  proof -
    have "take ?n (match_order self) ! k \<in> set (take ?n (match_order self))" using that o(1) n by (intro nth_mem) simp
    then show ?thesis using that o(3) by simp
  qed
  have "map (goodix_chicago_enrollment_get_match_order_index self) [0..<?n] = map Some (take ?n (match_order self))"
    using o(1) n by (intro nth_equalityI) (simp_all add: goodix_chicago_enrollment_get_match_order_index_def at not_le)
  then show ?thesis using o(2,3) by (simp only: distinct_map set_map) (simp add: inj_on_def)
qed

theorem match_order_is_permutation_witness:
  "set (map (goodix_chicago_enrollment_get_match_order_index one_sample) [0..<1]) = {Some 0}"
  using match_order_is_permutation [OF one_sample_history] by (simp add: one_sample_fields)

end
