(* ===== verification/Chicago_Packed.thy ===== *)
theory Chicago_Packed
  imports Chicago_Study Chicago_Calibration "HOL-Library.Monad_Syntax"
begin

text \<open>
  The packed template of goodix-chicago-enrollment.c: the tagged little-endian form of an
  enrollment, the spanning forest of relations it keeps, its reader and its size. A
  \<open>PackedCursor\<close> is the list of its unread bytes; a reader returns \<open>None\<close> where the code jumps to
  its \<open>invalid\<close> exit.
\<close>

declare upt_rec_numeral [simp del]

section \<open>The serialized relation mask\<close>

text \<open>
  The depth-first search of the matcher group, recording the parent of every subtemplate. The state
  is the component of every subtemplate, its parent and the work list.
\<close>

definition forest_visit ::
    "(nat \<Rightarrow> nat \<Rightarrow> bool) \<Rightarrow> nat \<Rightarrow> nat \<Rightarrow> int list \<times> int list \<times> nat list \<Rightarrow> nat \<Rightarrow> int list \<times> int list \<times> nat list" where
  "forest_visit edge root current st candidate =
     (case st of (component, parent, stack) \<Rightarrow>
       if candidate = current \<or> component ! candidate \<ge> 0 then st
       else if \<not> edge current candidate then st
       else (component[candidate := int root], parent[candidate := int current], candidate # stack))"

definition forest_expand ::
    "(nat \<Rightarrow> nat \<Rightarrow> bool) \<Rightarrow> nat \<Rightarrow> nat \<Rightarrow> int list \<times> int list \<times> nat list \<Rightarrow> int list \<times> int list \<times> nat list" where
  "forest_expand edge root current st =
     foldl (forest_visit edge root current) st (rev [0..<length (fst st)])"

lemma forest_visits_simulated:
  "foldl (forest_visit edge root current) (component, parent, stack) ks = (component', parent', stack') \<Longrightarrow>
   \<exists>sz'. foldl (group_visit edge root current) (component, sz, stack) ks = (component', sz', stack')"
proof (induction ks arbitrary: component parent stack sz)
  case (Cons k ks)
  show ?case
  proof (cases "k = current \<or> component ! k \<ge> 0 \<or> \<not> edge current k")
    case True
    then have "forest_visit edge root current (component, parent, stack) k = (component, parent, stack)"
      "group_visit edge root current (component, sz, stack) k = (component, sz, stack)"
      by (auto simp: forest_visit_def group_visit_def)
    then show ?thesis using Cons by simp
  next
    case False
    then have "forest_visit edge root current (component, parent, stack) k =
        (component[k := int root], parent[k := int current], k # stack)"
      "group_visit edge root current (component, sz, stack) k = (component[k := int root], sz + 1, k # stack)"
      by (auto simp: forest_visit_def group_visit_def)
    then show ?thesis using Cons by simp
  qed
qed simp

function forest_search ::
    "(nat \<Rightarrow> nat \<Rightarrow> bool) \<Rightarrow> nat \<Rightarrow> int list \<times> int list \<times> nat list \<Rightarrow> int list \<times> int list" where
  "forest_search edge root (component, parent, []) = (component, parent)"
| "forest_search edge root (component, parent, current # stack) =
     forest_search edge root (forest_expand edge root current (component, parent, stack))"
  by pat_completeness auto
termination
proof (relation "measure (\<lambda>(edge, root, component, parent, stack). length stack + 2 * unseen component)")
  show "((edge, root, forest_expand edge root current (component, parent, stack)), edge, root, component, parent, current # stack)
    \<in> measure (\<lambda>(edge, root, component, parent, stack). length stack + 2 * unseen component)"
    for edge :: "nat \<Rightarrow> nat \<Rightarrow> bool" and root current component and parent :: "int list" and stack
  proof -
    obtain component' parent' stack' where
      e: "forest_expand edge root current (component, parent, stack) = (component', parent', stack')"
      by (cases "forest_expand edge root current (component, parent, stack)") auto
    then obtain sz' where
      "foldl (group_visit edge root current) (component, 0, stack) (rev [0..<length component]) = (component', sz', stack')"
      using forest_visits_simulated unfolding forest_expand_def fst_conv by metis
    then have "length stack' + unseen component' = length stack + unseen component \<and> unseen component' \<le> unseen component"
      using group_visits_measure [of "rev [0..<length component]" component edge root current 0 stack component' sz' stack']
      by simp
    then show ?thesis by (simp add: e)
  qed
qed simp

definition spanning_forest :: "(nat \<Rightarrow> nat \<Rightarrow> bool) \<Rightarrow> nat \<Rightarrow> int list \<times> int list" where
  "spanning_forest edge count =
     foldl (\<lambda>(component, parent) root.
        if component ! root \<ge> 0 then (component, parent)
        else forest_search edge root (component[root := int root], parent, [root]))
       (replicate count (-1), replicate count (-1)) [0..<count]"

text \<open>Marking a relation, counting the first marks.\<close>

definition mark_relation :: "bool list \<times> nat \<Rightarrow> nat \<Rightarrow> bool list \<times> nat" where
  "mark_relation st relation_index =
     (case st of (relation_mask, selected) \<Rightarrow>
       if relation_index \<ge> length relation_mask then (relation_mask, selected)
       else if \<not> relation_mask ! relation_index
       then (relation_mask[relation_index := True], selected + 1) else (relation_mask, selected))"

definition forest_relations :: "enrollment \<Rightarrow> int list \<Rightarrow> nat list" where
  "forest_relations self parent =
     map (\<lambda>k. let other = nat (parent ! k); newer = max k other; older = min k other
              in relation_base (subtemplates self ! newer) + older)
       (filter (\<lambda>k. parent ! k \<ge> 0) [0..<length (subtemplates self)])"

text \<open>The first non-negative relation between the component of \<open>current\<close> and that of the anchor.\<close>

definition grouped_at :: "enrollment \<Rightarrow> nat \<Rightarrow> bool" where
  "grouped_at self k \<longleftrightarrow> group_state (subtemplates self ! k) = 1"

definition reconnecting_relation :: "enrollment \<Rightarrow> int list \<Rightarrow> int \<Rightarrow> int \<Rightarrow> nat option" where
  "reconnecting_relation self component current_component anchor_component =
     (let count = length (subtemplates self) in
      map_option (\<lambda>(member, target).
          relation_base (subtemplates self ! max member target) + min member target)
        (List.find (\<lambda>(member, target).
            component ! member = current_component \<and> grouped_at self member \<and>
            component ! target = anchor_component \<and> grouped_at self target \<and>
            (case relation_between_subtemplates self (max member target) (min member target) of
               None \<Rightarrow> False | Some r \<Rightarrow> \<not> inlier_count r < 0))
          (List.product [0..<count] [0..<count])))"

definition reconnect_step ::
    "enrollment \<Rightarrow> nat \<Rightarrow> int list \<times> bool list \<times> nat \<Rightarrow> nat \<Rightarrow> int list \<times> bool list \<times> nat" where
  "reconnect_step self anchor st current =
     (case st of (component, marks) \<Rightarrow>
       let current_component = component ! current; anchor_component = component ! anchor in
       if \<not> grouped_at self current \<or> current_component = anchor_component then st
       else case reconnecting_relation self component current_component anchor_component of
              None \<Rightarrow> st
            | Some relation_index \<Rightarrow>
                (map (\<lambda>c. if c = current_component then anchor_component else c) component,
                 mark_relation marks relation_index))"

definition build_serialized_relation_mask :: "enrollment \<Rightarrow> bool list \<times> nat" where
  "build_serialized_relation_mask self =
     (let count = length (subtemplates self) in
      case spanning_forest (group_edge self) count of (component, parent) \<Rightarrow>
        let marks = foldl mark_relation (replicate (length (relations self)) False, 0) (forest_relations self parent)
        in case List.find (grouped_at self) [0..<count] of
             None \<Rightarrow> marks
           | Some anchor \<Rightarrow> snd (foldl (reconnect_step self anchor) (component, marks) [0..<count]))"

definition goodix_chicago_enrollment_get_packed_size :: "enrollment \<Rightarrow> nat" where
  "goodix_chicago_enrollment_get_packed_size self =
     1443 + sum_list (map (\<lambda>s. record_count s * 32 + 685 +
        (case sub_metric s of None \<Rightarrow> 0 | Some m \<Rightarrow> if packed_resolution m \<noteq> 0 then 5 else 0)) (subtemplates self)) +
     snd (build_serialized_relation_mask self) * 45"

section \<open>Writing the packed template\<close>

text \<open>The writers append to \<open>packed\<close>; a container patches its length once its body is there.\<close>

definition packed_append_u32 :: "bytes \<Rightarrow> u32 \<Rightarrow> bytes" where
  "packed_append_u32 packed v = packed @ le32_bytes v"

definition packed_append_scalar :: "bytes \<Rightarrow> byte \<Rightarrow> u32 \<Rightarrow> bytes" where
  "packed_append_scalar packed tag v = packed_append_u32 (packed @ [tag]) v"

definition packed_append_blob :: "bytes \<Rightarrow> byte \<Rightarrow> bytes \<Rightarrow> bytes" where
  "packed_append_blob packed tag data = packed_append_u32 (packed @ [tag]) (of_nat (length data)) @ data"

definition patch_length :: "bytes \<Rightarrow> nat \<Rightarrow> bytes" where
  "patch_length packed body_offset = write_at packed body_offset (le32_bytes (of_nat (length packed - body_offset - 4)))"

definition packed_append_map :: "bytes \<Rightarrow> byte \<Rightarrow> bytes \<Rightarrow> bytes" where
  "packed_append_map packed tag data =
     (let p0 = packed @ [tag];
          p1 = packed_append_u32 p0 0;
          p2 = packed_append_scalar p1 0xc1 40;
          p3 = packed_append_scalar p2 0xc2 32;
          p4 = packed_append_scalar p3 0xc3 0xffffffff;
          p5 = packed_append_scalar p4 0xc4 8;
          p6 = packed_append_blob p5 0xc5 (take 160 data)
      in patch_length p6 (length p0))"

definition packed_orientation :: "u16 \<Rightarrow> byte" where
  "packed_orientation o16 =
     (if 0 \<le> sint o16 then ucast (drop_bit 8 o16) else ucast (drop_bit 8 (- o16)) + 0x80)"

definition swapped :: "nat \<Rightarrow> bool" where
  "swapped k = [False, True, True, False, True, False, False, True] ! k"

definition pack_pair :: "nat \<Rightarrow> byte \<Rightarrow> byte \<Rightarrow> bytes" where
  "pack_pair k a b =
     (let fst_byte = ((a XOR b) AND 0x0f) XOR b; snd_byte = ((a XOR b) AND 0x0f) XOR a
      in if swapped k then [snd_byte, fst_byte] else [fst_byte, snd_byte])"

definition record_coordinate :: "feature_record \<Rightarrow> u32" where
  "record_coordinate r =
     push_bit 16 (ucast (refined_x r)) OR push_bit 4 (ucast (refined_y r)) OR ucast (packed_orientation (orientation r))"

definition packed_append_record :: "bytes \<Rightarrow> feature_record \<Rightarrow> bytes" where
  "packed_append_record packed r =
     (let source = drop 4 (descriptor r);
          out = concat (map (\<lambda>k. pack_pair k (source ! k) (source ! (k + 8))) [0..<8]) @
                take 4 (drop 20 (descriptor r)) @ take 8 (drop 28 (descriptor r))
      in packed_append_u32 packed (record_coordinate r) @ out)"

definition subtemplate_metric :: "subtemplate \<Rightarrow> metric_data" where
  "subtemplate_metric s = the (sub_metric s)"

definition packed_append_subtemplate :: "bytes \<Rightarrow> subtemplate \<Rightarrow> bytes" where
  "packed_append_subtemplate packed s =
     (let p0 = packed @ [0x95];
          p1 = packed_append_u32 p0 0;
          p2 = packed_append_map p1 0xb2 (primary (subtemplate_metric s));
          p3 = packed_append_map p2 0xcf (secondary (subtemplate_metric s));
          p4 = packed_append_blob p3 0xce (take 40 (coarse_mask (subtemplate_metric s)));
          p5 = packed_append_map p4 0xcd (validity (subtemplate_metric s));
          p6 = packed_append_scalar p5 0xb3 (of_nat (record_count s));
          p7 = packed_append_u32 (p6 @ [0xb4]) (of_nat (record_count s * 32));
          p8 = foldl packed_append_record p7 (take (record_count s) (records s));
          p9 = foldl (\<lambda>p (tag, v). packed_append_scalar p tag (of_nat v)) p8
                 [(0xb5, group_state s), (0xb6, relation_base s), (0xb7, active_count s), (0xb8, quality s),
                  (0xb9, coverage s), (0xba, study_state s), (0xbb, study_flags s), (0xbc, lineage_index s),
                  (0xbd, replacement_count s), (0xbe, study_value_a s), (0xc0, study_value_b s)];
          p10 = (if packed_resolution (subtemplate_metric s) \<noteq> 0
                 then packed_append_scalar p9 0xc7 (of_nat (packed_resolution (subtemplate_metric s))) else p9)
      in patch_length p10 (length p0))"

definition relation_coefficients :: "relation \<Rightarrow> int list" where
  "relation_coefficients r =
     (let t = rel_transform r in [t0 t, t1 t, t2 t, t3 t, t4 t, t5 t])"

definition packed_append_relation :: "bytes \<Rightarrow> nat \<Rightarrow> relation \<Rightarrow> bytes" where
  "packed_append_relation packed index r =
     (let p1 = packed_append_u32 (packed @ [0x96]) 40;
          p2 = packed_append_scalar p1 0xe3 (of_nat index);
          p3 = packed_append_scalar p2 0xe1 (of_i32 (inlier_count r))
      in foldl (\<lambda>p (k, v). packed_append_scalar p (0xe4 + of_nat k) (of_i32 v)) p3
           (enumerate 0 (relation_coefficients r)))"

text \<open>The 64 bytes of \<open>"Milan_v_3.02.00.15"\<close>, zero padded.\<close>

definition matcher_version :: bytes where
  "matcher_version = [0x4d, 0x69, 0x6c, 0x61, 0x6e, 0x5f, 0x76, 0x5f, 0x33, 0x2e, 0x30, 0x32, 0x2e, 0x30, 0x30, 0x2e,
     0x31, 0x35] @ replicate 46 0"

definition packed_append_matcher_state :: "bytes \<Rightarrow> enrollment \<Rightarrow> bytes" where
  "packed_append_matcher_state packed self =
     (let p1 = packed_append_u32 (packed @ [0x94]) 1328;
          p2 = packed_append_u32 (p1 @ [0xa1]) 200;
          p3 = foldl (\<lambda>p v. packed_append_u32 p (of_nat v)) p2 (match_order self);
          p4 = packed_append_scalar p3 0xa2 (of_nat (matcher_active_index self));
          p5 = packed_append_blob p4 0xa3 matcher_version;
          p6 = packed_append_blob p5 0xa4 (replicate 1024 0)
      in foldl (\<lambda>p (tag, v). packed_append_scalar p tag (of_nat v)) p6
           [(0xa5, matcher_value_a self), (0xa6, matcher_value_b self), (0xa7, matcher_value_c self),
            (0xa8, matcher_value_d self)])"

definition packed_crc32 :: "bytes \<Rightarrow> u32" where
  "packed_crc32 data =
     NOT (foldl (\<lambda>crc b. (crc32_reflected_bit ^^ 8) (crc XOR ucast b)) 0xffffffff data)"

definition header_scalars :: "enrollment \<Rightarrow> (byte \<times> u32) list" where
  "header_scalars self =
     [(0x81, 0x002e14ef), (0x88, 0x002e14ef), (0x89, 0x002df160), (0x98, 24), (0x9a, 64), (0x9b, 80),
      (0x91, of_nat (length (subtemplates self))), (0x97, of_nat (capacity self)),
      (0x92, of_nat (length (relations self))), (0x9e, of_nat (record_limit self)), (0x9f, of_nat (record_limit self)),
      (0x9c, 1), (0x9d, 1), (0xfa, 0), (0xfb, 0)]"

definition goodix_chicago_enrollment_pack :: "enrollment \<Rightarrow> bytes result" where
  "goodix_chicago_enrollment_pack self =
     (let expected_size = goodix_chicago_enrollment_get_packed_size self in
      if \<exists>s \<in> set (subtemplates self). sub_metric s = None then Inl G_IO_ERROR_INVALID_DATA
      else
        let grouped = length (filter (\<lambda>s. group_state s = 1) (subtemplates self));
            p1 = packed_append_u32 [0x87, 0, 0, 0, 0, 0x86] 0;
            p2 = foldl (\<lambda>p (tag, v). packed_append_scalar p tag v) p1 (header_scalars self);
            p3 = foldl packed_append_subtemplate p2 (subtemplates self);
            relation_mask = fst (build_serialized_relation_mask self);
            p4 = foldl (\<lambda>p k. if relation_mask ! k then packed_append_relation p k (relations self ! k) else p)
                   p3 [0..<length (relations self)];
            p5 = packed_append_u32 (p4 @ [0x93]) 20;
            p6 = foldl (\<lambda>p (tag, v). packed_append_scalar p tag v) p5
                   [(0xf2, if grouped > 1 then 0 else 0xffffffff), (0xf3, 0xffffffff), (0xf4, 0xffffffff),
                    (0xf5, if grouped > 1 then 1 else 0)];
            p7 = packed_append_matcher_state p6 self
        in if length p7 \<noteq> expected_size then Inl G_IO_ERROR_INVALID_DATA
           else
             let p8 = write_at p7 6 (le32_bytes (of_nat (length p7 - 10)))
             in Inr (write_at p8 1 (le32_bytes (packed_crc32 (drop 10 p8)))))"

section \<open>Reading the packed template\<close>

definition packed_cursor_take :: "bytes \<Rightarrow> nat \<Rightarrow> (bytes \<times> bytes) option" where
  "packed_cursor_take cursor n = (if n > length cursor then None else Some (take n cursor, drop n cursor))"

definition packed_cursor_u32 :: "bytes \<Rightarrow> (u32 \<times> bytes) option" where
  "packed_cursor_u32 cursor = do {
     (bs, cursor) \<leftarrow> packed_cursor_take cursor 4;
     Some (le32_at bs 0, cursor) }"

definition require :: "bool \<Rightarrow> unit option" where
  "require c = (if c then Some () else None)"

definition packed_cursor_scalar :: "byte \<Rightarrow> bytes \<Rightarrow> (u32 \<times> bytes) option" where
  "packed_cursor_scalar expected_tag cursor = do {
     (tag, cursor) \<leftarrow> packed_cursor_take cursor 1;
     require (hd tag = expected_tag);
     packed_cursor_u32 cursor }"

definition packed_cursor_blob :: "byte \<Rightarrow> bytes \<Rightarrow> (bytes \<times> bytes) option" where
  "packed_cursor_blob expected_tag cursor = do {
     (tag, cursor) \<leftarrow> packed_cursor_take cursor 1;
     require (hd tag = expected_tag);
     (n, cursor) \<leftarrow> packed_cursor_u32 cursor;
     packed_cursor_take cursor (unat n) }"

text \<open>The body of a container is a cursor of its own.\<close>

definition packed_cursor_container :: "byte \<Rightarrow> bytes \<Rightarrow> (bytes \<times> bytes) option" where
  "packed_cursor_container expected_tag cursor = packed_cursor_blob expected_tag cursor"

definition packed_cursor_value :: "byte \<Rightarrow> u32 \<Rightarrow> bytes \<Rightarrow> bytes option" where
  "packed_cursor_value tag expected cursor = do {
     (v, cursor) \<leftarrow> packed_cursor_scalar tag cursor;
     require (v = expected);
     Some cursor }"

definition packed_cursor_map :: "byte \<Rightarrow> bytes \<Rightarrow> (bytes \<times> bytes) option" where
  "packed_cursor_map expected_tag cursor = do {
     (body, cursor) \<leftarrow> packed_cursor_container expected_tag cursor;
     body \<leftarrow> packed_cursor_value 0xc1 40 body;
     body \<leftarrow> packed_cursor_value 0xc2 32 body;
     body \<leftarrow> packed_cursor_value 0xc3 0xffffffff body;
     body \<leftarrow> packed_cursor_value 0xc4 8 body;
     (bits, body) \<leftarrow> packed_cursor_blob 0xc5 body;
     require (length bits = 160 \<and> body = []);
     Some (bits, cursor) }"

definition unpack_pair :: "nat \<Rightarrow> byte \<Rightarrow> byte \<Rightarrow> byte \<times> byte" where
  "unpack_pair k x y =
     (let fst_byte = (if swapped k then y else x); snd_byte = (if swapped k then x else y)
      in ((snd_byte AND 0xf0) OR (fst_byte AND 0x0f), (fst_byte AND 0xf0) OR (snd_byte AND 0x0f)))"

definition packed_decode_record :: "bytes \<Rightarrow> feature_record" where
  "packed_decode_record packed =
     (let coordinate = le32_at packed 0;
          o8 = ucast coordinate :: byte;
          pairs = map (\<lambda>k. unpack_pair k (packed ! (4 + k * 2)) (packed ! (5 + k * 2))) [0..<8]
      in \<lparr> foreground = 0,
           refined_x = ucast (drop_bit 16 coordinate AND 0xfff0),
           refined_y = ucast (drop_bit 4 coordinate AND 0xfff0),
           orientation = (if unat o8 < 0x80 then push_bit 8 (ucast o8) else - push_bit 8 (ucast o8 - 0x80)),
           strength = 0,
           descriptor = [2, 0, 0, 0] @ map fst pairs @ map snd pairs @ take 4 (drop 20 packed) @
             replicate 4 0 @ take 8 (drop 24 packed) @ replicate 12 0 \<rparr>)"

definition packed_cursor_nat :: "byte \<Rightarrow> bytes \<Rightarrow> (nat \<times> bytes) option" where
  "packed_cursor_nat tag cursor = do { (v, cursor) \<leftarrow> packed_cursor_scalar tag cursor; Some (unat v, cursor) }"

text \<open>One subtemplate; the position map is rebuilt from the coarse mask.\<close>

definition packed_take_subtemplate :: "nat \<Rightarrow> nat \<Rightarrow> bytes \<Rightarrow> (subtemplate \<times> bytes) option" where
  "packed_take_subtemplate cap limit cursor = do {
     (body, cursor) \<leftarrow> packed_cursor_container 0x95 cursor;
     (plane1, body) \<leftarrow> packed_cursor_map 0xb2 body;
     (plane2, body) \<leftarrow> packed_cursor_map 0xcf body;
     (coarse, body) \<leftarrow> packed_cursor_blob 0xce body;
     require (length coarse = 40);
     (plane3, body) \<leftarrow> packed_cursor_map 0xcd body;
     (n, body) \<leftarrow> packed_cursor_nat 0xb3 body;
     require (n \<le> limit);
     (recs, body) \<leftarrow> packed_cursor_blob 0xb4 body;
     require (length recs = n * 32);
     (group, body) \<leftarrow> packed_cursor_nat 0xb5 body;
     (base, body) \<leftarrow> packed_cursor_nat 0xb6 body;
     (active, body) \<leftarrow> packed_cursor_nat 0xb7 body;
     require (active \<le> n);
     (qual, body) \<leftarrow> packed_cursor_nat 0xb8 body;
     (cov, body) \<leftarrow> packed_cursor_nat 0xb9 body;
     (state, body) \<leftarrow> packed_cursor_nat 0xba body;
     (flags, body) \<leftarrow> packed_cursor_nat 0xbb body;
     (lineage, body) \<leftarrow> packed_cursor_nat 0xbc body;
     require (lineage < cap);
     (replaced, body) \<leftarrow> packed_cursor_nat 0xbd body;
     (value_a, body) \<leftarrow> packed_cursor_nat 0xbe body;
     (value_b, body) \<leftarrow> packed_cursor_nat 0xc0 body;
     (resolution, body) \<leftarrow> (if body \<noteq> [] \<and> hd body = 0xc7 then packed_cursor_nat 0xc7 body else Some (0, body));
     require (body = []);
     Some (\<lparr> record_count = n, active_count = active, quality = qual, coverage = cov,
             records = map (\<lambda>k. (packed_decode_record (take 32 (drop (k * 32) recs)))
                                  \<lparr> foreground := (if active \<le> k then 1 else 0) \<rparr>) [0..<n],
             sub_metric = Some (metric_data_build_position_map
               \<lparr> primary = plane1, secondary = plane2, validity = plane3, coarse_mask = coarse,
                 position_map = replicate 160 0, packed_resolution = resolution \<rparr>),
             group_state = group, relation_base = base, study_state = state, study_flags = flags,
             lineage_index = lineage, replacement_count = replaced, study_value_a = value_a,
             study_value_b = value_b \<rparr>, cursor) }"

fun packed_take_subtemplates :: "nat \<Rightarrow> nat \<Rightarrow> nat \<Rightarrow> bytes \<Rightarrow> (subtemplate list \<times> bytes) option" where
  "packed_take_subtemplates cap limit 0 cursor = Some ([], cursor)"
| "packed_take_subtemplates cap limit (Suc n) cursor = do {
     (s, cursor) \<leftarrow> packed_take_subtemplate cap limit cursor;
     (ss, cursor) \<leftarrow> packed_take_subtemplates cap limit n cursor;
     Some (s # ss, cursor) }"

fun packed_take_coefficients :: "nat \<Rightarrow> nat \<Rightarrow> bytes \<Rightarrow> (int list \<times> bytes) option" where
  "packed_take_coefficients k 0 body = Some ([], body)"
| "packed_take_coefficients k (Suc n) body = do {
     (v, body) \<leftarrow> packed_cursor_scalar (0xe4 + of_nat k) body;
     (vs, body) \<leftarrow> packed_take_coefficients (Suc k) n body;
     Some (to_i32 v # vs, body) }"

definition packed_take_relation :: "nat \<Rightarrow> bytes \<Rightarrow> (nat \<times> relation \<times> bytes) option" where
  "packed_take_relation count cursor = do {
     (body, cursor) \<leftarrow> packed_cursor_container 0x96 cursor;
     (index, body) \<leftarrow> packed_cursor_nat 0xe3 body;
     require (index < count);
     (inliers, body) \<leftarrow> packed_cursor_scalar 0xe1 body;
     (coefficients, body) \<leftarrow> packed_take_coefficients 0 6 body;
     require (body = []);
     Some (index,
       \<lparr> inlier_count = to_i32 inliers,
         rel_transform = mk_transform (coefficients ! 0) (coefficients ! 1) (coefficients ! 2)
           (coefficients ! 3) (coefficients ! 4) (coefficients ! 5) \<rparr>, cursor) }"

lemma packed_cursor_blob_shorter:
  assumes "packed_cursor_blob tag cursor = Some (body, cursor')"
  shows "length cursor' < length cursor"
  using assms
  by (auto simp: packed_cursor_blob_def packed_cursor_u32_def packed_cursor_take_def require_def
      split: if_splits option.splits bind_splits)

lemma packed_take_relation_shorter:
  assumes "packed_take_relation count cursor = Some (index, r, cursor')"
  shows "length cursor' < length cursor"
proof -
  obtain body where "packed_cursor_blob 0x96 cursor = Some (body, cursor')"
    using assms
    by (auto simp: packed_take_relation_def packed_cursor_container_def require_def
        split: if_splits option.splits bind_splits)
  then show ?thesis by (rule packed_cursor_blob_shorter)
qed

text \<open>The loop over the relations that were kept; every one is also a group edge.\<close>

function packed_take_relations ::
    "nat \<Rightarrow> relation list \<Rightarrow> nat list \<Rightarrow> bytes \<Rightarrow> (relation list \<times> nat list \<times> bytes) option" where
  "packed_take_relations count rels edges cursor =
     (if cursor \<noteq> [] \<and> hd cursor = 0x96 then
        (case packed_take_relation count cursor of
           None \<Rightarrow> None
         | Some (index, r, cursor') \<Rightarrow> packed_take_relations count (rels[index := r]) (edges @ [index]) cursor')
      else Some (rels, edges, cursor))"
  by pat_completeness auto
termination
  by (relation "measure (\<lambda>(count, rels, edges, cursor). length cursor)") (auto dest: packed_take_relation_shorter)

declare packed_take_relations.simps [simp del]

definition absent_relation :: "nat \<Rightarrow> relation" where
  "absent_relation k = \<lparr> inlier_count = -1,
     rel_transform = (if k = 0 then identity_group_transform else mk_transform 0 0 0 0 0 0) \<rparr>"

definition match_order_valid :: "nat list \<Rightarrow> nat \<Rightarrow> nat \<Rightarrow> bool" where
  "match_order_valid order count cap \<longleftrightarrow>
     (\<forall>k < count. order ! k < count \<and> (\<forall>j < k. order ! j \<noteq> order ! k)) \<and>
     (\<forall>k \<in> {count..<cap}. order ! k = G_MAXUINT32)"

definition unpack_body :: "bytes \<Rightarrow> enrollment option" where
  "unpack_body cursor = do {
     cursor \<leftarrow> packed_cursor_value 0x81 0x002e14ef cursor;
     cursor \<leftarrow> packed_cursor_value 0x88 0x002e14ef cursor;
     cursor \<leftarrow> packed_cursor_value 0x89 0x002df160 cursor;
     cursor \<leftarrow> packed_cursor_value 0x98 24 cursor;
     cursor \<leftarrow> packed_cursor_value 0x9a 64 cursor;
     cursor \<leftarrow> packed_cursor_value 0x9b 80 cursor;
     (subtemplate_count, cursor) \<leftarrow> packed_cursor_nat 0x91 cursor;
     (cap, cursor) \<leftarrow> packed_cursor_nat 0x97 cursor;
     (relation_count, cursor) \<leftarrow> packed_cursor_nat 0x92 cursor;
     (limit, cursor) \<leftarrow> packed_cursor_nat 0x9e cursor;
     (limit', cursor) \<leftarrow> packed_cursor_nat 0x9f cursor;
     require (limit' = limit);
     cursor \<leftarrow> packed_cursor_value 0x9c 1 cursor;
     cursor \<leftarrow> packed_cursor_value 0x9d 1 cursor;
     cursor \<leftarrow> packed_cursor_value 0xfa 0 cursor;
     cursor \<leftarrow> packed_cursor_value 0xfb 0 cursor;
     require (subtemplate_count \<le> cap \<and> cap \<le> ENROLLMENT_CAPACITY \<and> limit \<le> 120 \<and>
              relation_count \<le> subtemplate_count * (subtemplate_count + 1) div 2);
     (subs, cursor) \<leftarrow> packed_take_subtemplates cap limit subtemplate_count cursor;
     (rels, edges, cursor) \<leftarrow> packed_take_relations relation_count (map absent_relation [0..<relation_count]) [] cursor;
     (scheduler_state, cursor) \<leftarrow> packed_cursor_container 0x93 cursor;
     require (length scheduler_state = 20);
     (matcher_state, cursor) \<leftarrow> packed_cursor_container 0x94 cursor;
     require (length matcher_state = 1328 \<and> cursor = []);
     (matcher_order, matcher_state) \<leftarrow> packed_cursor_blob 0xa1 matcher_state;
     require (length matcher_order = 200);
     let order = map (\<lambda>k. unat (le32_at matcher_order (k * 4))) [0..<cap] @
                 replicate (ENROLLMENT_CAPACITY - cap) G_MAXUINT32;
     require (match_order_valid order subtemplate_count cap);
     (active_index, matcher_state) \<leftarrow> packed_cursor_nat 0xa2 matcher_state;
     (ignored, matcher_state) \<leftarrow> packed_cursor_blob 0xa3 matcher_state;
     require (length ignored = 64);
     (ignored, matcher_state) \<leftarrow> packed_cursor_blob 0xa4 matcher_state;
     require (length ignored = 1024);
     (value_a, matcher_state) \<leftarrow> packed_cursor_nat 0xa5 matcher_state;
     (value_b, matcher_state) \<leftarrow> packed_cursor_nat 0xa6 matcher_state;
     (value_c, matcher_state) \<leftarrow> packed_cursor_nat 0xa7 matcher_state;
     (value_d, matcher_state) \<leftarrow> packed_cursor_nat 0xa8 matcher_state;
     require (matcher_state = []);
     Some (goodix_chicago_enrollment_new
       \<lparr> capacity := cap, record_limit := limit, subtemplates := subs, relations := rels, group_edges := edges,
         transform_count := relation_count, match_order := order, matcher_active_index := active_index,
         matcher_value_a := value_a, matcher_value_b := value_b, matcher_value_c := value_c,
         matcher_value_d := value_d \<rparr>) }"

definition goodix_chicago_enrollment_unpack :: "bytes \<Rightarrow> enrollment result" where
  "goodix_chicago_enrollment_unpack data =
     (if length data < 10 \<or> data ! 0 \<noteq> 0x87 \<or> data ! 5 \<noteq> 0x86 \<or> unat (le32_at data 6) \<noteq> length data - 10 \<or>
         le32_at data 1 \<noteq> packed_crc32 (drop 10 data)
      then Inl G_IO_ERROR_INVALID_DATA
      else case unpack_body (drop 10 data) of
             None \<Rightarrow> Inl G_IO_ERROR_INVALID_DATA
           | Some self \<Rightarrow> Inr self)"

section \<open>The format, as byte strings\<close>

named_theorems packed_simps \<open>writers as concatenations, readers on what the writers produce\<close>

definition scalar_bytes :: "byte \<Rightarrow> u32 \<Rightarrow> bytes" where
  "scalar_bytes tag v = tag # le32_bytes v"

definition blob_bytes :: "byte \<Rightarrow> bytes \<Rightarrow> bytes" where
  "blob_bytes tag data = tag # le32_bytes (of_nat (length data)) @ data"

definition map_bytes :: "byte \<Rightarrow> bytes \<Rightarrow> bytes" where
  "map_bytes tag data = blob_bytes tag
     (scalar_bytes 0xc1 40 @ scalar_bytes 0xc2 32 @ scalar_bytes 0xc3 0xffffffff @ scalar_bytes 0xc4 8 @
      blob_bytes 0xc5 (take 160 data))"

lemma length_scalar_bytes [simp]: "length (scalar_bytes tag v) = 5"
  by (simp add: scalar_bytes_def)

lemma length_blob_bytes [simp]: "length (blob_bytes tag data) = 5 + length data"
  by (simp add: blob_bytes_def)

lemma length_map_bytes [simp]: "length data = 160 \<Longrightarrow> length (map_bytes tag data) = 190"
  by (simp add: map_bytes_def)

lemma append_scalar [packed_simps]: "packed_append_scalar packed tag v = packed @ scalar_bytes tag v"
  by (simp add: packed_append_scalar_def packed_append_u32_def scalar_bytes_def)

lemma append_blob [packed_simps]: "packed_append_blob packed tag data = packed @ blob_bytes tag data"
  by (simp add: packed_append_blob_def packed_append_u32_def blob_bytes_def)

lemma patch_length_body:
  "patch_length (packed @ tag # le32_bytes v @ body) (Suc (length packed)) = packed @ blob_bytes tag body"
  by (simp add: patch_length_def write_at_def blob_bytes_def)

lemma append_map [packed_simps]: "packed_append_map packed tag data = packed @ map_bytes tag data"
  using patch_length_body [of packed tag 0]
  by (simp add: packed_append_map_def Let_def packed_simps packed_append_u32_def map_bytes_def)

lemma foldl_append_map: "(\<And>p x. f p x = p @ g x) \<Longrightarrow> foldl f p xs = p @ concat (map g xs)"
  by (induction xs arbitrary: p) simp_all

lemma take_prefix [packed_simps]: "n = length x \<Longrightarrow> packed_cursor_take (x @ r) n = Some (x, r)"
  by (simp add: packed_cursor_take_def)

lemma take_tag: "packed_cursor_take (tag # r) 1 = Some ([tag], r)"
  by (simp add: packed_cursor_take_def)

lemma read_u32 [packed_simps]: "packed_cursor_u32 (le32_bytes v @ r) = Some (v, r)"
  by (simp add: packed_cursor_u32_def take_prefix)

lemma require_simps [simp]: "require True = Some ()" "require False = None"
  by (simp_all add: require_def)

lemma read_scalar [packed_simps]: "packed_cursor_scalar tag (scalar_bytes tag v @ r) = Some (v, r)"
  by (simp add: packed_cursor_scalar_def scalar_bytes_def take_tag [simplified] read_u32)

lemma read_value [packed_simps]: "packed_cursor_value tag v (scalar_bytes tag v @ r) = Some r"
  by (simp add: packed_cursor_value_def read_scalar)

lemma read_nat [packed_simps]: "n < 2 ^ 32 \<Longrightarrow> packed_cursor_nat tag (scalar_bytes tag (of_nat n) @ r) = Some (n, r)"
  by (simp add: packed_cursor_nat_def read_scalar unat_of_nat)

lemma read_blob [packed_simps]: "length data < 2 ^ 32 \<Longrightarrow> packed_cursor_blob tag (blob_bytes tag data @ r) = Some (data, r)"
  by (simp add: packed_cursor_blob_def blob_bytes_def take_tag [simplified] read_u32 take_prefix unat_of_nat)

lemma read_map [packed_simps]:
  "length data = 160 \<Longrightarrow> packed_cursor_map tag (map_bytes tag data @ r) = Some (data, r)"
  using read_blob [of "take 160 data" "0xc5" "[]"]
  by (simp add: packed_cursor_map_def packed_cursor_container_def map_bytes_def read_blob read_value)

section \<open>Feature records\<close>

definition record_bytes :: "feature_record \<Rightarrow> bytes" where
  "record_bytes r = packed_append_record [] r"

lemma append_record [packed_simps]: "packed_append_record packed r = packed @ record_bytes r"
  by (simp add: packed_append_record_def packed_append_u32_def record_bytes_def Let_def)

lemma length_pack_pair [simp]: "length (pack_pair k a b) = 2"
  by (simp add: pack_pair_def Let_def)

lemma upt_8: "[0..<8] = [0, 1, 2, 3, 4, 5, 6, 7 :: nat]"
  by (simp add: numeral_eq_Suc)

lemma length_record_bytes [simp]: "length (descriptor r) = 48 \<Longrightarrow> length (record_bytes r) = 32"
  by (simp add: record_bytes_def packed_append_record_def packed_append_u32_def Let_def upt_8)

text \<open>What is left of a record: 12-bit coordinates with the nibbles that overlap in the packed word, the
  orientation rounded towards zero to a multiple of 256, and the 28 descriptor bytes in use.\<close>

definition canonical_record :: "feature_record \<Rightarrow> feature_record" where
  "canonical_record r =
     \<lparr> foreground = 0,
       refined_x = refined_x r AND 0xfff0,
       refined_y = (refined_y r AND 0xfff0) OR push_bit 12 (refined_x r),
       orientation = (let o8 = packed_orientation (orientation r) OR push_bit 4 (ucast (refined_y r))
                      in if unat o8 < 0x80 then push_bit 8 (ucast o8) else - push_bit 8 (ucast o8 - 0x80)),
       strength = 0,
       descriptor = [2, 0, 0, 0] @ take 20 (drop 4 (descriptor r)) @ replicate 4 0 @
         take 8 (drop 28 (descriptor r)) @ replicate 12 0 \<rparr>"

lemma pair_bits:
  fixes a b :: byte
  shows "(((a XOR b) AND 0x0f) XOR a) AND 0xf0 OR ((((a XOR b) AND 0x0f) XOR b) AND 0x0f) = a"
    "(((a XOR b) AND 0x0f) XOR b) AND 0xf0 OR ((((a XOR b) AND 0x0f) XOR a) AND 0x0f) = b"
proof -
  have low: "(0x0f :: byte) = mask 4" and high: "(0xf0 :: byte) = NOT (mask 4)"
    by (simp_all add: mask_eq_exp_minus_1)
  show "(((a XOR b) AND 0x0f) XOR a) AND 0xf0 OR ((((a XOR b) AND 0x0f) XOR b) AND 0x0f) = a"
    unfolding low high
    by (rule byte_eqI) (simp only: bit_and_iff bit_or_iff bit_xor_iff bit_not_iff bit_mask_iff, auto)
  show "(((a XOR b) AND 0x0f) XOR b) AND 0xf0 OR ((((a XOR b) AND 0x0f) XOR a) AND 0x0f) = b"
    unfolding low high
    by (rule byte_eqI) (simp only: bit_and_iff bit_or_iff bit_xor_iff bit_not_iff bit_mask_iff, auto)
qed

lemma unpack_pack_pair: "unpack_pair k (pack_pair k a b ! 0) (pack_pair k a b ! 1) = (a, b)"
  using pair_bits [of a b] by (simp add: unpack_pair_def pack_pair_def Let_def)

lemma nth_pairs:
  assumes "\<And>k. length (f k) = 2" and "k < n"
  shows "concat (map f [0..<n]) ! (2 * k) = f k ! 0 \<and> concat (map f [0..<n]) ! (2 * k + 1) = f k ! 1"
  using assms(2)
proof (induction n)
  case (Suc n)
  have len: "length (concat (map f [0..<n])) = 2 * n" for n
    by (induction n) (simp_all add: assms(1))
  show ?case
  proof (cases "k = n")
    case True
    then show ?thesis by (simp add: nth_append len)
  next
    case False
    then show ?thesis using Suc by (simp add: nth_append len)
  qed
qed simp

lemma coordinate_fields:
  fixes x y :: u16 and o8 :: byte
  defines "c \<equiv> push_bit 16 (ucast x) OR push_bit 4 (ucast y) OR ucast o8 :: u32"
  shows "ucast (drop_bit 16 c AND 0xfff0) = x AND 0xfff0"
    and "ucast (drop_bit 4 c AND 0xfff0) = (y AND 0xfff0) OR push_bit 12 x"
    and "ucast c = o8 OR push_bit 4 (ucast y)"
proof -
  have e: "(0xfff0 :: int) = push_bit 4 (mask 12)"
    by (simp add: mask_eq_exp_minus_1)
  have m: "bit (0xfff0 :: int) n = (4 \<le> n \<and> n < 16)" for n
    unfolding e by (simp only: bit_push_bit_iff bit_mask_iff) auto
  show "ucast (drop_bit 16 c AND 0xfff0) = x AND 0xfff0"
    by (rule bit_word_eqI) (auto simp: c_def bit_simps m dest: bit_imp_le_length)
  show "ucast (drop_bit 4 c AND 0xfff0) = (y AND 0xfff0) OR push_bit 12 x"
    by (rule bit_word_eqI) (auto simp: c_def bit_simps m dest: bit_imp_le_length)
  show "ucast c = o8 OR push_bit 4 (ucast y)"
    by (rule bit_word_eqI) (auto simp: c_def bit_simps dest: bit_imp_le_length)
qed

lemma take_slice: "take m (drop i xs) @ take n (drop (i + m) xs) = take (m + n) (drop i xs)"
  by (simp add: take_add add.commute)

lemma map_slice: "i + n \<le> length xs \<Longrightarrow> map (\<lambda>k. xs ! (i + k)) [0..<n] = take n (drop i xs)"
  by (intro nth_equalityI) simp_all

lemma decode_record [packed_simps]:
  assumes d: "length (descriptor r) = 48"
  shows "packed_decode_record (record_bytes r) = canonical_record r"
proof -
  define source where "source = drop 4 (descriptor r)"
  define pairs where "pairs = concat (map (\<lambda>k. pack_pair k (source ! k) (source ! (k + 8))) [0..<8])"
  define tail where "tail = take 4 (drop 20 (descriptor r)) @ take 8 (drop 28 (descriptor r))"
  let ?packed = "le32_bytes (record_coordinate r) @ pairs @ tail"
  have packed: "record_bytes r = ?packed"
    by (simp add: record_bytes_def packed_append_record_def packed_append_u32_def Let_def source_def pairs_def tail_def)
  have len: "length pairs = 16" by (simp add: pairs_def upt_8)
  have at: "?packed ! (4 + k * 2) = pack_pair k (source ! k) (source ! (k + 8)) ! 0 \<and>
      ?packed ! (5 + k * 2) = pack_pair k (source ! k) (source ! (k + 8)) ! 1" if "k < 8" for k
  proof -
    have "?packed ! (4 + k * 2) = pairs ! (2 * k)" "?packed ! (5 + k * 2) = pairs ! (2 * k + 1)"
      using that len by (simp_all add: nth_append mult.commute)
    then show ?thesis
      using nth_pairs [of "\<lambda>k. pack_pair k (source ! k) (source ! (k + 8))" k 8] that
      unfolding pairs_def by simp
  qed
  have "map (\<lambda>k. unpack_pair k (?packed ! (4 + k * 2)) (?packed ! (5 + k * 2))) [0..<8] =
    map (\<lambda>k. (source ! k, source ! (k + 8))) [0..<8]"
  proof (rule map_cong [OF refl])
    fix k :: nat assume "k \<in> set [0..<8]"
    then have k: "k < 8" by simp
    show "unpack_pair k (?packed ! (4 + k * 2)) (?packed ! (5 + k * 2)) = (source ! k, source ! (k + 8))"
      unfolding conjunct1 [OF at [OF k]] conjunct2 [OF at [OF k]] by (rule unpack_pack_pair)
  qed
  note decoded = this
  have halves: "map fst (map (\<lambda>k. unpack_pair k (?packed ! (4 + k * 2)) (?packed ! (5 + k * 2))) [0..<8]) =
      take 8 (drop 4 (descriptor r))"
    "map snd (map (\<lambda>k. unpack_pair k (?packed ! (4 + k * 2)) (?packed ! (5 + k * 2))) [0..<8]) =
      take 8 (drop 12 (descriptor r))"
    unfolding decoded using map_slice [of 4 8 "descriptor r"] map_slice [of 12 8 "descriptor r"] d
    by (simp_all add: source_def comp_def add.commute)
  have tails: "take 4 (drop 20 ?packed) = take 4 (drop 20 (descriptor r))"
    "take 8 (drop 24 ?packed) = take 8 (drop 28 (descriptor r))"
    using len d by (simp_all add: tail_def)
  have "take 8 (drop 4 (descriptor r)) @ take 8 (drop 12 (descriptor r)) @ take 4 (drop 20 (descriptor r)) =
    take 20 (drop 4 (descriptor r))"
    using take_slice [of 8 12 "descriptor r" 4] take_slice [of 8 4 "descriptor r" 12] by simp
  then have body: "[2, 0, 0, 0] @ take 8 (drop 4 (descriptor r)) @ take 8 (drop 12 (descriptor r)) @
      take 4 (drop 20 (descriptor r)) @ xs = [2, 0, 0, 0] @ take 20 (drop 4 (descriptor r)) @ xs" for xs :: bytes
    by (metis append.assoc)
  show ?thesis
    unfolding packed packed_decode_record_def Let_def le32_at_0_append halves tails body
    unfolding canonical_record_def record_coordinate_def coordinate_fields Let_def ..
qed

lemma length_canonical_descriptor [simp]:
  "length (descriptor r) = 48 \<Longrightarrow> length (descriptor (canonical_record r)) = 48"
  by (simp add: canonical_record_def)

section \<open>Subtemplates\<close>

definition subtemplate_scalars :: "subtemplate \<Rightarrow> (byte \<times> nat) list" where
  "subtemplate_scalars s =
     [(0xb5, group_state s), (0xb6, relation_base s), (0xb7, active_count s), (0xb8, quality s),
      (0xb9, coverage s), (0xba, study_state s), (0xbb, study_flags s), (0xbc, lineage_index s),
      (0xbd, replacement_count s), (0xbe, study_value_a s), (0xc0, study_value_b s)]"

definition scalars_bytes :: "(byte \<times> nat) list \<Rightarrow> bytes" where
  "scalars_bytes fs = concat (map (\<lambda>(tag, v). scalar_bytes tag (of_nat v)) fs)"

definition resolution_bytes :: "metric_data \<Rightarrow> bytes" where
  "resolution_bytes m = (if packed_resolution m \<noteq> 0 then scalar_bytes 0xc7 (of_nat (packed_resolution m)) else [])"

definition subtemplate_body :: "subtemplate \<Rightarrow> bytes" where
  "subtemplate_body s =
     (let m = subtemplate_metric s in
      map_bytes 0xb2 (primary m) @ map_bytes 0xcf (secondary m) @ blob_bytes 0xce (take 40 (coarse_mask m)) @
      map_bytes 0xcd (validity m) @ scalar_bytes 0xb3 (of_nat (record_count s)) @
      0xb4 # le32_bytes (of_nat (record_count s * 32)) @
      concat (map record_bytes (take (record_count s) (records s))) @
      scalars_bytes (subtemplate_scalars s) @ resolution_bytes m)"

lemma append_subtemplate [packed_simps]:
  "packed_append_subtemplate packed s = packed @ blob_bytes 0x95 (subtemplate_body s)"
proof -
  have "foldl packed_append_record p rs = p @ concat (map record_bytes rs)" for p rs
    by (rule foldl_append_map) (rule append_record)
  moreover have "foldl (\<lambda>p (tag, v). packed_append_scalar p tag (of_nat v)) p fs = p @ scalars_bytes fs" for p fs
    unfolding scalars_bytes_def by (rule foldl_append_map) (simp add: append_scalar split: prod.split)
  ultimately show ?thesis
    using patch_length_body [of packed "0x95" 0 "subtemplate_body s"]
    by (cases "packed_resolution (subtemplate_metric s) = 0")
      (simp_all add: packed_append_subtemplate_def Let_def append_scalar append_blob append_map packed_append_u32_def
        subtemplate_body_def subtemplate_scalars_def resolution_bytes_def)
qed

text \<open>What the format can hold: the planes at their size, counters within 32 bits.\<close>

definition metric_packable :: "metric_data \<Rightarrow> bool" where
  "metric_packable m \<longleftrightarrow> length (primary m) = 160 \<and> length (secondary m) = 160 \<and> length (validity m) = 160 \<and>
     length (coarse_mask m) = 40 \<and> packed_resolution m < 2 ^ 32"

definition subtemplate_packable :: "enrollment \<Rightarrow> subtemplate \<Rightarrow> bool" where
  "subtemplate_packable self s \<longleftrightarrow>
     subtemplate_ok self s \<and> sub_metric s \<noteq> None \<and> metric_packable (subtemplate_metric s) \<and>
     list_all (\<lambda>r. length (descriptor r) = 48) (records s) \<and> lineage_index s < capacity self \<and>
     list_all (\<lambda>(tag, v). v < 2 ^ 32) (subtemplate_scalars s)"

text \<open>What comes back of a subtemplate.\<close>

definition canonical_metric :: "metric_data \<Rightarrow> metric_data" where
  "canonical_metric m = metric_data_build_position_map m"

definition canonical_subtemplate :: "subtemplate \<Rightarrow> subtemplate" where
  "canonical_subtemplate s =
     s\<lparr> records := map (\<lambda>k. (canonical_record (records s ! k))\<lparr> foreground := (if active_count s \<le> k then 1 else 0) \<rparr>)
          [0..<record_count s],
        sub_metric := map_option canonical_metric (sub_metric s) \<rparr>"

lemma concat_records:
  assumes "list_all (\<lambda>r. length (descriptor r) = 48) rs"
  shows "length (concat (map record_bytes rs)) = length rs * 32"
    and "k < length rs \<Longrightarrow> take 32 (drop (k * 32) (concat (map record_bytes rs))) = record_bytes (rs ! k)"
proof -
  show "length (concat (map record_bytes rs)) = length rs * 32"
    using assms by (induction rs) simp_all
  show "take 32 (drop (k * 32) (concat (map record_bytes rs))) = record_bytes (rs ! k)" if "k < length rs"
    using assms that
  proof (induction rs arbitrary: k)
    case (Cons r rs)
    then show ?case by (cases k) simp_all
  qed simp
qed

lemma length_subtemplate_body:
  assumes "subtemplate_packable self s"
  shows "length (subtemplate_body s) = 680 + record_count s * 32 + (if packed_resolution (subtemplate_metric s) \<noteq> 0 then 5 else 0)"
  using assms concat_records(1) [of "records s"]
  by (simp add: subtemplate_packable_def subtemplate_ok_def metric_packable_def subtemplate_body_def Let_def
      subtemplate_scalars_def scalars_bytes_def resolution_bytes_def)

lemma read_position_map:
  "metric_data_build_position_map (m\<lparr> position_map := x \<rparr>) = metric_data_build_position_map m"
  by (simp add: metric_data_build_position_map_def)

lemma take_subtemplate [packed_simps]:
  assumes packable: "subtemplate_packable self s" and limit: "record_limit self \<le> 120"
  shows "packed_take_subtemplate (capacity self) (record_limit self) (blob_bytes 0x95 (subtemplate_body s) @ rest) =
    Some (canonical_subtemplate s, rest)"
proof -
  define m where "m = subtemplate_metric s"
  have s: "active_count s \<le> record_count s" "record_count s \<le> record_limit self" "length (records s) = record_count s"
    "sub_metric s = Some m" "list_all (\<lambda>r. length (descriptor r) = 48) (records s)" "lineage_index s < capacity self"
    using packable by (auto simp: subtemplate_packable_def subtemplate_ok_def subtemplate_metric_def m_def)
  have m: "length (primary m) = 160" "length (secondary m) = 160" "length (validity m) = 160"
    "length (coarse_mask m) = 40" "packed_resolution m < 2 ^ 32"
    using packable by (simp_all add: subtemplate_packable_def metric_packable_def m_def)
  have small: "group_state s < 2 ^ 32" "relation_base s < 2 ^ 32" "active_count s < 2 ^ 32" "quality s < 2 ^ 32"
    "coverage s < 2 ^ 32" "study_state s < 2 ^ 32" "study_flags s < 2 ^ 32" "lineage_index s < 2 ^ 32"
    "replacement_count s < 2 ^ 32" "study_value_a s < 2 ^ 32" "study_value_b s < 2 ^ 32"
    using packable by (simp_all add: subtemplate_packable_def subtemplate_scalars_def)
  define recs where "recs = concat (map record_bytes (records s))"
  have recs: "length recs = record_count s * 32" "record_count s * 32 < 2 ^ 32" "record_count s < 2 ^ 32"
    using concat_records(1) [OF s(5)] s(2,3) limit by (simp_all add: recs_def)
  have body: "subtemplate_body s = map_bytes 0xb2 (primary m) @ map_bytes 0xcf (secondary m) @
      blob_bytes 0xce (coarse_mask m) @ map_bytes 0xcd (validity m) @ scalar_bytes 0xb3 (of_nat (record_count s)) @
      blob_bytes 0xb4 recs @ scalars_bytes (subtemplate_scalars s) @ resolution_bytes m"
    using s(3) m(4) recs(1) by (simp add: subtemplate_body_def Let_def m_def [symmetric] recs_def [symmetric] blob_bytes_def)
  have "length (subtemplate_body s) < 2 ^ 32"
    using length_subtemplate_body [OF packable] s(2) limit by simp
  note outer = read_blob [OF this]
  have resolution: "(if resolution_bytes m \<noteq> [] \<and> hd (resolution_bytes m) = 0xc7
      then packed_cursor_nat 0xc7 (resolution_bytes m) else Some (0, resolution_bytes m)) = Some (packed_resolution m, [])"
    using read_nat [OF m(5), of "0xc7" "[]"] by (simp add: resolution_bytes_def) (simp add: scalar_bytes_def)
  have decoded: "map (\<lambda>k. (packed_decode_record (take 32 (drop (k * 32) recs)))\<lparr> foreground := (if active_count s \<le> k then 1 else 0) \<rparr>)
      [0..<record_count s] =
    map (\<lambda>k. (canonical_record (records s ! k))\<lparr> foreground := (if active_count s \<le> k then 1 else 0) \<rparr>) [0..<record_count s]"
  proof (rule map_cong [OF refl])
    fix k assume "k \<in> set [0..<record_count s]"
    then have k: "k < length (records s)" using s(3) by simp
    then have "length (descriptor (records s ! k)) = 48" using s(5) by (simp add: list_all_length)
    then have "packed_decode_record (take 32 (drop (k * 32) recs)) = canonical_record (records s ! k)"
      unfolding recs_def concat_records(2) [OF s(5) k] by (rule decode_record)
    then show "(packed_decode_record (take 32 (drop (k * 32) recs)))\<lparr> foreground := (if active_count s \<le> k then 1 else 0) \<rparr> =
      (canonical_record (records s ! k))\<lparr> foreground := (if active_count s \<le> k then 1 else 0) \<rparr>" by simp
  qed
  have canonical: "canonical_subtemplate s = \<lparr> record_count = record_count s, active_count = active_count s,
      quality = quality s, coverage = coverage s,
      records = map (\<lambda>k. (canonical_record (records s ! k))\<lparr> foreground := (if active_count s \<le> k then 1 else 0) \<rparr>) [0..<record_count s],
      sub_metric = Some (metric_data_build_position_map
        \<lparr> primary = primary m, secondary = secondary m, validity = validity m, coarse_mask = coarse_mask m,
          position_map = replicate 160 0, packed_resolution = packed_resolution m \<rparr>),
      group_state = group_state s, relation_base = relation_base s, study_state = study_state s,
      study_flags = study_flags s, lineage_index = lineage_index s, replacement_count = replacement_count s,
      study_value_a = study_value_a s, study_value_b = study_value_b s \<rparr>"
    by (rule subtemplate.equality)
      (simp_all add: canonical_subtemplate_def s(4) canonical_metric_def metric_data_build_position_map_def)
  show ?thesis
    unfolding packed_take_subtemplate_def packed_cursor_container_def outer canonical
    unfolding body scalars_bytes_def subtemplate_scalars_def
    using small recs(2,3) s(1,2,6)
    by (simp add: read_map read_blob read_nat m(1-4) recs(1) resolution decoded)
qed

section \<open>Relations and the matcher state\<close>

definition relation_body :: "nat \<Rightarrow> relation \<Rightarrow> bytes" where
  "relation_body k r = scalar_bytes 0xe3 (of_nat k) @ scalar_bytes 0xe1 (of_i32 (inlier_count r)) @
     concat (map (\<lambda>(j, v). scalar_bytes (0xe4 + of_nat j) (of_i32 v)) (enumerate 0 (relation_coefficients r)))"

lemma relation_coefficients_six: "length (relation_coefficients r) = 6"
  by (simp add: relation_coefficients_def Let_def)

lemma length_relation_body [simp]: "length (relation_body k r) = 40"
  by (simp add: relation_body_def relation_coefficients_def Let_def)

lemma append_relation [packed_simps]:
  "packed_append_relation packed k r = packed @ blob_bytes 0x96 (relation_body k r)"
proof -
  have "foldl (\<lambda>p (k, v). packed_append_scalar p (0xe4 + of_nat k) (of_i32 v)) p xs =
    p @ concat (map (\<lambda>(j, v). scalar_bytes (0xe4 + of_nat j) (of_i32 v)) xs)" for p and xs :: "(nat \<times> int) list"
    by (rule foldl_append_map) (simp add: append_scalar split: prod.split)
  then show ?thesis
    by (simp add: packed_append_relation_def Let_def append_scalar packed_append_u32_def blob_bytes_def)
      (simp add: relation_body_def)
qed

definition relation_packable :: "relation \<Rightarrow> bool" where
  "relation_packable r \<longleftrightarrow> in_i32 (inlier_count r) \<and> list_all in_i32 (relation_coefficients r)"

lemma take_coefficients:
  "list_all in_i32 vs \<Longrightarrow>
   packed_take_coefficients j (length vs)
     (concat (map (\<lambda>(j, v). scalar_bytes (0xe4 + of_nat j) (of_i32 v)) (enumerate j vs)) @ rest) = Some (vs, rest)"
  by (induction vs arbitrary: j) (simp_all add: read_scalar)

lemma take_relation:
  assumes "relation_packable r" and "k < count" and "count < 2 ^ 32"
  shows "packed_take_relation count (blob_bytes 0x96 (relation_body k r) @ rest) = Some (k, r, rest)"
proof -
  have coefficients: "packed_take_coefficients 0 6
      (concat (map (\<lambda>(j, v). scalar_bytes (0xe4 + of_nat j) (of_i32 v)) (enumerate 0 (relation_coefficients r)))) =
    Some (relation_coefficients r, [])"
    using take_coefficients [of "relation_coefficients r" 0 "[]"] assms(1) relation_coefficients_six [of r]
    by (simp add: relation_packable_def)
  have "r = \<lparr> inlier_count = inlier_count r, rel_transform = mk_transform (relation_coefficients r ! 0)
      (relation_coefficients r ! 1) (relation_coefficients r ! 2) (relation_coefficients r ! 3)
      (relation_coefficients r ! 4) (relation_coefficients r ! 5) \<rparr>"
    by (simp add: relation_coefficients_def Let_def mk_transform_def)
  then show ?thesis
    using assms read_blob [of "relation_body k r" "0x96" rest]
    by (simp add: packed_take_relation_def packed_cursor_container_def relation_packable_def)
      (simp add: relation_body_def read_nat read_scalar coefficients)
qed

lemma take_relations:
  assumes "\<forall>k \<in> set ks. k < count \<and> relation_packable (R ! k)" and "count < 2 ^ 32"
    and "rest \<noteq> []" and "hd rest \<noteq> 0x96"
  shows "packed_take_relations count rels edges (concat (map (\<lambda>k. blob_bytes 0x96 (relation_body k (R ! k))) ks) @ rest) =
    Some (foldl (\<lambda>rels k. rels[k := R ! k]) rels ks, edges @ ks, rest)"
  using assms(1)
proof (induction ks arbitrary: rels edges)
  case Nil
  then show ?case using assms(4) by (simp add: packed_take_relations.simps)
next
  case (Cons k ks)
  have "blob_bytes 0x96 (relation_body k (R ! k)) @ xs \<noteq> []" "hd (blob_bytes 0x96 (relation_body k (R ! k)) @ xs) = 0x96" for xs
    by (simp_all add: blob_bytes_def)
  then show ?case
    using Cons take_relation [of "R ! k" k count] assms(2)
    by (subst packed_take_relations.simps) simp
qed

lemma foldl_restore:
  assumes "set ks \<subseteq> {..<length xs}"
  shows "foldl (\<lambda>xs k. xs[k := R ! k]) xs ks = map (\<lambda>k. if k \<in> set ks then R ! k else xs ! k) [0..<length xs]"
  using assms
proof (induction ks arbitrary: xs)
  case Nil
  then show ?case by (simp add: map_nth)
next
  case (Cons k ks)
  then show ?case by (intro nth_equalityI) (auto simp: nth_list_update)
qed

definition order_bytes :: "nat list \<Rightarrow> bytes" where
  "order_bytes order = concat (map (\<lambda>v. le32_bytes (of_nat v)) order)"

lemma length_order_bytes [simp]: "length (order_bytes order) = 4 * length order"
  by (induction order) (simp_all add: order_bytes_def)

lemma read_order_entry:
  "k < length order \<Longrightarrow> order ! k < 2 ^ 32 \<Longrightarrow> unat (le32_at (order_bytes order) (k * 4)) = order ! k"
proof (induction order arbitrary: k)
  case (Cons v order)
  show ?case
  proof (cases k)
    case 0
    then show ?thesis using Cons.prems by (simp add: order_bytes_def le32_at_0_append unat_of_nat)
  next
    case (Suc j)
    have "le32_at (le32_bytes (of_nat v) @ order_bytes order) (4 + j * 4) = le32_at (order_bytes order) (j * 4)"
      using le32_at_append [of "le32_bytes (of_nat v)" "order_bytes order" "j * 4"] by simp
    then show ?thesis using Cons Suc by (simp add: order_bytes_def)
  qed
qed simp

definition matcher_body :: "enrollment \<Rightarrow> bytes" where
  "matcher_body self = blob_bytes 0xa1 (order_bytes (match_order self)) @
     scalar_bytes 0xa2 (of_nat (matcher_active_index self)) @ blob_bytes 0xa3 matcher_version @
     blob_bytes 0xa4 (replicate 1024 0) @
     scalars_bytes [(0xa5, matcher_value_a self), (0xa6, matcher_value_b self), (0xa7, matcher_value_c self),
       (0xa8, matcher_value_d self)]"

lemma length_matcher_version [simp]: "length matcher_version = 64"
  by (simp add: matcher_version_def)

lemma length_matcher_body: "length (match_order self) = 50 \<Longrightarrow> length (matcher_body self) = 1328"
  by (simp add: matcher_body_def scalars_bytes_def)

lemma append_scalars:
  "foldl (\<lambda>p (tag, v). packed_append_scalar p tag (of_nat v)) p fs = p @ scalars_bytes fs"
  unfolding scalars_bytes_def by (rule foldl_append_map) (simp add: append_scalar split: prod.split)

lemma append_matcher_state [packed_simps]:
  assumes "length (match_order self) = 50"
  shows "packed_append_matcher_state packed self = packed @ blob_bytes 0x94 (matcher_body self)"
proof -
  have "foldl (\<lambda>p v. packed_append_u32 p (of_nat v)) p vs = p @ order_bytes vs" for p vs
    unfolding order_bytes_def by (rule foldl_append_map) (simp add: packed_append_u32_def)
  then show ?thesis
    using assms length_matcher_body [OF assms]
    by (simp add: packed_append_matcher_state_def Let_def packed_append_u32_def append_scalar append_blob append_scalars
        blob_bytes_def) (simp add: matcher_body_def blob_bytes_def scalars_bytes_def)
qed

section \<open>The whole template\<close>

text \<open>The mask has one entry per relation, and its second component counts the marks.\<close>

definition mask_ok :: "nat \<Rightarrow> bool list \<times> nat \<Rightarrow> bool" where
  "mask_ok n marks \<longleftrightarrow> length (fst marks) = n \<and> snd marks = length (filter id (fst marks))"

lemma count_mark:
  "k < length ms \<Longrightarrow> \<not> ms ! k \<Longrightarrow> length (filter id (ms[k := True])) = Suc (length (filter id ms))"
proof (induction ms arbitrary: k)
  case (Cons m ms)
  then show ?case by (cases k) simp_all
qed simp

lemma mask_ok_mark: "mask_ok n marks \<Longrightarrow> mask_ok n (mark_relation marks k)"
  by (cases marks) (auto simp: mask_ok_def mark_relation_def count_mark)

lemma mask_ok_reconnect: "mask_ok n (snd st) \<Longrightarrow> mask_ok n (snd (reconnect_step self anchor st k))"
  by (cases st) (auto simp: reconnect_step_def Let_def mask_ok_mark split: option.split)

lemma mask_ok_relation_mask: "mask_ok (length (relations self)) (build_serialized_relation_mask self)"
proof -
  have start: "mask_ok n (replicate n False, 0)" for n by (simp add: mask_ok_def)
  have marks: "mask_ok n (foldl mark_relation marks ks)" if "mask_ok n marks" for n marks ks
    using that by (induction ks arbitrary: marks) (simp_all add: mask_ok_mark)
  have reconnects: "mask_ok n (snd (foldl (reconnect_step self anchor) st ks))" if "mask_ok n (snd st)" for n anchor st ks
    using that by (induction ks arbitrary: st) (simp_all add: mask_ok_reconnect)
  show ?thesis
    unfolding build_serialized_relation_mask_def Let_def
    by (auto simp: marks [OF start] reconnects split: prod.split option.split)
qed

definition kept_relations :: "enrollment \<Rightarrow> nat list" where
  "kept_relations self = filter (\<lambda>k. fst (build_serialized_relation_mask self) ! k) [0..<length (relations self)]"

lemma length_kept_relations: "length (kept_relations self) = snd (build_serialized_relation_mask self)"
proof -
  have "length (filter (\<lambda>k. ms ! k) [0..<length ms]) = length (filter id ms)" for ms
  proof -
    have "filter id ms = filter id (map (\<lambda>k. ms ! k) [0..<length ms])" by (simp add: map_nth)
    then show ?thesis by (simp add: filter_map comp_def)
  qed
  then show ?thesis
    using mask_ok_relation_mask [of self] by (metis kept_relations_def mask_ok_def)
qed

definition relations_bytes :: "enrollment \<Rightarrow> bytes" where
  "relations_bytes self = concat (map (\<lambda>k. blob_bytes 0x96 (relation_body k (relations self ! k))) (kept_relations self))"

definition scheduler_body :: "enrollment \<Rightarrow> bytes" where
  "scheduler_body self =
     (let grouped = length (filter (\<lambda>s. group_state s = 1) (subtemplates self)) in
      scalar_bytes 0xf2 (if grouped > 1 then 0 else 0xffffffff) @ scalar_bytes 0xf3 0xffffffff @
      scalar_bytes 0xf4 0xffffffff @ scalar_bytes 0xf5 (if grouped > 1 then 1 else 0))"

definition template_body :: "enrollment \<Rightarrow> bytes" where
  "template_body self =
     concat (map (\<lambda>(tag, v). scalar_bytes tag v) (header_scalars self)) @
     concat (map (\<lambda>s. blob_bytes 0x95 (subtemplate_body s)) (subtemplates self)) @
     relations_bytes self @ blob_bytes 0x93 (scheduler_body self) @ blob_bytes 0x94 (matcher_body self)"

definition packable :: "enrollment \<Rightarrow> bool" where
  "packable self \<longleftrightarrow>
     enrollment_wf self \<and> record_limit self \<le> 120 \<and> list_all (subtemplate_packable self) (subtemplates self) \<and>
     list_all relation_packable (relations self) \<and> matcher_active_index self < 2 ^ 32 \<and>
     matcher_value_a self < 2 ^ 32 \<and> matcher_value_b self < 2 ^ 32 \<and> matcher_value_c self < 2 ^ 32 \<and>
     matcher_value_d self < 2 ^ 32"

text \<open>What a template gives back: lossy records, the relations that were not kept reset, no group anchor.\<close>

definition canonical_enrollment :: "enrollment \<Rightarrow> enrollment" where
  "canonical_enrollment self =
     self\<lparr> required_samples := 8, subtemplates := map canonical_subtemplate (subtemplates self),
       relations := map (\<lambda>k. if k \<in> set (kept_relations self) then relations self ! k else absent_relation k)
         [0..<length (relations self)],
       group_edges := kept_relations self, transform_count := length (relations self),
       group_anchor := 0, has_group_anchor := False \<rparr>"

lemma packable_parts:
  assumes "packable self"
  shows "enrollment_wf self" "length (subtemplates self) \<le> capacity self" "capacity self \<le> 50"
    "length (relations self) = triangle (length (subtemplates self))" "length (match_order self) = 50"
    "record_limit self \<le> 120" "\<And>s. s \<in> set (subtemplates self) \<Longrightarrow> subtemplate_packable self s"
    "\<And>k. k < length (relations self) \<Longrightarrow> relation_packable (relations self ! k)"
  using assms enrollment_wfD(1,2,4,8) [of self]
  by (auto simp: packable_def match_order_ok_def list_all_iff)

lemma sum_list_bodies:
  assumes "\<And>s. s \<in> set ss \<Longrightarrow> subtemplate_packable self s"
  shows "length (concat (map (\<lambda>s. blob_bytes 0x95 (subtemplate_body s)) ss)) =
    sum_list (map (\<lambda>s. record_count s * 32 + 685 +
        (case sub_metric s of None \<Rightarrow> 0 | Some m \<Rightarrow> if packed_resolution m \<noteq> 0 then 5 else 0)) ss)"
  using assms
proof (induction ss)
  case (Cons s ss)
  have s: "subtemplate_packable self s" using Cons.prems by simp
  then obtain m where "sub_metric s = Some m" by (auto simp: subtemplate_packable_def)
  moreover have "length (concat (map (\<lambda>s. blob_bytes 0x95 (subtemplate_body s)) ss)) =
    sum_list (map (\<lambda>s. record_count s * 32 + 685 +
        (case sub_metric s of None \<Rightarrow> 0 | Some m \<Rightarrow> if packed_resolution m \<noteq> 0 then 5 else 0)) ss)"
    by (rule Cons.IH) (use Cons.prems in simp)
  ultimately show ?case
    using length_subtemplate_body [OF s] by (simp add: subtemplate_metric_def)
qed simp

lemma length_template_body:
  assumes "packable self"
  shows "length (template_body self) + 10 = goodix_chicago_enrollment_get_packed_size self"
proof -
  note p = packable_parts [OF assms]
  have kept: "length (concat (map (\<lambda>k. blob_bytes 0x96 (relation_body k (f k))) ks)) = 45 * length ks" for f ks
    by (induction ks) simp_all
  show ?thesis
    using sum_list_bodies [OF p(7)] kept length_matcher_body [OF p(5)] length_kept_relations [of self]
    by (simp add: template_body_def goodix_chicago_enrollment_get_packed_size_def header_scalars_def
        scheduler_body_def Let_def relations_bytes_def)
qed

lemma packed_before_patch:
  assumes "packable self"
  defines "grouped \<equiv> length (filter (\<lambda>s. group_state s = 1) (subtemplates self))"
  shows "packed_append_matcher_state
      (foldl (\<lambda>p (tag, v). packed_append_scalar p tag v)
        (packed_append_u32
          (foldl (\<lambda>p k. if fst (build_serialized_relation_mask self) ! k then packed_append_relation p k (relations self ! k) else p)
            (foldl packed_append_subtemplate
              (foldl (\<lambda>p (tag, v). packed_append_scalar p tag v) packed (header_scalars self))
              (subtemplates self)) [0..<length (relations self)] @ [0x93]) 20)
        [(0xf2, if grouped > 1 then 0 else 0xffffffff), (0xf3, 0xffffffff), (0xf4, 0xffffffff),
         (0xf5, if grouped > 1 then 1 else 0)]) self = packed @ template_body self"
proof -
  have scalars: "foldl (\<lambda>p (tag, v). packed_append_scalar p tag v) p fs = p @ concat (map (\<lambda>(tag, v). scalar_bytes tag v) fs)" for p fs
    by (rule foldl_append_map) (simp add: append_scalar split: prod.split)
  have subs: "foldl packed_append_subtemplate p ss = p @ concat (map (\<lambda>s. blob_bytes 0x95 (subtemplate_body s)) ss)" for p ss
    by (rule foldl_append_map) (rule append_subtemplate)
  have rels: "foldl (\<lambda>p k. if M k then packed_append_relation p k (R k) else p) p ks =
      p @ concat (map (\<lambda>k. blob_bytes 0x96 (relation_body k (R k))) (filter M ks))" for M R p ks
    by (induction ks arbitrary: p) (simp_all add: append_relation)
  have scheduler: "p @ [0x93] @ le32_bytes 20 @ concat (map (\<lambda>(tag, v). scalar_bytes tag v)
        [(0xf2, if grouped > 1 then 0 else 0xffffffff), (0xf3, 0xffffffff), (0xf4, 0xffffffff),
         (0xf5, if grouped > 1 then 1 else 0)]) = p @ blob_bytes 0x93 (scheduler_body self)" for p
    by (simp add: blob_bytes_def scheduler_body_def Let_def grouped_def)
  show ?thesis
    unfolding append_matcher_state [OF packable_parts(5) [OF assms(1)]] scalars subs rels packed_append_u32_def
    using scheduler [of "packed @ concat (map (\<lambda>(tag, v). scalar_bytes tag v) (header_scalars self)) @
        concat (map (\<lambda>s. blob_bytes 0x95 (subtemplate_body s)) (subtemplates self)) @ relations_bytes self"]
    by (simp only: template_body_def relations_bytes_def kept_relations_def append.assoc)
qed

lemma pack_bytes:
  assumes "packable self"
  shows "goodix_chicago_enrollment_pack self =
    Inr (0x87 # le32_bytes (packed_crc32 (template_body self)) @ 0x86 #
      le32_bytes (of_nat (length (template_body self))) @ template_body self)"
proof -
  let ?b = "template_body self" and ?n = "le32_bytes (of_nat (length (template_body self)))"
  have metric: "\<not> (\<exists>s \<in> set (subtemplates self). sub_metric s = None)"
    using packable_parts(7) [OF assms] by (auto simp: subtemplate_packable_def)
  let ?p7 = "packed_append_u32 [0x87, 0, 0, 0, 0, 0x86] 0 @ ?b"
  have p7: "?p7 = [0x87, 0, 0, 0, 0, 0x86] @ le32_bytes 0 @ ?b" by (simp add: packed_append_u32_def)
  have size: "length ?p7 = goodix_chicago_enrollment_get_packed_size self"
    using length_template_body [OF assms] by (simp add: packed_append_u32_def)
  have p8: "write_at ?p7 6 (le32_bytes (of_nat (length ?p7 - 10))) = [0x87, 0, 0, 0, 0, 0x86] @ ?n @ ?b"
    unfolding p7 by (simp add: write_at_def)
  have body: "drop 10 ([0x87, 0, 0, 0, 0, 0x86] @ ?n @ ?b) = ?b" by simp
  have p9: "write_at ([0x87, 0, 0, 0, 0, 0x86] @ ?n @ ?b) 1 (le32_bytes v) = 0x87 # le32_bytes v @ 0x86 # ?n @ ?b" for v
    by (simp add: write_at_def)
  show ?thesis
    unfolding goodix_chicago_enrollment_pack_def Let_def if_not_P [OF metric] packed_before_patch [OF assms]
      p8 body p9 using size by simp
qed

lemma read_order:
  assumes "match_order_ok order n" and "n \<le> cap" and "cap \<le> 50"
  shows "map (\<lambda>k. unat (le32_at (order_bytes order) (k * 4))) [0..<cap] @ replicate (50 - cap) G_MAXUINT32 = order"
    and "match_order_valid order n cap"
proof -
  have o: "length order = 50" "distinct (take n order)" "set (take n order) = {0..<n}"
    "drop n order = replicate (50 - n) G_MAXUINT32"
    using assms(1) unfolding match_order_ok_def by blast+
  have low: "order ! k < n" if "k < n" for k
  proof -
    have "take n order ! k \<in> set (take n order)" using that o(1) assms(2,3) by (intro nth_mem) simp
    then show ?thesis using that o(3) by simp
  qed
  have high: "order ! k = G_MAXUINT32" if "n \<le> k" "k < 50" for k
  proof -
    have "drop n order ! (k - n) = G_MAXUINT32" using that by (simp add: o(4))
    then show ?thesis using that o(1) by simp
  qed
  have small: "order ! k < 2 ^ 32" if "k < 50" for k
    using low [of k] high [of k] that assms(2,3) by (cases "k < n") auto
  have "map (\<lambda>k. unat (le32_at (order_bytes order) (k * 4))) [0..<cap] = take cap order"
    using o(1) assms(3) small by (intro nth_equalityI) (simp_all add: read_order_entry)
  moreover have "drop cap order = replicate (50 - cap) G_MAXUINT32"
    using o(1) assms(2,3) high by (intro nth_equalityI) simp_all
  ultimately show "map (\<lambda>k. unat (le32_at (order_bytes order) (k * 4))) [0..<cap] @ replicate (50 - cap) G_MAXUINT32 = order"
    by (metis append_take_drop_id)
  have "order ! j \<noteq> order ! k" if "j < k" "k < n" for j k
    using nth_eq_iff_index_eq [OF o(2), of j k] that o(1) assms(2,3) by simp
  then show "match_order_valid order n cap"
    using low high assms(3) by (auto simp: match_order_valid_def)
qed

lemma take_subtemplates:
  assumes "\<And>s. s \<in> set ss \<Longrightarrow> subtemplate_packable self s" and "record_limit self \<le> 120"
  shows "packed_take_subtemplates (capacity self) (record_limit self) (length ss)
      (concat (map (\<lambda>s. blob_bytes 0x95 (subtemplate_body s)) ss) @ rest) = Some (map canonical_subtemplate ss, rest)"
  using assms by (induction ss) (simp_all add: take_subtemplate)

lemma triangle_bound: "triangle n \<le> n * (n + 1) div 2"
proof (induction n)
  case (Suc n)
  have "Suc n * (Suc n + 1) = n * (n + 1) + 2 * (n + 1)" by (simp add: algebra_simps)
  then have "Suc n * (Suc n + 1) div 2 = n * (n + 1) div 2 + (n + 1)" by simp
  then show ?case using Suc by (simp split: if_splits)
qed simp

lemma unpack_template_body:
  assumes "packable self"
  shows "unpack_body (template_body self) = Some (canonical_enrollment self)"
proof -
  note p = packable_parts [OF assms]
  let ?n = "length (subtemplates self)" and ?t = "length (relations self)"
  have n: "?n \<le> 50" using p(2,3) by simp
  have t: "?t \<le> ?n * (?n + 1) div 2" using p(4) triangle_bound [of ?n] by simp
  have "?n * (?n + 1) \<le> 50 * 51" using n by (intro mult_le_mono) simp_all
  then have t_small: "?t < 2 ^ 32" using t by simp
  have small: "?n < 2 ^ 32" "capacity self < 2 ^ 32" "record_limit self < 2 ^ 32" using n p(3,6) by simp_all
  have scalars: "matcher_active_index self < 2 ^ 32" "matcher_value_a self < 2 ^ 32" "matcher_value_b self < 2 ^ 32"
    "matcher_value_c self < 2 ^ 32" "matcher_value_d self < 2 ^ 32" using assms by (simp_all add: packable_def)
  have kept: "\<forall>k \<in> set (kept_relations self). k < ?t \<and> relation_packable (relations self ! k)"
    using p(8) by (auto simp: kept_relations_def)
  let ?tail = "blob_bytes 0x93 (scheduler_body self) @ blob_bytes 0x94 (matcher_body self)"
  have "?tail \<noteq> []" "hd ?tail \<noteq> 0x96" by (simp_all add: blob_bytes_def)
  note rels = take_relations [OF kept t_small this, folded relations_bytes_def]
  have restored: "foldl (\<lambda>rels k. rels[k := relations self ! k]) (map absent_relation [0..<?t]) (kept_relations self) =
    map (\<lambda>k. if k \<in> set (kept_relations self) then relations self ! k else absent_relation k) [0..<?t]"
  proof -
    have "set (kept_relations self) \<subseteq> {..<length (map absent_relation [0..<?t])}" using kept by auto
    from foldl_restore [OF this, of "relations self"] show ?thesis by simp
  qed
  have scheduler: "length (scheduler_body self) = 20" by (simp add: scheduler_body_def Let_def)
  have matcher: "length (matcher_body self) = 1328" by (rule length_matcher_body [OF p(5)])
  note order = read_order [OF enrollment_wfD(8) [OF p(1)] p(2,3)]
  have "canonical_enrollment self = goodix_chicago_enrollment_new
       \<lparr> capacity := capacity self, record_limit := record_limit self,
         subtemplates := map canonical_subtemplate (subtemplates self),
         relations := map (\<lambda>k. if k \<in> set (kept_relations self) then relations self ! k else absent_relation k) [0..<?t],
         group_edges := kept_relations self, transform_count := ?t, match_order := match_order self,
         matcher_active_index := matcher_active_index self, matcher_value_a := matcher_value_a self,
         matcher_value_b := matcher_value_b self, matcher_value_c := matcher_value_c self,
         matcher_value_d := matcher_value_d self \<rparr>"
    by (rule enrollment.equality) (simp_all add: canonical_enrollment_def goodix_chicago_enrollment_new_def)
  note canonical = this
  have tail: "packed_cursor_container 0x93 ?tail = Some (scheduler_body self, blob_bytes 0x94 (matcher_body self))"
    "packed_cursor_container 0x94 (blob_bytes 0x94 (matcher_body self)) = Some (matcher_body self, [])"
    using read_blob [of "scheduler_body self" "0x93"] read_blob [of "matcher_body self" "0x94" "[]"] scheduler matcher
    by (simp_all add: packed_cursor_container_def)
  have header: "concat (map (\<lambda>(tag, v). scalar_bytes tag v) (header_scalars self)) @ r =
      scalar_bytes 0x81 0x002e14ef @ scalar_bytes 0x88 0x002e14ef @ scalar_bytes 0x89 0x002df160 @ scalar_bytes 0x98 24 @
      scalar_bytes 0x9a 64 @ scalar_bytes 0x9b 80 @ scalar_bytes 0x91 (of_nat ?n) @ scalar_bytes 0x97 (of_nat (capacity self)) @
      scalar_bytes 0x92 (of_nat ?t) @ scalar_bytes 0x9e (of_nat (record_limit self)) @
      scalar_bytes 0x9f (of_nat (record_limit self)) @ scalar_bytes 0x9c 1 @ scalar_bytes 0x9d 1 @ scalar_bytes 0xfa 0 @
      scalar_bytes 0xfb 0 @ r" for r
    by (simp add: header_scalars_def)
  have subs: "packed_take_subtemplates (capacity self) (record_limit self) ?n
      (concat (map (\<lambda>s. blob_bytes 0x95 (subtemplate_body s)) (subtemplates self)) @ rest) =
      Some (map canonical_subtemplate (subtemplates self), rest)" for rest
    by (rule take_subtemplates [OF p(7,6)])
  have guard: "require (?n \<le> capacity self \<and> capacity self \<le> 50 \<and> record_limit self \<le> 120 \<and> ?t \<le> ?n * (?n + 1) div 2) = Some ()"
    using p(2,3,6) t by (simp add: require_def)
  have matcher_read: "do {
     (matcher_order, matcher_state) \<leftarrow> packed_cursor_blob 0xa1 (matcher_body self);
     require (length matcher_order = 200);
     let order = map (\<lambda>k. unat (le32_at matcher_order (k * 4))) [0..<capacity self] @
                 replicate (50 - capacity self) G_MAXUINT32;
     require (match_order_valid order ?n (capacity self));
     (active_index, matcher_state) \<leftarrow> packed_cursor_nat 0xa2 matcher_state;
     (ignored, matcher_state) \<leftarrow> packed_cursor_blob 0xa3 matcher_state;
     require (length ignored = 64);
     (ignored, matcher_state) \<leftarrow> packed_cursor_blob 0xa4 matcher_state;
     require (length ignored = 1024);
     (value_a, matcher_state) \<leftarrow> packed_cursor_nat 0xa5 matcher_state;
     (value_b, matcher_state) \<leftarrow> packed_cursor_nat 0xa6 matcher_state;
     (value_c, matcher_state) \<leftarrow> packed_cursor_nat 0xa7 matcher_state;
     (value_d, matcher_state) \<leftarrow> packed_cursor_nat 0xa8 matcher_state;
     require (matcher_state = []);
     Some (f order active_index value_a value_b value_c value_d) } =
    Some (f (match_order self) (matcher_active_index self) (matcher_value_a self) (matcher_value_b self)
      (matcher_value_c self) (matcher_value_d self))" for f :: "nat list \<Rightarrow> nat \<Rightarrow> nat \<Rightarrow> nat \<Rightarrow> nat \<Rightarrow> nat \<Rightarrow> enrollment"
    using scalars p(5) read_nat [of "matcher_value_d self" "0xa8" "[]"]
    by (simp add: matcher_body_def scalars_bytes_def read_blob read_nat order Let_def)
  show ?thesis
    unfolding template_body_def header unpack_body_def
    using small t_small
    by (simp add: read_value read_nat guard [simplified] subs rels tail scheduler matcher restored matcher_read canonical)
qed

section \<open>Properties\<close>

lemma body_small:
  assumes "packable self"
  shows "length (template_body self) < 2 ^ 32"
proof -
  note p = packable_parts [OF assms]
  have subs: "sum_list (map (\<lambda>s. record_count s * 32 + 685 +
        (case sub_metric s of None \<Rightarrow> 0 | Some m \<Rightarrow> if packed_resolution m \<noteq> 0 then 5 else 0)) ss) \<le> 4530 * length ss"
    if "\<And>s. s \<in> set ss \<Longrightarrow> record_count s \<le> 120" for ss
    using that by (induction ss) (force split: option.splits)+
  have "record_count s \<le> 120" if "s \<in> set (subtemplates self)" for s
    using p(6) p(7) [OF that] by (simp add: subtemplate_packable_def subtemplate_ok_def)
  then have "sum_list (map (\<lambda>s. record_count s * 32 + 685 +
        (case sub_metric s of None \<Rightarrow> 0 | Some m \<Rightarrow> if packed_resolution m \<noteq> 0 then 5 else 0)) (subtemplates self)) \<le> 4530 * 50"
    using subs [of "subtemplates self"] p(2,3) by (meson le_trans mult_le_mono2)
  moreover have "snd (build_serialized_relation_mask self) \<le> 50 * 51"
  proof -
    have n: "length (subtemplates self) \<le> 50" using p(2,3) by simp
    have "length (kept_relations self) \<le> length (relations self)"
      unfolding kept_relations_def by (metis length_filter_le length_upt minus_nat.diff_0)
    also have "\<dots> \<le> length (subtemplates self) * (length (subtemplates self) + 1) div 2"
      unfolding p(4) by (rule triangle_bound)
    also have "\<dots> \<le> 50 * 51"
      using n mult_le_mono [of "length (subtemplates self)" 50 "length (subtemplates self) + 1" 51] by linarith
    finally show ?thesis by (simp add: length_kept_relations)
  qed
  ultimately show ?thesis
    using length_template_body [OF assms] by (simp add: goodix_chicago_enrollment_get_packed_size_def)
qed

lemma unpack_pack:
  assumes "packable self"
  shows "\<exists>data. goodix_chicago_enrollment_pack self = Inr data \<and>
    goodix_chicago_enrollment_unpack data = Inr (canonical_enrollment self) \<and>
    length data = goodix_chicago_enrollment_get_packed_size self"
proof -
  let ?b = "template_body self"
  let ?c = "le32_bytes (packed_crc32 ?b)" and ?n = "le32_bytes (of_nat (length ?b))"
  let ?data = "0x87 # ?c @ 0x86 # ?n @ ?b"
  have c: "le32_at ?data 1 = packed_crc32 ?b"
    using le32_at_append [of "[0x87]" "?c @ 0x86 # ?n @ ?b" 0] le32_at_0_append by simp
  have "le32_at ?data 6 = of_nat (length ?b)"
    using le32_at_append [of "0x87 # ?c @ [0x86]" "?n @ ?b" 0] le32_at_0_append by simp
  then have n: "unat (le32_at ?data 6) = length ?b" using body_small [OF assms] by (simp add: unat_of_nat)
  have tag: "?data ! 5 = 0x86" by (simp add: nth_append)
  have body: "drop 10 ?data = ?b" by simp
  have "goodix_chicago_enrollment_unpack ?data = Inr (canonical_enrollment self)"
    unfolding goodix_chicago_enrollment_unpack_def c n tag body unpack_template_body [OF assms] by simp
  then show ?thesis using pack_bytes [OF assms] length_template_body [OF assms] by simp
qed

text \<open>The templates that lose nothing form a codec.\<close>

interpretation packed: codec
  "\<lambda>self. projr (goodix_chicago_enrollment_pack self)"
  "\<lambda>data. case goodix_chicago_enrollment_unpack data of Inl e \<Rightarrow> None | Inr self \<Rightarrow> Some self"
  "\<lambda>self. packable self \<and> canonical_enrollment self = self"
proof (unfold_locales, elim conjE)
  fix self assume s: "packable self" "canonical_enrollment self = self"
  then show "(case goodix_chicago_enrollment_unpack (projr (goodix_chicago_enrollment_pack self)) of
      Inl e \<Rightarrow> None | Inr self \<Rightarrow> Some self) = Some self"
    using unpack_pack [OF s(1)] by auto
qed

section \<open>The kept relations connect what the strong relations connect\<close>

definition linked :: "int list \<Rightarrow> nat \<Rightarrow> (nat \<times> nat) set" where
  "linked parent n = {(i, j). i < n \<and> j < n \<and> (parent ! i = int j \<or> parent ! j = int i)}"

definition forest_ok :: "(nat \<Rightarrow> nat \<Rightarrow> bool) \<Rightarrow> nat \<Rightarrow> int list \<Rightarrow> int list \<Rightarrow> bool" where
  "forest_ok edge n component parent \<longleftrightarrow>
     length component = n \<and> length parent = n \<and>
     (\<forall>k < n. component ! k < 0 \<longrightarrow> parent ! k < 0) \<and>
     (\<forall>k < n. parent ! k \<ge> 0 \<longrightarrow> nat (parent ! k) < n \<and> nat (parent ! k) \<noteq> k \<and> edge (nat (parent ! k)) k) \<and>
     (\<forall>k < n. component ! k \<ge> 0 \<longrightarrow> (nat (component ! k), k) \<in> (linked parent n)\<^sup>*)"

definition stack_ok :: "nat \<Rightarrow> nat \<Rightarrow> int list \<Rightarrow> nat set \<Rightarrow> bool" where
  "stack_ok n root component ks \<longleftrightarrow> (\<forall>k \<in> ks. k < n \<and> component ! k = int root)"

lemma linked_grows:
  assumes "parent ! k < 0" and "length parent = n"
  shows "linked parent n \<subseteq> linked (parent[k := int j]) n"
proof (rule subrelI)
  fix a b assume ab: "(a, b) \<in> linked parent n"
  then consider "parent ! a = int b" | "parent ! b = int a" by (auto simp: linked_def)
  then show "(a, b) \<in> linked (parent[k := int j]) n"
  proof cases
    case 1
    then have "a \<noteq> k" using assms(1) by auto
    then show ?thesis using 1 ab by (simp add: linked_def)
  next
    case 2
    then have "b \<noteq> k" using assms(1) by auto
    then show ?thesis using 2 ab by (simp add: linked_def)
  qed
qed

lemma forest_ok_visit:
  assumes "forest_ok edge n component parent" and "stack_ok n root component (insert current (set stack))" and "k < n"
    and "forest_visit edge root current (component, parent, stack) k = (component', parent', stack')"
  shows "forest_ok edge n component' parent' \<and> stack_ok n root component' (insert current (set stack'))"
proof (cases "k = current \<or> component ! k \<ge> 0 \<or> \<not> edge current k")
  case True
  then have "forest_visit edge root current (component, parent, stack) k = (component, parent, stack)"
    by (auto simp: forest_visit_def)
  then show ?thesis using assms by simp
next
  case False
  then have e: "component' = component[k := int root]" "parent' = parent[k := int current]" "stack' = k # stack"
    using assms(4) by (auto simp: forest_visit_def)
  have f: "length component = n" "length parent = n" "parent ! k < 0" "current < n" "component ! current = int root"
    using assms(1-3) False by (auto simp: forest_ok_def stack_ok_def)
  let ?old = "linked parent n" and ?new = "linked parent' n"
  have grows: "?old\<^sup>* \<subseteq> ?new\<^sup>*" unfolding e by (intro rtrancl_mono linked_grows f)
  have "(root, current) \<in> ?old\<^sup>*" using assms(1) f(4,5) by (auto simp: forest_ok_def)
  moreover have "(current, k) \<in> ?new" using f assms(3) by (simp add: linked_def e)
  ultimately have root: "(root, k) \<in> ?new\<^sup>*" using grows by (meson rtrancl.rtrancl_into_rtrancl subsetD)
  have reached: "(nat (component' ! j), j) \<in> ?new\<^sup>*" if "j < n" "component' ! j \<ge> 0" for j
  proof (cases "j = k")
    case True
    then show ?thesis using root f(1) assms(3) by (simp add: e)
  next
    case False
    then have "(nat (component ! j), j) \<in> ?old\<^sup>*" using that assms(1) by (simp add: e forest_ok_def)
    then show ?thesis using grows False by (auto simp: e)
  qed
  have parents: "nat (parent' ! j) < n \<and> nat (parent' ! j) \<noteq> j \<and> edge (nat (parent' ! j)) j" if "j < n" "parent' ! j \<ge> 0" for j
    using that assms(1,3) False f by (cases "j = k") (simp_all add: e forest_ok_def)
  have unmarked: "parent' ! j < 0" if "j < n" "component' ! j < 0" for j
    using that assms(1) f by (cases "j = k") (simp_all add: e forest_ok_def)
  have "forest_ok edge n component' parent'"
    unfolding forest_ok_def using reached parents unmarked f(1,2) by (simp add: e)
  moreover have "stack_ok n root component' (insert current (set stack'))"
    using assms(2,3) f(1) by (auto simp: stack_ok_def e nth_list_update)
  ultimately show ?thesis by blast
qed

lemma forest_ok_visits:
  assumes "forest_ok edge n component parent" and "stack_ok n root component (insert current (set stack))"
    and "set ks \<subseteq> {..<n}"
    and "foldl (forest_visit edge root current) (component, parent, stack) ks = (component', parent', stack')"
  shows "forest_ok edge n component' parent' \<and> stack_ok n root component' (insert current (set stack'))"
  using assms
proof (induction ks arbitrary: component parent stack)
  case (Cons k ks)
  obtain c p s where v: "forest_visit edge root current (component, parent, stack) k = (c, p, s)"
    by (cases "forest_visit edge root current (component, parent, stack) k") auto
  have "k < n" using Cons.prems(3) by simp
  from forest_ok_visit [OF Cons.prems(1,2) this v] show ?case
    using Cons.IH [of c p s] Cons.prems(3,4) v by simp
qed simp

lemma forest_ok_search:
  assumes "forest_ok edge n (fst st) (fst (snd st))" and "stack_ok n root (fst st) (set (snd (snd st)))"
  shows "forest_ok edge n (fst (forest_search edge root st)) (snd (forest_search edge root st))"
  using assms
proof (induction edge root st rule: forest_search.induct)
  case (2 edge root component parent current stack)
  obtain c p s where e: "forest_expand edge root current (component, parent, stack) = (c, p, s)"
    by (cases "forest_expand edge root current (component, parent, stack)") auto
  have len: "length component = n" using 2(2) by (simp add: forest_ok_def)
  have ks: "set (rev [0..<length component]) \<subseteq> {..<n}" using len by auto
  have "forest_ok edge n c p \<and> stack_ok n root c (insert current (set s))"
    by (rule forest_ok_visits [OF _ _ ks]) (use 2(2,3) e in \<open>simp_all add: forest_expand_def\<close>)
  then show ?case using 2(1) e by (simp add: stack_ok_def)
qed simp

lemma forest_search_simulated:
  "\<exists>sz'. group_search edge root (component, sz, stack) = (fst (forest_search edge root (component, parent, stack)), sz')"
proof (induction edge root "(component, parent, stack)" arbitrary: component parent sz stack rule: forest_search.induct)
  case (2 edge root component parent current stack)
  obtain c p s where e: "forest_expand edge root current (component, parent, stack) = (c, p, s)"
    by (cases "forest_expand edge root current (component, parent, stack)") auto
  then obtain sz' where "group_expand edge root current (component, sz, stack) = (c, sz', s)"
    using forest_visits_simulated unfolding forest_expand_def group_expand_def fst_conv by metis
  then show ?case using 2 e by simp
qed simp

lemma spanning_forest_correct:
  assumes sym: "\<And>i j. edge i j = edge j i"
  shows "forest_ok edge n (fst (spanning_forest edge n)) (snd (spanning_forest edge n)) \<and>
    components_inv edge n n (fst (spanning_forest edge n), snd (matcher_components edge n))"
proof -
  let ?step = "\<lambda>(component, parent) root.
        if component ! root \<ge> 0 then (component, parent)
        else forest_search edge root (component[root := int root], parent, [root])"
  let ?group = "\<lambda>(component, sizes) root.
        if component ! root \<ge> 0 then (component, sizes)
        else case group_search edge root (component[root := int root], 1, [root]) of
               (component', sz) \<Rightarrow> (component', sizes[root := sz])"
  let ?f = "\<lambda>k. foldl ?step (replicate n (-1), replicate n (-1)) [0..<k]"
  let ?g = "\<lambda>k. foldl ?group (replicate n (-1), replicate n 0) [0..<k]"
  have "forest_ok edge n (fst (?f k)) (snd (?f k)) \<and> fst (?f k) = fst (?g k)" if "k \<le> n" for k
    using that
  proof (induction k)
    case 0
    then show ?case by (simp add: forest_ok_def)
  next
    case (Suc k)
    note IH = conjunct1 [OF Suc.IH [OF Suc_leD [OF Suc.prems]]] conjunct2 [OF Suc.IH [OF Suc_leD [OF Suc.prems]]]
    obtain c p where f: "?f k = (c, p)" by (cases "?f k")
    obtain sizes where g: "?g k = (c, sizes)" using IH(2) unfolding f by (cases "?g k") simp
    have k: "k < n" using Suc.prems by simp
    have ok: "forest_ok edge n c p" using IH(1) unfolding f by simp
    then have len: "length c = n" "length p = n" by (simp_all add: forest_ok_def)
    show ?case
    proof (cases "c ! k \<ge> 0")
      case True
      then show ?thesis using f g ok by simp
    next
      case False
      have "forest_ok edge n (c[k := int k]) p"
        using ok False k len by (auto simp: forest_ok_def nth_list_update)
      moreover have "stack_ok n k (c[k := int k]) (set [k])" using k len by (simp add: stack_ok_def)
      ultimately have "forest_ok edge n (fst (forest_search edge k (c[k := int k], p, [k])))
          (snd (forest_search edge k (c[k := int k], p, [k])))"
        using forest_ok_search [of edge n "(c[k := int k], p, [k])" k] by simp
      moreover obtain sz where "group_search edge k (c[k := int k], 1, [k]) =
          (fst (forest_search edge k (c[k := int k], p, [k])), sz)"
        using forest_search_simulated by blast
      ultimately show ?thesis using f g False by simp
    qed
  qed
  note final = this [OF order_refl]
  have r: "forest_ok edge n (fst (spanning_forest edge n)) (snd (spanning_forest edge n))"
    unfolding spanning_forest_def by (rule conjunct1 [OF final])
  have "fst (spanning_forest edge n) = fst (matcher_components edge n)"
    unfolding spanning_forest_def matcher_components_def by (rule conjunct2 [OF final])
  note r = r this
  then show ?thesis using matcher_components_correct [of edge n] sym by simp
qed

lemma mark_monotone: "fst marks ! k \<Longrightarrow> fst (mark_relation marks j) ! k"
  by (cases marks; cases "k < length (fst marks)")
    (auto simp: mark_relation_def nth_list_update list_update_beyond)

lemma length_mark [simp]: "length (fst (mark_relation marks j)) = length (fst marks)"
  by (cases marks) (simp add: mark_relation_def)

lemma mark_marks: "k < length (fst marks) \<Longrightarrow> fst (mark_relation marks k) ! k"
  by (cases marks) (simp add: mark_relation_def)

lemma marks_monotone: "fst marks ! k \<Longrightarrow> fst (foldl mark_relation marks ks) ! k"
  by (induction ks arbitrary: marks) (simp_all add: mark_monotone)

lemma marks_mark: "k \<in> set ks \<Longrightarrow> k < length (fst marks) \<Longrightarrow> fst (foldl mark_relation marks ks) ! k"
proof (induction ks arbitrary: marks)
  case (Cons j ks)
  show ?case
  proof (cases "k = j")
    case True
    then show ?thesis using Cons.prems(2) by (simp add: mark_marks marks_monotone del: split_paired_All)
  next
    case False
    then have "fst (foldl mark_relation (mark_relation marks j) ks) ! k" using Cons.prems by (intro Cons.IH) simp_all
    then show ?thesis by simp
  qed
qed simp

lemma reconnects_monotone:
  "fst (snd st) ! k \<Longrightarrow> fst (snd (foldl (reconnect_step self anchor) st ks)) ! k"
proof (induction ks arbitrary: st)
  case (Cons j ks)
  have "fst (snd (reconnect_step self anchor st j)) ! k"
    using Cons.prems by (cases st) (auto simp: reconnect_step_def Let_def mark_monotone split: option.split)
  then show ?case using Cons.IH by simp
qed simp

lemma forest_relations_kept:
  assumes "k \<in> set (forest_relations self (snd (spanning_forest (group_edge self) (length (subtemplates self)))))"
    and "k < length (relations self)"
  shows "k \<in> set (kept_relations self)"
proof -
  obtain component parent where f: "spanning_forest (group_edge self) (length (subtemplates self)) = (component, parent)"
    by (cases "spanning_forest (group_edge self) (length (subtemplates self))")
  have "fst (foldl mark_relation (replicate (length (relations self)) False, 0) (forest_relations self parent)) ! k"
    using assms f by (intro marks_mark) simp_all
  then have "fst (build_serialized_relation_mask self) ! k"
    unfolding build_serialized_relation_mask_def Let_def f
    by (auto intro!: reconnects_monotone split: option.split)
  then show ?thesis using assms(2) by (simp add: kept_relations_def)
qed

lemma wf_group_edge:
  assumes "enrollment_wf self" and "i < length (subtemplates self)" and "j < i"
  shows "group_edge self i j = (inlier_count (relations self ! (triangle i + j)) > 2)"
  using wf_relation_slot [OF assms] assms(3)
  by (simp add: group_edge_def relation_between_subtemplates_def not_le)

lemma canonical_wf_shape:
  "length (subtemplates (canonical_enrollment self)) = length (subtemplates self)"
  "map relation_base (subtemplates (canonical_enrollment self)) = map relation_base (subtemplates self)"
  "length (relations (canonical_enrollment self)) = length (relations self)"
  by (simp_all add: canonical_enrollment_def canonical_subtemplate_def)

lemma canonical_group_edge:
  assumes wf: "enrollment_wf self" and i: "i < length (subtemplates self)" and j: "j < i"
  shows "group_edge (canonical_enrollment self) i j =
    (triangle i + j \<in> set (kept_relations self) \<and> inlier_count (relations self ! (triangle i + j)) > 2)"
proof -
  let ?k = "triangle i + j"
  have k: "?k < length (relations self)"
    using relation_slot_in_range [OF i j] enrollment_wfD(4) [OF wf] by simp
  have "relation_base (subtemplates (canonical_enrollment self) ! i) = triangle i"
    using wf_base [OF wf i] i by (simp add: canonical_enrollment_def canonical_subtemplate_def)
  then have "relation_between_subtemplates (canonical_enrollment self) i j = Some (relations (canonical_enrollment self) ! ?k)"
    using k j by (simp add: relation_between_subtemplates_def relation_index_between_def canonical_wf_shape(3))
  moreover have "relations (canonical_enrollment self) ! ?k =
      (if ?k \<in> set (kept_relations self) then relations self ! ?k else absent_relation ?k)"
    using k by (simp add: canonical_enrollment_def)
  ultimately show ?thesis using j by (simp add: group_edge_def not_le absent_relation_def)
qed

lemma canonical_connected:
  assumes wf: "enrollment_wf self"
  defines "n \<equiv> length (subtemplates self)"
  shows "i < n \<Longrightarrow> connected (group_edge (canonical_enrollment self)) n i = connected (group_edge self) n i"
proof -
  let ?all = "joined (group_edge self) n" and ?kept = "joined (group_edge (canonical_enrollment self)) n"
  obtain component parent where f: "spanning_forest (group_edge self) n = (component, parent)"
    by (cases "spanning_forest (group_edge self) n")
  have sf: "forest_ok (group_edge self) n component parent"
    "components_inv (group_edge self) n n (component, snd (matcher_components (group_edge self) n))"
    using spanning_forest_correct [of "group_edge self" n] group_edge_sym [of self] f by simp_all
  have edge: "group_edge (canonical_enrollment self) a b \<longleftrightarrow>
      triangle (max a b) + min a b \<in> set (kept_relations self) \<and> group_edge self a b"
    if "a < n" "b < n" "a \<noteq> b" for a b
  proof (cases "b < a")
    case True
    then show ?thesis
      using canonical_group_edge [OF wf _ True] wf_group_edge [OF wf _ True] that by (simp add: n_def max_def min_def)
  next
    case False
    then have "a < b" using that by simp
    then show ?thesis
      using canonical_group_edge [OF wf _ \<open>a < b\<close>] wf_group_edge [OF wf _ \<open>a < b\<close>] that
        group_edge_sym [of "canonical_enrollment self" a b] group_edge_sym [of self a b]
      by (simp add: n_def max_def min_def)
  qed
  have irrefl: "\<not> group_edge e a a" for e a by (simp add: group_edge_def relation_between_subtemplates_def relation_index_between_def)
  have fewer: "?kept \<subseteq> ?all" using edge irrefl by (auto simp: joined_def)
  have link: "(a, b) \<in> ?kept" if ab: "a < n" "b < n" "parent ! a = int b" for a b
  proof -
    have b: "b \<noteq> a" "group_edge self b a" using sf(1) ab by (auto simp: forest_ok_def)
    have "triangle (max a b) + min a b \<in> set (kept_relations self)"
    proof (rule forest_relations_kept)
      have "relation_base (subtemplates self ! max a b) = triangle (max a b)"
        using ab wf_base [OF wf, of "max a b"] by (simp add: n_def)
      then show "triangle (max a b) + min a b \<in>
          set (forest_relations self (snd (spanning_forest (group_edge self) (length (subtemplates self)))))"
        using ab f by (auto simp: forest_relations_def Let_def n_def intro!: image_eqI [where x = a])
      show "triangle (max a b) + min a b < length (relations self)"
        unfolding enrollment_wfD(4) [OF wf] using ab b(1) by (intro relation_slot_in_range) (auto simp: n_def)
    qed
    then show ?thesis using ab b edge [of a b] group_edge_sym [of self a b] by (simp add: joined_def)
  qed
  have "linked parent n \<subseteq> ?kept"
  proof (rule subrelI)
    fix a b assume "(a, b) \<in> linked parent n"
    then have ab: "a < n" "b < n" "parent ! a = int b \<or> parent ! b = int a" by (auto simp: linked_def)
    then have "(a, b) \<in> ?kept \<or> (b, a) \<in> ?kept" using link by blast
    then show "(a, b) \<in> ?kept" using group_edge_sym [of "canonical_enrollment self" a b] by (auto simp: joined_def)
  qed
  then have links: "(linked parent n)\<^sup>* \<subseteq> ?kept\<^sup>*" by (rule rtrancl_mono)
  have "sym ?kept" using group_edge_sym [of "canonical_enrollment self"] by (auto simp: sym_def joined_def)
  then have sym: "sym (?kept\<^sup>*)" by (rule sym_rtrancl)
  have root: "(Min (connected (group_edge self) n a), a) \<in> ?kept\<^sup>*" if "a < n" for a
  proof -
    have "component ! a \<ge> 0" using sf(2) that connected_refl [OF that] by (auto simp: components_inv_def)
    then have "component ! a = int (Min (connected (group_edge self) n a))"
      using sf(2) that by (simp add: components_inv_def)
    moreover have "(nat (component ! a), a) \<in> (linked parent n)\<^sup>*"
      using sf(1) that \<open>component ! a \<ge> 0\<close> by (simp add: forest_ok_def)
    ultimately show ?thesis using subsetD [OF links] by simp
  qed
  show "connected (group_edge (canonical_enrollment self)) n i = connected (group_edge self) n i" if i: "i < n"
  proof
    show "connected (group_edge (canonical_enrollment self)) n i \<subseteq> connected (group_edge self) n i"
      using rtrancl_mono [OF fewer] by (auto simp: connected_def)
    show "connected (group_edge self) n i \<subseteq> connected (group_edge (canonical_enrollment self)) n i"
    proof
      fix j assume j: "j \<in> connected (group_edge self) n i"
      then have jn: "j < n" by (simp add: connected_def)
      have "connected (group_edge self) n j = connected (group_edge self) n i"
        by (rule connected_eq [OF group_edge_sym j i])
      then have "(Min (connected (group_edge self) n i), j) \<in> ?kept\<^sup>*" using root [OF jn] by simp
      moreover have "(i, Min (connected (group_edge self) n i)) \<in> ?kept\<^sup>*" using root [OF i] sym by (auto dest: symD)
      ultimately show "j \<in> connected (group_edge (canonical_enrollment self)) n i"
        using jn by (auto simp: connected_def)
    qed
  qed
qed

section \<open>What an accepted template guarantees\<close>

lemma require_eq_Some [simp]: "require c = Some u \<longleftrightarrow> c"
  by (simp add: require_def)

text \<open>What the reader checks of every subtemplate.\<close>

definition subtemplate_accepted :: "nat \<Rightarrow> nat \<Rightarrow> subtemplate \<Rightarrow> bool" where
  "subtemplate_accepted cap limit s \<longleftrightarrow>
     length (records s) = record_count s \<and> active_count s \<le> record_count s \<and> record_count s \<le> limit \<and>
     lineage_index s < cap \<and> sub_metric s \<noteq> None \<and>
     (\<forall>k < record_count s. foreground (records s ! k) = (if active_count s \<le> k then 1 else 0) \<and>
        hd (descriptor (records s ! k)) = 2)"

lemma take_subtemplate_accepted:
  assumes "packed_take_subtemplate cap limit cursor = Some (s, cursor')"
  shows "subtemplate_accepted cap limit s"
  using assms
  by (clarsimp simp only: packed_take_subtemplate_def Option.bind_eq_Some_conv require_eq_Some split_def
      prod.sel ex_simps option.inject Pair_inject, simp add: subtemplate_accepted_def packed_decode_record_def Let_def)

lemma take_subtemplates_accepted:
  "packed_take_subtemplates cap limit n cursor = Some (ss, cursor') \<Longrightarrow>
   length ss = n \<and> list_all (subtemplate_accepted cap limit) ss"
  by (induction n arbitrary: cursor ss)
    (auto simp: Option.bind_eq_Some_conv dest: take_subtemplate_accepted)

lemma take_relation_index: "packed_take_relation count cursor = Some (index, r, cursor') \<Longrightarrow> index < count"
  by (clarsimp simp: packed_take_relation_def Option.bind_eq_Some_conv)

lemma take_relations_accepted:
  "packed_take_relations count rels edges cursor = Some (rels', edges', cursor') \<Longrightarrow>
   length rels' = length rels \<and> set edges' \<subseteq> set edges \<union> {..<count}"
proof (induction count rels edges cursor rule: packed_take_relations.induct)
  case (1 count rels edges cursor)
  show ?case
  proof (cases "cursor \<noteq> [] \<and> hd cursor = 0x96")
    case True
    then obtain index r c where r: "packed_take_relation count cursor = Some (index, r, c)"
      using 1(2) by (cases "packed_take_relation count cursor") (auto simp: packed_take_relations.simps [of _ _ _ cursor])
    then have "packed_take_relations count (rels[index := r]) (edges @ [index]) c = Some (rels', edges', cursor')"
      using 1(2) True by (simp add: packed_take_relations.simps [of _ _ _ cursor])
    from 1(1) [OF True r refl refl this] show ?thesis using take_relation_index [OF r] by auto
  next
    case False
    then show ?thesis using 1(2) by (simp add: packed_take_relations.simps [of _ _ _ cursor] split: if_splits)
  qed
qed

definition enrollment_accepted :: "enrollment \<Rightarrow> bool" where
  "enrollment_accepted self \<longleftrightarrow>
     length (subtemplates self) \<le> capacity self \<and> capacity self \<le> ENROLLMENT_CAPACITY \<and> record_limit self \<le> 120 \<and>
     list_all (subtemplate_accepted (capacity self) (record_limit self)) (subtemplates self) \<and>
     length (relations self) \<le> length (subtemplates self) * (length (subtemplates self) + 1) div 2 \<and>
     list_all (\<lambda>k. k < length (relations self)) (group_edges self) \<and>
     length (match_order self) = ENROLLMENT_CAPACITY \<and>
     distinct (take (length (subtemplates self)) (match_order self)) \<and>
     set (take (length (subtemplates self)) (match_order self)) = {..<length (subtemplates self)} \<and>
     drop (length (subtemplates self)) (match_order self) =
       replicate (ENROLLMENT_CAPACITY - length (subtemplates self)) G_MAXUINT32"

lemma match_order_valid_permutation:
  assumes v: "match_order_valid order n cap" and len: "length order = ENROLLMENT_CAPACITY" and nc: "n \<le> cap" "cap \<le> ENROLLMENT_CAPACITY"
    and rest: "drop cap order = replicate (ENROLLMENT_CAPACITY - cap) G_MAXUINT32"
  shows "distinct (take n order)" "set (take n order) = {..<n}"
    "drop n order = replicate (ENROLLMENT_CAPACITY - n) G_MAXUINT32"
proof -
  have at: "\<And>k. k < n \<Longrightarrow> order ! k < n" "\<And>k j. k < n \<Longrightarrow> j < k \<Longrightarrow> order ! j \<noteq> order ! k"
    using v by (auto simp: match_order_valid_def)
  have "order ! j \<noteq> order ! k" if "j < n" "k < n" "j \<noteq> k" for j k
    using at(2) [of j k] at(2) [of k j] that by (metis linorder_neqE_nat)
  then show d: "distinct (take n order)" using nc len by (simp add: distinct_conv_nth)
  have "set (take n order) \<subseteq> {..<n}" using at(1) nc len by (auto simp: in_set_conv_nth)
  moreover have "card (set (take n order)) = n" using d nc len by (simp add: distinct_card)
  ultimately show "set (take n order) = {..<n}" by (metis card_lessThan card_subset_eq finite_lessThan)
  have "order ! k = G_MAXUINT32" if "n \<le> k" "k < ENROLLMENT_CAPACITY" for k
  proof (cases "k < cap")
    case True
    then show ?thesis using v that(1) by (simp add: match_order_valid_def)
  next
    case False
    then have "drop cap order ! (k - cap) = G_MAXUINT32" unfolding rest using that(2) nc by simp
    then show ?thesis using False nc len by simp
  qed
  then show "drop n order = replicate (ENROLLMENT_CAPACITY - n) G_MAXUINT32"
    using nc len by (intro nth_equalityI) simp_all
qed

lemma unpack_body_accepted:
  assumes "unpack_body cursor = Some self"
  shows "enrollment_accepted self"
proof -
  from assms obtain n cap rels subs limit rels' edges order c c1 c2 c3 where
    counts: "n \<le> cap" "cap \<le> ENROLLMENT_CAPACITY" "limit \<le> 120" "rels \<le> n * (n + 1) div 2" and
    subs: "packed_take_subtemplates cap limit n c = Some (subs, c1)" and
    rels: "packed_take_relations rels (map absent_relation [0..<rels]) [] c2 = Some (rels', edges, c3)" and
    ord: "match_order_valid (map (\<lambda>k. unat (le32_at order (k * 4))) [0..<cap] @
      replicate (ENROLLMENT_CAPACITY - cap) G_MAXUINT32) n cap" and
    self: "capacity self = cap" "record_limit self = limit" "subtemplates self = subs" "relations self = rels'"
      "group_edges self = edges"
      "match_order self = map (\<lambda>k. unat (le32_at order (k * 4))) [0..<cap] @
        replicate (ENROLLMENT_CAPACITY - cap) G_MAXUINT32"
    by (clarsimp simp only: unpack_body_def Let_def Option.bind_eq_Some_conv require_eq_Some split_def
        ex_simps option.inject) fastforce
  have "length (match_order self) = ENROLLMENT_CAPACITY" using counts by (simp add: self)
  moreover have "drop cap (match_order self) = replicate (ENROLLMENT_CAPACITY - cap) G_MAXUINT32"
    by (simp add: self)
  ultimately show ?thesis
    using match_order_valid_permutation [OF ord _ counts(1,2)] take_subtemplates_accepted [OF subs]
      take_relations_accepted [OF rels] counts
    by (auto simp: enrollment_accepted_def self list_all_iff)
qed

section \<open>Properties of the packed template\<close>

text \<open>A template image filled with zero planes, and an enrollment of one such sample.\<close>

definition flat_metric :: metric_data where
  "flat_metric = metric_data_build_position_map
     \<lparr> primary = replicate 160 0, secondary = replicate 160 0, validity = replicate 160 0,
       coarse_mask = replicate 40 0, position_map = replicate 160 0, packed_resolution = 512 \<rparr>"

definition packed_sample :: enrollment where
  "packed_sample = fst (projr (goodix_chicago_enrollment_insert_first goodix_chicago_enrollment_new
     (Some [\<lparr> foreground = 0, refined_x = 0x120, refined_y = 0x230, orientation = 0x4000, strength = 7,
              descriptor = replicate 48 2 \<rparr>]) 1 0 50 60 (Some flat_metric)))"

lemma packed_sample_inserted:
  "\<exists>res. goodix_chicago_enrollment_insert_first goodix_chicago_enrollment_new
     (Some [\<lparr> foreground = 0, refined_x = 0x120, refined_y = 0x230, orientation = 0x4000, strength = 7,
              descriptor = replicate 48 2 \<rparr>]) 1 0 50 60 (Some flat_metric) = Inr (packed_sample, res)"
  by (simp add: packed_sample_def goodix_chicago_enrollment_insert_first_def goodix_chicago_enrollment_new_def Let_def)

lemma packed_crc32_update: "i < length data \<Longrightarrow> packed_crc32 (data[i := b]) = packed_crc32 data \<longleftrightarrow> b = data ! i"
  using map_crc.detects_update [of i data "0xffffffff" b]
  by (simp add: packed_crc32_def map_crc_step_eq)

lemma packed_sample_fields:
  "length (subtemplates packed_sample) = 1" "record_limit packed_sample = 120"
  "subtemplates packed_sample = [\<lparr> record_count = 1, active_count = 0, quality = 50, coverage = 60,
     records = [\<lparr> foreground = 0, refined_x = 0x120, refined_y = 0x230, orientation = 0x4000, strength = 7,
              descriptor = replicate 48 2 \<rparr>],
     sub_metric = Some flat_metric, group_state = 0, relation_base = 0, study_state = 0, study_flags = 0,
     lineage_index = 0, replacement_count = 0, study_value_a = 0, study_value_b = 0 \<rparr>]"
  "relations packed_sample = [weak_relation]" "capacity packed_sample = 50"
  by (simp_all add: packed_sample_def goodix_chicago_enrollment_insert_first_def goodix_chicago_enrollment_new_def Let_def)

lemma packed_sample_packable: "packable packed_sample"
proof -
  obtain res where "goodix_chicago_enrollment_insert_first goodix_chicago_enrollment_new
     (Some [\<lparr> foreground = 0, refined_x = 0x120, refined_y = 0x230, orientation = 0x4000, strength = 7,
              descriptor = replicate 48 2 \<rparr>]) 1 0 50 60 (Some flat_metric) = Inr (packed_sample, res)"
    using packed_sample_inserted by blast
  then have "enrollment_wf packed_sample"
    by (rule wf_insert_first [OF wf_new, rotated])
      (simp_all add: records_available_def goodix_chicago_enrollment_new_def)
  moreover have "matcher_active_index packed_sample = matcher_active_index goodix_chicago_enrollment_new"
    "matcher_value_a packed_sample = matcher_value_a goodix_chicago_enrollment_new"
    "matcher_value_b packed_sample = matcher_value_b goodix_chicago_enrollment_new"
    "matcher_value_c packed_sample = matcher_value_c goodix_chicago_enrollment_new"
    "matcher_value_d packed_sample = matcher_value_d goodix_chicago_enrollment_new"
    by (simp_all add: packed_sample_def goodix_chicago_enrollment_insert_first_def goodix_chicago_enrollment_new_def Let_def)
  moreover have "metric_packable flat_metric"
    by (simp add: metric_packable_def flat_metric_def metric_data_build_position_map_def)
  ultimately show ?thesis
    by (simp add: packable_def packed_sample_fields subtemplate_packable_def subtemplate_ok_def subtemplate_metric_def
        subtemplate_scalars_def relation_packable_def weak_relation_def relation_coefficients_def
        goodix_chicago_enrollment_new_def identity_group_transform_def in_i32_def)
qed

text \<open>C15: A packable enrollment is written at the size that was computed beforehand, and reading the
  bytes gives the enrollment back: every sample with its counters and planes, the records up to the
  precision of the packed form, the relations that the mask kept, and no others.\<close>

theorem packed_template_roundtrip:
  assumes "packable self"
  shows "\<exists>data. goodix_chicago_enrollment_pack self = Inr data \<and>
    length data = goodix_chicago_enrollment_get_packed_size self \<and>
    goodix_chicago_enrollment_unpack data = Inr (canonical_enrollment self)"
  using unpack_pack [OF assms] by auto

theorem packed_template_roundtrip_witness:
  "\<exists>data. goodix_chicago_enrollment_pack packed_sample = Inr data \<and>
    length data = goodix_chicago_enrollment_get_packed_size packed_sample \<and>
    goodix_chicago_enrollment_unpack data = Inr (canonical_enrollment packed_sample)"
  by (rule packed_template_roundtrip [OF packed_sample_packable])

text \<open>C27: The relations a template keeps connect exactly the samples that the strong relations of the
  packed enrollment connected, although at most one relation per sample is written for them.\<close>

theorem packed_keeps_components:
  assumes packed: "packable self" "goodix_chicago_enrollment_pack self = Inr data"
    and unpacked: "goodix_chicago_enrollment_unpack data = Inr self'" and i: "i < length (subtemplates self)"
  shows "length (subtemplates self') = length (subtemplates self) \<and>
    connected (group_edge self') (length (subtemplates self)) i =
    connected (group_edge self) (length (subtemplates self)) i"
proof -
  have self': "self' = canonical_enrollment self" using unpack_pack [OF packed(1)] packed(2) unpacked by auto
  show ?thesis
    unfolding self' canonical_wf_shape(1)
    by (intro conjI refl canonical_connected [OF packable_parts(1) [OF packed(1)] i])
qed

theorem packed_keeps_components_witness:
  "\<exists>data self'. goodix_chicago_enrollment_pack packed_sample = Inr data \<and>
    goodix_chicago_enrollment_unpack data = Inr self' \<and> connected (group_edge self') 1 0 = {0}"
proof -
  obtain data where data: "goodix_chicago_enrollment_pack packed_sample = Inr data"
    "goodix_chicago_enrollment_unpack data = Inr (canonical_enrollment packed_sample)"
    using unpack_pack [OF packed_sample_packable] by auto
  have "connected (group_edge (canonical_enrollment packed_sample)) 1 0 = connected (group_edge packed_sample) 1 0"
    using packed_keeps_components [OF packed_sample_packable data, of 0] by (simp add: packed_sample_fields)
  also have "\<dots> = {0}" using connected_refl [of 0 1 "group_edge packed_sample"] by (auto simp: connected_def)
  finally show ?thesis using data by auto
qed

text \<open>A template in which any one byte is changed, header, length, CRC or body, is refused.\<close>

theorem packed_detects_one_byte:
  assumes "goodix_chicago_enrollment_unpack data = Inr self" and i: "i < length data" and b: "b \<noteq> data ! i"
  shows "goodix_chicago_enrollment_unpack (data[i := b]) = Inl G_IO_ERROR_INVALID_DATA"
proof -
  let ?q = "data[i := b]"
  have ok: "10 \<le> length data" "data ! 0 = 0x87" "data ! 5 = 0x86" "unat (le32_at data 6) = length data - 10"
    "le32_at data 1 = packed_crc32 (drop 10 data)"
    using assms(1) by (auto simp: goodix_chicago_enrollment_unpack_def split: if_splits)
  have same32: "le32_at ?q k = le32_at data k \<longleftrightarrow> \<not> (k \<le> i \<and> i < k + 4)" if "k + 4 \<le> length data" for k
    by (rule le32_at_update) (use that i b in simp_all)
  have "?q ! 0 \<noteq> 0x87 \<or> ?q ! 5 \<noteq> 0x86 \<or> unat (le32_at ?q 6) \<noteq> length data - 10 \<or>
      le32_at ?q 1 \<noteq> packed_crc32 (drop 10 ?q)"
  proof -
    consider "i = 0" | "1 \<le> i" "i < 5" | "i = 5" | "6 \<le> i" "i < 10" | "10 \<le> i" by linarith
    then show ?thesis
    proof cases
      case 2
      then have "drop 10 ?q = drop 10 data" by simp
      then show ?thesis using same32 [of 1] 2 ok by simp
    next
      case 4
      then have "le32_at ?q 6 \<noteq> le32_at data 6" using same32 [of 6] ok by simp
      then show ?thesis using ok(4) by (metis word_unat_eq_iff)
    next
      case 5
      have "drop 10 ?q = (drop 10 data)[i - 10 := b]" using 5 by (simp add: drop_update_swap)
      moreover have "packed_crc32 ((drop 10 data)[i - 10 := b]) \<noteq> packed_crc32 (drop 10 data)"
        using packed_crc32_update [of "i - 10" "drop 10 data" b] 5 i b by simp
      ultimately show ?thesis using same32 [of 1] 5 ok by simp
    qed (use i b ok in simp_all)
  qed
  then show ?thesis unfolding goodix_chicago_enrollment_unpack_def by auto
qed

theorem packed_detects_one_byte_witness:
  "\<exists>data. goodix_chicago_enrollment_pack packed_sample = Inr data \<and>
    goodix_chicago_enrollment_unpack (data[0 := 0]) = Inl G_IO_ERROR_INVALID_DATA"
proof -
  obtain data where data: "goodix_chicago_enrollment_pack packed_sample = Inr data"
    "goodix_chicago_enrollment_unpack data = Inr (canonical_enrollment packed_sample)"
    using unpack_pack [OF packed_sample_packable] by auto
  then have "0 < length data" "data ! 0 = 0x87"
    by (auto simp: goodix_chicago_enrollment_unpack_def split: if_splits)
  then show ?thesis using packed_detects_one_byte [OF data(2), of 0 0] data(1) by simp
qed

lemma unpack_accepted:
  assumes "goodix_chicago_enrollment_unpack data = Inr self"
  shows "enrollment_accepted self"
  using assms
  by (auto simp: goodix_chicago_enrollment_unpack_def split: if_splits option.splits intro: unpack_body_accepted)



end
