(* ===== verification/Chicago_Search.thy ===== *)
theory Chicago_Search
  imports Goodix_Prelude
begin

text \<open>
  The depth-first work list that the relation searches of goodix-chicago-enrollment.c share: a LIFO
  stack of nodes, a table of visited nodes, candidates tried from the highest index down. A search
  is given by what it does when a node is popped, by which candidates it follows and by what it does
  to the state when it follows one; the last may fail, which stands for a store through a null
  pointer.
\<close>

declare upt_rec_numeral [simp del]

section \<open>The loop\<close>

fun search_candidates ::
    "('s \<Rightarrow> nat \<Rightarrow> nat \<Rightarrow> bool) \<Rightarrow> ('s \<Rightarrow> nat \<Rightarrow> nat \<Rightarrow> 's option) \<Rightarrow> nat \<Rightarrow> nat list \<Rightarrow>
     bool list \<times> nat list \<times> 's \<Rightarrow> (bool list \<times> nat list \<times> 's) option" where
  "search_candidates edge follow source [] (visited, stack, st) = Some (visited, stack, st)"
| "search_candidates edge follow source (candidate # candidates) (visited, stack, st) =
     (if visited ! candidate \<or> \<not> edge st source candidate
      then search_candidates edge follow source candidates (visited, stack, st)
      else case follow st source candidate of
             None \<Rightarrow> None
           | Some st' \<Rightarrow> search_candidates edge follow source candidates
                          (visited[candidate := True], candidate # stack, st'))"

definition unvisited :: "bool list \<Rightarrow> nat" where
  "unvisited visited = length (filter Not visited)"

lemma unvisited_mark: "k < length vs \<Longrightarrow> \<not> vs ! k \<Longrightarrow> Suc (unvisited (vs[k := True])) = unvisited vs"
proof (induction vs arbitrary: k)
  case (Cons v vs)
  then show ?case by (cases k) (auto simp: unvisited_def)
qed simp

lemma search_candidates_measure:
  "search_candidates edge follow source ks (visited, stack, st) = Some (visited', stack', st') \<Longrightarrow>
   set ks \<subseteq> {0..<length visited} \<Longrightarrow>
   length visited' = length visited \<and> length stack' + unvisited visited' = length stack + unvisited visited \<and>
   unvisited visited' \<le> unvisited visited"
proof (induction edge follow source ks "(visited, stack, st)" arbitrary: visited stack st
    rule: search_candidates.induct)
  case (2 edge follow source k ks visited stack st)
  show ?case
  proof (cases "visited ! k \<or> \<not> edge st source k")
    case True
    then show ?thesis using 2(1,3,4) by simp
  next
    case False
    then obtain st1 where st1: "follow st source k = Some st1"
      using 2(3) by (cases "follow st source k") simp_all
    then have "search_candidates edge follow source ks (visited[k := True], k # stack, st1) = Some (visited', stack', st')"
      using False 2(3) by simp
    from 2(2) [OF False st1 this] unvisited_mark [of k visited] False 2(4) show ?thesis by simp
  qed
qed simp

function node_search ::
    "('s \<Rightarrow> nat \<Rightarrow> 's) \<Rightarrow> ('s \<Rightarrow> nat \<Rightarrow> nat \<Rightarrow> bool) \<Rightarrow> ('s \<Rightarrow> nat \<Rightarrow> nat \<Rightarrow> 's option) \<Rightarrow>
     bool list \<times> nat list \<times> 's \<Rightarrow> (bool list \<times> 's) option" where
  "node_search pop edge follow (visited, [], st) = Some (visited, st)"
| "node_search pop edge follow (visited, source # stack, st) =
     (case search_candidates edge follow source (rev [0..<length visited]) (visited, stack, pop st source) of
        None \<Rightarrow> None
      | Some next_state \<Rightarrow> node_search pop edge follow next_state)"
  by pat_completeness auto
termination
  by (relation "measure (\<lambda>(pop, edge, follow, visited, stack, st). length stack + 2 * unvisited visited)")
    (auto dest: search_candidates_measure)

section \<open>What a search reaches\<close>

text \<open>
  The contract of a search, for every key \<open>k\<close> (the start node and the state it began in): \<open>keeps k\<close>
  is an invariant of the visited table and the state, under which the edges to unvisited nodes are
  still those of the graph \<open>graph k\<close> the search started on.
\<close>

locale stable_search =
  fixes pop :: "'k \<Rightarrow> 's \<Rightarrow> nat \<Rightarrow> 's" and edge :: "'k \<Rightarrow> 's \<Rightarrow> nat \<Rightarrow> nat \<Rightarrow> bool"
    and follow :: "'k \<Rightarrow> 's \<Rightarrow> nat \<Rightarrow> nat \<Rightarrow> 's option"
    and graph :: "'k \<Rightarrow> nat \<Rightarrow> nat \<Rightarrow> bool" and nodes :: "'k \<Rightarrow> nat" and start :: "'k \<Rightarrow> nat"
    and keeps :: "'k \<Rightarrow> bool list \<Rightarrow> 's \<Rightarrow> bool" and popped :: "'k \<Rightarrow> nat \<Rightarrow> bool list \<Rightarrow> 's \<Rightarrow> bool"
  assumes keeps_pop: "keeps k visited st \<Longrightarrow> source = start k \<or> source < nodes k \<and> visited ! source \<Longrightarrow>
      length visited = nodes k \<Longrightarrow> popped k source visited (pop k st source)"
    and popped_keeps: "popped k source visited st \<Longrightarrow> keeps k visited st"
    and stable: "popped k source visited st \<Longrightarrow> source = start k \<or> source < nodes k \<and> visited ! source \<Longrightarrow>
      c < nodes k \<Longrightarrow> \<not> visited ! c \<Longrightarrow> edge k st source c \<longleftrightarrow> graph k source c"
    and follows: "popped k source visited st \<Longrightarrow> source = start k \<or> source < nodes k \<and> visited ! source \<Longrightarrow>
      length visited = nodes k \<Longrightarrow> c < nodes k \<Longrightarrow> \<not> visited ! c \<Longrightarrow> graph k source c \<Longrightarrow>
      \<exists>st'. follow k st source c = Some st' \<and> popped k source (visited[c := True]) st'"
begin

definition arcs :: "'k \<Rightarrow> (nat \<times> nat) set" where
  "arcs k = {(i, j). (i = start k \<or> i < nodes k) \<and> j < nodes k \<and> graph k i j}"

text \<open>Every visited node is reachable, and the visited nodes that are not on the stack have all their
  neighbours visited.\<close>

definition sound :: "'k \<Rightarrow> bool list \<Rightarrow> bool" where
  "sound k visited \<longleftrightarrow> length visited = nodes k \<and>
     (\<forall>i < nodes k. visited ! i \<longrightarrow> (start k, i) \<in> (arcs k)\<^sup>*)"

definition closed_off :: "'k \<Rightarrow> bool list \<Rightarrow> nat set \<Rightarrow> bool" where
  "closed_off k visited open \<longleftrightarrow>
     (\<forall>i j. (i = start k \<or> i < nodes k \<and> visited ! i) \<longrightarrow> i \<notin> open \<longrightarrow> j < nodes k \<longrightarrow> graph k i j \<longrightarrow> visited ! j)"

lemma candidates_effect:
  assumes "popped k source visited st" and "source = start k \<or> source < nodes k \<and> visited ! source"
    and "sound k visited" and "(start k, source) \<in> (arcs k)\<^sup>*" and "set cs \<subseteq> {0..<nodes k}"
    and "set stack \<subseteq> {i. i = start k \<or> i < nodes k \<and> visited ! i}"
  shows "\<exists>visited' stack' st'. search_candidates (edge k) (follow k) source cs (visited, stack, st) = Some (visited', stack', st') \<and>
    popped k source visited' st' \<and> sound k visited' \<and> set stack' \<subseteq> {i. i = start k \<or> i < nodes k \<and> visited' ! i} \<and>
    (\<forall>i < nodes k. visited ! i \<longrightarrow> visited' ! i) \<and>
    {i. i < nodes k \<and> visited' ! i \<and> \<not> visited ! i} \<subseteq> set stack' \<and> set stack \<subseteq> set stack' \<and>
    (\<forall>c \<in> set cs. graph k source c \<longrightarrow> visited' ! c)"
  using assms
proof (induction cs arbitrary: visited stack st)
  case (Cons c cs)
  have len: "length visited = nodes k" and c: "c < nodes k" using Cons.prems(3,5) by (auto simp: sound_def)
  show ?case
  proof (cases "visited ! c \<or> \<not> graph k source c")
    case True
    then have skip: "search_candidates (edge k) (follow k) source (c # cs) (visited, stack, st) =
        search_candidates (edge k) (follow k) source cs (visited, stack, st)"
      using stable [OF Cons.prems(1,2) c] by auto
    obtain visited' stack' st' where r:
      "search_candidates (edge k) (follow k) source cs (visited, stack, st) = Some (visited', stack', st')"
      "popped k source visited' st'" "sound k visited'" "set stack' \<subseteq> {i. i = start k \<or> i < nodes k \<and> visited' ! i}"
      "\<forall>i < nodes k. visited ! i \<longrightarrow> visited' ! i"
      "{i. i < nodes k \<and> visited' ! i \<and> \<not> visited ! i} \<subseteq> set stack'" "set stack \<subseteq> set stack'"
      "\<forall>c \<in> set cs. graph k source c \<longrightarrow> visited' ! c"
      using Cons.IH [OF Cons.prems(1-4) _ Cons.prems(6)] Cons.prems(5) by auto
    have "graph k source c \<longrightarrow> visited' ! c" using True r(5) c by blast
    then show ?thesis unfolding skip using r by auto
  next
    case False
    obtain st1 where st1: "follow k st source c = Some st1" "popped k source (visited[c := True]) st1"
      using follows [OF Cons.prems(1,2) len c] False by auto
    let ?v = "visited[c := True]"
    have e: "edge k st source c" using stable [OF Cons.prems(1,2) c] False by simp
    have arc: "(source, c) \<in> arcs k" using False c Cons.prems(2) by (auto simp: arcs_def)
    have sound1: "sound k ?v"
      unfolding sound_def
    proof (intro conjI allI impI)
      show "(start k, i) \<in> (arcs k)\<^sup>*" if "i < nodes k" "?v ! i" for i
        using Cons.prems(3) rtrancl.rtrancl_into_rtrancl [OF Cons.prems(4) arc] that
        by (cases "i = c") (simp_all add: sound_def)
    qed (simp add: len)
    have source1: "source = start k \<or> source < nodes k \<and> ?v ! source"
      using Cons.prems(2) len by (cases "source = c") auto
    have stack1: "set (c # stack) \<subseteq> {i. i = start k \<or> i < nodes k \<and> ?v ! i}"
      using Cons.prems(6) len c by (auto simp: nth_list_update)
    obtain visited' stack' st' where r:
      "search_candidates (edge k) (follow k) source cs (?v, c # stack, st1) = Some (visited', stack', st')"
      "popped k source visited' st'" "sound k visited'" "set stack' \<subseteq> {i. i = start k \<or> i < nodes k \<and> visited' ! i}"
      "\<forall>i < nodes k. ?v ! i \<longrightarrow> visited' ! i"
      "{i. i < nodes k \<and> visited' ! i \<and> \<not> ?v ! i} \<subseteq> set stack'" "set (c # stack) \<subseteq> set stack'"
      "\<forall>c \<in> set cs. graph k source c \<longrightarrow> visited' ! c"
      using Cons.IH [OF st1(2) source1 sound1 Cons.prems(4) _ stack1] Cons.prems(5) by auto
    have grown: "\<forall>i < nodes k. visited ! i \<longrightarrow> visited' ! i" "visited' ! c"
      using r(5) c len by (auto simp: nth_list_update split: if_splits)
    have "{i. i < nodes k \<and> visited' ! i \<and> \<not> visited ! i} \<subseteq> set stack'"
    proof
      fix i assume i: "i \<in> {i. i < nodes k \<and> visited' ! i \<and> \<not> visited ! i}"
      show "i \<in> set stack'"
      proof (cases "i = c")
        case False
        then have "\<not> ?v ! i" using i by simp
        then show ?thesis using r(6) i by blast
      qed (use r(7) in simp)
    qed
    then show ?thesis using e False st1(1) r grown by auto
  qed
qed auto

lemma search_effect:
  assumes "keeps k visited st" and "sound k visited" and "set stack \<subseteq> {i. i = start k \<or> i < nodes k \<and> visited ! i}"
    and "closed_off k visited (set stack)"
  shows "\<exists>visited' st'. node_search (pop k) (edge k) (follow k) (visited, stack, st) = Some (visited', st') \<and>
    keeps k visited' st' \<and> sound k visited' \<and> closed_off k visited' {}"
  using assms
proof (induction "length stack + 2 * unvisited visited" arbitrary: visited stack st rule: less_induct)
  case less
  show ?case
  proof (cases stack)
    case Nil
    then show ?thesis using less.prems by auto
  next
    case (Cons source rest)
    have len: "length visited = nodes k" using less.prems(2) by (simp add: sound_def)
    have src: "source = start k \<or> source < nodes k \<and> visited ! source" using less.prems(3) Cons by auto
    then have reach: "(start k, source) \<in> (arcs k)\<^sup>*" using less.prems(2) by (auto simp: sound_def)
    have popped: "popped k source visited (pop k st source)" using keeps_pop [OF less.prems(1) src len] .
    obtain visited' stack' st' where r:
      "search_candidates (edge k) (follow k) source (rev [0..<nodes k]) (visited, rest, pop k st source) =
        Some (visited', stack', st')"
      "popped k source visited' st'" "sound k visited'" "set stack' \<subseteq> {i. i = start k \<or> i < nodes k \<and> visited' ! i}"
      "\<forall>i < nodes k. visited ! i \<longrightarrow> visited' ! i"
      "{i. i < nodes k \<and> visited' ! i \<and> \<not> visited ! i} \<subseteq> set stack'" "set rest \<subseteq> set stack'"
      "\<forall>c \<in> {0..<nodes k}. graph k source c \<longrightarrow> visited' ! c"
      using candidates_effect [OF popped src less.prems(2) reach, of "rev [0..<nodes k]" rest] less.prems(3) Cons by auto
    have "closed_off k visited' (set stack')"
      unfolding closed_off_def
    proof (intro allI impI)
      fix i j assume i: "i = start k \<or> i < nodes k \<and> visited' ! i" "i \<notin> set stack'" and j: "j < nodes k" "graph k i j"
      show "visited' ! j"
      proof (cases "i = source")
        case True
        then show ?thesis using r(8) j by simp
      next
        case False
        then have "i = start k \<or> i < nodes k \<and> visited ! i" "i \<notin> set stack" using i r(6,7) Cons by auto
        then have "visited ! j" using less.prems(4) j unfolding closed_off_def by blast
        then show ?thesis using r(5) j by blast
      qed
    qed
    moreover have "length stack' + 2 * unvisited visited' < length stack + 2 * unvisited visited"
      using search_candidates_measure [OF r(1)] len Cons by simp
    ultimately show ?thesis
      using less.hyps [OF _ popped_keeps [OF r(2)] r(3,4)] r(1) Cons len by simp
  qed
qed

text \<open>Started with only the start node marked, a search returns and visits exactly what is reachable.\<close>

lemma search_reaches:
  assumes "keeps k visited st" and "length visited = nodes k" and "\<And>i. i < nodes k \<Longrightarrow> visited ! i \<longleftrightarrow> i = start k"
  shows "\<exists>visited' st'. node_search (pop k) (edge k) (follow k) (visited, [start k], st) = Some (visited', st') \<and>
    keeps k visited' st' \<and> length visited' = nodes k \<and>
    (\<forall>i < nodes k. i \<noteq> start k \<longrightarrow> visited' ! i = ((start k, i) \<in> (arcs k)\<^sup>*))"
proof -
  have "sound k visited" "closed_off k visited (set [start k])"
    using assms(2,3) by (auto simp: sound_def closed_off_def)
  then obtain visited' st' where r:
    "node_search (pop k) (edge k) (follow k) (visited, [start k], st) = Some (visited', st')"
    "keeps k visited' st'" "sound k visited'" "closed_off k visited' {}"
    using search_effect [OF assms(1), of "[start k]"] by auto
  have step: "visited' ! j" if "i = start k \<or> i < nodes k \<and> visited' ! i" "(i, j) \<in> arcs k" for i j
    using r(4) that unfolding closed_off_def arcs_def by blast
  have "j = start k \<or> j < nodes k \<and> visited' ! j" if "(start k, j) \<in> (arcs k)\<^sup>*" for j
    using that
  proof (induction rule: rtrancl_induct)
    case (step i j)
    then show ?case using \<open>\<And>j i. i = start k \<or> i < nodes k \<and> visited' ! i \<Longrightarrow> (i, j) \<in> arcs k \<Longrightarrow> visited' ! j\<close> [of i j]
      by (auto simp: arcs_def)
  qed simp
  then have "\<forall>i < nodes k. i \<noteq> start k \<longrightarrow> visited' ! i = ((start k, i) \<in> (arcs k)\<^sup>*)"
    using r(3) by (auto simp: sound_def)
  then show ?thesis using r by (auto simp: sound_def)
qed

end

end
