(* ===== verification/Chicago_Capacity.thy ===== *)
theory Chicago_Capacity
  imports Chicago_Study Chicago_Search
begin

text \<open>
  The choice of a sample to replace in a full enrollment (goodix-chicago-enrollment.c from
  \<open>capacity_relation_load\<close> to \<open>select_capacity_replacement\<close>): the probe's relations are propagated
  through the gallery, missing relations are composed along paths, every sample is scored by how
  much of it the others cover. Node \<open>count\<close> of the relation graph is the probe.
\<close>

section \<open>Relations of the gallery and the probe\<close>

text \<open>The mutable state of the searches: the enrollment and the probe's relations (\<open>None\<close> for a null
  array), both updated in place by the code.\<close>

type_synonym capacity_state = "enrollment \<times> relation list option"

definition capacity_relation_load :: "capacity_state \<Rightarrow> nat \<Rightarrow> nat \<Rightarrow> int \<times> transform" where
  "capacity_relation_load st first second =
     (case st of (self, probe_relations) \<Rightarrow>
      let count = length (subtemplates self);
          absent = (-1, identity_group_transform);
          stored = (\<lambda>r. (inlier_count r, rel_transform r));
          inverted = (\<lambda>r. (inlier_count r, invert_group_transform (rel_transform r)))
      in if first = second then (0, identity_group_transform)
         else if first = count then (case probe_relations of None \<Rightarrow> absent | Some rels \<Rightarrow> inverted (rels ! second))
         else if second = count then (case probe_relations of None \<Rightarrow> absent | Some rels \<Rightarrow> stored (rels ! first))
         else if first < second
         then (case relation_between_subtemplates self second first of None \<Rightarrow> absent | Some r \<Rightarrow> stored r)
         else (case relation_between_subtemplates self first second of None \<Rightarrow> absent | Some r \<Rightarrow> inverted r))"

text \<open>The stores into the gallery do not test the pointer they go through; \<open>None\<close> is that null
  dereference.\<close>

definition store_between :: "enrollment \<Rightarrow> nat \<Rightarrow> nat \<Rightarrow> relation \<Rightarrow> enrollment option" where
  "store_between self newer older r =
     map_option (\<lambda>k. self\<lparr> relations := (relations self)[k := r] \<rparr>) (relation_index_between self newer older)"

definition capacity_relation_store ::
    "capacity_state \<Rightarrow> nat \<Rightarrow> nat \<Rightarrow> transform \<Rightarrow> int \<Rightarrow> capacity_state option" where
  "capacity_relation_store st first second t level =
     (case st of (self, probe_relations) \<Rightarrow>
      let count = length (subtemplates self);
          plain = \<lparr> inlier_count = level, rel_transform = t \<rparr>;
          inverted = \<lparr> inlier_count = level, rel_transform = invert_group_transform t \<rparr>
      in if first = second then Some st
         else if first = count then Some (self, map_option (\<lambda>rels. rels[second := inverted]) probe_relations)
         else if second = count then Some (self, map_option (\<lambda>rels. rels[first := plain]) probe_relations)
         else if first < second
         then map_option (\<lambda>self'. (self', probe_relations)) (store_between self second first plain)
         else map_option (\<lambda>self'. (self', probe_relations)) (store_between self first second inverted))"

section \<open>Propagating the probe's relations\<close>

text \<open>Whether a strength, read as an unsigned number, lies in 1..42.\<close>

definition traversable :: "int \<Rightarrow> bool" where
  "traversable edge_strength \<longleftrightarrow> \<not> (word_of_int (edge_strength - 1) :: u32) > 41"

text \<open>The state of the search adds the transform \<open>source_to_probe\<close> of the node just popped.\<close>

definition propagate_pop :: "capacity_state \<times> transform \<Rightarrow> nat \<Rightarrow> capacity_state \<times> transform" where
  "propagate_pop s source =
     (case s of (st, _) \<Rightarrow> (st, snd (capacity_relation_load st (length (subtemplates (fst st))) source)))"

definition propagate_edge :: "capacity_state \<times> transform \<Rightarrow> nat \<Rightarrow> nat \<Rightarrow> bool" where
  "propagate_edge s source candidate = traversable (fst (capacity_relation_load (fst s) source candidate))"

definition propagate_follow :: "capacity_state \<times> transform \<Rightarrow> nat \<Rightarrow> nat \<Rightarrow> (capacity_state \<times> transform) option" where
  "propagate_follow s source candidate =
     (case s of (st, source_to_probe) \<Rightarrow>
      let probe_node = length (subtemplates (fst st));
          candidate_to_source = snd (capacity_relation_load st source candidate);
          existing_strength = fst (capacity_relation_load st probe_node candidate)
      in if source = probe_node \<or> existing_strength \<ge> 2 then Some s
         else map_option (\<lambda>st'. (st', source_to_probe))
           (capacity_relation_store st probe_node candidate
              (compose_group_transform source_to_probe candidate_to_source) 2))"

text \<open>The two failures of the guard return \<open>FALSE\<close> and leave everything as it is; the visited table
  only exists after success.\<close>

definition propagate_capacity_relations ::
    "enrollment \<Rightarrow> relation list \<Rightarrow> nat \<Rightarrow> (bool list option \<times> capacity_state) option" where
  "propagate_capacity_relations self probe_relations relation_count =
     (let count = length (subtemplates self); probe_node = count; st = (self, Some probe_relations)
      in if count \<noteq> capacity self \<or> count > ENROLLMENT_CAPACITY \<or> relation_count \<noteq> count then Some (None, st)
         else map_option (\<lambda>(visited, st', _). (Some visited, st'))
           (node_search propagate_pop propagate_edge propagate_follow
              (replicate count False, [probe_node], st, identity_group_transform)))"

definition goodix_chicago_enrollment_propagate_capacity_relations ::
    "enrollment \<Rightarrow> relation list \<Rightarrow> nat \<Rightarrow> (nat option \<times> capacity_state) option" where
  "goodix_chicago_enrollment_propagate_capacity_relations self probe_relations relation_count =
     map_option (\<lambda>(visited_opt, st).
        (map_option (\<lambda>visited. length (filter
            (\<lambda>k. \<not> visited ! k \<and> inlier_count (the (snd st) ! k) \<noteq> -2) [0..<length (subtemplates self)])) visited_opt, st))
       (propagate_capacity_relations self probe_relations relation_count)"

text \<open>
  Relations that stay unresolved are rebuilt from the features by a callback of the caller, which
  gets the gallery and the probe and overwrites the relation. \<open>None\<close> for a null callback.
\<close>

fun refine_relations ::
    "enrollment \<Rightarrow> (subtemplate_view \<Rightarrow> relation \<Rightarrow> relation) option \<Rightarrow> bool list \<Rightarrow> nat list \<Rightarrow> relation list \<Rightarrow>
     bool \<times> relation list" where
  "refine_relations self build visited [] rels = (True, rels)"
| "refine_relations self build visited (index # ks) rels =
     (if visited ! index \<or> inlier_count (rels ! index) = -2 then refine_relations self build visited ks rels
      else case (build, goodix_chicago_enrollment_get_subtemplate self index) of
             (Some b, Some gallery) \<Rightarrow> refine_relations self build visited ks (rels[index := b gallery (rels ! index)])
           | _ \<Rightarrow> (False, rels))"

definition refine_unresolved_capacity_relations ::
    "enrollment \<Rightarrow> subtemplate_view \<Rightarrow> relation list \<Rightarrow> bool list \<Rightarrow>
     (subtemplate_view \<Rightarrow> subtemplate_view \<Rightarrow> relation \<Rightarrow> relation) option \<Rightarrow> bool \<times> relation list" where
  "refine_unresolved_capacity_relations self probe probe_relations visited build =
     refine_relations self (map_option (\<lambda>b gallery. b gallery probe) build) visited
       [0..<length (subtemplates self)] probe_relations"

section \<open>Composing the missing relations\<close>

text \<open>
  The search from one root carries the state, the table of strengths, the strength and the
  transform between the root and the node just popped.
\<close>

type_synonym strengths = "nat \<times> nat \<Rightarrow> int"

definition synthesize_pop ::
    "nat \<Rightarrow> capacity_state \<times> strengths \<times> int \<times> transform \<Rightarrow> nat \<Rightarrow> capacity_state \<times> strengths \<times> int \<times> transform" where
  "synthesize_pop root s source =
     (case s of (st, strengths, _) \<Rightarrow>
      let (root_strength, source_to_root) = capacity_relation_load st root source
      in (st, strengths((root, source) := root_strength, (source, root) := root_strength),
          root_strength, source_to_root))"

definition synthesize_edge :: "capacity_state \<times> strengths \<times> int \<times> transform \<Rightarrow> nat \<Rightarrow> nat \<Rightarrow> bool" where
  "synthesize_edge s source candidate \<longleftrightarrow> \<not> fst (capacity_relation_load (fst s) source candidate) < 1"

definition join_groups :: "enrollment \<Rightarrow> nat \<Rightarrow> nat \<Rightarrow> enrollment" where
  "join_groups self root candidate =
     (let subs = subtemplates self
      in if group_state (subs ! root) = 1 \<or> group_state (subs ! candidate) = 1
         then self\<lparr> subtemplates := subs[root := (subs ! root)\<lparr> group_state := 1 \<rparr>,
                                         candidate := (subs ! candidate)\<lparr> group_state := 1 \<rparr>] \<rparr>
         else self)"

definition synthesize_follow ::
    "nat \<Rightarrow> capacity_state \<times> strengths \<times> int \<times> transform \<Rightarrow> nat \<Rightarrow> nat \<Rightarrow>
     (capacity_state \<times> strengths \<times> int \<times> transform) option" where
  "synthesize_follow root s source candidate =
     (case s of (st, strengths, root_strength, source_to_root) \<Rightarrow>
      let count = length (subtemplates (fst st));
          (edge_strength, candidate_to_source) = capacity_relation_load st source candidate;
          strengths1 = strengths((source, candidate) := edge_strength, (candidate, source) := edge_strength);
          path_strength = min root_strength edge_strength;
          existing_strength = fst (capacity_relation_load st root candidate)
      in if root = source \<or> existing_strength > 2 \<or>
            existing_strength = 2 \<and> strengths1 (root, candidate) \<ge> path_strength
         then Some (st, strengths1, root_strength, source_to_root)
         else map_option (\<lambda>(self', probe_relations').
              ((if candidate < count then join_groups self' root candidate else self', probe_relations'),
               strengths1((root, candidate) := path_strength), root_strength, source_to_root))
           (capacity_relation_store st root candidate (compose_group_transform source_to_root candidate_to_source) 2))"

fun synthesize_roots :: "nat list \<Rightarrow> capacity_state \<Rightarrow> strengths \<Rightarrow> capacity_state option" where
  "synthesize_roots [] st strengths = Some st"
| "synthesize_roots (root # roots) st strengths =
     (case node_search (synthesize_pop root) synthesize_edge (synthesize_follow root)
             ((replicate (length (subtemplates (fst st)) + 1) False)[root := True], [root],
              st, strengths, 0, identity_group_transform) of
        None \<Rightarrow> None
      | Some (_, st', strengths', _) \<Rightarrow> synthesize_roots roots st' strengths')"

definition goodix_chicago_enrollment_synthesize_capacity_relations ::
    "capacity_state \<Rightarrow> nat \<Rightarrow> (bool \<times> capacity_state) option" where
  "goodix_chicago_enrollment_synthesize_capacity_relations st relation_count =
     (let count = length (subtemplates (fst st))
      in if count \<noteq> capacity (fst st) \<or> count > ENROLLMENT_CAPACITY \<or> relation_count \<noteq> count then Some (False, st)
         else map_option (Pair True) (synthesize_roots [0..<count] st (\<lambda>_. 0)))"

section \<open>Scores and the choice\<close>

definition accepted_polygons :: "transform list \<Rightarrow> capacity_polygon list" where
  "accepted_polygons ts = map snd (filter fst (map (\<lambda>t. capacity_build_polygon t 80 64) ts))"

text \<open>The transform of a source sample into a target sample, where their relation is usable.\<close>

definition score_transform :: "enrollment \<Rightarrow> relation list \<Rightarrow> nat \<Rightarrow> nat \<Rightarrow> transform option" where
  "score_transform self rels target source =
     (let usable = (\<lambda>r. inlier_count r \<ge> 0)
      in if source = target then
           (if usable (rels ! target) then Some (rel_transform (rels ! target)) else None)
         else if source < target then
           (case relation_between_subtemplates self target source of
              None \<Rightarrow> None
            | Some r \<Rightarrow> if usable r then Some (invert_group_transform (rel_transform r)) else None)
         else
           (case relation_between_subtemplates self source target of
              None \<Rightarrow> None
            | Some r \<Rightarrow> if usable r then Some (rel_transform r) else None))"

definition goodix_chicago_enrollment_calculate_capacity_scores ::
    "enrollment \<Rightarrow> subtemplate_view \<Rightarrow> relation list \<Rightarrow> nat \<Rightarrow> (int \<times> int list \<times> nat list) option" where
  "goodix_chicago_enrollment_calculate_capacity_scores self probe rels relation_count =
     (let count = length (subtemplates self) in
      if count \<noteq> capacity self \<or> relation_count \<noteq> count then None
      else case v_metric probe of
        None \<Rightarrow> None
      | Some probe_metric \<Rightarrow>
          Some (capacity_redundancy_score (coarse_mask probe_metric)
                  (accepted_polygons (map (\<lambda>r. invert_group_transform (rel_transform r))
                     (filter (\<lambda>r. inlier_count r \<ge> 0) (map (\<lambda>k. rels ! k) [0..<count])))),
                map (\<lambda>target. case sub_metric (subtemplates self ! target) of
                       None \<Rightarrow> 100
                     | Some m \<Rightarrow> capacity_redundancy_score (coarse_mask m)
                         (accepted_polygons (List.map_filter (score_transform self rels target) [0..<count]))) [0..<count],
                map quality (subtemplates self)))"

text \<open>The first sample of largest score, above the probe's, among those with at most twice the
  records of the probe.\<close>

definition best_replacement :: "enrollment \<Rightarrow> subtemplate_view \<Rightarrow> int \<Rightarrow> int list \<Rightarrow> nat option" where
  "best_replacement self probe probe_score scores =
     snd (foldl (\<lambda>(best_score, best) index.
            if record_count (subtemplates self ! index) * 50 > v_record_count probe * 100 \<or> scores ! index \<le> best_score
            then (best_score, best) else (scores ! index, Some index))
          (probe_score, None) [0..<length (subtemplates self)])"

definition selected_is_replaceable :: "subtemplate \<Rightarrow> subtemplate_view \<Rightarrow> int \<Rightarrow> int \<Rightarrow> bool" where
  "selected_is_replaceable selected probe probe_score score \<longleftrightarrow>
     score > 95 \<and> v_quality probe > 50 \<or>
     v_coverage probe > 80 \<and> probe_score * 9 < score * 10 \<and>
       v_quality probe * 100 > quality selected * (if quality selected < 60 then 90 else 80)"

text \<open>
  The whole choice: the result is whether the function succeeded, the replacement index (\<open>None\<close> for
  \<open>G_MAXUINT\<close>) and the state, which the failing exits leave as far as it was changed.
\<close>

definition select_capacity_replacement ::
    "enrollment \<Rightarrow> subtemplate_view \<Rightarrow> nat \<Rightarrow> relation list \<Rightarrow> nat \<Rightarrow> bool \<Rightarrow>
     (subtemplate_view \<Rightarrow> subtemplate_view \<Rightarrow> relation \<Rightarrow> relation) option \<Rightarrow>
     (bool \<times> nat option \<times> capacity_state) option" where
  "select_capacity_replacement self probe selected_index probe_relations relation_count reconstruct_gallery build =
     (let count = length (subtemplates self); st0 = (self, Some probe_relations) in
      if count \<noteq> capacity self \<or> selected_index \<ge> count \<or> relation_count \<noteq> count then Some (False, None, st0)
      else
        case (if reconstruct_gallery
              then goodix_chicago_enrollment_synthesize_capacity_relations (self, None) count
              else Some (True, (self, None))) of
          None \<Rightarrow> None
        | Some (ok1, (self1, _)) \<Rightarrow>
            if \<not> ok1 then Some (False, None, (self1, Some probe_relations))
            else case propagate_capacity_relations self1 probe_relations count of
              None \<Rightarrow> None
            | Some (None, st2) \<Rightarrow> Some (False, None, st2)
            | Some (Some visited, (self2, rels2)) \<Rightarrow>
                let (ok3, rels3) = refine_unresolved_capacity_relations self2 probe (the rels2) visited build
                in if \<not> ok3 then Some (False, None, (self2, Some rels3))
                   else case goodix_chicago_enrollment_synthesize_capacity_relations (self2, Some rels3) count of
                     None \<Rightarrow> None
                   | Some (ok4, (self4, rels4)) \<Rightarrow>
                       if \<not> ok4 then Some (False, None, (self4, rels4))
                       else case goodix_chicago_enrollment_calculate_capacity_scores self4 probe (the rels4) count of
                         None \<Rightarrow> Some (False, None, (self4, rels4))
                       | Some (probe_score, scores, qualities) \<Rightarrow>
                           Some (True,
                             (case best_replacement self4 probe probe_score scores of
                                Some index \<Rightarrow> Some index
                              | None \<Rightarrow>
                                  if selected_is_replaceable (subtemplates self4 ! selected_index) probe
                                       probe_score (scores ! selected_index)
                                  then Some selected_index else None),
                             (self4, rels4)))"

definition goodix_chicago_enrollment_select_capacity_replacement ::
    "enrollment \<Rightarrow> subtemplate_view \<Rightarrow> nat \<Rightarrow> relation list \<Rightarrow> nat \<Rightarrow>
     (subtemplate_view \<Rightarrow> subtemplate_view \<Rightarrow> relation \<Rightarrow> relation) option \<Rightarrow>
     (bool \<times> nat option \<times> capacity_state) option" where
  "goodix_chicago_enrollment_select_capacity_replacement self probe selected_index probe_relations relation_count build =
     select_capacity_replacement self probe selected_index probe_relations relation_count True build"

section \<open>Loads and stores on well-formed states\<close>

lemma triangle_slot_inj:
  assumes "j < i" and "j' < i'" and "triangle i + j = triangle i' + j'"
  shows "i = i' \<and> j = j'"
proof -
  have "\<not> i < i'" using relation_slot_in_range [OF _ assms(1), of i'] assms(3) by linarith
  moreover have "\<not> i' < i" using relation_slot_in_range [OF _ assms(2), of i] assms(3) by linarith
  ultimately show ?thesis using assms(3) by simp
qed

text \<open>What the searches leave alone: only strengths, transforms and group marks change.\<close>

definition same_gallery :: "enrollment \<Rightarrow> enrollment \<Rightarrow> bool" where
  "same_gallery self self' \<longleftrightarrow>
     self'\<lparr> relations := relations self, subtemplates := subtemplates self \<rparr> = self \<and>
     length (relations self') = length (relations self) \<and>
     map (\<lambda>s. s\<lparr> group_state := 0 \<rparr>) (subtemplates self') = map (\<lambda>s. s\<lparr> group_state := 0 \<rparr>) (subtemplates self)"

lemma same_gallery_refl [simp]: "same_gallery self self"
  by (simp add: same_gallery_def)

lemma same_gallery_trans: "same_gallery a b \<Longrightarrow> same_gallery b c \<Longrightarrow> same_gallery a c"
proof -
  assume ab: "same_gallery a b" and bc: "same_gallery b c"
  have "c\<lparr> relations := relations a, subtemplates := subtemplates a \<rparr> =
      (c\<lparr> relations := relations b, subtemplates := subtemplates b \<rparr>)\<lparr> relations := relations a, subtemplates := subtemplates a \<rparr>"
    by simp
  also have "\<dots> = a" using ab bc by (simp add: same_gallery_def)
  finally show ?thesis using ab bc by (simp add: same_gallery_def)
qed

lemma same_galleryD:
  assumes "same_gallery self self'"
  shows "length (subtemplates self') = length (subtemplates self)" "length (relations self') = length (relations self)"
    "capacity self' = capacity self" "record_limit self' = record_limit self" "group_edges self' = group_edges self"
    "transform_count self' = transform_count self" "match_order self' = match_order self"
    "map relation_base (subtemplates self') = map relation_base (subtemplates self)"
proof -
  have "map relation_base (map (\<lambda>s. s\<lparr> group_state := 0 \<rparr>) (subtemplates self')) =
      map relation_base (map (\<lambda>s. s\<lparr> group_state := 0 \<rparr>) (subtemplates self))"
    using assms by (simp only: same_gallery_def)
  then show "map relation_base (subtemplates self') = map relation_base (subtemplates self)" by (simp add: comp_def)
  show "length (subtemplates self') = length (subtemplates self)"
    using assms by (metis length_map same_gallery_def)
  have eq: "self = self'\<lparr> relations := relations self, subtemplates := subtemplates self \<rparr>"
    and len: "length (relations self') = length (relations self)"
    using assms by (simp_all only: same_gallery_def)
  show "length (relations self') = length (relations self)" by (rule len)
  show "capacity self' = capacity self" "record_limit self' = record_limit self" "group_edges self' = group_edges self"
    "transform_count self' = transform_count self" "match_order self' = match_order self"
    by (subst eq, simp)+
qed

lemma same_gallery_sub:
  assumes "same_gallery self self'" and "k < length (subtemplates self)"
  shows "(subtemplates self' ! k)\<lparr> group_state := 0 \<rparr> = (subtemplates self ! k)\<lparr> group_state := 0 \<rparr>"
proof -
  have "map (\<lambda>s. s\<lparr> group_state := 0 \<rparr>) (subtemplates self') ! k = map (\<lambda>s. s\<lparr> group_state := 0 \<rparr>) (subtemplates self) ! k"
    using assms(1) by (simp only: same_gallery_def)
  then show ?thesis using assms(2) same_galleryD(1) [OF assms(1)] by simp
qed

lemma same_gallery_wf:
  assumes "same_gallery self self'" and wf: "enrollment_wf self"
  shows "enrollment_wf self'"
proof -
  note same = same_galleryD [OF assms(1)]
  have "subtemplate_ok self' s'" if s': "s' \<in> set (subtemplates self')" for s'
  proof -
    obtain k where k: "k < length (subtemplates self)" "s' = subtemplates self' ! k"
      using s' same(1) by (auto simp: in_set_conv_nth)
    let ?s = "subtemplates self ! k"
    have eq: "s'\<lparr> group_state := 0 \<rparr> = ?s\<lparr> group_state := 0 \<rparr>" using same_gallery_sub [OF assms(1) k(1)] k(2) by simp
    have "active_count s' = active_count ?s" "record_count s' = record_count ?s" "records s' = records ?s"
      using arg_cong [OF eq, of active_count] arg_cong [OF eq, of record_count] arg_cong [OF eq, of records] by simp_all
    moreover have "subtemplate_ok self ?s" using enrollment_wfD(7) [OF wf] k(1) by simp
    ultimately show ?thesis using same(4) by (simp add: subtemplate_ok_def)
  qed
  then show ?thesis using wf same unfolding enrollment_wf_def Let_def by simp
qed

definition capacity_ok :: "capacity_state \<Rightarrow> bool" where
  "capacity_ok st \<longleftrightarrow> enrollment_wf (fst st) \<and>
     (\<forall>rels. snd st = Some rels \<longrightarrow> length rels = length (subtemplates (fst st)))"

text \<open>The strength of the relation of two nodes.\<close>

definition level :: "capacity_state \<Rightarrow> nat \<Rightarrow> nat \<Rightarrow> int" where
  "level st a b = fst (capacity_relation_load st a b)"

text \<open>Where the relation of two different nodes is kept.\<close>

definition stored_level :: "capacity_state \<Rightarrow> nat \<Rightarrow> nat \<Rightarrow> int" where
  "stored_level st older newer =
     (if newer = length (subtemplates (fst st))
      then case snd st of None \<Rightarrow> -1 | Some rels \<Rightarrow> inlier_count (rels ! older)
      else inlier_count (relations (fst st) ! (triangle newer + older)))"

lemma wf_relation_between:
  assumes "enrollment_wf self" and "newer < length (subtemplates self)" and "older < newer"
  shows "relation_between_subtemplates self newer older = Some (relations self ! (triangle newer + older))"
  using wf_relation_slot [OF assms] by (simp add: relation_between_subtemplates_def)

lemma level_stored:
  assumes "enrollment_wf (fst st)" and "a \<noteq> b" and "a \<le> length (subtemplates (fst st))" "b \<le> length (subtemplates (fst st))"
  shows "level st a b = stored_level st (min a b) (max a b)"
proof -
  obtain self rels where st: "st = (self, rels)" by (cases st)
  consider "a = length (subtemplates self)" "b < a" | "b = length (subtemplates self)" "a < b"
    | "a < b" "b < length (subtemplates self)" | "b < a" "a < length (subtemplates self)"
    using assms(2-4) st by force
  then show ?thesis
    by cases (use assms(1) in \<open>auto simp: level_def stored_level_def st capacity_relation_load_def Let_def
        wf_relation_between split: option.split\<close>)
qed

lemma level_self [simp]: "level st a a = 0"
  by (cases st) (simp add: level_def capacity_relation_load_def Let_def)

lemma level_sym:
  assumes "enrollment_wf (fst st)" and "a \<le> length (subtemplates (fst st))" "b \<le> length (subtemplates (fst st))"
  shows "level st a b = level st b a"
proof (cases "a = b")
  case False
  then show ?thesis
    using level_stored [OF assms(1) False assms(2,3)] level_stored [OF assms(1) not_sym [OF False] assms(3,2)]
    by (simp add: min.commute max.commute)
qed simp

lemma same_gallery_relations: "length rels = length (relations self) \<Longrightarrow> same_gallery self (self\<lparr> relations := rels \<rparr>)"
  by (simp add: same_gallery_def)

lemma store_form:
  assumes "enrollment_wf (fst st)" and "a \<noteq> b" "a \<le> length (subtemplates (fst st))" "b \<le> length (subtemplates (fst st))"
  shows "\<exists>r. inlier_count r = l \<and> capacity_relation_store st a b t l = Some
    (if max a b = length (subtemplates (fst st)) then (fst st, map_option (\<lambda>rels. rels[min a b := r]) (snd st))
     else ((fst st)\<lparr> relations := (relations (fst st))[triangle (max a b) + min a b := r] \<rparr>, snd st))"
proof -
  obtain self rels where st: "st = (self, rels)" by (cases st)
  let ?p = "\<lparr> inlier_count = l, rel_transform = t \<rparr>" and ?i = "\<lparr> inlier_count = l, rel_transform = invert_group_transform t \<rparr>"
  consider "a = length (subtemplates self)" "b < a" | "b = length (subtemplates self)" "a < b"
    | "a < b" "b < length (subtemplates self)" | "b < a" "a < length (subtemplates self)"
    using assms(2-4) st by force
  then show ?thesis
  proof cases
    case 1
    then show ?thesis by (intro exI [of _ ?i]) (simp add: st capacity_relation_store_def Let_def max_def min_def)
  next
    case 2
    then show ?thesis by (intro exI [of _ ?p]) (simp add: st capacity_relation_store_def Let_def max_def min_def)
  next
    case 3
    then show ?thesis using wf_relation_slot [of self b a] assms(1)
      by (intro exI [of _ ?p]) (simp add: st capacity_relation_store_def Let_def max_def min_def store_between_def)
  next
    case 4
    then show ?thesis using wf_relation_slot [of self a b] assms(1)
      by (intro exI [of _ ?i]) (simp add: st capacity_relation_store_def Let_def max_def min_def store_between_def)
  qed
qed

lemma unordered_pair: "x \<noteq> y \<Longrightarrow> a \<noteq> b \<Longrightarrow> {x, y} = {a, b} \<longleftrightarrow> min x y = min a b \<and> max x y = max (a :: nat) b"
  by (auto simp: doubleton_eq_iff min_def max_def split: if_splits)

text \<open>The effect of a store on every strength. Without a probe array the stores to the probe are lost.\<close>

lemma store_effect:
  assumes ok: "capacity_ok st" and ab: "a \<noteq> b" "a \<le> length (subtemplates (fst st))" "b \<le> length (subtemplates (fst st))"
  shows "\<exists>st'. capacity_relation_store st a b t l = Some st' \<and> capacity_ok st' \<and> same_gallery (fst st) (fst st') \<and>
    subtemplates (fst st') = subtemplates (fst st) \<and> (snd st' = None) = (snd st = None) \<and>
    (\<forall>x y. x \<noteq> y \<longrightarrow> x \<le> length (subtemplates (fst st)) \<longrightarrow> y \<le> length (subtemplates (fst st)) \<longrightarrow>
       level st' x y = (if {x, y} = {a, b} \<and> \<not> (snd st = None \<and> max a b = length (subtemplates (fst st))) then l else level st x y))"
proof -
  let ?n = "length (subtemplates (fst st))" and ?o = "min a b" and ?w = "max a b"
  have wf: "enrollment_wf (fst st)" and rels: "\<And>rels. snd st = Some rels \<Longrightarrow> length rels = ?n"
    using ok by (simp_all add: capacity_ok_def)
  have ow: "?o < ?w" "?w \<le> ?n" using ab by (auto simp: min_def max_def)
  obtain r where r: "inlier_count r = l" "capacity_relation_store st a b t l = Some
    (if ?w = ?n then (fst st, map_option (\<lambda>rels. rels[?o := r]) (snd st))
     else ((fst st)\<lparr> relations := (relations (fst st))[triangle ?w + ?o := r] \<rparr>, snd st))"
    using store_form [OF wf ab] by blast
  let ?st' = "if ?w = ?n then (fst st, map_option (\<lambda>rels. rels[?o := r]) (snd st))
     else ((fst st)\<lparr> relations := (relations (fst st))[triangle ?w + ?o := r] \<rparr>, snd st)"
  have same: "same_gallery (fst st) (fst ?st')" by (simp add: same_gallery_relations)
  have ok': "capacity_ok ?st'"
    using same_gallery_wf [OF same wf] rels unfolding capacity_ok_def by (auto split: if_splits)
  have subs: "subtemplates (fst ?st') = subtemplates (fst st)" by simp
  have stored: "stored_level ?st' o' w' =
      (if o' = ?o \<and> w' = ?w \<and> \<not> (snd st = None \<and> ?w = ?n) then l else stored_level st o' w')"
    if "o' < w'" "w' \<le> ?n" for o' w'
  proof (cases "?w = ?n")
    case True
    then show ?thesis using that rels r(1) ow by (cases "snd st") (auto simp: stored_level_def nth_list_update)
  next
    case False
    then have slot: "triangle ?w + ?o < length (relations (fst st))"
      unfolding enrollment_wfD(4) [OF wf] by (rule relation_slot_in_range [OF le_neq_implies_less [OF ow(2)] ow(1)])
    show ?thesis
    proof (cases "w' = ?n")
      case True
      then show ?thesis using False by (simp add: stored_level_def)
    next
      case w': False
      have "triangle w' + o' = triangle ?w + ?o \<longleftrightarrow> w' = ?w \<and> o' = ?o"
        using triangle_slot_inj [OF that(1) ow(1)] by auto
      then show ?thesis using False w' slot r(1) by (auto simp: stored_level_def nth_list_update)
    qed
  qed
  have "level ?st' x y = (if {x, y} = {a, b} \<and> \<not> (snd st = None \<and> ?w = ?n) then l else level st x y)"
    if xy: "x \<noteq> y" "x \<le> ?n" "y \<le> ?n" for x y
  proof -
    have "level ?st' x y = stored_level ?st' (min x y) (max x y)"
      using level_stored [of ?st' x y] ok' xy unfolding capacity_ok_def subs by blast
    moreover have "level st x y = stored_level st (min x y) (max x y)" by (rule level_stored [OF wf xy])
    moreover have "min x y < max x y" "max x y \<le> ?n" using xy by (auto simp: min_def max_def)
    ultimately show ?thesis
      by (simp only: stored [of "min x y" "max x y"] unordered_pair [OF xy(1) ab(1)] conj_assoc)
  qed
  then show ?thesis using r(2) ok' same subs by (intro exI [of _ ?st'] conjI allI impI) auto
qed

section \<open>What the propagation reaches\<close>

text \<open>A strength as the code reads it.\<close>

lemma traversable_iff: "in_i32 l \<Longrightarrow> traversable l \<longleftrightarrow> 1 \<le> l \<and> l \<le> 42"
proof -
  assume l: "in_i32 l"
  have "traversable l \<longleftrightarrow> (l - 1) mod 2 ^ 32 \<le> 41"
    unfolding traversable_def word_less_alt not_less uint_word_of_int by simp
  also have "\<dots> \<longleftrightarrow> 1 \<le> l \<and> l \<le> 42"
  proof (cases "1 \<le> l")
    case True
    then have "(l - 1) mod 2 ^ 32 = l - 1" using l by (intro mod_pos_pos_trivial) (simp_all add: in_i32_def)
    then show ?thesis using True by linarith
  next
    case False
    have "(l - 1) mod 2 ^ 32 = (l - 1 + 2 ^ 32) mod 2 ^ 32" by (rule mod_add_self2 [symmetric])
    also have "\<dots> = l - 1 + 2 ^ 32" using l False by (intro mod_pos_pos_trivial) (simp_all add: in_i32_def)
    finally show ?thesis using False l by (simp add: in_i32_def)
  qed
  finally show ?thesis .
qed

text \<open>The key of a propagation is the enrollment and the relations it starts with.\<close>

definition propagate_graph :: "enrollment \<times> relation list \<Rightarrow> nat \<Rightarrow> nat \<Rightarrow> bool" where
  "propagate_graph k source candidate = traversable (level (fst k, Some (snd k)) source candidate)"

definition propagated_from :: "relation \<Rightarrow> relation \<Rightarrow> bool" where
  "propagated_from r r' \<longleftrightarrow>
     r' = r \<and> (traversable (inlier_count r) \<or> 2 \<le> inlier_count r) \<or> inlier_count r < 2 \<and> inlier_count r' = 2"

definition propagate_keeps :: "enrollment \<times> relation list \<Rightarrow> bool list \<Rightarrow> capacity_state \<times> transform \<Rightarrow> bool" where
  "propagate_keeps k visited s \<longleftrightarrow>
     capacity_ok (fst k, Some (snd k)) \<and>
     (\<exists>rels t. s = ((fst k, Some rels), t) \<and> length rels = length (snd k) \<and>
       (\<forall>i < length (snd k). if visited ! i then propagated_from (snd k ! i) (rels ! i) else rels ! i = snd k ! i))"

lemma level_probe: "c < length (subtemplates self) \<Longrightarrow> level (self, Some rels) (length (subtemplates self)) c = inlier_count (rels ! c)"
  by (simp add: level_def capacity_relation_load_def Let_def)

lemma level_gallery:
  "a < length (subtemplates self) \<Longrightarrow> b < length (subtemplates self) \<Longrightarrow> level (self, rels) a b = level (self, rels') a b"
  by (simp add: level_def capacity_relation_load_def Let_def)

lemma propagate_edge_stable:
  assumes "propagate_keeps k visited s" and "source = length (snd k) \<or> source < length (snd k)" 
    and "c < length (snd k)" and "\<not> visited ! c"
  shows "propagate_edge s source c = propagate_graph k source c"
proof -
  let ?self = "fst k"
  obtain rels t where s: "s = ((?self, Some rels), t)" "rels ! c = snd k ! c"
    using assms by (auto simp: propagate_keeps_def)
  have n: "length (snd k) = length (subtemplates ?self)" using assms(1) by (simp add: propagate_keeps_def capacity_ok_def)
  show ?thesis
    using assms(2,3) s(2) level_gallery [of source ?self c "Some rels" "Some (snd k)"]
    by (auto simp: propagate_edge_def propagate_graph_def s(1) n level_probe simp flip: level_def)
qed

lemma propagate_follow_keeps:
  assumes keeps: "propagate_keeps k visited s" and source: "source = length (snd k) \<or> source < length (snd k)"
    and len: "length visited = length (snd k)" and c: "c < length (snd k)" "\<not> visited ! c" "propagate_graph k source c"
  shows "\<exists>s'. propagate_follow s source c = Some s' \<and> propagate_keeps k (visited[c := True]) s'"
proof -
  let ?self = "fst k"
  obtain rels t where s: "s = ((?self, Some rels), t)" "length rels = length (snd k)"
    "\<And>i. i < length (snd k) \<Longrightarrow> if visited ! i then propagated_from (snd k ! i) (rels ! i) else rels ! i = snd k ! i"
    using keeps unfolding propagate_keeps_def by blast
  have ok: "capacity_ok (?self, Some (snd k))" using keeps by (simp add: propagate_keeps_def)
  then have n: "length (snd k) = length (subtemplates ?self)" by (simp add: capacity_ok_def)
  have same: "rels ! c = snd k ! c" using s(3) [OF c(1)] c(2) by simp
  have existing: "fst (capacity_relation_load (?self, Some rels) (length (subtemplates ?self)) c) = inlier_count (snd k ! c)"
    using level_probe [of c ?self rels] c(1) n same by (simp add: level_def)
  show ?thesis
  proof (cases "source = length (subtemplates ?self) \<or> inlier_count (snd k ! c) \<ge> 2")
    case True
    have "propagated_from (snd k ! c) (snd k ! c)"
      using True c(1,3) n level_probe [of c ?self "snd k"] by (auto simp: propagated_from_def propagate_graph_def)
    then have "if visited[c := True] ! i then propagated_from (snd k ! i) (rels ! i) else rels ! i = snd k ! i"
      if "i < length (snd k)" for i
      using s(3) [OF that] same len c(1) by (cases "i = c") auto
    moreover have "propagate_follow s source c = Some s"
      using True existing by (auto simp: propagate_follow_def s(1) Let_def)
    ultimately show ?thesis using ok s(1,2) unfolding propagate_keeps_def by blast
  next
    case False
    let ?r = "\<lparr> inlier_count = 2, rel_transform = invert_group_transform
      (compose_group_transform t (snd (capacity_relation_load (?self, Some rels) source c))) \<rparr>"
    have "propagate_follow s source c = Some ((?self, Some (rels[c := ?r])), t)"
      using False existing c(1) n by (simp add: propagate_follow_def s(1) Let_def capacity_relation_store_def)
    moreover have "if visited[c := True] ! i then propagated_from (snd k ! i) (rels[c := ?r] ! i) else rels[c := ?r] ! i = snd k ! i"
      if "i < length (snd k)" for i
      using s(2) s(3) [OF that] len c(1) False by (cases "i = c") (auto simp: propagated_from_def)
    ultimately show ?thesis using ok s(2) unfolding propagate_keeps_def by (metis length_list_update)
  qed
qed

interpretation propagation: stable_search
  "\<lambda>_. propagate_pop" "\<lambda>_. propagate_edge" "\<lambda>_. propagate_follow" propagate_graph
  "\<lambda>k. length (snd k)" "\<lambda>k. length (snd k)" propagate_keeps "\<lambda>k _. propagate_keeps k"
proof
  show "propagate_keeps k visited (propagate_pop s source)" if "propagate_keeps k visited s" for k visited s source
    using that by (auto simp: propagate_keeps_def propagate_pop_def)
  show "propagate_edge s source c = propagate_graph k source c"
    if "propagate_keeps k visited s" "source = length (snd k) \<or> source < length (snd k) \<and> visited ! source"
      "c < length (snd k)" "\<not> visited ! c" for k visited s source c
    using propagate_edge_stable [OF that(1) _ that(3,4)] that(2) by blast
  show "\<exists>s'. propagate_follow s source c = Some s' \<and> propagate_keeps k (visited[c := True]) s'"
    if "propagate_keeps k visited s" "source = length (snd k) \<or> source < length (snd k) \<and> visited ! source"
      "length visited = length (snd k)" "c < length (snd k)" "\<not> visited ! c" "propagate_graph k source c" for k visited s source c
    using propagate_follow_keeps [OF that(1) _ that(3-6)] that(2) by blast
qed

lemma propagate_reaches:
  assumes wf: "enrollment_wf self" and full: "length (subtemplates self) = capacity self"
    and len: "length rels = length (subtemplates self)"
  shows "\<exists>visited rels'. propagate_capacity_relations self rels (length rels) = Some (Some visited, (self, Some rels')) \<and>
    length visited = length rels \<and> length rels' = length rels \<and>
    (\<forall>i < length rels. visited ! i = ((length rels, i) \<in> (propagation.arcs (self, rels))\<^sup>*)) \<and>
    (\<forall>i < length rels. if visited ! i then propagated_from (rels ! i) (rels' ! i) else rels' ! i = rels ! i)"
proof -
  let ?n = "length rels"
  have "propagate_keeps (self, rels) (replicate ?n False) ((self, Some rels), identity_group_transform)"
    using wf len by (simp add: propagate_keeps_def capacity_ok_def)
  then obtain visited s where r:
    "node_search propagate_pop propagate_edge propagate_follow
       (replicate ?n False, [?n], (self, Some rels), identity_group_transform) = Some (visited, s)"
    "propagate_keeps (self, rels) visited s" "length visited = ?n"
    "\<And>i. i < ?n \<Longrightarrow> visited ! i = ((?n, i) \<in> (propagation.arcs (self, rels))\<^sup>*)"
    using propagation.search_reaches [of "(self, rels)" "replicate ?n False" "((self, Some rels), identity_group_transform)"]
    by auto
  then obtain rels' t where s: "s = ((self, Some rels'), t)" "length rels' = ?n"
    "\<And>i. i < ?n \<Longrightarrow> if visited ! i then propagated_from (rels ! i) (rels' ! i) else rels' ! i = rels ! i"
    unfolding propagate_keeps_def snd_conv fst_conv by blast
  have "propagate_capacity_relations self rels ?n = Some (Some visited, (self, Some rels'))"
    using r(1) s(1) full len enrollment_wfD(2) [OF wf] by (simp add: propagate_capacity_relations_def)
  then show ?thesis using r(3,4) s(2,3) by blast
qed

section \<open>The synthesis closes the relation graph\<close>

definition related :: "capacity_state \<Rightarrow> (nat \<times> nat) set" where
  "related st = {(a, b). a \<le> length (subtemplates (fst st)) \<and> b \<le> length (subtemplates (fst st)) \<and> 1 \<le> level st a b}"

lemma related_sym: "enrollment_wf (fst st) \<Longrightarrow> sym (related st)"
  by (auto simp: sym_def related_def level_sym)

lemma related_star_sym: "enrollment_wf (fst st) \<Longrightarrow> (a, b) \<in> (related st)\<^sup>* \<Longrightarrow> (b, a) \<in> (related st)\<^sup>*"
  using sym_rtrancl [OF related_sym] by (blast dest: symD)

lemma related_star_below:
  assumes "(a, b) \<in> (related st)\<^sup>*" and "a \<noteq> b"
  shows "a \<le> length (subtemplates (fst st))" "b \<le> length (subtemplates (fst st))"
proof -
  have "related st \<subseteq> {..length (subtemplates (fst st))} \<times> {..length (subtemplates (fst st))}"
    by (auto simp: related_def)
  from trancl_subset_Sigma [OF this] rtranclD [OF assms(1)] assms(2)
  show "a \<le> length (subtemplates (fst st))" "b \<le> length (subtemplates (fst st))" by auto
qed

text \<open>The state of one search against the one it started from: strengths only change from at most two
  to two, for pairs of the root and a visited node.\<close>

definition raised :: "capacity_state \<Rightarrow> capacity_state \<Rightarrow> (nat \<Rightarrow> nat \<Rightarrow> bool) \<Rightarrow> bool" where
  "raised st st' changes \<longleftrightarrow>
     capacity_ok st' \<and> same_gallery (fst st) (fst st') \<and> (snd st' = None) = (snd st = None) \<and>
     (\<forall>x y. x \<noteq> y \<longrightarrow> x \<le> length (subtemplates (fst st)) \<longrightarrow> y \<le> length (subtemplates (fst st)) \<longrightarrow>
        level st' x y = level st x y \<or> changes x y \<and> level st x y \<le> 2 \<and> level st' x y = 2)"

lemma raised_refl: "capacity_ok st \<Longrightarrow> raised st st changes"
  by (simp add: raised_def)

lemma raisedD:
  assumes "raised st st' changes"
  shows "capacity_ok st'" "same_gallery (fst st) (fst st')" "(snd st' = None) = (snd st = None)"
    "length (subtemplates (fst st')) = length (subtemplates (fst st))"
    "\<And>x y. x \<noteq> y \<Longrightarrow> x \<le> length (subtemplates (fst st)) \<Longrightarrow> y \<le> length (subtemplates (fst st)) \<Longrightarrow>
        level st' x y = level st x y \<or> changes x y \<and> level st x y \<le> 2 \<and> level st' x y = 2"
  using assms same_galleryD(1) [of "fst st" "fst st'"] unfolding raised_def by blast+

lemma raised_level_mono:
  "raised st st' changes \<Longrightarrow> x \<le> length (subtemplates (fst st)) \<Longrightarrow> y \<le> length (subtemplates (fst st)) \<Longrightarrow>
   level st x y \<le> level st' x y"
  using raisedD(5) [of st st' changes x y] by (cases "x = y") auto

lemma raised_related: "raised st st' changes \<Longrightarrow> related st \<subseteq> related st'"
  using raisedD(4) [of st st' changes] raised_level_mono [of st st' changes]
  by (force simp: related_def)

lemma raised_weaken: "raised st st' p \<Longrightarrow> (\<And>x y. p x y \<Longrightarrow> q x y) \<Longrightarrow> raised st st' q"
  unfolding raised_def by (elim conjE, intro conjI, assumption+) metis

lemma raised_trans:
  assumes ab: "raised a b p" and bc: "raised b c q" and "\<And>x y. p x y \<Longrightarrow> r x y" and "\<And>x y. q x y \<Longrightarrow> r x y"
  shows "raised a c r"
proof -
  have "level c x y = level a x y \<or> r x y \<and> level a x y \<le> 2 \<and> level c x y = 2"
    if "x \<noteq> y" "x \<le> length (subtemplates (fst a))" "y \<le> length (subtemplates (fst a))" for x y
  proof -
    have "x \<le> length (subtemplates (fst b))" "y \<le> length (subtemplates (fst b))"
      using that raisedD(4) [OF ab] by simp_all
    note second = raisedD(5) [OF bc that(1) this]
    note first = raisedD(5) [OF ab that]
    have "p x y \<longrightarrow> r x y" "q x y \<longrightarrow> r x y" using assms(3,4) by blast+
    with first second show ?thesis by metis
  qed
  moreover have "same_gallery (fst a) (fst c)"
    by (rule same_gallery_trans [OF raisedD(2) [OF ab] raisedD(2) [OF bc]])
  moreover have "(snd c = None) = (snd a = None)" using raisedD(3) [OF ab] raisedD(3) [OF bc] by (rule trans [rotated])
  ultimately show ?thesis unfolding raised_def using raisedD(1) [OF bc] by blast
qed

lemma stored_level_cong:
  "relations (fst st') = relations (fst st) \<Longrightarrow> length (subtemplates (fst st')) = length (subtemplates (fst st)) \<Longrightarrow>
   snd st' = snd st \<Longrightarrow> stored_level st' a b = stored_level st a b"
  by (simp add: stored_level_def)

lemma join_groups_raised:
  assumes "capacity_ok (self, rels)" and "root < length (subtemplates self)" and "c < length (subtemplates self)"
  shows "raised (self, rels) (join_groups self root c, rels) changes"
proof -
  let ?self' = "join_groups self root c"
  have fields: "relations ?self' = relations self" "length (subtemplates ?self') = length (subtemplates self)"
    by (simp_all add: join_groups_def Let_def)
  have "map (\<lambda>s. s\<lparr> group_state := 0 \<rparr>) (subtemplates ?self') = map (\<lambda>s. s\<lparr> group_state := 0 \<rparr>) (subtemplates self)"
    by (rule nth_equalityI) (use assms in \<open>auto simp: join_groups_def Let_def nth_list_update\<close>)
  then have same: "same_gallery self ?self'"
    by (simp add: same_gallery_def fields) (simp add: join_groups_def Let_def)
  have wf: "enrollment_wf self" "enrollment_wf ?self'" using assms(1) same_gallery_wf [OF same] by (simp_all add: capacity_ok_def)
  then have ok: "capacity_ok (?self', rels)" using assms(1) fields by (simp add: capacity_ok_def)
  have "level (?self', rels) x y = level (self, rels) x y"
    if "x \<noteq> y" "x \<le> length (subtemplates self)" "y \<le> length (subtemplates self)" for x y
    using level_stored [of "(?self', rels)" x y] level_stored [of "(self, rels)" x y] that wf fields
      stored_level_cong [of "(?self', rels)" "(self, rels)"] by simp
  then show ?thesis using ok same by (simp add: raised_def)
qed

definition synthesize_graph :: "capacity_state \<times> nat \<Rightarrow> nat \<Rightarrow> nat \<Rightarrow> bool" where
  "synthesize_graph k source candidate \<longleftrightarrow> 1 \<le> level (fst k) source candidate"

abbreviation (input) synthesize_nodes :: "capacity_state \<times> nat \<Rightarrow> nat" where
  "synthesize_nodes k \<equiv> Suc (length (subtemplates (fst (fst k))))"

definition synthesize_keeps ::
    "capacity_state \<times> nat \<Rightarrow> bool list \<Rightarrow> capacity_state \<times> strengths \<times> int \<times> transform \<Rightarrow> bool" where
  "synthesize_keeps k visited s \<longleftrightarrow>
     capacity_ok (fst k) \<and> snd k < length (subtemplates (fst (fst k))) \<and>
     length visited = synthesize_nodes k \<and> visited ! snd k \<and>
     raised (fst k) (fst s) (\<lambda>x y. \<exists>c < synthesize_nodes k. {x, y} = {snd k, c} \<and> visited ! c) \<and>
     (\<forall>c < synthesize_nodes k. visited ! c \<longrightarrow> c \<noteq> snd k \<longrightarrow> 1 \<le> level (fst s) (snd k) c)"

lemma synthesize_level_unvisited:
  assumes keeps: "synthesize_keeps k visited s" and c: "c < synthesize_nodes k" "\<not> visited ! c" and a: "a < synthesize_nodes k"
    and visited: "visited ! a"
  shows "level (fst s) a c = level (fst k) a c"
proof (cases "a = c")
  case False
  have "\<not> (\<exists>d < synthesize_nodes k. {a, c} = {snd k, d} \<and> visited ! d)"
  proof
    assume "\<exists>d < synthesize_nodes k. {a, c} = {snd k, d} \<and> visited ! d"
    then obtain d where d: "{a, c} = {snd k, d}" "visited ! d" by blast
    then have "c = snd k \<or> c = d" by (auto simp: doubleton_eq_iff)
    then show False using c(2) d(2) keeps by (auto simp: synthesize_keeps_def)
  qed
  moreover have "raised (fst k) (fst s) (\<lambda>x y. \<exists>d < synthesize_nodes k. {x, y} = {snd k, d} \<and> visited ! d)"
    using keeps by (simp add: synthesize_keeps_def)
  ultimately show ?thesis using raisedD(5) [OF _ False less_Suc_eq_le [THEN iffD1, OF a] less_Suc_eq_le [THEN iffD1, OF c(1)]] by blast
qed simp

lemma synthesize_keeps_mark:
  assumes keeps: "synthesize_keeps k visited s" and c: "c < synthesize_nodes k" "c \<noteq> snd k"
    and step: "raised (fst s) (fst s') (\<lambda>x y. {x, y} = {snd k, c})" and new: "1 \<le> level (fst s') (snd k) c"
  shows "synthesize_keeps k (visited[c := True]) s'"
proof -
  note k = keeps [unfolded synthesize_keeps_def]
  have n: "length (subtemplates (fst (fst s))) = length (subtemplates (fst (fst k)))" using k raisedD(4) by blast
  have "raised (fst k) (fst s') (\<lambda>x y. \<exists>d < synthesize_nodes k. {x, y} = {snd k, d} \<and> visited[c := True] ! d)"
  proof (rule raised_trans [OF _ step])
    show "raised (fst k) (fst s) (\<lambda>x y. \<exists>d < synthesize_nodes k. {x, y} = {snd k, d} \<and> visited ! d)" using k by blast
    show "\<exists>d < synthesize_nodes k. {x, y} = {snd k, d} \<and> visited[c := True] ! d"
      if "\<exists>d < synthesize_nodes k. {x, y} = {snd k, d} \<and> visited ! d" for x y
      using that k by (metis length_list_update nth_list_update_eq nth_list_update_neq)
    show "\<exists>d < synthesize_nodes k. {x, y} = {snd k, d} \<and> visited[c := True] ! d" if "{x, y} = {snd k, c}" for x y
      using that c(1) k by (intro exI [of _ c]) simp
  qed
  moreover have "1 \<le> level (fst s') (snd k) d" if d: "d < synthesize_nodes k" "visited[c := True] ! d" "d \<noteq> snd k" for d
  proof (cases "d = c")
    case False
    then have "1 \<le> level (fst s) (snd k) d" using k d by auto
    also have "\<dots> \<le> level (fst s') (snd k) d" using raised_level_mono [OF step] n d(1) k by auto
    finally show ?thesis .
  qed (use new in simp)
  ultimately show ?thesis using k c(2) unfolding synthesize_keeps_def by (auto simp: nth_list_update)
qed

lemma synthesize_follow_keeps:
  assumes keeps: "synthesize_keeps k visited s" and source: "source < synthesize_nodes k" "visited ! source"
    and c: "c < synthesize_nodes k" "\<not> visited ! c" and edge: "synthesize_graph k source c"
  shows "\<exists>s'. synthesize_follow (snd k) s source c = Some s' \<and> synthesize_keeps k (visited[c := True]) s'"
proof -
  let ?root = "snd k"
  obtain st strengths rs t where s: "s = (st, strengths, rs, t)" by (cases s)
  let ?n = "length (subtemplates (fst st))"
  note k = keeps [unfolded synthesize_keeps_def s fst_conv]
  have same: "raised (fst k) st (\<lambda>x y. \<exists>d < synthesize_nodes k. {x, y} = {?root, d} \<and> visited ! d)" using k by blast
  have n: "length (subtemplates (fst (fst k))) = ?n" using raisedD(4) [OF same] by simp
  have ok: "capacity_ok st" by (rule raisedD(1) [OF same])
  have root: "?root < ?n" "?root \<noteq> c" using k n c(2) by auto
  have strong: "1 \<le> level st source c"
    using synthesize_level_unvisited [OF keeps c source] edge by (simp add: s synthesize_graph_def)
  have probe: "\<not> (snd st = None \<and> max ?root c = ?n)"
  proof
    assume none: "snd st = None \<and> max ?root c = ?n"
    then have "c = ?n" using root(1) by (auto simp: max_def split: if_splits)
    then have "level st source c = -1 \<or> level st source c = 0" using none
      by (cases st) (auto simp: level_def capacity_relation_load_def Let_def split: if_splits)
    then show False using strong by linarith
  qed
  define edge_strength where "edge_strength = fst (capacity_relation_load st source c)"
  define s1 where "s1 = strengths((source, c) := edge_strength, (c, source) := edge_strength)"
  let ?skip = "?root = source \<or> level st ?root c > 2 \<or> level st ?root c = 2 \<and> s1 (?root, c) \<ge> min rs edge_strength"
  have step: "synthesize_follow ?root s source c =
     (if ?skip then Some (st, s1, rs, t)
      else map_option (\<lambda>p. ((if c < ?n then join_groups (fst p) ?root c else fst p, snd p),
             s1((?root, c) := min rs edge_strength), rs, t))
        (capacity_relation_store st ?root c (compose_group_transform t (snd (capacity_relation_load st source c))) 2))"
    unfolding synthesize_follow_def s Let_def split_def s1_def edge_strength_def level_def fst_conv snd_conv by (rule refl)
  show ?thesis
  proof (cases ?skip)
    case True
    have "1 \<le> level st ?root c" using True strong by auto
    moreover have "raised st st (\<lambda>x y. {x, y} = {?root, c})" by (rule raised_refl [OF ok])
    ultimately have "synthesize_keeps k (visited[c := True]) (st, s1, rs, t)"
      using synthesize_keeps_mark [OF keeps c(1) not_sym [OF root(2)], of "(st, s1, rs, t)"] by (simp add: s)
    moreover have "synthesize_follow ?root s source c = Some (st, s1, rs, t)"
      unfolding step by (rule if_P [OF True])
    ultimately show ?thesis by blast
  next
    case False
    let ?t = "compose_group_transform t (snd (capacity_relation_load st source c))"
    have low: "level st ?root c \<le> 2" using False by linarith
    obtain self' rels' where store: "capacity_relation_store st ?root c ?t 2 = Some (self', rels')"
      "capacity_ok (self', rels')" "same_gallery (fst st) self'" "subtemplates self' = subtemplates (fst st)"
      "(rels' = None) = (snd st = None)"
      "\<And>x y. x \<noteq> y \<Longrightarrow> x \<le> ?n \<Longrightarrow> y \<le> ?n \<Longrightarrow>
        level (self', rels') x y = (if {x, y} = {?root, c} \<and> \<not> (snd st = None \<and> max ?root c = ?n) then 2 else level st x y)"
      using store_effect [OF ok root(2) less_imp_le [OF root(1)], of ?t 2] c(1) n by auto
    have "raised st (self', rels') (\<lambda>x y. {x, y} = {?root, c})"
      unfolding raised_def fst_conv snd_conv
    proof (intro conjI allI impI store(2,3,5))
      fix x y assume xy: "x \<noteq> y" "x \<le> ?n" "y \<le> ?n"
      have "level st x y \<le> 2" if "{x, y} = {?root, c}"
        using that low level_sym [of st c ?root] ok root(1) c(1) n
        by (auto simp: doubleton_eq_iff capacity_ok_def)
      then show "level (self', rels') x y = level st x y \<or>
          {x, y} = {?root, c} \<and> level st x y \<le> 2 \<and> level (self', rels') x y = 2"
        using store(6) [OF xy] by auto
    qed
    note stored = this
    let ?self2 = "if c < ?n then join_groups self' ?root c else self'"
    have "raised (self', rels') (?self2, rels') (\<lambda>x y. {x, y} = {?root, c})"
      using join_groups_raised [OF store(2)] raised_refl [OF store(2)] store(4) root(1) by simp
    note joined = raised_trans [OF stored this]
    have both: "raised st (?self2, rels') (\<lambda>x y. {x, y} = {?root, c})" by (rule joined)
    have "level (self', rels') ?root c = 2" using store(6) [OF root(2)] root(1) c(1) n probe by simp
    moreover have "level (self', rels') ?root c \<le> level (?self2, rels') ?root c"
      using raised_level_mono [OF \<open>raised (self', rels') (?self2, rels') _\<close>, of ?root c] store(4) root(1) c(1) n by simp
    ultimately have new: "1 \<le> level (?self2, rels') ?root c" by simp
    have "synthesize_keeps k (visited[c := True]) ((?self2, rels'), s1((?root, c) := min rs edge_strength), rs, t)"
      using synthesize_keeps_mark [OF keeps c(1) not_sym [OF root(2)], of
          "((?self2, rels'), s1((?root, c) := min rs edge_strength), rs, t)"] both new by (simp add: s)
    moreover have "synthesize_follow ?root s source c =
        Some ((?self2, rels'), s1((?root, c) := min rs edge_strength), rs, t)"
      unfolding step if_not_P [OF False] store(1) by simp
    ultimately show ?thesis by blast
  qed
qed

lemma synthesize_pop_state: "fst (synthesize_pop root s source) = fst s"
  by (simp add: synthesize_pop_def split_def Let_def)

interpretation synthesis: stable_search
  "\<lambda>k. synthesize_pop (snd k)" "\<lambda>_. synthesize_edge" "\<lambda>k. synthesize_follow (snd k)" synthesize_graph
  "\<lambda>k. Suc (length (subtemplates (fst (fst k))))" snd synthesize_keeps "\<lambda>k _. synthesize_keeps k"
proof
  show "synthesize_keeps k visited (synthesize_pop (snd k) s source)" if "synthesize_keeps k visited s" for k visited s source
    using that by (simp add: synthesize_keeps_def synthesize_pop_state)
  show "synthesize_edge s source c = synthesize_graph k source c"
    if "synthesize_keeps k visited s" "source = snd k \<or> source < synthesize_nodes k \<and> visited ! source"
      "c < synthesize_nodes k" "\<not> visited ! c" for k visited s source c
    using synthesize_level_unvisited [OF that(1,3,4), of source] that(1,2)
    by (auto simp: synthesize_edge_def synthesize_graph_def synthesize_keeps_def simp flip: level_def)
  show "\<exists>s'. synthesize_follow (snd k) s source c = Some s' \<and> synthesize_keeps k (visited[c := True]) s'"
    if "synthesize_keeps k visited s" "source = snd k \<or> source < synthesize_nodes k \<and> visited ! source"
      "length visited = synthesize_nodes k" "c < synthesize_nodes k" "\<not> visited ! c" "synthesize_graph k source c" for k visited s source c
    using synthesize_follow_keeps [OF that(1) _ _ that(4-6)] that(1,2) by (auto simp: synthesize_keeps_def)
qed

lemma synthesis_arcs: "root < length (subtemplates (fst st)) \<Longrightarrow> synthesis.arcs (st, root) = related st"
  by (auto simp: synthesis.arcs_def related_def synthesize_graph_def less_Suc_eq_le)

text \<open>One root: everything related to it, directly or not, is related directly afterwards, and nothing
  becomes related that was not already connected.\<close>

lemma synthesize_root:
  assumes ok: "capacity_ok st" and root: "root < length (subtemplates (fst st))"
  shows "\<exists>visited st' strengths' rest.
    node_search (synthesize_pop root) synthesize_edge (synthesize_follow root)
      ((replicate (length (subtemplates (fst st)) + 1) False)[root := True], [root], st, strengths, 0, identity_group_transform) =
      Some (visited, st', strengths', rest) \<and>
    raised st st' (\<lambda>x y. (x, y) \<in> (related st)\<^sup>*) \<and>
    (\<forall>c. (root, c) \<in> (related st)\<^sup>* \<longrightarrow> c \<noteq> root \<longrightarrow> 1 \<le> level st' root c)"
proof -
  let ?n = "length (subtemplates (fst st))" and ?s = "(st, strengths, 0 :: int, identity_group_transform)"
  let ?v = "(replicate (?n + 1) False)[root := True]"
  have marked: "?v ! i = (i = root)" if "i < Suc ?n" for i
    using that by (cases "i = root") (simp_all del: replicate.simps)
  have "synthesize_keeps (st, root) ?v ?s"
    using ok root raised_refl [OF ok] marked by (auto simp: synthesize_keeps_def simp del: replicate.simps)
  then obtain visited s where r:
    "node_search (synthesize_pop root) synthesize_edge (synthesize_follow root) (?v, [root], ?s) = Some (visited, s)"
    "synthesize_keeps (st, root) visited s"
    "\<And>i. i < Suc ?n \<Longrightarrow> i \<noteq> root \<Longrightarrow> visited ! i = ((root, i) \<in> (related st)\<^sup>*)"
    using synthesis.search_reaches [of "(st, root)" ?v ?s, unfolded fst_conv snd_conv synthesis_arcs [OF root]] marked
    by (metis length_list_update length_replicate Suc_eq_plus1)
  obtain st' strengths' rest where s: "s = (st', strengths', rest)" by (cases s)
  note k = r(2) [unfolded synthesize_keeps_def s fst_conv snd_conv]
  have wf: "enrollment_wf (fst st)" using ok by (simp add: capacity_ok_def)
  have change: "(x, y) \<in> (related st)\<^sup>*" if c: "c < Suc ?n" "{x, y} = {root, c}" "visited ! c" for x y c
  proof -
    have "(root, c) \<in> (related st)\<^sup>*" using r(3) [OF c(1)] c(3) by (cases "c = root") simp_all
    then show ?thesis using related_star_sym [OF wf] c(2) by (auto simp: doubleton_eq_iff)
  qed
  have "raised st st' (\<lambda>x y. \<exists>c < Suc ?n. {x, y} = {root, c} \<and> visited ! c)"
    by (rule k [THEN conjunct2, THEN conjunct2, THEN conjunct2, THEN conjunct2, THEN conjunct1])
  then have "raised st st' (\<lambda>x y. (x, y) \<in> (related st)\<^sup>*)"
    by (rule raised_weaken) (elim exE conjE, rule change)
  moreover have "1 \<le> level st' root c" if c: "(root, c) \<in> (related st)\<^sup>*" "c \<noteq> root" for c
  proof -
    have "c < Suc ?n" using related_star_below(2) [OF c(1)] c(2) by simp
    then show ?thesis
      using r(3) [of c] c k [THEN conjunct2, THEN conjunct2, THEN conjunct2, THEN conjunct2, THEN conjunct2] by simp
  qed
  ultimately show ?thesis using r(1) s by blast
qed

lemma related_star_raised:
  assumes "raised st st' (\<lambda>x y. (x, y) \<in> (related st)\<^sup>*)"
  shows "(related st')\<^sup>* = (related st)\<^sup>*"
proof (rule rtrancl_subset)
  show "related st \<subseteq> related st'" by (rule raised_related [OF assms])
  show "related st' \<subseteq> (related st)\<^sup>*"
  proof (rule subrelI)
    fix x y assume xy: "(x, y) \<in> related st'"
    show "(x, y) \<in> (related st)\<^sup>*"
    proof (cases "x = y")
      case False
      have le: "x \<le> length (subtemplates (fst st))" "y \<le> length (subtemplates (fst st))"
        using xy raisedD(4) [OF assms] by (simp_all add: related_def)
      have "level st' x y = level st x y \<or> (x, y) \<in> (related st)\<^sup>*" using raisedD(5) [OF assms False le] by blast
      then show ?thesis using xy le by (auto simp: related_def)
    qed simp
  qed
qed

lemma synthesize_roots_effect:
  assumes "capacity_ok st" and "set roots \<subseteq> {0..<length (subtemplates (fst st))}"
  shows "\<exists>st'. synthesize_roots roots st strengths = Some st' \<and> raised st st' (\<lambda>x y. (x, y) \<in> (related st)\<^sup>*) \<and>
    (\<forall>root \<in> set roots. \<forall>c. (root, c) \<in> (related st)\<^sup>* \<longrightarrow> c \<noteq> root \<longrightarrow> 1 \<le> level st' root c)"
  using assms
proof (induction roots arbitrary: st strengths)
  case Nil
  then show ?case using raised_refl by auto
next
  case (Cons root roots)
  have root: "root < length (subtemplates (fst st))" using Cons.prems(2) by simp
  obtain visited st1 strengths1 rest where one:
    "node_search (synthesize_pop root) synthesize_edge (synthesize_follow root)
      ((replicate (length (subtemplates (fst st)) + 1) False)[root := True], [root], st, strengths, 0, identity_group_transform) =
      Some (visited, st1, strengths1, rest)"
    "raised st st1 (\<lambda>x y. (x, y) \<in> (related st)\<^sup>*)"
    "\<And>c. (root, c) \<in> (related st)\<^sup>* \<Longrightarrow> c \<noteq> root \<Longrightarrow> 1 \<le> level st1 root c"
    using synthesize_root [OF Cons.prems(1) root, of strengths] by blast
  have n: "length (subtemplates (fst st1)) = length (subtemplates (fst st))" by (rule raisedD(4) [OF one(2)])
  have star: "(related st1)\<^sup>* = (related st)\<^sup>*" by (rule related_star_raised [OF one(2)])
  obtain st' where more: "synthesize_roots roots st1 strengths1 = Some st'"
    "raised st1 st' (\<lambda>x y. (x, y) \<in> (related st1)\<^sup>*)"
    "\<And>r c. r \<in> set roots \<Longrightarrow> (r, c) \<in> (related st)\<^sup>* \<Longrightarrow> c \<noteq> r \<Longrightarrow> 1 \<le> level st' r c"
    using Cons.IH [OF raisedD(1) [OF one(2)], of strengths1] Cons.prems(2) n unfolding star by auto
  have "raised st st' (\<lambda>x y. (x, y) \<in> (related st)\<^sup>*)"
    by (rule raised_trans [OF one(2) more(2)]) (simp_all add: star)
  moreover have "1 \<le> level st' root c" if c: "(root, c) \<in> (related st)\<^sup>*" "c \<noteq> root" for c
  proof -
    have "c \<le> length (subtemplates (fst st))" using related_star_below(2) [OF c(1)] c(2) by simp
    then have "level st1 root c \<le> level st' root c" using raised_level_mono [OF more(2)] root n by simp
    then show ?thesis using one(3) [OF c] by linarith
  qed
  moreover have "synthesize_roots (root # roots) st strengths = Some st'"
    using one(1) more(1) by (simp del: node_search.simps replicate.simps)
  ultimately show ?case using more(3) by auto
qed

lemma synthesize_closure:
  assumes ok: "capacity_ok st" and full: "length (subtemplates (fst st)) = capacity (fst st)"
  shows "\<exists>st'. goodix_chicago_enrollment_synthesize_capacity_relations st (capacity (fst st)) = Some (True, st') \<and>
    raised st st' (\<lambda>x y. (x, y) \<in> (related st)\<^sup>*) \<and> related st' = (related st)\<^sup>* - Id"
proof -
  let ?n = "length (subtemplates (fst st))"
  have wf: "enrollment_wf (fst st)" using ok by (simp add: capacity_ok_def)
  obtain st' where r: "synthesize_roots [0..<?n] st (\<lambda>_. 0) = Some st'"
    "raised st st' (\<lambda>x y. (x, y) \<in> (related st)\<^sup>*)"
    "\<And>root c. root < ?n \<Longrightarrow> (root, c) \<in> (related st)\<^sup>* \<Longrightarrow> c \<noteq> root \<Longrightarrow> 1 \<le> level st' root c"
    using synthesize_roots_effect [OF ok, of "[0..<?n]" "\<lambda>_. 0"] by auto
  have n: "length (subtemplates (fst st')) = ?n" by (rule raisedD(4) [OF r(2)])
  have wf': "enrollment_wf (fst st')" using raisedD(1) [OF r(2)] by (simp add: capacity_ok_def)
  have "related st' = (related st)\<^sup>* - Id"
  proof (rule set_eqI, clarify, rule iffI)
    fix x y assume "(x, y) \<in> related st'"
    then have "(x, y) \<in> (related st')\<^sup>*" "x \<noteq> y" by (auto simp: related_def)
    then show "(x, y) \<in> (related st)\<^sup>* - Id" unfolding related_star_raised [OF r(2)] by simp
  next
    fix x y assume xy: "(x, y) \<in> (related st)\<^sup>* - Id"
    then have yx: "(y, x) \<in> (related st)\<^sup>*" using related_star_sym [OF wf] by simp
    have le: "y \<le> ?n" "x \<le> ?n" using related_star_below [OF yx] xy by auto
    consider "x < ?n" | "y < ?n" using le xy by force
    then have "1 \<le> level st' x y"
      by cases (use r(3) [of x y] r(3) [of y x] xy yx level_sym [OF wf'] le n in auto)
    then show "(x, y) \<in> related st'" using le n by (simp add: related_def)
  qed
  then show ?thesis
    using r(1,2) full enrollment_wfD(2) [OF wf]
    by (simp add: goodix_chicago_enrollment_synthesize_capacity_relations_def Let_def)
qed

section \<open>The choice of the sample to replace\<close>

definition replaceable :: "enrollment \<Rightarrow> subtemplate_view \<Rightarrow> nat \<Rightarrow> bool" where
  "replaceable self probe index \<longleftrightarrow>
     \<not> record_count (subtemplates self ! index) * 50 > v_record_count probe * 100"

lemma best_replacement_first_max:
  "case best_replacement self probe probe_score scores of
     None \<Rightarrow> \<forall>j < length (subtemplates self). replaceable self probe j \<longrightarrow> scores ! j \<le> probe_score
   | Some i \<Rightarrow> i < length (subtemplates self) \<and> replaceable self probe i \<and> probe_score < scores ! i \<and>
       (\<forall>j < length (subtemplates self). replaceable self probe j \<longrightarrow>
          scores ! j < scores ! i \<or> i \<le> j \<and> scores ! j = scores ! i)"
proof -
  let ?step = "\<lambda>(best_score, best) index.
      if record_count (subtemplates self ! index) * 50 > v_record_count probe * 100 \<or> scores ! index \<le> best_score
      then (best_score, best) else (scores ! index, Some index)"
  have "case foldl ?step (probe_score, None) [0..<n] of (best_score, best) \<Rightarrow>
      (case best of
         None \<Rightarrow> best_score = probe_score \<and> (\<forall>j < n. replaceable self probe j \<longrightarrow> scores ! j \<le> probe_score)
       | Some i \<Rightarrow> i < n \<and> replaceable self probe i \<and> probe_score < scores ! i \<and> best_score = scores ! i \<and>
           (\<forall>j < n. replaceable self probe j \<longrightarrow> scores ! j < scores ! i \<or> i \<le> j \<and> scores ! j = scores ! i))" for n
  proof (induction n)
    case (Suc n)
    obtain best_score best where st: "foldl ?step (probe_score, None) [0..<n] = (best_score, best)"
      by (cases "foldl ?step (probe_score, None) [0..<n]")
    have step: "foldl ?step (probe_score, None) [0..<Suc n] = ?step (best_score, best) n" using st by simp
    show ?case
      unfolding step using Suc st
      by (cases best; cases "replaceable self probe n \<and> best_score < scores ! n")
        (auto simp: replaceable_def less_Suc_eq not_le not_less)
  qed simp
  note best = this [of "length (subtemplates self)"]
  obtain best_score best' where st: "foldl ?step (probe_score, None) [0..<length (subtemplates self)] = (best_score, best')"
    by (cases "foldl ?step (probe_score, None) [0..<length (subtemplates self)]")
  show ?thesis using best unfolding best_replacement_def st by (cases best') simp_all
qed

lemma refine_relations_effect:
  "set ks \<subseteq> {0..<length (subtemplates self)} \<Longrightarrow>
   \<exists>rels'. refine_relations self (Some b) visited ks rels = (True, rels') \<and> length rels' = length rels"
proof (induction ks arbitrary: rels)
  case (Cons k ks)
  then have "\<exists>view. goodix_chicago_enrollment_get_subtemplate self k = Some view"
    by (auto simp: goodix_chicago_enrollment_get_subtemplate_def Let_def)
  then show ?case using Cons.IH [of rels] Cons.prems Cons.IH [of "rels[k := _]"] by auto
qed simp

lemma score_range: "0 \<le> capacity_redundancy_score m ps \<and> capacity_redundancy_score m ps \<le> 100"
  using capacity_redundancy_score_bounds by blast

lemma capacity_scores_range:
  assumes "goodix_chicago_enrollment_calculate_capacity_scores self probe rels n = Some (probe_score, scores, qualities)"
  shows "length scores = length (subtemplates self)" "\<And>s. s \<in> set (probe_score # scores) \<Longrightarrow> 0 \<le> s \<and> s \<le> 100"
    "qualities = map quality (subtemplates self)"
  using assms
  by (auto simp: goodix_chicago_enrollment_calculate_capacity_scores_def Let_def score_range split: if_splits option.splits)

text \<open>The whole choice on a full well-formed enrollment.\<close>

lemma select_capacity_outcome:
  assumes wf: "enrollment_wf self" and full: "length (subtemplates self) = capacity self"
    and sel: "selected < capacity self" and len: "length rels = capacity self" and metric: "v_metric probe \<noteq> None"
  shows "\<exists>self' rels' probe_score scores.
    goodix_chicago_enrollment_select_capacity_replacement self probe selected rels (capacity self) (Some build) =
      Some (True, (case best_replacement self' probe probe_score scores of
                     Some index \<Rightarrow> Some index
                   | None \<Rightarrow> if selected_is_replaceable (subtemplates self' ! selected) probe probe_score (scores ! selected)
                             then Some selected else None), (self', Some rels')) \<and>
    same_gallery self self' \<and> length rels' = capacity self \<and>
    goodix_chicago_enrollment_calculate_capacity_scores self' probe rels' (capacity self) =
      Some (probe_score, scores, map quality (subtemplates self'))"
proof -
  let ?n = "capacity self"
  have ok0: "capacity_ok (self, None)" using wf by (simp add: capacity_ok_def)
  obtain self1 where s1: "goodix_chicago_enrollment_synthesize_capacity_relations (self, None) ?n = Some (True, (self1, None))"
    "same_gallery self self1"
    using synthesize_closure [OF ok0] full raisedD(2,3) by fastforce
  note same1 = same_galleryD [OF s1(2)]
  have wf1: "enrollment_wf self1" by (rule same_gallery_wf [OF s1(2) wf])
  have full1: "length (subtemplates self1) = capacity self1" "length rels = length (subtemplates self1)"
    using full len same1 by simp_all
  obtain visited rels2 where s2: "propagate_capacity_relations self1 rels (length rels) = Some (Some visited, (self1, Some rels2))"
    "length rels2 = length rels"
    using propagate_reaches [OF wf1 full1] by blast
  obtain rels3 where s3: "refine_unresolved_capacity_relations self1 probe rels2 visited (Some build) = (True, rels3)"
    "length rels3 = length rels2"
    using refine_relations_effect [of "[0..<length (subtemplates self1)]" self1 _ visited rels2]
    by (auto simp: refine_unresolved_capacity_relations_def)
  have ok3: "capacity_ok (self1, Some rels3)" using wf1 s2(2) s3(2) full1 by (simp add: capacity_ok_def)
  obtain st4 where st4: "goodix_chicago_enrollment_synthesize_capacity_relations (self1, Some rels3) (capacity self1) = Some (True, st4)"
    "raised (self1, Some rels3) st4 (\<lambda>x y. (x, y) \<in> (related (self1, Some rels3))\<^sup>*)"
    using synthesize_closure [OF ok3] full1 by auto
  note r4 = raisedD [OF st4(2)]
  obtain self4 rels4 where s4: "st4 = (self4, Some rels4)" using r4(3) by (cases st4; cases "snd st4") auto
  have same4: "same_gallery self self4" using same_gallery_trans [OF s1(2)] r4(2) by (simp add: s4)
  have len4: "length (subtemplates self4) = ?n" "capacity self4 = ?n" "length rels4 = ?n"
    using r4(1) same_galleryD(1,3) [OF same4] full by (simp_all add: s4 capacity_ok_def)
  obtain m where m: "v_metric probe = Some m" using metric by blast
  obtain probe_score scores qualities where s5:
    "goodix_chicago_enrollment_calculate_capacity_scores self4 probe rels4 ?n = Some (probe_score, scores, qualities)"
    using len4 m by (cases "goodix_chicago_enrollment_calculate_capacity_scores self4 probe rels4 ?n")
      (auto simp: goodix_chicago_enrollment_calculate_capacity_scores_def Let_def)
  have cap1: "capacity self1 = ?n" by (rule same1(3))
  have "goodix_chicago_enrollment_select_capacity_replacement self probe selected rels ?n (Some build) =
      Some (True, (case best_replacement self4 probe probe_score scores of
                     Some index \<Rightarrow> Some index
                   | None \<Rightarrow> if selected_is_replaceable (subtemplates self4 ! selected) probe probe_score (scores ! selected)
                             then Some selected else None), (self4, Some rels4))"
    using sel full s1(1) s2(1) s3(1) st4(1) s5
    unfolding goodix_chicago_enrollment_select_capacity_replacement_def select_capacity_replacement_def Let_def len cap1 s4
    by (simp add: Let_def)
  then show ?thesis using same4 len4(3) s5 capacity_scores_range(3) [OF s5] by blast
qed

section \<open>Properties\<close>

text \<open>C32: The relations of a probe are propagated through a full gallery to exactly the samples it
  reaches by relations of 1 to 42 inliers; the others keep what they had, and a relation is only
  replaced, by one of strength 2, where it had fewer than 2 inliers.\<close>

theorem capacity_propagation_reaches:
  assumes wf: "enrollment_wf self" and full: "length (subtemplates self) = capacity self"
    and len: "length rels = capacity self" and i32: "list_all (\<lambda>r. in_i32 (inlier_count r)) (relations self @ rels)"
  shows "\<exists>visited rels'.
    propagate_capacity_relations self rels (capacity self) = Some (Some visited, (self, Some rels')) \<and>
    (\<forall>i < capacity self.
       visited ! i = ((capacity self, i) \<in> {(a, b). a \<le> capacity self \<and> b < capacity self \<and>
          1 \<le> level (self, Some rels) a b \<and> level (self, Some rels) a b \<le> 42}\<^sup>*) \<and>
       (if \<not> visited ! i then rels' ! i = rels ! i
        else rels' ! i = rels ! i \<and> 1 \<le> inlier_count (rels ! i) \<or> inlier_count (rels ! i) < 2 \<and> inlier_count (rels' ! i) = 2))"
proof -
  let ?n = "capacity self" and ?st = "(self, Some rels)"
  have n: "length rels = length (subtemplates self)" using len full by simp
  have level_i32: "in_i32 (level ?st a b)" if "a \<le> ?n" "b \<le> ?n" for a b
  proof (cases "a = b")
    case False
    have ow: "min a b < max a b" "max a b \<le> ?n" using that False by (auto simp: min_def max_def)
    have "triangle (max a b) + min a b < length (relations self)" if "max a b \<noteq> ?n"
      unfolding enrollment_wfD(4) [OF wf] full
      by (rule relation_slot_in_range [OF le_neq_implies_less [OF ow(2) that] ow(1)])
    then have "in_i32 (stored_level ?st (min a b) (max a b))"
      using i32 ow len full by (auto simp: stored_level_def list_all_iff)
    then show ?thesis using level_stored [of ?st a b] wf False that full by simp
  qed (simp add: in_i32_def)
  have arcs: "propagation.arcs (self, rels) = {(a, b). a \<le> ?n \<and> b < ?n \<and> 1 \<le> level ?st a b \<and> level ?st a b \<le> 42}"
  proof -
    have "traversable (level ?st a b) \<longleftrightarrow> 1 \<le> level ?st a b \<and> level ?st a b \<le> 42" if "a \<le> ?n" "b \<le> ?n" for a b
      by (rule traversable_iff [OF level_i32 [OF that]])
    then show ?thesis by (auto simp: propagation.arcs_def propagate_graph_def len)
  qed
  obtain visited rels' where r:
    "propagate_capacity_relations self rels (length rels) = Some (Some visited, (self, Some rels'))"
    "\<And>i. i < ?n \<Longrightarrow> visited ! i = ((?n, i) \<in> (propagation.arcs (self, rels))\<^sup>*)"
    "\<And>i. i < ?n \<Longrightarrow> if visited ! i then propagated_from (rels ! i) (rels' ! i) else rels' ! i = rels ! i"
    using propagate_reaches [OF wf full n] unfolding len by blast
  have "if \<not> visited ! i then rels' ! i = rels ! i
      else rels' ! i = rels ! i \<and> 1 \<le> inlier_count (rels ! i) \<or> inlier_count (rels ! i) < 2 \<and> inlier_count (rels' ! i) = 2"
    if i: "i < ?n" for i
  proof -
    have "in_i32 (inlier_count (rels ! i))" using i32 i len by (simp add: list_all_iff)
    then show ?thesis using r(3) [OF i] by (auto simp: propagated_from_def traversable_iff)
  qed
  then show ?thesis using r(1,2) unfolding len arcs by blast
qed

definition lone_sample :: enrollment where
  "lone_sample = one_sample\<lparr> capacity := 1 \<rparr>"

lemma lone_sample_fields:
  "enrollment_wf lone_sample" "length (subtemplates lone_sample) = 1" "capacity lone_sample = 1"
  "relations lone_sample = [weak_relation]"
proof -
  have "relations one_sample = [weak_relation]"
    by (simp add: one_sample_def goodix_chicago_enrollment_insert_first_def goodix_chicago_enrollment_new_def Let_def)
  then show "relations lone_sample = [weak_relation]" by (simp add: lone_sample_def)
  show "enrollment_wf lone_sample"
    using one_sample_wf(1) one_sample_fields(1,2)
    by (simp add: lone_sample_def enrollment_wf_def subtemplate_ok_def Let_def)
qed (simp_all add: lone_sample_def one_sample_fields)

definition strong_relation :: relation where
  "strong_relation = \<lparr> inlier_count = 5, rel_transform = identity_group_transform \<rparr>"

theorem capacity_propagation_reaches_witness:
  "\<exists>visited rels'. propagate_capacity_relations lone_sample [strong_relation] 1 =
      Some (Some visited, (lone_sample, Some rels')) \<and> visited ! 0 \<and> rels' ! 0 = strong_relation"
proof -
  have l: "level (lone_sample, Some [strong_relation]) 1 0 = 5"
    by (simp add: level_def capacity_relation_load_def Let_def lone_sample_fields strong_relation_def)
  have "length [strong_relation] = capacity lone_sample" "length (subtemplates lone_sample) = capacity lone_sample"
    "list_all (\<lambda>r. in_i32 (inlier_count r)) (relations lone_sample @ [strong_relation])"
    by (simp_all add: lone_sample_fields weak_relation_def strong_relation_def in_i32_def)
  from capacity_propagation_reaches [OF lone_sample_fields(1) this(2,1,3)]
  obtain visited rels' where r: "propagate_capacity_relations lone_sample [strong_relation] 1 =
      Some (Some visited, (lone_sample, Some rels'))"
    "visited ! 0 = ((1, 0) \<in> {(a, b). a \<le> 1 \<and> b < 1 \<and> 1 \<le> level (lone_sample, Some [strong_relation]) a b \<and>
       level (lone_sample, Some [strong_relation]) a b \<le> 42}\<^sup>*)"
    "if \<not> visited ! 0 then rels' ! 0 = strong_relation
     else rels' ! 0 = strong_relation \<and> 1 \<le> inlier_count strong_relation \<or>
       inlier_count strong_relation < 2 \<and> inlier_count (rels' ! 0) = 2"
    by (auto simp: lone_sample_fields(3))
  then have "visited ! 0" using l by (simp add: r_into_rtrancl)
  then show ?thesis using r(1,3) by (auto simp: strong_relation_def)
qed

text \<open>C31: The synthesis of relations ends for every well-formed full gallery, with or without a probe: two
  different nodes are related afterwards exactly when a path of relations connected them before, no
  strength goes down, none above 2 changes and the gallery stays well formed.\<close>

theorem capacity_synthesis_is_closure:
  assumes "enrollment_wf self" and "length (subtemplates self) = capacity self"
    and "case probes of None \<Rightarrow> True | Some rels \<Rightarrow> length rels = capacity self"
  shows "\<exists>self' probes'.
    goodix_chicago_enrollment_synthesize_capacity_relations (self, probes) (capacity self) = Some (True, (self', probes')) \<and>
    enrollment_wf self' \<and>
    {(a, b). a \<le> capacity self \<and> b \<le> capacity self \<and> 1 \<le> level (self', probes') a b} =
      {(a, b). a \<le> capacity self \<and> b \<le> capacity self \<and> 1 \<le> level (self, probes) a b}\<^sup>* - Id \<and>
    (\<forall>a b. a \<le> capacity self \<longrightarrow> b \<le> capacity self \<longrightarrow>
       level (self', probes') a b = level (self, probes) a b \<or>
       level (self, probes) a b \<le> 2 \<and> level (self', probes') a b = 2)"
proof -
  let ?st = "(self, probes)"
  have "capacity_ok ?st" using assms by (auto simp: capacity_ok_def)
  then obtain st' where r:
    "goodix_chicago_enrollment_synthesize_capacity_relations ?st (capacity self) = Some (True, st')"
    "raised ?st st' (\<lambda>x y. (x, y) \<in> (related ?st)\<^sup>*)" "related st' = (related ?st)\<^sup>* - Id"
    using synthesize_closure [of ?st] assms(2) by auto
  obtain self' probes' where st': "st' = (self', probes')" by (cases st')
  have n: "length (subtemplates self') = capacity self" using raisedD(4) [OF r(2)] assms(2) by (simp add: st')
  have "level (self', probes') a b = level ?st a b \<or> level ?st a b \<le> 2 \<and> level (self', probes') a b = 2"
    if "a \<le> capacity self" "b \<le> capacity self" for a b
    using raisedD(5) [OF r(2), of a b] that assms(2) by (cases "a = b") (auto simp: st')
  moreover have "enrollment_wf self'" using raisedD(1) [OF r(2)] by (simp add: st' capacity_ok_def)
  ultimately show ?thesis
    using r(1,3) n assms(2) by (intro exI [of _ self'] exI [of _ probes']) (simp add: st' related_def)
qed

theorem capacity_synthesis_is_closure_witness:
  "\<exists>self' probes'. goodix_chicago_enrollment_synthesize_capacity_relations (lone_sample, Some [strong_relation]) 1 =
      Some (True, (self', probes')) \<and> enrollment_wf self'"
  using capacity_synthesis_is_closure [OF lone_sample_fields(1), of "Some [strong_relation]"]
  unfolding lone_sample_fields(2,3) by fastforce

text \<open>C30: For a full gallery the choice of a sample to replace always comes to an end and never stores
  through a null relation: the gallery keeps its shape, all scores are percentages, and the chosen
  sample is the first of largest score above the probe's among those with at most twice the probe's
  records, or else the selected sample under its own condition.\<close>

theorem capacity_choice_sound:
  assumes "enrollment_wf self" and "length (subtemplates self) = capacity self" and "selected < capacity self"
    and "length rels = capacity self" and "v_metric probe \<noteq> None"
  shows "\<exists>choice self' rels' probe_score scores.
    goodix_chicago_enrollment_select_capacity_replacement self probe selected rels (capacity self) (Some build) =
      Some (True, choice, (self', Some rels')) \<and>
    enrollment_wf self' \<and> length (subtemplates self') = capacity self \<and> length rels' = capacity self \<and>
    goodix_chicago_enrollment_calculate_capacity_scores self' probe rels' (capacity self) =
      Some (probe_score, scores, map quality (subtemplates self')) \<and>
    set (probe_score # scores) \<subseteq> {0..100} \<and>
    (let eligible = {j. j < capacity self \<and> replaceable self' probe j \<and> probe_score < scores ! j}
     in if eligible = {}
        then choice = (if selected_is_replaceable (subtemplates self' ! selected) probe probe_score (scores ! selected)
                       then Some selected else None)
        else choice = Some (Min {j. j \<in> eligible \<and> scores ! j = Max ((!) scores ` eligible)}))"
proof -
  obtain self' rels' probe_score scores where r:
    "goodix_chicago_enrollment_select_capacity_replacement self probe selected rels (capacity self) (Some build) =
      Some (True, (case best_replacement self' probe probe_score scores of
                     Some index \<Rightarrow> Some index
                   | None \<Rightarrow> if selected_is_replaceable (subtemplates self' ! selected) probe probe_score (scores ! selected)
                             then Some selected else None), (self', Some rels'))"
    "same_gallery self self'" "length rels' = capacity self"
    "goodix_chicago_enrollment_calculate_capacity_scores self' probe rels' (capacity self) =
      Some (probe_score, scores, map quality (subtemplates self'))"
    using select_capacity_outcome [OF assms] by blast
  have n: "length (subtemplates self') = capacity self" using same_galleryD(1) [OF r(2)] assms(2) by simp
  define eligible where "eligible = {j. j < capacity self \<and> replaceable self' probe j \<and> probe_score < scores ! j}"
  note best = best_replacement_first_max [where self = self' and probe = probe and probe_score = probe_score and scores = scores, unfolded n]
  have "best_replacement self' probe probe_score scores =
      (if eligible = {} then None else Some (Min {j. j \<in> eligible \<and> scores ! j = Max ((!) scores ` eligible)}))"
  proof (cases "best_replacement self' probe probe_score scores")
    case None
    then show ?thesis using best by (auto simp: eligible_def)
  next
    case (Some i)
    have i: "i \<in> eligible" "\<And>j. j \<in> eligible \<Longrightarrow> scores ! j < scores ! i \<or> i \<le> j \<and> scores ! j = scores ! i"
      using best Some by (auto simp: eligible_def)
    have fin: "finite eligible" by (simp add: eligible_def)
    have "Max ((!) scores ` eligible) = scores ! i"
      using i fin by (intro Max_eqI) force+
    moreover have "Min {j. j \<in> eligible \<and> scores ! j = scores ! i} = i"
      using i fin by (intro Min_eqI) force+
    ultimately show ?thesis using Some i(1) by auto
  qed
  note best_eq = this
  show ?thesis
  proof (intro exI conjI)
    show "goodix_chicago_enrollment_select_capacity_replacement self probe selected rels (capacity self) (Some build) =
      Some (True, (case best_replacement self' probe probe_score scores of
                     Some index \<Rightarrow> Some index
                   | None \<Rightarrow> if selected_is_replaceable (subtemplates self' ! selected) probe probe_score (scores ! selected)
                             then Some selected else None), (self', Some rels'))" by (rule r(1))
    show "enrollment_wf self'" by (rule same_gallery_wf [OF r(2) assms(1)])
    show "length (subtemplates self') = capacity self" by (rule n)
    show "length rels' = capacity self" by (rule r(3))
    show "goodix_chicago_enrollment_calculate_capacity_scores self' probe rels' (capacity self) =
      Some (probe_score, scores, map quality (subtemplates self'))" by (rule r(4))
    show "set (probe_score # scores) \<subseteq> {0..100}" using capacity_scores_range(2) [OF r(4)] by fastforce
  qed (unfold Let_def eligible_def [symmetric] best_eq, simp)
qed

theorem capacity_choice_sound_witness:
  "\<exists>choice self' rels'. goodix_chicago_enrollment_select_capacity_replacement lone_sample blank_view 0 [strong_relation] 1
      (Some (\<lambda>gallery probe r. r)) = Some (True, choice, (self', Some rels')) \<and> enrollment_wf self'"
proof -
  have "v_metric blank_view \<noteq> None" by (simp add: blank_view_def)
  from capacity_choice_sound [OF lone_sample_fields(1) _ _ _ this, of 0 "[strong_relation]" "\<lambda>gallery probe r. r"]
  show ?thesis unfolding lone_sample_fields(2,3) by fastforce
qed

end
