(* ===== verification/Chicago_Geometry.thy ===== *)
theory Chicago_Geometry
  imports Chicago_Transform
begin

text \<open>
  The geometry of goodix-chicago-match.c: the orientation-aware search for an affine transform
  between matched points, the orientation filter with its square root and CORDIC angle, the
  least-squares refit and the overlap of feature records. Points, transforms and the three-point
  solution are those of the enrollment file. Orientations are \<open>gint32\<close> values.
\<close>

declare upt_rec_numeral [simp del]

section \<open>Feature overlap\<close>

text \<open>The bytes of a feature record from an offset inside its descriptor, which starts at byte 12,
  and the distance of the words at two such addresses.\<close>

definition record_at :: "feature_record \<Rightarrow> nat \<Rightarrow> bytes" where
  "record_at r offset = drop (offset - 12) (descriptor r)"

definition hamming_words :: "bytes \<Rightarrow> bytes \<Rightarrow> nat \<Rightarrow> nat" where
  "hamming_words a b words = popcount (map2 (XOR) (take (words * 4) a) (take (words * 4) b))"

definition match_transform_coordinate :: "int \<Rightarrow> int" where
  "match_transform_coordinate v =
     (if v > 0 then i32 (drop_bit 8 (v + 0x80)) else i32 (- drop_bit 8 (0x80 - v)))"

record feature_overlap =
  eligible_count :: int
  matched_count :: int
  matched_percent :: int
  geometry_percent :: int
  mean_distance :: int

definition transformed_point :: "transform \<Rightarrow> feature_record \<Rightarrow> int \<times> int" where
  "transformed_point t probe =
     (let probe_x = uint (refined_x probe); probe_y = uint (refined_y probe)
      in (match_transform_coordinate (t0 t * probe_x + t1 t * probe_y + t2 t * 0x100),
          match_transform_coordinate (t3 t * probe_x + t4 t * probe_y + t5 t * 0x100)))"

text \<open>The nearest gallery record of the same class within two pixels, with its squared distance.\<close>

definition nearest_step :: "feature_record list \<Rightarrow> feature_record \<Rightarrow> int \<times> int \<Rightarrow> nat option \<times> int \<Rightarrow> nat \<Rightarrow> nat option \<times> int" where
  "nearest_step gallery probe p best k =
     (let g = gallery ! k; dx = fst p - uint (refined_x g); dy = snd p - uint (refined_y g);
          squared = dx * dx + dy * dy
      in if foreground g AND 3 \<noteq> foreground probe AND 3 \<or> \<bar>dx\<bar> > 0x200 \<or> \<bar>dy\<bar> > 0x200 then best
         else if squared < snd best then (Some k, squared) else best)"

definition nearest_gallery :: "feature_record list \<Rightarrow> feature_record \<Rightarrow> int \<times> int \<Rightarrow> nat option \<times> int" where
  "nearest_gallery gallery probe p =
     foldl (nearest_step gallery probe p) (None, G_MAXINT32) [0..<length gallery]"

definition overlap_step ::
    "feature_record list \<Rightarrow> nat \<Rightarrow> nat \<Rightarrow> transform \<Rightarrow> feature_overlap \<Rightarrow> feature_record \<Rightarrow> feature_overlap" where
  "overlap_step gallery width height t acc probe =
     (let p = transformed_point t probe
      in if fst p < 0x600 \<or> fst p \<ge> (int width - 7) * 0x100 \<or> snd p < 0x600 \<or> snd p \<ge> (int height - 7) * 0x100
         then acc
         else let acc1 = acc\<lparr> eligible_count := eligible_count acc + 1 \<rparr>
              in case nearest_gallery gallery probe p of
                   (None, best_squared) \<Rightarrow> acc1
                 | (Some k, best_squared) \<Rightarrow>
                     if best_squared < 0x40000 then
                       let straight = hamming_words (record_at (gallery ! k) 0x28) (record_at probe 0x28) 2;
                           shifted = hamming_words (record_at (gallery ! k) 0x28) (record_at probe 0x30) 2
                       in acc1\<lparr> matched_count := matched_count acc1 + 1,
                                mean_distance := mean_distance acc1 + int (min straight shifted) \<rparr>
                     else acc1)"

definition goodix_chicago_match_feature_overlap_type24 ::
    "feature_record list \<Rightarrow> feature_record list \<Rightarrow> nat \<Rightarrow> nat \<Rightarrow> transform \<Rightarrow> int \<Rightarrow> feature_overlap" where
  "goodix_chicago_match_feature_overlap_type24 gallery probes width height t geometry_count =
     (let r = foldl (overlap_step gallery width height t)
            \<lparr> eligible_count = 0, matched_count = 0, matched_percent = 0, geometry_percent = 0, mean_distance = 0 \<rparr> probes;
          r1 = (if matched_count r > 0 then r\<lparr> mean_distance := mean_distance r sdiv matched_count r \<rparr> else r)
      in if eligible_count r1 > 0
         then r1\<lparr> matched_percent := matched_count r1 * 100 sdiv eligible_count r1,
                  geometry_percent := i32 (geometry_count * 100) sdiv eligible_count r1 \<rparr>
         else r1)"

section \<open>Square root and angle\<close>

text \<open>One trial per bit of the root, from bit 15 down; the argument counts the bits left.\<close>

fun match_sqrt_steps :: "nat \<Rightarrow> nat \<Rightarrow> nat \<Rightarrow> nat" where
  "match_sqrt_steps 0 remainder root = root"
| "match_sqrt_steps (Suc shift) remainder root =
     (let trial = ((2 ^ shift + root * 2) * 2 ^ shift) mod 2 ^ 32
      in if remainder \<ge> trial then match_sqrt_steps shift (remainder - trial) (root + 2 ^ shift)
         else match_sqrt_steps shift remainder root)"

definition match_integer_sqrt :: "nat \<Rightarrow> nat" where
  "match_integer_sqrt v = (if v \<le> 1 then v else match_sqrt_steps 16 v 0)"

definition match_cordic_angles :: "u16 list" where
  "match_cordic_angles = [0x0c91, 0x076b, 0x03eb, 0x01fd, 0x0100, 0x0080, 0x0040, 0x0020, 0x0010, 0x0008, 0x0004, 0x0002, 0x0001]"

definition match_cordic_gains :: "int list" where
  "match_cordic_gains = [0xb505, 0xa1e9, 0x9d13, 0x9bdd, 0x9b8f, 0x9b7b, 0x9b77, 0x9b75, 0x9b75, 0x9b75, 0x9b75, 0x9b75, 0x9b75]"

text \<open>The rotations, until the vertical component is zero; the last component is the iteration that
  ended them.\<close>

fun cordic_iterations :: "nat list \<Rightarrow> int \<Rightarrow> int \<Rightarrow> u16 \<Rightarrow> int \<times> u16 \<times> nat" where
  "cordic_iterations [] x y angle = (x, angle, 12)"
| "cordic_iterations (iteration # iterations) x y angle =
     (let y_shift = drop_bit iteration y; x_shift = drop_bit iteration x;
          (x', y', angle') =
            (if y > 0 then (i32 (x + y_shift), i32 (y - x_shift), angle + match_cordic_angles ! iteration)
             else (i32 (x - y_shift), i32 (y + x_shift), angle - match_cordic_angles ! iteration))
      in if y' = 0 then (x', angle', iteration) else cordic_iterations iterations x' y' angle')"

text \<open>The angle and the new \<open>horizontal\<close>.\<close>

definition match_cordic_orientation :: "int \<Rightarrow> int \<Rightarrow> u16 \<times> int" where
  "match_cordic_orientation vertical horizontal =
     (let x = i32 \<bar>horizontal\<bar>; y = i32 \<bar>vertical\<bar>
      in if y = 0 then (if horizontal > 0 then 0 else 0x3244, x)
         else if x = 0 then (if vertical > 0 then 0x1922 else 0xe6de, y)
         else case cordic_iterations [0..<13] x y 0 of (x', angle, stop) \<Rightarrow>
           (if horizontal > 0 then (if vertical < 0 then - angle else angle)
            else if vertical > 0 then 0x3244 - angle
            else angle + 0xcdbc,
            i32 (drop_bit 16 (match_cordic_gains ! stop * x' + 0x8000))))"

section \<open>Filtering by orientation\<close>

definition circular_orientation_distance :: "int \<Rightarrow> int" where
  "circular_orientation_distance v =
     (let v1 = (if v < 0 then v + 0x6488 else v); v2 = (if v1 > 0x6488 then v1 - 0x6488 else v1)
      in min v2 (0x6488 - v2))"

text \<open>The rotation of a transform, \<open>None\<close> when its scale is zero.\<close>

definition transform_rotation :: "transform \<Rightarrow> int option" where
  "transform_rotation t =
     (let first_scale = match_integer_sqrt (nat ((t0 t * t0 t + t3 t * t3 t) mod 2 ^ 32));
          second_scale = match_integer_sqrt (nat ((t1 t * t1 t + t4 t * t4 t) mod 2 ^ 32));
          scale = int ((first_scale + second_scale) div 2)
      in if scale = 0 then None
         else
           let horizontal = i32 (i32 (t4 t + t0 t) sdiv 2 * 256) sdiv scale;
               vertical = i32 (i32 (t3 t - t1 t) sdiv 2 * 256) sdiv scale;
               rotation = sint (fst (match_cordic_orientation vertical horizontal))
           in Some (if rotation < 0 then rotation + 0x6488 else rotation))"

definition orientation_agrees :: "int \<Rightarrow> int \<Rightarrow> int \<Rightarrow> bool" where
  "orientation_agrees rotation target source \<longleftrightarrow>
     (let delta = target - source + rotation;
          distance = min (circular_orientation_distance delta) (circular_orientation_distance (delta + 0x3244))
      in \<not> distance > 0x506)"

definition count_inliers :: "bool list \<Rightarrow> nat \<Rightarrow> nat" where
  "count_inliers inliers point_count = length (filter (\<lambda>k. inliers ! k) [0..<point_count])"

definition goodix_chicago_match_filter_orientations ::
    "transform \<Rightarrow> int list \<Rightarrow> int list \<Rightarrow> nat \<Rightarrow> bool list \<Rightarrow> bool list \<times> nat" where
  "goodix_chicago_match_filter_orientations t targets sources point_count inliers =
     (case transform_rotation t of
        None \<Rightarrow> (inliers, count_inliers inliers point_count)
      | Some rotation \<Rightarrow>
          let inliers' = foldl (\<lambda>ins k. if ins ! k \<and> \<not> orientation_agrees rotation (targets ! k) (sources ! k)
                                        then ins[k := False] else ins) inliers [0..<point_count]
          in (inliers', count_inliers inliers' point_count))"

section \<open>Refining by least squares\<close>

definition match_divide_nearest64 :: "int \<Rightarrow> int \<Rightarrow> int" where
  "match_divide_nearest64 numerator denominator =
     (let half = drop_bit 1 denominator
      in if numerator \<ge> 0 then i32 (i64 (numerator + half) sdiv denominator)
         else i32 (i64 (- (i64 (half - numerator) sdiv denominator))))"

text \<open>The point a transform predicts, rounded to Q8.\<close>

definition predicted_x :: "transform \<Rightarrow> point \<Rightarrow> int" where
  "predicted_x t p = i32 (drop_bit 8 (i64 (t0 t * px p + t1 t * py p + 0x80)) + t2 t)"

definition predicted_y :: "transform \<Rightarrow> point \<Rightarrow> int" where
  "predicted_y t p = i32 (drop_bit 8 (i64 (t3 t * px p + t4 t * py p + 0x80)) + t5 t)"

text \<open>The rows of the design matrix and the targets, of the points that are inliers.\<close>

definition design_rows :: "point list \<Rightarrow> bool list \<Rightarrow> (int \<times> int \<times> int) list" where
  "design_rows src inliers =
     map (\<lambda>k. (px (src ! k), py (src ! k), 0x100)) (filter (\<lambda>k. inliers ! k) [0..<length src])"

definition target_rows :: "point list \<Rightarrow> bool list \<Rightarrow> (int \<times> int) list" where
  "target_rows tgt inliers =
     map (\<lambda>k. (px (tgt ! k), py (tgt ! k))) (filter (\<lambda>k. inliers ! k) [0..<length tgt])"

definition column3 :: "nat \<Rightarrow> int \<times> int \<times> int \<Rightarrow> int" where
  "column3 c row = (case row of (x, y, z) \<Rightarrow> if c = 0 then x else if c = 1 then y else z)"

definition column2 :: "nat \<Rightarrow> int \<times> int \<Rightarrow> int" where
  "column2 c row = (if c = 0 then fst row else snd row)"

definition q8_sum :: "int list \<Rightarrow> int" where
  "q8_sum xs = drop_bit 8 (i64 (i64 (foldl (\<lambda>acc x. i64 (acc + i64 x)) 0 xs) + 0x80))"

definition gram_entry :: "(int \<times> int \<times> int) list \<Rightarrow> nat \<Rightarrow> nat \<Rightarrow> int" where
  "gram_entry design row column = q8_sum (map (\<lambda>d. column3 row d * column3 column d) design)"

definition cross_entry :: "(int \<times> int \<times> int) list \<Rightarrow> (int \<times> int) list \<Rightarrow> nat \<Rightarrow> nat \<Rightarrow> int" where
  "cross_entry design targets row axis = q8_sum (map2 (\<lambda>d t. column3 row d * column2 axis t) design targets)"

text \<open>The cofactors of the Gram matrix, by cyclic indices as the code lists them.\<close>

definition gram_cofactor :: "(nat \<Rightarrow> nat \<Rightarrow> int) \<Rightarrow> nat \<Rightarrow> nat \<Rightarrow> int" where
  "gram_cofactor gram row column =
     (let r1 = (row + 1) mod 3; r2 = (row + 2) mod 3; c1 = (column + 1) mod 3; c2 = (column + 2) mod 3
      in i64 (i64 (gram r1 c1 * gram r2 c2) - i64 (gram r1 c2 * gram r2 c1)))"

definition gram_determinant :: "(nat \<Rightarrow> nat \<Rightarrow> int) \<Rightarrow> int" where
  "gram_determinant gram =
     drop_bit 8 (i64 (i64 (i64 (i64 (gram 0 0 * gram_cofactor gram 0 0) + i64 (gram 0 1 * gram_cofactor gram 0 1)) +
       i64 (gram 0 2 * gram_cofactor gram 0 2)) + 0x80))"

definition refined_coefficient ::
    "(nat \<Rightarrow> nat \<Rightarrow> int) \<Rightarrow> (nat \<Rightarrow> nat \<Rightarrow> int) \<Rightarrow> nat \<Rightarrow> nat \<Rightarrow> int" where
  "refined_coefficient gram cross coefficient axis =
     match_divide_nearest64
       (foldl (\<lambda>acc row. i64 (acc + i64 (gram_cofactor gram row coefficient * cross row axis))) 0 [0, 1, 2])
       (gram_determinant gram)"

definition refined_residual :: "transform \<Rightarrow> point \<Rightarrow> point \<Rightarrow> nat" where
  "refined_residual t p q =
     (let dx = predicted_x t p - px q; dy = predicted_y t p - py q in nat ((dx * dx + dy * dy) mod 2 ^ 64))"

text \<open>\<open>None\<close> for \<open>FALSE\<close>, which leaves the transform as it is.\<close>

definition goodix_chicago_match_refine_geometry ::
    "point list \<Rightarrow> point list \<Rightarrow> bool list \<Rightarrow> int \<Rightarrow> transform option" where
  "goodix_chicago_match_refine_geometry src tgt inliers error_limit =
     (let design = design_rows src inliers; targets = target_rows tgt inliers;
          gram = gram_entry design; cross = cross_entry design targets
      in if gram_determinant gram = 0 then None
         else
           let c = refined_coefficient gram cross;
               candidate = mk_transform (c 0 0) (c 1 0) (c 2 0) (c 0 1) (c 1 1) (c 2 1);
               residuals = filter (\<lambda>r. r < 0x64000) (map2 (refined_residual candidate) src tgt);
               candidate_inliers = length residuals;
               average_error = (if candidate_inliers = 0 then 0x190000
                                else (sum_list residuals + candidate_inliers div 2) div candidate_inliers)
           in if average_error \<ge> nat (error_limit mod 2 ^ 64) \<or> candidate_inliers < length design then None
              else Some candidate)"

section \<open>The search for a transform\<close>

abbreviation (input) GEOMETRY_LIMIT :: nat where "GEOMETRY_LIMIT \<equiv> 42"

record match_geometry =
  geo_transform :: transform
  geo_error :: int
  geo_inlier_count :: nat
  geo_inliers :: "bool list"

definition geometry_start :: match_geometry where
  "geometry_start = \<lparr> geo_transform = mk_transform 0 0 0 0 0 0, geo_error = 0x190000, geo_inlier_count = 0,
     geo_inliers = replicate GEOMETRY_LIMIT False \<rparr>"

definition wrap_orientation :: "int \<Rightarrow> int \<Rightarrow> int \<Rightarrow> int" where
  "wrap_orientation v half_range full_range =
     (let v1 = (if v > half_range then v - full_range else v)
      in if v1 < - half_range then v1 + full_range else v1)"

definition point_distance_quarter :: "point \<Rightarrow> point \<Rightarrow> int" where
  "point_distance_quarter a b =
     (let dx = i32 (px a - px b); dy = i32 (py a - py b)
      in i32 (drop_bit 2 (i32 (dx * dx)) + drop_bit 2 (i32 (dy * dy))))"

definition triangle_edge_is_compatible :: "int \<Rightarrow> int \<Rightarrow> bool" where
  "triangle_edge_is_compatible source_distance target_distance \<longleftrightarrow>
     i32 (source_distance * 5) \<le> i32 (target_distance * 6) \<and>
     i32 (source_distance * 6) \<ge> i32 (target_distance * 5) \<and>
     source_distance \<ge> 0x30000 \<and> target_distance \<ge> 0x30000"

definition orientation_triplet_is_compatible :: "int list \<Rightarrow> int \<Rightarrow> bool" where
  "orientation_triplet_is_compatible delta threshold \<longleftrightarrow>
     (let mean = (delta ! 0 + delta ! 1 + delta ! 2) sdiv 3
      in list_all (\<lambda>d. \<not> (d - mean > threshold \<or> d - mean < - threshold)) delta)"

definition transform_is_rigid_and_scaled :: "transform \<Rightarrow> bool" where
  "transform_is_rigid_and_scaled t =
     (let a = t0 t; b = t1 t; c = t3 t; d = t4 t;
          m00 = i64 (a * a + b * b); m01 = i64 (a * c + b * d); m11 = i64 (c * c + d * d);
          trace = i64 (m00 + m11);
          discriminant = i64 (trace * trace + 4 * (m01 * m01 - m11 * m00));
          upper_delta = i64 (0xa3 * 2 ^ 9 - trace);
          lower_delta = i64 (0x191 * 2 ^ 9 - trace)
      in \<bar>t0 t - t4 t\<bar> < 0x32 \<and> \<bar>t3 t + t1 t\<bar> < 0x32 \<and>
         \<bar>t0 t\<bar> < 0x12c \<and> \<bar>t1 t\<bar> < 0x12c \<and> \<bar>t3 t\<bar> < 0x12c \<and> \<bar>t4 t\<bar> < 0x12c \<and>
         discriminant \<ge> 0 \<and> trace \<ge> 0 \<and> upper_delta \<le> 0 \<and> lower_delta \<ge> 0 \<and>
         i64 (upper_delta * upper_delta) > discriminant \<and>
         i64 (lower_delta * lower_delta) > discriminant)"

text \<open>The same arithmetic as the function of this name in the enrollment file.\<close>

definition match_affine_from_three_points ::
    "point \<times> point \<times> point \<Rightarrow> point \<times> point \<times> point \<Rightarrow> transform" where
  "match_affine_from_three_points src tgt = affine_from_three_points src tgt"

text \<open>\<open>Some squared\<close> for a point within tolerance of its target.\<close>

definition geometry_residual :: "transform \<Rightarrow> point \<Rightarrow> point \<Rightarrow> int option" where
  "geometry_residual t src tgt =
     (let dx = i32 (predicted_x t src - px tgt); dy = i32 (predicted_y t src - py tgt);
          squared = i32 (i32 (dx * dx) + i32 (dy * dy))
      in if \<bar>dx\<bar> \<le> 0x280 \<and> \<bar>dy\<bar> \<le> 0x280 \<and> squared < 0x64000 then Some squared else None)"

text \<open>The orientation differences of a triple, wrapped once more in the strict mode when they disagree.\<close>

definition orientations_compatible :: "bool \<Rightarrow> int list \<Rightarrow> bool" where
  "orientations_compatible strict deltas =
     (let half_range = (if strict then 0x1922 else 0x3244); full_range = (if strict then 0x3244 else 0x6488);
          threshold = (if strict then 0x400 else 0x800)
      in if \<not> orientation_triplet_is_compatible deltas threshold then
           (if \<not> strict then False
            else orientation_triplet_is_compatible
                   (map (\<lambda>d. wrap_orientation (d + half_range) half_range full_range) deltas) threshold)
         else True)"

definition orientation_delta :: "bool \<Rightarrow> int list \<Rightarrow> int list \<Rightarrow> nat \<Rightarrow> int" where
  "orientation_delta strict targets sources k =
     wrap_orientation (targets ! k - sources ! k) (if strict then 0x1922 else 0x3244) (if strict then 0x3244 else 0x6488)"

definition edge_compatible :: "point list \<Rightarrow> point list \<Rightarrow> nat \<Rightarrow> nat \<Rightarrow> bool" where
  "edge_compatible src tgt i j =
     triangle_edge_is_compatible (point_distance_quarter (src ! i) (src ! j)) (point_distance_quarter (tgt ! i) (tgt ! j))"

text \<open>What one triple whose edges and orientations agree does to the result.\<close>

definition geometry_candidate :: "point list \<Rightarrow> point list \<Rightarrow> nat \<Rightarrow> nat \<times> nat \<times> nat \<Rightarrow> match_geometry \<Rightarrow> match_geometry" where
  "geometry_candidate src tgt minimum_inliers ijk result =
     (case ijk of (i, j, k) \<Rightarrow>
       let t = match_affine_from_three_points (src ! i, src ! j, src ! k) (tgt ! i, tgt ! j, tgt ! k)
       in if \<not> transform_is_rigid_and_scaled t then result
          else
            let residuals = map2 (geometry_residual t) src tgt;
                hits = List.map_filter id residuals;
                inlier_count = length hits
            in if inlier_count < minimum_inliers then result
               else
                 let average_error = (if inlier_count = 0 then 0x190000
                                      else i32 (int (inlier_count div 2) + sum_list hits) sdiv int inlier_count)
                 in if inlier_count < geo_inlier_count result \<or>
                       inlier_count = geo_inlier_count result \<and> average_error \<ge> geo_error result
                    then result
                    else \<lparr> geo_transform = t, geo_error = average_error, geo_inlier_count = inlier_count,
                           geo_inliers = map (\<lambda>r. r \<noteq> None) residuals @
                             replicate (GEOMETRY_LIMIT - length residuals) False \<rparr>)"

text \<open>
  The three loops. The state is the number of attempted triples, the result and whether the function
  has returned; the attempts only end the outer loop.
\<close>

type_synonym geometry_state = "nat \<times> match_geometry \<times> bool"

definition geometry_third ::
    "point list \<Rightarrow> point list \<Rightarrow> int list \<Rightarrow> int list \<Rightarrow> nat \<Rightarrow> bool \<Rightarrow> nat \<Rightarrow> nat \<Rightarrow> geometry_state \<Rightarrow> nat \<Rightarrow> geometry_state" where
  "geometry_third src tgt targets sources minimum_inliers strict i j st k =
     (case st of (attempted, result, returned) \<Rightarrow>
       if returned then st
       else if \<not> orientations_compatible strict (map (orientation_delta strict targets sources) [i, j, k]) then st
       else if \<not> edge_compatible src tgt i k \<or> \<not> edge_compatible src tgt j k then st
       else let result' = geometry_candidate src tgt minimum_inliers (i, j, k) result
            in (attempted + 1, result', geo_inlier_count result' > 20))"

definition geometry_second ::
    "point list \<Rightarrow> point list \<Rightarrow> int list \<Rightarrow> int list \<Rightarrow> nat \<Rightarrow> bool \<Rightarrow> nat \<Rightarrow> geometry_state \<Rightarrow> nat \<Rightarrow> geometry_state" where
  "geometry_second src tgt targets sources minimum_inliers strict i st j =
     (if \<not> edge_compatible src tgt i j then st
      else foldl (geometry_third src tgt targets sources minimum_inliers strict i j) st [j + 1..<length src])"

definition geometry_first ::
    "point list \<Rightarrow> point list \<Rightarrow> int list \<Rightarrow> int list \<Rightarrow> nat \<Rightarrow> bool \<Rightarrow> geometry_state \<Rightarrow> nat \<Rightarrow> geometry_state" where
  "geometry_first src tgt targets sources minimum_inliers strict st i =
     (if \<not> fst st < 0x3b2 then st
      else foldl (geometry_second src tgt targets sources minimum_inliers strict i) st [i + 1..<length src - 1])"

text \<open>The early return for too many points leaves the caller's result as it was.\<close>

definition goodix_chicago_match_estimate_geometry ::
    "point list \<Rightarrow> point list \<Rightarrow> int list \<Rightarrow> int list \<Rightarrow> nat \<Rightarrow> bool \<Rightarrow> match_geometry option" where
  "goodix_chicago_match_estimate_geometry src tgt targets sources minimum_inliers strict =
     (if \<not> length src \<le> GEOMETRY_LIMIT then None
      else case foldl (geometry_first src tgt targets sources minimum_inliers strict) (0, geometry_start, False)
             [0..<length src - 2] of (attempted, result, returned) \<Rightarrow> Some result)"

definition goodix_chicago_match_geometry_consensus ::
    "point list \<Rightarrow> point list \<Rightarrow> int list \<Rightarrow> int list \<Rightarrow> nat \<Rightarrow> match_geometry option" where
  "goodix_chicago_match_geometry_consensus src tgt targets sources minimum_inliers =
     map_option (\<lambda>result.
        case goodix_chicago_match_filter_orientations (geo_transform result) targets sources (length src) (geo_inliers result) of
          (inliers, surviving) \<Rightarrow>
            let result1 = result\<lparr> geo_inliers := inliers, geo_inlier_count := surviving \<rparr>
            in if surviving \<ge> 4 \<and> geo_error result1 > 0x4000 then
                 (case goodix_chicago_match_refine_geometry src tgt inliers (geo_error result1) of
                    None \<Rightarrow> result1 | Some t \<Rightarrow> result1\<lparr> geo_transform := t \<rparr>)
               else result1)
       (goodix_chicago_match_estimate_geometry src tgt targets sources minimum_inliers True)"

text \<open>A pair of record indices is two \<open>gint\<close> values, \<open>-1\<close> when absent. At most 42 valid pairs are used.\<close>

definition valid_pair :: "nat \<Rightarrow> nat \<Rightarrow> int \<times> int \<Rightarrow> bool" where
  "valid_pair gallery_count probe_count p \<longleftrightarrow>
     \<not> (fst p < 0 \<or> snd p < 0 \<or> fst p \<ge> int gallery_count \<or> snd p \<ge> int probe_count)"

definition match_point :: "feature_record \<Rightarrow> point" where
  "match_point r = mk_point (uint (refined_x r)) (uint (refined_y r))"

definition record_orientation :: "feature_record \<Rightarrow> int" where
  "record_orientation r = sint (orientation r)"

definition goodix_chicago_match_geometry_consensus_records ::
    "feature_record list \<Rightarrow> feature_record list \<Rightarrow> (int \<times> int) list \<Rightarrow> nat \<Rightarrow> match_geometry option" where
  "goodix_chicago_match_geometry_consensus_records gallery probes pairs minimum_inliers =
     (let valid = take GEOMETRY_LIMIT (filter (valid_pair (length gallery) (length probes)) pairs);
          gs = map (\<lambda>p. gallery ! nat (fst p)) valid; ps = map (\<lambda>p. probes ! nat (snd p)) valid
      in goodix_chicago_match_geometry_consensus (map match_point ps) (map match_point gs)
           (map record_orientation gs) (map record_orientation ps) minimum_inliers)"

section \<open>The square root is the other one\<close>

lemma match_sqrt_steps_spec:
  "root ^ 2 + remainder = v \<Longrightarrow> v < (root + 2 ^ s) ^ 2 \<Longrightarrow> root + 2 ^ s \<le> 2 ^ 16 \<Longrightarrow>
   (match_sqrt_steps s remainder root) ^ 2 \<le> v \<and> v < (match_sqrt_steps s remainder root + 1) ^ 2"
proof (induction s arbitrary: remainder root)
  case 0
  then show ?case by simp
next
  case (Suc s)
  let ?b = "2 ^ s :: nat"
  have square: "(root + ?b) ^ 2 = root ^ 2 + (?b + root * 2) * ?b" by (simp add: power2_eq_square algebra_simps)
  have "root + ?b < 2 ^ 16" using Suc.prems(3) zero_less_power [of "2 :: nat" s] by (simp only: power_Suc) linarith
  then have "(root + ?b) ^ 2 < (2 ^ 16) ^ 2" by (rule power_strict_mono) simp_all
  then have "(?b + root * 2) * ?b < 2 ^ 32" unfolding square by simp
  then have trial: "((?b + root * 2) * ?b) mod 2 ^ 32 = (?b + root * 2) * ?b" by (rule mod_less)
  show ?case
  proof (cases "(?b + root * 2) * ?b \<le> remainder")
    case True
    have "(root + ?b) ^ 2 + (remainder - (?b + root * 2) * ?b) = v" using True Suc.prems(1) unfolding square by simp
    moreover have "v < (root + ?b + ?b) ^ 2" using Suc.prems(2) by (simp add: mult_2 add.assoc)
    moreover have "root + ?b + ?b \<le> 2 ^ 16" using Suc.prems(3) by (simp add: mult_2 add.assoc)
    ultimately show ?thesis using Suc.IH [of "root + ?b" "remainder - (?b + root * 2) * ?b"] True
      by (simp only: match_sqrt_steps.simps Let_def trial if_True)
  next
    case False
    have "v < (root + ?b) ^ 2" using False Suc.prems(1) unfolding square by simp
    moreover have "root + ?b \<le> 2 ^ 16" using Suc.prems(3) by simp
    ultimately show ?thesis using Suc.IH [of root remainder] Suc.prems(1) False
      by (simp only: match_sqrt_steps.simps Let_def trial if_False)
  qed
qed

lemma match_integer_sqrt_bounds:
  assumes "v < 2 ^ 32"
  shows "(match_integer_sqrt v) ^ 2 \<le> v" "v < (match_integer_sqrt v + 1) ^ 2"
proof -
  have "(match_integer_sqrt v) ^ 2 \<le> v \<and> v < (match_integer_sqrt v + 1) ^ 2"
  proof (cases "v \<le> 1")
    case True
    then have "v = 0 \<or> v = 1" by linarith
    then show ?thesis by (auto simp: match_integer_sqrt_def power2_eq_square)
  next
    case False
    have "v < (0 + 2 ^ 16) ^ 2" using assms by simp
    then show ?thesis using False match_sqrt_steps_spec [of 0 v v 16] by (simp add: match_integer_sqrt_def)
  qed
  then show "(match_integer_sqrt v) ^ 2 \<le> v" "v < (match_integer_sqrt v + 1) ^ 2" by simp_all
qed

text \<open>The two integer square roots of the program, the bit-by-bit one of the matcher and the one of the
  enrollment, agree on every 32-bit value.\<close>

theorem square_roots_agree:
  assumes "v < 2 ^ 32"
  shows "match_integer_sqrt v = enrollment_integer_square_root v"
proof -
  have floor: "a \<le> b" if "a ^ 2 \<le> v" "v < (b + 1) ^ 2" for a b :: nat
    using power_less_imp_less_base [of a 2 "b + 1"] that by linarith
  show ?thesis
    using floor [OF match_integer_sqrt_bounds(1) isqrt_bounds(2)] floor [OF isqrt_bounds(1) match_integer_sqrt_bounds(2)] assms
    by (metis le_antisym)
qed

theorem square_roots_agree_witness: "match_integer_sqrt 4000000000 = enrollment_integer_square_root 4000000000"
  by (rule square_roots_agree) simp

section \<open>What the search for a transform guarantees\<close>

text \<open>The number of points a transform maps within tolerance and their average error, rounded.\<close>

definition geometry_hits :: "point list \<Rightarrow> point list \<Rightarrow> transform \<Rightarrow> int list" where
  "geometry_hits src tgt t = List.map_filter id (map2 (geometry_residual t) src tgt)"

definition geometry_average :: "int list \<Rightarrow> int" where
  "geometry_average hits = (if hits = [] then 0x190000
     else i32 (int (length hits div 2) + sum_list hits) sdiv int (length hits))"

definition geometry_ok :: "point list \<Rightarrow> point list \<Rightarrow> nat \<Rightarrow> match_geometry \<Rightarrow> bool" where
  "geometry_ok src tgt minimum_inliers g \<longleftrightarrow>
     length (geo_inliers g) = GEOMETRY_LIMIT \<and>
     geo_inlier_count g = length (filter id (geo_inliers g)) \<and>
     (if geo_inlier_count g = 0 then geo_error g = 0x190000
      else transform_is_rigid_and_scaled (geo_transform g) \<and> minimum_inliers \<le> geo_inlier_count g \<and>
        geo_inliers g = map (\<lambda>i. i < length src \<and> geometry_residual (geo_transform g) (src ! i) (tgt ! i) \<noteq> None) [0..<GEOMETRY_LIMIT] \<and>
        geo_error g = geometry_average (geometry_hits src tgt (geo_transform g)))"

text \<open>A triple the search considers, and whether a result is at least as good as its transform.\<close>

definition eligible_triple :: "point list \<Rightarrow> point list \<Rightarrow> int list \<Rightarrow> int list \<Rightarrow> bool \<Rightarrow> nat \<times> nat \<times> nat \<Rightarrow> bool" where
  "eligible_triple src tgt targets sources strict ijk \<longleftrightarrow>
     (case ijk of (i, j, k) \<Rightarrow> edge_compatible src tgt i j \<and> edge_compatible src tgt i k \<and> edge_compatible src tgt j k \<and>
        orientations_compatible strict (map (orientation_delta strict targets sources) [i, j, k]))"

definition triple_transform :: "point list \<Rightarrow> point list \<Rightarrow> nat \<times> nat \<times> nat \<Rightarrow> transform" where
  "triple_transform src tgt ijk =
     (case ijk of (i, j, k) \<Rightarrow> match_affine_from_three_points (src ! i, src ! j, src ! k) (tgt ! i, tgt ! j, tgt ! k))"

definition as_good_as :: "point list \<Rightarrow> point list \<Rightarrow> nat \<Rightarrow> match_geometry \<Rightarrow> transform \<Rightarrow> bool" where
  "as_good_as src tgt minimum_inliers g t \<longleftrightarrow>
     (let hits = geometry_hits src tgt t
      in \<not> transform_is_rigid_and_scaled t \<or> length hits < minimum_inliers \<or> length hits < geo_inlier_count g \<or>
         length hits = geo_inlier_count g \<and> geo_error g \<le> geometry_average hits)"

lemma length_map_filter_id: "length (List.map_filter id xs) = length (filter (\<lambda>r. r \<noteq> None) xs)"
  by (induction xs) (auto simp: List.map_filter_def split: option.splits)

lemma geometry_candidate_eq:
  "geometry_candidate src tgt minimum_inliers ijk g =
     (let t = triple_transform src tgt ijk; hits = geometry_hits src tgt t
      in if as_good_as src tgt minimum_inliers g t then g
         else \<lparr> geo_transform = t, geo_error = geometry_average hits, geo_inlier_count = length hits,
                geo_inliers = map (\<lambda>r. r \<noteq> None) (map2 (geometry_residual t) src tgt) @
                  replicate (GEOMETRY_LIMIT - length (map2 (geometry_residual t) src tgt)) False \<rparr>)"
  by (cases ijk) (auto simp: geometry_candidate_def triple_transform_def geometry_hits_def geometry_average_def as_good_as_def
      Let_def)

lemma geometry_candidate_ok:
  assumes len: "length src = length tgt" "length src \<le> GEOMETRY_LIMIT" and g: "geometry_ok src tgt minimum_inliers g"
  shows "geometry_ok src tgt minimum_inliers (geometry_candidate src tgt minimum_inliers ijk g)"
proof (cases "as_good_as src tgt minimum_inliers g (triple_transform src tgt ijk)")
  case True
  then show ?thesis using g by (simp add: geometry_candidate_eq Let_def)
next
  case False
  let ?t = "triple_transform src tgt ijk"
  let ?residuals = "map2 (geometry_residual ?t) src tgt"
  let ?flags = "map (\<lambda>r. r \<noteq> None) ?residuals @ replicate (GEOMETRY_LIMIT - length ?residuals) False"
  let ?hits = "geometry_hits src tgt ?t"
  define F where "F = map (\<lambda>i. i < length src \<and> geometry_residual ?t (src ! i) (tgt ! i) \<noteq> None) [0..<GEOMETRY_LIMIT]"
  have flags: "?flags = F"
    using len by (intro nth_equalityI) (auto simp: nth_append F_def)
  have "length (filter id ?flags) = length ?hits"
    by (simp add: geometry_hits_def length_map_filter_id filter_map o_def)
  then have count: "length (filter id F) = length ?hits" unfolding flags .
  have empty: "geometry_average ?hits = 0x190000" if "length ?hits = 0"
    using that by (simp add: geometry_average_def)
  have cand: "geometry_candidate src tgt minimum_inliers ijk g =
      \<lparr> geo_transform = ?t, geo_error = geometry_average ?hits, geo_inlier_count = length ?hits, geo_inliers = F \<rparr>"
    unfolding geometry_candidate_eq Let_def if_not_P [OF False] flags ..
  have "transform_is_rigid_and_scaled ?t" "minimum_inliers \<le> length ?hits"
    using False by (auto simp: as_good_as_def Let_def)
  moreover have "length F = GEOMETRY_LIMIT" by (simp add: F_def)
  ultimately show ?thesis
    unfolding cand geometry_ok_def using count empty F_def by simp
qed

lemma geometry_candidate_mono:
  "as_good_as src tgt minimum_inliers g t \<Longrightarrow> as_good_as src tgt minimum_inliers (geometry_candidate src tgt minimum_inliers ijk g) t"
  by (auto simp: geometry_candidate_eq Let_def as_good_as_def)

lemma geometry_candidate_covers:
  "as_good_as src tgt minimum_inliers (geometry_candidate src tgt minimum_inliers ijk g) (triple_transform src tgt ijk)"
  by (auto simp: geometry_candidate_eq Let_def as_good_as_def)

text \<open>
  The state of the three loops after the triples \<open>T\<close>: the attempts are counted among them and,
  as long as the function has not returned, the result is as good as each eligible one.
\<close>

definition search_ok ::
    "point list \<Rightarrow> point list \<Rightarrow> int list \<Rightarrow> int list \<Rightarrow> nat \<Rightarrow> bool \<Rightarrow> (nat \<times> nat \<times> nat) set \<Rightarrow> geometry_state \<Rightarrow> bool" where
  "search_ok src tgt targets sources minimum_inliers strict T st \<longleftrightarrow>
     (case st of (attempted, result, returned) \<Rightarrow>
        geometry_ok src tgt minimum_inliers result \<and> attempted \<le> card T \<and>
        (if returned then geo_inlier_count result > 20
         else \<forall>t \<in> T. eligible_triple src tgt targets sources strict t \<longrightarrow>
                as_good_as src tgt minimum_inliers result (triple_transform src tgt t)))"

lemma search_okD:
  assumes "search_ok src tgt targets sources minimum_inliers strict T st"
  shows "fst st \<le> card T"
    "geo_inlier_count (fst (snd st)) \<le> 20 \<Longrightarrow> t \<in> T \<Longrightarrow> eligible_triple src tgt targets sources strict t \<Longrightarrow>
      as_good_as src tgt minimum_inliers (fst (snd st)) (triple_transform src tgt t)"
  using assms by (auto simp: search_ok_def split: prod.splits if_splits)

lemma search_ok_skip:
  assumes "search_ok src tgt targets sources minimum_inliers strict T st" and "finite T'" and "T \<subseteq> T'"
    and "\<And>t. t \<in> T' - T \<Longrightarrow> \<not> eligible_triple src tgt targets sources strict t"
  shows "search_ok src tgt targets sources minimum_inliers strict T' st"
  using assms card_mono [OF assms(2,3)] by (force simp: search_ok_def split: prod.splits if_splits)

lemma search_ok_third:
  assumes len: "length src = length tgt" "length src \<le> GEOMETRY_LIMIT"
    and st: "search_ok src tgt targets sources minimum_inliers strict T st" and fin: "finite T" and new: "(i, j, k) \<notin> T"
    and ij: "edge_compatible src tgt i j"
  shows "search_ok src tgt targets sources minimum_inliers strict (insert (i, j, k) T)
    (geometry_third src tgt targets sources minimum_inliers strict i j st k)"
proof -
  obtain attempted g returned where s: "st = (attempted, g, returned)" by (cases st)
  have bound: "attempted \<le> card T" and ok: "geometry_ok src tgt minimum_inliers g"
    using st by (simp_all add: s search_ok_def)
  show ?thesis
  proof (cases "returned \<or> \<not> eligible_triple src tgt targets sources strict (i, j, k)")
    case True
    have "geometry_third src tgt targets sources minimum_inliers strict i j st k = st"
      using True ij by (auto simp: s geometry_third_def eligible_triple_def)
    moreover have "search_ok src tgt targets sources minimum_inliers strict (insert (i, j, k) T) st"
    proof (cases returned)
      case True
      then show ?thesis using st fin new by (simp add: s search_ok_def)
    next
      case False
      then show ?thesis using \<open>returned \<or> _\<close> fin by (intro search_ok_skip [OF st]) auto
    qed
    ultimately show ?thesis by simp
  next
    case False
    let ?g = "geometry_candidate src tgt minimum_inliers (i, j, k) g"
    have "geometry_third src tgt targets sources minimum_inliers strict i j st k =
        (attempted + 1, ?g, geo_inlier_count ?g > 20)"
      using False by (simp add: s geometry_third_def eligible_triple_def Let_def)
    moreover have "geometry_ok src tgt minimum_inliers ?g" by (rule geometry_candidate_ok [OF len ok])
    moreover have "as_good_as src tgt minimum_inliers ?g (triple_transform src tgt t)"
      if "t \<in> insert (i, j, k) T" "eligible_triple src tgt targets sources strict t" for t
      using that st False geometry_candidate_covers geometry_candidate_mono by (auto simp: s search_ok_def)
    ultimately show ?thesis using bound fin new by (simp add: search_ok_def)
  qed
qed

lemma search_ok_thirds:
  assumes len: "length src = length tgt" "length src \<le> GEOMETRY_LIMIT" and ij: "edge_compatible src tgt i j"
  shows "search_ok src tgt targets sources minimum_inliers strict T st \<Longrightarrow> finite T \<Longrightarrow> distinct ks \<Longrightarrow>
    T \<inter> (\<lambda>k. (i, j, k)) ` set ks = {} \<Longrightarrow>
    search_ok src tgt targets sources minimum_inliers strict (T \<union> (\<lambda>k. (i, j, k)) ` set ks)
      (foldl (geometry_third src tgt targets sources minimum_inliers strict i j) st ks)"
proof (induction ks arbitrary: T st)
  case (Cons k ks)
  have "search_ok src tgt targets sources minimum_inliers strict (insert (i, j, k) T)
      (geometry_third src tgt targets sources minimum_inliers strict i j st k)"
    using Cons.prems by (intro search_ok_third [OF len _ _ _ ij]) auto
  from Cons.IH [OF this] show ?case using Cons.prems by auto
qed simp

lemma search_ok_second:
  assumes len: "length src = length tgt" "length src \<le> GEOMETRY_LIMIT"
    and st: "search_ok src tgt targets sources minimum_inliers strict T st" "finite T"
    and new: "T \<inter> {(i, j, k) | k. j < k \<and> k < length src} = {}"
  shows "search_ok src tgt targets sources minimum_inliers strict (T \<union> {(i, j, k) | k. j < k \<and> k < length src})
      (geometry_second src tgt targets sources minimum_inliers strict i st j)"
proof -
  have s: "(\<lambda>k. (i, j, k)) ` set [j + 1..<length src] = {(i, j, k) | k. j < k \<and> k < length src}" by auto
  have fin: "finite {(i, j, k) | k. j < k \<and> k < length src}" unfolding s [symmetric] by simp
  show ?thesis
  proof (cases "edge_compatible src tgt i j")
    case True
    then show ?thesis
      using search_ok_thirds [OF len True st, of "[j + 1..<length src]"] new unfolding s
      by (simp add: geometry_second_def)
  next
    case False
    then have "geometry_second src tgt targets sources minimum_inliers strict i st j = st"
      by (simp add: geometry_second_def)
    then show ?thesis
      using False st(2) fin by (auto intro!: search_ok_skip [OF st(1)] simp: eligible_triple_def)
  qed
qed

lemma search_ok_seconds:
  assumes len: "length src = length tgt" "length src \<le> GEOMETRY_LIMIT"
    and st: "search_ok src tgt targets sources minimum_inliers strict T st" "finite T" and new: "T \<inter> {i} \<times> UNIV = {}"
  shows "search_ok src tgt targets sources minimum_inliers strict
     (T \<union> {(i, j, k) | j k. i < j \<and> j < i + 1 + m \<and> j < k \<and> k < length src})
     (foldl (geometry_second src tgt targets sources minimum_inliers strict i) st [i + 1..<i + 1 + m])"
proof (induction m)
  case 0
  have "{(i, j, k) | j k. i < j \<and> j < i + 1 + 0 \<and> j < k \<and> k < length src} = {}" by auto
  moreover have "[i + 1..<i + 1 + 0] = []" by simp
  ultimately show ?case using st(1) by (simp only: foldl_Nil Un_empty_right)
next
  case (Suc m)
  let ?T = "\<lambda>m. {(i, j, k) | j k. i < j \<and> j < i + 1 + m \<and> j < k \<and> k < length src}"
  let ?U = "{(i, i + 1 + m, k) | k. i + 1 + m < k \<and> k < length src}"
  have "?T m \<subseteq> {i} \<times> {0..<length src} \<times> {0..<length src}" by auto
  then have fin: "finite (T \<union> ?T m)" using st(2) by (simp add: finite_subset)
  have split: "T \<union> ?T (Suc m) = (T \<union> ?T m) \<union> ?U" by (auto simp: less_Suc_eq)
  have "(T \<union> ?T m) \<inter> ?U = {}" using new by auto
  from search_ok_second [OF len Suc.IH fin this]
  show ?case unfolding split by simp
qed

abbreviation (input) triples_upto :: "nat \<Rightarrow> nat \<Rightarrow> (nat \<times> nat \<times> nat) set" where
  "triples_upto n m \<equiv> {(i, j, k). i < m \<and> i < j \<and> j < k \<and> k < n}"

lemma triples_upto_finite: "finite (triples_upto n m)"
  by (rule finite_subset [of _ "{0..<m} \<times> {0..<n} \<times> {0..<n}"]) auto

lemma triples_upto_18:
  assumes "n \<le> 18"
  shows "card (triples_upto n m) < 946"
proof -
  have "ijk \<in> set (index_triples 18)" if t: "ijk \<in> triples_upto n m" for ijk
  proof -
    obtain i j k where ijk: "ijk = (i, j, k)" "i < j" "j < k" "k < n" using t by auto
    then have "i \<in> set [0..<18 - 2]" "j \<in> set [i + 1..<18 - 1]" "k \<in> set [j + 1..<18]" using assms by auto
    then show ?thesis unfolding index_triples_def ijk(1) by force
  qed
  then have "triples_upto n m \<subseteq> set (index_triples 18)" by blast
  then have "card (triples_upto n m) \<le> length (index_triples 18)"
    using card_mono [of "set (index_triples 18)"] card_length [of "index_triples 18"] by (meson List.finite_set order_trans)
  moreover have "length (index_triples 18) = 816" by code_simp
  ultimately show ?thesis by simp
qed

lemma geometry_ok_start: "geometry_ok src tgt minimum_inliers geometry_start"
  by (simp add: geometry_ok_def geometry_start_def)

lemma geometry_ok_points:
  assumes "geometry_ok src tgt minimum_inliers g" and "length src \<le> GEOMETRY_LIMIT"
  shows "geo_inlier_count g \<le> length src"
proof (cases "geo_inlier_count g = 0")
  case False
  then have f: "geo_inliers g = map (\<lambda>i. i < length src \<and> geometry_residual (geo_transform g) (src ! i) (tgt ! i) \<noteq> None) [0..<GEOMETRY_LIMIT]"
    and c: "geo_inlier_count g = length (filter id (geo_inliers g))"
    using assms(1) by (simp_all add: geometry_ok_def)
  have "geo_inlier_count g = card {i. i < GEOMETRY_LIMIT \<and> geo_inliers g ! i}"
    unfolding c using f by (simp add: length_filter_conv_card)
  also have "\<dots> \<le> card {0..<length src}" using f by (intro card_mono) auto
  finally show ?thesis by simp
qed simp

lemma geometry_first_ok:
  assumes len: "length src = length tgt" "length src \<le> GEOMETRY_LIMIT"
    and st: "search_ok src tgt targets sources minimum_inliers strict (triples_upto (length src) i) st"
    and i: "i < length src - 2"
  shows "fst st < 0x3b2 \<Longrightarrow> search_ok src tgt targets sources minimum_inliers strict (triples_upto (length src) (i + 1))
    (geometry_first src tgt targets sources minimum_inliers strict st i)"
proof -
  let ?n = "length src"
  assume cut: "fst st < 0x3b2"
  define m where "m = ?n - 1 - (i + 1)"
  have m: "i + 1 + m = ?n - 1" using i by (simp add: m_def)
  have split: "triples_upto ?n (i + 1) = triples_upto ?n i \<union> {(i, j, k) | j k. i < j \<and> j < i + 1 + m \<and> j < k \<and> k < ?n}"
    unfolding m by (auto simp: less_Suc_eq)
  have "triples_upto ?n i \<inter> {i} \<times> UNIV = {}" by auto
  from search_ok_seconds [OF len st triples_upto_finite this, of m]
  show ?thesis unfolding split m using cut by (simp add: geometry_first_def)
qed

text \<open>Every result is sound, whether or not the search was cut short.\<close>

lemma foldl_invariant: "P s \<Longrightarrow> (\<And>s x. P s \<Longrightarrow> x \<in> set xs \<Longrightarrow> P (f s x)) \<Longrightarrow> P (foldl f s xs)"
  by (induction xs arbitrary: s) simp_all

lemma geometry_search_ok:
  assumes len: "length src = length tgt" "length src \<le> GEOMETRY_LIMIT"
  shows "geometry_ok src tgt minimum_inliers (fst (snd
    (foldl (geometry_first src tgt targets sources minimum_inliers strict) (0, geometry_start, False) is)))"
proof (rule foldl_invariant [where P = "\<lambda>st. geometry_ok src tgt minimum_inliers (fst (snd st))"])
  show "geometry_ok src tgt minimum_inliers (fst (snd (0, geometry_start, False)))"
    by (simp add: geometry_ok_start)
  have third: "geometry_ok src tgt minimum_inliers (fst (snd (geometry_third src tgt targets sources minimum_inliers strict i j st k)))"
    if "geometry_ok src tgt minimum_inliers (fst (snd st))" for i j k st
    using that geometry_candidate_ok [OF len] by (auto simp: geometry_third_def Let_def split: prod.splits)
  have second: "geometry_ok src tgt minimum_inliers (fst (snd (geometry_second src tgt targets sources minimum_inliers strict i st j)))"
    if "geometry_ok src tgt minimum_inliers (fst (snd st))" for i j st
    unfolding geometry_second_def using that
    by (auto intro!: foldl_invariant [where P = "\<lambda>st. geometry_ok src tgt minimum_inliers (fst (snd st))"] third)
  show "geometry_ok src tgt minimum_inliers (fst (snd (geometry_first src tgt targets sources minimum_inliers strict st i)))"
    if "geometry_ok src tgt minimum_inliers (fst (snd st))" for st i
    unfolding geometry_first_def using that
    by (auto intro!: foldl_invariant [where P = "\<lambda>st. geometry_ok src tgt minimum_inliers (fst (snd st))"] second)
qed

lemma estimate_geometry_ok:
  assumes "length src = length tgt"
    and "goodix_chicago_match_estimate_geometry src tgt targets sources minimum_inliers strict = Some g"
  shows "geometry_ok src tgt minimum_inliers g" "length src \<le> GEOMETRY_LIMIT"
proof -
  show len: "length src \<le> GEOMETRY_LIMIT"
    using assms(2) by (simp add: goodix_chicago_match_estimate_geometry_def split: if_splits)
  have "g = fst (snd (foldl (geometry_first src tgt targets sources minimum_inliers strict) (0, geometry_start, False) [0..<length src - 2]))"
    using assms(2) by (auto simp: goodix_chicago_match_estimate_geometry_def split: if_splits prod.splits)
  then show "geometry_ok src tgt minimum_inliers g" using geometry_search_ok [OF assms(1) len] by simp
qed

lemma geometry_search_covers:
  assumes len: "length src = length tgt" "length src \<le> 18" and "i \<le> length src - 2"
  shows "search_ok src tgt targets sources minimum_inliers strict (triples_upto (length src) i)
    (foldl (geometry_first src tgt targets sources minimum_inliers strict) (0, geometry_start, False) [0..<i])"
  using assms(3)
proof (induction i)
  case 0
  have "triples_upto (length src) 0 = {}" by auto
  moreover have "[0..<0] = []" by simp
  ultimately show ?case by (simp only: foldl_Nil) (simp add: search_ok_def geometry_ok_start)
next
  case (Suc i)
  let ?st = "foldl (geometry_first src tgt targets sources minimum_inliers strict) (0, geometry_start, False) [0..<i]"
  have st: "search_ok src tgt targets sources minimum_inliers strict (triples_upto (length src) i) ?st"
    using Suc by simp
  have "fst ?st < 0x3b2" using search_okD(1) [OF st] triples_upto_18 [OF len(2), of i] by linarith
  then have "search_ok src tgt targets sources minimum_inliers strict (triples_upto (length src) (i + 1))
      (geometry_first src tgt targets sources minimum_inliers strict ?st i)"
    using len Suc.prems by (intro geometry_first_ok [OF _ _ st]) auto
  then show ?case by simp
qed

text \<open>C35: The orientation-aware search for an affine transform reports exactly the points that its transform
  maps within tolerance and their average error, its transform is rigid and scaled and has the least
  number of inliers asked for. For at most 18 points neither the limit of attempts nor the early return
  cuts the search short: no triple of points whose edges and orientations agree gives a transform with
  more inliers, or with as many and a smaller error.\<close>

theorem geometry_search_optimal:
  assumes "length src = length tgt"
    and "goodix_chicago_match_estimate_geometry src tgt targets sources minimum_inliers strict = Some g"
  shows "geometry_ok src tgt minimum_inliers g \<and>
    (length src > 18 \<or>
     (\<forall>i j k. i < j \<longrightarrow> j < k \<longrightarrow> k < length src \<longrightarrow> eligible_triple src tgt targets sources strict (i, j, k) \<longrightarrow>
        as_good_as src tgt minimum_inliers g (triple_transform src tgt (i, j, k))))"
proof -
  let ?st = "foldl (geometry_first src tgt targets sources minimum_inliers strict) (0, geometry_start, False) [0..<length src - 2]"
  have len: "length src \<le> GEOMETRY_LIMIT" and g: "g = fst (snd ?st)"
    using assms(2) by (auto simp: goodix_chicago_match_estimate_geometry_def split: if_splits prod.splits)
  have ok: "geometry_ok src tgt minimum_inliers g" unfolding g by (rule geometry_search_ok [OF assms(1) len])
  have "as_good_as src tgt minimum_inliers g (triple_transform src tgt (i, j, k))"
    if small: "length src \<le> 18" and t: "i < j" "j < k" "k < length src" "eligible_triple src tgt targets sources strict (i, j, k)" for i j k
  proof -
    have covers: "search_ok src tgt targets sources minimum_inliers strict (triples_upto (length src) (length src - 2)) ?st"
      by (rule geometry_search_covers [OF assms(1) small]) simp
    have "geo_inlier_count g \<le> 18" using geometry_ok_points [OF ok len] small by simp
    then show ?thesis using search_okD(2) [OF covers, of "(i, j, k)"] t unfolding g by auto
  qed
  then show ?thesis using ok by (auto simp: not_less)
qed

abbreviation (input) corner_points :: "int \<Rightarrow> point list" where
  "corner_points shift \<equiv> [mk_point shift 0, mk_point (shift + 0x1000) 0, mk_point shift 0x1000]"

theorem geometry_search_optimal_witness:
  "geometry_ok (corner_points 0) (corner_points 256) 3
    (the (goodix_chicago_match_estimate_geometry (corner_points 0) (corner_points 256) [0, 0, 0] [0, 0, 0] 3 True))"
proof -
  have "goodix_chicago_match_estimate_geometry (corner_points 0) (corner_points 256) [0, 0, 0] [0, 0, 0] 3 True =
      Some (the (goodix_chicago_match_estimate_geometry (corner_points 0) (corner_points 256) [0, 0, 0] [0, 0, 0] 3 True))"
    by (simp add: goodix_chicago_match_estimate_geometry_def split: prod.splits)
  then show ?thesis using geometry_search_optimal [of "corner_points 0" "corner_points 256"] by fastforce
qed

section \<open>Filtering and refitting keep the result sound\<close>

lemma filter_flags:
  "n \<le> length ins \<Longrightarrow>
   foldl (\<lambda>ins k. if ins ! k \<and> \<not> good k then ins[k := False] else ins) ins [0..<n] =
   map (\<lambda>k. ins ! k \<and> (k < n \<longrightarrow> good k)) [0..<length ins]"
proof (induction n)
  case 0
  have "[0..<0] = []" by simp
  then show ?case by (simp only: foldl_Nil) (simp add: map_nth)
next
  case (Suc n)
  have upt: "[0..<Suc n] = [0..<n] @ [n]" by simp
  have "(let xs = map (\<lambda>k. ins ! k \<and> (k < n \<longrightarrow> good k)) [0..<length ins]
         in if xs ! n \<and> \<not> good n then xs[n := False] else xs) =
      map (\<lambda>k. ins ! k \<and> (k < Suc n \<longrightarrow> good k)) [0..<length ins]"
    using Suc.prems by (intro nth_equalityI) (auto simp: Let_def nth_list_update less_Suc_eq)
  moreover have "foldl (\<lambda>ins k. if ins ! k \<and> \<not> good k then ins[k := False] else ins) ins [0..<n] =
      map (\<lambda>k. ins ! k \<and> (k < n \<longrightarrow> good k)) [0..<length ins]"
    using Suc by simp
  ultimately show ?case
    unfolding upt foldl_append foldl_Cons foldl_Nil Let_def by (simp only:)
qed

definition rotation_agrees :: "transform \<Rightarrow> int list \<Rightarrow> int list \<Rightarrow> nat \<Rightarrow> bool" where
  "rotation_agrees t targets sources k =
     (case transform_rotation t of None \<Rightarrow> True | Some r \<Rightarrow> orientation_agrees r (targets ! k) (sources ! k))"

lemma filter_orientations_eq:
  assumes "n \<le> length ins"
  shows "goodix_chicago_match_filter_orientations t targets sources n ins =
    (let ins' = map (\<lambda>k. ins ! k \<and> (k < n \<longrightarrow> rotation_agrees t targets sources k)) [0..<length ins]
     in (ins', count_inliers ins' n))"
proof (cases "transform_rotation t")
  case None
  have "map (\<lambda>k. ins ! k \<and> (k < n \<longrightarrow> rotation_agrees t targets sources k)) [0..<length ins] = ins"
    by (simp add: rotation_agrees_def None map_nth)
  then show ?thesis by (simp add: goodix_chicago_match_filter_orientations_def None)
next
  case (Some r)
  show ?thesis
    unfolding goodix_chicago_match_filter_orientations_def Some option.case filter_flags [OF assms]
    by (simp add: rotation_agrees_def Some)
qed

text \<open>The squared residuals that a refitted transform is judged by, and their rounded average.\<close>

definition refit_residuals :: "point list \<Rightarrow> point list \<Rightarrow> transform \<Rightarrow> nat list" where
  "refit_residuals src tgt t = filter (\<lambda>r. r < 0x64000) (map2 (refined_residual t) src tgt)"

definition refit_average :: "nat list \<Rightarrow> nat" where
  "refit_average rs = (if rs = [] then 0x190000 else (sum_list rs + length rs div 2) div length rs)"

lemma refine_geometry_sound:
  assumes "goodix_chicago_match_refine_geometry src tgt inliers error_limit = Some t"
  shows "refit_average (refit_residuals src tgt t) < nat (error_limit mod 2 ^ 64)"
    "length (filter (\<lambda>k. inliers ! k) [0..<length src]) \<le> length (refit_residuals src tgt t)"
  using assms
  by (auto simp: goodix_chicago_match_refine_geometry_def Let_def refit_residuals_def refit_average_def design_rows_def
      split: if_splits)

lemma consensus_ok:
  assumes "length src = length tgt"
    and "goodix_chicago_match_estimate_geometry src tgt targets sources minimum_inliers True = Some e"
  shows "\<exists>g. goodix_chicago_match_geometry_consensus src tgt targets sources minimum_inliers = Some g \<and>
    geo_inliers g = map (\<lambda>k. geo_inliers e ! k \<and> (k < length src \<longrightarrow> rotation_agrees (geo_transform e) targets sources k)) [0..<GEOMETRY_LIMIT] \<and>
    geo_inlier_count g = card {k. k < length src \<and> geo_inliers g ! k} \<and> geo_error g = geo_error e \<and>
    (geo_transform g = geo_transform e \<or>
     geo_inlier_count g \<ge> 4 \<and> geo_error e > 0x4000 \<and>
     geo_inlier_count g \<le> length (refit_residuals src tgt (geo_transform g)) \<and>
     refit_average (refit_residuals src tgt (geo_transform g)) < nat (geo_error e mod 2 ^ 64))"
proof -
  let ?n = "length src"
  have ok: "geometry_ok src tgt minimum_inliers e" by (rule estimate_geometry_ok(1) [OF assms])
  have n: "?n \<le> GEOMETRY_LIMIT" by (rule estimate_geometry_ok(2) [OF assms])
  have len: "length (geo_inliers e) = GEOMETRY_LIMIT" using ok unfolding geometry_ok_def by (elim conjE)
  define ins where "ins = map (\<lambda>k. geo_inliers e ! k \<and> (k < ?n \<longrightarrow> rotation_agrees (geo_transform e) targets sources k)) [0..<GEOMETRY_LIMIT]"
  have filtered: "goodix_chicago_match_filter_orientations (geo_transform e) targets sources ?n (geo_inliers e) =
      (ins, count_inliers ins ?n)"
    using filter_orientations_eq [of ?n "geo_inliers e"] n by (simp add: ins_def len Let_def)
  have count: "count_inliers ins ?n = card {k. k < ?n \<and> ins ! k}"
  proof -
    have "{k. k < ?n \<and> ins ! k} = set (filter (\<lambda>k. ins ! k) [0..<?n])" by auto
    then show ?thesis unfolding count_inliers_def by (metis distinct_card distinct_filter distinct_upt)
  qed
  let ?r = "e\<lparr> geo_inliers := ins, geo_inlier_count := count_inliers ins ?n \<rparr>"
  let ?refine = "goodix_chicago_match_refine_geometry src tgt ins (geo_error e)"
  define g where "g = (if count_inliers ins ?n \<ge> 4 \<and> geo_error e > 0x4000
      then case ?refine of None \<Rightarrow> ?r | Some t \<Rightarrow> ?r\<lparr> geo_transform := t \<rparr> else ?r)"
  have result: "goodix_chicago_match_geometry_consensus src tgt targets sources minimum_inliers = Some g"
    unfolding goodix_chicago_match_geometry_consensus_def assms(2) option.map filtered g_def
    by (simp add: Let_def cong: if_cong)
  have parts: "geo_inliers g = ins" "geo_inlier_count g = count_inliers ins ?n" "geo_error g = geo_error e"
    by (simp_all add: g_def split: option.split)
  have "geo_transform g = geo_transform e \<or>
      count_inliers ins ?n \<ge> 4 \<and> geo_error e > 0x4000 \<and>
      count_inliers ins ?n \<le> length (refit_residuals src tgt (geo_transform g)) \<and>
      refit_average (refit_residuals src tgt (geo_transform g)) < nat (geo_error e mod 2 ^ 64)"
  proof (cases "count_inliers ins ?n \<ge> 4 \<and> geo_error e > 0x4000 \<and> ?refine \<noteq> None")
    case True
    then obtain t where t: "?refine = Some t" by blast
    then have "geo_transform g = t" using True by (simp add: g_def)
    then show ?thesis using refine_geometry_sound [OF t] True by (simp add: count_inliers_def)
  qed (auto simp: g_def)
  note transform = this
  show ?thesis
  proof (intro exI [of _ g] conjI)
    show "goodix_chicago_match_geometry_consensus src tgt targets sources minimum_inliers = Some g" by (rule result)
    show "geo_inliers g = map (\<lambda>k. geo_inliers e ! k \<and> (k < ?n \<longrightarrow> rotation_agrees (geo_transform e) targets sources k)) [0..<GEOMETRY_LIMIT]"
      unfolding parts(1) ins_def ..
    show "geo_inlier_count g = card {k. k < ?n \<and> geo_inliers g ! k}" unfolding parts(1,2) by (rule count)
    show "geo_error g = geo_error e" by (rule parts(3))
  qed (use transform in \<open>simp only: parts(2)\<close>)
qed

text \<open>C36: The consensus keeps of the inliers of the search exactly those whose orientations agree with the
  rotation of the transform, and counts them. The transform is the one of the search, unless four
  inliers are left at an error above 64 square units: then it may be the least-squares refit, which has at
  least as many inliers and a smaller error.\<close>

theorem geometry_consensus_sound:
  assumes "length src = length tgt"
    and "goodix_chicago_match_estimate_geometry src tgt targets sources minimum_inliers True = Some e"
  shows "\<exists>g. goodix_chicago_match_geometry_consensus src tgt targets sources minimum_inliers = Some g \<and>
    geo_inliers g = map (\<lambda>k. geo_inliers e ! k \<and> (k < length src \<longrightarrow> rotation_agrees (geo_transform e) targets sources k)) [0..<GEOMETRY_LIMIT] \<and>
    geo_inlier_count g = card {k. k < length src \<and> geo_inliers g ! k} \<and> geo_error g = geo_error e \<and>
    (geo_transform g = geo_transform e \<or>
     geo_inlier_count g \<ge> 4 \<and> geo_error e > 0x4000 \<and>
     geo_inlier_count g \<le> length (refit_residuals src tgt (geo_transform g)) \<and>
     refit_average (refit_residuals src tgt (geo_transform g)) < nat (geo_error e mod 2 ^ 64))"
  by (rule consensus_ok [OF assms])

theorem geometry_consensus_sound_witness:
  "\<exists>g. goodix_chicago_match_geometry_consensus (corner_points 0) (corner_points 256) [0, 0, 0] [0, 0, 0] 3 = Some g \<and>
    geo_inlier_count g = card {k. k < 3 \<and> geo_inliers g ! k}"
proof -
  have e: "goodix_chicago_match_estimate_geometry (corner_points 0) (corner_points 256) [0, 0, 0] [0, 0, 0] 3 True =
      Some (the (goodix_chicago_match_estimate_geometry (corner_points 0) (corner_points 256) [0, 0, 0] [0, 0, 0] 3 True))"
    by (simp add: goodix_chicago_match_estimate_geometry_def split: prod.splits)
  have len: "length (corner_points 0) = length (corner_points 256)" "length (corner_points 0) = 3" by simp_all
  show ?thesis
  proof (rule geometry_consensus_sound [OF len(1) e, unfolded len(2), THEN exE], elim conjE)
    fix g assume "goodix_chicago_match_geometry_consensus (corner_points 0) (corner_points 256) [0, 0, 0] [0, 0, 0] 3 = Some g"
      "geo_inlier_count g = card {k. k < 3 \<and> geo_inliers g ! k}"
    then show ?thesis by (intro exI [of _ g] conjI)
  qed
qed

end
