(* ===== verification/Chicago_Correspondence.thy ===== *)
theory Chicago_Correspondence
  imports Chicago_Geometry
begin

text \<open>
  Matching the feature records of a gallery sample and a probe in goodix-chicago-match.c: the
  gated descriptor distances, the best and the second best candidate of every record, the ratio
  and uniqueness filters, and the ordinary and fallback correspondences. An index of \<open>-1\<close> in a
  candidate is \<open>None\<close>; pairs keep it as an integer.
\<close>

declare upt_rec_numeral [simp del]

section \<open>Candidates\<close>

abbreviation (input) MATRIX_STRIDE :: nat where "MATRIX_STRIDE \<equiv> 180"

abbreviation (input) PAIR_LIMIT :: nat where "PAIR_LIMIT \<equiv> 31"

record match_candidate =
  mc_best_distance :: nat
  mc_second_distance :: nat
  mc_best_index :: "nat option"
  mc_second_index :: "nat option"

record candidate_config =
  old_begin :: nat
  old_end :: nat
  new_begin :: nat
  new_end :: nat
  first_half_gate :: nat
  combined_gate :: nat

definition goodix_chicago_match_init_candidates :: "nat \<Rightarrow> match_candidate list" where
  "goodix_chicago_match_init_candidates count = replicate count
     \<lparr> mc_best_distance = 192, mc_second_distance = 192, mc_best_index = None, mc_second_index = None \<rparr>"

text \<open>The distance of two records and whether the straight order gave it; \<open>None\<close> behind a gate.\<close>

definition gated_distance :: "feature_record \<Rightarrow> feature_record \<Rightarrow> nat \<Rightarrow> nat \<Rightarrow> (nat \<times> bool) option" where
  "gated_distance old new fhg cg =
     (let distance_at = (\<lambda>a b words. hamming_words (record_at old a) (record_at new b) words);
          first = distance_at 0x10 0x10 2
      in if first > fhg then None
         else
           let straight = first + distance_at 0x18 0x18 2;
               shifted = first + 64 - distance_at 0x18 0x18 2
           in if straight > cg \<and> shifted > cg then None
              else
                let straight' = straight + (if straight > cg then 192 else distance_at 0x20 0x20 1 + distance_at 0x28 0x28 1);
                    shifted' = shifted + (if shifted > cg then 192 else distance_at 0x20 0x24 1 + distance_at 0x28 0x30 1)
                in Some (min straight' shifted', straight' < shifted'))"

text \<open>Entering a distance into the two best of a candidate, for rows and columns alike.\<close>

definition improve_candidate :: "match_candidate \<Rightarrow> nat \<Rightarrow> nat \<Rightarrow> match_candidate" where
  "improve_candidate c index distance =
     (if distance < mc_best_distance c
      then c\<lparr> mc_second_distance := mc_best_distance c, mc_second_index := mc_best_index c,
              mc_best_distance := distance, mc_best_index := Some index \<rparr>
      else if distance < mc_second_distance c
      then c\<lparr> mc_second_distance := distance, mc_second_index := Some index \<rparr>
      else c)"

text \<open>The candidates with the distance and the direction matrix, both of row stride 180.\<close>

type_synonym match_tables = "match_candidate list \<times> bytes \<times> bytes"

definition candidate_step ::
    "feature_record list \<Rightarrow> feature_record list \<Rightarrow> nat \<Rightarrow> nat \<Rightarrow> match_tables \<Rightarrow> nat \<times> nat \<Rightarrow> match_tables" where
  "candidate_step olds news fhg cg tables ij =
     (case (tables, ij) of ((candidates, distances, directions), (i, j)) \<Rightarrow>
       case gated_distance (olds ! i) (news ! j) fhg cg of
         None \<Rightarrow> tables
       | Some (distance, straight) \<Rightarrow>
           (candidates[i := improve_candidate (candidates ! i) j distance],
            distances[i * MATRIX_STRIDE + j := of_nat distance],
            directions[i * MATRIX_STRIDE + j := (if straight then 1 else 0)]))"

definition index_pairs :: "nat \<Rightarrow> nat \<Rightarrow> nat \<Rightarrow> nat \<Rightarrow> (nat \<times> nat) list" where
  "index_pairs a b c d = [(i, j). i \<leftarrow> [a..<b], j \<leftarrow> [c..<d]]"

definition goodix_chicago_match_update_candidates ::
    "feature_record list \<Rightarrow> feature_record list \<Rightarrow> candidate_config \<Rightarrow> match_tables \<Rightarrow> match_tables" where
  "goodix_chicago_match_update_candidates olds news config tables =
     (if \<not> old_begin config \<le> old_end config \<or> \<not> new_begin config \<le> new_end config \<or> \<not> new_end config \<le> MATRIX_STRIDE
      then tables
      else foldl (candidate_step olds news (first_half_gate config) (combined_gate config)) tables
             (index_pairs (old_begin config) (old_end config) (new_begin config) (new_end config)))"

section \<open>Selection\<close>

text \<open>The scan over the selected candidates is the one of the enrollment correspondences; here the
  number of selected candidates is bounded by a parameter.\<close>

definition match_admit :: "nat \<Rightarrow> feature_record list \<Rightarrow> candidate \<Rightarrow> candidate list \<Rightarrow> candidate list" where
  "match_admit limit news c selected =
     (case scan_selected news c 0 False selected of
        Scan_next_old \<Rightarrow> selected
      | Scan_replaced selected' \<Rightarrow> selected'
      | Scan_free selected' \<Rightarrow>
          if length selected' < limit then selected' @ [c]
          else let w = worst_index selected'
               in if best_distance c < best_distance (selected' ! w) then selected'[w := c] else selected')"

definition select_step ::
    "nat \<Rightarrow> nat \<Rightarrow> nat \<Rightarrow> feature_record list \<Rightarrow> match_candidate list \<Rightarrow> candidate list \<Rightarrow> nat \<Rightarrow> candidate list" where
  "select_step limit best_multiplier second_multiplier news candidates selected k =
     (let c = candidates ! k in
      case mc_best_index c of
        None \<Rightarrow> selected
      | Some j \<Rightarrow>
          if mc_best_distance c * best_multiplier \<ge> mc_second_distance c * second_multiplier then selected
          else match_admit limit news
                 \<lparr> old_index = k, new_index = j, best_distance = mc_best_distance c,
                   second_distance = mc_second_distance c \<rparr> selected)"

definition match_selected ::
    "feature_record list \<Rightarrow> match_candidate list \<Rightarrow> nat \<Rightarrow> nat \<Rightarrow> nat \<Rightarrow> candidate list" where
  "match_selected news candidates limit best_multiplier second_multiplier =
     foldl (select_step limit best_multiplier second_multiplier news candidates) [] [0..<length candidates]"

text \<open>An array without elements is the null pointer, as GLib allocates it. \<open>None\<close> is the early return for
  null pointers, with result 0 and the pairs unset.\<close>

definition goodix_chicago_match_select_candidates ::
    "feature_record list \<Rightarrow> match_candidate list \<Rightarrow> nat \<Rightarrow> nat \<Rightarrow> nat \<Rightarrow> ((int \<times> int) list \<times> nat) option" where
  "goodix_chicago_match_select_candidates news candidates limit best_multiplier second_multiplier =
     (if news = [] \<or> candidates = [] then None
      else if limit = 0 then Some ([], 0)
      else let selected = match_selected news candidates limit best_multiplier second_multiplier
           in Some (map (\<lambda>k. if k < length selected
                        then (int (old_index (selected ! k)), int (new_index (selected ! k))) else (-1, -1)) [0..<limit],
               length selected))"

section \<open>Correspondences\<close>

text \<open>Both partitions of the records are matched separately; \<open>None\<close> for the early return of the argument
  checks, which leaves the pairs unset. When the selection of the fallback returns early, the code copies
  the pairs it has not set; that result is \<open>None\<close> too.\<close>

definition match_tables_of ::
    "feature_record list \<Rightarrow> nat \<Rightarrow> feature_record list \<Rightarrow> nat \<Rightarrow> nat \<Rightarrow> nat \<Rightarrow> match_tables" where
  "match_tables_of gallery gallery_split probes probe_split fhg cg =
     (let n = max (length gallery * MATRIX_STRIDE) 1;
          tables = (goodix_chicago_match_init_candidates (length gallery), replicate n 0xff, replicate n 0);
          config = \<lparr> old_begin = 0, old_end = gallery_split, new_begin = 0, new_end = probe_split,
                     first_half_gate = fhg, combined_gate = cg \<rparr>;
          tables1 = goodix_chicago_match_update_candidates gallery probes config tables;
          config1 = \<lparr> old_begin = gallery_split, old_end = length gallery, new_begin = probe_split,
                      new_end = length probes, first_half_gate = fhg, combined_gate = cg \<rparr>
      in goodix_chicago_match_update_candidates gallery probes config1 tables1)"

definition correspondence_arguments_ok :: "feature_record list \<Rightarrow> nat \<Rightarrow> feature_record list \<Rightarrow> nat \<Rightarrow> bool" where
  "correspondence_arguments_ok gallery gallery_split probes probe_split \<longleftrightarrow>
     length gallery \<le> MATRIX_STRIDE \<and> length probes \<le> MATRIX_STRIDE \<and>
     gallery_split \<le> length gallery \<and> probe_split \<le> length probes"

definition ordinary_correspondences_with_gates ::
    "feature_record list \<Rightarrow> nat \<Rightarrow> feature_record list \<Rightarrow> nat \<Rightarrow> nat \<Rightarrow> nat \<Rightarrow> ((int \<times> int) list \<times> nat) option" where
  "ordinary_correspondences_with_gates gallery gallery_split probes probe_split fhg cg =
     (if \<not> correspondence_arguments_ok gallery gallery_split probes probe_split then None
      else case match_tables_of gallery gallery_split probes probe_split fhg cg of (candidates, distances, directions) \<Rightarrow>
        goodix_chicago_match_select_candidates probes candidates PAIR_LIMIT 40 38)"

definition goodix_chicago_match_ordinary_correspondences ::
    "feature_record list \<Rightarrow> nat \<Rightarrow> feature_record list \<Rightarrow> nat \<Rightarrow> ((int \<times> int) list \<times> nat) option" where
  "goodix_chicago_match_ordinary_correspondences gallery gallery_split probes probe_split =
     ordinary_correspondences_with_gates gallery gallery_split probes probe_split 23 47"

definition update_column_candidate :: "bytes \<Rightarrow> match_candidate list \<Rightarrow> nat \<times> nat \<Rightarrow> match_candidate list" where
  "update_column_candidate distances columns ij =
     (case ij of (i, j) \<Rightarrow> columns[j := improve_candidate (columns ! j) i (unat (distances ! (i * MATRIX_STRIDE + j)))])"

definition column_candidates :: "nat \<Rightarrow> nat \<Rightarrow> nat \<Rightarrow> nat \<Rightarrow> bytes \<Rightarrow> match_candidate list" where
  "column_candidates gallery_count gallery_split probe_count probe_split distances =
     foldl (update_column_candidate distances) (goodix_chicago_match_init_candidates probe_count)
       (index_pairs 0 gallery_split 0 probe_split @ index_pairs gallery_split gallery_count probe_split probe_count)"

definition goodix_chicago_match_fallback_correspondences ::
    "feature_record list \<Rightarrow> nat \<Rightarrow> feature_record list \<Rightarrow> nat \<Rightarrow> ((int \<times> int) list \<times> nat) option" where
  "goodix_chicago_match_fallback_correspondences gallery gallery_split probes probe_split =
     (if \<not> correspondence_arguments_ok gallery gallery_split probes probe_split then None
      else case match_tables_of gallery gallery_split probes probe_split 23 47 of (rows, distances, directions) \<Rightarrow>
        let columns = column_candidates (length gallery) gallery_split (length probes) probe_split distances
        in map_option (\<lambda>(pairs, selected_count). (map (\<lambda>(i, j). (j, i)) pairs, selected_count))
             (goodix_chicago_match_select_candidates gallery columns PAIR_LIMIT 40 38))"

section \<open>What the tables hold\<close>

text \<open>The candidate after the positions \<open>J\<close> have been compared, at distances \<open>D\<close>.\<close>

definition two_best :: "(nat \<Rightarrow> nat option) \<Rightarrow> nat set \<Rightarrow> match_candidate \<Rightarrow> bool" where
  "two_best D J c \<longleftrightarrow>
     mc_best_distance c \<le> mc_second_distance c \<and> mc_second_distance c \<le> 192 \<and>
     (case mc_best_index c of None \<Rightarrow> mc_best_distance c = 192 | Some j \<Rightarrow> j \<in> J \<and> D j = Some (mc_best_distance c)) \<and>
     (\<forall>k \<in> J. \<forall>d. D k = Some d \<longrightarrow> mc_best_index c \<noteq> Some k \<longrightarrow> mc_second_distance c \<le> d)"

lemma two_best_init: "two_best D {} \<lparr> mc_best_distance = 192, mc_second_distance = 192, mc_best_index = None, mc_second_index = None \<rparr>"
  by (simp add: two_best_def)

lemma two_best_skip: "two_best D J c \<Longrightarrow> (\<And>d. D j = Some d \<Longrightarrow> 192 \<le> d) \<Longrightarrow> two_best D (insert j J) c"
proof -
  assume t: "two_best D J c" and far: "\<And>d. D j = Some d \<Longrightarrow> 192 \<le> d"
  have "mc_second_distance c \<le> 192" using t by (simp add: two_best_def)
  then have "mc_second_distance c \<le> d" if "D j = Some d" for d using far [OF that] by linarith
  then show ?thesis using t by (auto simp: two_best_def split: option.splits)
qed

lemma two_best_improve:
  assumes "two_best D J c" and "D j = Some d"
  shows "two_best D (insert j J) (improve_candidate c j d)"
proof -
  have t: "mc_best_distance c \<le> mc_second_distance c" "mc_second_distance c \<le> 192"
    "case mc_best_index c of None \<Rightarrow> mc_best_distance c = 192 | Some j \<Rightarrow> j \<in> J \<and> D j = Some (mc_best_distance c)"
    "\<And>k d. k \<in> J \<Longrightarrow> D k = Some d \<Longrightarrow> mc_best_index c \<noteq> Some k \<Longrightarrow> mc_second_distance c \<le> d"
    using assms(1) by (auto simp: two_best_def)
  consider (nearest) "d < mc_best_distance c" | (second) "\<not> d < mc_best_distance c" "d < mc_second_distance c"
    | (far) "\<not> d < mc_best_distance c" "\<not> d < mc_second_distance c" by blast
  then show ?thesis
  proof cases
    case nearest
    have "mc_best_distance c \<le> e" if k: "k \<in> J" "D k = Some e" for k e
    proof (cases "mc_best_index c = Some k")
      case False
      then show ?thesis using t(4) [OF k False] t(1) by linarith
    qed (use t(3) k in simp)
    then show ?thesis
      using nearest t(1,2) assms(2) by (simp add: two_best_def improve_candidate_def)
  next
    case second
    have "d \<le> e" if "k \<in> J" "D k = Some e" "mc_best_index c \<noteq> Some k" for k e
      using t(4) [OF that] second by linarith
    then show ?thesis
      using second t(2,3) assms(2) by (auto simp: two_best_def improve_candidate_def split: option.splits)
  next
    case far
    then show ?thesis
      using t assms(2) by (auto simp: two_best_def improve_candidate_def split: option.splits)
  qed
qed

lemma popcount_bound: "popcount bs \<le> 8 * length bs"
proof (induction bs)
  case (Cons b bs)
  have "length (filter (bit b) [0..<8]) \<le> 8" using length_filter_le [of "bit b" "[0..<8]"] by simp
  then show ?case using Cons by (simp add: popcount_def)
qed (simp add: popcount_def)

lemma hamming_words_bound: "hamming_words a b words \<le> 32 * words"
proof -
  have "length (map2 (XOR) (take (words * 4) a) (take (words * 4) b)) \<le> words * 4" by simp
  then show ?thesis
    using popcount_bound [of "map2 (XOR) (take (words * 4) a) (take (words * 4) b)"]
    unfolding hamming_words_def by linarith
qed

lemma gated_distance_bound: "gated_distance old new fhg cg = Some (d, straight) \<Longrightarrow> d \<le> cg + 96"
  using hamming_words_bound [of "record_at old 32" "record_at new 32" 1] hamming_words_bound [of "record_at old 40" "record_at new 40" 1]
    hamming_words_bound [of "record_at old 32" "record_at new 36" 1] hamming_words_bound [of "record_at old 40" "record_at new 48" 1]
  by (auto simp: gated_distance_def Let_def split: if_splits)

text \<open>The distance two records are matched by, at the gates of the ordinary search.\<close>

definition record_distance :: "feature_record list \<Rightarrow> feature_record list \<Rightarrow> nat \<Rightarrow> nat \<Rightarrow> nat option" where
  "record_distance gallery probes i j = map_option fst (gated_distance (gallery ! i) (probes ! j) 23 47)"

lemma record_distance_bound: "record_distance gallery probes i j = Some d \<Longrightarrow> d < 192"
  using gated_distance_bound [of "gallery ! i" "probes ! j" 23 47] by (auto simp: record_distance_def)

definition row_spec :: "feature_record list \<Rightarrow> feature_record list \<Rightarrow> (nat \<times> nat) set \<Rightarrow> match_tables \<Rightarrow> bool" where
  "row_spec gallery probes P tables \<longleftrightarrow>
     (case tables of (candidates, distances, directions) \<Rightarrow>
       length candidates = length gallery \<and> length distances \<ge> length gallery * MATRIX_STRIDE \<and>
       (\<forall>i < length gallery. two_best (record_distance gallery probes i) {j. (i, j) \<in> P} (candidates ! i) \<and>
          (\<forall>j < MATRIX_STRIDE. distances ! (i * MATRIX_STRIDE + j) =
             (if (i, j) \<in> P then case record_distance gallery probes i j of None \<Rightarrow> 0xff | Some d \<Rightarrow> of_nat d else 0xff))))"

lemma matrix_index_inj:
  assumes "j < MATRIX_STRIDE" and "j' < MATRIX_STRIDE"
  shows "i * MATRIX_STRIDE + j = i' * MATRIX_STRIDE + j' \<longleftrightarrow> i = i' \<and> j = j'"
proof
  assume eq: "i * MATRIX_STRIDE + j = i' * MATRIX_STRIDE + j'"
  have "(i * 180 + j) div 180 = i" "(i' * 180 + j') div 180 = i'" using assms by simp_all
  with eq show "i = i' \<and> j = j'" by (metis add_left_cancel)
qed simp

lemma matrix_index_bound:
  assumes "i < n" and "j < MATRIX_STRIDE"
  shows "i * MATRIX_STRIDE + j < n * MATRIX_STRIDE"
proof -
  have "(i + 1) * 180 \<le> n * (180 :: nat)" using assms(1) by (intro mult_le_mono1) simp
  then show ?thesis using assms(2) by simp
qed

lemma row_spec_step:
  assumes r: "row_spec gallery probes P tables" and ij: "fst ij < length gallery" "snd ij < MATRIX_STRIDE"
  shows "row_spec gallery probes (insert ij P) (candidate_step gallery probes 23 47 tables ij)"
proof -
  obtain candidates distances directions i j where t: "tables = (candidates, distances, directions)" "ij = (i, j)"
    by (cases tables, cases ij)
  have cols: "{k. (a, k) \<in> insert ij P} = (if a = i then insert j {k. (a, k) \<in> P} else {k. (a, k) \<in> P})" for a
    by (auto simp: t)
  show ?thesis
  proof (cases "gated_distance (gallery ! i) (probes ! j) 23 47")
    case None
    have none: "record_distance gallery probes i j = None" by (simp add: record_distance_def None)
    have "two_best (record_distance gallery probes a) {k. (a, k) \<in> insert ij P} (candidates ! a)" if "a < length gallery" for a
    proof -
      have "two_best (record_distance gallery probes a) {k. (a, k) \<in> P} (candidates ! a)"
        using r that by (simp add: t row_spec_def)
      then show ?thesis unfolding cols using none by (cases "a = i") (auto intro!: two_best_skip)
    qed
    then show ?thesis using r none
      by (auto simp: t candidate_step_def None row_spec_def split: if_splits)
  next
    case (Some ds)
    obtain d straight where ds: "ds = (d, straight)" by (cases ds)
    have some: "record_distance gallery probes i j = Some d" by (simp add: record_distance_def Some ds)
    have len: "length candidates = length gallery" "length gallery * MATRIX_STRIDE \<le> length distances"
      using r by (simp_all add: t row_spec_def)
    have at: "a * MATRIX_STRIDE + b < length distances" if "a < length gallery" "b < MATRIX_STRIDE" for a b
      using matrix_index_bound [OF that] len(2) by linarith
    have "two_best (record_distance gallery probes a) {k. (a, k) \<in> insert ij P}
        (candidates[i := improve_candidate (candidates ! i) j d] ! a)" if "a < length gallery" for a
    proof -
      have "two_best (record_distance gallery probes a) {k. (a, k) \<in> P} (candidates ! a)"
        using r that by (simp add: t row_spec_def)
      then show ?thesis
        unfolding cols using some len(1) that by (cases "a = i") (auto intro!: two_best_improve)
    qed
    moreover have "(distances[i * MATRIX_STRIDE + j := of_nat d]) ! (a * MATRIX_STRIDE + b) =
        (if (a, b) \<in> insert ij P then case record_distance gallery probes a b of None \<Rightarrow> 0xff | Some d \<Rightarrow> of_nat d else 0xff)"
      if "a < length gallery" "b < MATRIX_STRIDE" for a b
    proof (cases "a = i \<and> b = j")
      case True
      then show ?thesis using at [OF that] some by (simp add: t)
    next
      case False
      then have "i * MATRIX_STRIDE + j \<noteq> a * MATRIX_STRIDE + b"
        using matrix_index_inj [OF that(2), of j a i] ij(2) by (auto simp: t)
      moreover have "((a, b) \<in> insert ij P) = ((a, b) \<in> P)" using False by (auto simp: t)
      moreover have "distances ! (a * MATRIX_STRIDE + b) =
          (if (a, b) \<in> P then case record_distance gallery probes a b of None \<Rightarrow> 0xff | Some d \<Rightarrow> of_nat d else 0xff)"
        using r that by (simp add: t row_spec_def)
      ultimately show ?thesis by simp
    qed
    ultimately show ?thesis using len by (simp add: t candidate_step_def Some ds row_spec_def)
  qed
qed

lemma row_spec_foldl:
  "row_spec gallery probes P tables \<Longrightarrow> set ps \<subseteq> {0..<length gallery} \<times> {0..<MATRIX_STRIDE} \<Longrightarrow>
   row_spec gallery probes (P \<union> set ps) (foldl (candidate_step gallery probes 23 47) tables ps)"
proof (induction ps arbitrary: P tables)
  case (Cons ij ps)
  have "row_spec gallery probes (insert ij P) (candidate_step gallery probes 23 47 tables ij)"
    using Cons.prems by (intro row_spec_step) auto
  from Cons.IH [OF this] show ?case using Cons.prems(2) by simp
qed simp

lemma set_index_pairs [simp]: "set (index_pairs a b c d) = {a..<b} \<times> {c..<d}"
  by (auto simp: index_pairs_def)

text \<open>The positions of one partition of the records.\<close>

definition partition_pairs :: "nat \<Rightarrow> nat \<Rightarrow> nat \<Rightarrow> nat \<Rightarrow> (nat \<times> nat) set" where
  "partition_pairs n gallery_split p probe_split =
     {(i, j). i < n \<and> j < p \<and> (i < gallery_split \<longleftrightarrow> j < probe_split)}"

lemma partition_pairs_ranges:
  "gs \<le> n \<Longrightarrow> ps \<le> p \<Longrightarrow> {0..<gs} \<times> {0..<ps} \<union> {gs..<n} \<times> {ps..<p} = partition_pairs n gs p ps"
  by (auto simp: partition_pairs_def)

lemma match_tables_spec:
  assumes "correspondence_arguments_ok gallery gs probes ps"
  shows "row_spec gallery probes (partition_pairs (length gallery) gs (length probes) ps)
    (match_tables_of gallery gs probes ps 23 47)"
proof -
  let ?n = "length gallery" and ?p = "length probes"
  have ok: "?n \<le> MATRIX_STRIDE" "?p \<le> MATRIX_STRIDE" "gs \<le> ?n" "ps \<le> ?p"
    using assms by (simp_all add: correspondence_arguments_ok_def)
  let ?start = "(goodix_chicago_match_init_candidates ?n, replicate (max (?n * MATRIX_STRIDE) 1) 0xff,
      replicate (max (?n * MATRIX_STRIDE) 1) 0) :: match_tables"
  have at: "i * MATRIX_STRIDE + j < max (?n * MATRIX_STRIDE) 1" if "i < ?n" "j < MATRIX_STRIDE" for i j
    using matrix_index_bound [OF that] by simp
  have "row_spec gallery probes {} ?start"
    using at by (simp add: row_spec_def goodix_chicago_match_init_candidates_def two_best_init)
  moreover have "set (index_pairs 0 gs 0 ps @ index_pairs gs ?n ps ?p) = partition_pairs ?n gs ?p ps"
    by (simp add: partition_pairs_ranges [OF ok(3,4)])
  moreover have "partition_pairs ?n gs ?p ps \<subseteq> {0..<?n} \<times> {0..<MATRIX_STRIDE}"
    using ok(2) by (auto simp: partition_pairs_def)
  ultimately have "row_spec gallery probes (partition_pairs ?n gs ?p ps)
      (foldl (candidate_step gallery probes 23 47) ?start (index_pairs 0 gs 0 ps @ index_pairs gs ?n ps ?p))"
    using row_spec_foldl [of gallery probes "{}" ?start "index_pairs 0 gs 0 ps @ index_pairs gs ?n ps ?p"] by simp
  then show ?thesis using ok
    by (simp add: match_tables_of_def Let_def goodix_chicago_match_update_candidates_def)
qed

lemma column_step_spec:
  assumes "\<forall>j < length columns. two_best (\<lambda>i. E i j) {i. (i, j) \<in> P} (columns ! j)"
    and "case E (fst ij) (snd ij) of None \<Rightarrow> distances ! (fst ij * MATRIX_STRIDE + snd ij) = 0xff
         | Some d \<Rightarrow> d < 192 \<and> distances ! (fst ij * MATRIX_STRIDE + snd ij) = of_nat d"
  shows "\<forall>j < length columns.
    two_best (\<lambda>i. E i j) {i. (i, j) \<in> insert ij P} (update_column_candidate distances columns ij ! j)"
proof (intro allI impI)
  fix k assume k: "k < length columns"
  obtain i j where ij: "ij = (i, j)" by (cases ij)
  have rows: "{a. (a, k) \<in> insert ij P} = (if k = j then insert i {a. (a, k) \<in> P} else {a. (a, k) \<in> P})"
    by (auto simp: ij)
  have old: "two_best (\<lambda>i. E i k) {a. (a, k) \<in> P} (columns ! k)" using assms(1) k by simp
  show "two_best (\<lambda>i. E i k) {a. (a, k) \<in> insert ij P} (update_column_candidate distances columns ij ! k)"
  proof (cases "k = j")
    case False
    then show ?thesis using old by (simp add: rows) (simp add: ij update_column_candidate_def)
  next
    case True
    show ?thesis
    proof (cases "E i j")
      case None
      have "improve_candidate (columns ! k) i 255 = columns ! k"
        using old by (simp add: two_best_def improve_candidate_def)
      then have "update_column_candidate distances columns ij ! k = columns ! k"
        using assms(2) None k True by (simp add: ij update_column_candidate_def)
      then show ?thesis using old None True unfolding rows by (auto intro!: two_best_skip)
    next
      case (Some d)
      have "unat (of_nat d :: 8 word) = d" using assms(2) Some by (simp add: ij unat_of_nat)
      then have "update_column_candidate distances columns ij ! k = improve_candidate (columns ! k) i d"
        using assms(2) Some k True by (simp add: ij update_column_candidate_def)
      then show ?thesis using old Some True unfolding rows by (auto intro!: two_best_improve)
    qed
  qed
qed

lemma length_update_column [simp]: "length (update_column_candidate distances columns ij) = length columns"
  by (simp add: update_column_candidate_def split: prod.splits)

lemma column_foldl_spec:
  assumes "\<And>i j. (i, j) \<in> set ps \<Longrightarrow> case E i j of None \<Rightarrow> distances ! (i * MATRIX_STRIDE + j) = 0xff
         | Some d \<Rightarrow> d < 192 \<and> distances ! (i * MATRIX_STRIDE + j) = of_nat d"
    and "\<forall>j < length columns. two_best (\<lambda>i. E i j) {i. (i, j) \<in> P} (columns ! j)"
  shows "length (foldl (update_column_candidate distances) columns ps) = length columns \<and>
    (\<forall>j < length columns. two_best (\<lambda>i. E i j) {i. (i, j) \<in> P \<union> set ps} (foldl (update_column_candidate distances) columns ps ! j))"
  using assms
proof (induction ps arbitrary: columns P)
  case (Cons ij ps)
  have "\<forall>j < length columns.
      two_best (\<lambda>i. E i j) {i. (i, j) \<in> insert ij P} (update_column_candidate distances columns ij ! j)"
    using Cons.prems(1) [of "fst ij" "snd ij"] by (intro column_step_spec [OF Cons.prems(2)]) simp
  with Cons.IH [of "update_column_candidate distances columns ij" "insert ij P"] Cons.prems(1)
  show ?case by simp
qed simp

lemma columns_spec:
  assumes ok: "correspondence_arguments_ok gallery gs probes ps"
    and t: "match_tables_of gallery gs probes ps 23 47 = (rows, distances, directions)"
  shows "length (column_candidates (length gallery) gs (length probes) ps distances) = length probes"
    "j < length probes \<Longrightarrow> two_best (\<lambda>i. record_distance gallery probes i j)
       {i. (i, j) \<in> partition_pairs (length gallery) gs (length probes) ps}
       (column_candidates (length gallery) gs (length probes) ps distances ! j)"
proof -
  let ?n = "length gallery" and ?p = "length probes"
  let ?ps = "index_pairs 0 gs 0 ps @ index_pairs gs ?n ps ?p"
  let ?start = "goodix_chicago_match_init_candidates ?p"
  have ranges: "?n \<le> MATRIX_STRIDE" "?p \<le> MATRIX_STRIDE" "gs \<le> ?n" "ps \<le> ?p"
    using ok by (simp_all add: correspondence_arguments_ok_def)
  have s: "set ?ps = partition_pairs ?n gs ?p ps" by (simp add: partition_pairs_ranges [OF ranges(3,4)])
  have matrix: "distances ! (i * MATRIX_STRIDE + j) =
      (if (i, j) \<in> partition_pairs ?n gs ?p ps
       then case record_distance gallery probes i j of None \<Rightarrow> 0xff | Some d \<Rightarrow> of_nat d else 0xff)"
    if "i < ?n" "j < MATRIX_STRIDE" for i j
    using match_tables_spec [OF ok] that by (simp add: t row_spec_def)
  have cells: "case record_distance gallery probes i j of None \<Rightarrow> distances ! (i * MATRIX_STRIDE + j) = 0xff
      | Some d \<Rightarrow> d < 192 \<and> distances ! (i * MATRIX_STRIDE + j) = of_nat d" if "(i, j) \<in> set ?ps" for i j
  proof -
    have ij: "(i, j) \<in> partition_pairs ?n gs ?p ps" using that unfolding s .
    then have "i < ?n" "j < MATRIX_STRIDE" using ranges(2) by (auto simp: partition_pairs_def)
    then show ?thesis using matrix ij record_distance_bound by (simp split: option.splits)
  qed
  have start: "\<forall>j < length ?start. two_best (\<lambda>i. record_distance gallery probes i j) {i. (i, j) \<in> {}} (?start ! j)"
    by (simp add: goodix_chicago_match_init_candidates_def two_best_init)
  have len: "length ?start = ?p" by (simp add: goodix_chicago_match_init_candidates_def)
  have r: "length (foldl (update_column_candidate distances) ?start ?ps) = ?p"
    "\<forall>j < ?p. two_best (\<lambda>i. record_distance gallery probes i j) {i. (i, j) \<in> partition_pairs ?n gs ?p ps}
      (foldl (update_column_candidate distances) ?start ?ps ! j)"
    using column_foldl_spec [of ?ps distances "record_distance gallery probes" ?start "{}", OF cells start, unfolded s len]
    by simp_all
  show "length (column_candidates ?n gs ?p ps distances) = ?p"
    unfolding column_candidates_def by (rule r(1))
  show "two_best (\<lambda>i. record_distance gallery probes i j) {i. (i, j) \<in> partition_pairs ?n gs ?p ps}
      (column_candidates ?n gs ?p ps distances ! j)" if "j < ?p"
    unfolding column_candidates_def using r(2) that by blast
qed

section \<open>What the selection returns\<close>

text \<open>A selected candidate is one of the table that passes the ratio test.\<close>

definition ratio_ok :: "match_candidate list \<Rightarrow> candidate \<Rightarrow> bool" where
  "ratio_ok candidates c \<longleftrightarrow> old_index c < length candidates \<and>
     mc_best_index (candidates ! old_index c) = Some (new_index c) \<and>
     mc_best_distance (candidates ! old_index c) * 40 < mc_second_distance (candidates ! old_index c) * 38"

lemma match_admit_subset:
  assumes "set selected \<subseteq> S" and "length selected \<le> limit" and "c \<in> S"
  shows "set (match_admit limit news c selected) \<subseteq> S \<and> length (match_admit limit news c selected) \<le> limit"
proof (cases "scan_selected news c 0 False selected")
  case (Scan_free s)
  have s: "set s \<subseteq> S" "length s \<le> limit"
    using scan_selected_subset [of c selected news 0 False] Scan_free assms by (auto simp: scan_ok_def)
  show ?thesis
    using s assms(3) set_update_subset_insert [of s "worst_index s" c]
    by (auto simp: match_admit_def Scan_free Let_def)
next
  case (Scan_replaced s)
  then show ?thesis
    using scan_selected_subset [of c selected news 0 False] assms by (auto simp: match_admit_def scan_ok_def)
qed (use assms in \<open>simp add: match_admit_def\<close>)

lemma match_selected_ok:
  "set (match_selected news candidates limit 40 38) \<subseteq> {c. ratio_ok candidates c} \<and>
   length (match_selected news candidates limit 40 38) \<le> limit"
proof -
  have step: "set (select_step limit 40 38 news candidates selected k) \<subseteq> {c. ratio_ok candidates c} \<and>
      length (select_step limit 40 38 news candidates selected k) \<le> limit"
    if "set selected \<subseteq> {c. ratio_ok candidates c}" "length selected \<le> limit" "k < length candidates" for selected k
  proof (cases "mc_best_index (candidates ! k)")
    case None
    then show ?thesis using that by (simp add: select_step_def)
  next
    case (Some j)
    show ?thesis
    proof (cases "mc_best_distance (candidates ! k) * 40 \<ge> mc_second_distance (candidates ! k) * 38")
      case True
      then show ?thesis using that by (simp add: select_step_def Some)
    next
      case False
      then show ?thesis
        using that Some by (simp add: select_step_def Let_def) (intro match_admit_subset; simp add: ratio_ok_def)
    qed
  qed
  have "set (foldl (select_step limit 40 38 news candidates) [] ks) \<subseteq> {c. ratio_ok candidates c} \<and>
      length (foldl (select_step limit 40 38 news candidates) [] ks) \<le> limit"
    if "set ks \<subseteq> {0..<length candidates}" for ks
    using that by (induction ks rule: rev_induct) (use step in auto)
  then show ?thesis by (simp add: match_selected_def)
qed

text \<open>A pair is distinctive in one direction when the distance of its first record to the second,
  scaled by the ratio, stays below that to every other record of the partition and below 192.\<close>

definition distinctive :: "(nat \<Rightarrow> nat option) \<Rightarrow> nat set \<Rightarrow> nat \<Rightarrow> bool" where
  "distinctive D J j \<longleftrightarrow> j \<in> J \<and>
     (\<exists>d. D j = Some d \<and> d * 40 < 192 * 38 \<and> (\<forall>k \<in> J - {j}. case D k of None \<Rightarrow> True | Some e \<Rightarrow> d * 40 < e * 38))"

lemma ratio_distinctive:
  assumes "two_best D J c" and "mc_best_index c = Some j" and "mc_best_distance c * 40 < mc_second_distance c * 38"
  shows "distinctive D J j"
proof -
  have t: "mc_second_distance c \<le> 192" "j \<in> J" "D j = Some (mc_best_distance c)"
    "\<And>k d. k \<in> J \<Longrightarrow> D k = Some d \<Longrightarrow> k \<noteq> j \<Longrightarrow> mc_second_distance c \<le> d"
    using assms(1,2) by (auto simp: two_best_def)
  have "mc_best_distance c * 40 < e * 38" if "k \<in> J - {j}" "D k = Some e" for k e
    using t(4) [of k e] that assms(3) by fastforce
  then have "\<forall>k \<in> J - {j}. case D k of None \<Rightarrow> True | Some e \<Rightarrow> mc_best_distance c * 40 < e * 38"
    by (auto split: option.split)
  then show ?thesis unfolding distinctive_def using t(1-3) assms(3) by auto
qed

lemma ratio_ok_distinctive:
  assumes "ratio_ok candidates c" and "\<And>k. k < length candidates \<Longrightarrow> two_best (D k) (J k) (candidates ! k)"
  shows "old_index c < length candidates \<and> distinctive (D (old_index c)) (J (old_index c)) (new_index c)"
proof -
  have "mc_best_distance (candidates ! old_index c) * 40 < mc_second_distance (candidates ! old_index c) * 38"
    using assms(1) by (simp add: ratio_ok_def)
  then show ?thesis
    using ratio_distinctive [OF assms(2)] assms(1) by (simp add: ratio_ok_def)
qed

text \<open>The pairs of a search: \<open>n\<close> of them are set, the rest of the 31 is filled with \<open>-1\<close>.\<close>

definition pairs_ok :: "((nat \<times> nat) \<Rightarrow> bool) \<Rightarrow> (int \<times> int) list \<Rightarrow> nat \<Rightarrow> bool" where
  "pairs_ok good pairs n \<longleftrightarrow> length pairs = PAIR_LIMIT \<and> n \<le> PAIR_LIMIT \<and>
     (\<exists>ps. length ps = n \<and> list_all good ps \<and>
        pairs = map (\<lambda>(i, j). (int i, int j)) ps @ replicate (PAIR_LIMIT - n) (-1, -1))"

lemma select_candidates_ok:
  assumes "\<And>c. ratio_ok candidates c \<Longrightarrow> good (old_index c, new_index c)"
  shows "case goodix_chicago_match_select_candidates news candidates PAIR_LIMIT 40 38 of
     None \<Rightarrow> news = [] \<or> candidates = [] | Some (pairs, n) \<Rightarrow> news \<noteq> [] \<and> candidates \<noteq> [] \<and> pairs_ok good pairs n"
proof -
  let ?sel = "match_selected news candidates PAIR_LIMIT 40 38"
  have sel: "set ?sel \<subseteq> {c. ratio_ok candidates c}" "length ?sel \<le> PAIR_LIMIT"
    using match_selected_ok by blast+
  let ?ps = "map (\<lambda>c. (old_index c, new_index c)) ?sel"
  have "map (\<lambda>k. if k < length ?sel then (int (old_index (?sel ! k)), int (new_index (?sel ! k))) else (-1, -1)) [0..<PAIR_LIMIT] =
      map (\<lambda>(i, j). (int i, int j)) ?ps @ replicate (PAIR_LIMIT - length ?sel) (-1, -1)"
    using sel(2) by (intro nth_equalityI) (auto simp: nth_append)
  moreover have "list_all good ?ps" using sel(1) assms by (auto simp: list_all_iff)
  ultimately show ?thesis
    using sel(2) by (auto simp: goodix_chicago_match_select_candidates_def Let_def pairs_ok_def intro!: exI [of _ ?ps])
qed

lemma ordinary_correspondences_ok:
  "case goodix_chicago_match_ordinary_correspondences gallery gs probes ps of
     None \<Rightarrow> \<not> (correspondence_arguments_ok gallery gs probes ps \<and> gallery \<noteq> [] \<and> probes \<noteq> [])
   | Some (pairs, n) \<Rightarrow> correspondence_arguments_ok gallery gs probes ps \<and> gallery \<noteq> [] \<and> probes \<noteq> [] \<and>
       pairs_ok (\<lambda>(i, j). i < length gallery \<and>
         distinctive (record_distance gallery probes i)
           {k. (i, k) \<in> partition_pairs (length gallery) gs (length probes) ps} j) pairs n"
proof (cases "correspondence_arguments_ok gallery gs probes ps")
  case True
  obtain rows distances directions where t:
    "match_tables_of gallery gs probes ps 23 47 = (rows, distances, directions)" by (cases "match_tables_of gallery gs probes ps 23 47")
  have rows: "length rows = length gallery" "\<And>i. i < length gallery \<Longrightarrow> two_best (record_distance gallery probes i)
      {j. (i, j) \<in> partition_pairs (length gallery) gs (length probes) ps} (rows ! i)"
    using match_tables_spec [OF True] by (simp_all add: t row_spec_def)
  have "case goodix_chicago_match_select_candidates probes rows PAIR_LIMIT 40 38 of
      None \<Rightarrow> probes = [] \<or> rows = [] | Some (pairs, n) \<Rightarrow> probes \<noteq> [] \<and> rows \<noteq> [] \<and> pairs_ok (\<lambda>(i, j). i < length gallery \<and> distinctive (record_distance gallery probes i)
           {k. (i, k) \<in> partition_pairs (length gallery) gs (length probes) ps} j) pairs n"
  proof (rule select_candidates_ok, unfold prod.case)
    fix c assume c: "ratio_ok rows c"
    show "old_index c < length gallery \<and> distinctive (record_distance gallery probes (old_index c))
           {k. (old_index c, k) \<in> partition_pairs (length gallery) gs (length probes) ps} (new_index c)"
      using ratio_ok_distinctive [where D = "record_distance gallery probes" and
          J = "\<lambda>i. {k. (i, k) \<in> partition_pairs (length gallery) gs (length probes) ps}", OF c] rows by simp
  qed
  moreover have "rows = [] \<longleftrightarrow> gallery = []" using rows(1) by (metis length_0_conv)
  moreover have "goodix_chicago_match_ordinary_correspondences gallery gs probes ps =
      goodix_chicago_match_select_candidates probes rows PAIR_LIMIT 40 38"
    using True by (simp add: goodix_chicago_match_ordinary_correspondences_def ordinary_correspondences_with_gates_def t)
  ultimately show ?thesis
    using True by (cases "goodix_chicago_match_select_candidates probes rows PAIR_LIMIT 40 38") auto
qed (simp add: goodix_chicago_match_ordinary_correspondences_def ordinary_correspondences_with_gates_def)

text \<open>C37: The ordinary correspondences fail exactly on empty arrays and on counts or splits out of range; otherwise they report at
  most 31 pairs, each of a gallery and a probe record of the same partition that pass the distance gates,
  at a distance below 0.95 of the distance of that gallery record to every other probe record of the
  partition; the rest of the array is filled with -1.\<close>

theorem ordinary_correspondences_sound:
  "case goodix_chicago_match_ordinary_correspondences gallery gs probes ps of
     None \<Rightarrow> \<not> (correspondence_arguments_ok gallery gs probes ps \<and> gallery \<noteq> [] \<and> probes \<noteq> [])
   | Some (pairs, n) \<Rightarrow> correspondence_arguments_ok gallery gs probes ps \<and> gallery \<noteq> [] \<and> probes \<noteq> [] \<and>
       pairs_ok (\<lambda>(i, j). i < length gallery \<and>
         distinctive (record_distance gallery probes i)
           {k. (i, k) \<in> partition_pairs (length gallery) gs (length probes) ps} j) pairs n"
  by (rule ordinary_correspondences_ok)

lemma fallback_correspondences_ok:
  "case goodix_chicago_match_fallback_correspondences gallery gs probes ps of
     None \<Rightarrow> \<not> (correspondence_arguments_ok gallery gs probes ps \<and> gallery \<noteq> [] \<and> probes \<noteq> [])
   | Some (pairs, n) \<Rightarrow> correspondence_arguments_ok gallery gs probes ps \<and> gallery \<noteq> [] \<and> probes \<noteq> [] \<and>
       pairs_ok (\<lambda>(i, j). j < length probes \<and>
         distinctive (\<lambda>k. record_distance gallery probes k j)
           {k. (k, j) \<in> partition_pairs (length gallery) gs (length probes) ps} i) pairs n"
proof (cases "correspondence_arguments_ok gallery gs probes ps")
  case True
  obtain rows distances directions where t:
    "match_tables_of gallery gs probes ps 23 47 = (rows, distances, directions)" by (cases "match_tables_of gallery gs probes ps 23 47")
  let ?good = "\<lambda>(i, j). j < length probes \<and> distinctive (\<lambda>k. record_distance gallery probes k j)
           {k. (k, j) \<in> partition_pairs (length gallery) gs (length probes) ps} i"
  let ?columns = "column_candidates (length gallery) gs (length probes) ps distances"
  have sel: "case goodix_chicago_match_select_candidates gallery ?columns PAIR_LIMIT 40 38 of
      None \<Rightarrow> gallery = [] \<or> ?columns = [] | Some (pairs, n) \<Rightarrow> gallery \<noteq> [] \<and> ?columns \<noteq> [] \<and> pairs_ok (\<lambda>(j, i). ?good (i, j)) pairs n"
  proof (rule select_candidates_ok, unfold prod.case)
    fix c assume c: "ratio_ok ?columns c"
    show "old_index c < length probes \<and> distinctive (\<lambda>k. record_distance gallery probes k (old_index c))
           {k. (k, old_index c) \<in> partition_pairs (length gallery) gs (length probes) ps} (new_index c)"
      using ratio_ok_distinctive [where D = "\<lambda>j k. record_distance gallery probes k j" and
          J = "\<lambda>j. {k. (k, j) \<in> partition_pairs (length gallery) gs (length probes) ps}", OF c] columns_spec [OF True t] by simp
  qed
  have swap: "pairs_ok ?good (map (\<lambda>(i, j). (j, i)) pairs) n" if ok: "pairs_ok (\<lambda>(j, i). ?good (i, j)) pairs n" for pairs n
  proof -
    obtain ps where "length ps = n" "list_all (\<lambda>(j, i). ?good (i, j)) ps"
      "pairs = map (\<lambda>(i, j). (int i, int j)) ps @ replicate (PAIR_LIMIT - n) (-1, -1)" "n \<le> PAIR_LIMIT"
      using ok unfolding pairs_ok_def by blast
    then show ?thesis
      unfolding pairs_ok_def by (intro conjI exI [of _ "map (\<lambda>(i, j). (j, i)) ps"]) (auto simp: list_all_iff case_prod_unfold)
  qed
  have empty: "?columns = [] \<longleftrightarrow> probes = []" using columns_spec(1) [OF True t] by (metis length_0_conv)
  have fallback: "goodix_chicago_match_fallback_correspondences gallery gs probes ps =
      map_option (\<lambda>(pairs, n). (map (\<lambda>(i, j). (j, i)) pairs, n)) (goodix_chicago_match_select_candidates gallery ?columns PAIR_LIMIT 40 38)"
    using True by (simp add: goodix_chicago_match_fallback_correspondences_def t Let_def)
  show ?thesis
  proof (cases "goodix_chicago_match_select_candidates gallery ?columns PAIR_LIMIT 40 38")
    case None
    then show ?thesis using sel unfolding fallback by (auto simp: empty)
  next
    case (Some r)
    then show ?thesis using sel swap [of "fst r" "snd r"] True unfolding fallback by (cases r) (simp add: empty)
  qed
qed (simp add: goodix_chicago_match_fallback_correspondences_def)

text \<open>The fallback correspondences are the same test in the other direction: each reported pair is
  distinctive for its probe record against every other gallery record of the partition. The byte matrix
  the columns are read from loses nothing of the distances.\<close>

theorem fallback_correspondences_sound:
  "case goodix_chicago_match_fallback_correspondences gallery gs probes ps of
     None \<Rightarrow> \<not> (correspondence_arguments_ok gallery gs probes ps \<and> gallery \<noteq> [] \<and> probes \<noteq> [])
   | Some (pairs, n) \<Rightarrow> correspondence_arguments_ok gallery gs probes ps \<and> gallery \<noteq> [] \<and> probes \<noteq> [] \<and>
       pairs_ok (\<lambda>(i, j). j < length probes \<and>
         distinctive (\<lambda>k. record_distance gallery probes k j)
           {k. (k, j) \<in> partition_pairs (length gallery) gs (length probes) ps} i) pairs n"
  by (rule fallback_correspondences_ok)

end
