(* ===== verification/Chicago_Late_Rejection.thy ===== *)
theory Chicago_Late_Rejection
  imports Chicago_Geometry
begin

text \<open>
  The late rejection of type-24 candidates: goodix-chicago-late-rejection.c, with the overlap of a
  transformed sample and the score record it reads from goodix-chicago-match.c and its header. The
  policy for the other template types (goodix-chicago-late-rejection-compat.c) is an argument.
\<close>

section \<open>Score records\<close>

record score_record =
  sr_geometry_count :: int
  sr_secondary_geometry_count :: int
  sr_selector :: int
  sr_agreement :: int
  sr_study_metric_18 :: int
  sr_study_metric_1c :: int
  sr_study_metric_20 :: int
  sr_normalized_coverage :: int
  sr_matched_percent :: int
  sr_geometry_percent :: int
  sr_penalty_flag_a :: int
  sr_penalty_flag_b :: int
  sr_probe_quality :: int
  sr_probe_coverage :: int
  sr_gallery_quality :: int
  sr_gallery_coverage :: int

section \<open>Overlap of a transformed sample\<close>

definition goodix_chicago_match_invert_transform_q8_type24 :: "transform \<Rightarrow> transform" where
  "goodix_chicago_match_invert_transform_q8_type24 t =
     (let determinant = i64 (t0 t * t4 t - t1 t * t3 t)
      in if determinant = 0 then t
         else mk_transform
           (i32 (i64 (t4 t * 0x10000) sdiv determinant))
           (i32 (i64 (- t1 t * 0x10000) sdiv determinant))
           (i32 (i64 ((t5 t * t1 t - t4 t * t2 t) * 0x100) sdiv determinant))
           (i32 (i64 (- t3 t * 0x10000) sdiv determinant))
           (i32 (i64 (t0 t * 0x10000) sdiv determinant))
           (i32 (i64 ((t3 t * t2 t - t5 t * t0 t) * 0x100) sdiv determinant)))"

definition goodix_chicago_match_transform_overlap_area_type24 :: "nat \<Rightarrow> nat \<Rightarrow> transform \<Rightarrow> nat" where
  "goodix_chicago_match_transform_overlap_area_type24 width height t =
     (let maximum_x = (int width - 1) * 0x100; maximum_y = (int height - 1) * 0x100
      in length (filter (\<lambda>(x, y).
           let transformed_x = t0 t * int x + t1 t * int y + t2 t;
               transformed_y = t3 t * int x + t4 t * int y + t5 t
           in transformed_x \<ge> 0 \<and> transformed_x \<le> maximum_x \<and> transformed_y \<ge> 0 \<and> transformed_y \<le> maximum_y)
           (grid width height)))"

definition goodix_chicago_match_bidirectional_overlap_area_type24 :: "nat \<Rightarrow> nat \<Rightarrow> transform \<Rightarrow> nat" where
  "goodix_chicago_match_bidirectional_overlap_area_type24 width height t =
     (let forward = goodix_chicago_match_transform_overlap_area_type24 width height t;
          backward = goodix_chicago_match_transform_overlap_area_type24 width height
            (goodix_chicago_match_invert_transform_q8_type24 t)
      in max forward backward)"

section \<open>The tests of the policy\<close>

record late_context =
  lr_pixel_count :: int
  lr_overlap_area_x100 :: int
  lr_probe_quality :: int
  lr_record :: score_record
  lr_agreement :: int
  lr_study_metric :: int
  lr_metric_sum :: int
  lr_geometry_count :: int
  lr_record_probe_quality :: int
  lr_selector :: int
  lr_candidate_auxiliary :: int
  lr_max_auxiliary :: int
  lr_rejection_count :: int

definition type24_overlap_above :: "late_context \<Rightarrow> int \<Rightarrow> bool" where
  "type24_overlap_above ctx percent \<longleftrightarrow> i32 (lr_pixel_count ctx * percent) < lr_overlap_area_x100 ctx"

definition type24_overlap_at_least :: "late_context \<Rightarrow> int \<Rightarrow> bool" where
  "type24_overlap_at_least ctx percent \<longleftrightarrow> i32 (lr_pixel_count ctx * percent) \<le> lr_overlap_area_x100 ctx"

definition passes_low_candidate_policy :: "late_context \<Rightarrow> bool" where
  "passes_low_candidate_policy ctx \<longleftrightarrow>
     (\<not> type24_overlap_above ctx 92 \<or> lr_agreement ctx > 209 \<or> lr_study_metric ctx > 209)
       \<and> (\<not> type24_overlap_above ctx 95 \<or> lr_agreement ctx > 209
       \<or> lr_study_metric ctx > 219) \<and> (\<not> type24_overlap_at_least ctx 95
       \<or> lr_agreement ctx > 217 \<or> lr_study_metric ctx > 199)
       \<and> (\<not> type24_overlap_above ctx 95 \<or> ((lr_agreement ctx > 211
       \<or> lr_study_metric ctx > 214) \<and> (\<not> type24_overlap_above ctx 95
       \<or> lr_agreement ctx > 199 \<or> lr_study_metric ctx > 229)))"

definition weak_relation_type24 :: "late_context \<Rightarrow> bool" where
  "weak_relation_type24 ctx \<longleftrightarrow>
     lr_agreement ctx < 225 \<and> lr_study_metric ctx < 210 \<and> (type24_overlap_above ctx 90
       \<or> lr_geometry_count ctx < 7)"

definition passes_overlap_policy :: "late_context \<Rightarrow> bool" where
  "passes_overlap_policy ctx \<longleftrightarrow>
     (\<not> type24_overlap_above ctx 95 \<or> lr_candidate_auxiliary ctx < 4)
       \<and> (\<not> type24_overlap_above ctx 85 \<or> lr_candidate_auxiliary ctx < 5)
       \<and> (\<not> type24_overlap_above ctx 95 \<or> lr_agreement ctx > 240
       \<or> lr_study_metric ctx > 240) \<and> (\<not> type24_overlap_above ctx 90
       \<or> lr_agreement ctx > 235 \<or> lr_study_metric ctx > 230)"

definition type24_reject_high_auxiliary_pair :: "late_context \<Rightarrow> bool" where
  "type24_reject_high_auxiliary_pair ctx \<longleftrightarrow>
     (if lr_max_auxiliary ctx \<le> 4 then False
      else if lr_candidate_auxiliary ctx < 2 then \<not> passes_low_candidate_policy ctx
      else weak_relation_type24 ctx \<or> \<not> passes_overlap_policy ctx)"

definition weak_small_geometry :: "late_context \<Rightarrow> bool" where
  "weak_small_geometry ctx \<longleftrightarrow>
     (type24_overlap_above ctx 95 \<and> lr_metric_sum ctx < 415) \<or> (type24_overlap_above ctx 90
       \<and> lr_metric_sum ctx < 410) \<or> (type24_overlap_above ctx 85 \<and> lr_metric_sum ctx < 405)
       \<or> (type24_overlap_above ctx 90 \<and> ((lr_metric_sum ctx < 420
       \<and> lr_record_probe_quality ctx < 50) \<or> (lr_record_probe_quality ctx < 70
       \<and> sr_geometry_percent (lr_record ctx) < 45))) \<or> (lr_geometry_count ctx < 12
       \<and> type24_overlap_above ctx 80 \<and> lr_metric_sum ctx < 405) \<or> (lr_geometry_count ctx < 16
       \<and> type24_overlap_above ctx 80 \<and> lr_metric_sum ctx < 375
       \<and> lr_record_probe_quality ctx < 51 \<and> sr_geometry_percent (lr_record ctx) < 31)"

definition repeated_rejection :: "late_context \<Rightarrow> bool" where
  "repeated_rejection ctx \<longleftrightarrow>
     lr_rejection_count ctx > 4 \<and> (type24_overlap_above ctx 98 \<or> (type24_overlap_above ctx 90
       \<and> lr_study_metric ctx < 210 \<and> sr_geometry_percent (lr_record ctx) < 35))"

definition type24_reject_auxiliary_level_four :: "late_context \<Rightarrow> bool" where
  "type24_reject_auxiliary_level_four ctx \<longleftrightarrow>
     (if lr_max_auxiliary ctx \<le> 3 then False
      else if lr_candidate_auxiliary ctx \<ge> 2 then
       (type24_overlap_above ctx 85 \<and> lr_agreement ctx < 220 \<and> lr_study_metric ctx < 211)
       \<or> (lr_agreement ctx < 210 \<and> lr_study_metric ctx < 206 \<and> lr_rejection_count ctx > 5)
       \<or> (type24_overlap_above ctx 95 \<and> lr_agreement ctx < 231 \<and> lr_study_metric ctx < 231)
      else if lr_record_probe_quality ctx \<ge> 90 then False
      else if lr_geometry_count ctx < 24 then weak_small_geometry ctx \<or> repeated_rejection ctx
      else
       (type24_overlap_above ctx 95 \<and> lr_metric_sum ctx < 405) \<or> (type24_overlap_above ctx 99
       \<and> lr_agreement ctx < 208 \<and> lr_study_metric ctx < 207
       \<and> sr_geometry_percent (lr_record ctx) < 49 \<and> lr_probe_quality ctx < 71
       \<and> lr_selector ctx < 226))"

definition type24_reject_auxiliary_level_three :: "late_context \<Rightarrow> bool" where
  "type24_reject_auxiliary_level_three ctx \<longleftrightarrow>
     (if lr_max_auxiliary ctx \<le> 2 then False
      else if lr_candidate_auxiliary ctx \<ge> 2 then
       type24_overlap_above ctx 92 \<and> lr_agreement ctx < 220 \<and> lr_study_metric ctx < 206
      else if lr_record_probe_quality ctx \<ge> 90 \<or> lr_selector ctx \<ge> 241 then False
      else if lr_geometry_count ctx < 25 then
       (type24_overlap_above ctx 90 \<and> lr_metric_sum ctx < 405) \<or> (type24_overlap_above ctx 95
       \<and> (lr_metric_sum ctx < 412 \<or> (lr_metric_sum ctx < 421
       \<and> lr_record_probe_quality ctx < 70))) \<or> (type24_overlap_above ctx 97
       \<and> lr_metric_sum ctx < 400 \<and> sr_geometry_percent (lr_record ctx) < 36)
      else
       type24_overlap_above ctx 95 \<and> lr_metric_sum ctx < 400
       \<and> sr_geometry_percent (lr_record ctx) < 21)"

definition type24_reject_auxiliary_level_two :: "late_context \<Rightarrow> bool" where
  "type24_reject_auxiliary_level_two ctx \<longleftrightarrow>
     (if lr_max_auxiliary ctx \<le> 1 then False
      else if lr_candidate_auxiliary ctx \<ge> 2 then
       (type24_overlap_above ctx 94 \<and> lr_agreement ctx < 220 \<and> lr_study_metric ctx < 216
       \<and> sr_geometry_percent (lr_record ctx) < 35) \<or> (type24_overlap_above ctx 85
       \<and> lr_agreement ctx < 215 \<and> lr_study_metric ctx < 211
       \<and> sr_geometry_percent (lr_record ctx) < 35 \<and> lr_geometry_count ctx < 15)
      else if lr_record_probe_quality ctx \<ge> 90 \<or> lr_selector ctx \<ge> 240 then False
      else if lr_geometry_count ctx < 24 then
       (type24_overlap_above ctx 90 \<and> ((lr_metric_sum ctx < 406
       \<and> (sr_geometry_percent (lr_record ctx) < 36 \<or> lr_geometry_count ctx < 18))
       \<or> (lr_study_metric ctx < 210 \<and> sr_geometry_percent (lr_record ctx) < 36
       \<and> lr_record_probe_quality ctx < 60))) \<or> (type24_overlap_above ctx 95
       \<and> lr_geometry_count ctx < 23 \<and> sr_geometry_percent (lr_record ctx) < 36
       \<and> lr_record_probe_quality ctx < 60) \<or> (type24_overlap_above ctx 98
       \<and> lr_geometry_count ctx < 23 \<and> sr_geometry_percent (lr_record ctx) < 41
       \<and> lr_record_probe_quality ctx < 65)
      else
       (type24_overlap_above ctx 95 \<and> lr_agreement ctx < 211 \<and> lr_study_metric ctx < 211
       \<and> sr_geometry_percent (lr_record ctx) < 40 \<and> lr_probe_quality ctx < 61)
       \<or> (type24_overlap_above ctx 98 \<and> lr_agreement ctx < 211
       \<and> sr_geometry_percent (lr_record ctx) < 41 \<and> lr_probe_quality ctx < 73
       \<and> lr_selector ctx < 230))"

definition pass_98 :: "late_context \<Rightarrow> bool" where
  "pass_98 ctx \<longleftrightarrow>
     \<not> type24_overlap_above ctx 98 \<or> ((lr_agreement ctx > 229 \<or> lr_study_metric ctx > 215
       \<or> sr_geometry_percent (lr_record ctx) > 25 \<or> lr_probe_quality ctx > 70
       \<or> lr_selector ctx > 238) \<and> (\<not> type24_overlap_above ctx 98 \<or> lr_agreement ctx > 234
       \<or> lr_study_metric ctx > 215 \<or> sr_geometry_percent (lr_record ctx) > 30
       \<or> lr_probe_quality ctx > 31 \<or> lr_selector ctx > 238))"

definition pass_97 :: "late_context \<Rightarrow> bool" where
  "pass_97 ctx \<longleftrightarrow>
     \<not> type24_overlap_above ctx 97 \<or> ((lr_agreement ctx > 224 \<or> lr_study_metric ctx > 210
       \<or> sr_geometry_percent (lr_record ctx) > 25 \<or> lr_probe_quality ctx > 70
       \<or> lr_selector ctx > 234) \<and> (\<not> type24_overlap_above ctx 97
       \<or> ((lr_agreement ctx > 231 \<or> sr_geometry_percent (lr_record ctx) > 38
       \<or> lr_probe_quality ctx > 32 \<or> lr_selector ctx > 237)
       \<and> (\<not> type24_overlap_above ctx 97 \<or> lr_agreement ctx > 227
       \<or> lr_study_metric ctx > 210 \<or> sr_geometry_percent (lr_record ctx) > 28
       \<or> lr_probe_quality ctx > 40 \<or> lr_selector ctx > 234))))"

definition pass_96 :: "late_context \<Rightarrow> bool" where
  "pass_96 ctx \<longleftrightarrow>
     \<not> type24_overlap_above ctx 96 \<or> lr_agreement ctx > 224 \<or> lr_study_metric ctx > 210
       \<or> sr_geometry_percent (lr_record ctx) > 26 \<or> lr_probe_quality ctx > 68
       \<or> lr_selector ctx > 234"

definition pass_95 :: "late_context \<Rightarrow> bool" where
  "pass_95 ctx \<longleftrightarrow>
     \<not> type24_overlap_above ctx 95 \<or> lr_agreement ctx > 220 \<or> lr_study_metric ctx > 205
       \<or> sr_geometry_percent (lr_record ctx) > 31 \<or> lr_probe_quality ctx > 32
       \<or> lr_selector ctx > 234"

definition pass_94 :: "late_context \<Rightarrow> bool" where
  "pass_94 ctx \<longleftrightarrow>
     \<not> type24_overlap_above ctx 94 \<or> lr_agreement ctx > 220 \<or> lr_study_metric ctx > 195
       \<or> sr_geometry_percent (lr_record ctx) > 31 \<or> lr_probe_quality ctx > 52
       \<or> lr_selector ctx > 234"

definition type24_passes_low_geometry_overlap_gate :: "late_context \<Rightarrow> bool" where
  "type24_passes_low_geometry_overlap_gate ctx \<longleftrightarrow>
     pass_98 ctx \<and> pass_97 ctx \<and> pass_96 ctx \<and> pass_95 ctx \<and> pass_94 ctx"

definition initial_rejection :: "late_context \<Rightarrow> bool" where
  "initial_rejection ctx \<longleftrightarrow>
     (type24_overlap_above ctx 95 \<and> lr_agreement ctx < 210 \<and> lr_study_metric ctx < 210
       \<and> lr_probe_quality ctx < 81) \<or> (type24_overlap_above ctx 90 \<and> ((lr_agreement ctx < 205
       \<and> lr_study_metric ctx < 205) \<or> (lr_geometry_count ctx < 12 \<and> lr_agreement ctx < 210
       \<and> lr_study_metric ctx < 210 \<and> sr_geometry_percent (lr_record ctx) < 26)))
       \<or> (type24_overlap_above ctx 95 \<and> lr_agreement ctx < 220 \<and> lr_study_metric ctx < 210
       \<and> lr_probe_quality ctx < 16)"

definition immediate_rejection :: "late_context \<Rightarrow> bool" where
  "immediate_rejection ctx \<longleftrightarrow>
     type24_overlap_above ctx 91 \<and> lr_agreement ctx < 210 \<and> lr_study_metric ctx < 199
       \<and> sr_geometry_percent (lr_record ctx) < 22 \<and> lr_probe_quality ctx < 51
       \<and> lr_selector ctx < 230 \<and> lr_geometry_count ctx < 16"

definition enters_history_exception :: "late_context \<Rightarrow> bool" where
  "enters_history_exception ctx \<longleftrightarrow>
     \<not> type24_overlap_above ctx 87 \<or> lr_agreement ctx > 215 \<or> lr_study_metric ctx > 185
       \<or> sr_geometry_percent (lr_record ctx) > 21 \<or> lr_probe_quality ctx > 42
       \<or> lr_geometry_count ctx > 15"

definition weak_high_overlap :: "late_context \<Rightarrow> bool" where
  "weak_high_overlap ctx \<longleftrightarrow>
     type24_overlap_above ctx 85 \<and> ((lr_agreement ctx < 200 \<and> lr_study_metric ctx < 195
       \<and> lr_probe_quality ctx < 71) \<or> (lr_agreement ctx < 210 \<and> lr_study_metric ctx < 205
       \<and> lr_geometry_count ctx < 14))"

definition type24_reject_low_geometry :: "late_context \<Rightarrow> bool" where
  "type24_reject_low_geometry ctx \<longleftrightarrow>
     (if lr_geometry_count ctx \<ge> 25 \<or> lr_record_probe_quality ctx \<ge> 70 \<or> lr_selector ctx \<ge> 242 then False
      else initial_rejection ctx \<or>
        \<not> (type24_passes_low_geometry_overlap_gate ctx \<and> \<not> immediate_rejection ctx \<and> enters_history_exception ctx \<and>
           \<not> weak_high_overlap ctx \<and> lr_rejection_count ctx < 7))"

definition reject_above_99 :: "late_context \<Rightarrow> bool" where
  "reject_above_99 ctx \<longleftrightarrow>
     type24_overlap_above ctx 99 \<and> ((lr_agreement ctx < 210
       \<and> sr_geometry_percent (lr_record ctx) < 37 \<and> lr_probe_quality ctx < 66
       \<and> lr_selector ctx < 231) \<or> (lr_agreement ctx < 210 \<and> lr_study_metric ctx = 0
       \<and> sr_geometry_percent (lr_record ctx) < 49 \<and> lr_probe_quality ctx < 71
       \<and> lr_selector ctx < 231) \<or> (lr_agreement ctx < 217 \<and> lr_study_metric ctx < 179
       \<and> sr_geometry_percent (lr_record ctx) < 19 \<and> lr_probe_quality ctx < 81
       \<and> lr_selector ctx < 246))"

definition reject_above_98 :: "late_context \<Rightarrow> bool" where
  "reject_above_98 ctx \<longleftrightarrow>
     type24_overlap_above ctx 98 \<and> ((lr_agreement ctx < 220 \<and> lr_study_metric ctx < 208
       \<and> sr_geometry_percent (lr_record ctx) < 31 \<and> lr_probe_quality ctx < 81
       \<and> lr_selector ctx < 233) \<or> (lr_agreement ctx < 225 \<and> lr_study_metric ctx < 216
       \<and> sr_geometry_percent (lr_record ctx) < 36 \<and> lr_probe_quality ctx < 68
       \<and> lr_selector ctx < 235))"

definition reject_above_97 :: "late_context \<Rightarrow> bool" where
  "reject_above_97 ctx \<longleftrightarrow>
     type24_overlap_above ctx 97 \<and> ((lr_agreement ctx < 220 \<and> lr_study_metric ctx < 206
       \<and> sr_geometry_percent (lr_record ctx) < 21 \<and> lr_probe_quality ctx < 71
       \<and> lr_selector ctx < 233) \<or> (lr_agreement ctx < 215
       \<and> sr_geometry_percent (lr_record ctx) < 41 \<and> lr_probe_quality ctx < 71
       \<and> lr_selector ctx < 233) \<or> (lr_agreement ctx < 224 \<and> lr_study_metric ctx < 206
       \<and> sr_geometry_percent (lr_record ctx) < 21 \<and> lr_probe_quality ctx < 81
       \<and> lr_selector ctx < 233 \<and> lr_max_auxiliary ctx = 1) \<or> (lr_agreement ctx < 210
       \<and> lr_study_metric ctx = 0 \<and> sr_geometry_percent (lr_record ctx) < 48
       \<and> lr_probe_quality ctx < 71 \<and> lr_selector ctx < 233 \<and> lr_max_auxiliary ctx = 1))"

definition reject_above_95 :: "late_context \<Rightarrow> bool" where
  "reject_above_95 ctx \<longleftrightarrow>
     type24_overlap_above ctx 95 \<and> lr_agreement ctx < 221 \<and> lr_study_metric ctx < 205
       \<and> sr_geometry_percent (lr_record ctx) < 23 \<and> lr_probe_quality ctx < 79
       \<and> lr_selector ctx < 233"

definition reject_at_least_95 :: "late_context \<Rightarrow> bool" where
  "reject_at_least_95 ctx \<longleftrightarrow>
     type24_overlap_at_least ctx 95 \<and> lr_agreement ctx < 219 \<and> lr_study_metric ctx < 183
       \<and> sr_geometry_percent (lr_record ctx) < 14 \<and> lr_probe_quality ctx < 55
       \<and> lr_selector ctx < 246"

definition reject_above_94 :: "late_context \<Rightarrow> bool" where
  "reject_above_94 ctx \<longleftrightarrow>
     type24_overlap_above ctx 94 \<and> lr_agreement ctx < 218 \<and> lr_study_metric ctx < 207
       \<and> sr_geometry_percent (lr_record ctx) < 21 \<and> lr_probe_quality ctx < 81
       \<and> lr_selector ctx < 251"

definition reject_above_93 :: "late_context \<Rightarrow> bool" where
  "reject_above_93 ctx \<longleftrightarrow>
     type24_overlap_above ctx 93 \<and> lr_metric_sum ctx < 376
       \<and> sr_geometry_percent (lr_record ctx) < 21 \<and> lr_probe_quality ctx < 86
       \<and> lr_selector ctx < 231"

definition reject_above_91 :: "late_context \<Rightarrow> bool" where
  "reject_above_91 ctx \<longleftrightarrow>
     type24_overlap_above ctx 91 \<and> ((lr_agreement ctx < 213 \<and> lr_study_metric ctx < 205
       \<and> sr_geometry_percent (lr_record ctx) < 23 \<and> lr_probe_quality ctx < 80
       \<and> lr_selector ctx < 229) \<or> (lr_agreement ctx < 216 \<and> lr_study_metric ctx < 191
       \<and> sr_geometry_percent (lr_record ctx) < 18 \<and> lr_probe_quality ctx < 51
       \<and> lr_selector ctx < 249))"

definition type24_reject_overlap_bands :: "late_context \<Rightarrow> bool" where
  "type24_reject_overlap_bands ctx \<longleftrightarrow>
     reject_above_99 ctx \<or> reject_above_98 ctx \<or> reject_above_97 ctx \<or> reject_above_95 ctx \<or> reject_at_least_95 ctx \<or> reject_above_94 ctx \<or> reject_above_93 ctx \<or> reject_above_91 ctx"

definition type24_reject_candidate_auxiliary :: "late_context \<Rightarrow> bool" where
  "type24_reject_candidate_auxiliary ctx \<longleftrightarrow>
     (if lr_candidate_auxiliary ctx \<le> 1 then False
      else
       (lr_candidate_auxiliary ctx > 2 \<and> ((lr_agreement ctx < 215 \<and> lr_study_metric ctx < 215
       \<and> lr_geometry_count ctx < 11 \<and> type24_overlap_above ctx 80) \<or> (lr_agreement ctx < 220
       \<and> lr_study_metric ctx < 220 \<and> type24_overlap_above ctx 90))) \<or> (lr_agreement ctx < 215
       \<and> lr_study_metric ctx < 215 \<and> lr_geometry_count ctx < 16
       \<and> type24_overlap_above ctx 95))"

definition type24_reject_baseline_weakness :: "late_context \<Rightarrow> bool" where
  "type24_reject_baseline_weakness ctx \<longleftrightarrow>
     (type24_overlap_above ctx 90 \<and> lr_agreement ctx < 205 \<and> lr_study_metric ctx < 211
       \<and> sr_geometry_percent (lr_record ctx) < 45 \<and> lr_probe_quality ctx < 51
       \<and> lr_selector ctx < 240) \<or> (type24_overlap_above ctx 95 \<and> lr_agreement ctx < 216
       \<and> lr_study_metric ctx < 216 \<and> sr_geometry_percent (lr_record ctx) < 35
       \<and> lr_selector ctx < 240)"

definition type24_should_clear_status :: "late_context \<Rightarrow> bool" where
  "type24_should_clear_status ctx \<longleftrightarrow>
     (type24_overlap_above ctx 92 \<and> lr_geometry_count ctx < 18
       \<and> sr_geometry_percent (lr_record ctx) < 26 \<and> lr_agreement ctx < 218)
       \<or> (type24_overlap_above ctx 93 \<and> lr_geometry_count ctx < 10
       \<and> sr_geometry_percent (lr_record ctx) < 13 \<and> lr_agreement ctx < 220)"
section \<open>The policy\<close>

definition late_context_of ::
    "nat \<Rightarrow> nat \<Rightarrow> int \<Rightarrow> score_record \<Rightarrow> transform \<Rightarrow> int \<Rightarrow> int \<Rightarrow> int \<Rightarrow> int \<Rightarrow> late_context" where
  "late_context_of width height probe_quality rec t current_auxiliary candidate_auxiliary combined_auxiliary rejection_count =
     (let forward = goodix_chicago_match_transform_overlap_area_type24 width height t;
          backward = goodix_chicago_match_transform_overlap_area_type24 width height
            (goodix_chicago_match_invert_transform_q8_type24 t)
      in \<lparr> lr_pixel_count = i32 (int width * int height), lr_overlap_area_x100 = i32 (int (max forward backward) * 100),
           lr_probe_quality = probe_quality, lr_record = rec, lr_agreement = sr_agreement rec,
           lr_study_metric = sr_study_metric_20 rec, lr_metric_sum = i32 (sr_agreement rec + sr_study_metric_20 rec),
           lr_geometry_count = sr_geometry_count rec, lr_record_probe_quality = sr_probe_quality rec,
           lr_selector = sr_selector rec, lr_candidate_auxiliary = candidate_auxiliary,
           lr_max_auxiliary = max combined_auxiliary current_auxiliary, lr_rejection_count = rejection_count \<rparr>)"

definition type24_rejected :: "late_context \<Rightarrow> bool" where
  "type24_rejected ctx \<longleftrightarrow>
     type24_reject_high_auxiliary_pair ctx \<or> type24_reject_auxiliary_level_four ctx \<or>
     type24_reject_auxiliary_level_three ctx \<or> type24_reject_auxiliary_level_two ctx \<or>
     type24_reject_low_geometry ctx \<or> type24_reject_overlap_bands ctx \<or>
     type24_reject_candidate_auxiliary ctx \<or> type24_reject_baseline_weakness ctx"

text \<open>The result with the new rejection count and the new status flag.\<close>

definition match_late_rejection_policy_type24 ::
    "nat \<Rightarrow> nat \<Rightarrow> int \<Rightarrow> score_record \<Rightarrow> transform \<Rightarrow> int \<Rightarrow> int \<Rightarrow> int \<Rightarrow> int \<Rightarrow> int \<Rightarrow> bool \<times> int \<times> int" where
  "match_late_rejection_policy_type24 width height probe_quality rec t current_auxiliary candidate_auxiliary
       combined_auxiliary rejection_count status_flag =
     (let ctx = late_context_of width height probe_quality rec t current_auxiliary candidate_auxiliary
            combined_auxiliary rejection_count;
          rejected = type24_rejected ctx
      in (rejected, if rejected then i32 (rejection_count + 1) else rejection_count,
          if type24_should_clear_status ctx then 0 else status_flag))"

definition goodix_chicago_match_late_rejection_type24 ::
    "nat \<Rightarrow> nat \<Rightarrow> int \<Rightarrow> score_record \<Rightarrow> transform \<Rightarrow> int \<Rightarrow> int \<Rightarrow> int \<Rightarrow> int \<Rightarrow> int \<Rightarrow> bool \<times> int \<times> int" where
  "goodix_chicago_match_late_rejection_type24 width height probe_quality rec t current_auxiliary candidate_auxiliary
       combined_auxiliary rejection_count status_flag =
     (if \<not> (0 < width \<and> int width \<le> G_MAXINT32) \<or> \<not> (0 < height \<and> int height \<le> G_MAXINT32)
      then (False, rejection_count, status_flag)
      else match_late_rejection_policy_type24 width height probe_quality rec t current_auxiliary candidate_auxiliary
             combined_auxiliary rejection_count status_flag)"

definition template_type_supported :: "nat \<Rightarrow> bool" where
  "template_type_supported template_type \<longleftrightarrow>
     template_type = 7 \<or> template_type = 10 \<or> template_type \<ge> 23 \<and> template_type \<le> 26"

definition goodix_chicago_match_late_rejection ::
    "(nat \<Rightarrow> nat \<Rightarrow> nat \<Rightarrow> int \<Rightarrow> score_record \<Rightarrow> transform \<Rightarrow> int \<Rightarrow> int \<Rightarrow> int \<Rightarrow> int \<Rightarrow> int \<Rightarrow> bool \<times> int \<times> int) \<Rightarrow>
     nat \<Rightarrow> nat \<Rightarrow> nat \<Rightarrow> int \<Rightarrow> score_record \<Rightarrow> transform \<Rightarrow> int \<Rightarrow> int \<Rightarrow> int \<Rightarrow> int \<Rightarrow> int \<Rightarrow> bool \<times> int \<times> int" where
  "goodix_chicago_match_late_rejection compat_policy template_type width height probe_quality rec t current_auxiliary
       candidate_auxiliary combined_auxiliary rejection_count status_flag =
     (if \<not> template_type_supported template_type \<or> \<not> (0 < width \<and> int width \<le> G_MAXINT32) \<or>
         \<not> (0 < height \<and> int height \<le> G_MAXINT32) then (False, rejection_count, status_flag)
      else if template_type = 24 then
        goodix_chicago_match_late_rejection_type24 width height probe_quality rec t current_auxiliary
          candidate_auxiliary combined_auxiliary rejection_count status_flag
      else compat_policy template_type width height probe_quality rec t current_auxiliary candidate_auxiliary
             combined_auxiliary rejection_count status_flag)"

section \<open>The overlap is the one of the enrollment\<close>

text \<open>The overlap area of the matcher is the rectangle overlap of the enrollment with the full
  translation, so it never exceeds the area of the sample, which the identity covers.\<close>

theorem overlap_area_agrees:
  "goodix_chicago_match_transform_overlap_area_type24 width height t = affine_rectangle_overlap t width height False \<and>
   goodix_chicago_match_bidirectional_overlap_area_type24 width height t \<le> width * height \<and>
   goodix_chicago_match_bidirectional_overlap_area_type24 width height identity_group_transform = width * height"
proof -
  have eq: "goodix_chicago_match_transform_overlap_area_type24 width height t = affine_rectangle_overlap t width height False" for t
    unfolding goodix_chicago_match_transform_overlap_area_type24_def affine_rectangle_overlap_def by simp
  have le: "goodix_chicago_match_transform_overlap_area_type24 width height t \<le> width * height" for t
    unfolding eq by (rule overlap_le)
  moreover have "goodix_chicago_match_transform_overlap_area_type24 width height identity_group_transform = width * height"
    unfolding eq by (rule overlap_identity)
  ultimately show ?thesis
    unfolding goodix_chicago_match_bidirectional_overlap_area_type24_def Let_def
    using eq le by (simp add: max_absorb1)
qed

lemma overlap_area_le: "goodix_chicago_match_transform_overlap_area_type24 width height t \<le> width * height"
proof -
  have "goodix_chicago_match_transform_overlap_area_type24 width height t = affine_rectangle_overlap t width height False"
    unfolding goodix_chicago_match_transform_overlap_area_type24_def affine_rectangle_overlap_def by simp
  then show ?thesis by (simp add: overlap_le)
qed

section \<open>Who is never rejected\<close>

text \<open>For a sensor image of at most 2 ^ 20 pixels the percentages are exact.\<close>

definition covers_percent :: "nat \<Rightarrow> nat \<Rightarrow> transform \<Rightarrow> nat \<Rightarrow> bool" where
  "covers_percent width height t percent \<longleftrightarrow>
     percent * (width * height) < 100 * goodix_chicago_match_bidirectional_overlap_area_type24 width height t"

lemma i32_nat: "n < 2 ^ 31 \<Longrightarrow> i32 (int n) = int n"
  by (rule i32_id) (simp add: in_i32_def)

lemma i32_percent:
  assumes "n \<le> 2 ^ 20" and "percent \<le> 100"
  shows "i32 (int n * int percent) = int n * int percent"
proof -
  have "n * percent \<le> 2 ^ 20 * 100" using assms by (rule mult_le_mono)
  then have "n * percent < 2 ^ 31" by simp
  from i32_nat [OF this] show ?thesis by simp
qed

lemma late_context_overlap:
  assumes "width * height \<le> 2 ^ 20"
  shows "lr_pixel_count (late_context_of width height pq rec t cur cand comb rc) = int (width * height)"
    "lr_overlap_area_x100 (late_context_of width height pq rec t cur cand comb rc) =
      int (100 * goodix_chicago_match_bidirectional_overlap_area_type24 width height t)"
proof -
  let ?area = "goodix_chicago_match_bidirectional_overlap_area_type24 width height t"
  have "?area \<le> width * height"
    unfolding goodix_chicago_match_bidirectional_overlap_area_type24_def Let_def by (intro max.boundedI overlap_area_le)
  then have "?area \<le> 2 ^ 20" using assms by (rule le_trans)
  from i32_percent [OF this, of 100] show "lr_overlap_area_x100 (late_context_of width height pq rec t cur cand comb rc) = int (100 * ?area)"
    by (simp add: late_context_of_def Let_def goodix_chicago_match_bidirectional_overlap_area_type24_def)
  from i32_percent [OF assms, of 1] show "lr_pixel_count (late_context_of width height pq rec t cur cand comb rc) = int (width * height)"
    by (simp add: late_context_of_def Let_def)
qed

lemma late_overlap_above:
  assumes "width * height \<le> 2 ^ 20" and "percent \<le> 100"
  shows "type24_overlap_above (late_context_of width height pq rec t cur cand comb rc) (int percent) \<longleftrightarrow>
    covers_percent width height t percent"
  unfolding type24_overlap_above_def late_context_overlap [OF assms(1)] i32_percent [OF assms] covers_percent_def
  by (metis mult.commute of_nat_less_iff of_nat_mult)

lemma late_overlap_at_least:
  assumes "0 < width * height" and "width * height \<le> 2 ^ 20"
    and "\<not> type24_overlap_above (late_context_of width height pq rec t cur cand comb rc) 94"
  shows "\<not> type24_overlap_at_least (late_context_of width height pq rec t cur cand comb rc) 95"
proof -
  have "0 < int (width * height)" using assms(1) by (simp only: of_nat_0_less_iff)
  then have "int (width * height) * 94 < int (width * height) * 95" by linarith
  moreover have "i32 (int (width * height) * 94) = int (width * height) * 94" "i32 (int (width * height) * 95) = int (width * height) * 95"
    using i32_percent [OF assms(2), of 94] i32_percent [OF assms(2), of 95] by simp_all
  ultimately show ?thesis
    using assms(3) unfolding type24_overlap_above_def type24_overlap_at_least_def late_context_overlap(1) [OF assms(2)] by linarith
qed

lemmas late_tests =
  type24_reject_high_auxiliary_pair_def passes_low_candidate_policy_def type24_reject_auxiliary_level_four_def
  weak_small_geometry_def repeated_rejection_def type24_reject_auxiliary_level_three_def
  type24_reject_auxiliary_level_two_def type24_reject_candidate_auxiliary_def type24_reject_baseline_weakness_def

lemmas late_geometry_tests =
  type24_reject_low_geometry_def initial_rejection_def immediate_rejection_def enters_history_exception_def
  weak_high_overlap_def type24_passes_low_geometry_overlap_gate_def pass_98_def pass_97_def pass_96_def pass_95_def pass_94_def

lemmas late_band_tests =
  type24_reject_overlap_bands_def reject_above_99_def reject_above_98_def reject_above_97_def reject_above_95_def
  reject_at_least_95_def reject_above_94_def reject_above_93_def reject_above_91_def

lemma late_small_overlap:
  assumes "\<And>p. 80 \<le> p \<Longrightarrow> p \<le> 99 \<Longrightarrow> \<not> type24_overlap_above ctx p" and "\<not> type24_overlap_at_least ctx 95"
    and "lr_candidate_auxiliary ctx \<le> 1" and "lr_rejection_count ctx < 7"
  shows "\<not> type24_rejected ctx \<and> \<not> type24_should_clear_status ctx"
proof -
  have no: "\<not> type24_overlap_above ctx 80" "\<not> type24_overlap_above ctx 85" "\<not> type24_overlap_above ctx 87"
    "\<not> type24_overlap_above ctx 90" "\<not> type24_overlap_above ctx 91" "\<not> type24_overlap_above ctx 92"
    "\<not> type24_overlap_above ctx 93" "\<not> type24_overlap_above ctx 94" "\<not> type24_overlap_above ctx 95"
    "\<not> type24_overlap_above ctx 96" "\<not> type24_overlap_above ctx 97" "\<not> type24_overlap_above ctx 98"
    "\<not> type24_overlap_above ctx 99"
    using assms(1) by simp_all
  have "\<not> type24_reject_low_geometry ctx" using assms(4) by (simp add: late_geometry_tests no)
  moreover have "\<not> type24_reject_overlap_bands ctx" using assms(2) by (simp add: late_band_tests no)
  ultimately show ?thesis
    using assms(2,3) by (simp add: type24_rejected_def late_tests type24_should_clear_status_def no)
qed

lemma late_strong_evidence:
  assumes "235 \<le> lr_agreement ctx" and "220 \<le> lr_study_metric ctx" and "45 \<le> sr_geometry_percent (lr_record ctx)"
    and "455 \<le> lr_metric_sum ctx" and "lr_candidate_auxiliary ctx \<le> 1" and "lr_rejection_count ctx \<le> 4"
  shows "\<not> type24_rejected ctx \<and> \<not> type24_should_clear_status ctx"
proof -
  have "\<not> type24_reject_high_auxiliary_pair ctx" "\<not> type24_reject_auxiliary_level_four ctx"
    "\<not> type24_reject_auxiliary_level_three ctx" "\<not> type24_reject_auxiliary_level_two ctx"
    "\<not> type24_reject_candidate_auxiliary ctx" "\<not> type24_reject_baseline_weakness ctx"
    using assms by (simp_all add: late_tests)
  moreover have "\<not> type24_reject_low_geometry ctx" using assms by (simp add: late_geometry_tests)
  moreover have "\<not> type24_reject_overlap_bands ctx" using assms by (simp add: late_band_tests)
  moreover have "\<not> type24_should_clear_status ctx" using assms by (simp add: type24_should_clear_status_def)
  ultimately show ?thesis by (simp add: type24_rejected_def)
qed


definition strong_score :: score_record where
  "strong_score = \<lparr> sr_geometry_count = 8, sr_secondary_geometry_count = 8, sr_selector = 200, sr_agreement = 240,
     sr_study_metric_18 = 220, sr_study_metric_1c = 220, sr_study_metric_20 = 225, sr_normalized_coverage = 200,
     sr_matched_percent = 80, sr_geometry_percent = 50, sr_penalty_flag_a = 0, sr_penalty_flag_b = 0,
     sr_probe_quality = 60, sr_probe_coverage = 90, sr_gallery_quality = 60, sr_gallery_coverage = 90 \<rparr>"


end
