(* ===== verification/Chicago_Match.thy ===== *)
theory Chicago_Match
  imports Chicago_Late_Rejection Chicago_Correspondence Chicago_Capacity
begin

text \<open>
  The identify score of goodix-chicago-match.c: the score of one sample, the evidence and the filters
  of the scheduler, the aggregation of the accepted geometry, the relation that the capacity selector
  asks for, and the match of a whole template with its fallback pass.

  The array of pairs lives on the stack and is not initialised; its content before a call is the
  argument \<open>unset\<close>. A sample without metric data has no metric pointer, so the template match
  ends in \<open>None\<close> where the code would read through it.
\<close>

declare upt_rec_numeral [simp del]

section \<open>Aggregation\<close>

text \<open>The matcher's division to the nearest, for a positive denominator.\<close>

definition match_divide_nearest :: "int \<Rightarrow> int \<Rightarrow> int" where
  "match_divide_nearest numerator denominator =
     (if \<not> denominator > 0 then 0 else i32 (numerator + denominator sdiv 2) sdiv denominator)"

record aggregation =
  ag_accepted_count :: int
  ag_accepted_geometry_q8_sum :: int
  ag_fallback_score :: int
  ag_fallback_evaluated_count :: int
  ag_fallback_max_metric :: int
  ag_fallback_best_metric :: int
  ag_fallback_best_geometry :: int
  ag_fallback_best_coverage :: int
  ag_fallback_geometry_sum :: int

definition zero_aggregation :: aggregation where
  "zero_aggregation = \<lparr> ag_accepted_count = 0, ag_accepted_geometry_q8_sum = 0, ag_fallback_score = 0,
     ag_fallback_evaluated_count = 0, ag_fallback_max_metric = 0, ag_fallback_best_metric = 0,
     ag_fallback_best_geometry = 0, ag_fallback_best_coverage = 0, ag_fallback_geometry_sum = 0 \<rparr>"

definition goodix_chicago_match_aggregation_add_geometry :: "aggregation \<Rightarrow> int \<Rightarrow> int \<Rightarrow> aggregation" where
  "goodix_chicago_match_aggregation_add_geometry a geometry_count geometry_limit =
     (if \<not> geometry_count \<ge> 0 \<or> \<not> geometry_limit > 0 then a
      else a\<lparr> ag_accepted_count := i32 (ag_accepted_count a + 1),
              ag_accepted_geometry_q8_sum := i32 (ag_accepted_geometry_q8_sum a +
                match_divide_nearest (i32 (geometry_count * 256)) geometry_limit) \<rparr>)"

definition goodix_chicago_match_aggregation_score :: "aggregation \<Rightarrow> int" where
  "goodix_chicago_match_aggregation_score a =
     (if ag_accepted_count a > 0
      then drop_bit 8 (i32 (ag_accepted_geometry_q8_sum a * 100) sdiv ag_accepted_count a)
      else if ag_fallback_score a > 0 then min (ag_fallback_score a) 100
      else
        let reason = (if ag_fallback_geometry_sum a < 6 then 4 else 0) +
              (if ag_fallback_evaluated_count a = 1
               then (if ag_fallback_max_metric a < 208 then 2 else 0) + (if ag_fallback_best_coverage a < 128 then 1 else 0)
               else 0)
        in - reason)"

definition goodix_chicago_match_accept_type24 :: "int \<Rightarrow> int \<Rightarrow> int \<Rightarrow> int \<Rightarrow> bool" where
  "goodix_chicago_match_accept_type24 selector agreement helper_status selector_threshold \<longleftrightarrow>
     helper_status = 1 \<or> selector > selector_threshold \<and> agreement > 195"

section \<open>Evidence of the scheduler\<close>

record scheduler_evidence =
  ev_confidence :: int
  ev_status :: int
  ev_special :: int

definition agreement_by_primary :: "int list" where
  "agreement_by_primary = [0x0fffffff, 206, 201, 196, 185, 185, 185, 185]"

definition agreement_by_secondary :: "int list" where
  "agreement_by_secondary = [0x0fffffff, 0x0fffffff, 0x0fffffff, 207, 205, 203, 196, 187]"

definition confidence_by_secondary :: "int list" where
  "confidence_by_secondary = [0x0fffffff, 0x0fffffff, 209, 208, 208, 207, 207, 207]"

definition clamp_index :: "int \<Rightarrow> nat" where
  "clamp_index v = nat (if v > 7 then 7 else if v < 0 then 0 else v)"

text \<open>The counts after the bonus for matched features and the penalty for low coverage.\<close>

definition adjusted_counts :: "score_record \<Rightarrow> bool \<Rightarrow> int \<times> int" where
  "adjusted_counts rec penalize_low_coverage =
     (let first_count = sr_geometry_count rec; second_count = sr_secondary_geometry_count rec;
          bonus = (if sr_matched_percent rec > 60 \<and> first_count > 4 then 1 + (sr_matched_percent rec - 60) sdiv 5 else 0);
          penalty = (if penalize_low_coverage \<and> sr_normalized_coverage rec < 128
                     then 1 + (128 - sr_normalized_coverage rec) sdiv 10 else 0)
      in (first_count + bonus - penalty, second_count + bonus - penalty))"

definition confident_candidate :: "score_record \<Rightarrow> int \<Rightarrow> int \<Rightarrow> int \<Rightarrow> int \<Rightarrow> bool" where
  "confident_candidate rec first_count second_count agreement adjusted_agreement =
     (if first_count \<le> 4 \<and> sr_selector rec < 235 \<and> agreement < 217 then False
      else agreement > confidence_by_secondary ! clamp_index (second_count - 7) \<or>
           agreement \<ge> 195 \<and> first_count \<ge> 16 \<or> agreement \<ge> 190 \<and> first_count \<ge> 18 \<or>
           second_count > 18 \<and> first_count > 10 \<and> agreement > 196 \<or>
           sr_matched_percent rec > 60 \<and> adjusted_agreement \<ge> 198 \<and> first_count > 12 \<or>
           second_count > 16 \<and> first_count > 10 \<and> adjusted_agreement > 200)"

definition goodix_chicago_match_scheduler_evidence_type24 ::
    "score_record \<Rightarrow> int \<Rightarrow> int \<Rightarrow> bool \<Rightarrow> scheduler_evidence" where
  "goodix_chicago_match_scheduler_evidence_type24 rec quality_a quality_b penalize_low_coverage =
     (let (first_count, second_count) = adjusted_counts rec penalize_low_coverage;
          flag_penalty = (if second_count \<le> 10 then 4 * (sr_penalty_flag_a rec + sr_penalty_flag_b rec) else 0);
          adjusted_agreement = sr_agreement rec - flag_penalty;
          agreement = (if sr_geometry_count rec \<le> 4 then sr_agreement rec - 4 else sr_agreement rec) - flag_penalty;
          primary_limit = agreement_by_primary ! clamp_index (first_count - 7);
          secondary_limit = agreement_by_secondary ! clamp_index (second_count - 7);
          status = (adjusted_agreement > primary_limit \<or> adjusted_agreement > secondary_limit \<or> first_count \<ge> 14);
          confidence = (status \<and> quality_a > 15 \<and> quality_b \<ge> 65 \<and>
                        confident_candidate rec first_count second_count agreement adjusted_agreement);
          special = (\<not> (first_count > 20 \<and> adjusted_agreement \<ge> 185 \<or> adjusted_agreement \<ge> 205 \<or>
                        adjusted_agreement \<ge> primary_limit + 10 \<or> adjusted_agreement \<ge> secondary_limit + 10))
      in \<lparr> ev_confidence = (if confidence then
              (if sr_geometry_count rec > 7 \<and> sr_secondary_geometry_count rec > 11 \<and> sr_geometry_percent rec > 35 then 2 else 1)
              else 0),
           ev_status = of_bool status, ev_special = of_bool special \<rparr>)"

definition goodix_chicago_match_aggregation_consume_type24 ::
    "aggregation \<Rightarrow> score_record \<Rightarrow> int \<Rightarrow> int \<Rightarrow> int \<Rightarrow> bool \<times> aggregation" where
  "goodix_chicago_match_aggregation_consume_type24 a rec quality_a quality_b selector_threshold =
     (let evidence = goodix_chicago_match_scheduler_evidence_type24 rec quality_a quality_b True
      in if \<not> goodix_chicago_match_accept_type24 (sr_selector rec) (sr_agreement rec) (ev_status evidence) selector_threshold
         then (False, a)
         else (True, goodix_chicago_match_aggregation_add_geometry a (sr_secondary_geometry_count rec) 31))"

section \<open>The fallback\<close>

definition goodix_chicago_match_aggregation_consume_fallback_type24 ::
    "aggregation \<Rightarrow> int \<Rightarrow> int \<Rightarrow> int \<Rightarrow> int \<Rightarrow> int \<Rightarrow> bool \<times> aggregation" where
  "goodix_chicago_match_aggregation_consume_fallback_type24 a geometry_count selector agreement cover selector_threshold =
     (if geometry_count \<le> 4 then (False, a)
      else
        let a1 = a\<lparr> ag_fallback_evaluated_count := 1 \<rparr>
        in if selector \<le> selector_threshold \<or> agreement \<le> 195 then (False, a1)
           else
             let a2 = a1\<lparr> ag_fallback_geometry_sum := i32 (ag_fallback_geometry_sum a1 + geometry_count),
                          ag_fallback_max_metric := max (ag_fallback_max_metric a1) agreement \<rparr>
             in (True,
                 if agreement > ag_fallback_best_metric a2 \<or>
                    agreement = ag_fallback_best_metric a2 \<and> geometry_count > ag_fallback_best_geometry a2 \<or>
                    agreement = ag_fallback_best_metric a2 \<and> geometry_count = ag_fallback_best_geometry a2 \<and>
                      cover > ag_fallback_best_coverage a2
                 then a2\<lparr> ag_fallback_best_metric := agreement, ag_fallback_best_geometry := geometry_count,
                           ag_fallback_best_coverage := cover \<rparr>
                 else a2))"

text \<open>The pairs after a search for correspondences, and the geometry over all of them.\<close>

definition pairs_after :: "(int \<times> int) list \<Rightarrow> ((int \<times> int) list \<times> nat) option \<Rightarrow> (int \<times> int) list" where
  "pairs_after unset found = (case found of None \<Rightarrow> unset | Some (pairs, n) \<Rightarrow> pairs)"

definition records_geometry :: "feature_record list \<Rightarrow> feature_record list \<Rightarrow> (int \<times> int) list \<Rightarrow> nat \<Rightarrow> match_geometry" where
  "records_geometry gallery probes pairs minimum_inliers =
     (case goodix_chicago_match_geometry_consensus_records gallery probes pairs minimum_inliers of
        None \<Rightarrow> geometry_start | Some geometry \<Rightarrow> geometry)"

definition goodix_chicago_match_aggregation_consume_fallback_records_type24 ::
    "(int \<times> int) list \<Rightarrow> aggregation \<Rightarrow> feature_record list \<Rightarrow> nat \<Rightarrow> metric_data option \<Rightarrow>
     feature_record list \<Rightarrow> nat \<Rightarrow> metric_data option \<Rightarrow> int \<Rightarrow> bool \<times> aggregation" where
  "goodix_chicago_match_aggregation_consume_fallback_records_type24 unset a gallery gallery_split gallery_metric
       probes probe_split probe_metric selector_threshold =
     (let pairs = pairs_after unset (goodix_chicago_match_fallback_correspondences gallery gallery_split probes probe_split);
          geometry = records_geometry gallery probes pairs 4
      in if geo_inlier_count geometry > 4 then
           (case (gallery_metric, probe_metric) of
              (Some gm, Some pm) \<Rightarrow>
                (case goodix_chicago_enrollment_calculate_config1_metrics pm gm (geo_transform geometry) of
                   (selector, agreement, cover) \<Rightarrow>
                     goodix_chicago_match_aggregation_consume_fallback_type24 a (int (geo_inlier_count geometry))
                       selector agreement cover selector_threshold)
            | _ \<Rightarrow> (False, a))
         else goodix_chicago_match_aggregation_consume_fallback_type24 a (int (geo_inlier_count geometry)) 0 0 0 selector_threshold)"

definition goodix_chicago_match_fallback_gallery_enabled_type24 :: "int \<Rightarrow> int \<Rightarrow> int \<Rightarrow> bool" where
  "goodix_chicago_match_fallback_gallery_enabled_type24 primary_geometry_count scratch_state gallery_state \<longleftrightarrow>
     scratch_state = 0 \<and> gallery_state = 1 \<and> primary_geometry_count \<ge> 3"

definition goodix_chicago_match_init_score_config_type24 :: "int list" where
  "goodix_chicago_match_init_score_config_type24 =
     [0, 0, 5, 218, 0, 0, 23, 47, 40, 38, -1, 16, 137, 1, 0, 24, 1, 0, 0, 0, 0, 0]"

section \<open>Relations for the capacity selector\<close>

definition capacity_relation_is_accepted :: "nat \<Rightarrow> int \<Rightarrow> int \<Rightarrow> bool" where
  "capacity_relation_is_accepted inliers selector_score metric_a \<longleftrightarrow>
     inliers \<ge> 15 \<or> inliers \<ge> 10 \<and> (selector_score > 210 \<or> metric_a \<ge> 205) \<or>
     inliers \<ge> 7 \<and> (selector_score > 220 \<or> metric_a \<ge> 210) \<or> inliers \<ge> 5 \<and> (selector_score > 228 \<or> metric_a \<ge> 215)"

text \<open>The indices of a pair are read with the probe first, as the code has it.\<close>

definition goodix_chicago_match_build_capacity_relation :: "subtemplate_view \<Rightarrow> subtemplate_view \<Rightarrow> relation \<Rightarrow> relation" where
  "goodix_chicago_match_build_capacity_relation gallery probe old_relation =
     (let gs = view_records gallery; ps = view_records probe;
          pairs = (case ordinary_correspondences_with_gates gs (v_active_count gallery) ps (v_active_count probe) 22 45 of
                     None \<Rightarrow> [] | Some (pairs, n) \<Rightarrow> take n pairs);
          valid = filter (valid_pair (length ps) (length gs)) pairs;
          probe_side = map (\<lambda>p. ps ! nat (fst p)) valid; gallery_side = map (\<lambda>p. gs ! nat (snd p)) valid;
          geometry = (case goodix_chicago_match_estimate_geometry (map match_point gallery_side) (map match_point probe_side)
                        (map record_orientation probe_side) (map record_orientation gallery_side) 2 True of
                        None \<Rightarrow> geometry_start | Some g \<Rightarrow> g);
          (selector_score, metric_a, metric_b) =
            (case (v_metric gallery, v_metric probe) of
               (Some gm, Some pm) \<Rightarrow>
                 if geo_inlier_count geometry > 4
                 then goodix_chicago_enrollment_calculate_config1_metrics pm gm (geo_transform geometry) else (0, 0, 0)
             | _ \<Rightarrow> (0, 0, 0))
      in if capacity_relation_is_accepted (geo_inlier_count geometry) selector_score metric_a
         then \<lparr> inlier_count = int (geo_inlier_count geometry), rel_transform = geo_transform geometry \<rparr>
         else \<lparr> inlier_count = -1, rel_transform = identity_group_transform \<rparr>)"

section \<open>The score of one sample\<close>

definition blank_score :: "subtemplate_view \<Rightarrow> subtemplate_view \<Rightarrow> score_record" where
  "blank_score gallery probe =
     \<lparr> sr_geometry_count = 0, sr_secondary_geometry_count = 0, sr_selector = 0, sr_agreement = 0, sr_study_metric_18 = 0,
       sr_study_metric_1c = 0, sr_study_metric_20 = 0, sr_normalized_coverage = 0, sr_matched_percent = 0,
       sr_geometry_percent = 0, sr_penalty_flag_a = 0, sr_penalty_flag_b = 0,
       sr_probe_quality = int (v_quality probe), sr_probe_coverage = int (v_coverage probe),
       sr_gallery_quality = int (v_quality gallery), sr_gallery_coverage = int (v_coverage gallery) \<rparr>"

text \<open>The metrics of a geometry, as the code writes them into the record.\<close>

definition score_metrics :: "metric_data \<Rightarrow> metric_data \<Rightarrow> transform \<Rightarrow> score_record \<Rightarrow> score_record" where
  "score_metrics pm gm t r =
     (case goodix_chicago_enrollment_calculate_config1_metrics pm gm t of (selector, agreement, cover) \<Rightarrow>
        let r1 = r\<lparr> sr_selector := selector, sr_agreement := agreement, sr_normalized_coverage := drop_bit 8 (cover * 137) \<rparr>
        in case goodix_chicago_enrollment_calculate_study_metrics pm gm t of
             None \<Rightarrow> r1
           | Some (s18, s1c, s20) \<Rightarrow>
               r1\<lparr> sr_study_metric_18 := int s18, sr_study_metric_1c := int s1c, sr_study_metric_20 := int s20 \<rparr>)"

definition goodix_chicago_match_score_subtemplate_type24 ::
    "(int \<times> int) list \<Rightarrow> subtemplate_view \<Rightarrow> subtemplate_view \<Rightarrow> score_record \<times> match_geometry" where
  "goodix_chicago_match_score_subtemplate_type24 unset gallery probe =
     (let gs = view_records gallery; ps = view_records probe;
          pairs = pairs_after unset (goodix_chicago_match_ordinary_correspondences gs (v_active_count gallery) ps (v_active_count probe));
          geometry = records_geometry gs ps pairs 3; inliers = int (geo_inlier_count geometry);
          r = (blank_score gallery probe)\<lparr> sr_geometry_count := inliers, sr_secondary_geometry_count := inliers \<rparr>
      in case (v_metric gallery, v_metric probe) of
           (Some gm, Some pm) \<Rightarrow>
             if inliers < 3 then (r, geometry)
             else
               let r1 = score_metrics pm gm (geo_transform geometry) r
               in if inliers \<le> 4 then (r1, geometry)
                  else
                    let overlap = goodix_chicago_match_feature_overlap_type24 gs ps 80 64 (geo_transform geometry) inliers
                    in (r1\<lparr> sr_matched_percent := matched_percent overlap, sr_geometry_percent := geometry_percent overlap \<rparr>,
                        geometry)
         | _ \<Rightarrow> (r, geometry))"

section \<open>Resolution evidence and auxiliary counts\<close>

definition goodix_chicago_match_decode_probe_resolution_evidence :: "nat \<Rightarrow> int \<times> int" where
  "goodix_chicago_match_decode_probe_resolution_evidence packed =
     (let second_part = int ((packed div 2 ^ 8) mod 8) in (int (packed mod 4), if second_part > 0 then second_part + 4 else 0))"

definition goodix_chicago_match_decode_gallery_resolution_evidence :: "nat \<Rightarrow> int \<times> int" where
  "goodix_chicago_match_decode_gallery_resolution_evidence packed =
     ([0, 2, 2, 3] ! (packed mod 4), [0, 1, 2, 4, 5, 5, 0, 0] ! ((packed div 2 ^ 8) mod 8))"

record scheduler_auxiliary =
  sa_auxiliary_count :: int
  sa_raised :: bool

definition goodix_chicago_match_scheduler_auxiliary_init_type24 :: "nat \<Rightarrow> scheduler_auxiliary" where
  "goodix_chicago_match_scheduler_auxiliary_init_type24 packed =
     \<lparr> sa_auxiliary_count = snd (goodix_chicago_match_decode_gallery_resolution_evidence packed), sa_raised = False \<rparr>"

definition goodix_chicago_match_scheduler_auxiliary_consume_type24 ::
    "scheduler_auxiliary \<Rightarrow> nat \<Rightarrow> int \<Rightarrow> int \<times> scheduler_auxiliary" where
  "goodix_chicago_match_scheduler_auxiliary_consume_type24 s packed prior_rejection_count =
     (let evidence = snd (goodix_chicago_match_decode_gallery_resolution_evidence packed);
          combined = min (sa_auxiliary_count s + evidence) 5;
          s1 = (if evidence > 3 then s\<lparr> sa_auxiliary_count := max (sa_auxiliary_count s) evidence \<rparr> else s);
          s2 = (if prior_rejection_count > 5 \<and> sa_auxiliary_count s1 < 5 \<and> \<not> sa_raised s1
                then s1\<lparr> sa_auxiliary_count := sa_auxiliary_count s1 + 1, sa_raised := True \<rparr> else s1)
      in (combined, s2))"

definition goodix_chicago_match_study_aggregate_q8_type24 :: "int \<Rightarrow> int \<Rightarrow> int \<Rightarrow> int" where
  "goodix_chicago_match_study_aggregate_q8_type24 count_zero count_mixed count_one =
     (if \<not> count_zero \<ge> 0 \<or> \<not> count_mixed \<ge> 0 \<or> \<not> count_one \<ge> 0 \<or>
         \<not> i32 (i32 (count_zero + count_mixed) + count_one) \<le> 1280 then 0
      else ((count_zero + count_one) * 256) sdiv (count_zero + count_mixed + count_one + 1))"

section \<open>Filters of candidates and of study\<close>

text \<open>The weak records of the second test; the code reads the record as an array of integers.\<close>

definition weak_prefilter_record :: "score_record \<Rightarrow> int \<Rightarrow> int \<Rightarrow> bool" where
  "weak_prefilter_record rec auxiliary_count candidate_metric \<longleftrightarrow>
     (let metric_24 = sr_normalized_coverage rec; count_4 = sr_secondary_geometry_count rec; metric_20 = sr_study_metric_20 rec;
          agree = sr_agreement rec; percent = sr_geometry_percent rec
      in auxiliary_count > 1 \<and>
         (metric_24 < 60 \<and> count_4 < 9 \<and> agree < 214 \<and> metric_20 < 213 \<or>
          metric_24 < 98 \<and> count_4 < 15 \<and> metric_20 < 202 \<and> agree < 205 \<and> percent < 30 \<or>
          metric_24 < 109 \<and> count_4 < 15 \<and> metric_20 < 203 \<and> agree < 193 \<and> percent < 27 \<or>
          metric_24 < 105 \<and> count_4 < 17 \<and> auxiliary_count > 2 \<and> agree < 200 \<and> percent < 37 \<or>
          metric_24 < 93 \<and> count_4 < 10 \<and> auxiliary_count > 2 \<and> agree < 215 \<and> percent < 24 \<or>
          candidate_metric > 0 \<and> metric_24 < 95 \<and> count_4 < 10 \<and> metric_20 < 210 \<and> agree < 205 \<and> percent < 31))"

definition goodix_chicago_match_candidate_prefilter_type24 :: "score_record \<Rightarrow> int \<Rightarrow> int \<Rightarrow> bool" where
  "goodix_chicago_match_candidate_prefilter_type24 rec auxiliary_count candidate_metric =
     (if candidate_metric < 4 \<or>
         (sr_agreement rec > 204 \<or> sr_geometry_count rec > 15) \<and> (sr_agreement rec > 209 \<or> sr_geometry_count rec > 6)
      then
        if candidate_metric > 2 then
          if sr_agreement rec > 189 \<or> sr_geometry_percent rec > 29 \<or> sr_selector rec > 209 then
            if auxiliary_count < 2 then False
            else if sr_agreement rec > 199 \<or> sr_geometry_percent rec > 34 \<or> sr_selector rec > 224 then False
            else True
          else True
        else weak_prefilter_record rec auxiliary_count candidate_metric
      else True)"

record study_admission_input =
  in_auxiliary_count :: int
  in_candidate_metric :: int
  in_probe_quality :: int
  in_probe_auxiliary :: int
  in_aggregate_metric :: int

definition scaled_coverage :: "score_record \<Rightarrow> int" where
  "scaled_coverage rec = drop_bit 8 (i32 (sr_geometry_percent rec * sr_normalized_coverage rec))"

definition auxiliary_bars_study :: "score_record \<Rightarrow> study_admission_input \<Rightarrow> bool" where
  "auxiliary_bars_study rec input \<longleftrightarrow>
     in_auxiliary_count input \<ge> 1 \<and> sr_geometry_count rec < 10 \<and> sr_normalized_coverage rec < 180 \<and>
       sr_geometry_percent rec < 20 \<and> sr_agreement rec \<le> 210 \<and> sr_study_metric_20 rec < 195 \<and> sr_matched_percent rec < 40 \<or>
     in_probe_auxiliary input \<ge> 1 \<and> sr_geometry_count rec < 10 \<and> sr_geometry_percent rec < 40 \<and>
       sr_normalized_coverage rec < 80 \<and> sr_agreement rec \<le> 218 \<and> sr_study_metric_20 rec < 205 \<and> sr_matched_percent rec < 70"

definition low_evidence :: "score_record \<Rightarrow> study_admission_input \<Rightarrow> bool" where
  "low_evidence rec input \<longleftrightarrow>
     in_auxiliary_count input \<ge> 5 \<and> in_candidate_metric input \<ge> 1 \<and> sr_matched_percent rec < 47 \<and>
     in_probe_quality input < 58 \<and> scaled_coverage rec < 11"

definition inspect_weak_evidence :: "score_record \<Rightarrow> study_admission_input \<Rightarrow> bool" where
  "inspect_weak_evidence rec input \<longleftrightarrow>
     in_auxiliary_count input \<ge> 3 \<and> in_candidate_metric input \<ge> 4 \<and> in_probe_quality input < 80 \<and> sr_matched_percent rec < 70 \<or>
     in_auxiliary_count input \<ge> 2 \<and> in_candidate_metric input \<ge> 2 \<and> in_probe_quality input < 55 \<and> scaled_coverage rec < 20"

definition weak_evidence :: "score_record \<Rightarrow> study_admission_input \<Rightarrow> bool" where
  "weak_evidence rec input \<longleftrightarrow>
     sr_geometry_count rec \<le> 18 \<and> sr_agreement rec \<le> 200 \<and> sr_study_metric_20 rec < 200 \<and> scaled_coverage rec < 15 \<or>
     sr_geometry_count rec \<le> 12 \<and>
       (in_auxiliary_count input \<ge> 4 \<and> sr_agreement rec \<le> 200 \<and> sr_study_metric_20 rec < 200 \<or>
        sr_agreement rec \<le> 215 \<and> sr_study_metric_20 rec < 210 \<and> scaled_coverage rec < 18) \<or>
     sr_geometry_count rec \<le> 10 \<and>
       (sr_agreement rec \<le> 210 \<and> sr_study_metric_20 rec < 215 \<and> scaled_coverage rec < 15 \<or>
        sr_agreement rec \<le> 200 \<and> sr_study_metric_20 rec < 200)"

definition study_is_barred :: "score_record \<Rightarrow> study_admission_input \<Rightarrow> bool" where
  "study_is_barred rec input \<longleftrightarrow>
     in_auxiliary_count input \<ge> 4 \<and> in_candidate_metric input = 1 \<and> in_probe_quality input < 50 \<and> in_aggregate_metric input \<ge> 220 \<or>
     in_auxiliary_count input \<ge> 3 \<and> in_candidate_metric input \<ge> 2 \<and> in_probe_quality input < 50 \<and>
       sr_geometry_count rec \<le> 7 \<and> sr_agreement rec \<le> 202 \<and> sr_study_metric_20 rec < 200 \<and>
       scaled_coverage rec < 17 \<and> sr_normalized_coverage rec < 170 \<or>
     in_auxiliary_count input \<ge> 2 \<and> in_candidate_metric input \<ge> 3 \<and> in_aggregate_metric input \<ge> 150 \<and>
       sr_agreement rec \<le> 200 \<and> sr_study_metric_20 rec < 200 \<and> scaled_coverage rec < 17 \<or>
     in_auxiliary_count input \<ge> 2 \<and> in_probe_quality input < 35 \<and> sr_agreement rec < 208 \<and>
       sr_study_metric_20 rec < 197 \<and> scaled_coverage rec < 20"

definition weak_source :: "score_record \<Rightarrow> study_admission_input \<Rightarrow> bool" where
  "weak_source rec input \<longleftrightarrow>
     in_auxiliary_count input \<ge> 5 \<and> sr_geometry_count rec \<le> 5 \<or>
     in_auxiliary_count input \<ge> 4 \<and> sr_geometry_count rec \<le> 7 \<and> sr_geometry_percent rec < 25 \<or>
     in_auxiliary_count input \<ge> 2 \<and>
       (sr_geometry_count rec \<le> 7 \<and> sr_study_metric_20 rec < 215 \<and> sr_study_metric_1c rec < 165 \<or>
        sr_geometry_count rec \<le> 10 \<and> sr_study_metric_20 rec < 210 \<and> sr_study_metric_1c rec < 155 \<or>
        sr_geometry_count rec \<le> 11 \<and> sr_study_metric_20 rec < 192 \<and> sr_study_metric_1c rec < 90)"

definition very_weak_source :: "score_record \<Rightarrow> bool" where
  "very_weak_source rec \<longleftrightarrow>
     sr_geometry_count rec < 6 \<and> sr_study_metric_20 rec < 210 \<and> sr_study_metric_1c rec < 135 \<or>
     sr_geometry_count rec \<le> 11 \<and> sr_study_metric_20 rec < 192 \<and> sr_study_metric_1c rec < 90"

text \<open>The status and the eligibility after the filter.\<close>

definition goodix_chicago_match_filter_study_admission_type24 ::
    "score_record \<Rightarrow> study_admission_input \<Rightarrow> int \<Rightarrow> int \<Rightarrow> int \<times> int" where
  "goodix_chicago_match_filter_study_admission_type24 rec input status eligible =
     (let eligible1 = (if auxiliary_bars_study rec input then 0 else eligible)
      in if in_auxiliary_count input < 2 \<and> in_candidate_metric input = 0 then (status, eligible1)
         else if status = 0 then (status, eligible1)
         else
           let (status2, eligible2) = (if status = 1 \<and> low_evidence rec input then (0, 0) else (status, eligible1));
               (status3, eligible3) = (if status2 = 1 \<and> inspect_weak_evidence rec input \<and> weak_evidence rec input
                                       then (0, 0) else (status2, eligible2))
           in if study_is_barred rec input then (status3, 0)
              else if \<not> weak_source rec input then (status3, eligible3)
              else (if very_weak_source rec then 0 else status3, 0))"

section \<open>The match of a template\<close>

record template_result =
  tr_score :: int
  tr_selected_index :: int
  tr_selected_index_known :: bool
  tr_study_auxiliary_count :: int
  tr_study_auxiliary_count_known :: bool
  tr_study_candidate_metric :: int
  tr_study_eligible :: bool
  tr_study_eligibility_known :: bool
  tr_study_relation_count :: nat
  tr_study_relations :: "relation list"

definition zero_relation :: relation where
  "zero_relation = \<lparr> inlier_count = 0, rel_transform = mk_transform 0 0 0 0 0 0 \<rparr>"

definition fresh_result :: "nat \<Rightarrow> template_result" where
  "fresh_result gallery_count = \<lparr> tr_score = 0, tr_selected_index = -1, tr_selected_index_known = False,
     tr_study_auxiliary_count = 0, tr_study_auxiliary_count_known = False, tr_study_candidate_metric = 0,
     tr_study_eligible = False, tr_study_eligibility_known = False, tr_study_relation_count = gallery_count,
     tr_study_relations = replicate ENROLLMENT_CAPACITY zero_relation \<rparr>"

text \<open>The locals of the gallery loop. \<open>mr_geometry_counts\<close> is the only part of the records that is read
  after the loop.\<close>

record match_run =
  mr_aggregation :: aggregation
  mr_geometry_counts :: "int list"
  mr_late_rejected :: "bool list"
  mr_scheduler :: scheduler_auxiliary
  mr_study_eligible_any :: bool
  mr_best_candidate_score :: int
  mr_rejection_count :: int
  mr_result :: template_result

text \<open>What happens to a candidate that the late rejection keeps: the study filter, acceptance, and the
  update of the selected sample. The last component tells whether the loop ends here.\<close>

definition admit_match_candidate ::
    "subtemplate_view \<Rightarrow> int \<Rightarrow> int \<Rightarrow> nat \<Rightarrow> score_record \<Rightarrow> transform \<Rightarrow> int \<Rightarrow> int \<Rightarrow> match_run \<Rightarrow> match_run \<times> bool" where
  "admit_match_candidate probe selector_threshold candidate_metric index rec t status confidence run =
     (let auxiliary_count = sa_auxiliary_count (mr_scheduler run);
          (count_zero, count_mixed, count_one) =
            (if candidate_metric \<ge> 3
             then goodix_chicago_enrollment_calculate_live_auxiliary_counts_type24 (v_live_auxiliary probe) t else (0, 0, 0));
          input = \<lparr> in_auxiliary_count = auxiliary_count, in_candidate_metric = candidate_metric,
                    in_probe_quality = int (v_quality probe), in_probe_auxiliary = int (v_density_positive_percent probe),
                    in_aggregate_metric = goodix_chicago_match_study_aggregate_q8_type24 (int count_zero) (int count_mixed) (int count_one) \<rparr>;
          (status', eligible') = goodix_chicago_match_filter_study_admission_type24 rec input status confidence;
          run1 = run\<lparr> mr_study_eligible_any := mr_study_eligible_any run \<or> eligible' \<noteq> 0 \<rparr>
      in if \<not> goodix_chicago_match_accept_type24 (sr_selector rec) (sr_agreement rec) status' selector_threshold
         then (run1, False)
         else
           let run2 = run1\<lparr> mr_aggregation :=
                 goodix_chicago_match_aggregation_add_geometry (mr_aggregation run1) (sr_secondary_geometry_count rec) 31 \<rparr>
           in (if status' \<noteq> 0 \<and> sr_secondary_geometry_count rec > mr_best_candidate_score run2
               then run2\<lparr> mr_best_candidate_score := sr_secondary_geometry_count rec,
                          mr_result := (mr_result run2)\<lparr> tr_selected_index := int index,
                            tr_study_auxiliary_count := auxiliary_count, tr_study_auxiliary_count_known := True,
                            tr_study_candidate_metric := candidate_metric \<rparr> \<rparr>
               else run2, True))"

text \<open>One candidate of the gallery, once its index and its view are known.\<close>

definition match_candidate_step ::
    "(int \<times> int) list \<Rightarrow> subtemplate_view \<Rightarrow> int \<Rightarrow> int \<Rightarrow> nat \<Rightarrow> subtemplate_view \<Rightarrow> metric_data \<Rightarrow> match_run \<Rightarrow> match_run \<times> bool" where
  "match_candidate_step unset probe selector_threshold candidate_metric index gallery gallery_metric run =
     (let (combined, scheduler) = goodix_chicago_match_scheduler_auxiliary_consume_type24 (mr_scheduler run)
            (packed_resolution gallery_metric) (mr_rejection_count run);
          (rec, geometry) = goodix_chicago_match_score_subtemplate_type24 unset gallery probe;
          run1 = run\<lparr> mr_scheduler := scheduler,
                      mr_geometry_counts := (mr_geometry_counts run)[index := sr_geometry_count rec] \<rparr>
      in if goodix_chicago_match_candidate_prefilter_type24 rec (sa_auxiliary_count scheduler) candidate_metric then (run1, False)
         else
           let evidence = goodix_chicago_match_scheduler_evidence_type24 rec (int (v_quality probe)) (int (v_coverage probe)) True;
               run2 = (if ev_status evidence = 1
                       then run1\<lparr> mr_result := (mr_result run1)\<lparr> tr_study_relations := (tr_study_relations (mr_result run1))[index :=
                              \<lparr> inlier_count = int (geo_inlier_count geometry), rel_transform = geo_transform geometry \<rparr>] \<rparr> \<rparr>
                       else run1);
               (late, rejection_count, status) = goodix_chicago_match_late_rejection_type24 80 64 (int (v_quality probe)) rec
                 (geo_transform geometry) (sa_auxiliary_count scheduler) candidate_metric combined
                 (mr_rejection_count run2) (ev_status evidence);
               run3 = run2\<lparr> mr_rejection_count := rejection_count, mr_late_rejected := (mr_late_rejected run2)[index := late] \<rparr>
           in if late then (run3, False)
              else admit_match_candidate probe selector_threshold candidate_metric index rec (geo_transform geometry)
                     status (ev_confidence evidence) run3)"

text \<open>The loop over the schedule; \<open>None\<close> when it would read through a null metric pointer.\<close>

fun match_gallery ::
    "(int \<times> int) list \<Rightarrow> enrollment \<Rightarrow> subtemplate_view \<Rightarrow> int \<Rightarrow> int \<Rightarrow> nat list \<Rightarrow> match_run \<Rightarrow> match_run option" where
  "match_gallery unset self probe selector_threshold candidate_metric [] run = Some run"
| "match_gallery unset self probe selector_threshold candidate_metric (schedule_index # schedule) run =
     (case goodix_chicago_enrollment_get_match_order_index self schedule_index of
        None \<Rightarrow> match_gallery unset self probe selector_threshold candidate_metric schedule run
      | Some index \<Rightarrow>
          case goodix_chicago_enrollment_get_subtemplate self index of
            None \<Rightarrow> match_gallery unset self probe selector_threshold candidate_metric schedule run
          | Some gallery \<Rightarrow>
              case v_metric gallery of
                None \<Rightarrow> None
              | Some gallery_metric \<Rightarrow>
                  case match_candidate_step unset probe selector_threshold candidate_metric index gallery gallery_metric run of
                    (run', stop) \<Rightarrow>
                      if stop then Some run'
                      else match_gallery unset self probe selector_threshold candidate_metric schedule run')"

definition fallback_step ::
    "(int \<times> int) list \<Rightarrow> enrollment \<Rightarrow> subtemplate_view \<Rightarrow> int \<Rightarrow> match_run \<Rightarrow> aggregation \<Rightarrow> nat \<Rightarrow> aggregation" where
  "fallback_step unset self probe selector_threshold run a schedule_index =
     (case goodix_chicago_enrollment_get_match_order_index self schedule_index of
        None \<Rightarrow> a
      | Some index \<Rightarrow>
          case goodix_chicago_enrollment_get_subtemplate self index of
            None \<Rightarrow> a
          | Some gallery \<Rightarrow>
              if mr_late_rejected run ! index \<or>
                 \<not> goodix_chicago_match_fallback_gallery_enabled_type24 (mr_geometry_counts run ! index) 0 1 then a
              else snd (goodix_chicago_match_aggregation_consume_fallback_records_type24 unset a (view_records gallery)
                     (v_active_count gallery) (v_metric gallery) (view_records probe) (v_active_count probe)
                     (v_metric probe) selector_threshold))"

definition start_run :: "nat \<Rightarrow> nat \<Rightarrow> match_run" where
  "start_run gallery_count packed =
     \<lparr> mr_aggregation = zero_aggregation, mr_geometry_counts = replicate ENROLLMENT_CAPACITY 0,
       mr_late_rejected = replicate ENROLLMENT_CAPACITY False,
       mr_scheduler = goodix_chicago_match_scheduler_auxiliary_init_type24 packed,
       mr_study_eligible_any = False, mr_best_candidate_score = 0, mr_rejection_count = 0,
       mr_result = fresh_result gallery_count \<rparr>"

text \<open>A gallery larger than the tables ends in the early return that leaves the fresh result with
  relation count 0.\<close>

definition goodix_chicago_match_template_type24 ::
    "(int \<times> int) list \<Rightarrow> enrollment \<Rightarrow> subtemplate_view \<Rightarrow> int \<Rightarrow> template_result option" where
  "goodix_chicago_match_template_type24 unset self probe selector_threshold =
     (let gallery_count = goodix_chicago_enrollment_get_count self
      in if \<not> gallery_count \<le> ENROLLMENT_CAPACITY then Some (fresh_result 0)
         else case v_metric probe of
           None \<Rightarrow> None
         | Some probe_metric \<Rightarrow>
             map_option (\<lambda>run.
                if ag_accepted_count (mr_aggregation run) > 0 then
                  (mr_result run)\<lparr> tr_score := goodix_chicago_match_aggregation_score (mr_aggregation run),
                    tr_selected_index_known := tr_selected_index (mr_result run) \<ge> 0,
                    tr_study_eligible := mr_study_eligible_any run, tr_study_eligibility_known := True \<rparr>
                else
                  (mr_result run)\<lparr> tr_score := goodix_chicago_match_aggregation_score
                     (foldl (fallback_step unset self probe selector_threshold run) (mr_aggregation run) [0..<gallery_count]) \<rparr>)
               (match_gallery unset self probe selector_threshold (uint (v_live_auxiliary probe ! 0)) [0..<gallery_count]
                  (start_run gallery_count (packed_resolution probe_metric))))"

definition goodix_chicago_match_score_template_type24 ::
    "(int \<times> int) list \<Rightarrow> enrollment \<Rightarrow> subtemplate_view \<Rightarrow> int \<Rightarrow> int option" where
  "goodix_chicago_match_score_template_type24 unset self probe selector_threshold =
     map_option tr_score (goodix_chicago_match_template_type24 unset self probe selector_threshold)"

section \<open>Bounds on the geometry of a sample\<close>

lemma consensus_records_bound:
  assumes "length pairs \<le> 31"
  shows "\<exists>g. goodix_chicago_match_geometry_consensus_records gallery probes pairs minimum_inliers = Some g \<and>
    geo_inlier_count g \<le> 31 \<and> length (geo_inliers g) = GEOMETRY_LIMIT"
proof -
  define valid where "valid = take GEOMETRY_LIMIT (filter (valid_pair (length gallery) (length probes)) pairs)"
  define src where "src = map match_point (map (\<lambda>p. probes ! nat (snd p)) valid)"
  define tgt where "tgt = map match_point (map (\<lambda>p. gallery ! nat (fst p)) valid)"
  define ts where "ts = map record_orientation (map (\<lambda>p. gallery ! nat (fst p)) valid)"
  define ss where "ss = map record_orientation (map (\<lambda>p. probes ! nat (snd p)) valid)"
  have "length (filter (valid_pair (length gallery) (length probes)) pairs) \<le> 31"
    using length_filter_le assms by (rule le_trans)
  then have n: "length src \<le> 31" "length src = length tgt" by (simp_all add: valid_def src_def tgt_def)
  have "goodix_chicago_match_estimate_geometry src tgt ts ss minimum_inliers True \<noteq> None"
    using n(1) by (simp add: goodix_chicago_match_estimate_geometry_def split: prod.splits)
  then obtain e where e: "goodix_chicago_match_estimate_geometry src tgt ts ss minimum_inliers True = Some e" by blast
  obtain g where g: "goodix_chicago_match_geometry_consensus src tgt ts ss minimum_inliers = Some g"
    "geo_inlier_count g = card {k. k < length src \<and> geo_inliers g ! k}"
    "geo_inliers g = map (\<lambda>k. geo_inliers e ! k \<and> (k < length src \<longrightarrow> rotation_agrees (geo_transform e) ts ss k)) [0..<GEOMETRY_LIMIT]"
    by (rule consensus_ok [OF n(2) e, THEN exE]) (elim conjE, rule that)
  have "card {k. k < length src \<and> geo_inliers g ! k} \<le> card {0..<length src}" by (intro card_mono) auto
  then have "geo_inlier_count g \<le> 31" using g(2) n(1) by simp
  moreover have "length (geo_inliers g) = GEOMETRY_LIMIT" unfolding g(3) by simp
  moreover have "goodix_chicago_match_geometry_consensus_records gallery probes pairs minimum_inliers = Some g"
    using g(1) by (simp add: goodix_chicago_match_geometry_consensus_records_def Let_def src_def tgt_def ts_def ss_def valid_def)
  ultimately show ?thesis by blast
qed

lemma records_geometry_bound: "length pairs \<le> 31 \<Longrightarrow> geo_inlier_count (records_geometry gallery probes pairs m) \<le> 31"
  using consensus_records_bound [of pairs gallery probes m] by (auto simp: records_geometry_def)

lemma ordinary_pairs_length:
  assumes "length unset = 31"
  shows "length (pairs_after unset (goodix_chicago_match_ordinary_correspondences gallery gs probes ps)) = 31"
  using ordinary_correspondences_ok [of gallery gs probes ps] assms
  by (auto simp: pairs_after_def pairs_ok_def split: option.splits)

lemma score_metrics_counts [simp]:
  "sr_geometry_count (score_metrics pm gm t r) = sr_geometry_count r"
  "sr_secondary_geometry_count (score_metrics pm gm t r) = sr_secondary_geometry_count r"
  by (simp_all add: score_metrics_def Let_def split: prod.split option.split)

lemma score_subtemplate_geometry:
  assumes "length unset = 31" and "goodix_chicago_match_score_subtemplate_type24 unset gallery probe = (rec, geometry)"
  shows "sr_geometry_count rec = int (geo_inlier_count geometry)" "sr_secondary_geometry_count rec = int (geo_inlier_count geometry)"
    "geo_inlier_count geometry \<le> 31"
proof -
  let ?pairs = "pairs_after unset (goodix_chicago_match_ordinary_correspondences (view_records gallery) (v_active_count gallery)
      (view_records probe) (v_active_count probe))"
  have g: "geometry = records_geometry (view_records gallery) (view_records probe) ?pairs 3"
    using assms(2) by (auto simp: goodix_chicago_match_score_subtemplate_type24_def Let_def split: option.splits if_splits)
  show "geo_inlier_count geometry \<le> 31"
    unfolding g by (rule records_geometry_bound) (simp add: ordinary_pairs_length assms(1))
  show "sr_geometry_count rec = int (geo_inlier_count geometry)" "sr_secondary_geometry_count rec = int (geo_inlier_count geometry)"
    using assms(2) g by (auto simp: goodix_chicago_match_score_subtemplate_type24_def Let_def split: option.splits if_splits)
qed

section \<open>No status is raised\<close>

lemma late_rejection_status:
  assumes "goodix_chicago_match_late_rejection_type24 w h q rec t cur cand comb rc st = (late, rc', st')"
  shows "st' = st \<or> st' = 0"
  using assms by (auto simp: goodix_chicago_match_late_rejection_type24_def match_late_rejection_policy_type24_def Let_def split: if_splits)

lemma study_admission_lowers:
  assumes "goodix_chicago_match_filter_study_admission_type24 rec input status eligible = (status', eligible')"
  shows "(status' = status \<or> status' = 0) \<and> (eligible' = eligible \<or> eligible' = 0)"
proof -
  have "fst r = status \<or> fst r = 0" "snd r = eligible \<or> snd r = 0"
    if "r = goodix_chicago_match_filter_study_admission_type24 rec input status eligible" for r
    unfolding that goodix_chicago_match_filter_study_admission_type24_def Let_def by (simp_all split: prod.split)
  from this [OF assms [symmetric]] show ?thesis by simp
qed

text \<open>The study filter never raises the status or the eligibility of a candidate. Without auxiliary
  evidence against it a candidate passes unchanged, and an eligible candidate that is left with status 1
  has not been barred by any of the tests.\<close>

theorem study_admission_only_lowers:
  "case goodix_chicago_match_filter_study_admission_type24 rec input status eligible of (status', eligible') \<Rightarrow>
     status' \<in> {status, 0} \<and> eligible' \<in> {eligible, 0} \<and>
     (if in_auxiliary_count input \<le> 0 \<and> in_candidate_metric input = 0 \<and> in_probe_auxiliary input \<le> 0
      then status' = status \<and> eligible' = eligible
      else if status' \<noteq> 0 \<and> eligible' \<noteq> 0 \<and> \<not> (in_auxiliary_count input < 2 \<and> in_candidate_metric input = 0)
      then \<not> (auxiliary_bars_study rec input \<or> study_is_barred rec input \<or> weak_source rec input \<or>
              status = 1 \<and> (low_evidence rec input \<or> inspect_weak_evidence rec input \<and> weak_evidence rec input))
      else True)"
proof (cases "goodix_chicago_match_filter_study_admission_type24 rec input status eligible")
  case (Pair status' eligible')
  have "\<not> auxiliary_bars_study rec input" if "in_auxiliary_count input \<le> 0" "in_probe_auxiliary input \<le> 0"
    using that by (simp add: auxiliary_bars_study_def)
  then have "status' = status \<and> eligible' = eligible"
    if "in_auxiliary_count input \<le> 0 \<and> in_candidate_metric input = 0 \<and> in_probe_auxiliary input \<le> 0"
    using that Pair by (simp add: goodix_chicago_match_filter_study_admission_type24_def Let_def)
  moreover have "\<not> (auxiliary_bars_study rec input \<or> study_is_barred rec input \<or> weak_source rec input \<or>
      status = 1 \<and> (low_evidence rec input \<or> inspect_weak_evidence rec input \<and> weak_evidence rec input))"
    if "status' \<noteq> 0 \<and> eligible' \<noteq> 0 \<and> \<not> (in_auxiliary_count input < 2 \<and> in_candidate_metric input = 0)"
    using that Pair
    by (auto simp: goodix_chicago_match_filter_study_admission_type24_def Let_def split: if_splits)
  ultimately show ?thesis using study_admission_lowers [OF Pair] Pair by simp
qed

section \<open>The match of a template\<close>

text \<open>The run as long as no candidate has been accepted, and after one has been: the accepted geometry
  \<open>sec\<close> is the only one in the aggregation, and a selected sample is the one it comes from.\<close>

definition run_open :: "nat \<Rightarrow> match_run \<Rightarrow> bool" where
  "run_open n run \<longleftrightarrow>
     mr_aggregation run = zero_aggregation \<and> mr_best_candidate_score run = 0 \<and>
     tr_selected_index (mr_result run) = -1 \<and> \<not> tr_selected_index_known (mr_result run) \<and>
     \<not> tr_study_eligible (mr_result run) \<and> \<not> tr_study_eligibility_known (mr_result run) \<and>
     tr_study_relation_count (mr_result run) = n \<and> length (tr_study_relations (mr_result run)) = ENROLLMENT_CAPACITY"

definition run_closed :: "nat \<Rightarrow> match_run \<Rightarrow> bool" where
  "run_closed n run \<longleftrightarrow>
     (\<exists>sec. 0 \<le> sec \<and> sec \<le> 31 \<and>
        mr_aggregation run = goodix_chicago_match_aggregation_add_geometry zero_aggregation sec 31 \<and>
        (tr_selected_index (mr_result run) = -1 \<or>
         0 \<le> tr_selected_index (mr_result run) \<and> tr_selected_index (mr_result run) < int n \<and> 0 < sec \<and>
         inlier_count (tr_study_relations (mr_result run) ! nat (tr_selected_index (mr_result run))) = sec) \<and>
        tr_study_relation_count (mr_result run) = n \<and> length (tr_study_relations (mr_result run)) = ENROLLMENT_CAPACITY)"

lemma admit_match_candidate_run:
  assumes run: "run_open n run" and index: "index < n" and sec: "sr_secondary_geometry_count rec = sec" "0 \<le> sec" "sec \<le> 31"
    and stored: "status \<noteq> 0 \<Longrightarrow> inlier_count (tr_study_relations (mr_result run) ! index) = sec"
  shows "case admit_match_candidate probe threshold candidate_metric index rec t status confidence run of
    (run', stop) \<Rightarrow> if stop then run_closed n run' else run_open n run'"
proof -
  obtain count_zero count_mixed count_one where counts:
    "(if candidate_metric \<ge> 3
      then goodix_chicago_enrollment_calculate_live_auxiliary_counts_type24 (v_live_auxiliary probe) t else (0, 0, 0)) =
      (count_zero, count_mixed, count_one)"
    by (cases "if candidate_metric \<ge> 3
      then goodix_chicago_enrollment_calculate_live_auxiliary_counts_type24 (v_live_auxiliary probe) t else (0, 0, 0)")
  define input where "input = \<lparr> in_auxiliary_count = sa_auxiliary_count (mr_scheduler run), in_candidate_metric = candidate_metric,
      in_probe_quality = int (v_quality probe), in_probe_auxiliary = int (v_density_positive_percent probe),
      in_aggregate_metric = goodix_chicago_match_study_aggregate_q8_type24 (int count_zero) (int count_mixed) (int count_one) \<rparr>"
  obtain status' eligible' where f:
    "goodix_chicago_match_filter_study_admission_type24 rec input status confidence = (status', eligible')"
    by (cases "goodix_chicago_match_filter_study_admission_type24 rec input status confidence")
  have lowered: "status' \<noteq> 0 \<Longrightarrow> status \<noteq> 0" using study_admission_lowers [OF f] by auto
  let ?run1 = "run\<lparr> mr_study_eligible_any := mr_study_eligible_any run \<or> eligible' \<noteq> 0 \<rparr>"
  have open1: "run_open n ?run1" using run by (simp add: run_open_def)
  note admit = admit_match_candidate_def [of probe threshold candidate_metric index rec t status confidence run,
      unfolded Let_def counts prod.case, folded input_def, unfolded f prod.case]
  show ?thesis
  proof (cases "goodix_chicago_match_accept_type24 (sr_selector rec) (sr_agreement rec) status' threshold")
    case False
    then have "admit_match_candidate probe threshold candidate_metric index rec t status confidence run = (?run1, False)"
      unfolding admit by simp
    then show ?thesis using open1 by simp
  next
    case True
    let ?run2 = "?run1\<lparr> mr_aggregation := goodix_chicago_match_aggregation_add_geometry zero_aggregation sec 31 \<rparr>"
    let ?run3 = "?run2\<lparr> mr_best_candidate_score := sec,
        mr_result := (mr_result run)\<lparr> tr_selected_index := int index,
          tr_study_auxiliary_count := sa_auxiliary_count (mr_scheduler run), tr_study_auxiliary_count_known := True,
          tr_study_candidate_metric := candidate_metric \<rparr> \<rparr>"
    have r: "admit_match_candidate probe threshold candidate_metric index rec t status confidence run =
        (if status' \<noteq> 0 \<and> sec > 0 then ?run3 else ?run2, True)"
      unfolding admit using True run sec(1) by (simp add: run_open_def)
    have "run_closed n ?run2" using run sec(2,3) by (auto simp: run_closed_def run_open_def)
    moreover have "run_closed n ?run3" if "status' \<noteq> 0" "sec > 0"
      using run sec(2,3) stored lowered that index by (auto simp: run_closed_def run_open_def)
    ultimately show ?thesis unfolding r by simp
  qed
qed

lemma match_candidate_step_run:
  assumes run: "run_open n run" and index: "index < n" "n \<le> ENROLLMENT_CAPACITY" and unset: "length unset = 31"
  shows "case match_candidate_step unset probe threshold candidate_metric index gallery gallery_metric run of
    (run', stop) \<Rightarrow> if stop then run_closed n run' else run_open n run'"
proof -
  obtain combined scheduler where aux: "goodix_chicago_match_scheduler_auxiliary_consume_type24 (mr_scheduler run)
      (packed_resolution gallery_metric) (mr_rejection_count run) = (combined, scheduler)"
    by (cases "goodix_chicago_match_scheduler_auxiliary_consume_type24 (mr_scheduler run)
      (packed_resolution gallery_metric) (mr_rejection_count run)")
  obtain rec geometry where score: "goodix_chicago_match_score_subtemplate_type24 unset gallery probe = (rec, geometry)"
    by (cases "goodix_chicago_match_score_subtemplate_type24 unset gallery probe")
  note sec = score_subtemplate_geometry [OF unset score]
  define run1 where "run1 = run\<lparr> mr_scheduler := scheduler, mr_geometry_counts := (mr_geometry_counts run)[index := sr_geometry_count rec] \<rparr>"
  define ev where "ev = goodix_chicago_match_scheduler_evidence_type24 rec (int (v_quality probe)) (int (v_coverage probe)) True"
  define run2 where "run2 = (if ev_status ev = 1
      then run1\<lparr> mr_result := (mr_result run1)\<lparr> tr_study_relations := (tr_study_relations (mr_result run1))[index :=
        \<lparr> inlier_count = int (geo_inlier_count geometry), rel_transform = geo_transform geometry \<rparr>] \<rparr> \<rparr> else run1)"
  obtain late rejections status where l: "goodix_chicago_match_late_rejection_type24 80 64 (int (v_quality probe)) rec
      (geo_transform geometry) (sa_auxiliary_count scheduler) candidate_metric combined (mr_rejection_count run2) (ev_status ev) =
      (late, rejections, status)"
    by (cases "goodix_chicago_match_late_rejection_type24 80 64 (int (v_quality probe)) rec
      (geo_transform geometry) (sa_auxiliary_count scheduler) candidate_metric combined (mr_rejection_count run2) (ev_status ev)")
  define run3 where "run3 = run2\<lparr> mr_rejection_count := rejections, mr_late_rejected := (mr_late_rejected run2)[index := late] \<rparr>"
  have step: "match_candidate_step unset probe threshold candidate_metric index gallery gallery_metric run =
      (if goodix_chicago_match_candidate_prefilter_type24 rec (sa_auxiliary_count scheduler) candidate_metric then (run1, False)
       else if late then (run3, False)
       else admit_match_candidate probe threshold candidate_metric index rec (geo_transform geometry) status (ev_confidence ev) run3)"
    unfolding match_candidate_step_def Let_def aux score prod.case run1_def [symmetric] ev_def [symmetric]
      run2_def [symmetric] l run3_def [symmetric] ..
  have open1: "run_open n run1" using run by (simp add: run1_def run_open_def)
  then have "run_open n run2" by (simp add: run2_def run_open_def)
  then have open3: "run_open n run3" by (simp add: run3_def run_open_def)
  have "ev_status ev = 0 \<or> ev_status ev = 1"
    by (simp add: ev_def goodix_chicago_match_scheduler_evidence_type24_def Let_def split: prod.split)
  then have "status \<noteq> 0 \<Longrightarrow> ev_status ev = 1" using late_rejection_status [OF l] by auto
  then have stored: "inlier_count (tr_study_relations (mr_result run3) ! index) = int (geo_inlier_count geometry)" if "status \<noteq> 0"
    using that open1 index by (simp add: run3_def run2_def run_open_def)
  have "case admit_match_candidate probe threshold candidate_metric index rec (geo_transform geometry) status (ev_confidence ev) run3 of
      (run', stop) \<Rightarrow> if stop then run_closed n run' else run_open n run'"
    by (rule admit_match_candidate_run [OF open3 index(1) sec(2)]) (use sec(3) stored in simp_all)
  then show ?thesis unfolding step using open1 open3 by simp
qed

lemma match_gallery_run:
  assumes n: "length (subtemplates self) = n" "n \<le> ENROLLMENT_CAPACITY" and unset: "length unset = 31"
    and metric: "\<And>k. k < n \<Longrightarrow> sub_metric (subtemplates self ! k) \<noteq> None"
  shows "run_open n run \<Longrightarrow> \<exists>run'. match_gallery unset self probe threshold candidate_metric schedule run = Some run' \<and>
    (run_closed n run' \<or> run_open n run')"
proof (induction schedule arbitrary: run)
  case (Cons schedule_index schedule)
  note open_run = Cons.prems
  show ?case
  proof (cases "goodix_chicago_enrollment_get_match_order_index self schedule_index")
    case None
    then show ?thesis using Cons.IH [OF open_run] by simp
  next
    case (Some index)
    then have index: "index < n" using n(1)
      by (auto simp: goodix_chicago_enrollment_get_match_order_index_def not_le split: if_splits)
    then obtain gallery where g: "goodix_chicago_enrollment_get_subtemplate self index = Some gallery"
      "v_metric gallery = sub_metric (subtemplates self ! index)"
      using n(1) by (simp add: goodix_chicago_enrollment_get_subtemplate_def Let_def)
    then obtain gm where gm: "v_metric gallery = Some gm" using metric [OF index] by auto
    obtain run1 stop where step: "match_candidate_step unset probe threshold candidate_metric index gallery gm run = (run1, stop)"
      by (cases "match_candidate_step unset probe threshold candidate_metric index gallery gm run")
    have r: "if stop then run_closed n run1 else run_open n run1"
      using match_candidate_step_run [OF open_run index n(2) unset, of probe threshold candidate_metric gallery gm] by (simp add: step)
    show ?thesis
    proof (cases stop)
      case True
      then show ?thesis using r by (simp add: Some g(1) gm step)
    next
      case False
      then show ?thesis using r Cons.IH [of run1] by (simp add: Some g(1) gm step)
    qed
  qed
qed auto

text \<open>The score of one accepted geometry: its share of 31 pairs in percent, rounded through eight bits.\<close>

definition geometry_share :: "int \<Rightarrow> int" where
  "geometry_share sec = ((sec * 256 + 15) div 31 * 100) div 256"

lemma accepted_score:
  assumes "0 \<le> sec" and "sec \<le> 31"
  shows "goodix_chicago_match_aggregation_score (goodix_chicago_match_aggregation_add_geometry zero_aggregation sec 31) = geometry_share sec"
    "ag_accepted_count (goodix_chicago_match_aggregation_add_geometry zero_aggregation sec 31) = 1"
    "0 \<le> geometry_share sec" "geometry_share sec \<le> 100" "0 < sec \<Longrightarrow> 0 < geometry_share sec"
proof -
  define q where "q = (sec * 256 + 15) div 31"
  have "q \<le> (31 * 256 + 15) div 31" unfolding q_def using assms by (intro zdiv_mono1) linarith+
  then have q: "0 \<le> q" "q \<le> 256" using assms by (simp_all add: q_def)
  have n: "i32 (sec * 256) = sec * 256" "i32 (sec * 256 + 15) = sec * 256 + 15" using assms by (simp_all add: in_i32_def)
  have fifteen: "(31 :: int) sdiv 2 = 15" by (simp add: signed_divide_int_def)
  have d: "match_divide_nearest (i32 (sec * 256)) 31 = q"
    unfolding match_divide_nearest_def fifteen n q_def using assms by (simp add: signed_divide_int_def)
  have agg: "goodix_chicago_match_aggregation_add_geometry zero_aggregation sec 31 =
      zero_aggregation\<lparr> ag_accepted_count := 1, ag_accepted_geometry_q8_sum := q \<rparr>"
    unfolding goodix_chicago_match_aggregation_add_geometry_def d using assms q by (simp add: zero_aggregation_def in_i32_def)
  show "ag_accepted_count (goodix_chicago_match_aggregation_add_geometry zero_aggregation sec 31) = 1" unfolding agg by simp
  have "i32 (q * 100) = q * 100" using q by (simp add: in_i32_def)
  moreover have "q * 100 sdiv 1 = q * 100" using q by (cases "q = 0") (simp_all add: signed_divide_int_def)
  ultimately show "goodix_chicago_match_aggregation_score (goodix_chicago_match_aggregation_add_geometry zero_aggregation sec 31) = geometry_share sec"
    unfolding agg goodix_chicago_match_aggregation_score_def
    by (simp add: geometry_share_def q_def [symmetric] drop_bit_int_def)
  have s: "geometry_share sec = q * 100 div 256" by (simp add: geometry_share_def q_def)
  show "0 \<le> geometry_share sec" "geometry_share sec \<le> 100" unfolding s using q by simp_all
  show "0 < geometry_share sec" if "0 < sec"
  proof -
    have "(1 * 256 + 15) div 31 \<le> q" unfolding q_def using that by (intro zdiv_mono1) linarith+
    then have "8 \<le> q" by simp
    then show ?thesis unfolding s by simp
  qed
qed

text \<open>The fallback fills only the fallback fields, and never the score.\<close>

lemma consume_fallback_keeps:
  "ag_accepted_count (snd (goodix_chicago_match_aggregation_consume_fallback_type24 a geometry_count selector agreement cover threshold)) =
     ag_accepted_count a \<and>
   ag_fallback_score (snd (goodix_chicago_match_aggregation_consume_fallback_type24 a geometry_count selector agreement cover threshold)) =
     ag_fallback_score a"
  by (simp add: goodix_chicago_match_aggregation_consume_fallback_type24_def Let_def)

lemma fallback_step_keeps:
  "ag_accepted_count (fallback_step unset self probe threshold run a k) = ag_accepted_count a \<and>
   ag_fallback_score (fallback_step unset self probe threshold run a k) = ag_fallback_score a"
  by (simp add: fallback_step_def goodix_chicago_match_aggregation_consume_fallback_records_type24_def Let_def
      consume_fallback_keeps split: option.split prod.split)

lemma fallback_score_range:
  assumes "ag_accepted_count a \<le> 0" and "ag_fallback_score a \<le> 0"
  shows "-7 \<le> goodix_chicago_match_aggregation_score (foldl (fallback_step unset self probe threshold run) a ks) \<and>
    goodix_chicago_match_aggregation_score (foldl (fallback_step unset self probe threshold run) a ks) \<le> 0"
proof -
  have "ag_accepted_count (foldl (fallback_step unset self probe threshold run) a ks) \<le> 0 \<and>
      ag_fallback_score (foldl (fallback_step unset self probe threshold run) a ks) \<le> 0"
    using assms by (induction ks rule: rev_induct) (simp_all add: fallback_step_keeps)
  then show ?thesis by (simp add: goodix_chicago_match_aggregation_score_def Let_def)
qed

lemma match_template_ok:
  assumes "length (subtemplates self) \<le> ENROLLMENT_CAPACITY" and "v_metric probe \<noteq> None" and "length unset = 31"
    and "list_all (\<lambda>s. sub_metric s \<noteq> None) (subtemplates self)"
  shows "\<exists>r. goodix_chicago_match_template_type24 unset self probe threshold = Some r \<and>
    -7 \<le> tr_score r \<and> tr_score r \<le> 100 \<and> tr_study_relation_count r = length (subtemplates self) \<and>
    length (tr_study_relations r) = ENROLLMENT_CAPACITY \<and>
    (if tr_study_eligibility_known r then
       (\<exists>sec. 0 \<le> sec \<and> sec \<le> 31 \<and> tr_score r = geometry_share sec \<and>
          (if tr_selected_index_known r
           then 0 \<le> tr_selected_index r \<and> tr_selected_index r < int (length (subtemplates self)) \<and> 0 < tr_score r \<and>
             inlier_count (tr_study_relations r ! nat (tr_selected_index r)) = sec
           else tr_selected_index r = -1))
     else tr_score r \<le> 0 \<and> \<not> tr_selected_index_known r \<and> tr_selected_index r = -1 \<and> \<not> tr_study_eligible r)"
proof -
  let ?n = "length (subtemplates self)"
  obtain probe_metric where pm: "v_metric probe = Some probe_metric" using assms(2) by blast
  have start: "run_open ?n (start_run ?n (packed_resolution probe_metric))"
    by (simp add: run_open_def start_run_def fresh_result_def)
  have metric: "\<And>k. k < ?n \<Longrightarrow> sub_metric (subtemplates self ! k) \<noteq> None" using assms(4) by (simp add: list_all_length)
  obtain run where run: "match_gallery unset self probe threshold (uint (v_live_auxiliary probe ! 0)) [0..<?n]
      (start_run ?n (packed_resolution probe_metric)) = Some run" "run_closed ?n run \<or> run_open ?n run"
    using match_gallery_run [OF refl assms(1,3) metric start] by blast
  note result = goodix_chicago_match_template_type24_def [of unset self probe threshold,
      unfolded goodix_chicago_enrollment_get_count_def Let_def pm option.case run(1) option.map]
  show ?thesis
    using run(2)
  proof
    assume "run_closed ?n run"
    then obtain sec where sec: "0 \<le> sec" "sec \<le> 31"
      "mr_aggregation run = goodix_chicago_match_aggregation_add_geometry zero_aggregation sec 31"
      "tr_selected_index (mr_result run) = -1 \<or>
         0 \<le> tr_selected_index (mr_result run) \<and> tr_selected_index (mr_result run) < int ?n \<and> 0 < sec \<and>
         inlier_count (tr_study_relations (mr_result run) ! nat (tr_selected_index (mr_result run))) = sec"
      "tr_study_relation_count (mr_result run) = ?n" "length (tr_study_relations (mr_result run)) = ENROLLMENT_CAPACITY"
      by (auto simp: run_closed_def)
    let ?r = "(mr_result run)\<lparr> tr_score := geometry_share sec, tr_selected_index_known := tr_selected_index (mr_result run) \<ge> 0,
        tr_study_eligible := mr_study_eligible_any run, tr_study_eligibility_known := True \<rparr>"
    have r: "goodix_chicago_match_template_type24 unset self probe threshold = Some ?r"
      unfolding result using assms(1) accepted_score(1,2) [OF sec(1,2)] by (simp add: sec(3))
    have range: "-7 \<le> geometry_share sec" "geometry_share sec \<le> 100" using accepted_score(3,4) [OF sec(1,2)] by simp_all
    have "if tr_selected_index (mr_result run) \<ge> 0
        then tr_selected_index (mr_result run) < int ?n \<and> 0 < geometry_share sec \<and>
          inlier_count (tr_study_relations (mr_result run) ! nat (tr_selected_index (mr_result run))) = sec
        else tr_selected_index (mr_result run) = -1"
      using sec(4) accepted_score(5) [OF sec(1,2)] by (cases "tr_selected_index (mr_result run) = -1") simp_all
    then show ?thesis
      using sec(1,2,5,6) range r by (intro exI [of _ ?r] conjI) (simp_all, intro exI [of _ sec], simp)
  next
    assume o: "run_open ?n run"
    let ?score = "goodix_chicago_match_aggregation_score
        (foldl (fallback_step unset self probe threshold run) (mr_aggregation run) [0..<?n])"
    have agg: "mr_aggregation run = zero_aggregation" using o by (simp add: run_open_def)
    have score: "-7 \<le> ?score \<and> ?score \<le> 0" by (rule fallback_score_range) (simp_all add: agg zero_aggregation_def)
    have "goodix_chicago_match_template_type24 unset self probe threshold = Some ((mr_result run)\<lparr> tr_score := ?score \<rparr>)"
      unfolding result using assms(1) by (simp add: agg zero_aggregation_def)
    then show ?thesis using o score by (intro exI [of _ "(mr_result run)\<lparr> tr_score := ?score \<rparr>"]) (simp add: run_open_def)
  qed
qed

text \<open>C33: For a gallery of at most 50 samples with metric data the match of a template never reads through a
  null pointer, and its result is coherent. The score lies between -7 and 100. If a candidate was accepted
  the score is the share of its inliers in 31 pairs, and a selected sample is a sample of the gallery whose
  study relation holds exactly those inliers, so its score is positive. If none was accepted nothing is
  selected or eligible for study and the score is not positive: the fallback pass never makes a match.\<close>

theorem match_template_coherent:
  assumes "length (subtemplates self) \<le> ENROLLMENT_CAPACITY" and "v_metric probe \<noteq> None" and "length unset = 31"
    and "list_all (\<lambda>s. sub_metric s \<noteq> None) (subtemplates self)"
  shows "\<exists>r. goodix_chicago_match_template_type24 unset self probe threshold = Some r \<and>
    -7 \<le> tr_score r \<and> tr_score r \<le> 100 \<and> tr_study_relation_count r = length (subtemplates self) \<and>
    length (tr_study_relations r) = ENROLLMENT_CAPACITY \<and>
    (if tr_study_eligibility_known r then
       (\<exists>sec. 0 \<le> sec \<and> sec \<le> 31 \<and> tr_score r = geometry_share sec \<and>
          (if tr_selected_index_known r
           then 0 \<le> tr_selected_index r \<and> tr_selected_index r < int (length (subtemplates self)) \<and> 0 < tr_score r \<and>
             inlier_count (tr_study_relations r ! nat (tr_selected_index r)) = sec
           else tr_selected_index r = -1))
     else tr_score r \<le> 0 \<and> \<not> tr_selected_index_known r \<and> tr_selected_index r = -1 \<and> \<not> tr_study_eligible r)"
  using assms by (rule match_template_ok)

theorem match_template_coherent_witness:
  "\<exists>r. goodix_chicago_match_template_type24 (replicate 31 (0, 0)) lone_sample blank_view 207 = Some r \<and> tr_study_relation_count r = 1"
proof -
  have "sub_metric (subtemplates lone_sample ! 0) \<noteq> None"
    by (simp add: lone_sample_def one_sample_def goodix_chicago_enrollment_insert_first_def goodix_chicago_enrollment_new_def Let_def)
  then have "list_all (\<lambda>s. sub_metric s \<noteq> None) (subtemplates lone_sample)"
    by (simp add: list_all_length lone_sample_fields(2))
  moreover have "v_metric blank_view \<noteq> None" by (simp add: blank_view_def)
  moreover have "length (subtemplates lone_sample) \<le> ENROLLMENT_CAPACITY" "length (replicate 31 (0, 0) :: (int \<times> int) list) = 31"
    by (simp_all add: lone_sample_fields)
  ultimately obtain r where "goodix_chicago_match_template_type24 (replicate 31 (0, 0)) lone_sample blank_view 207 = Some r \<and>
      tr_study_relation_count r = 1"
    using match_template_coherent [of lone_sample blank_view "replicate 31 (0, 0)" 207] unfolding lone_sample_fields(2) by blast
  then show ?thesis by blast
qed

end
