(* ===== verification/Chicago_Storable.thy ===== *)
theory Chicago_Storable
  imports Chicago_Packed Chicago_Match
begin

text \<open>
  Everything the engine writes into an enrollment fits the packed template: the transforms of all
  searches keep their coefficients in 32 bits, and study, replacement and the capacity selector keep
  an enrollment packable. These lemmas carry the properties of the runtime (Chicago_Runtime).
\<close>

declare upt_rec_numeral [simp del]

section \<open>Coefficients of 32 bits\<close>

named_theorems storable

definition transform_i32 :: "transform \<Rightarrow> bool" where
  "transform_i32 t \<longleftrightarrow> in_i32 (t0 t) \<and> in_i32 (t1 t) \<and> in_i32 (t2 t) \<and> in_i32 (t3 t) \<and> in_i32 (t4 t) \<and> in_i32 (t5 t)"

lemma transform_i32_mk [simp]:
  "transform_i32 (mk_transform a b x c d y) \<longleftrightarrow> in_i32 a \<and> in_i32 b \<and> in_i32 x \<and> in_i32 c \<and> in_i32 d \<and> in_i32 y"
  by (simp add: transform_i32_def)

lemma relation_packable_iff [storable]: "relation_packable r \<longleftrightarrow> in_i32 (inlier_count r) \<and> transform_i32 (rel_transform r)"
  by (simp add: relation_packable_def relation_coefficients_def transform_i32_def Let_def)

lemma identity_i32 [simp]: "transform_i32 identity_group_transform"
  by (simp add: identity_group_transform_def in_i32_def)

lemma in_i32_drop_bit: "in_i32 x \<Longrightarrow> in_i32 (drop_bit n x)"
proof -
  assume x: "in_i32 x"
  have "x div 2 ^ n \<le> max x 0"
  proof (cases "0 \<le> x")
    case True
    then show ?thesis using zdiv_mono2 [of x 1 "2 ^ n"] by (simp add: le_max_iff_disj)
  next
    case False
    then show ?thesis by (simp add: div_neg_pos_less0 le_max_iff_disj order_less_imp_le)
  qed
  moreover have "min x (-1) \<le> x div 2 ^ n"
  proof (cases "0 \<le> x")
    case True
    then have "0 \<le> x div 2 ^ n" by (simp add: pos_imp_zdiv_nonneg_iff)
    then show ?thesis by linarith
  next
    case False
    have "x * 1 \<ge> x * 2 ^ n" using False by (intro mult_left_mono_neg) simp_all
    then have "x * 2 ^ n div 2 ^ n \<le> x div 2 ^ n" by (intro zdiv_mono1) simp_all
    then show ?thesis by simp
  qed
  ultimately show ?thesis using x by (auto simp: drop_bit_eq_div in_i32_def max_def min_def split: if_splits)
qed

lemma in_i32_small: "- 2147483648 \<le> x \<Longrightarrow> x \<le> 2147483647 \<Longrightarrow> in_i32 x"
  by (simp add: in_i32_def)

lemma normalize_i32: "in_i32 (t2 t) \<Longrightarrow> in_i32 (t5 t) \<Longrightarrow> transform_i32 (normalize_group_transform t)"
  by (simp add: normalize_group_transform_def Let_def in_i32_small)

lemma compose_i32 [simp]: "transform_i32 (compose_group_transform a b)"
  unfolding compose_group_transform_def by (rule normalize_i32) simp_all

lemma invert_i32 [simp]: "transform_i32 t \<Longrightarrow> transform_i32 (invert_group_transform t)"
  by (simp add: invert_group_transform_def Let_def)

lemma affine_i32 [simp]: "transform_i32 (affine_from_three_points src tgt)"
proof -
  have "in_i32 (drop_bit n (if c then G_MAXINT32 else i32 x))" for n c x
    by (rule in_i32_drop_bit) (simp add: in_i32_small)
  then show ?thesis
    by (simp add: affine_from_three_points_def Let_def split: prod.split del: if_split)
qed

section \<open>The geometry of the matcher\<close>

lemma geometry_candidate_i32:
  "transform_i32 (geo_transform g) \<Longrightarrow> transform_i32 (geo_transform (geometry_candidate src tgt m ijk g))"
  by (simp add: geometry_candidate_def match_affine_from_three_points_def Let_def split: prod.split)

lemma geometry_search_i32:
  "transform_i32 (geo_transform (fst (snd
     (foldl (geometry_first src tgt targets sources m strict) (0, geometry_start, False) is))))"
proof (rule foldl_invariant [where P = "\<lambda>st. transform_i32 (geo_transform (fst (snd st)))"])
  show "transform_i32 (geo_transform (fst (snd (0, geometry_start, False))))"
    by (simp add: geometry_start_def in_i32_def)
  have third: "transform_i32 (geo_transform (fst (snd (geometry_third src tgt targets sources m strict i j st k))))"
    if "transform_i32 (geo_transform (fst (snd st)))" for i j k st
    using that geometry_candidate_i32 [of "fst (snd st)"] by (cases st) (simp add: geometry_third_def Let_def)
  have second: "transform_i32 (geo_transform (fst (snd (geometry_second src tgt targets sources m strict i st j))))"
    if "transform_i32 (geo_transform (fst (snd st)))" for i j st
    unfolding geometry_second_def
    using that by (auto intro!: foldl_invariant [where P = "\<lambda>st. transform_i32 (geo_transform (fst (snd st)))"] third)
  show "transform_i32 (geo_transform (fst (snd (geometry_first src tgt targets sources m strict st i))))"
    if "transform_i32 (geo_transform (fst (snd st)))" for i st
    unfolding geometry_first_def
    using that by (auto intro!: foldl_invariant [where P = "\<lambda>st. transform_i32 (geo_transform (fst (snd st)))"] second)
qed

lemma estimate_geometry_i32:
  assumes "goodix_chicago_match_estimate_geometry src tgt targets sources m strict = Some g"
  shows "transform_i32 (geo_transform g)"
  using assms geometry_search_i32 [of src tgt targets sources m strict "[0..<length src - 2]"]
  by (auto simp: goodix_chicago_match_estimate_geometry_def split: if_splits prod.splits)

lemma geometry_start_i32 [simp]: "transform_i32 (geo_transform geometry_start)"
  by (simp add: geometry_start_def in_i32_def)

lemma refined_coefficient_i32: "in_i32 (refined_coefficient gram cross k axis)"
  by (simp add: refined_coefficient_def match_divide_nearest64_def Let_def)

lemma refine_geometry_i32:
  "goodix_chicago_match_refine_geometry src tgt inliers limit = Some t \<Longrightarrow> transform_i32 t"
  unfolding goodix_chicago_match_refine_geometry_def Let_def
  by (auto simp: refined_coefficient_i32 simp del: of_nat_power split: if_splits)

lemma consensus_i32:
  assumes "goodix_chicago_match_geometry_consensus src tgt targets sources m = Some g"
  shows "transform_i32 (geo_transform g)"
proof -
  obtain e where e: "goodix_chicago_match_estimate_geometry src tgt targets sources m True = Some e"
    using assms by (auto simp: goodix_chicago_match_geometry_consensus_def)
  obtain ins n where f: "goodix_chicago_match_filter_orientations (geo_transform e) targets sources (length src) (geo_inliers e) = (ins, n)"
    by (cases "goodix_chicago_match_filter_orientations (geo_transform e) targets sources (length src) (geo_inliers e)")
  have "geo_transform g = geo_transform e \<or>
      goodix_chicago_match_refine_geometry src tgt ins (geo_error e) = Some (geo_transform g)"
    using assms unfolding goodix_chicago_match_geometry_consensus_def e option.map f prod.case Let_def
    by (cases "goodix_chicago_match_refine_geometry src tgt ins (geo_error e)") (auto split: if_splits)
  then show ?thesis using estimate_geometry_i32 [OF e] refine_geometry_i32 by auto
qed

lemma records_geometry_i32: "transform_i32 (geo_transform (records_geometry gallery probes pairs m))"
  by (auto simp: records_geometry_def goodix_chicago_match_geometry_consensus_records_def Let_def
      dest: consensus_i32 split: option.split)

section \<open>Relations of the match\<close>

lemma relations_packable_update:
  "list_all relation_packable rs \<Longrightarrow> relation_packable r \<Longrightarrow> list_all relation_packable (rs[k := r])"
  by (metis list_all_iff set_update_subset_insert insertE subsetD)

definition run_packable :: "match_run \<Rightarrow> bool" where
  "run_packable run \<longleftrightarrow> list_all relation_packable (tr_study_relations (mr_result run))"

lemma admit_match_candidate_relations:
  "tr_study_relations (mr_result (fst (admit_match_candidate probe threshold candidate_metric index rec t status confidence run))) =
    tr_study_relations (mr_result run)"
  by (simp add: admit_match_candidate_def Let_def split: prod.split)

lemma match_candidate_step_packable:
  assumes "run_packable run" and unset: "length unset = 31"
  shows "run_packable (fst (match_candidate_step unset probe threshold candidate_metric index gallery gallery_metric run))"
proof -
  obtain rec geometry where score: "goodix_chicago_match_score_subtemplate_type24 unset gallery probe = (rec, geometry)"
    by (cases "goodix_chicago_match_score_subtemplate_type24 unset gallery probe")
  let ?r = "\<lparr> inlier_count = int (geo_inlier_count geometry), rel_transform = geo_transform geometry \<rparr>"
  have "geometry = records_geometry (view_records gallery) (view_records probe)
      (pairs_after unset (goodix_chicago_match_ordinary_correspondences (view_records gallery) (v_active_count gallery)
        (view_records probe) (v_active_count probe))) 3"
    using score by (auto simp: goodix_chicago_match_score_subtemplate_type24_def Let_def split: option.splits if_splits)
  then have "transform_i32 (geo_transform geometry)" by (simp add: records_geometry_i32)
  moreover have "geo_inlier_count geometry \<le> 31" using score_subtemplate_geometry(3) [OF unset score] by simp
  ultimately have r: "relation_packable ?r" by (simp add: storable in_i32_def)
  then show ?thesis
    using assms(1) admit_match_candidate_relations
    by (simp add: match_candidate_step_def Let_def score run_packable_def relations_packable_update split: prod.split)
qed

lemma match_gallery_packable:
  assumes "length unset = 31"
  shows "run_packable run \<Longrightarrow> match_gallery unset self probe threshold candidate_metric schedule run = Some run' \<Longrightarrow> run_packable run'"
proof (induction schedule arbitrary: run)
  case (Cons k ks)
  show ?case
  proof (cases "goodix_chicago_enrollment_get_match_order_index self k")
    case None
    then show ?thesis using Cons by simp
  next
    case (Some index)
    show ?thesis
    proof (cases "goodix_chicago_enrollment_get_subtemplate self index")
      case None
      then show ?thesis using Some Cons by simp
    next
      case (Some gallery)
      then obtain gm where gm: "v_metric gallery = Some gm"
        using \<open>_ = Some index\<close> Cons.prems(2) by (cases "v_metric gallery") simp_all
      obtain run1 stop where step: "match_candidate_step unset probe threshold candidate_metric index gallery gm run = (run1, stop)"
        by (cases "match_candidate_step unset probe threshold candidate_metric index gallery gm run")
      have "run_packable run1"
        using match_candidate_step_packable [OF Cons.prems(1) assms, of probe threshold candidate_metric index gallery gm] step by simp
      then show ?thesis
        using Cons.IH [of run1] Cons.prems(2) \<open>_ = Some index\<close> Some gm step by (simp split: if_splits)
    qed
  qed
qed simp

lemma match_template_relations:
  assumes "length unset = 31" and "goodix_chicago_match_template_type24 unset self probe threshold = Some r"
  shows "list_all relation_packable (tr_study_relations r)"
proof -
  have zero: "list_all relation_packable (tr_study_relations (fresh_result n))" for n
    by (simp add: fresh_result_def zero_relation_def list_all_iff storable in_i32_def)
  show ?thesis
  proof (cases "length (subtemplates self) \<le> ENROLLMENT_CAPACITY")
    case False
    then show ?thesis using assms(2) zero
      by (auto simp: goodix_chicago_match_template_type24_def goodix_chicago_enrollment_get_count_def Let_def)
  next
    case True
    obtain pm where pm: "v_metric probe = Some pm"
      using assms(2) True
      by (cases "v_metric probe")
        (simp_all add: goodix_chicago_match_template_type24_def goodix_chicago_enrollment_get_count_def Let_def)
    then obtain run where run: "match_gallery unset self probe threshold (uint (v_live_auxiliary probe ! 0))
        [0..<length (subtemplates self)] (start_run (length (subtemplates self)) (packed_resolution pm)) = Some run"
      "tr_study_relations r = tr_study_relations (mr_result run)"
      using assms(2) True
      by (auto simp: goodix_chicago_match_template_type24_def goodix_chicago_enrollment_get_count_def Let_def split: if_splits)
    have "run_packable (start_run n m)" for n m using zero by (simp add: run_packable_def start_run_def)
    then show ?thesis using match_gallery_packable [OF assms(1) _ run(1)] run(2) by (simp add: run_packable_def)
  qed
qed

section \<open>Stored enrollments\<close>

text \<open>The content of a sample that can be stored, apart from where it stands in the enrollment.\<close>

definition content_packable :: "nat \<Rightarrow> subtemplate \<Rightarrow> bool" where
  "content_packable cap s \<longleftrightarrow>
     sub_metric s \<noteq> None \<and> metric_packable (subtemplate_metric s) \<and>
     list_all (\<lambda>r. length (descriptor r) = 48) (records s) \<and>
     group_state s < 2 ^ 32 \<and> quality s < 2 ^ 32 \<and> coverage s < 2 ^ 32 \<and> study_state s < 2 ^ 32 \<and>
     study_flags s < 2 ^ 32 \<and> lineage_index s < cap \<and> replacement_count s < 2 ^ 32 \<and>
     study_value_a s < 2 ^ 32 \<and> study_value_b s < 2 ^ 32"

lemma triangle_50: "n \<le> 50 \<Longrightarrow> triangle n < 2 ^ 32"
proof -
  assume "n \<le> 50"
  then have "n * (n + 1) \<le> 50 * 51" by (intro mult_le_mono) simp_all
  then show ?thesis using triangle_bound [of n] by simp
qed

lemma packable_iff:
  assumes "enrollment_wf self"
  shows "packable self \<longleftrightarrow> record_limit self \<le> 120 \<and> list_all (content_packable (capacity self)) (subtemplates self) \<and>
    list_all relation_packable (relations self) \<and> matcher_active_index self < 2 ^ 32 \<and>
    matcher_value_a self < 2 ^ 32 \<and> matcher_value_b self < 2 ^ 32 \<and> matcher_value_c self < 2 ^ 32 \<and>
    matcher_value_d self < 2 ^ 32"
proof -
  have "subtemplate_packable self s \<longleftrightarrow> content_packable (capacity self) s"
    if limit: "record_limit self \<le> 120" and s: "s \<in> set (subtemplates self)" for s
  proof -
    have ok: "subtemplate_ok self s" by (rule enrollment_wfD(7) [OF assms s])
    obtain k where k: "k < length (subtemplates self)" "s = subtemplates self ! k" using s by (auto simp: in_set_conv_nth)
    have "relation_base s < 2 ^ 32"
      using wf_base [OF assms k(1)] k triangle_50 [of k] enrollment_wfD(1,2) [OF assms] by simp
    moreover have "active_count s < 2 ^ 32" using ok limit by (simp add: subtemplate_ok_def)
    moreover have "lineage_index s < capacity self \<Longrightarrow> lineage_index s < 2 ^ 32" using enrollment_wfD(2) [OF assms] by simp
    ultimately show ?thesis using ok unfolding subtemplate_packable_def content_packable_def subtemplate_scalars_def by auto
  qed
  then show ?thesis using assms unfolding packable_def list_all_iff by blast
qed

lemma content_ungrouped:
  assumes "content_packable cap s" and "s'\<lparr> group_state := 0 \<rparr> = s\<lparr> group_state := 0 \<rparr>" and "group_state s' < 2 ^ 32"
  shows "content_packable cap s'"
proof -
  have eq: "s' = s\<lparr> group_state := group_state s' \<rparr>"
    using arg_cong [OF assms(2), of "\<lambda>x. x\<lparr> group_state := group_state s' \<rparr>"] by simp
  have "content_packable cap (s\<lparr> group_state := group_state s' \<rparr>)"
    using assms(1,3) by (simp add: content_packable_def subtemplate_metric_def)
  then show ?thesis by (subst eq)
qed

text \<open>What comes back of a stored enrollment can be stored again.\<close>

lemma canonical_wf: "enrollment_wf self \<Longrightarrow> enrollment_wf (canonical_enrollment self)"
proof (rule enrollment_wfI [where n = "length (subtemplates self)"])
  assume wf: "enrollment_wf self"
  note d = enrollment_wfD [OF wf]
  show "edge < triangle (length (subtemplates self))" if "edge \<in> set (group_edges (canonical_enrollment self))" for edge
    using that d(4) by (simp add: canonical_enrollment_def kept_relations_def)
  show "subtemplate_ok (canonical_enrollment self) s" if "s \<in> set (subtemplates (canonical_enrollment self))" for s
    using that d(7) by (auto simp: canonical_enrollment_def canonical_subtemplate_def subtemplate_ok_def)
  show "sorted (group_edges (canonical_enrollment self))"
    by (simp add: canonical_enrollment_def kept_relations_def sorted_wrt_filter)
qed (use canonical_wf_shape [of self] enrollment_wfD [of self] in \<open>simp_all add: canonical_enrollment_def\<close>)

lemma absent_packable: "relation_packable (absent_relation k)"
  by (simp add: absent_relation_def storable in_i32_def)

lemma canonical_content:
  assumes "content_packable cap s" and "length (records s) = record_count s"
  shows "content_packable cap (canonical_subtemplate s)"
proof -
  have "list_all (\<lambda>r. length (descriptor r) = 48) (records (canonical_subtemplate s))"
    using assms by (auto simp: content_packable_def canonical_subtemplate_def list_all_length)
  moreover have "metric_packable (subtemplate_metric (canonical_subtemplate s))"
    using assms(1) by (auto simp: content_packable_def canonical_subtemplate_def subtemplate_metric_def canonical_metric_def
      metric_data_build_position_map_def metric_packable_def)
  ultimately show ?thesis using assms(1) by (simp add: content_packable_def) (simp add: canonical_subtemplate_def)
qed

lemma canonical_packable:
  assumes "packable self"
  shows "packable (canonical_enrollment self)"
proof -
  have wf: "enrollment_wf self" by (rule packable_parts(1) [OF assms])
  note p = assms [unfolded packable_iff [OF wf]]
  have "list_all (content_packable (capacity self)) (map canonical_subtemplate (subtemplates self))"
    using p canonical_content enrollment_wfD(7) [OF wf] by (auto simp: list_all_iff subtemplate_ok_def)
  moreover have "list_all relation_packable (relations (canonical_enrollment self))"
    using p by (auto simp: canonical_enrollment_def list_all_length absent_packable)
  ultimately show ?thesis
    using p by (subst packable_iff [OF canonical_wf [OF wf]]) (simp add: canonical_enrollment_def)
qed

section \<open>Study keeps an enrollment packable\<close>

lemma u32_inc_less [simp]: "u32_inc v < 4294967296"
  by (simp add: u32_inc_def)

text \<open>A probe whose data has the sizes the feature extraction gives it.\<close>

definition probe_packable :: "subtemplate_view \<Rightarrow> bool" where
  "probe_packable probe \<longleftrightarrow>
     view_available probe \<and> (\<exists>m. v_metric probe = Some m \<and> metric_packable m) \<and>
     list_all (\<lambda>r. length (descriptor r) = 48) (view_records probe) \<and> v_quality probe < 2 ^ 32 \<and> v_coverage probe < 2 ^ 32"

definition matcher_values_packable :: "enrollment \<Rightarrow> bool" where
  "matcher_values_packable self \<longleftrightarrow> record_limit self \<le> 120 \<and> matcher_active_index self < 2 ^ 32 \<and>
     matcher_value_a self < 2 ^ 32 \<and> matcher_value_b self < 2 ^ 32 \<and> matcher_value_c self < 2 ^ 32 \<and>
     matcher_value_d self < 2 ^ 32"

lemma rebuild_group_states:
  assumes "s' \<in> set (subtemplates (rebuild_matcher_group self))"
  shows "group_state s' \<le> 1"
proof -
  have ungrouped: "group_state s = 0" if "(c, s) \<in> set (zip component (map (\<lambda>s. s\<lparr> group_state := 0 \<rparr>) ss))" for c s component ss
    using set_zip_rightD [OF that] by auto
  show ?thesis
    using assms ungrouped
    by (auto simp: rebuild_matcher_group_def Let_def split: prod.splits if_splits) (use ungrouped in \<open>fastforce+\<close>)
qed

lemma rebuild_matcher_values: "matcher_values_packable self \<Longrightarrow> matcher_values_packable (rebuild_matcher_group self)"
  by (simp add: rebuild_matcher_group_def matcher_values_packable_def Let_def split: prod.split)

lemma rebuild_content:
  assumes "list_all (content_packable cap) (subtemplates self)"
  shows "list_all (content_packable cap) (subtemplates (rebuild_matcher_group self))"
  unfolding list_all_length
proof (intro allI impI)
  fix k assume k: "k < length (subtemplates (rebuild_matcher_group self))"
  note f = rebuild_fields(1,2) [of self]
  have "map (\<lambda>s. s\<lparr> group_state := 0 \<rparr>) (subtemplates (rebuild_matcher_group self)) ! k = map (\<lambda>s. s\<lparr> group_state := 0 \<rparr>) (subtemplates self) ! k"
    unfolding f(2) ..
  then have "(subtemplates (rebuild_matcher_group self) ! k)\<lparr> group_state := 0 \<rparr> = (subtemplates self ! k)\<lparr> group_state := 0 \<rparr>"
    using k f(1) by simp
  note same = this
  have "content_packable cap (subtemplates self ! k)" using assms k f(1) by (simp add: list_all_length)
  moreover have "group_state (subtemplates (rebuild_matcher_group self) ! k) < 2 ^ 32"
    using rebuild_group_states [OF nth_mem [OF k]] by simp
  ultimately show "content_packable cap (subtemplates (rebuild_matcher_group self) ! k)"
    by (rule content_ungrouped [OF _ same])
qed

lemma append_study_packable:
  assumes p: "packable self" and probe: "probe_packable probe" "v_record_count probe \<le> record_limit self"
      "v_active_count probe \<le> v_record_count probe" "v_record_count probe \<noteq> 0 \<Longrightarrow> v_records probe \<noteq> None"
    and rels: "length rels = length (subtemplates self)" "list_all relation_packable rels"
    and room: "selected < length (subtemplates self)" "length (subtemplates self) < capacity self"
  shows "\<exists>self'. goodix_chicago_enrollment_append_study self probe selected (Some rels) = Inr (self', length (subtemplates self)) \<and>
    packable self' \<and> length (subtemplates self') = Suc (length (subtemplates self)) \<and>
    capacity self' = capacity self \<and> record_limit self' = record_limit self"
proof -
  let ?n = "length (subtemplates self)"
  have wf: "enrollment_wf self" by (rule packable_parts(1) [OF p])
  note q = p [unfolded packable_iff [OF wf], folded matcher_values_packable_def]
  have valid: "view_is_valid self probe" using probe by (auto simp: view_is_valid_def probe_packable_def)
  define source where "source = (subtemplates self ! selected)\<lparr> study_value_a := u32_inc (study_value_a (subtemplates self ! selected)) \<rparr>"
  define appended where "appended = \<lparr> record_count = v_record_count probe, active_count = v_active_count probe,
              quality = v_quality probe, coverage = v_coverage probe, records = view_records probe,
              sub_metric = v_metric probe, group_state = group_state source,
              relation_base = length (relations self), study_state = 1, study_flags = 0,
              lineage_index = ?n, replacement_count = 0,
              study_value_a = study_value_a source, study_value_b = study_value_b source \<rparr>"
  define mid where "mid = self\<lparr> subtemplates := (subtemplates self)[selected := source] @ [appended],
              relations := relations self @ rels,
              transform_count := length (relations self @ rels),
              match_order := (match_order self)[?n := ?n] \<rparr>"
  have result: "goodix_chicago_enrollment_append_study self probe selected (Some rels) = Inr (rebuild_matcher_group mid, ?n)"
  proof -
    have "\<not> (?n = 0 \<or> ?n \<ge> capacity self \<or> selected \<ge> ?n)" using room by linarith
    moreover have "\<not> (Some rels = None \<or> length (the (Some rels)) \<noteq> ?n \<or> \<not> view_is_valid self probe)"
      using rels(1) valid by simp
    ultimately show ?thesis
      unfolding goodix_chicago_enrollment_append_study_def Let_def mid_def appended_def source_def
      by (simp only: if_False option.sel)
  qed
  have "view_available probe" using probe(1) by (simp add: probe_packable_def)
  note wf' = wf_append_study [OF wf this result]
  have "content_packable (capacity self) (subtemplates self ! selected)" using q room(1) by (simp add: list_all_length)
  then have source: "content_packable (capacity self) source" by (simp add: content_packable_def source_def subtemplate_metric_def)
  have "content_packable (capacity self) appended"
    using source probe(1) room(2)
    by (auto simp: content_packable_def appended_def probe_packable_def subtemplate_metric_def)
  then have "list_all (content_packable (capacity self)) (subtemplates mid)"
    using q source set_update_subset_insert [of "subtemplates self" selected source] by (auto simp: mid_def list_all_iff)
  then have "list_all (content_packable (capacity self)) (subtemplates (rebuild_matcher_group mid))" by (rule rebuild_content)
  moreover have "matcher_values_packable (rebuild_matcher_group mid)"
    using q by (intro rebuild_matcher_values) (simp add: matcher_values_packable_def mid_def)
  ultimately have "packable (rebuild_matcher_group mid)"
    using q rels(2) by (subst packable_iff [OF wf'(1)]) (simp add: rebuild_fields mid_def matcher_values_packable_def)
  then show ?thesis using result wf'(4) by (intro exI [of _ "rebuild_matcher_group mid"]) (simp add: rebuild_fields mid_def)
qed

lemma replace_relations_packable:
  assumes "replace_relations self replacement rels ks = Some self'" and "list_all relation_packable (relations self)"
    and "list_all relation_packable rels" and "set ks \<subseteq> {..<length rels}"
  shows "list_all relation_packable (relations self') \<and> self' = self\<lparr> relations := relations self' \<rparr>"
  using assms
proof (induction ks arbitrary: self)
  case (Cons k ks)
  show ?case
  proof (cases "k = replacement")
    case True
    then show ?thesis using Cons by simp
  next
    case False
    have r: "relation_packable (rels ! k)" using Cons.prems(3,4) by (simp add: list_all_length)
    then have "relation_packable ((rels ! k)\<lparr> rel_transform := invert_group_transform (rel_transform (rels ! k)) \<rparr>)"
      by (simp add: storable)
    then obtain slot stored where step: "relation_packable stored"
      "replace_relations (self\<lparr> relations := (relations self)[slot := stored] \<rparr>) replacement rels ks = Some self'"
      using Cons.prems(1) False r by (auto simp: Let_def split: if_splits option.splits)
    have "list_all relation_packable ((relations self)[slot := stored])"
      by (rule relations_packable_update [OF Cons.prems(2) step(1)])
    then show ?thesis using Cons.IH [OF step(2)] Cons.prems(3,4) by simp
  qed
qed simp

lemma replace_study_packable:
  assumes p: "packable self" and probe: "probe_packable probe" "v_record_count probe \<le> record_limit self"
      "v_active_count probe \<le> v_record_count probe" "v_record_count probe \<noteq> 0 \<Longrightarrow> v_records probe \<noteq> None"
    and rels: "length rels = length (subtemplates self)" "list_all relation_packable rels"
    and full: "selected < length (subtemplates self)" "replacement < length (subtemplates self)"
      "length (subtemplates self) = capacity self"
  shows "\<exists>self'. goodix_chicago_enrollment_replace_study self probe selected replacement (Some rels) = Inr (Some self') \<and>
    packable self' \<and> length (subtemplates self') = length (subtemplates self) \<and>
    capacity self' = capacity self \<and> record_limit self' = record_limit self"
proof -
  let ?n = "length (subtemplates self)"
  have wf: "enrollment_wf self" by (rule packable_parts(1) [OF p])
  note q = p [unfolded packable_iff [OF wf]]
  have valid: "view_is_valid self probe" using probe by (auto simp: view_is_valid_def probe_packable_def)
  define subs1 where "subs1 = (subtemplates self)[selected :=
      (subtemplates self ! selected)\<lparr> study_value_a := u32_inc (study_value_a (subtemplates self ! selected)) \<rparr>]"
  define subs2 where "subs2 = map (\<lambda>s. if lineage_index s > 0 then s\<lparr> lineage_index := lineage_index s - 1 \<rparr> else s) subs1"
  define new where "new = (subs1 ! replacement)\<lparr> record_count := v_record_count probe, active_count := v_active_count probe,
              quality := v_quality probe, coverage := v_coverage probe, records := view_records probe,
              sub_metric := v_metric probe, study_state := 2,
              replacement_count := u32_inc (replacement_count (subs1 ! replacement)),
              study_value_a := study_value_a (subs1 ! selected), study_value_b := study_value_b (subs1 ! selected),
              lineage_index := ?n - 1 \<rparr>"
  define self1 where "self1 = self\<lparr> subtemplates := subs2[replacement := new] \<rparr>"
  have result: "goodix_chicago_enrollment_replace_study self probe selected replacement (Some rels) =
      Inr (map_option (\<lambda>s. s\<lparr> matcher_value_b := u32_inc (matcher_value_b s) \<rparr>) (replace_relations self1 replacement rels [0..<?n]))"
  proof -
    have "\<not> (?n \<noteq> capacity self \<or> selected \<ge> ?n \<or> replacement \<ge> ?n \<or>
        Some rels = None \<or> length (the (Some rels)) \<noteq> ?n \<or> \<not> view_is_valid self probe)"
      using full rels(1) valid by simp
    then show ?thesis
      unfolding goodix_chicago_enrollment_replace_study_def Let_def self1_def new_def subs2_def subs1_def
      by (simp only: if_False option.sel)
  qed
  have "view_available probe" using probe(1) by (simp add: probe_packable_def)
  from wf_replace_study [OF wf this result] obtain self2 where
    two: "replace_relations self1 replacement rels [0..<?n] = Some self2"
    and wf': "enrollment_wf (self2\<lparr> matcher_value_b := u32_inc (matcher_value_b self2) \<rparr>)"
    by (auto simp: map_option_eq_Some)
  have two': "list_all relation_packable (relations self2)" "self2 = self1\<lparr> relations := relations self2 \<rparr>"
    using replace_relations_packable [OF two _ rels(2)] rels(1) q by (simp_all add: self1_def lessThan_atLeast0)
  have content: "content_packable (capacity self) (subtemplates self ! k)" if "k < ?n" for k using q that by (simp add: list_all_length)
  have one: "list_all (content_packable (capacity self)) subs1"
  proof -
    have "content_packable (capacity self)
        ((subtemplates self ! selected)\<lparr> study_value_a := u32_inc (study_value_a (subtemplates self ! selected)) \<rparr>)"
      using content [OF full(1)] by (simp add: content_packable_def subtemplate_metric_def)
    then show ?thesis
      using q set_update_subset_insert [of "subtemplates self" selected] by (fastforce simp: subs1_def list_all_iff)
  qed
  have "list_all (content_packable (capacity self)) subs2"
    using one by (auto simp: subs2_def list_all_iff content_packable_def subtemplate_metric_def)
  moreover have "content_packable (capacity self) new"
  proof -
    have "content_packable (capacity self) (subs1 ! replacement)" "content_packable (capacity self) (subs1 ! selected)"
      using one full nth_mem [of _ subs1] unfolding list_all_iff by (metis length_list_update subs1_def)+
    then show ?thesis
      using probe(1) full by (auto simp: content_packable_def new_def probe_packable_def subtemplate_metric_def)
  qed
  ultimately have "list_all (content_packable (capacity self)) (subs2[replacement := new])"
    using set_update_subset_insert [of subs2 replacement new] by (auto simp: list_all_iff)
  moreover have fields: "subtemplates self2 = subs2[replacement := new]" "capacity self2 = capacity self"
    "record_limit self2 = record_limit self" "matcher_active_index self2 = matcher_active_index self"
    "matcher_value_a self2 = matcher_value_a self" "matcher_value_c self2 = matcher_value_c self"
    "matcher_value_d self2 = matcher_value_d self"
    by (subst two'(2), simp add: self1_def)+
  ultimately have "packable (self2\<lparr> matcher_value_b := u32_inc (matcher_value_b self2) \<rparr>)"
    using q two'(1) by (subst packable_iff [OF wf']) simp
  moreover have "length (subtemplates self2) = ?n" using fields(1) by (simp add: subs2_def subs1_def)
  ultimately show ?thesis
    using result two fields by (intro exI [of _ "self2\<lparr> matcher_value_b := u32_inc (matcher_value_b self2) \<rparr>"]) simp
qed

section \<open>The capacity selector keeps an enrollment packable\<close>

text \<open>A property of the state that every step keeps holds at the end of a search.\<close>

lemma search_candidates_invariant:
  assumes "search_candidates edge follow source ks (visited, stack, st) = Some (visited', stack', st')"
    and "keeps st" and "\<And>st c st'. keeps st \<Longrightarrow> follow st source c = Some st' \<Longrightarrow> keeps st'"
  shows "keeps st'"
  using assms
proof (induction edge follow source ks "(visited, stack, st)" arbitrary: visited stack st rule: search_candidates.induct)
  case (2 edge follow source k ks visited stack st)
  show ?case
  proof (cases "visited ! k \<or> \<not> edge st source k")
    case True
    then show ?thesis using 2(1,3,4,5) by simp
  next
    case False
    then obtain st1 where st1: "follow st source k = Some st1"
      using 2(3) by (cases "follow st source k") simp_all
    then show ?thesis using 2(2) [OF False st1] 2(3,4,5) False by simp
  qed
qed simp

lemma node_search_invariant:
  assumes "node_search pop edge follow (visited, stack, st) = Some (visited', st')" and "keeps st"
    and "\<And>st source. keeps st \<Longrightarrow> keeps (pop st source)"
    and "\<And>st source c st'. keeps st \<Longrightarrow> follow st source c = Some st' \<Longrightarrow> keeps st'"
  shows "keeps st'"
  using assms
proof (induction pop edge follow "(visited, stack, st)" arbitrary: visited stack st rule: node_search.induct)
  case (2 pop edge follow visited source stack st)
  obtain visited1 stack1 st1 where step:
    "search_candidates edge follow source (rev [0..<length visited]) (visited, stack, pop st source) = Some (visited1, stack1, st1)"
    using "2.prems"(1) by (auto split: option.splits)
  have "keeps st1" by (rule search_candidates_invariant [where keeps = keeps, OF step "2.prems"(3) [OF "2.prems"(2)] "2.prems"(4)])
  then show ?case using "2.hyps" [OF step] "2.prems" step by simp
qed simp

text \<open>What the searches and the refinement keep.\<close>

definition state_packable :: "capacity_state \<Rightarrow> bool" where
  "state_packable st \<longleftrightarrow> list_all relation_packable (relations (fst st)) \<and>
     (\<forall>rels. snd st = Some rels \<longrightarrow> list_all relation_packable rels) \<and>
     (\<forall>s \<in> set (subtemplates (fst st)). group_state s < 2 ^ 32)"

lemma store_packable:
  assumes "capacity_relation_store st first second t l = Some st'" and "state_packable st" and "transform_i32 t" and "in_i32 l"
  shows "state_packable st' \<and> (snd st' = None \<longleftrightarrow> snd st = None)"
proof -
  have "relation_packable \<lparr> inlier_count = l, rel_transform = t \<rparr>"
    "relation_packable \<lparr> inlier_count = l, rel_transform = invert_group_transform t \<rparr>"
    using assms(3,4) by (simp_all add: storable)
  then show ?thesis
    using assms(1,2)
    by (auto simp: capacity_relation_store_def Let_def store_between_def state_packable_def relations_packable_update
        split: prod.splits if_splits option.splits)
qed

lemma propagate_packable:
  assumes "propagate_capacity_relations self rels n = Some (visited, st')" and "state_packable (self, Some rels)"
  shows "state_packable st' \<and> snd st' \<noteq> None"
proof -
  let ?keeps = "\<lambda>s :: capacity_state \<times> transform. state_packable (fst s) \<and> snd (fst s) \<noteq> None"
  have follow: "?keeps s'" if "propagate_follow s source c = Some s'" "?keeps s" for s source c s'
    using that(1) store_packable that(2)
    by (fastforce simp: propagate_follow_def Let_def in_i32_def split: prod.splits if_splits)
  have pop: "?keeps (propagate_pop s source)" if "?keeps s" for s source
    using that by (cases s) (simp add: propagate_pop_def)
  let ?n = "length (subtemplates self)"
  consider "st' = (self, Some rels)" | visited' t where
    "node_search propagate_pop propagate_edge propagate_follow
       (replicate ?n False, [?n], (self, Some rels), identity_group_transform) = Some (visited', st', t)"
    using assms(1) by (auto simp: propagate_capacity_relations_def Let_def split: if_splits)
  then show ?thesis
  proof cases
    case 2
    have "?keeps (st', t)"
      by (rule node_search_invariant [where keeps = ?keeps, OF 2]) (use assms(2) in simp, erule pop, erule follow)
    then show ?thesis by simp
  qed (use assms(2) in simp)
qed

lemma join_groups_packable:
  "state_packable (self, rels) \<Longrightarrow> state_packable (join_groups self root candidate, rels)"
  using set_update_subset_insert [of "subtemplates self" root "(subtemplates self ! root)\<lparr> group_state := 1 \<rparr>"]
    set_update_subset_insert [of "(subtemplates self)[root := (subtemplates self ! root)\<lparr> group_state := 1 \<rparr>]"
      candidate "(subtemplates self ! candidate)\<lparr> group_state := 1 \<rparr>"]
  by (fastforce simp: join_groups_def Let_def state_packable_def)

lemma synthesize_follow_packable:
  assumes "synthesize_follow root s source c = Some s'" and "state_packable (fst s)"
  shows "state_packable (fst s')"
proof -
  obtain st strengths root_strength t where s: "s = (st, strengths, root_strength, t)" by (cases s) auto
  obtain edge_strength u where load: "capacity_relation_load st source c = (edge_strength, u)"
    by (cases "capacity_relation_load st source c")
  note d = assms(1) [unfolded s synthesize_follow_def prod.case Let_def load]
  show ?thesis
  proof (cases "fst s' = st")
    case True
    then show ?thesis using assms(2) s by simp
  next
    case False
    then obtain self' rels' where store:
      "capacity_relation_store st root c (compose_group_transform t u) 2 = Some (self', rels')"
      "fst s' = (if c < length (subtemplates (fst st)) then join_groups self' root c else self', rels')"
      using d by (auto split: if_splits)
    have "state_packable (self', rels')"
      using store_packable [OF store(1)] assms(2) s by (simp add: in_i32_def)
    then show ?thesis using join_groups_packable store(2) by simp
  qed
qed

lemma synthesize_roots_packable:
  "synthesize_roots roots st strengths = Some st' \<Longrightarrow> state_packable st \<Longrightarrow> state_packable st'"
proof (induction roots st strengths rule: synthesize_roots.induct)
  case (2 root roots st strengths)
  obtain visited st1 strengths1 rest where search: "node_search (synthesize_pop root) synthesize_edge (synthesize_follow root)
       ((replicate (length (subtemplates (fst st)) + 1) False)[root := True], [root],
        st, strengths, 0, identity_group_transform) = Some (visited, st1, strengths1, rest)"
    using "2.prems"(1) by (auto split: option.splits)
  have pop: "state_packable (fst (synthesize_pop root s source))" if "state_packable (fst s)" for s source
    using that by (simp add: synthesize_pop_state)
  have "state_packable (fst (st1, strengths1, rest))"
    by (rule node_search_invariant [where keeps = "\<lambda>s. state_packable (fst s)", OF search])
      (use "2.prems"(2) pop synthesize_follow_packable in auto)
  then show ?case using "2.IH" "2.prems"(1) search by auto
qed simp

lemma build_relation_packable: "relation_packable (goodix_chicago_match_build_capacity_relation gallery probe r)"
proof -
  have "relation_packable \<lparr> inlier_count = int (geo_inlier_count g), rel_transform = geo_transform g \<rparr>"
    if "g = (case goodix_chicago_match_estimate_geometry (map f xs) (map h xs) (map p xs) (map q xs) m b of
        None \<Rightarrow> geometry_start | Some g \<Rightarrow> g)" for g f h p q m b and xs :: "(int \<times> int) list"
  proof (cases "goodix_chicago_match_estimate_geometry (map f xs) (map h xs) (map p xs) (map q xs) m b")
    case None
    then show ?thesis using that by (simp add: storable in_i32_def) (simp add: geometry_start_def)
  next
    case (Some g')
    then have "geo_inlier_count g' \<le> 42"
      using geometry_ok_points [OF estimate_geometry_ok(1) [OF _ Some] estimate_geometry_ok(2) [OF _ Some]]
        estimate_geometry_ok(2) [OF _ Some] by simp
    then show ?thesis using that Some estimate_geometry_i32 [OF Some] by (simp add: storable in_i32_def)
  qed
  note built = this
  have "relation_packable \<lparr> inlier_count = -1, rel_transform = identity_group_transform \<rparr>"
    by (simp add: storable in_i32_def)
  then show ?thesis
    unfolding goodix_chicago_match_build_capacity_relation_def Let_def
    using built by (auto simp: comp_def split: prod.split)
qed

lemma refine_relations_packable:
  assumes "\<And>gallery r. relation_packable (b gallery r)"
  shows "refine_relations self (Some b) visited ks rels = (ok, rels') \<Longrightarrow> list_all relation_packable rels \<Longrightarrow>
    list_all relation_packable rels'"
proof (induction ks arbitrary: rels)
  case (Cons k ks)
  then show ?case
    using assms relations_packable_update [of rels _ k] by (auto split: if_splits option.splits)
qed simp

lemma synthesize_packable:
  assumes "goodix_chicago_enrollment_synthesize_capacity_relations st n = Some (ok, st')" and "state_packable st"
  shows "state_packable st'"
  using assms synthesize_roots_packable [OF _ assms(2)]
  by (auto simp: goodix_chicago_enrollment_synthesize_capacity_relations_def Let_def split: if_splits)

lemma select_state_packable:
  assumes "goodix_chicago_enrollment_select_capacity_replacement self probe selected rels n
      (Some goodix_chicago_match_build_capacity_relation) = Some (True, choice, st')"
    and "state_packable (self, Some rels)"
  shows "state_packable st'"
proof -
  note d = assms(1) [unfolded goodix_chicago_enrollment_select_capacity_replacement_def select_capacity_replacement_def Let_def]
  let ?n = "length (subtemplates self)"
  have guard: "\<not> (?n \<noteq> capacity self \<or> selected \<ge> ?n \<or> n \<noteq> ?n)" by (rule notI) (use d in simp)
  note d1 = d [unfolded if_not_P [OF guard], simplified]
  have "state_packable (self, None)" using assms(2) by (simp add: state_packable_def)
  obtain self1 none where s1: "goodix_chicago_enrollment_synthesize_capacity_relations (self, None) ?n = Some (True, (self1, none))"
    using d1 by (auto split: option.splits if_splits)
  have p1: "state_packable (self1, none)" by (rule synthesize_packable [OF s1]) fact
  obtain visited self2 rels2 where s2: "propagate_capacity_relations self1 rels ?n = Some (Some visited, (self2, rels2))"
    using d1 s1 by (auto split: option.splits if_splits)
  have "state_packable (self1, Some rels)" using p1 assms(2) by (simp add: state_packable_def)
  from propagate_packable [OF s2 this] have p2: "state_packable (self2, rels2)" "rels2 \<noteq> None" by simp_all
  obtain rels3 where s3: "refine_unresolved_capacity_relations self2 probe (the rels2) visited
      (Some goodix_chicago_match_build_capacity_relation) = (True, rels3)"
    using d1 s1 s2 by (auto split: option.splits if_splits prod.splits)
  have "list_all relation_packable (the rels2)" using p2 by (auto simp: state_packable_def)
  then have "list_all relation_packable rels3"
    using s3 refine_relations_packable [OF build_relation_packable]
    by (auto simp: refine_unresolved_capacity_relations_def)
  then have p3: "state_packable (self2, Some rels3)" using p2(1) by (simp add: state_packable_def)
  obtain self4 rels4 where s4: "goodix_chicago_enrollment_synthesize_capacity_relations (self2, Some rels3) ?n = Some (True, (self4, rels4))"
    "st' = (self4, rels4)"
    using d1 s1 s2 s3 by (auto split: option.splits if_splits prod.splits)
  show ?thesis using synthesize_packable [OF s4(1) p3] s4(2) by simp
qed

lemma select_capacity_packable:
  assumes p: "packable self" and full: "length (subtemplates self) = capacity self" "selected < capacity self"
    and rels: "length rels = capacity self" "list_all relation_packable rels" and metric: "v_metric probe \<noteq> None"
  shows "\<exists>self' rels' choice. goodix_chicago_enrollment_select_capacity_replacement self probe selected rels (capacity self)
      (Some goodix_chicago_match_build_capacity_relation) = Some (True, choice, (self', Some rels')) \<and>
    packable self' \<and> same_gallery self self' \<and> length rels' = capacity self \<and> list_all relation_packable rels' \<and>
    (\<forall>i. choice = Some i \<longrightarrow> i < capacity self)"
proof -
  have wf: "enrollment_wf self" by (rule packable_parts(1) [OF p])
  note q = p [unfolded packable_iff [OF wf]]
  obtain self' rels' probe_score scores where out:
    "goodix_chicago_enrollment_select_capacity_replacement self probe selected rels (capacity self)
      (Some goodix_chicago_match_build_capacity_relation) =
      Some (True, (case best_replacement self' probe probe_score scores of
                     Some index \<Rightarrow> Some index
                   | None \<Rightarrow> if selected_is_replaceable (subtemplates self' ! selected) probe probe_score (scores ! selected)
                             then Some selected else None), (self', Some rels'))"
    "same_gallery self self'" "length rels' = capacity self"
    using select_capacity_outcome [OF wf full rels(1) metric, of goodix_chicago_match_build_capacity_relation] by blast
  have "state_packable (self, Some rels)" using q rels(2) by (simp add: state_packable_def list_all_iff content_packable_def)
  from select_state_packable [OF out(1) this]
  have st: "list_all relation_packable (relations self')" "list_all relation_packable rels'"
    "\<And>s. s \<in> set (subtemplates self') \<Longrightarrow> group_state s < 2 ^ 32"
    by (simp_all add: state_packable_def)
  note same = same_galleryD [OF out(2)]
  have "content_packable (capacity self) (subtemplates self' ! k)" if k: "k < length (subtemplates self')" for k
  proof (rule content_ungrouped)
    show "content_packable (capacity self) (subtemplates self ! k)" using q k same(1) by (simp add: list_all_length)
    show "(subtemplates self' ! k)\<lparr> group_state := 0 \<rparr> = (subtemplates self ! k)\<lparr> group_state := 0 \<rparr>"
      using same_gallery_sub [OF out(2)] k same(1) by simp
    show "group_state (subtemplates self' ! k) < 2 ^ 32" by (rule st(3) [OF nth_mem [OF k]])
  qed
  moreover have "matcher_values_packable self'"
  proof -
    have eq: "self'\<lparr> relations := relations self, subtemplates := subtemplates self \<rparr> = self"
      using out(2) by (simp only: same_gallery_def)
    have "matcher_values_packable (self'\<lparr> relations := relations self, subtemplates := subtemplates self \<rparr>)"
      unfolding eq using q by (simp add: matcher_values_packable_def)
    then show ?thesis by (simp add: matcher_values_packable_def)
  qed
  ultimately have "packable self'"
    using st(1) same(3) by (subst packable_iff [OF same_gallery_wf [OF out(2) wf]])
      (simp add: matcher_values_packable_def list_all_length)
  moreover have "i < capacity self" if "best_replacement self' probe probe_score scores = Some i" for i
    using best_replacement_first_max [where self = self' and probe = probe and probe_score = probe_score and scores = scores] that same(1) full(1) by simp
  then have "\<forall>i. (case best_replacement self' probe probe_score scores of
                     Some index \<Rightarrow> Some index
                   | None \<Rightarrow> if selected_is_replaceable (subtemplates self' ! selected) probe probe_score (scores ! selected)
                             then Some selected else None) = Some i \<longrightarrow> i < capacity self"
    using full(2) by (auto split: option.splits)
  ultimately show ?thesis using out st(2) by blast
qed

end
