(* ===== verification/Chicago_Runtime.thy ===== *)
theory Chicago_Runtime
  imports Chicago_Template Chicago_Storable
begin

text \<open>
  The composition of the engine that the driver calls (goodix-chicago-runtime.c): a probe is matched
  against the print data of an enrolled finger, and a successful match may be studied, which writes
  new print data. A null dereference is \<open>None\<close>, an error an \<open>Inl\<close>. The contents of the match pairs
  before they are set are the argument \<open>unset\<close>, SHA-256 is the argument \<open>sha256\<close>.
\<close>

declare upt_rec_numeral [simp del]

section \<open>The probe\<close>

record runtime_probe =
  rp_enrollment :: enrollment
  rp_view :: subtemplate_view

text \<open>The end of \<open>prepare_probe\<close>: the records, the metric data and the counters of the capture are given.\<close>

definition runtime_build_probe ::
    "feature_record list \<Rightarrow> nat \<Rightarrow> nat \<Rightarrow> nat \<Rightarrow> nat \<Rightarrow> metric_data \<Rightarrow> nat \<times> nat \<times> nat \<Rightarrow> bytes \<Rightarrow> runtime_probe result" where
  "runtime_build_probe recs n_records n_active qual cov metric consensus live_auxiliary =
     (case goodix_chicago_enrollment_insert_first goodix_chicago_enrollment_new (Some recs) n_records n_active
             qual cov (Some metric) of
        Inl e \<Rightarrow> Inl e
      | Inr (enr, _) \<Rightarrow>
          case goodix_chicago_enrollment_get_subtemplate enr 0 of
            None \<Rightarrow> Inl G_IO_ERROR_INVALID_DATA
          | Some view \<Rightarrow>
              case consensus of (positive_percent, density_class, inactive_count) \<Rightarrow>
                Inr \<lparr> rp_enrollment = enr, rp_view = view\<lparr> v_density_positive_percent := positive_percent,
                       v_density_class := density_class, v_density_inactive_count := inactive_count,
                       v_live_auxiliary := live_auxiliary \<rparr> \<rparr>)"

definition goodix_chicago_runtime_probe_get_view :: "runtime_probe \<Rightarrow> subtemplate_view" where
  "goodix_chicago_runtime_probe_get_view probe = rp_view probe"

definition goodix_chicago_runtime_probe_pack :: "runtime_probe \<Rightarrow> bytes result" where
  "goodix_chicago_runtime_probe_pack probe = goodix_chicago_enrollment_pack (rp_enrollment probe)"

section \<open>Matching and studying print data\<close>

abbreviation (input) SELECTOR_THRESHOLD :: int where "SELECTOR_THRESHOLD \<equiv> 207"

definition goodix_chicago_runtime_match_print_data ::
    "(int \<times> int) list \<Rightarrow> runtime_probe \<Rightarrow> g_variant option \<Rightarrow> bytes option \<Rightarrow> bytes \<Rightarrow> template_result result option" where
  "goodix_chicago_runtime_match_print_data unset probe print_data sensor_id calibration =
     (case goodix_chicago_print_data_parse print_data sensor_id calibration of
        Inl e \<Rightarrow> Some (Inl e)
      | Inr packed \<Rightarrow>
          case goodix_chicago_enrollment_unpack packed of
            Inl e \<Rightarrow> Some (Inl e)
          | Inr gallery \<Rightarrow>
              map_option Inr (goodix_chicago_match_template_type24 unset gallery (rp_view probe) SELECTOR_THRESHOLD))"

definition goodix_chicago_runtime_score_print_data ::
    "(int \<times> int) list \<Rightarrow> runtime_probe \<Rightarrow> g_variant option \<Rightarrow> bytes option \<Rightarrow> bytes \<Rightarrow> int option" where
  "goodix_chicago_runtime_score_print_data unset probe print_data sensor_id calibration =
     map_option (\<lambda>r. case r of Inl e \<Rightarrow> - (2 ^ 31) | Inr result \<Rightarrow> tr_score result)
       (goodix_chicago_runtime_match_print_data unset probe print_data sensor_id calibration)"

text \<open>The result that a study starts from.\<close>

definition study_is_due :: "template_result \<Rightarrow> bool" where
  "study_is_due r \<longleftrightarrow>
     \<not> (tr_score r \<le> 0 \<or> \<not> tr_selected_index_known r \<or> tr_selected_index r < 0 \<or>
        \<not> tr_study_eligibility_known r \<or> \<not> tr_study_eligible r)"

text \<open>What becomes of the unpacked gallery: \<open>Inr None\<close> when the capacity selector replaces nothing.\<close>

definition study_gallery :: "enrollment \<Rightarrow> subtemplate_view \<Rightarrow> template_result \<Rightarrow> enrollment option result option" where
  "study_gallery gallery view r =
     (let count = goodix_chicago_enrollment_get_count gallery;
          selected = nat (tr_selected_index r);
          relations_of_result = take (tr_study_relation_count r) (tr_study_relations r)
      in if selected \<ge> count \<or> tr_study_relation_count r \<noteq> count then Some (Inl G_IO_ERROR_INVALID_DATA)
         else if count < goodix_chicago_enrollment_get_capacity gallery then
           (case goodix_chicago_enrollment_append_study gallery view selected (Some relations_of_result) of
              Inl e \<Rightarrow> Some (Inl e)
            | Inr (gallery', _) \<Rightarrow> Some (Inr (Some gallery')))
         else
           (case goodix_chicago_enrollment_select_capacity_replacement gallery view selected relations_of_result
                   (tr_study_relation_count r) (Some goodix_chicago_match_build_capacity_relation) of
              None \<Rightarrow> None
            | Some (ok, replacement, (gallery', relations')) \<Rightarrow>
                if \<not> ok then Some (Inl G_IO_ERROR_INVALID_DATA)
                else case replacement of
                  None \<Rightarrow> Some (Inr None)
                | Some replacement_index \<Rightarrow>
                    case goodix_chicago_enrollment_replace_study gallery' view selected replacement_index relations' of
                      Inl e \<Rightarrow> Some (Inl e)
                    | Inr None \<Rightarrow> None
                    | Inr (Some gallery'') \<Rightarrow> Some (Inr (Some gallery''))))"

text \<open>\<open>Inr None\<close> leaves the caller's print data as it is.\<close>

definition goodix_chicago_runtime_study_print_data ::
    "(bytes \<Rightarrow> bytes) \<Rightarrow> runtime_probe \<Rightarrow> g_variant option \<Rightarrow> bytes \<Rightarrow> bytes \<Rightarrow> template_result \<Rightarrow>
     g_variant option result option" where
  "goodix_chicago_runtime_study_print_data sha256 probe print_data sensor_id calibration result =
     (if \<not> study_is_due result then Some (Inr None)
      else case goodix_chicago_print_data_parse print_data (Some sensor_id) calibration of
        Inl e \<Rightarrow> Some (Inl e)
      | Inr packed \<Rightarrow>
          case goodix_chicago_enrollment_unpack packed of
            Inl e \<Rightarrow> Some (Inl e)
          | Inr gallery \<Rightarrow>
              case study_gallery gallery (rp_view probe) result of
                None \<Rightarrow> None
              | Some (Inl e) \<Rightarrow> Some (Inl e)
              | Some (Inr None) \<Rightarrow> Some (Inr None)
              | Some (Inr (Some gallery')) \<Rightarrow>
                  case goodix_chicago_enrollment_pack gallery' of
                    Inl e \<Rightarrow> Some (Inl e)
                  | Inr updated_packed \<Rightarrow>
                      Some (Inr (Some (goodix_chicago_print_data_build sha256 sensor_id calibration updated_packed))))"

section \<open>A finger in use\<close>

text \<open>Print data of the sensor that holds the enrollment \<open>G\<close>.\<close>

definition stored_print :: "bytes \<Rightarrow> g_variant \<Rightarrow> enrollment \<Rightarrow> bool" where
  "stored_print sensor_id print_data G \<longleftrightarrow>
     length sensor_id = SENSOR_ID_LEN \<and>
     (\<exists>digest data. print_data = Uayayay PRINT_DATA_VERSION sensor_id digest data \<and> length digest = CALIBRATION_DIGEST_LEN \<and>
        goodix_chicago_enrollment_unpack data = Inr G \<and> packable G)"

definition live_view :: "enrollment \<Rightarrow> subtemplate_view \<Rightarrow> bool" where
  "live_view G view \<longleftrightarrow> probe_packable view \<and> view_is_valid G view"

text \<open>Every use of the finger matches the probe and studies the result.\<close>

definition use_finger ::
    "(int \<times> int) list \<Rightarrow> (bytes \<Rightarrow> bytes) \<Rightarrow> bytes \<Rightarrow> bytes \<Rightarrow> g_variant \<Rightarrow> runtime_probe \<Rightarrow> (int \<times> g_variant) option" where
  "use_finger unset sha256 sensor_id calibration print_data probe =
     (case goodix_chicago_runtime_match_print_data unset probe (Some print_data) (Some sensor_id) calibration of
        Some (Inr result) \<Rightarrow>
          (case goodix_chicago_runtime_study_print_data sha256 probe (Some print_data) sensor_id calibration result of
             Some (Inr updated) \<Rightarrow>
               Some (tr_score result, case updated of None \<Rightarrow> print_data | Some print_data' \<Rightarrow> print_data')
           | _ \<Rightarrow> None)
      | _ \<Rightarrow> None)"

fun use_finger_all ::
    "(int \<times> int) list \<Rightarrow> (bytes \<Rightarrow> bytes) \<Rightarrow> bytes \<Rightarrow> bytes \<Rightarrow> g_variant \<Rightarrow> runtime_probe list \<Rightarrow> g_variant option" where
  "use_finger_all unset sha256 sensor_id calibration print_data [] = Some print_data"
| "use_finger_all unset sha256 sensor_id calibration print_data (probe # probes) =
     (case use_finger unset sha256 sensor_id calibration print_data probe of
        None \<Rightarrow> None
      | Some (_, print_data') \<Rightarrow> use_finger_all unset sha256 sensor_id calibration print_data' probes)"

lemma stored_print_parse:
  assumes "stored_print sensor_id print_data G"
  shows "\<exists>data. goodix_chicago_print_data_parse (Some print_data) (Some sensor_id) calibration = Inr data \<and>
    goodix_chicago_enrollment_unpack data = Inr G"
proof -
  obtain digest data where d: "print_data = Uayayay PRINT_DATA_VERSION sensor_id digest data"
    "length digest = CALIBRATION_DIGEST_LEN" "goodix_chicago_enrollment_unpack data = Inr G" "length sensor_id = SENSOR_ID_LEN"
    using assms by (auto simp: stored_print_def)
  have "data \<noteq> []" using d(3) by (auto simp: goodix_chicago_enrollment_unpack_def)
  then show ?thesis using d by simp
qed

lemma stored_print_build:
  assumes "packable G" and "length sensor_id = SENSOR_ID_LEN" and "\<And>bytes. length (sha256 bytes) = CALIBRATION_DIGEST_LEN"
  shows "\<exists>data. goodix_chicago_enrollment_pack G = Inr data \<and>
    stored_print sensor_id (goodix_chicago_print_data_build sha256 sensor_id calibration data) (canonical_enrollment G)"
  using unpack_pack [OF assms(1)] canonical_packable [OF assms(1)] assms(2,3)
  by (auto simp: stored_print_def goodix_chicago_print_data_build_def)

section \<open>A match never harms the print\<close>

lemma live_viewD:
  assumes "live_view G view"
  shows "probe_packable view" "v_record_count view \<le> record_limit G" "v_active_count view \<le> v_record_count view"
    "v_record_count view \<noteq> 0 \<Longrightarrow> v_records view \<noteq> None" "v_metric view \<noteq> None"
  using assms by (auto simp: live_view_def view_is_valid_def)

lemma packable_metrics: "packable G \<Longrightarrow> list_all (\<lambda>s. sub_metric s \<noteq> None) (subtemplates G)"
  using packable_parts(7) [of G] by (auto simp: list_all_iff subtemplate_packable_def)

lemma match_of_stored:
  assumes "packable G" and "live_view G view" and "length unset = 31"
  shows "\<exists>r. goodix_chicago_match_template_type24 unset G view threshold = Some r \<and>
    tr_study_relation_count r = length (subtemplates G) \<and> length (tr_study_relations r) = ENROLLMENT_CAPACITY \<and>
    list_all relation_packable (tr_study_relations r) \<and>
    (study_is_due r \<longrightarrow> nat (tr_selected_index r) < length (subtemplates G))"
proof -
  have "length (subtemplates G) \<le> ENROLLMENT_CAPACITY" using packable_parts(2,3) [OF assms(1)] by simp
  from match_template_ok [OF this live_viewD(5) [OF assms(2)] assms(3) packable_metrics [OF assms(1)], of threshold]
  obtain r where r: "goodix_chicago_match_template_type24 unset G view threshold = Some r"
    "tr_study_relation_count r = length (subtemplates G)" "length (tr_study_relations r) = ENROLLMENT_CAPACITY"
    "if tr_study_eligibility_known r then
       (\<exists>sec. 0 \<le> sec \<and> sec \<le> 31 \<and> tr_score r = geometry_share sec \<and>
          (if tr_selected_index_known r
           then 0 \<le> tr_selected_index r \<and> tr_selected_index r < int (length (subtemplates G)) \<and> 0 < tr_score r \<and>
             inlier_count (tr_study_relations r ! nat (tr_selected_index r)) = sec
           else tr_selected_index r = -1))
     else tr_score r \<le> 0 \<and> \<not> tr_selected_index_known r \<and> tr_selected_index r = -1 \<and> \<not> tr_study_eligible r"
    by blast
  have "nat (tr_selected_index r) < length (subtemplates G)" if "study_is_due r"
    using that r(4) by (auto simp: study_is_due_def split: if_splits)
  then show ?thesis using r(1-3) match_template_relations [OF assms(3) r(1)] by blast
qed

lemma study_of_stored:
  assumes p: "packable G" and view: "live_view G view"
    and count: "tr_study_relation_count r = length (subtemplates G)" "length (tr_study_relations r) = ENROLLMENT_CAPACITY"
    and rels: "list_all relation_packable (tr_study_relations r)"
    and selected: "nat (tr_selected_index r) < length (subtemplates G)"
  shows "study_gallery G view r = Some (Inr None) \<or>
    (\<exists>G'. study_gallery G view r = Some (Inr (Some G')) \<and> packable G' \<and> capacity G' = capacity G \<and>
       record_limit G' = record_limit G \<and> length (subtemplates G') = min (Suc (length (subtemplates G))) (capacity G))"
proof -
  let ?n = "length (subtemplates G)" and ?sel = "nat (tr_selected_index r)"
  define rs where "rs = take ?n (tr_study_relations r)"
  have n: "?n \<le> capacity G" "capacity G \<le> ENROLLMENT_CAPACITY" using packable_parts(2,3) [OF p] by simp_all
  have rs: "length rs = ?n" "list_all relation_packable rs"
    using n count(2) rels set_take_subset [of ?n "tr_study_relations r"] by (auto simp: rs_def list_all_iff)
  note v = live_viewD [OF view]
  note d = study_gallery_def [of G view r, unfolded Let_def goodix_chicago_enrollment_get_count_def
      goodix_chicago_enrollment_get_capacity_def count(1), folded rs_def]
  show ?thesis
  proof (cases "?n < capacity G")
    case True
    obtain G' where G': "goodix_chicago_enrollment_append_study G view ?sel (Some rs) = Inr (G', ?n)"
      "packable G'" "length (subtemplates G') = Suc ?n" "capacity G' = capacity G" "record_limit G' = record_limit G"
      using append_study_packable [OF p v(1-4) rs selected True] by blast
    then show ?thesis using True selected by (simp add: d)
  next
    case False
    then have full: "?n = capacity G" using n(1) by simp
    obtain G1 rs1 choice where s: "goodix_chicago_enrollment_select_capacity_replacement G view ?sel rs (capacity G)
        (Some goodix_chicago_match_build_capacity_relation) = Some (True, choice, (G1, Some rs1))"
      "packable G1" "same_gallery G G1" "length rs1 = capacity G" "list_all relation_packable rs1"
      "\<forall>i. choice = Some i \<longrightarrow> i < capacity G"
      using select_capacity_packable [OF p full _ _ rs(2) v(5), of ?sel] selected rs(1) full by auto
    note same = same_galleryD(1,3,4) [OF s(3)]
    show ?thesis
    proof (cases choice)
      case None
      then show ?thesis using False selected s(1) by (simp add: d full)
    next
      case (Some i)
      have "\<exists>G'. goodix_chicago_enrollment_replace_study G1 view ?sel i (Some rs1) = Inr (Some G') \<and>
          packable G' \<and> length (subtemplates G') = length (subtemplates G1) \<and>
          capacity G' = capacity G1 \<and> record_limit G' = record_limit G1"
        by (rule replace_study_packable [OF s(2) v(1)]) (use v same s(4,5,6) Some full selected in simp_all)
      then show ?thesis using False selected s(1) Some same by (auto simp: d full)
    qed
  qed
qed

lemma use_finger_keeps:
  assumes stored: "stored_print sensor_id pd G" and view: "live_view G (rp_view probe)"
    and sha: "\<And>bytes. length (sha256 bytes) = CALIBRATION_DIGEST_LEN" and unset: "length unset = 31"
  shows "\<exists>score pd' G'. use_finger unset sha256 sensor_id calibration pd probe = Some (score, pd') \<and>
    stored_print sensor_id pd' G' \<and> capacity G' = capacity G \<and> record_limit G' = record_limit G \<and>
    (pd' = pd \<and> G' = G \<or>
     0 < score \<and> length (subtemplates G') = min (Suc (length (subtemplates G))) (capacity G))"
proof -
  have G: "packable G" "length sensor_id = SENSOR_ID_LEN" using stored by (auto simp: stored_print_def)
  obtain data where data: "goodix_chicago_print_data_parse (Some pd) (Some sensor_id) calibration = Inr data"
    "goodix_chicago_enrollment_unpack data = Inr G"
    using stored_print_parse [OF stored] by blast
  obtain r where r: "goodix_chicago_match_template_type24 unset G (rp_view probe) SELECTOR_THRESHOLD = Some r"
    "tr_study_relation_count r = length (subtemplates G)" "length (tr_study_relations r) = ENROLLMENT_CAPACITY"
    "list_all relation_packable (tr_study_relations r)"
    "study_is_due r \<Longrightarrow> nat (tr_selected_index r) < length (subtemplates G)"
    using match_of_stored [OF G(1) view unset, of SELECTOR_THRESHOLD] by blast
  note m = goodix_chicago_runtime_match_print_data_def [of unset probe "Some pd" "Some sensor_id" calibration,
      unfolded data sum.case r(1) option.map]
  note st = goodix_chicago_runtime_study_print_data_def [of sha256 probe "Some pd" sensor_id calibration r,
      unfolded data sum.case]
  note use = use_finger_def [of unset sha256 sensor_id calibration pd probe, unfolded m option.case sum.case st]
  show ?thesis
  proof (cases "study_is_due r")
    case False
    then have "use_finger unset sha256 sensor_id calibration pd probe = Some (tr_score r, pd)" by (simp add: use)
    then show ?thesis using stored by blast
  next
    case True
    have positive: "0 < tr_score r" using True by (simp add: study_is_due_def)
    from study_of_stored [OF G(1) view r(2-4) r(5) [OF True]] show ?thesis
    proof (elim disjE exE conjE)
      assume "study_gallery G (rp_view probe) r = Some (Inr None)"
      then have "use_finger unset sha256 sensor_id calibration pd probe = Some (tr_score r, pd)" using True by (simp add: use)
      then show ?thesis using stored by blast
    next
      fix G' assume g: "study_gallery G (rp_view probe) r = Some (Inr (Some G'))" "packable G'" "capacity G' = capacity G"
        "record_limit G' = record_limit G" "length (subtemplates G') = min (Suc (length (subtemplates G))) (capacity G)"
      obtain packed where packed: "goodix_chicago_enrollment_pack G' = Inr packed"
        "stored_print sensor_id (goodix_chicago_print_data_build sha256 sensor_id calibration packed) (canonical_enrollment G')"
        using stored_print_build [where calibration = calibration and ?sha256.0 = sha256, OF g(2) G(2) sha] by blast
      then show ?thesis
        using True g positive by (simp add: use) (auto simp: canonical_enrollment_def)
    qed
  qed
qed

section \<open>Properties\<close>

text \<open>A probe built from a capture whose data has the sizes of the feature extraction.\<close>

definition captured :: "runtime_probe \<Rightarrow> bool" where
  "captured probe \<longleftrightarrow>
     (\<exists>recs n_records n_active qual cov metric consensus live_auxiliary.
        runtime_build_probe recs n_records n_active qual cov metric consensus live_auxiliary = Inr probe \<and>
        n_records \<le> length recs \<and> list_all (\<lambda>r. length (descriptor r) = 48) recs \<and> qual < 256 \<and> cov < 256 \<and>
        metric_packable metric)"

lemma captured_probe:
  assumes "captured probe"
  shows "probe_packable (rp_view probe)" "v_record_count (rp_view probe) \<le> 120" "view_is_valid goodix_chicago_enrollment_new (rp_view probe)"
    "packable (rp_enrollment probe)"
proof -
  obtain recs n_records n_active qual cov metric positive_percent density_class inactive_count live_auxiliary where
    built: "runtime_build_probe recs n_records n_active qual cov metric (positive_percent, density_class, inactive_count) live_auxiliary = Inr probe"
    and size: "n_records \<le> length recs" "list_all (\<lambda>r. length (descriptor r) = 48) recs" "qual < 256" "cov < 256" "metric_packable metric"
    using assms unfolding captured_def by fast
  have ok: "n_records \<le> 120" "n_active \<le> n_records"
    using built by (auto simp: runtime_build_probe_def goodix_chicago_enrollment_insert_first_def goodix_chicago_enrollment_new_def Let_def
        split: if_splits)
  let ?sub = "\<lparr> record_count = n_records, active_count = n_active, quality = qual, coverage = cov,
        records = take n_records recs, sub_metric = Some metric, group_state = 0, relation_base = 0, study_state = 0,
        study_flags = 0, lineage_index = 0, replacement_count = 0, study_value_a = 0, study_value_b = 0 \<rparr>"
  let ?E = "goodix_chicago_enrollment_new\<lparr> subtemplates := [?sub],
      match_order := (match_order goodix_chicago_enrollment_new)[0 := 0], relations := [weak_relation], transform_count := 1 \<rparr>"
  have first: "goodix_chicago_enrollment_insert_first goodix_chicago_enrollment_new (Some recs) n_records n_active qual cov (Some metric) =
      Inr (?E, insertion_result ?E FIRST_POSITION_DETAIL)"
    using ok by (simp add: goodix_chicago_enrollment_insert_first_def goodix_chicago_enrollment_new_def Let_def)
  have view: "rp_view probe = \<lparr> v_record_count = n_records, v_active_count = n_active, v_quality = qual, v_coverage = cov,
      v_records = Some (take n_records recs), v_metric = Some metric, v_group_state = 0, v_relation_base = 0, v_study_state = 0,
      v_study_flags = 0, v_lineage_index = 0, v_replacement_count = 0, v_study_value_a = 0, v_study_value_b = 0,
      v_density_positive_percent = positive_percent, v_density_class = density_class,
      v_density_inactive_count = inactive_count, v_live_auxiliary = live_auxiliary \<rparr>"
    and E: "rp_enrollment probe = ?E"
    using built first by (auto simp: runtime_build_probe_def goodix_chicago_enrollment_get_subtemplate_def)
  have desc: "list_all (\<lambda>r. length (descriptor r) = 48) (take n_records recs)"
    using size(2) by (metis append_take_drop_id list_all_append)
  show "v_record_count (rp_view probe) \<le> 120" using ok by (simp add: view)
  show "view_is_valid goodix_chicago_enrollment_new (rp_view probe)"
    using ok by (simp add: view view_is_valid_def goodix_chicago_enrollment_new_def)
  show "probe_packable (rp_view probe)"
    using size desc by (simp add: probe_packable_def view view_available_def records_available_def view_records_def)
  have wf: "enrollment_wf ?E"
    by (rule wf_insert_first [OF wf_new _ first]) (use size(1) in \<open>simp_all add: records_available_def goodix_chicago_enrollment_new_def\<close>)
  show "packable (rp_enrollment probe)"
    unfolding E packable_iff [OF wf]
    using size desc ok by (simp add: goodix_chicago_enrollment_new_def content_packable_def subtemplate_metric_def storable weak_relation_def in_i32_def)
qed

lemma captured_live:
  assumes "captured probe" and "record_limit G = 120"
  shows "live_view G (rp_view probe)"
  using captured_probe(1,3) [OF assms(1)] assms(2)
  by (simp add: live_view_def view_is_valid_def goodix_chicago_enrollment_new_def)

text \<open>C1: An enrolled finger stays usable. However often captured probes are matched against the print
  data and studied, no match and no study fails or reads through a null pointer, and what is stored in the
  end parses for the same sensor and unpacks to a well-formed enrollment that can be packed again. Its
  number of samples never falls, grows by at most one per use, and stays within the capacity.\<close>

theorem finger_stays_usable:
  assumes "stored_print sensor_id pd G" and "record_limit G = 120" and "list_all captured probes"
    and "\<And>bytes. length (sha256 bytes) = CALIBRATION_DIGEST_LEN" and "length unset = 31"
  shows "\<exists>pd' G'. use_finger_all unset sha256 sensor_id calibration pd probes = Some pd' \<and>
    stored_print sensor_id pd' G' \<and> enrollment_wf G' \<and> length (subtemplates G) \<le> length (subtemplates G') \<and>
    length (subtemplates G') \<le> min (length (subtemplates G) + length probes) (capacity G)"
  using assms(1-3)
proof (induction probes arbitrary: pd G)
  case Nil
  then have "packable G" by (auto simp: stored_print_def)
  then have "enrollment_wf G" "length (subtemplates G) \<le> capacity G" by (rule packable_parts(1), rule packable_parts(2))
  then show ?case using Nil by auto
next
  case (Cons probe probes)
  then have live: "live_view G (rp_view probe)" by (simp add: captured_live)
  obtain score pd1 G1 where one: "use_finger unset sha256 sensor_id calibration pd probe = Some (score, pd1)"
    "stored_print sensor_id pd1 G1" "capacity G1 = capacity G" "record_limit G1 = record_limit G"
    "pd1 = pd \<and> G1 = G \<or> 0 < score \<and> length (subtemplates G1) = min (Suc (length (subtemplates G))) (capacity G)"
    using use_finger_keeps [where calibration = calibration and ?sha256.0 = sha256, OF Cons.prems(1) live assms(4,5)] by blast
  have "length (subtemplates G) \<le> capacity G" using Cons.prems(1) packable_parts(2) by (auto simp: stored_print_def)
  then have n: "length (subtemplates G) \<le> length (subtemplates G1)" "length (subtemplates G1) \<le> Suc (length (subtemplates G))"
    using one(5) by auto
  obtain pd' G' where rest: "use_finger_all unset sha256 sensor_id calibration pd1 probes = Some pd'"
    "stored_print sensor_id pd' G'" "enrollment_wf G'" "length (subtemplates G1) \<le> length (subtemplates G')"
    "length (subtemplates G') \<le> min (length (subtemplates G1) + length probes) (capacity G1)"
    using Cons.IH [OF one(2)] Cons.prems(2,3) one(4) by auto
  then show ?case using one(1,3) n by (intro exI [of _ pd'] exI [of _ G']) auto
qed

definition sample_sensor :: bytes where "sample_sensor = replicate SENSOR_ID_LEN 3"

definition sample_digest :: "bytes \<Rightarrow> bytes" where "sample_digest bytes = replicate CALIBRATION_DIGEST_LEN 0"

definition sample_print :: g_variant where
  "sample_print = goodix_chicago_print_data_build sample_digest sample_sensor [1] (projr (goodix_chicago_enrollment_pack packed_sample))"

definition sample_probe :: runtime_probe where
  "sample_probe = projr (runtime_build_probe [] 0 0 50 60 flat_metric (0, 0, 0) (replicate 6 0))"

lemma sample_print_stored: "stored_print sample_sensor sample_print (canonical_enrollment packed_sample)"
  using stored_print_build [of packed_sample sample_sensor sample_digest "[1]"] packed_sample_packable
  by (auto simp: sample_print_def sample_sensor_def sample_digest_def)

lemma sample_probe_built: "runtime_build_probe [] 0 0 50 60 flat_metric (0, 0, 0) (replicate 6 0) = Inr sample_probe"
  by (simp add: sample_probe_def runtime_build_probe_def goodix_chicago_enrollment_insert_first_def goodix_chicago_enrollment_new_def
      goodix_chicago_enrollment_get_subtemplate_def Let_def)

lemma sample_probe_captured: "captured sample_probe"
  unfolding captured_def
  by (intro exI conjI, rule sample_probe_built) (simp_all add: metric_packable_def flat_metric_def metric_data_build_position_map_def)

theorem finger_stays_usable_witness:
  "\<exists>pd' G'. use_finger_all (replicate 31 (0, 0)) sample_digest sample_sensor [1] sample_print [sample_probe, sample_probe] = Some pd' \<and>
    stored_print sample_sensor pd' G' \<and> length (subtemplates G') \<le> 3"
proof -
  have "record_limit (canonical_enrollment packed_sample) = 120" by (simp add: canonical_enrollment_def packed_sample_fields)
  then have "\<exists>pd' G'. use_finger_all (replicate 31 (0, 0)) sample_digest sample_sensor [1] sample_print [sample_probe, sample_probe] = Some pd' \<and>
    stored_print sample_sensor pd' G' \<and> enrollment_wf G' \<and>
    length (subtemplates (canonical_enrollment packed_sample)) \<le> length (subtemplates G') \<and>
    length (subtemplates G') \<le> min (length (subtemplates (canonical_enrollment packed_sample)) + length [sample_probe, sample_probe])
      (capacity (canonical_enrollment packed_sample))"
    by (rule finger_stays_usable [OF sample_print_stored]) (simp_all add: sample_probe_captured sample_digest_def)
  then show ?thesis by (auto simp: canonical_wf_shape(1) packed_sample_fields(1) numeral_3_eq_3 simp del: use_finger_all.simps)
qed

text \<open>C38: The score of a probe against print data never reads through a null pointer, whatever the bytes of
  the template: it is the smallest 32-bit integer exactly when the print data or the template in it is
  refused, and otherwise lies between -7 and 100.\<close>

theorem print_score_outcome:
  assumes "v_metric (rp_view probe) \<noteq> None" and "length unset = 31"
  shows "\<exists>score. goodix_chicago_runtime_score_print_data unset probe print_data sensor_id calibration = Some score \<and>
    (case goodix_chicago_print_data_parse print_data sensor_id calibration of
       Inl e \<Rightarrow> score = - (2 ^ 31)
     | Inr packed \<Rightarrow>
         (case goodix_chicago_enrollment_unpack packed of Inl e \<Rightarrow> score = - (2 ^ 31) | Inr gallery \<Rightarrow> -7 \<le> score \<and> score \<le> 100))"
proof (cases "goodix_chicago_print_data_parse print_data sensor_id calibration")
  case (Inl e)
  then show ?thesis by (simp add: goodix_chicago_runtime_score_print_data_def goodix_chicago_runtime_match_print_data_def)
next
  case (Inr packed)
  note parsed = Inr
  show ?thesis
  proof (cases "goodix_chicago_enrollment_unpack packed")
    case (Inl e)
    then show ?thesis using parsed by (simp add: goodix_chicago_runtime_score_print_data_def goodix_chicago_runtime_match_print_data_def)
  next
    case (Inr gallery)
    have accepted: "enrollment_accepted gallery" by (rule unpack_accepted [OF Inr])
    then have "length (subtemplates gallery) \<le> ENROLLMENT_CAPACITY" "list_all (\<lambda>s. sub_metric s \<noteq> None) (subtemplates gallery)"
      by (auto simp: enrollment_accepted_def list_all_iff subtemplate_accepted_def)
    from match_template_ok [OF this(1) assms this(2), of SELECTOR_THRESHOLD] obtain r where
      "goodix_chicago_match_template_type24 unset gallery (rp_view probe) SELECTOR_THRESHOLD = Some r"
      "-7 \<le> tr_score r" "tr_score r \<le> 100"
      by blast
    then show ?thesis using parsed Inr
      by (simp add: goodix_chicago_runtime_score_print_data_def goodix_chicago_runtime_match_print_data_def)
  qed
qed

theorem print_score_outcome_witness:
  "\<exists>score. goodix_chicago_runtime_score_print_data (replicate 31 (0, 0)) sample_probe (Some Other_variant) None [] = Some score \<and>
     score = - (2 ^ 31)"
  using print_score_outcome [of sample_probe "replicate 31 (0, 0)" "Some Other_variant" None "[]"] captured_probe(1) [OF sample_probe_captured]
  by (auto simp: probe_packable_def)

end
