(* ===== verification/Chicago_Enrolled.thy ===== *)
theory Chicago_Enrolled
  imports Chicago_Runtime
begin

text \<open>
  Enrollments that only captured samples went into can be stored: insertions and drops keep what a packed
  template can hold. This is what the driver relies on when it packs a finished enrollment.
\<close>

section \<open>Relations of new samples\<close>

lemma estimate_loop_i32: "transform_i32 (res_values result) \<Longrightarrow> transform_i32 (res_values (estimate_loop src tgt ijks result))"
proof (induction ijks arbitrary: result)
  case (Cons ijk ijks)
  have "transform_i32 (res_values (estimate_triple src tgt ijk result))"
    using Cons.prems by (cases ijk) (simp add: estimate_triple_def Let_def)
  then show ?case using Cons.IH by (simp add: Let_def)
qed simp

lemma length_correspondences: "length (goodix_chicago_enrollment_find_correspondences olds news) \<le> 31"
  using select_correspondences_ok [of olds news]
  by (auto simp: selection_ok_def goodix_chicago_enrollment_find_correspondences_def)

lemma relation_to_existing_packable:
  assumes "relation_to_existing recs metric old = Some (rel, evidence)"
  shows "relation_packable rel"
proof -
  obtain old_metric where m: "sub_metric old = Some old_metric" using assms by (auto simp: relation_to_existing_def split: option.splits)
  define pairs where "pairs = goodix_chicago_enrollment_find_correspondences (records old) recs"
  define source where "source = map (\<lambda>(i, j). record_point (recs ! j)) pairs"
  define target where "target = map (\<lambda>(i, j). record_point (records old ! i)) pairs"
  have len: "length source \<le> 42" "length source = length target"
    using length_correspondences [of "records old" recs] by (simp_all add: pairs_def source_def target_def)
  define found where "found = estimate_loop source target (index_triples (length source)) estimate_start"
  have est: "goodix_chicago_enrollment_estimate_transform source target = Some found"
    using len by (simp add: goodix_chicago_enrollment_estimate_transform_def found_def)
  have "estimate_ok source target estimate_start" by (simp add: estimate_ok_def estimate_start_def)
  then have "estimate_ok source target found" unfolding found_def by (rule estimate_ok_loop [OF len(2,1)])
  then have "res_inlier_count found \<le> 42" unfolding estimate_ok_def by (metis length_filter_le)
  moreover have "transform_i32 (res_values found)"
    unfolding found_def by (rule estimate_loop_i32) (simp add: estimate_start_def storable in_i32_def)
  ultimately have "relation_packable \<lparr> inlier_count = int (res_inlier_count found), rel_transform = res_values found \<rparr>"
    by (simp add: relation_packable_iff in_i32_def)
  moreover have "relation_packable weak_relation" by (simp add: weak_relation_def storable in_i32_def)
  moreover have "rel = weak_relation \<or> rel = \<lparr> inlier_count = int (res_inlier_count found), rel_transform = res_values found \<rparr>"
    using assms m est
    by (auto simp: relation_to_existing_def goodix_chicago_enrollment_build_relation_def Let_def pairs_def [symmetric]
        source_def [symmetric] target_def [symmetric] split: prod.splits if_splits)
  ultimately show ?thesis by auto
qed

lemma relations_to_existing_packable:
  "relations_to_existing recs metric olds = Some found \<Longrightarrow> list_all relation_packable (map fst found)"
proof (induction olds arbitrary: found)
  case (Cons old olds)
  obtain rel evidence rest where r: "relation_to_existing recs metric old = Some (rel, evidence)"
    "relations_to_existing recs metric olds = Some rest" "found = (rel, evidence) # rest"
    using Cons.prems by (auto split: option.splits)
  then show ?case using Cons.IH [OF r(2)] relation_to_existing_packable [OF r(1)] by simp
qed simp

section \<open>The group\<close>

lemma packable_nth: "list_all relation_packable rels \<Longrightarrow> k < length rels \<Longrightarrow> relation_packable (rels ! k)"
  by (simp add: list_all_length)

lemma packable_update:
  "list_all relation_packable rels \<Longrightarrow> relation_packable r \<Longrightarrow> list_all relation_packable (rels[k := r])"
  using set_update_subset_insert [of rels k r] by (auto simp: list_all_iff)

lemma group_transform_i32:
  assumes "list_all relation_packable (relations self)"
  shows "transform_i32 (group_transform_between self source target)"
proof -
  have "transform_i32 (rel_transform r)" if "relation_between_subtemplates self a b = Some r" for a b r
    using that packable_nth [OF assms]
    by (auto simp: relation_between_subtemplates_def relation_index_between_def Let_def relation_packable_iff split: if_splits option.splits)
  then show ?thesis by (auto simp: group_transform_between_def split: option.split)
qed

lemma synthesize_pair_packable:
  "list_all relation_packable rels \<Longrightarrow> list_all relation_packable (synthesize_pair self c pair rels)"
  by (auto simp: synthesize_pair_def Let_def relation_packable_iff in_i32_def intro!: packable_update split: prod.split)

lemma synthesize_pairs_packable:
  "list_all relation_packable rels \<Longrightarrow> list_all relation_packable (foldl (\<lambda>rels pair. synthesize_pair self c pair rels) rels pairs)"
  by (induction pairs arbitrary: rels) (simp_all add: synthesize_pair_packable)

lemma settle_group_packable:
  assumes "settle_group self k has_group grouped candidate evidence = (self', to_anchor)"
    and "list_all relation_packable (relations self)"
    and "has_group \<and> grouped \<Longrightarrow> relation_base (subtemplates self ! k) + group_anchor self < length (relations self)"
  shows "list_all relation_packable (relations self')"
proof (cases "has_group \<and> grouped")
  case True
  have "transform_i32 (transform_to_anchor self k c)" for c
    by (simp add: transform_to_anchor_def Let_def group_transform_i32 [OF assms(2)])
  moreover have "relation_packable (relations self ! (relation_base (subtemplates self ! k) + group_anchor self))"
    using packable_nth [OF assms(2)] assms(3) True by blast
  ultimately show ?thesis
    using assms(1,2) True
    by (auto simp: settle_group_def Let_def relation_packable_iff in_i32_def intro!: packable_update)
next
  case False
  then show ?thesis
    using assms(1,2)
    by (auto simp: settle_group_def Let_def synthesize_first_group_relations_def synthesize_pairs_packable split: if_splits)
qed

section \<open>Insertions and drops\<close>

text \<open>A probe's view, as the enrollment takes it.\<close>

definition insert_probe :: "enrollment \<Rightarrow> subtemplate_view \<Rightarrow> (enrollment \<times> enrollment_result) result" where
  "insert_probe self view =
     (if goodix_chicago_enrollment_get_count self = 0
      then goodix_chicago_enrollment_insert_first self (v_records view) (v_record_count view) (v_active_count view)
             (v_quality view) (v_coverage view) (v_metric view)
      else goodix_chicago_enrollment_insert_next self (v_records view) (v_record_count view) (v_active_count view)
             (v_quality view) (v_coverage view) (v_metric view))"

text \<open>An enrollment that only captured samples went into.\<close>

definition enrolling :: "enrollment \<Rightarrow> bool" where
  "enrolling self \<longleftrightarrow> packable self \<and> record_limit self = 120 \<and> capacity self = ENROLLMENT_CAPACITY \<and>
     required_samples self = 8 \<and>
     list_all (\<lambda>k. lineage_index (subtemplates self ! k) = k) [0..<length (subtemplates self)] \<and>
     anchor_below (length (subtemplates self)) self"

lemma enrollingD:
  assumes "enrolling self"
  shows "packable self" "enrollment_wf self" "record_limit self = 120" "capacity self = ENROLLMENT_CAPACITY"
    "required_samples self = 8"
    "\<And>k. k < length (subtemplates self) \<Longrightarrow> lineage_index (subtemplates self ! k) = k"
    "anchor_below (length (subtemplates self)) self"
  using assms packable_parts(1) by (auto simp: enrolling_def list_all_iff)

lemma enrolling_new: "enrolling goodix_chicago_enrollment_new"
proof -
  have "packable goodix_chicago_enrollment_new"
    unfolding packable_iff [OF wf_new] by (simp add: goodix_chicago_enrollment_new_def)
  then show ?thesis by (simp add: enrolling_def goodix_chicago_enrollment_new_def anchor_below_def)
qed

lemma view_records_wf:
  assumes "probe_packable view"
  shows "records_available (v_records view) (v_record_count view)"
  using assms by (simp add: probe_packable_def view_available_def)

lemma insert_first_enrolling:
  assumes e: "enrolling self" "subtemplates self = []" and live: "live_view self view"
  shows "\<exists>self' res. insert_probe self view = Inr (self', res) \<and> enrolling self' \<and> length (subtemplates self') = 1 \<and> anchor_below 0 self'"
proof -
  note d = enrollingD [OF e(1)] and v = live_viewD [OF live]
  let ?sub = "\<lparr> record_count = v_record_count view, active_count = v_active_count view, quality = v_quality view, coverage = v_coverage view,
        records = view_records view, sub_metric = v_metric view, group_state = 0, relation_base = 0, study_state = 0,
        study_flags = 0, lineage_index = 0, replacement_count = 0, study_value_a = 0, study_value_b = 0 \<rparr>"
  let ?E = "self\<lparr> subtemplates := [?sub],
      match_order := (match_order self)[0 := 0], relations := relations self @ [weak_relation], transform_count := transform_count self + 1 \<rparr>"
  have first: "goodix_chicago_enrollment_insert_first self (v_records view) (v_record_count view) (v_active_count view)
      (v_quality view) (v_coverage view) (v_metric view) = Inr (?E, insertion_result ?E FIRST_POSITION_DETAIL)"
    using v(2,3,4) e(2) by (auto simp: goodix_chicago_enrollment_insert_first_def Let_def view_records_def)
  have wf: "enrollment_wf ?E" by (rule wf_insert_first [OF d(2) view_records_wf [OF v(1)] first]) (simp add: d(4))
  have "content_packable (capacity self) ?sub"
    using v(1) d(4) by (auto simp: content_packable_def probe_packable_def subtemplate_metric_def)
  moreover note q = d(1) [unfolded packable_iff [OF d(2)]]
  ultimately have "packable ?E"
    unfolding packable_iff [OF wf] by (simp add: weak_relation_def storable in_i32_def)
  then have "enrolling ?E" using d by (simp add: enrolling_def anchor_below_def e(2))
  then show ?thesis using first e(2) by (simp add: insert_probe_def goodix_chicago_enrollment_get_count_def anchor_below_def)
qed

lemma append_sample_fields:
  "matcher_values_packable (append_sample self sub rels founder) = matcher_values_packable self"
  "relations (append_sample self sub rels founder) = relations self @ rels"
  "required_samples (append_sample self sub rels founder) = required_samples self"
  "map lineage_index (subtemplates (append_sample self sub rels founder)) =
     map lineage_index (subtemplates self) @ [lineage_index sub]"
  by (cases founder; simp add: append_sample_def Let_def matcher_values_packable_def comp_def)+

lemma content_grouped: "content_packable cap s \<Longrightarrow> content_packable cap (s\<lparr> group_state := 1 \<rparr>)"
  by (erule content_ungrouped) simp_all

lemma append_sample_content:
  assumes "list_all (content_packable cap) (subtemplates self)" and "content_packable cap sub"
  shows "list_all (content_packable cap) (subtemplates (append_sample self sub rels founder))"
proof (cases founder)
  case None
  then show ?thesis using assms by (simp add: append_sample_def)
next
  case (Some k)
  have "list_all (content_packable cap) (map (\<lambda>s. s\<lparr> group_state := 1 \<rparr>) (subtemplates self))"
    using assms(1) content_grouped by (auto simp: list_all_iff)
  then show ?thesis using Some assms(2) by (simp add: append_sample_def)
qed

lemma settle_group_matcher:
  "settle_group self k has_group grouped candidate evidence = (self', to_anchor) \<Longrightarrow>
     matcher_values_packable self' = matcher_values_packable self"
  by (auto simp: settle_group_def Let_def synthesize_first_group_relations_def matcher_values_packable_def split: if_splits)

text \<open>A later insertion of a captured sample succeeds while there is room, and keeps all this.\<close>

lemma insert_next_enrolling:
  assumes e: "enrolling self" and live: "live_view self view"
    and room: "0 < length (subtemplates self)" "length (subtemplates self) < ENROLLMENT_CAPACITY"
  shows "\<exists>self' res. insert_probe self view = Inr (self', res) \<and> enrolling self' \<and>
    length (subtemplates self') = Suc (length (subtemplates self)) \<and>
    anchor_below (length (subtemplates self)) self'"
proof -
  let ?n = "length (subtemplates self)"
  note d = enrollingD [OF e] and v = live_viewD [OF live]
  have go: "insert_probe self view = goodix_chicago_enrollment_insert_next self (v_records view) (v_record_count view)
      (v_active_count view) (v_quality view) (v_coverage view) (v_metric view)"
    using room(1) by (simp add: insert_probe_def goodix_chicago_enrollment_get_count_def)
  have no_missing: "\<not> (\<exists>s \<in> set (subtemplates self). sub_metric s = None)"
    using packable_metrics [OF d(1)] by (auto simp: list_all_iff)
  have room': "\<not> (?n = 0 \<or> ?n \<ge> capacity self)" using room d(4) by linarith
  have valid: "\<not> (v_record_count view \<noteq> 0 \<and> v_records view = None \<or> v_record_count view > record_limit self \<or>
      v_active_count view > v_record_count view \<or> v_metric view = None)"
    using v by auto
  obtain self' res where ins: "goodix_chicago_enrollment_insert_next self (v_records view) (v_record_count view)
      (v_active_count view) (v_quality view) (v_coverage view) (v_metric view) = Inr (self', res)"
    using insert_next_outcome [of self "v_records view" "v_record_count view" "v_active_count view" "v_quality view"
      "v_coverage view" "v_metric view"]
    unfolding Let_def if_not_P [OF room'] if_not_P [OF valid] if_not_P [OF no_missing] by (metis surj_pair)
  note wf' = wf_insert_next [OF d(2) d(7) view_records_wf [OF v(1)] ins]
  let ?rs = "case v_records view of None \<Rightarrow> [] | Some rs \<Rightarrow> take (v_record_count view) rs"
  obtain metric found has_group chosen grouped founder to_anchor where
    s: "v_metric view = Some metric"
      "relations_to_existing ?rs metric (subtemplates self) = Some found"
      "has_group = list_ex (\<lambda>s. group_state s = 1) (subtemplates self)"
      "chosen = choose_candidate metric has_group (enumerate 0 (zip (subtemplates self) found))"
      "grouped = (case chosen of None \<Rightarrow> False | Some (_, score) \<Rightarrow> has_group \<or> score > 205)"
      "founder = (if grouped \<and> \<not> has_group then map_option fst chosen else None)"
      "settle_group (append_sample self (make_subtemplate self ?rs (v_record_count view) (v_active_count view)
           (v_quality view) (v_coverage view) metric grouped)
         (map fst found) founder) ?n has_group grouped (map_option fst chosen) (map snd found) = (self', to_anchor)"
    using insert_next_steps [OF ins] by metis
  let ?sub = "make_subtemplate self ?rs (v_record_count view) (v_active_count view) (v_quality view) (v_coverage view) metric grouped"
  let ?self1 = "append_sample self ?sub (map fst found) founder"
  note settled = settle_group_fields [OF s(7)]
  note q = d(1) [unfolded packable_iff [OF d(2)], folded matcher_values_packable_def]
  have candidate: "grouped \<Longrightarrow> \<exists>k score. chosen = Some (k, score) \<and> k < ?n"
    using grouped_candidate [OF s(4,5)] by blast
  have anchor1: "group_anchor ?self1 < ?n" if "has_group \<and> grouped"
    by (rule anchor_append_sample(2) [OF d(7) refl _ s(3,6) refl that]) (rule candidate)
  have found: "length found = ?n" using s(2) by (rule length_relations_to_existing)
  have at: "relation_base (subtemplates ?self1 ! ?n) = length (relations self)"
    by (cases founder) (simp_all add: append_sample_def make_subtemplate_def Let_def nth_append)
  have "list_all relation_packable (relations ?self1)"
    using q relations_to_existing_packable [OF s(2)] by (simp add: append_sample_fields(2))
  then have rels: "list_all relation_packable (relations self')"
  proof (rule settle_group_packable [OF s(7)])
    assume "has_group \<and> grouped"
    then have "group_anchor ?self1 < length (map fst found)" unfolding length_map found by (rule anchor1)
    then show "relation_base (subtemplates ?self1 ! ?n) + group_anchor ?self1 < length (relations ?self1)"
      unfolding at append_sample_fields(2) length_append by (rule add_strict_left_mono)
  qed
  have rs: "?rs = view_records view" by (simp add: view_records_def split: option.split)
  have "content_packable (capacity self) ?sub"
    using v(1) room(2) s(1) d(4) by (auto simp: content_packable_def make_subtemplate_def rs probe_packable_def subtemplate_metric_def)
  then have subs: "list_all (content_packable (capacity self')) (subtemplates self')"
    using append_sample_content q settled appended_by_append_sample
    by (simp add: appended_by_def)
  have "matcher_values_packable self'"
    using q settle_group_matcher [OF s(7)] append_sample_fields(1) by (simp add: matcher_values_packable_def)
  then have p: "packable self'"
    using subs rels by (subst packable_iff [OF wf'(1)]) (simp add: matcher_values_packable_def)
  have lineage: "map lineage_index (subtemplates self') = map lineage_index (subtemplates self) @ [?n]"
    using settled append_sample_fields(4) by (simp add: make_subtemplate_def)
  have "lineage_index (subtemplates self' ! k) = k" if "k < length (subtemplates self')" for k
  proof -
    have "lineage_index (subtemplates self' ! k) = (map lineage_index (subtemplates self) @ [?n]) ! k"
      using that lineage by (metis nth_map)
    then show ?thesis using that d(6) wf'(3) by (auto simp: nth_append less_Suc_eq)
  qed
  moreover have "capacity self' = capacity self" "record_limit self' = record_limit self" "required_samples self' = required_samples self"
    using settled appended_by_append_sample append_sample_fields(3) by (simp_all add: appended_by_def)
  ultimately have "enrolling self'"
    using p d wf'(2,3) by (auto simp: enrolling_def list_all_iff intro: anchor_below_mono)
  then show ?thesis using ins go wf'(2,3) by auto
qed

lemma insert_enrolling:
  assumes "enrolling self" and "live_view self view" and "length (subtemplates self) < ENROLLMENT_CAPACITY"
  shows "\<exists>self' res. insert_probe self view = Inr (self', res) \<and> enrolling self' \<and>
    length (subtemplates self') = Suc (length (subtemplates self)) \<and>
    anchor_below (length (subtemplates self)) self'"
  using insert_first_enrolling [OF assms(1) _ assms(2)] insert_next_enrolling [OF assms(1,2) _ assms(3)]
  by (cases "subtemplates self = []") auto

text \<open>Dropping the sample that was inserted last, once.\<close>

lemma drop_last_enrolling:
  assumes e: "enrolling self" and anchor: "anchor_below (length (subtemplates self) - 1) self" and drop: "subtemplates self \<noteq> []"
  shows "\<exists>self'. goodix_chicago_enrollment_drop_last self = Inr self' \<and> enrolling self' \<and>
    length (subtemplates self) = Suc (length (subtemplates self'))"
proof -
  note d = enrollingD [OF e]
  obtain self' where self': "goodix_chicago_enrollment_drop_last self = Inr self'"
    using drop by (cases "goodix_chicago_enrollment_drop_last self") (auto simp: goodix_chicago_enrollment_drop_last_def Let_def split: if_splits)
  obtain m where m: "length (subtemplates self) = Suc m" using drop by (cases "subtemplates self") auto
  note f = drop_last_fields [OF d(2) self' m] and wf = wf_drop_last [OF d(2) self']
  note q = d(1) [unfolded packable_iff [OF d(2)]]
  have "list_all relation_packable (relations self')"
    using q in_set_takeD by (fastforce simp: f list_all_iff)
  moreover have "list_all (content_packable (capacity self')) (subtemplates self')"
    using q by (auto simp: f list_all_iff dest: in_set_butlastD)
  ultimately have "packable self'" using q by (subst packable_iff [OF wf(1)]) (simp add: f)
  then show ?thesis using self' wf(2) wf(3) [OF anchor] d
    by (auto simp: enrolling_def f list_all_iff nth_butlast)
qed

end
