(* ===== verification/Chicago_Probe.thy ===== *)
theory Chicago_Probe
  imports Chicago_Enrolled
begin

text \<open>
  From a raw frame to a probe (\<open>goodix_chicago_runtime_prepare_probe\<close>) and the ends of the two image stages that it
  joins: the metrics and the resolution code of goodix-chicago-preprocess.c, the live record of
  goodix-chicago-feature.c. The image filters themselves are the operations of \<open>stages\<close>.
\<close>

section \<open>Metrics and the resolution code\<close>

abbreviation (input) CHICAGO_PIXELS :: nat where "CHICAGO_PIXELS \<equiv> 5120"

definition clamp_percent :: "int \<Rightarrow> nat" where
  "clamp_percent v = nat (if v < 0 then 0 else if v > 100 then 100 else v)"

text \<open>Both metrics are percentages; the product of three stays far below the 32 bits of an \<open>int\<close>.\<close>

definition goodix_chicago_preprocessor_finalize_metrics :: "int \<Rightarrow> int \<Rightarrow> nat \<times> nat" where
  "goodix_chicago_preprocessor_finalize_metrics base_quality covered =
     (let q = (if base_quality > 0 then base_quality + 7 else 0);
          q' = (if covered < 50 then q * covered * covered div 2500 else q)
      in (clamp_percent q', clamp_percent covered))"

definition label_count :: "bytes \<Rightarrow> byte \<Rightarrow> nat" where
  "label_count labels class = length (filter (\<lambda>l. l = class) labels)"

text \<open>The result is the number of the third class, the labels with the first two cleared, the code and the
  auxiliary flag.\<close>

definition goodix_chicago_preprocessor_classify_resolution_labels ::
    "nat \<Rightarrow> bytes \<Rightarrow> nat \<Rightarrow> nat \<Rightarrow> nat \<times> bytes \<times> nat \<times> bool" where
  "goodix_chicago_preprocessor_classify_resolution_labels mode labels pixel_count valid_pixel_count =
     (let counted = take pixel_count labels;
          class2 = label_count counted 2; class3 = label_count counted 3;
          class1_and_3 = label_count counted 1 + class3;
          labels' = map (\<lambda>l. if l = 1 \<or> l = 2 then 0 else l) counted @ drop pixel_count labels;
          special = (mode = 0x18 \<or> mode = 0x1a);
          percentage = (if special then 20 else 15); class3_limit = (if special then 770 else 300);
          verdict =
            (if class3 * 100 > valid_pixel_count * percentage then (8, True)
             else if class3 > class3_limit then (7, True)
             else if (class1_and_3 + class2) * 100 > valid_pixel_count * 25 then (7, class3 > 150)
             else if class3 > 150 then (6, True)
             else if class2 > 600 \<or> class1_and_3 > 500 then (6, False)
             else if class2 > 300 \<or> class1_and_3 > 300 \<or> class1_and_3 + class2 > 300 then (5, False)
             else (0, False))
      in (class3, labels', verdict))"

definition scale_by_code :: "nat list" where
  "scale_by_code = [0, 2, 2, 3, 0, 1, 2, 4, 5, 5]"

definition goodix_chicago_preprocessor_pack_resolution_code :: "nat \<Rightarrow> nat" where
  "goodix_chicago_preprocessor_pack_resolution_code code =
     (if code \<ge> length scale_by_code then 0 else scale_by_code ! code * 2 ^ 8)"

text \<open>The six bytes of the live record.\<close>

definition goodix_chicago_feature_build_live_auxiliary :: "nat \<Rightarrow> nat \<Rightarrow> bytes" where
  "goodix_chicago_feature_build_live_auxiliary resolution_peak_state packed =
     (let secondary_scale = packed div 2 ^ 8 mod 8
      in [of_nat resolution_peak_state, 0, 0, of_nat (secondary_scale + 4), 0, 0])"

section \<open>Preparing a probe\<close>

datatype preprocess_status = PREPROCESS_STATUS_OK | PREPROCESS_STATUS_BAD_INPUT | PREPROCESS_STATUS_POOR_CAPTURE

datatype runtime_reject = REJECT_NONE | REJECT_NO_FEATURES | REJECT_BAD_INPUT | REJECT_POOR_CAPTURE

text \<open>The filters. The preprocessor changes with every frame it enhances; the extraction fills the array of
  records, whose use it counts, and the consensus; the planes are those the metric data is taken from.\<close>

record 'pre stages =
  build_enhanced_checked :: "'pre \<Rightarrow> u16 list \<Rightarrow> preprocess_status \<times> bytes \<times> 'pre"
  compute_base_quality_from_enhanced :: "bytes \<Rightarrow> int"
  compute_coverage :: "bytes \<Rightarrow> int"
  extract_subtemplate_full :: "bytes \<Rightarrow> feature_record list \<times> nat \<times> nat \<times> (nat \<times> nat \<times> nat)"
  feature_planes :: "bytes \<Rightarrow> bytes \<times> bytes"
  build_resolution_map_full :: "'pre \<Rightarrow> u16 list \<Rightarrow> bytes \<times> nat"

text \<open>A frame that is not usable gives the reason and no error.\<close>

definition goodix_chicago_runtime_prepare_probe ::
    "'pre stages \<Rightarrow> 'pre \<Rightarrow> u16 list \<Rightarrow> (runtime_reject + runtime_probe) result \<times> 'pre" where
  "goodix_chicago_runtime_prepare_probe st preprocessor raw =
     (case build_enhanced_checked st preprocessor raw of (status, enhanced, preprocessor') \<Rightarrow>
        (case goodix_chicago_preprocessor_finalize_metrics (compute_base_quality_from_enhanced st enhanced)
                (compute_coverage st enhanced) of (qual, cov) \<Rightarrow>
           (if status \<noteq> PREPROCESS_STATUS_OK
            then Inr (Inl (if status = PREPROCESS_STATUS_BAD_INPUT then REJECT_BAD_INPUT else REJECT_POOR_CAPTURE))
            else case extract_subtemplate_full st enhanced of (recs, n_records, n_active, consensus) \<Rightarrow>
              if n_records = 0 then Inr (Inl REJECT_NO_FEATURES)
              else
                let planes = feature_planes st enhanced;
                    metric = goodix_chicago_enrollment_build_metric_data enhanced (fst planes) (snd planes)
                in case build_resolution_map_full st preprocessor' raw of (labels, peak_state) \<Rightarrow>
                  (case goodix_chicago_preprocessor_classify_resolution_labels 0x18 labels CHICAGO_PIXELS CHICAGO_PIXELS of
                     (_, _, code, _) \<Rightarrow>
                       let packed = goodix_chicago_preprocessor_pack_resolution_code code
                       in map_sum id Inr
                            (runtime_build_probe recs n_records n_active qual cov (metric\<lparr> packed_resolution := packed \<rparr>)
                               consensus (goodix_chicago_feature_build_live_auxiliary peak_state packed)))),
         preprocessor'))"

section \<open>What comes out\<close>

lemma clamp_percent_bound: "clamp_percent v \<le> 100"
  by (auto simp: clamp_percent_def)

lemma pack_resolution_bound: "goodix_chicago_preprocessor_pack_resolution_code code \<le> 5 * 2 ^ 8"
proof (cases "code < 10")
  case True
  then have "code \<in> {0, 1, 2, 3, 4, 5, 6, 7, 8, 9}" by auto
  then show ?thesis by (auto simp: goodix_chicago_preprocessor_pack_resolution_code_def scale_by_code_def)
qed (simp add: goodix_chicago_preprocessor_pack_resolution_code_def scale_by_code_def)

lemma metric_data_packable:
  "packed < 2 ^ 32 \<Longrightarrow> metric_packable ((goodix_chicago_enrollment_build_metric_data source prepared feature_mask)\<lparr> packed_resolution := packed \<rparr>)"
  by (simp add: metric_packable_def goodix_chicago_enrollment_build_metric_data_def Let_def metric_data_build_position_map_def
      pack_plane_bits(2) [where k = 0])

text \<open>What the driver relies on of the extraction: no more records than the array has, descriptors of 48 bytes.\<close>

definition extracts_records :: "'pre stages \<Rightarrow> bool" where
  "extracts_records st \<longleftrightarrow>
     (\<forall>enhanced. case extract_subtemplate_full st enhanced of (recs, n_records, n_active, consensus) \<Rightarrow>
        n_records \<le> length recs \<and> list_all (\<lambda>r. length (descriptor r) = 48) recs)"

lemma prepared_captured:
  assumes "extracts_records st" and "goodix_chicago_runtime_prepare_probe st pre raw = (Inr (Inr probe), pre')"
  shows "captured probe"
proof -
  obtain status enhanced pre1 where e: "build_enhanced_checked st pre raw = (status, enhanced, pre1)"
    by (cases "build_enhanced_checked st pre raw")
  obtain recs n_records n_active consensus where x: "extract_subtemplate_full st enhanced = (recs, n_records, n_active, consensus)"
    by (cases "extract_subtemplate_full st enhanced")
  obtain labels peak where m: "build_resolution_map_full st pre1 raw = (labels, peak)" by (cases "build_resolution_map_full st pre1 raw")
  obtain c3 ls code aux where c: "goodix_chicago_preprocessor_classify_resolution_labels 0x18 labels CHICAGO_PIXELS CHICAGO_PIXELS = (c3, ls, code, aux)"
    by (cases "goodix_chicago_preprocessor_classify_resolution_labels 0x18 labels CHICAGO_PIXELS CHICAGO_PIXELS")
  define qual where "qual = fst (goodix_chicago_preprocessor_finalize_metrics (compute_base_quality_from_enhanced st enhanced) (compute_coverage st enhanced))"
  define cov where "cov = snd (goodix_chicago_preprocessor_finalize_metrics (compute_base_quality_from_enhanced st enhanced) (compute_coverage st enhanced))"
  define packed where "packed = goodix_chicago_preprocessor_pack_resolution_code code"
  define metric where "metric = (goodix_chicago_enrollment_build_metric_data enhanced (fst (feature_planes st enhanced))
      (snd (feature_planes st enhanced)))\<lparr> packed_resolution := packed \<rparr>"
  have q: "qual \<le> 100" "cov \<le> 100"
    by (simp_all add: qual_def cov_def goodix_chicago_preprocessor_finalize_metrics_def Let_def clamp_percent_bound)
  have fm: "goodix_chicago_preprocessor_finalize_metrics (compute_base_quality_from_enhanced st enhanced) (compute_coverage st enhanced) = (qual, cov)"
    by (simp add: qual_def cov_def)
  have "map_sum id Inr (runtime_build_probe recs n_records n_active qual cov metric consensus
      (goodix_chicago_feature_build_live_auxiliary peak packed)) = (Inr (Inr probe) :: (runtime_reject + runtime_probe) result)"
    using assms(2) unfolding goodix_chicago_runtime_prepare_probe_def e x m c prod.case fm Let_def packed_def [symmetric] metric_def
    by (auto split: if_splits)
  then have built: "runtime_build_probe recs n_records n_active qual cov metric consensus
      (goodix_chicago_feature_build_live_auxiliary peak packed) = Inr probe"
    by (cases "runtime_build_probe recs n_records n_active qual cov metric consensus (goodix_chicago_feature_build_live_auxiliary peak packed)") auto
  have "packed \<le> 5 * 2 ^ 8" unfolding packed_def by (rule pack_resolution_bound)
  then have "metric_packable metric" unfolding metric_def by (intro metric_data_packable) simp
  moreover have "n_records \<le> length recs" "list_all (\<lambda>r. length (descriptor r) = 48) recs"
    using assms(1) x unfolding extracts_records_def by (metis (no_types, lifting) case_prod_conv)+
  ultimately show ?thesis unfolding captured_def using built q by (intro exI conjI) auto
qed

end
