(* ===== verification/Gdix_Bus.thy ===== *)
theory Gdix_Bus
  imports Goodix_Wire
begin

text \<open>
  The synchronous transport of the driver (gdix51c0-proto.c): framed writes and reads on the SPI
  device, waiting for the interrupt line, and the commands with their two levels of retries.

  The kernel is an argument, a record of operations on a world of any type. An action maps the world
  to a result and a new world; \<open>None\<close> is an action that never returns, which only the waits for the
  interrupt line can do. Messages and log output are left out.
\<close>

section \<open>Actions\<close>

type_synonym ('w, 'a) action = "'w \<Rightarrow> ('a result \<times> 'w) option"

definition done_with :: "'a \<Rightarrow> ('w, 'a) action" where
  "done_with x w = Some (Inr x, w)"

definition fail_with :: "gio_error \<Rightarrow> ('w, 'a) action" where
  "fail_with e w = Some (Inl e, w)"

definition and_then :: "('w, 'a) action \<Rightarrow> ('a \<Rightarrow> ('w, 'b) action) \<Rightarrow> ('w, 'b) action" where
  "and_then m f w =
     (case m w of None \<Rightarrow> None | Some (Inl e, w') \<Rightarrow> Some (Inl e, w') | Some (Inr x, w') \<Rightarrow> f x w')"

definition or_else :: "('w, 'a) action \<Rightarrow> (gio_error \<Rightarrow> ('w, 'a) action) \<Rightarrow> ('w, 'a) action" where
  "or_else m f w =
     (case m w of None \<Rightarrow> None | Some (Inl e, w') \<Rightarrow> f e w' | Some (Inr x, w') \<Rightarrow> Some (Inr x, w'))"

section \<open>The kernel\<close>

text \<open>
  \<open>bus_write\<close> is \<open>write\<close> on the SPI device, an error when not all bytes were taken; \<open>bus_transfer n\<close> is
  one \<open>SPI_IOC_MESSAGE\<close> that clocks out \<open>n\<close> bytes of 0xff and gives the \<open>n\<close> bytes read; \<open>bus_level\<close>
  reads the interrupt line; \<open>bus_wait_edge\<close> waits for a buffered edge for that many nanoseconds (no
  time at all for 0) and tells whether there is one, \<open>bus_read_edges k\<close> takes up to \<open>k\<close> of them, true for
  a rising one; \<open>bus_now\<close> is the monotonic time in microseconds.
\<close>

record 'w kernel =
  bus_write :: "bytes \<Rightarrow> 'w \<Rightarrow> unit result \<times> 'w"
  bus_transfer :: "nat \<Rightarrow> 'w \<Rightarrow> bytes result \<times> 'w"
  bus_level :: "'w \<Rightarrow> bool result \<times> 'w"
  bus_wait_edge :: "int \<Rightarrow> 'w \<Rightarrow> bool result \<times> 'w"
  bus_read_edges :: "nat \<Rightarrow> 'w \<Rightarrow> bool list result \<times> 'w"
  bus_now :: "'w \<Rightarrow> int \<times> 'w"
  bus_sleep :: "nat \<Rightarrow> 'w \<Rightarrow> 'w"

definition call :: "('w \<Rightarrow> 'a result \<times> 'w) \<Rightarrow> ('w, 'a) action" where
  "call f w = Some (f w)"

section \<open>Framing\<close>

definition gdix51c0_payload_checksum :: "bytes \<Rightarrow> nat \<Rightarrow> byte" where
  "gdix51c0_payload_checksum buf len = goodix_wire_checksum buf len"

definition gdix51c0_header_checksum_ok :: "bytes \<Rightarrow> bool" where
  "gdix51c0_header_checksum_ok hdr4 \<longleftrightarrow> goodix_wire_decode_outer_header hdr4 \<noteq> None"

definition gdix51c0_make_header_packet :: "byte \<Rightarrow> u16 \<Rightarrow> bytes" where
  "gdix51c0_make_header_packet outer_type payload_len = goodix_wire_encode_outer_header outer_type payload_len"

definition gdix51c0_make_payload_packet :: "byte \<Rightarrow> bytes \<Rightarrow> bytes option" where
  "gdix51c0_make_payload_packet cmd data =
     (if \<not> length data \<le> 65535 - 1 then None
      else map_option fst (goodix_wire_encode_command cmd (Some data) (length data) (replicate (length data + 4) 0)))"

text \<open>The length goes into 16 bits; a write of no payload is the header alone.\<close>

definition gdix51c0_spi_write :: "'w kernel \<Rightarrow> byte \<Rightarrow> bytes \<Rightarrow> ('w, unit) action" where
  "gdix51c0_spi_write k outer_type payload =
     and_then (call (bus_write k (gdix51c0_make_header_packet outer_type (of_nat (length payload)))))
       (\<lambda>_. if length payload = 0 then done_with () else call (bus_write k payload))"

text \<open>The chunks of one read.\<close>

function gdix51c0_spi_xfer_read :: "'w kernel \<Rightarrow> nat \<Rightarrow> ('w, bytes) action" where
  "gdix51c0_spi_xfer_read k len =
     (if len = 0 then done_with []
      else and_then (call (bus_transfer k (min len 2048)))
        (\<lambda>chunk. and_then (gdix51c0_spi_xfer_read k (len - min len 2048)) (\<lambda>rest. done_with (chunk @ rest))))"
  by pat_completeness auto
termination by (relation "measure (\<lambda>(k, len). len)") auto

declare gdix51c0_spi_xfer_read.simps [simp del]

definition all_zero :: "bytes \<Rightarrow> bool" where
  "all_zero hdr \<longleftrightarrow> hdr ! 0 = 0 \<and> hdr ! 1 = 0 \<and> hdr ! 2 = 0 \<and> hdr ! 3 = 0"

definition all_ff :: "bytes \<Rightarrow> bool" where
  "all_ff hdr \<longleftrightarrow> hdr ! 0 = 0xff \<and> hdr ! 1 = 0xff \<and> hdr ! 2 = 0xff \<and> hdr ! 3 = 0xff"

text \<open>Up to four reads of a header, with growing pauses while the bus is idle.\<close>

fun read_header :: "'w kernel \<Rightarrow> nat list \<Rightarrow> ('w, bytes) action" where
  "read_header k [] = fail_with G_IO_ERROR_FAILED"
| "read_header k (attempt # attempts) =
     and_then (gdix51c0_spi_xfer_read k 4)
       (\<lambda>hdr. if \<not> all_zero hdr \<and> \<not> all_ff hdr \<or> attempts = [] then done_with hdr
              else (\<lambda>w. read_header k attempts (bus_sleep k (5000 + attempt * 10000) w)))"

text \<open>A header whose checksum is wrong is only reported. For a packet without payload the buffer is what
  \<open>g_malloc (0)\<close> returns, the null pointer, which the callers take for a failure without an error.\<close>

definition gdix51c0_spi_read_typed :: "'w kernel \<Rightarrow> ('w, byte \<times> bytes) action" where
  "gdix51c0_spi_read_typed k =
     and_then (read_header k [0, 1, 2, 3])
       (\<lambda>hdr. if all_zero hdr then fail_with G_IO_ERROR_FAILED
              else if all_ff hdr \<or> le16_at hdr 1 = 0xffff then fail_with G_IO_ERROR_FAILED
              else if le16_at hdr 1 = 0 then fail_with NO_ERROR
              else and_then (gdix51c0_spi_xfer_read k (unat (le16_at hdr 1))) (\<lambda>payload. done_with (hdr ! 0, payload)))"

definition gdix51c0_spi_read :: "'w kernel \<Rightarrow> ('w, bytes) action" where
  "gdix51c0_spi_read k = and_then (gdix51c0_spi_read_typed k) (\<lambda>(outer_type, payload). done_with payload)"

section \<open>The interrupt line\<close>

partial_function (option) irq_drain :: "'w kernel \<Rightarrow> ('w, unit) action" where
  "irq_drain k w =
     (case bus_wait_edge k 0 w of (ready, w') \<Rightarrow>
        if ready = Inr True then irq_drain k (snd (bus_read_edges k 16 w')) else Some (Inr (), w'))"

declare irq_drain.simps [code]

definition gdix51c0_irq_drain :: "'w kernel \<Rightarrow> ('w, unit) action" where
  "gdix51c0_irq_drain k = irq_drain k"

partial_function (option) irq_wait_loop :: "'w kernel \<Rightarrow> bool \<Rightarrow> int \<Rightarrow> ('w, unit) action" where
  "irq_wait_loop k target_high deadline w =
     (case bus_now k w of (now, w1) \<Rightarrow>
        if now \<ge> deadline then Some (Inl IRQ_TIMED_OUT, snd (bus_level k w1))
        else case bus_wait_edge k ((deadline - now) * 1000) w1 of
          (Inl e, w2) \<Rightarrow> Some (Inl e, w2)
        | (Inr ready, w2) \<Rightarrow>
            if \<not> ready then Some (Inl IRQ_TIMED_OUT, snd (bus_level k w2))
            else (case bus_read_edges k 1 w2 of
               (Inl e, w3) \<Rightarrow> Some (Inl e, w3)
             | (Inr edges, w3) \<Rightarrow>
                 if target_high \<in> set edges then Some (Inr (), w3)
                 else case bus_level k w3 of
                   (Inl e, w4) \<Rightarrow> Some (Inl e, w4)
                 | (Inr level, w4) \<Rightarrow>
                     if level = target_high then Some (Inr (), w4) else irq_wait_loop k target_high deadline w4))"

declare irq_wait_loop.simps [code]

text \<open>The line may already be at the level that is waited for. The timeout is in microseconds.\<close>

definition gdix51c0_irq_wait :: "'w kernel \<Rightarrow> bool \<Rightarrow> nat \<Rightarrow> ('w, unit) action" where
  "gdix51c0_irq_wait k target_high timeout_usec w =
     (case bus_now k w of (now, w1) \<Rightarrow>
        and_then (call (bus_level k))
          (\<lambda>level. if level = target_high then done_with () else irq_wait_loop k target_high (now + int timeout_usec)) w1)"

section \<open>Commands\<close>

abbreviation (input) PKT_WRITE :: byte where "PKT_WRITE \<equiv> 0xa0"
abbreviation (input) PKT_READ :: byte where "PKT_READ \<equiv> 0xb0"
abbreviation (input) CMD_ACK_TIMEOUT_USEC :: nat where "CMD_ACK_TIMEOUT_USEC \<equiv> 1000000"
abbreviation (input) CMD_MIN_RESPONSE_TIMEOUT_USEC :: nat where "CMD_MIN_RESPONSE_TIMEOUT_USEC \<equiv> 1000000"
abbreviation (input) CMD_RECOVERY_TIMEOUT_USEC :: nat where "CMD_RECOVERY_TIMEOUT_USEC \<equiv> 100000"

definition gdix51c0_cmd_prepare_send :: "'w kernel \<Rightarrow> ('w, unit) action" where
  "gdix51c0_cmd_prepare_send k w = gdix51c0_irq_drain k (bus_sleep k 1000 w)"

text \<open>The wait for an idle line is best effort: its error is dropped.\<close>

definition gdix51c0_cmd_prepare_response_retry :: "'w kernel \<Rightarrow> ('w, unit) action" where
  "gdix51c0_cmd_prepare_response_retry k =
     and_then (or_else (gdix51c0_irq_wait k False CMD_RECOVERY_TIMEOUT_USEC) (\<lambda>_. done_with ()))
       (\<lambda>_. gdix51c0_irq_drain k)"

definition gdix51c0_read_and_drop :: "'w kernel \<Rightarrow> byte \<Rightarrow> ('w, unit) action" where
  "gdix51c0_read_and_drop k expected_command =
     and_then (gdix51c0_spi_read k)
       (\<lambda>buf. if buf = [] \<or> hd buf \<noteq> expected_command then fail_with G_IO_ERROR_INVALID_DATA else done_with ())"

text \<open>One submission and the wait for its acknowledgement, whose failure may be retried.\<close>

definition receive_ack :: "'w kernel \<Rightarrow> bool \<Rightarrow> ('w, unit) action" where
  "receive_ack k wait_for_fall =
     and_then (gdix51c0_irq_wait k True CMD_ACK_TIMEOUT_USEC)
       (\<lambda>_. and_then (gdix51c0_read_and_drop k PKT_READ)
         (\<lambda>_. if wait_for_fall then gdix51c0_irq_wait k False CMD_ACK_TIMEOUT_USEC else done_with ()))"

definition gdix51c0_cmd_send_and_ack :: "'w kernel \<Rightarrow> bytes \<Rightarrow> bool \<Rightarrow> ('w, unit) action" where
  "gdix51c0_cmd_send_and_ack k payload wait_for_fall =
     and_then (gdix51c0_cmd_prepare_send k)
       (\<lambda>_. and_then (gdix51c0_spi_write k PKT_WRITE payload)
         (\<lambda>_. or_else (receive_ack k wait_for_fall)
           (\<lambda>_. and_then (gdix51c0_spi_write k PKT_WRITE payload) (\<lambda>_. receive_ack k wait_for_fall))))"

definition gdix51c0_cmd_no_ack :: "'w kernel \<Rightarrow> bytes \<Rightarrow> ('w, unit) action" where
  "gdix51c0_cmd_no_ack k payload =
     and_then (gdix51c0_cmd_prepare_send k) (\<lambda>_. gdix51c0_spi_write k PKT_WRITE payload)"

definition gdix51c0_cmd_ack :: "'w kernel \<Rightarrow> bytes \<Rightarrow> ('w, unit) action" where
  "gdix51c0_cmd_ack k payload = gdix51c0_cmd_send_and_ack k payload True"

text \<open>The second level: \<open>submit\<close> may end the command, a failed \<open>response\<close> is tried once more.\<close>

definition with_response_retry :: "'w kernel \<Rightarrow> ('w, unit) action \<Rightarrow> ('w, bytes) action \<Rightarrow> ('w, bytes) action" where
  "with_response_retry k submit response =
     and_then submit
       (\<lambda>_. or_else response
         (\<lambda>_. and_then (gdix51c0_cmd_prepare_response_retry k) (\<lambda>_. and_then submit (\<lambda>_. response))))"

text \<open>A packet that answers this command.\<close>

definition matching_response :: "'w kernel \<Rightarrow> bytes \<Rightarrow> ('w, bytes) action" where
  "matching_response k payload =
     and_then (gdix51c0_spi_read k)
       (\<lambda>buf. if buf = [] \<or> hd buf \<noteq> payload ! 0 then fail_with G_IO_ERROR_INVALID_DATA else done_with buf)"

definition gdix51c0_cmd_ack_then_resp_read :: "'w kernel \<Rightarrow> bytes \<Rightarrow> nat \<Rightarrow> ('w, bytes) action" where
  "gdix51c0_cmd_ack_then_resp_read k payload timeout_usec =
     (let response_timeout_usec = max timeout_usec CMD_MIN_RESPONSE_TIMEOUT_USEC
      in with_response_retry k (gdix51c0_cmd_send_and_ack k payload True)
           (and_then (gdix51c0_irq_wait k True response_timeout_usec)
             (\<lambda>_. and_then (matching_response k payload)
               (\<lambda>buf. and_then (gdix51c0_irq_wait k False response_timeout_usec) (\<lambda>_. done_with buf)))))"

definition gdix51c0_cmd_ack_then_resp :: "'w kernel \<Rightarrow> bytes \<Rightarrow> ('w, unit) action" where
  "gdix51c0_cmd_ack_then_resp k payload =
     and_then (gdix51c0_cmd_ack_then_resp_read k payload CMD_MIN_RESPONSE_TIMEOUT_USEC) (\<lambda>_. done_with ())"

definition gdix51c0_cmd_ack_resp :: "'w kernel \<Rightarrow> bytes \<Rightarrow> ('w, unit) action" where
  "gdix51c0_cmd_ack_resp k payload = gdix51c0_cmd_ack_then_resp k payload"

definition gdix51c0_cmd_single_resp :: "'w kernel \<Rightarrow> bytes \<Rightarrow> nat \<Rightarrow> ('w, bytes) action" where
  "gdix51c0_cmd_single_resp k payload timeout_usec =
     (let response_timeout_usec = max timeout_usec CMD_MIN_RESPONSE_TIMEOUT_USEC
      in with_response_retry k
           (and_then (gdix51c0_cmd_prepare_send k) (\<lambda>_. gdix51c0_spi_write k PKT_WRITE payload))
           (and_then (gdix51c0_irq_wait k True response_timeout_usec)
             (\<lambda>_. and_then (gdix51c0_spi_read k)
               (\<lambda>buf. and_then (gdix51c0_irq_wait k False response_timeout_usec) (\<lambda>_. done_with buf)))))"

definition gdix51c0_cmd_read :: "'w kernel \<Rightarrow> bytes \<Rightarrow> nat \<Rightarrow> ('w, bytes) action" where
  "gdix51c0_cmd_read k payload timeout_usec = gdix51c0_cmd_single_resp k payload timeout_usec"

definition gdix51c0_cmd_single_resp_level :: "'w kernel \<Rightarrow> bytes \<Rightarrow> nat \<Rightarrow> ('w, bytes) action" where
  "gdix51c0_cmd_single_resp_level k payload timeout_usec = gdix51c0_cmd_single_resp k payload timeout_usec"

text \<open>The response is read in the same interrupt as the acknowledgement.\<close>

definition gdix51c0_cmd_ack_resp_same_irq :: "'w kernel \<Rightarrow> bytes \<Rightarrow> nat \<Rightarrow> ('w, bytes) action" where
  "gdix51c0_cmd_ack_resp_same_irq k payload timeout_usec =
     (let response_timeout_usec = max timeout_usec CMD_MIN_RESPONSE_TIMEOUT_USEC
      in with_response_retry k (gdix51c0_cmd_send_and_ack k payload False)
           (and_then (matching_response k payload)
             (\<lambda>buf. and_then (gdix51c0_irq_wait k False response_timeout_usec) (\<lambda>_. done_with buf))))"

section \<open>How often a command writes to the device\<close>

text \<open>An action raises a counter of the world by at most \<open>n\<close>; one that never returns raises nothing.\<close>

definition raises :: "('w \<Rightarrow> nat) \<Rightarrow> nat \<Rightarrow> ('w, 'a) action \<Rightarrow> bool" where
  "raises f n m \<longleftrightarrow> (\<forall>w r w'. m w = Some (r, w') \<longrightarrow> f w' \<le> f w + n)"

text \<open>A counter of the writes: only \<open>bus_write\<close> raises it, by at most one.\<close>

definition counts_writes :: "'w kernel \<Rightarrow> ('w \<Rightarrow> nat) \<Rightarrow> bool" where
  "counts_writes k f \<longleftrightarrow>
     (\<forall>b w. f (snd (bus_write k b w)) \<le> f w + 1) \<and> (\<forall>n w. f (snd (bus_transfer k n w)) \<le> f w) \<and>
     (\<forall>w. f (snd (bus_level k w)) \<le> f w) \<and> (\<forall>t w. f (snd (bus_wait_edge k t w)) \<le> f w) \<and>
     (\<forall>n w. f (snd (bus_read_edges k n w)) \<le> f w) \<and> (\<forall>w. f (snd (bus_now k w)) \<le> f w) \<and>
     (\<forall>n w. f (bus_sleep k n w) \<le> f w)"

named_theorems raising

lemma raises_done [raising]: "raises f 0 (done_with x)"
  by (simp add: raises_def done_with_def)

lemma raises_fail [raising]: "raises f 0 (fail_with e)"
  by (simp add: raises_def fail_with_def)

lemma raises_mono: "raises f n m \<Longrightarrow> n \<le> n' \<Longrightarrow> raises f n' m"
  by (fastforce simp: raises_def)

lemma raises_and_then:
  assumes "raises f a m" and "\<And>x. raises f b (g x)"
  shows "raises f (a + b) (and_then m g)"
  using assms unfolding raises_def and_then_def
  by (fastforce split: option.splits sum.splits prod.splits)

lemma raises_or_else:
  assumes "raises f a m" and "\<And>e. raises f b (g e)"
  shows "raises f (a + b) (or_else m g)"
  using assms unfolding raises_def or_else_def
  by (fastforce split: option.splits sum.splits prod.splits)

lemma raises_call: "(\<And>w. f (snd (op w)) \<le> f w + n) \<Longrightarrow> raises f n (call op)"
  unfolding raises_def call_def by (metis option.inject snd_conv)

lemma counts_writesD:
  assumes "counts_writes k f"
  shows "f (snd (bus_write k b w)) \<le> f w + 1" "f (snd (bus_transfer k n w)) \<le> f w" "f (snd (bus_level k w)) \<le> f w"
    "f (snd (bus_wait_edge k t w)) \<le> f w" "f (snd (bus_read_edges k n w)) \<le> f w" "f (snd (bus_now k w)) \<le> f w"
    "f (bus_sleep k n w) \<le> f w"
  using assms unfolding counts_writes_def by blast+

lemma irq_drain_counts:
  assumes "irq_drain k w = Some out"
  shows "counts_writes k f \<longrightarrow> f (snd out) \<le> f w"
proof (rule irq_drain.raw_induct [OF _ assms, where P = "\<lambda>k w out. counts_writes k f \<longrightarrow> f (snd out) \<le> f w"], intro impI, goal_cases)
  case (1 drain k w out)
  obtain ready w' where e: "bus_wait_edge k 0 w = (ready, w')" by (cases "bus_wait_edge k 0 w")
  have w': "f w' \<le> f w" using counts_writesD(4) [OF 1(3), of 0 w] e by simp
  show ?case
  proof (cases "ready = Inr True")
    case True
    then have "f (snd out) \<le> f (snd (bus_read_edges k 16 w'))" using 1(1) 1(2) 1(3) e by simp
    then show ?thesis using counts_writesD(5) [OF 1(3), of 16 w'] w' by linarith
  next
    case False
    then show ?thesis using 1(2) e w' by auto
  qed
qed

lemma irq_wait_loop_counts:
  assumes "irq_wait_loop k high deadline w = Some out"
  shows "counts_writes k f \<longrightarrow> f (snd out) \<le> f w"
proof (rule irq_wait_loop.raw_induct [OF _ assms, where P = "\<lambda>k high deadline w out. counts_writes k f \<longrightarrow> f (snd out) \<le> f w"],
    intro impI, goal_cases)
  case (1 loop k high deadline w out)
  note c = counts_writesD [OF 1(3)]
  obtain now w1 where n: "bus_now k w = (now, w1)" by (cases "bus_now k w")
  obtain ready w2 where e: "bus_wait_edge k ((deadline - now) * 1000) w1 = (ready, w2)"
    by (cases "bus_wait_edge k ((deadline - now) * 1000) w1")
  obtain edges w3 where r: "bus_read_edges k 1 w2 = (edges, w3)" by (cases "bus_read_edges k 1 w2")
  obtain level w4 where l: "bus_level k w3 = (level, w4)" by (cases "bus_level k w3")
  have le: "f w1 \<le> f w" "f w2 \<le> f w1" "f w3 \<le> f w2" "f w4 \<le> f w3" "f (snd (bus_level k w1)) \<le> f w1" "f (snd (bus_level k w2)) \<le> f w2"
    using c(6) [of w] c(4) [of "(deadline - now) * 1000" w1] c(5) [of 1 w2] c(3) [of w3] c(3) [of w1] c(3) [of w2] n e r l by simp_all
  note step = 1(2) [unfolded n prod.case e r l]
  have later: "f (snd out) \<le> f w" if "loop k high deadline w4 = Some out"
    using 1(1) [OF that, rule_format, OF 1(3)] le by linarith
  show ?case
  proof (cases "now \<ge> deadline")
    case True
    then have "out = (Inl IRQ_TIMED_OUT, snd (bus_level k w1))" using step by simp
    then show ?thesis using le by simp
  next
    case False
    note step1 = step [unfolded if_not_P [OF False]]
    show ?thesis
    proof (cases ready)
      case (Inl e)
      then have "snd out = w2" using step1 by auto
      then show ?thesis using le by simp
    next
      case (Inr b)
      note step2 = step1 [unfolded Inr sum.case]
      show ?thesis
      proof (cases b)
        case False
        then have "out = (Inl IRQ_TIMED_OUT, snd (bus_level k w2))" using step2 by simp
        then show ?thesis using le by simp
      next
        case True
        then show ?thesis
          using step2 le later by (cases edges; cases level) (auto split: if_splits)
      qed
    qed
  qed
qed

lemma raises_waits [raising]:
  assumes "counts_writes k f"
  shows "raises f 0 (gdix51c0_irq_drain k)" "raises f 0 (gdix51c0_irq_wait k high timeout)"
    "raises f 0 (gdix51c0_cmd_prepare_send k)"
proof -
  note c = counts_writesD [OF assms]
  show drain: "raises f 0 (gdix51c0_irq_drain k)"
    using irq_drain_counts [of k _ _ f] assms by (fastforce simp: raises_def gdix51c0_irq_drain_def)
  have loop: "f (snd out) \<le> f w" if "irq_wait_loop k high deadline w = Some out" for deadline w out
    using irq_wait_loop_counts [OF that, of f] assms by simp
  show "raises f 0 (gdix51c0_irq_wait k high timeout)"
    unfolding raises_def
  proof (intro allI impI)
    fix w r w' assume run: "gdix51c0_irq_wait k high timeout w = Some (r, w')"
    obtain now w1 where n: "bus_now k w = (now, w1)" by (cases "bus_now k w")
    obtain level w2 where l: "bus_level k w1 = (level, w2)" by (cases "bus_level k w1")
    have le: "f w1 \<le> f w" "f w2 \<le> f w1" using c(6) [of w] c(3) [of w1] n l by simp_all
    show "f w' \<le> f w + 0"
    proof (cases "level = Inr (\<not> high)")
      case True
      then have "irq_wait_loop k high (now + int timeout) w2 = Some (r, w')"
        using run n l by (simp add: gdix51c0_irq_wait_def and_then_def call_def)
      then show ?thesis using loop le by fastforce
    next
      case False
      then have "w' = w2"
        using run n l by (cases level) (auto simp: gdix51c0_irq_wait_def and_then_def call_def done_with_def split: if_splits)
      then show ?thesis using le by simp
    qed
  qed
  show "raises f 0 (gdix51c0_cmd_prepare_send k)"
    using drain c(7) [of 1000] unfolding raises_def gdix51c0_cmd_prepare_send_def
    by (metis add.right_neutral le_trans)
qed

lemma raises_reads [raising]:
  assumes "counts_writes k f"
  shows "raises f 0 (gdix51c0_spi_xfer_read k n)" "raises f 0 (read_header k attempts)" "raises f 0 (gdix51c0_spi_read_typed k)"
    "raises f 0 (gdix51c0_spi_read k)"
proof -
  note c = counts_writesD [OF assms]
  have zero: "raises f 0 m \<Longrightarrow> (\<And>x. raises f 0 (g x)) \<Longrightarrow> raises f 0 (and_then m g)" for m :: "('a, 'b) action" and g :: "'b \<Rightarrow> ('a, 'c) action"
    using raises_and_then [of f 0 m 0 g] by simp
  show xfer: "raises f 0 (gdix51c0_spi_xfer_read k n)" for n
  proof (induction n rule: less_induct)
    case (less n)
    then show ?case
      using c(2) by (subst gdix51c0_spi_xfer_read.simps) (auto intro!: raises_and_then [where a = 0 and b = 0, simplified] raises_call raising)
  qed
  show header: "raises f 0 (read_header k attempts)" for attempts
  proof (induction attempts)
    case (Cons attempt attempts)
    have "raises f 0 (\<lambda>w. read_header k attempts (bus_sleep k t w))" for t
      using Cons c(7) unfolding raises_def by (metis add.right_neutral le_trans)
    then show ?case
      by (auto intro!: raises_and_then [where a = 0 and b = 0, simplified] xfer raising)
  qed (simp add: raising)
  show typed: "raises f 0 (gdix51c0_spi_read_typed k)"
    unfolding gdix51c0_spi_read_typed_def
    by (auto intro!: raises_and_then [where a = 0 and b = 0, simplified] header xfer raising simp del: read_header.simps)
  show "raises f 0 (gdix51c0_spi_read k)"
    unfolding gdix51c0_spi_read_def
    by (auto intro!: raises_and_then [where a = 0 and b = 0, simplified] typed raising split: prod.split)
qed

lemma raises_spi_write:
  assumes "counts_writes k f"
  shows "raises f 2 (gdix51c0_spi_write k outer_type payload)"
proof -
  have one: "raises f 1 (call (bus_write k b))" for b
    by (rule raises_call) (rule counts_writesD(1) [OF assms])
  have "raises f 1 (if length payload = 0 then done_with () else call (bus_write k payload))"
    using one raises_mono [OF raises_done [of f "()"], of 1] by (cases "payload = []") simp_all
  then have "raises f (1 + 1) (gdix51c0_spi_write k outer_type payload)"
    unfolding gdix51c0_spi_write_def by (intro raises_and_then one)
  then show ?thesis by (simp only: one_add_one)
qed

lemma raises_receive_ack:
  assumes "counts_writes k f"
  shows "raises f 0 (receive_ack k fall)"
  unfolding receive_ack_def gdix51c0_read_and_drop_def
  by (auto intro!: raises_and_then [where a = 0 and b = 0, simplified] raising assms)

lemma raises_send_and_ack:
  assumes "counts_writes k f"
  shows "raises f 4 (gdix51c0_cmd_send_and_ack k payload fall)"
proof -
  have again: "raises f (2 + 0) (and_then (gdix51c0_spi_write k PKT_WRITE payload) (\<lambda>_. receive_ack k fall))"
    by (intro raises_and_then raises_spi_write raises_receive_ack assms)
  have "raises f (0 + (2 + (0 + (2 + 0)))) (gdix51c0_cmd_send_and_ack k payload fall)"
    unfolding gdix51c0_cmd_send_and_ack_def
    by (intro raises_and_then raises_or_else raises_waits raises_spi_write raises_receive_ack again assms)
  then show ?thesis by simp
qed

lemma raises_response_retry:
  assumes "counts_writes k f" and "raises f n submit" and "raises f 0 response"
  shows "raises f (2 * n) (with_response_retry k submit response)"
proof -
  have idle: "raises f 0 (or_else (gdix51c0_irq_wait k False CMD_RECOVERY_TIMEOUT_USEC) (\<lambda>_. done_with ()))"
    using raises_or_else [OF raises_waits(2) [OF assms(1)] raises_done] by simp
  have prepare: "raises f (0 + 0) (gdix51c0_cmd_prepare_response_retry k)"
    unfolding gdix51c0_cmd_prepare_response_retry_def
    by (intro raises_and_then idle raises_waits(1) assms)
  have "raises f (n + (0 + ((0 + 0) + (n + 0)))) (with_response_retry k submit response)"
    unfolding with_response_retry_def
    by (intro raises_and_then raises_or_else prepare assms)
  then show ?thesis by (simp add: mult_2)
qed

lemma raises_matching_response:
  assumes "counts_writes k f"
  shows "raises f 0 (matching_response k payload)"
  unfolding matching_response_def
  by (auto intro!: raises_and_then [where a = 0 and b = 0, simplified] raising assms)

section \<open>Every command returns\<close>

definition returns :: "('w, 'a) action \<Rightarrow> bool" where
  "returns m \<longleftrightarrow> (\<forall>w. m w \<noteq> None)"

text \<open>The line has finitely many edges left: \<open>edges\<close> counts them, a ready line has one, and reading takes
  at least one of them. No other operation adds any.\<close>

definition counts_edges :: "'w kernel \<Rightarrow> ('w \<Rightarrow> nat) \<Rightarrow> bool" where
  "counts_edges k edges \<longleftrightarrow>
     (\<forall>t w. fst (bus_wait_edge k t w) = Inr True \<longrightarrow> 0 < edges (snd (bus_wait_edge k t w))) \<and>
     (\<forall>n w. 0 < n \<longrightarrow> 0 < edges w \<longrightarrow> edges (snd (bus_read_edges k n w)) < edges w) \<and>
     (\<forall>t w. edges (snd (bus_wait_edge k t w)) \<le> edges w) \<and> (\<forall>w. edges (snd (bus_level k w)) \<le> edges w) \<and>
     (\<forall>w. edges (snd (bus_now k w)) \<le> edges w)"

lemma irq_drain_returns:
  assumes "counts_edges k edges"
  shows "irq_drain k w \<noteq> None"
proof (induction "edges w" arbitrary: w rule: less_induct)
  case less
  obtain ready w' where e: "bus_wait_edge k 0 w = (ready, w')" by (cases "bus_wait_edge k 0 w")
  show ?case
  proof (cases "ready = Inr True")
    case True
    then have "edges (snd (bus_read_edges k 16 w')) < edges w'" "edges w' \<le> edges w"
      using assms e unfolding counts_edges_def by (metis fst_conv snd_conv zero_less_numeral)+
    then show ?thesis using less [of "snd (bus_read_edges k 16 w')"] True e by (subst irq_drain.simps) simp
  qed (subst irq_drain.simps, simp add: e)
qed

lemma irq_wait_loop_returns:
  assumes "counts_edges k edges"
  shows "irq_wait_loop k high deadline w \<noteq> None"
proof (induction "edges w" arbitrary: w rule: less_induct)
  case less
  obtain now w1 where n: "bus_now k w = (now, w1)" by (cases "bus_now k w")
  obtain ready w2 where e: "bus_wait_edge k ((deadline - now) * 1000) w1 = (ready, w2)"
    by (cases "bus_wait_edge k ((deadline - now) * 1000) w1")
  obtain es w3 where r: "bus_read_edges k 1 w2 = (es, w3)" by (cases "bus_read_edges k 1 w2")
  obtain level w4 where l: "bus_level k w3 = (level, w4)" by (cases "bus_level k w3")
  have "irq_wait_loop k high deadline w4 \<noteq> None" if "ready = Inr True"
  proof (rule less)
    have "0 < edges w2" "edges w1 \<le> edges w" "edges w2 \<le> edges w1" "edges w4 \<le> edges w3"
      using assms n e l that unfolding counts_edges_def by (metis fst_conv snd_conv)+
    moreover have "edges w3 < edges w2" using assms r \<open>0 < edges w2\<close> unfolding counts_edges_def by (metis less_one snd_conv)
    ultimately show "edges w4 < edges w" by linarith
  qed
  then show ?case
    by (subst irq_wait_loop.simps, unfold n prod.case e r l) (simp split: sum.split)
qed

lemma returns_and_then: "returns m \<Longrightarrow> (\<And>x. returns (g x)) \<Longrightarrow> returns (and_then m g)"
  by (simp add: returns_def and_then_def split: option.split sum.split prod.split)

lemma returns_or_else: "returns m \<Longrightarrow> (\<And>e. returns (g e)) \<Longrightarrow> returns (or_else m g)"
  by (simp add: returns_def or_else_def split: option.split sum.split prod.split)

lemma returns_simple: "returns (done_with x)" "returns (fail_with e)" "returns (call op)"
  by (simp_all add: returns_def done_with_def fail_with_def call_def)

lemma returns_waits:
  assumes "counts_edges k edges"
  shows "returns (gdix51c0_irq_drain k)" "returns (gdix51c0_irq_wait k high timeout)" "returns (gdix51c0_cmd_prepare_send k)"
proof -
  show "returns (gdix51c0_irq_drain k)" using irq_drain_returns [OF assms] by (simp add: returns_def gdix51c0_irq_drain_def)
  then show "returns (gdix51c0_cmd_prepare_send k)" by (simp add: returns_def gdix51c0_cmd_prepare_send_def)
  have "returns (\<lambda>w. if c then done_with () w else irq_wait_loop k high d w)" for c d
    using irq_wait_loop_returns [OF assms] by (simp add: returns_def done_with_def)
  then have "returns (and_then (call (bus_level k)) (\<lambda>level. if level = high then done_with () else irq_wait_loop k high d))" for d
    using irq_wait_loop_returns [OF assms] by (intro returns_and_then returns_simple) (simp add: returns_def done_with_def)
  then show "returns (gdix51c0_irq_wait k high timeout)"
    by (simp add: returns_def gdix51c0_irq_wait_def split: prod.split)
qed

lemma returns_reads:
  "returns (gdix51c0_spi_xfer_read k n)" "returns (read_header k attempts)" "returns (gdix51c0_spi_read_typed k)"
  "returns (gdix51c0_spi_read k)" "returns (gdix51c0_spi_write k outer_type payload)"
proof -
  show xfer: "returns (gdix51c0_spi_xfer_read k n)" for n
  proof (induction n rule: less_induct)
    case (less n)
    then show ?case by (subst gdix51c0_spi_xfer_read.simps) (auto intro!: returns_and_then returns_simple)
  qed
  show header: "returns (read_header k attempts)" for attempts
  proof (induction attempts)
    case (Cons attempt attempts)
    then have "returns (\<lambda>w. read_header k attempts (bus_sleep k t w))" for t by (simp add: returns_def)
    then show ?case by (auto intro!: returns_and_then returns_simple xfer)
  qed (simp add: returns_simple)
  show typed: "returns (gdix51c0_spi_read_typed k)"
    unfolding gdix51c0_spi_read_typed_def
    by (auto intro!: returns_and_then returns_simple header xfer simp del: read_header.simps)
  show "returns (gdix51c0_spi_read k)"
    unfolding gdix51c0_spi_read_def by (auto intro!: returns_and_then typed returns_simple split: prod.split)
  show "returns (gdix51c0_spi_write k outer_type payload)"
    unfolding gdix51c0_spi_write_def by (auto intro!: returns_and_then returns_simple)
qed

lemma returns_receive_ack: "counts_edges k edges \<Longrightarrow> returns (receive_ack k fall)"
  unfolding receive_ack_def gdix51c0_read_and_drop_def
  by (auto intro!: returns_and_then returns_simple returns_waits returns_reads)

lemma returns_send_and_ack: "counts_edges k edges \<Longrightarrow> returns (gdix51c0_cmd_send_and_ack k payload fall)"
  unfolding gdix51c0_cmd_send_and_ack_def
  by (auto intro!: returns_and_then returns_or_else returns_waits returns_reads returns_receive_ack)

lemma returns_response_retry:
  "counts_edges k edges \<Longrightarrow> returns submit \<Longrightarrow> returns response \<Longrightarrow> returns (with_response_retry k submit response)"
  unfolding with_response_retry_def gdix51c0_cmd_prepare_response_retry_def
  by (auto intro!: returns_and_then returns_or_else returns_waits returns_simple)

lemma returns_matching_response: "returns (matching_response k payload)"
  unfolding matching_response_def by (auto intro!: returns_and_then returns_simple returns_reads)

section \<open>What a command returns\<close>

definition yields :: "('w, 'a) action \<Rightarrow> ('a \<Rightarrow> bool) \<Rightarrow> bool" where
  "yields m Q \<longleftrightarrow> (\<forall>w x w'. m w = Some (Inr x, w') \<longrightarrow> Q x)"

lemma yields_and_then: "(\<And>x. yields (g x) Q) \<Longrightarrow> yields (and_then m g) Q"
  unfolding yields_def and_then_def by (fastforce split: option.splits sum.splits prod.splits)

lemma yields_and_then_first: "yields m P \<Longrightarrow> (\<And>x. P x \<Longrightarrow> yields (g x) Q) \<Longrightarrow> yields (and_then m g) Q"
  unfolding yields_def and_then_def by (fastforce split: option.splits sum.splits prod.splits)

lemma yields_or_else: "yields m Q \<Longrightarrow> (\<And>e. yields (g e) Q) \<Longrightarrow> yields (or_else m g) Q"
  unfolding yields_def or_else_def by (fastforce split: option.splits sum.splits prod.splits)

lemma yields_done: "Q x \<Longrightarrow> yields (done_with x) Q"
  by (simp add: yields_def done_with_def)

lemma yields_fail: "yields (fail_with e) Q"
  by (simp add: yields_def fail_with_def)

lemma yields_response_retry: "yields response Q \<Longrightarrow> yields (with_response_retry k submit response) Q"
  unfolding with_response_retry_def by (intro yields_and_then yields_or_else)

lemma yields_matching_response: "yields (matching_response k payload) (\<lambda>buf. buf \<noteq> [] \<and> hd buf = payload ! 0)"
  unfolding matching_response_def by (rule yields_and_then) (simp add: yields_done yields_fail)

section \<open>Framed writes and reads\<close>

text \<open>What the device receives: a write that succeeds appends its bytes. What it sends: a transfer takes the
  first of the bytes that wait, and waiting does not change them.\<close>

definition records_writes :: "'w kernel \<Rightarrow> ('w \<Rightarrow> bytes) \<Rightarrow> bool" where
  "records_writes k tx \<longleftrightarrow> (\<forall>b w. fst (bus_write k b w) = Inr () \<longrightarrow> tx (snd (bus_write k b w)) = tx w @ b)"

definition delivers :: "'w kernel \<Rightarrow> ('w \<Rightarrow> bytes) \<Rightarrow> bool" where
  "delivers k rx \<longleftrightarrow>
     (\<forall>n w. n \<le> length (rx w) \<longrightarrow> fst (bus_transfer k n w) = Inr (take n (rx w)) \<and> rx (snd (bus_transfer k n w)) = drop n (rx w))"

lemma xfer_delivers:
  assumes "delivers k rx" and "n \<le> length (rx w)"
  shows "\<exists>w'. gdix51c0_spi_xfer_read k n w = Some (Inr (take n (rx w)), w') \<and> rx w' = drop n (rx w)"
  using assms(2)
proof (induction n arbitrary: w rule: less_induct)
  case (less n)
  show ?case
  proof (cases "n = 0")
    case True
    then show ?thesis by (subst gdix51c0_spi_xfer_read.simps) (simp add: done_with_def)
  next
    case False
    define c where "c = min n 2048"
    have c: "0 < c" "c \<le> n" using False by (simp_all add: c_def)
    have less_c: "n - c < n" using c by linarith
    obtain r w1 where t: "bus_transfer k c w = (r, w1)" by (cases "bus_transfer k c w")
    have r: "r = Inr (take c (rx w))" "rx w1 = drop c (rx w)"
      using assms(1) t c less.prems unfolding delivers_def by (metis fst_conv le_trans, metis snd_conv le_trans)
    have fits: "n - c \<le> length (rx w1)" using less.prems r(2) by (simp add: diff_le_mono)
    obtain w2 where w2: "gdix51c0_spi_xfer_read k (n - c) w1 = Some (Inr (take (n - c) (rx w1)), w2)" "rx w2 = drop (n - c) (rx w1)"
      using less.IH [OF less_c fits] by blast
    have "take c (rx w) @ take (n - c) (rx w1) = take n (rx w)"
      using take_add [of c "n - c" "rx w"] c r by simp
    moreover have "rx w2 = drop n (rx w)" using w2 r c by simp
    ultimately show ?thesis
      using False w2(1) t r(1) unfolding c_def
      by (subst gdix51c0_spi_xfer_read.simps) (simp add: and_then_def call_def done_with_def)
  qed
qed

lemma write_framed:
  assumes "records_writes k tx" and "gdix51c0_spi_write k outer_type payload w = Some (Inr (), w')"
  shows "tx w' = tx w @ gdix51c0_make_header_packet outer_type (of_nat (length payload)) @ payload"
proof -
  let ?h = "gdix51c0_make_header_packet outer_type (of_nat (length payload))"
  obtain r w1 where h: "bus_write k ?h w = (r, w1)" by (cases "bus_write k ?h w")
  obtain r' w2 where p: "bus_write k payload w1 = (r', w2)" by (cases "bus_write k payload w1")
  have "r = Inr ()" "payload = [] \<Longrightarrow> w' = w1" "payload \<noteq> [] \<Longrightarrow> r' = Inr () \<and> w' = w2"
    using assms(2) h p by (cases r; auto simp: gdix51c0_spi_write_def and_then_def call_def done_with_def split: if_splits)+
  moreover from this have "tx w1 = tx w @ ?h" using assms(1) h unfolding records_writes_def by (metis fst_conv snd_conv)
  moreover from calculation have "payload \<noteq> [] \<Longrightarrow> tx w2 = tx w1 @ payload"
    using assms(1) p unfolding records_writes_def by (metis fst_conv snd_conv)
  ultimately show ?thesis by (cases "payload = []") simp_all
qed

lemma all_ff_length: "all_ff h \<Longrightarrow> le16_at h 1 = 0xffff"
  unfolding all_ff_def le16_at_def one_add_one by simp

lemma read_framed:
  assumes "delivers k rx" and "outer_type \<noteq> 0" and "payload \<noteq> []" and "length payload < 0xffff"
    and "rx w = gdix51c0_make_header_packet outer_type (of_nat (length payload)) @ payload @ rest"
  shows "\<exists>w'. gdix51c0_spi_read_typed k w = Some (Inr (outer_type, payload), w') \<and> rx w' = rest"
proof -
  let ?h = "gdix51c0_make_header_packet outer_type (of_nat (length payload))"
  have four: "length ?h = 4" by (simp add: gdix51c0_make_header_packet_def goodix_wire_encode_outer_header_def Let_def)
  have first: "?h ! 0 = outer_type" and size_field: "le16_at ?h 1 = of_nat (length payload)"
    using le16_join [of "of_nat (length payload)"]
    by (simp_all add: gdix51c0_make_header_packet_def goodix_wire_encode_outer_header_def Let_def le16_at_def)
  have small: "unat (of_nat (length payload) :: u16) = length payload" using assms(4) by (simp add: unsigned_of_nat take_bit_nat_eq_self_iff)
  then have not_max: "of_nat (length payload) \<noteq> (0xffff :: u16)" and not_0: "of_nat (length payload) \<noteq> (0 :: u16)"
    using assms(3,4) by auto
  have idle: "\<not> all_zero ?h" "\<not> all_ff ?h"
    using assms(2) first not_max size_field all_ff_length [of ?h] by (auto simp: all_zero_def)
  obtain w1 where w1: "gdix51c0_spi_xfer_read k 4 w = Some (Inr ?h, w1)" "rx w1 = payload @ rest"
    using xfer_delivers [OF assms(1), of 4 w] assms(5) four by auto
  obtain w2 where w2: "gdix51c0_spi_xfer_read k (length payload) w1 = Some (Inr payload, w2)" "rx w2 = rest"
    using xfer_delivers [OF assms(1), of "length payload" w1] w1 by auto
  have "read_header k [0, 1, 2, 3] w = Some (Inr ?h, w1)"
    using w1 idle by (simp add: and_then_def done_with_def)
  then show ?thesis
    using w2 idle first size_field not_max not_0 small
    by (simp add: gdix51c0_spi_read_typed_def and_then_def done_with_def)
qed

section \<open>Properties\<close>

text \<open>A device that queues packets: the line is high while the first one has bytes left to read, and low
  once after it has been read. Writes are counted.\<close>

definition queue_kernel :: "(nat \<times> bytes list) kernel" where
  "queue_kernel =
     \<lparr> bus_write = (\<lambda>b (n, ps). (Inr (), (n + 1, ps))),
       bus_transfer = (\<lambda>len (n, ps). case dropWhile ((=) []) ps of [] \<Rightarrow> (Inl G_IO_ERROR_FAILED, (n, []))
          | p # ps' \<Rightarrow> if len \<le> length p then (Inr (take len p), (n, drop len p # ps')) else (Inl G_IO_ERROR_FAILED, (n, p # ps'))),
       bus_level = (\<lambda>(n, ps). case ps of [] \<Rightarrow> (Inr False, (n, ps))
          | p # ps' \<Rightarrow> if p = [] then (Inr False, (n, ps')) else (Inr True, (n, ps))),
       bus_wait_edge = (\<lambda>t w. (Inr False, w)), bus_read_edges = (\<lambda>n w. (Inr [], w)),
       bus_now = (\<lambda>w. (0, w)), bus_sleep = (\<lambda>n w. w) \<rparr>"

lemma queue_kernel_lawful: "counts_writes queue_kernel fst" "counts_edges queue_kernel (\<lambda>w. 0)"
  by (auto simp: counts_writes_def counts_edges_def queue_kernel_def split: list.split)

text \<open>C21: If the interrupt line produces finitely many edges every command returns, whatever else the
  kernel does: no wait and no retry can go on for ever.\<close>

theorem commands_return:
  assumes "counts_edges k edges"
  shows "gdix51c0_cmd_ack k payload w \<noteq> None \<and> gdix51c0_cmd_no_ack k payload w \<noteq> None \<and>
    gdix51c0_cmd_ack_resp k payload w \<noteq> None \<and> gdix51c0_cmd_ack_then_resp_read k payload timeout w \<noteq> None \<and>
    gdix51c0_cmd_single_resp k payload timeout w \<noteq> None \<and> gdix51c0_cmd_ack_resp_same_irq k payload timeout w \<noteq> None"
proof -
  note rules = returns_and_then returns_or_else returns_simple returns_waits [OF assms] returns_reads
    returns_send_and_ack [OF assms] returns_response_retry [OF assms] returns_matching_response
  have "returns (gdix51c0_cmd_ack k payload)" unfolding gdix51c0_cmd_ack_def by (intro rules)
  moreover have "returns (gdix51c0_cmd_no_ack k payload)" unfolding gdix51c0_cmd_no_ack_def by (intro rules)
  moreover have "returns (gdix51c0_cmd_ack_then_resp_read k payload t)" for t
    unfolding gdix51c0_cmd_ack_then_resp_read_def Let_def by (intro rules)
  moreover from this have "returns (gdix51c0_cmd_ack_resp k payload)"
    unfolding gdix51c0_cmd_ack_resp_def gdix51c0_cmd_ack_then_resp_def by (intro rules)
  moreover have "returns (gdix51c0_cmd_single_resp k payload timeout)"
    unfolding gdix51c0_cmd_single_resp_def Let_def by (intro rules)
  moreover have "returns (gdix51c0_cmd_ack_resp_same_irq k payload timeout)"
    unfolding gdix51c0_cmd_ack_resp_same_irq_def Let_def by (intro rules)
  ultimately show ?thesis by (simp add: returns_def)
qed

theorem commands_return_witness: "gdix51c0_cmd_ack queue_kernel [0xd5] (0, []) \<noteq> None"
  using commands_return [OF queue_kernel_lawful(2), of "[0xd5]" "(0, [])" 0] by simp

text \<open>C22: A command writes to the device a bounded number of times, two writes for each submission: one
  submission without an acknowledgement, at most two with one, at most two when only a response is
  awaited, and at most four when both are.\<close>

theorem commands_write_bounded:
  assumes "counts_writes k writes"
  shows "raises writes 2 (gdix51c0_cmd_no_ack k payload) \<and> raises writes 4 (gdix51c0_cmd_ack k payload) \<and>
    raises writes 4 (gdix51c0_cmd_single_resp k payload timeout) \<and>
    raises writes 8 (gdix51c0_cmd_ack_then_resp_read k payload timeout) \<and>
    raises writes 8 (gdix51c0_cmd_ack_resp_same_irq k payload timeout)"
proof -
  have "raises writes (0 + 2) (and_then (gdix51c0_cmd_prepare_send k) (\<lambda>_. gdix51c0_spi_write k PKT_WRITE payload))"
    by (intro raises_and_then raises_waits raises_spi_write assms)
  then have submit: "raises writes 2 (and_then (gdix51c0_cmd_prepare_send k) (\<lambda>_. gdix51c0_spi_write k PKT_WRITE payload))"
    by (simp only: add_0)
  have wait: "raises writes 0 (and_then (gdix51c0_irq_wait k False t) (\<lambda>_. done_with x))" for t x
    using raises_and_then [OF raises_waits(2) [OF assms] raises_done] by simp
  have match: "raises writes 0 (and_then (matching_response k payload) (\<lambda>buf. and_then (gdix51c0_irq_wait k False t) (\<lambda>_. done_with buf)))" for t
    using raises_and_then [OF raises_matching_response [OF assms] wait] by simp
  have rise: "raises writes 0 (and_then (gdix51c0_irq_wait k True t)
      (\<lambda>_. and_then (matching_response k payload) (\<lambda>buf. and_then (gdix51c0_irq_wait k False t) (\<lambda>_. done_with buf))))" for t
    using raises_and_then [OF raises_waits(2) [OF assms] match] by simp
  have read: "raises writes 0 (and_then (gdix51c0_spi_read k) (\<lambda>buf. and_then (gdix51c0_irq_wait k False t) (\<lambda>_. done_with buf)))" for t
    using raises_and_then [OF raises_reads(4) [OF assms] wait] by simp
  have single: "raises writes 0 (and_then (gdix51c0_irq_wait k True t)
      (\<lambda>_. and_then (gdix51c0_spi_read k) (\<lambda>buf. and_then (gdix51c0_irq_wait k False t) (\<lambda>_. done_with buf))))" for t
    using raises_and_then [OF raises_waits(2) [OF assms] read] by simp
  show ?thesis
    using submit raises_send_and_ack [OF assms]
      raises_response_retry [OF assms submit single] raises_response_retry [OF assms raises_send_and_ack [OF assms] rise]
      raises_response_retry [OF assms raises_send_and_ack [OF assms] match]
    by (simp add: gdix51c0_cmd_no_ack_def gdix51c0_cmd_ack_def gdix51c0_cmd_single_resp_def
        gdix51c0_cmd_ack_then_resp_read_def gdix51c0_cmd_ack_resp_same_irq_def Let_def)
qed

theorem commands_write_bounded_witness: "raises fst 4 (gdix51c0_cmd_ack queue_kernel [0xd5])"
  using commands_write_bounded [OF queue_kernel_lawful(1), of "[0xd5]" 0] by simp


text \<open>An acknowledgement, one foreign packet, and, after the second submission, both again with the answer.\<close>

definition answered_queue :: "bytes list" where
  "answered_queue = [[0xb0, 1, 0, 0xb1, 0xb0], [0xb0, 1, 0, 0xb1, 0x33], [0xb0, 1, 0, 0xb1, 0xb0], [0xb0, 2, 0, 0xb2, 0xd5, 7]]"

lemma queue_kernel_simps:
  "gdix51c0_irq_drain queue_kernel w = Some (Inr (), w)"
  "gdix51c0_irq_wait queue_kernel True t (n, (b # p) # ps) = Some (Inr (), (n, (b # p) # ps))"
  "gdix51c0_irq_wait queue_kernel False t (n, [] # ps) = Some (Inr (), (n, ps))"
  "bus_write queue_kernel bs (n, ps) = (Inr (), (n + 1, ps))"
  "bus_sleep queue_kernel us w = w"
  "bus_transfer queue_kernel len (n, [] # ps) = bus_transfer queue_kernel len (n, ps)"
  "bus_transfer queue_kernel len (n, (b # p) # ps) =
     (if len \<le> length (b # p) then (Inr (take len (b # p)), (n, drop len (b # p) # ps)) else (Inl G_IO_ERROR_FAILED, (n, (b # p) # ps)))"
  by (simp_all add: queue_kernel_def gdix51c0_irq_drain_def irq_drain.simps gdix51c0_irq_wait_def and_then_def call_def done_with_def)

lemma xfer_read_once: "0 < len \<Longrightarrow> len \<le> 2048 \<Longrightarrow> gdix51c0_spi_xfer_read k len = call (bus_transfer k len)"
  using gdix51c0_spi_xfer_read.simps [of k 0] gdix51c0_spi_xfer_read.simps [of k len]
  by (auto simp: and_then_def done_with_def call_def fun_eq_iff split: option.split sum.split prod.split)

lemma answered:
  "gdix51c0_cmd_ack_resp_same_irq queue_kernel [0xd5] 5 (0, answered_queue) = Some (Inr [0xd5, 7], (4, []))"
  by (simp add: answered_queue_def gdix51c0_cmd_ack_resp_same_irq_def Let_def with_response_retry_def gdix51c0_cmd_send_and_ack_def
    gdix51c0_cmd_prepare_send_def gdix51c0_cmd_prepare_response_retry_def receive_ack_def gdix51c0_read_and_drop_def matching_response_def
    gdix51c0_spi_read_def gdix51c0_spi_read_typed_def gdix51c0_spi_write_def
    and_then_def or_else_def call_def done_with_def fail_with_def queue_kernel_simps xfer_read_once all_zero_def all_ff_def le16_at_def)


text \<open>C19: A write puts the header and the payload on the bus. As long as the payload has from 1 to 65534 bytes
  and the type is not zero, a read of those bytes gives back the type and the payload, whatever the chunks
  of the transfer, and leaves what follows them.\<close>

theorem spi_framing:
  assumes "records_writes k tx" and "delivers k' rx" and "outer_type \<noteq> 0" and "payload \<noteq> []" and "length payload < 0xffff"
    and "gdix51c0_spi_write k outer_type payload w = Some (Inr (), w1)" and "rx w' = drop (length (tx w)) (tx w1) @ rest"
  shows "\<exists>w2. gdix51c0_spi_read_typed k' w' = Some (Inr (outer_type, payload), w2) \<and> rx w2 = rest"
proof -
  let ?h = "gdix51c0_make_header_packet outer_type (of_nat (length payload))"
  have "tx w1 = tx w @ ?h @ payload" by (rule write_framed [OF assms(1,6)])
  then have "rx w' = ?h @ payload @ rest" using assms(7) by simp
  from read_framed [OF assms(2-5) this] show ?thesis .
qed


text \<open>The writes of this device are what it sends.\<close>

definition loopback_kernel :: "bytes kernel" where
  "loopback_kernel =
     \<lparr> bus_write = (\<lambda>b w. (Inr (), w @ b)),
       bus_transfer = (\<lambda>len w. if len \<le> length w then (Inr (take len w), drop len w) else (Inl G_IO_ERROR_FAILED, w)),
       bus_level = (\<lambda>w. (Inr (w \<noteq> []), w)), bus_wait_edge = (\<lambda>t w. (Inr False, w)), bus_read_edges = (\<lambda>n w. (Inr [], w)),
       bus_now = (\<lambda>w. (0, w)), bus_sleep = (\<lambda>n w. w) \<rparr>"

theorem spi_framing_witness:
  "\<exists>w2. gdix51c0_spi_read_typed loopback_kernel [0xa0, 2, 0, 0xa2, 7, 8] = Some (Inr (0xa0, [7, 8]), w2) \<and> w2 = []"
proof -
  have "records_writes loopback_kernel (\<lambda>w. w)" "delivers loopback_kernel (\<lambda>w. w)"
    by (simp_all add: records_writes_def delivers_def loopback_kernel_def)
  moreover have "gdix51c0_spi_write loopback_kernel 0xa0 [7, 8] [] = Some (Inr (), [0xa0, 2, 0, 0xa2, 7, 8])"
    by (simp add: gdix51c0_spi_write_def loopback_kernel_def and_then_def call_def gdix51c0_make_header_packet_def
        goodix_wire_encode_outer_header_def Let_def)
  ultimately show ?thesis
    using spi_framing [where k = loopback_kernel and tx = "\<lambda>w. w" and k' = loopback_kernel and rx = "\<lambda>w. w" and
        outer_type = "0xa0" and payload = "[7, 8]" and w = "[]" and rest = "[]"] by simp
qed

lemma queue_read:
  assumes "t \<noteq> 0" and "t \<noteq> 0xff" and "p \<noteq> []" and "length p < 256"
  shows "gdix51c0_spi_read queue_kernel (n, ([t, of_nat (length p), 0, x] @ p) # ps) = Some (Inr p, (n, [] # ps))"
proof -
  have "unat (of_nat (length p) :: byte) = length p" using assms(4) by (simp add: unsigned_of_nat take_bit_nat_eq_self_iff)
  then have len: "unat (le16_at [t, of_nat (length p), 0, x] 1) = length p"
    by (simp add: le16_at_def unsigned_ucast_eq take_bit_nat_eq_self_iff assms(4) less_trans [OF assms(4)])
  have pos: "le16_at [t, of_nat (length p), 0, x] 1 \<noteq> 0"
  proof
    assume "le16_at [t, of_nat (length p), 0, x] 1 = 0"
    then have "length p = unat (0 :: u16)" using len by metis
    then show False using assms(3) by simp
  qed
  have max: "le16_at [t, of_nat (length p), 0, x] 1 \<noteq> 0xffff"
  proof
    assume "le16_at [t, of_nat (length p), 0, x] 1 = 0xffff"
    then have "length p = unat (0xffff :: u16)" using len by metis
    then show False using assms(4) by simp
  qed
  have payload: "gdix51c0_spi_xfer_read queue_kernel (length p) (n, p # ps) = Some (Inr p, (n, [] # ps))"
    using assms(3,4) by (cases p) (simp_all add: xfer_read_once call_def queue_kernel_simps)
  show ?thesis
    using assms(1,2) len pos max payload
    by (simp add: gdix51c0_spi_read_def gdix51c0_spi_read_typed_def xfer_read_once queue_kernel_simps and_then_def call_def
        done_with_def all_zero_def all_ff_def)
qed

lemma queue_answer:
  assumes "t \<noteq> 0" and "t \<noteq> 0xff" and "resp \<noteq> []" and "length resp < 256" and "hd resp = payload ! 0" and "payload \<noteq> []"
  shows "gdix51c0_cmd_ack_then_resp_read queue_kernel payload timeout
      (n, [0xb0, 1, 0, 0xb1, 0xb0] # ([t, of_nat (length resp), 0, x] @ resp) # ps) = Some (Inr resp, (n + 2, ps))"
proof -
  have ack: "gdix51c0_spi_read queue_kernel (m, [0xb0, 1, 0, 0xb1, 0xb0] # ps') = Some (Inr [0xb0], (m, [] # ps'))" for m ps'
    using queue_read [where t = "0xb0" and p = "[0xb0]" and n = m and x = "0xb1" and ps = ps'] by simp
  note read = queue_read [OF assms(1-4)]
  show ?thesis
    using assms(3,5,6) ack read
    by (simp add: gdix51c0_cmd_ack_then_resp_read_def Let_def with_response_retry_def gdix51c0_cmd_send_and_ack_def
      gdix51c0_cmd_prepare_send_def receive_ack_def gdix51c0_read_and_drop_def matching_response_def gdix51c0_spi_write_def
      and_then_def or_else_def call_def done_with_def fail_with_def queue_kernel_simps)
qed

end
