(* ===== verification/Gdix_Wb.thy ===== *)
theory Gdix_Wb
  imports Goodix_Prelude
begin

text \<open>
  The container that carries a pre-shared key to the sensor (gdix51c0-wb.c). OpenSSL is an argument:
  every primitive either fails or returns its output. A \<open>GError\<close> is the code of its domain.
\<close>

section \<open>The primitives\<close>

record crypto =
  evp_sha256 :: "bytes \<Rightarrow> bytes option"
  hmac_sha256 :: "bytes \<Rightarrow> bytes \<Rightarrow> bytes option"
  gcm_seal :: "bytes \<Rightarrow> bytes \<Rightarrow> bytes \<Rightarrow> bytes \<Rightarrow> (bytes \<times> bytes) option"
  gcm_open :: "bytes \<Rightarrow> bytes \<Rightarrow> bytes \<Rightarrow> bytes \<Rightarrow> bytes \<Rightarrow> bytes option"

abbreviation (input) PSK_LEN :: nat where "PSK_LEN \<equiv> 32"
abbreviation (input) WB_LEN :: nat where "WB_LEN \<equiv> 102"
abbreviation (input) PSK_WB_ADDR :: u32 where "PSK_WB_ADDR \<equiv> 0xbb010003"
abbreviation (input) PSK_HASH_ADDR :: u32 where "PSK_HASH_ADDR \<equiv> 0xbb020003"

definition WB_KBUF :: bytes where
  "WB_KBUF =
     [0x58, 0xf0, 0x13, 0xee, 0xb7, 0xe2, 0x16, 0xe2, 0xc1, 0xcd, 0x0e, 0x8f, 0xff, 0xa7, 0xdb, 0xd6,
      0x79, 0x9c, 0xd9, 0x2a, 0xa1, 0x49, 0x01, 0x3e, 0xa0, 0xe9, 0xf9, 0xfd, 0x7d, 0xc6, 0xd9, 0x4e,
      0x3e, 0xf6, 0x3a, 0x75, 0x98, 0xc2, 0xa4, 0x93, 0x31, 0x29, 0xe8, 0x71, 0xea, 0x03, 0x04, 0x3b]"

definition WB_AAD :: bytes where
  "WB_AAD = [0x52, 0x2d, 0xc1, 0xf0, 0x99, 0x56, 0x7d, 0x07, 0xf4, 0x7f, 0x37, 0xa3, 0x2a, 0x84, 0x42, 0x7d]"

definition WB_KEY :: bytes where "WB_KEY = take 32 WB_KBUF"
definition WB_HMAC_KEY :: bytes where "WB_HMAC_KEY = take 32 (drop 16 WB_KBUF)"

definition wb_sha256 :: "crypto \<Rightarrow> bytes \<Rightarrow> bytes result" where
  "wb_sha256 c data =
     (case evp_sha256 c data of
        None \<Rightarrow> Inl G_IO_ERROR_FAILED
      | Some digest \<Rightarrow> if length digest \<noteq> 32 then Inl G_IO_ERROR_FAILED else Inr digest)"

definition wb_hmac :: "crypto \<Rightarrow> bytes \<Rightarrow> bytes result" where
  "wb_hmac c data =
     (case hmac_sha256 c WB_HMAC_KEY data of
        None \<Rightarrow> Inl G_IO_ERROR_FAILED
      | Some mac \<Rightarrow> if length mac \<noteq> 32 then Inl G_IO_ERROR_FAILED else Inr mac)"

definition wb_aes256_gcm :: "crypto \<Rightarrow> bytes \<Rightarrow> bytes \<Rightarrow> bytes \<Rightarrow> bytes \<Rightarrow> (bytes \<times> bytes) result" where
  "wb_aes256_gcm c key iv aad pt = (case gcm_seal c key iv aad pt of None \<Rightarrow> Inl G_IO_ERROR_FAILED | Some out \<Rightarrow> Inr out)"

definition wb_aes256_gcm_decrypt :: "crypto \<Rightarrow> bytes \<Rightarrow> bytes \<Rightarrow> bytes \<Rightarrow> bytes \<Rightarrow> bytes \<Rightarrow> bytes result" where
  "wb_aes256_gcm_decrypt c key iv aad ct tag =
     (case gcm_open c key iv aad ct tag of None \<Rightarrow> Inl G_IO_ERROR_FAILED | Some pt \<Rightarrow> Inr pt)"

section \<open>The container\<close>

text \<open>What the sixteen bytes that bind the key's first eight bytes are the digest of.\<close>

definition h16_input :: "bytes \<Rightarrow> bytes \<Rightarrow> bytes \<Rightarrow> bytes" where
  "h16_input hdr len psk = hdr @ len @ take 8 psk @ concat (replicate 16 [0x03, 0x00, 0x00, 0x00])"

definition gdix51c0_wb_wrap :: "crypto \<Rightarrow> bytes \<Rightarrow> bytes result" where
  "gdix51c0_wb_wrap c psk =
     (let hdr = [0x02, 0xff]; len = [of_nat PSK_LEN, 0x00, 0x00, 0x00] in
      case wb_sha256 c (h16_input hdr len psk) of
        Inl e \<Rightarrow> Inl e
      | Inr h32 \<Rightarrow>
          let h16 = take 16 h32 in
          case wb_aes256_gcm c WB_KEY h16 WB_AAD (take PSK_LEN psk) of
            Inl e \<Rightarrow> Inl e
          | Inr (ct, tag) \<Rightarrow>
              case wb_hmac c (hdr @ len @ ct @ tag) of
                Inl e \<Rightarrow> Inl e
              | Inr front \<Rightarrow> Inr (front @ hdr @ len @ h16 @ ct @ tag))"

definition gdix51c0_wb_hash :: "crypto \<Rightarrow> bytes \<Rightarrow> bytes result" where
  "gdix51c0_wb_hash c wb = wb_sha256 c (take WB_LEN wb)"

definition gdix51c0_wb_unwrap :: "crypto \<Rightarrow> bytes \<Rightarrow> bytes result" where
  "gdix51c0_wb_unwrap c wb =
     (let front = take 32 wb; hdr = take 2 (drop 0x20 wb); len = take 4 (drop 0x22 wb); h16 = take 16 (drop 0x26 wb);
          ct = take 32 (drop 0x36 wb); tag = take 16 (drop 0x56 wb)
      in if hdr ! 0 \<noteq> 0x02 \<or> hdr ! 1 \<noteq> 0xff \<or> len ! 0 \<noteq> of_nat PSK_LEN then Inl G_IO_ERROR_INVALID_DATA
         else case wb_hmac c (hdr @ len @ ct @ tag) of
           Inl e \<Rightarrow> Inl e
         | Inr mac \<Rightarrow>
             if front \<noteq> mac then Inl G_IO_ERROR_INVALID_DATA
             else case wb_aes256_gcm_decrypt c WB_KEY h16 WB_AAD ct tag of
               Inl e \<Rightarrow> Inl e
             | Inr psk \<Rightarrow>
                 case wb_sha256 c (h16_input hdr len psk) of
                   Inl e \<Rightarrow> Inl e
                 | Inr h32 \<Rightarrow> if take 16 h32 \<noteq> h16 then Inl G_IO_ERROR_INVALID_DATA else Inr psk)"

text \<open>The register write that stores the container: address, length, container, zeros up to a multiple of 4.\<close>

definition gdix51c0_wb_provision_data :: "crypto \<Rightarrow> bytes \<Rightarrow> bytes result" where
  "gdix51c0_wb_provision_data c psk =
     (case gdix51c0_wb_wrap c psk of
        Inl e \<Rightarrow> Inl e
      | Inr wb \<Rightarrow>
          let head = 8; raw = head + WB_LEN; padded = (raw + 3) div 4 * 4
          in Inr (le32_bytes PSK_WB_ADDR @ [of_nat WB_LEN, 0, 0, 0] @ take WB_LEN wb @ replicate (padded - raw) 0))"

definition sample_psk :: bytes where "sample_psk = map of_nat [0..<32]"

definition sample_wb :: bytes where
  "sample_wb =
     [0x45, 0xa3, 0x73, 0x2a, 0xcf, 0x29, 0x90, 0xf4, 0xce, 0xb3, 0x0e, 0x89, 0x96, 0xe4, 0xad, 0xd1,
      0x2e, 0x88, 0x71, 0x60, 0xd6, 0xdc, 0xaa, 0x99, 0xc8, 0xbc, 0xd8, 0x33, 0x8c, 0x77, 0x43, 0xf2,
      0x02, 0xff, 0x20, 0x00, 0x00, 0x00, 0xe7, 0xbc, 0x09, 0x96, 0x2a, 0xed, 0xfb, 0x47, 0x0f, 0xac,
      0x38, 0x87, 0xde, 0x32, 0x46, 0x5c, 0x5a, 0x71, 0xc8, 0x8f, 0xe0, 0x1d, 0xd7, 0x76, 0xcf, 0xa5,
      0x19, 0xe7, 0x0c, 0x63, 0xf8, 0x24, 0x01, 0xf8, 0x24, 0x73, 0x24, 0xfd, 0xe9, 0xc6, 0x56, 0x23,
      0x21, 0xd4, 0xd8, 0x2b, 0x0d, 0xd5, 0x52, 0xc0, 0xbf, 0x1f, 0x74, 0x71, 0x60, 0x85, 0xb8, 0x52,
      0x65, 0x8b, 0xfe, 0x77, 0x29, 0x64]"

definition gdix51c0_wb_selftest :: "crypto \<Rightarrow> unit result" where
  "gdix51c0_wb_selftest c =
     (case gdix51c0_wb_wrap c sample_psk of
        Inl e \<Rightarrow> Inl e
      | Inr wb \<Rightarrow> if wb \<noteq> sample_wb then Inl G_IO_ERROR_FAILED else Inr ())"

section \<open>Lawful primitives\<close>

text \<open>The documented behaviour of the primitives: output lengths, no failure, and an authenticated cipher
  that opens exactly what it sealed.\<close>

definition crypto_lawful :: "crypto \<Rightarrow> bool" where
  "crypto_lawful c \<longleftrightarrow>
     (\<forall>d. \<exists>h. evp_sha256 c d = Some h \<and> length h = 32) \<and>
     (\<forall>k d. \<exists>m. hmac_sha256 c k d = Some m \<and> length m = 32) \<and>
     (\<forall>k iv aad pt. \<exists>ct tag. gcm_seal c k iv aad pt = Some (ct, tag) \<and> length ct = length pt \<and> length tag = 16) \<and>
     (\<forall>k iv aad ct tag pt. gcm_open c k iv aad ct tag = Some pt \<longleftrightarrow> gcm_seal c k iv aad pt = Some (ct, tag))"

lemma lawful_sha: "crypto_lawful c \<Longrightarrow> \<exists>h. wb_sha256 c d = Inr h \<and> length h = 32"
  unfolding crypto_lawful_def wb_sha256_def by (elim conjE allE [of _ d] exE) auto

lemma lawful_hmac: "crypto_lawful c \<Longrightarrow> \<exists>m. wb_hmac c d = Inr m \<and> length m = 32"
proof -
  assume "crypto_lawful c"
  then obtain m where "hmac_sha256 c WB_HMAC_KEY d = Some m" "length m = 32" unfolding crypto_lawful_def by metis
  then show ?thesis by (simp add: wb_hmac_def)
qed

lemma lawful_seal:
  "crypto_lawful c \<Longrightarrow> \<exists>ct tag. wb_aes256_gcm c k iv aad pt = Inr (ct, tag) \<and> length ct = length pt \<and> length tag = 16"
proof -
  assume "crypto_lawful c"
  then obtain ct tag where "gcm_seal c k iv aad pt = Some (ct, tag)" "length ct = length pt" "length tag = 16"
    unfolding crypto_lawful_def by metis
  then show ?thesis by (simp add: wb_aes256_gcm_def)
qed

lemma lawful_open:
  "crypto_lawful c \<Longrightarrow> wb_aes256_gcm_decrypt c k iv aad ct tag = Inr pt \<longleftrightarrow> wb_aes256_gcm c k iv aad pt = Inr (ct, tag)"
proof -
  assume "crypto_lawful c"
  then have "gcm_open c k iv aad ct tag = Some pt \<longleftrightarrow> gcm_seal c k iv aad pt = Some (ct, tag)"
    unfolding crypto_lawful_def by (elim conjE) simp
  then show ?thesis
    by (cases "gcm_open c k iv aad ct tag"; cases "gcm_seal c k iv aad pt")
      (auto simp: wb_aes256_gcm_decrypt_def wb_aes256_gcm_def)
qed

text \<open>The container of a key, field by field.\<close>

lemma wrap_fields:
  assumes "crypto_lawful c" and "length psk = PSK_LEN"
  shows "\<exists>front h32 ct tag. gdix51c0_wb_wrap c psk = Inr (front @ [0x02, 0xff] @ [0x20, 0, 0, 0] @ take 16 h32 @ ct @ tag) \<and>
    wb_sha256 c (h16_input [0x02, 0xff] [0x20, 0, 0, 0] psk) = Inr h32 \<and> length h32 = 32 \<and>
    wb_aes256_gcm c WB_KEY (take 16 h32) WB_AAD psk = Inr (ct, tag) \<and> length ct = 32 \<and> length tag = 16 \<and>
    wb_hmac c ([0x02, 0xff] @ [0x20, 0, 0, 0] @ ct @ tag) = Inr front \<and> length front = 32"
proof -
  obtain h32 where h: "wb_sha256 c (h16_input [0x02, 0xff] [0x20, 0, 0, 0] psk) = Inr h32" "length h32 = 32"
    using lawful_sha [OF assms(1)] by blast
  obtain ct tag where s: "wb_aes256_gcm c WB_KEY (take 16 h32) WB_AAD psk = Inr (ct, tag)" "length ct = 32" "length tag = 16"
    using lawful_seal [OF assms(1), of WB_KEY "take 16 h32" WB_AAD psk] assms(2) by auto
  obtain front where f: "wb_hmac c ([0x02, 0xff] @ [0x20, 0, 0, 0] @ ct @ tag) = Inr front" "length front = 32"
    using lawful_hmac [OF assms(1)] by blast
  have "gdix51c0_wb_wrap c psk = Inr (front @ [0x02, 0xff] @ [0x20, 0, 0, 0] @ take 16 h32 @ ct @ tag)"
    using h s f assms(2) by (simp add: gdix51c0_wb_wrap_def)
  then show ?thesis using h s f by blast
qed

lemma unwrap_wrap:
  assumes "crypto_lawful c" and "length psk = PSK_LEN"
  shows "\<exists>wb. gdix51c0_wb_wrap c psk = Inr wb \<and> length wb = WB_LEN \<and> gdix51c0_wb_unwrap c wb = Inr psk"
proof -
  obtain front h32 ct tag where w: "gdix51c0_wb_wrap c psk = Inr (front @ [0x02, 0xff] @ [0x20, 0, 0, 0] @ take 16 h32 @ ct @ tag)"
    "wb_sha256 c (h16_input [0x02, 0xff] [0x20, 0, 0, 0] psk) = Inr h32" "length h32 = 32"
    "wb_aes256_gcm c WB_KEY (take 16 h32) WB_AAD psk = Inr (ct, tag)" "length ct = 32" "length tag = 16"
    "wb_hmac c ([0x02, 0xff] @ [0x20, 0, 0, 0] @ ct @ tag) = Inr front" "length front = 32"
    using wrap_fields [OF assms] by blast
  let ?wb = "front @ [0x02, 0xff] @ [0x20, 0, 0, 0] @ take 16 h32 @ ct @ tag"
  have "wb_aes256_gcm_decrypt c WB_KEY (take 16 h32) WB_AAD ct tag = Inr psk" using lawful_open [OF assms(1)] w(4) by simp
  then have "gdix51c0_wb_unwrap c ?wb = Inr psk" using w(2,3,5-8) by (simp add: gdix51c0_wb_unwrap_def Let_def)
  moreover have "length ?wb = WB_LEN" using w(3,5,6,8) by simp
  ultimately show ?thesis
    using w(1) by blast
qed

lemma wrap_unwrap:
  assumes "crypto_lawful c" and "length wb = WB_LEN" and "take 3 (drop 0x23 wb) = [0, 0, 0]" and "gdix51c0_wb_unwrap c wb = Inr psk"
  shows "length psk = PSK_LEN \<and> gdix51c0_wb_wrap c psk = Inr wb"
proof -
  define front hdr ln h16 ct tag where d: "front = take 32 wb" "hdr = take 2 (drop 0x20 wb)" "ln = take 4 (drop 0x22 wb)"
    "h16 = take 16 (drop 0x26 wb)" "ct = take 32 (drop 0x36 wb)" "tag = take 16 (drop 0x56 wb)"
  have parts: "hdr ! 0 = 0x02" "hdr ! 1 = 0xff" "ln ! 0 = 0x20" "wb_hmac c (hdr @ ln @ ct @ tag) = Inr front"
    "wb_aes256_gcm_decrypt c WB_KEY h16 WB_AAD ct tag = Inr psk"
    "\<exists>h32. wb_sha256 c (h16_input hdr ln psk) = Inr h32 \<and> take 16 h32 = h16"
    using assms(4) by (auto simp: gdix51c0_wb_unwrap_def Let_def d [symmetric] split: if_splits sum.splits)
  obtain h32 where h32: "wb_sha256 c (h16_input hdr ln psk) = Inr h32" "take 16 h32 = h16" using parts(6) by blast
  have seal: "wb_aes256_gcm c WB_KEY h16 WB_AAD psk = Inr (ct, tag)" using lawful_open [OF assms(1)] parts(5) by blast
  then have psk: "length psk = PSK_LEN" using lawful_seal [OF assms(1), of WB_KEY h16 WB_AAD psk] assms(2) d(5) by auto
  have "wb = take 32 wb @ drop 32 wb" by simp
  have split: "wb = front @ hdr @ ln @ h16 @ ct @ tag"
  proof -
    have "drop 0x56 wb = tag" using assms(2) d(6) by simp
    moreover have "drop 0x36 wb = ct @ drop 0x56 wb" unfolding d(5) using append_take_drop_id [of 32 "drop 0x36 wb"] by simp
    moreover have "drop 0x26 wb = h16 @ drop 0x36 wb" unfolding d(4) using append_take_drop_id [of 16 "drop 0x26 wb"] by simp
    moreover have "drop 0x22 wb = ln @ drop 0x26 wb" unfolding d(3) using append_take_drop_id [of 4 "drop 0x22 wb"] by simp
    moreover have "drop 0x20 wb = hdr @ drop 0x22 wb" unfolding d(2) using append_take_drop_id [of 2 "drop 0x20 wb"] by simp
    moreover have "wb = front @ drop 0x20 wb" unfolding d(1) using append_take_drop_id [of 32 wb] by simp
    ultimately show ?thesis by metis
  qed
  have "length hdr = 2" "length ln = 4" using assms(2) by (simp_all add: d)
  then obtain a b l0 l1 l2 l3 where lists: "hdr = [a, b]" "ln = [l0, l1, l2, l3]"
    by (auto simp: length_Suc_conv numeral_2_eq_2 eval_nat_numeral)
  have "length front = 32" using assms(2) by (simp add: d)
  then have "take 3 (drop 0x23 wb) = [l1, l2, l3]" unfolding split lists by simp
  then have ln: "ln = [0x20, 0, 0, 0]" and hdr: "hdr = [0x02, 0xff]" using assms(3) parts(1-3) lists by simp_all
  show ?thesis
    using h32 seal parts(4) psk unfolding split ln hdr by (simp add: gdix51c0_wb_wrap_def)
qed

section \<open>Properties\<close>


text \<open>Primitives that satisfy the laws: a cipher that copies, with constant digests.\<close>

definition plain_crypto :: crypto where
  "plain_crypto = \<lparr> evp_sha256 = (\<lambda>d. Some (replicate 32 7)), hmac_sha256 = (\<lambda>k d. Some (replicate 32 9)),
     gcm_seal = (\<lambda>k iv aad pt. Some (pt, replicate 16 5)),
     gcm_open = (\<lambda>k iv aad ct tag. if tag = replicate 16 5 then Some ct else None) \<rparr>"

lemma plain_crypto_lawful: "crypto_lawful plain_crypto"
  by (auto simp: crypto_lawful_def plain_crypto_def)


text \<open>The register write that provisions a key is 112 bytes long, a multiple of four: the address
  0xbb010003 and the length 102, both little endian, then the container and two zero bytes. It fails
  exactly when wrapping the key fails.\<close>

theorem wb_provision_layout:
  assumes "crypto_lawful c" and "length psk = PSK_LEN"
  shows "\<exists>data wb. gdix51c0_wb_provision_data c psk = Inr data \<and> gdix51c0_wb_wrap c psk = Inr wb \<and> length data = 112 \<and>
    le32_at data 0 = PSK_WB_ADDR \<and> le32_at data 4 = of_nat WB_LEN \<and> take WB_LEN (drop 8 data) = wb \<and> drop 110 data = [0, 0]"
proof -
  obtain wb where wb: "gdix51c0_wb_wrap c psk = Inr wb" "length wb = WB_LEN"
    using wrap_fields [OF assms] by auto
  let ?data = "le32_bytes PSK_WB_ADDR @ [of_nat WB_LEN, 0, 0, 0] @ wb @ [0, 0]"
  have "le32_bytes (of_nat WB_LEN) = [of_nat WB_LEN, 0, 0, 0]" by (simp add: le32_bytes_def)
  then have d: "?data = le32_bytes PSK_WB_ADDR @ le32_bytes (of_nat WB_LEN) @ wb @ [0, 0]" by simp
  have "le32_at ?data 0 = PSK_WB_ADDR" "le32_at ?data 4 = of_nat WB_LEN"
    using le32_at_0_append le32_at_4_append
    unfolding d by simp_all
  moreover have "gdix51c0_wb_provision_data c psk = Inr ?data"
    using wb by (simp add: gdix51c0_wb_provision_data_def Let_def numeral_2_eq_2)
  ultimately show ?thesis using wb by (intro exI [of _ ?data] exI [of _ wb]) (simp add: le32_bytes_def)
qed

theorem wb_provision_layout_witness:
  "\<exists>data. gdix51c0_wb_provision_data plain_crypto sample_psk = Inr data \<and> length data = 112"
  using wb_provision_layout [OF plain_crypto_lawful, of sample_psk] by (auto simp: sample_psk_def)

end
