(* ===== verification/Gdix_Provision.thy ===== *)
theory Gdix_Provision
  imports Gdix_Bus Gdix_Wb
begin

text \<open>
  The operations of gdix51c0-proto.c that rest on the commands and on the container: writing a key to the
  sensor and verifying it, reading a key back, the strict wait for an edge, and the reset pulse.
\<close>

section \<open>The strict wait and the reset line\<close>

definition gdix51c0_payload_checksum_ts :: "bytes \<Rightarrow> nat \<Rightarrow> byte" where
  "gdix51c0_payload_checksum_ts buf len = gdix51c0_payload_checksum buf len + 1"

text \<open>An edge of the other direction counts when the line has reached the level meanwhile; the level before
  the first edge does not.\<close>

fun strict_events :: "'w kernel \<Rightarrow> bool \<Rightarrow> bool list \<Rightarrow> 'w \<Rightarrow> bool result \<times> 'w" where
  "strict_events k target_high [] w = (Inr False, w)"
| "strict_events k target_high (edge # edges) w =
     (if edge = target_high then (Inr True, w)
      else case bus_level k w of
        (Inl e, w') \<Rightarrow> (Inl e, w')
      | (Inr level, w') \<Rightarrow> if level = target_high then (Inr True, w') else strict_events k target_high edges w')"

partial_function (option) irq_strict_loop :: "'w kernel \<Rightarrow> bool \<Rightarrow> int \<Rightarrow> ('w, unit) action" where
  "irq_strict_loop k target_high deadline w =
     (case bus_now k w of (now, w1) \<Rightarrow>
        if now \<ge> deadline then Some (Inl IRQ_TIMED_OUT, snd (bus_level k w1))
        else case bus_wait_edge k ((deadline - now) * 1000) w1 of
          (Inl e, w2) \<Rightarrow> Some (Inl e, w2)
        | (Inr ready, w2) \<Rightarrow>
            if \<not> ready then Some (Inl IRQ_TIMED_OUT, snd (bus_level k w2))
            else (case bus_read_edges k 1 w2 of
               (Inl e, w3) \<Rightarrow> Some (Inl e, w3)
             | (Inr edges, w3) \<Rightarrow>
                 case strict_events k target_high edges w3 of
                   (Inl e, w4) \<Rightarrow> Some (Inl e, w4)
                 | (Inr hit, w4) \<Rightarrow> if hit then Some (Inr (), w4) else irq_strict_loop k target_high deadline w4))"

declare irq_strict_loop.simps [code]

definition gdix51c0_irq_wait_edge_strict :: "'w kernel \<Rightarrow> bool \<Rightarrow> nat \<Rightarrow> ('w, unit) action" where
  "gdix51c0_irq_wait_edge_strict k target_high timeout_usec w =
     (case bus_now k w of (now, w1) \<Rightarrow> irq_strict_loop k target_high (now + int timeout_usec) w1)"

text \<open>The reset line: a chip handle that may be closed, allocations that may fail, a line that is requested
  as an output, driven high and low, and given back.\<close>

record 'w gpio =
  gpio_alloc :: "'w \<Rightarrow> bool \<times> 'w"
  gpio_add_line :: "nat \<Rightarrow> 'w \<Rightarrow> unit result \<times> 'w"
  gpio_request :: "nat \<Rightarrow> 'w \<Rightarrow> unit result \<times> 'w"
  gpio_set :: "nat \<Rightarrow> bool \<Rightarrow> 'w \<Rightarrow> 'w"
  gpio_sleep :: "nat \<Rightarrow> 'w \<Rightarrow> 'w"
  gpio_release :: "nat \<Rightarrow> 'w \<Rightarrow> 'w"

definition gdix51c0_reset_pulse :: "'w gpio option \<Rightarrow> nat \<Rightarrow> 'w \<Rightarrow> unit result \<times> 'w" where
  "gdix51c0_reset_pulse chip offset w =
     (case chip of None \<Rightarrow> (Inl G_IO_ERROR_CLOSED, w)
      | Some g \<Rightarrow> case gpio_alloc g w of (ok, w1) \<Rightarrow>
          if \<not> ok then (Inl G_IO_ERROR_FAILED, w1)
          else case gpio_add_line g offset w1 of (Inl e, w2) \<Rightarrow> (Inl e, w2)
          | (Inr _, w2) \<Rightarrow> case gpio_request g offset w2 of (Inl e, w3) \<Rightarrow> (Inl e, w3)
            | (Inr _, w3) \<Rightarrow>
                let w4 = gpio_sleep g 10000 (gpio_set g offset True w3);
                    w5 = gpio_sleep g 10000 (gpio_set g offset False w4)
                in (Inr (), gpio_release g offset w5))"

section \<open>Reading a register\<close>

text \<open>The packet that answers the read of a register of \<open>len\<close> bytes: \<open>None\<close> when it is empty, else the data.
  The order of the tests decides the error.\<close>

definition register_response :: "u32 \<Rightarrow> nat \<Rightarrow> bytes \<Rightarrow> bytes option result" where
  "register_response address len resp =
     (if length resp < 6 \<or> resp ! 0 \<noteq> 0xe4 then Inl G_IO_ERROR_INVALID_DATA
      else let plen = unat (le16_at resp 1) in
        if plen + 3 \<noteq> length resp then Inl G_IO_ERROR_INVALID_DATA
        else if plen = 3 then Inr None
        else if length resp < 13 then Inl G_IO_ERROR_INVALID_DATA
        else let dtype = le32_at resp 4; dlen = unat (le32_at resp 8) in
          if resp ! 3 \<noteq> 0 \<or> dtype \<noteq> address \<or> dlen \<noteq> len \<or> 12 + dlen + 1 > length resp then Inl G_IO_ERROR_FAILED
          else Inr (Some (take len (drop 12 resp))))"

abbreviation (input) read_hash_payload :: bytes where
  "read_hash_payload \<equiv> [0xe4, 0x09, 0x00, 0x03, 0x00, 0x02, 0xbb, 0x00, 0x00, 0x00, 0x00, 0xfd]"

abbreviation (input) read_wb_payload :: bytes where
  "read_wb_payload \<equiv> [0xe4, 0x09, 0x00, 0x03, 0x00, 0x01, 0xbb, 0x00, 0x00, 0x00, 0x00, 0xfe]"

definition of_result :: "'a result \<Rightarrow> ('w, 'a) action" where
  "of_result r w = Some (r, w)"

text \<open>The register of the digest, and the comparison of what the sensor computed with what it should be.\<close>

definition verify_provisioning :: "'w kernel \<Rightarrow> crypto \<Rightarrow> bytes \<Rightarrow> ('w, unit) action" where
  "verify_provisioning k c psk =
     and_then (of_result (gdix51c0_wb_wrap c psk)) (\<lambda>wb.
     and_then (of_result (gdix51c0_wb_hash c wb)) (\<lambda>want.
     and_then (gdix51c0_cmd_ack_then_resp_read k read_hash_payload CMD_MIN_RESPONSE_TIMEOUT_USEC) (\<lambda>resp.
     case register_response PSK_HASH_ADDR 32 resp of
       Inl e \<Rightarrow> fail_with e
     | Inr None \<Rightarrow> fail_with G_IO_ERROR_FAILED
     | Inr (Some data) \<Rightarrow> if data \<noteq> take 32 want then fail_with G_IO_ERROR_FAILED else done_with ())))"

text \<open>Data that do not fit in a packet would give a command with no bytes; those of a key always fit.\<close>

definition gdix51c0_provision_psk :: "'w kernel \<Rightarrow> crypto \<Rightarrow> bytes \<Rightarrow> bool \<Rightarrow> ('w, unit) action" where
  "gdix51c0_provision_psk k c psk verify =
     and_then (of_result (gdix51c0_wb_selftest c)) (\<lambda>_.
     and_then (of_result (gdix51c0_wb_provision_data c psk)) (\<lambda>data.
     and_then (gdix51c0_cmd_ack_resp k (case gdix51c0_make_payload_packet 0xe0 data of None \<Rightarrow> [] | Some pkt \<Rightarrow> pkt)) (\<lambda>_.
     if \<not> verify then done_with () else verify_provisioning k c psk)))"

text \<open>\<open>None\<close> when the sensor holds no key.\<close>

definition gdix51c0_recover_psk_from_mcu :: "'w kernel \<Rightarrow> crypto \<Rightarrow> ('w, bytes option) action" where
  "gdix51c0_recover_psk_from_mcu k c =
     and_then (gdix51c0_cmd_ack_then_resp_read k read_wb_payload CMD_MIN_RESPONSE_TIMEOUT_USEC) (\<lambda>resp.
     case register_response PSK_WB_ADDR WB_LEN resp of
       Inl e \<Rightarrow> fail_with e
     | Inr None \<Rightarrow> done_with None
     | Inr (Some data) \<Rightarrow> and_then (of_result (gdix51c0_wb_unwrap c data)) (\<lambda>psk. done_with (Some psk)))"

section \<open>Properties\<close>

lemma returned_and_then:
  "and_then m f w = Some (Inr y, w') \<longleftrightarrow> (\<exists>x w1. m w = Some (Inr x, w1) \<and> f x w1 = Some (Inr y, w'))"
  unfolding and_then_def by (auto split: option.splits sum.splits)

lemma returned_simple:
  "of_result r w = Some (Inr x, w') \<longleftrightarrow> r = Inr x \<and> w' = w"
  "done_with y w = Some (Inr x, w') \<longleftrightarrow> y = x \<and> w' = w"
  "\<not> fail_with e w = Some (Inr x, w')"
  by (auto simp: of_result_def done_with_def fail_with_def)

lemma register_response_data:
  "register_response address len resp = Inr (Some data) \<Longrightarrow>
    length resp \<ge> 13 + len \<and> resp ! 0 = 0xe4 \<and> resp ! 3 = 0 \<and> le32_at resp 4 = address \<and> unat (le32_at resp 8) = len \<and>
    data = take len (drop 12 resp)"
  by (auto simp: register_response_def Let_def split: if_splits)

text \<open>C16: A verified provisioning that succeeds has wrapped the key, and the very last thing read from the sensor
  is a well-formed answer for the digest register, whose 32 bytes are the SHA-256 digest of the container.\<close>

theorem provision_verified:
  assumes "gdix51c0_provision_psk k c psk True w = Some (Inr (), w')"
  shows "\<exists>wb w1 resp. gdix51c0_wb_wrap c psk = Inr wb \<and>
    gdix51c0_cmd_ack_then_resp_read k read_hash_payload 1000000 w1 = Some (Inr resp, w') \<and>
    length resp \<ge> 45 \<and> resp ! 0 = 0xe4 \<and> resp ! 3 = 0 \<and> le32_at resp 4 = PSK_HASH_ADDR \<and>
    evp_sha256 c (take WB_LEN wb) = Some (take 32 (drop 12 resp))"
proof -
  obtain w0 where "verify_provisioning k c psk w0 = Some (Inr (), w')"
    using assms unfolding gdix51c0_provision_psk_def returned_and_then by auto
  then obtain wb want resp w1 where run: "gdix51c0_wb_wrap c psk = Inr wb" "gdix51c0_wb_hash c wb = Inr want"
    "gdix51c0_cmd_ack_then_resp_read k read_hash_payload 1000000 w0 = Some (Inr resp, w1)"
    and check: "(case register_response PSK_HASH_ADDR 32 resp of Inl e \<Rightarrow> fail_with e | Inr None \<Rightarrow> fail_with G_IO_ERROR_FAILED
      | Inr (Some data) \<Rightarrow> if data \<noteq> take 32 want then fail_with G_IO_ERROR_FAILED else done_with ()) w1 = Some (Inr (), w')"
    unfolding verify_provisioning_def returned_and_then returned_simple(1) by blast
  obtain data where data: "register_response PSK_HASH_ADDR 32 resp = Inr (Some data)" "data = take 32 want" "w1 = w'"
    using check by (auto simp: returned_simple split: sum.splits option.splits if_splits)
  have "evp_sha256 c (take WB_LEN wb) = Some want" "length want = 32"
    using run(2) by (auto simp: gdix51c0_wb_hash_def wb_sha256_def split: option.splits if_splits)
  then show ?thesis using run data register_response_data [OF data(1)] by auto
qed

text \<open>A sensor whose register answers with its container, and one that accepts the known container.\<close>

definition stored_key :: bytes where
  "stored_key = [0xe4, 112, 0, 0, 3, 0, 1, 0xbb, 102, 0, 0, 0] @ (replicate 32 9 @ [0x02, 0xff, 0x20, 0, 0, 0] @ replicate 16 7 @ replicate 32 1 @ replicate 16 5) @ [0]"


definition sample_crypto :: crypto where
  "sample_crypto = \<lparr> evp_sha256 = (\<lambda>d. Some (take 16 (drop 0x26 sample_wb) @ replicate 16 0)), hmac_sha256 = (\<lambda>k d. Some (take 32 sample_wb)),
     gcm_seal = (\<lambda>k iv aad pt. Some (take 32 (drop 0x36 sample_wb), drop 0x56 sample_wb)), gcm_open = (\<lambda>k iv aad ct tag. None) \<rparr>"

lemma sample_wrap: "gdix51c0_wb_wrap sample_crypto psk = Inr sample_wb"
  by (simp add: gdix51c0_wb_wrap_def wb_sha256_def wb_aes256_gcm_def wb_hmac_def sample_crypto_def Let_def sample_wb_def)

definition digest_answer :: bytes where
  "digest_answer = [0xe4, 42, 0, 0, 3, 0, 2, 0xbb, 32, 0, 0, 0] @ take 16 (drop 0x26 sample_wb) @ replicate 16 0 @ [0]"

lemma packet_command:
  assumes "length data \<le> 65534"
  shows "\<exists>pkt. gdix51c0_make_payload_packet cmd data = Some pkt \<and> pkt ! 0 = cmd \<and> pkt \<noteq> []"
  using assms by (auto simp: gdix51c0_make_payload_packet_def goodix_wire_encode_command_def Let_def nth_append write_at_def)

lemma provision_run:
  "gdix51c0_provision_psk queue_kernel sample_crypto sample_psk True
     (0, [[0xb0, 1, 0, 0xb1, 0xb0], [0xb0, 1, 0, 0, 0xe0], [0xb0, 1, 0, 0xb1, 0xb0], [0xb0, 45, 0, 0] @ digest_answer]) = Some (Inr (), (4, []))"
proof -
  obtain data where data: "gdix51c0_wb_provision_data sample_crypto sample_psk = Inr data" "length data = 112"
    by (simp add: gdix51c0_wb_provision_data_def sample_wrap Let_def sample_wb_def le32_bytes_def)
  obtain pkt where pkt: "gdix51c0_make_payload_packet 0xe0 data = Some pkt" "pkt ! 0 = 0xe0" "pkt \<noteq> []"
    using packet_command [of data "0xe0"] data(2) by auto
  have stored: "gdix51c0_cmd_ack_resp queue_kernel pkt (0, [0xb0, 1, 0, 0xb1, 0xb0] # [0xb0, 1, 0, 0, 0xe0] # ps) = Some (Inr (), (2, ps))" for ps
    using queue_answer [where t = "0xb0" and resp = "[0xe0]" and payload = pkt and timeout = 1000000 and n = 0 and x = 0 and ps = ps] pkt
    by (simp add: gdix51c0_cmd_ack_resp_def gdix51c0_cmd_ack_then_resp_def and_then_def done_with_def)
  have len: "length digest_answer = 45" by (simp add: digest_answer_def sample_wb_def)
  have read: "gdix51c0_cmd_ack_then_resp_read queue_kernel read_hash_payload 1000000
      (2, [0xb0, 1, 0, 0xb1, 0xb0] # [[0xb0, 45, 0, 0] @ digest_answer]) = Some (Inr digest_answer, (4, []))"
    using queue_answer [where t = "0xb0" and resp = digest_answer and payload = read_hash_payload and timeout = 1000000 and n = 2 and x = 0 and ps = "[]"] len by (simp add: digest_answer_def)
  let ?digest = "take 16 (drop 0x26 sample_wb) @ replicate 16 0"
  have digest: "register_response PSK_HASH_ADDR 32 digest_answer = Inr (Some ?digest)"
    by (simp add: register_response_def digest_answer_def Let_def le16_at_def le32_at_def sample_wb_def)
  have hash: "gdix51c0_wb_hash sample_crypto wb = Inr ?digest" "take 32 ?digest = ?digest" for wb
    by (simp_all add: gdix51c0_wb_hash_def wb_sha256_def sample_crypto_def sample_wb_def)
  have "verify_provisioning queue_kernel sample_crypto sample_psk
      (2, [0xb0, 1, 0, 0xb1, 0xb0] # [[0xb0, 45, 0, 0] @ digest_answer]) = Some (Inr (), (4, []))"
    using read digest hash by (simp add: verify_provisioning_def sample_wrap and_then_def of_result_def done_with_def)
  then show ?thesis
    using stored pkt data by (simp add: gdix51c0_provision_psk_def gdix51c0_wb_selftest_def sample_wrap and_then_def of_result_def)
qed

theorem provision_verified_witness:
  "\<exists>w1 resp. gdix51c0_cmd_ack_then_resp_read queue_kernel read_hash_payload 1000000 w1 = Some (Inr resp, (4, [])) \<and> length resp \<ge> 45"
  using provision_verified [OF provision_run] by blast

end
