(* ===== verification/Gdix_Listener.thy ===== *)
theory Gdix_Listener
  imports Gdix_Bus
begin

text \<open>
  The listener of the driver (gdix51c0-listener.c): a thread that reads packets while the interrupt line is
  high and dispatches them into one bounded queue per command byte, and the callers that wait for them.

  The critical sections under \<open>dispatch_lock\<close> are atomic. A caller sees what the thread has dispatched when
  it takes the lock: the packets that arrived meanwhile are an input of that step. What a caller cannot
  observe (messages, the allocation of a queue, the copy of a packet) is left out, as is the fault injection
  of developer builds.
\<close>

section \<open>The queues\<close>

abbreviation (input) LISTENER_QUEUE_CAP :: nat where "LISTENER_QUEUE_CAP \<equiv> 16"

type_synonym queues = "byte \<Rightarrow> bytes list"

definition listener_enqueue_locked :: "queues \<Rightarrow> byte \<Rightarrow> bytes \<Rightarrow> queues" where
  "listener_enqueue_locked queues cmd data =
     (let q = queues cmd; q' = (if length q \<ge> LISTENER_QUEUE_CAP then tl q else q)
      in queues(cmd := q' @ [data]))"

definition gdix51c0_listener_drain_all :: "queues \<Rightarrow> queues" where
  "gdix51c0_listener_drain_all queues = (\<lambda>_. [])"

definition gdix51c0_listener_drain_cmd :: "queues \<Rightarrow> byte \<Rightarrow> queues" where
  "gdix51c0_listener_drain_cmd queues cmd = queues(cmd := [])"

text \<open>Taking the oldest packet of a queue.\<close>

definition queue_pop :: "queues \<Rightarrow> byte \<Rightarrow> (bytes \<times> queues) option" where
  "queue_pop queues cmd = (case queues cmd of [] \<Rightarrow> None | p # q \<Rightarrow> Some (p, queues(cmd := q)))"

text \<open>A packet goes to the queue of its first byte.\<close>

definition dispatch :: "queues \<Rightarrow> bytes \<Rightarrow> queues" where
  "dispatch queues payload = listener_enqueue_locked queues (payload ! 0) payload"

definition listener_new :: queues where
  "listener_new = (\<lambda>_. [])"

section \<open>The thread\<close>

text \<open>The two flags are atomic and set by others at any time, so every read asks the world.\<close>

record 'w flags =
  flag_stop :: "'w \<Rightarrow> bool \<times> 'w"
  flag_suppress :: "'w \<Rightarrow> bool \<times> 'w"

partial_function (option) listener_drain_irq_high :: "'w kernel \<Rightarrow> 'w flags \<Rightarrow> queues \<Rightarrow> 'w \<Rightarrow> (queues \<times> 'w) option" where
  "listener_drain_irq_high k g queues w =
     (case flag_stop g w of (stop, w1) \<Rightarrow> if stop then Some (queues, w1)
      else case flag_suppress g w1 of (suppress, w2) \<Rightarrow> if suppress then Some (queues, w2)
      else case bus_level k w2 of (level, w3) \<Rightarrow> if level \<noteq> Inr True then Some (queues, w3)
      else case gdix51c0_spi_read_typed k w3 of
        None \<Rightarrow> None
      | Some (Inl e, w4) \<Rightarrow> Some (queues, bus_sleep k 5000 w4)
      | Some (Inr (outer_type, payload), w4) \<Rightarrow>
          if payload = [] then listener_drain_irq_high k g queues (bus_sleep k 3000 w4)
          else listener_drain_irq_high k g (dispatch queues payload) w4)"

declare listener_drain_irq_high.simps [code]

text \<open>The outcomes of \<open>poll\<close>: an error, interrupted by a signal or not, a wake-up by the event descriptor, or
  neither, with or without buffered edges.\<close>

datatype polled = Poll_Interrupted | Poll_Failed | Poll_Woken | Poll_Ready bool

partial_function (option) listener_loop ::
    "'w kernel \<Rightarrow> 'w flags \<Rightarrow> ('w \<Rightarrow> polled \<times> 'w) \<Rightarrow> queues \<Rightarrow> 'w \<Rightarrow> (queues \<times> 'w) option" where
  "listener_loop k g poll queues w =
     (case flag_stop g w of (stop, w1) \<Rightarrow> if stop then Some (queues, w1)
      else case poll w1 of (outcome, w2) \<Rightarrow>
        case flag_stop g w2 of (stop', w3) \<Rightarrow> if stop' then Some (queues, w3)
        else case outcome of
          Poll_Interrupted \<Rightarrow> listener_loop k g poll queues w3
        | Poll_Failed \<Rightarrow> listener_loop k g poll queues (bus_sleep k 5000 w3)
        | Poll_Woken \<Rightarrow> listener_loop k g poll queues w3
        | Poll_Ready edges \<Rightarrow>
            (case listener_drain_irq_high k g queues (if edges then snd (bus_read_edges k 16 w3) else w3) of
               None \<Rightarrow> None
             | Some (queues', w4) \<Rightarrow> listener_loop k g poll queues' w4))"

declare listener_loop.simps [code]

definition listener_thread_main ::
    "'w kernel \<Rightarrow> 'w flags \<Rightarrow> ('w \<Rightarrow> polled \<times> 'w) \<Rightarrow> queues \<Rightarrow> 'w \<Rightarrow> (queues \<times> 'w) option" where
  "listener_thread_main k g poll queues w =
     (case listener_drain_irq_high k g queues w of None \<Rightarrow> None | Some (queues', w') \<Rightarrow> listener_loop k g poll queues' w')"

section \<open>The callers\<close>

text \<open>What a caller does to the world: \<open>host_arrivals\<close> takes \<open>dispatch_lock\<close> and tells which packets the thread
  has dispatched since it was last taken; \<open>host_wait\<close> is \<open>g_cond_wait_until\<close>, which may return at any time.\<close>

record 'w host =
  host_arrivals :: "'w \<Rightarrow> bytes list \<times> 'w"
  host_stopped :: "'w \<Rightarrow> bool \<times> 'w"
  host_now :: "'w \<Rightarrow> int \<times> 'w"
  host_wait :: "int \<Rightarrow> 'w \<Rightarrow> 'w"
  host_sleep :: "nat \<Rightarrow> 'w \<Rightarrow> 'w"
  host_write :: "bytes \<Rightarrow> 'w \<Rightarrow> unit result \<times> 'w"

text \<open>Taking the lock.\<close>

definition catch_up :: "'w host \<Rightarrow> queues \<times> 'w \<Rightarrow> queues \<times> 'w" where
  "catch_up h = (\<lambda>(queues, w). case host_arrivals h w of (packets, w') \<Rightarrow> (foldl dispatch queues packets, w'))"

definition drain_cmd :: "'w host \<Rightarrow> byte \<Rightarrow> queues \<times> 'w \<Rightarrow> queues \<times> 'w" where
  "drain_cmd h cmd s = (case catch_up h s of (queues, w) \<Rightarrow> (gdix51c0_listener_drain_cmd queues cmd, w))"

partial_function (option) await_loop :: "'w host \<Rightarrow> byte \<Rightarrow> int \<Rightarrow> (queues \<times> 'w, bytes) action" where
  "await_loop h cmd deadline s =
     (case catch_up h s of (queues, w) \<Rightarrow>
        case queue_pop queues cmd of
          Some (p, queues') \<Rightarrow> Some (Inr p, (queues', w))
        | None \<Rightarrow>
            (case host_stopped h w of (stop, w1) \<Rightarrow>
               if stop then Some (Inl G_IO_ERROR_CLOSED, (queues, w1))
               else case host_now h w1 of (now, w2) \<Rightarrow>
                 if now \<ge> deadline then Some (Inl G_IO_ERROR_TIMED_OUT, (queues, w2))
                 else await_loop h cmd deadline (queues, host_wait h deadline w2)))"

declare await_loop.simps [code]

definition gdix51c0_listener_await :: "'w host \<Rightarrow> byte \<Rightarrow> nat \<Rightarrow> (queues \<times> 'w, bytes) action" where
  "gdix51c0_listener_await h cmd timeout_usec =
     (\<lambda>(queues, w). case host_now h w of (now, w1) \<Rightarrow> await_loop h cmd (now + int timeout_usec) (queues, w1))"

definition gdix51c0_listener_write_internal :: "'w host \<Rightarrow> bytes \<Rightarrow> bool \<Rightarrow> (queues \<times> 'w, unit) action" where
  "gdix51c0_listener_write_internal h payload initial_submit =
     (\<lambda>(queues, w). case host_write h payload (if initial_submit then host_sleep h 1000 w else w) of
        (r, w') \<Rightarrow> Some (r, (queues, w')))"

definition gdix51c0_listener_write :: "'w host \<Rightarrow> bytes \<Rightarrow> (queues \<times> 'w, unit) action" where
  "gdix51c0_listener_write h payload = gdix51c0_listener_write_internal h payload True"

text \<open>Only a timeout is retried.\<close>

definition on_timeout :: "('w, 'a) action \<Rightarrow> ('w, 'a) action \<Rightarrow> ('w, 'a) action" where
  "on_timeout m again = or_else m (\<lambda>e. if e = G_IO_ERROR_TIMED_OUT then again else fail_with e)"

definition submit_and_wait :: "'w host \<Rightarrow> bytes \<Rightarrow> bool \<Rightarrow> (queues \<times> 'w, unit) action \<Rightarrow> (queues \<times> 'w, unit) action" where
  "submit_and_wait h payload initial again =
     and_then (gdix51c0_listener_write_internal h payload initial)
       (\<lambda>_. on_timeout (and_then (gdix51c0_listener_await h PKT_READ 1000000) (\<lambda>_. done_with ())) again)"

definition gdix51c0_listener_send_ack :: "'w host \<Rightarrow> bytes \<Rightarrow> (queues \<times> 'w, unit) action" where
  "gdix51c0_listener_send_ack h payload s =
     submit_and_wait h payload True (submit_and_wait h payload False (fail_with G_IO_ERROR_TIMED_OUT))
       (drain_cmd h PKT_READ s)"

definition command_attempt ::
    "'w host \<Rightarrow> bytes \<Rightarrow> byte \<Rightarrow> nat \<Rightarrow> (queues \<times> 'w, bytes) action \<Rightarrow> (queues \<times> 'w, bytes) action" where
  "command_attempt h payload response_command response_timeout_usec again s =
     and_then (gdix51c0_listener_send_ack h payload)
       (\<lambda>_. on_timeout (gdix51c0_listener_await h response_command response_timeout_usec) again)
       (drain_cmd h response_command s)"

definition gdix51c0_listener_command :: "'w host \<Rightarrow> bytes \<Rightarrow> byte \<Rightarrow> nat \<Rightarrow> (queues \<times> 'w, bytes) action" where
  "gdix51c0_listener_command h payload response_command response_timeout_usec =
     command_attempt h payload response_command response_timeout_usec
       (command_attempt h payload response_command response_timeout_usec (fail_with G_IO_ERROR_TIMED_OUT))"

section \<open>Bounded queues\<close>

text \<open>The contract of a queue that keeps the newest packets: putting one in drops the oldest when the queue is
  full, and the oldest is taken first.\<close>

definition newest :: "nat \<Rightarrow> 'a list \<Rightarrow> 'a list" where
  "newest n xs = drop (length xs - n) xs"

locale bounded_queue =
  fixes view :: "'q \<Rightarrow> 'p list" and put :: "'q \<Rightarrow> 'p \<Rightarrow> 'q" and take_first :: "'q \<Rightarrow> ('p \<times> 'q) option" and cap :: nat
  assumes view_put: "length (view q) \<le> cap \<Longrightarrow> view (put q p) = newest cap (view q @ [p])"
    and take_none: "take_first q = None \<longleftrightarrow> view q = []"
    and take_some: "take_first q = Some (p, q') \<Longrightarrow> view q = p # view q'"
    and cap_pos: "0 < cap"
begin

lemma newest_newest: "newest cap (newest cap xs @ ys) = newest cap (xs @ ys)"
  by (cases "length xs \<le> cap") (simp_all add: newest_def add.commute)

lemma length_view_put: "length (view q) \<le> cap \<Longrightarrow> length (view (put q p)) \<le> cap"
  by (simp add: view_put newest_def)

lemma view_puts: "length (view q) \<le> cap \<Longrightarrow> view (foldl put q ps) = newest cap (view q @ ps)"
proof (induction ps arbitrary: q)
  case Nil
  then show ?case by (simp add: newest_def)
next
  case (Cons p ps)
  have "view (foldl put (put q p) ps) = newest cap (view (put q p) @ ps)"
    by (rule Cons.IH) (rule length_view_put [OF Cons.prems])
  then show ?case using newest_newest [of "view q @ [p]" ps] Cons.prems by (simp add: view_put)
qed

lemma take_oldest: "length (view q @ ps) \<le> cap \<Longrightarrow> take_first (foldl put q ps) = Some (p, q') \<Longrightarrow> view q @ ps = p # view q'"
  using view_puts [of q ps] take_some by (simp add: newest_def)

end

text \<open>The queue of one command byte, dispatched to by packets of that byte.\<close>

interpretation command_queue: bounded_queue "\<lambda>queues. queues cmd" "\<lambda>queues p. listener_enqueue_locked queues cmd p"
    "\<lambda>queues. queue_pop queues cmd" LISTENER_QUEUE_CAP for cmd
proof unfold_locales
  fix queues :: queues and p q'
  show "length (queues cmd) \<le> LISTENER_QUEUE_CAP \<Longrightarrow>
      listener_enqueue_locked queues cmd p cmd = newest LISTENER_QUEUE_CAP (queues cmd @ [p])"
    by (cases "queues cmd") (auto simp: listener_enqueue_locked_def newest_def Let_def)
  show "queue_pop queues cmd = None \<longleftrightarrow> queues cmd = []"
    by (simp add: queue_pop_def split: list.split)
  show "queue_pop queues cmd = Some (p, q') \<Longrightarrow> queues cmd = p # q' cmd"
    by (auto simp: queue_pop_def split: list.splits)
qed simp

lemma dispatch_at: "dispatch queues p cmd = (if p ! 0 = cmd then listener_enqueue_locked queues cmd p cmd else queues cmd)"
  by (simp add: dispatch_def listener_enqueue_locked_def Let_def)

lemma dispatched_at:
  "length (queues cmd) \<le> LISTENER_QUEUE_CAP \<Longrightarrow>
    foldl dispatch queues ps cmd = newest LISTENER_QUEUE_CAP (queues cmd @ filter (\<lambda>p. p ! 0 = cmd) ps)"
proof (induction ps arbitrary: queues)
  case Nil
  then show ?case by (simp add: newest_def)
next
  case (Cons p ps)
  have "length (dispatch queues p cmd) \<le> LISTENER_QUEUE_CAP"
    using Cons.prems command_queue.length_view_put [of queues cmd p] by (simp add: dispatch_at [of queues p cmd])
  then have "foldl dispatch (dispatch queues p) ps cmd =
      newest LISTENER_QUEUE_CAP (dispatch queues p cmd @ filter (\<lambda>p. p ! 0 = cmd) ps)"
    by (rule Cons.IH)
  then show ?case
    using Cons.prems command_queue.newest_newest [of "queues cmd @ [p]"] command_queue.view_put [of queues cmd p]
    by (cases "p ! 0 = cmd") (simp_all add: dispatch_at [of queues p cmd])
qed

section \<open>What is kept and what is counted\<close>

text \<open>An action keeps an invariant of the state, and its results satisfy a postcondition.\<close>

definition keeping :: "('s \<Rightarrow> bool) \<Rightarrow> ('s, 'a) action \<Rightarrow> ('a \<Rightarrow> 's \<Rightarrow> bool) \<Rightarrow> bool" where
  "keeping J m Q \<longleftrightarrow> (\<forall>s r s'. J s \<longrightarrow> m s = Some (r, s') \<longrightarrow> J s' \<and> (\<forall>x. r = Inr x \<longrightarrow> Q x s'))"

lemma keepingI: "(\<And>s r s'. J s \<Longrightarrow> m s = Some (r, s') \<Longrightarrow> J s' \<and> (\<forall>x. r = Inr x \<longrightarrow> Q x s')) \<Longrightarrow> keeping J m Q"
  by (simp add: keeping_def)

lemma keepingD: "keeping J m Q \<Longrightarrow> J s \<Longrightarrow> m s = Some (r, s') \<Longrightarrow> J s' \<and> (\<forall>x. r = Inr x \<longrightarrow> Q x s')"
  by (simp add: keeping_def)

lemma keeping_and_then:
  assumes "keeping J m P" and "\<And>x. keeping J (f x) Q"
  shows "keeping J (and_then m f) Q"
proof (rule keepingI)
  fix s r s' assume j: "J s" and run: "and_then m f s = Some (r, s')"
  obtain r1 s1 where m: "m s = Some (r1, s1)" using run by (cases "m s") (auto simp: and_then_def)
  have j1: "J s1" using keepingD [OF assms(1) j m] by simp
  show "J s' \<and> (\<forall>x. r = Inr x \<longrightarrow> Q x s')"
    using run m j1 keepingD [OF assms(2) j1] by (cases r1) (auto simp: and_then_def)
qed

lemma keeping_or_else:
  assumes "keeping J m Q" and "\<And>e. keeping J (f e) Q"
  shows "keeping J (or_else m f) Q"
proof (rule keepingI)
  fix s r s' assume j: "J s" and run: "or_else m f s = Some (r, s')"
  obtain r1 s1 where m: "m s = Some (r1, s1)" using run by (cases "m s") (auto simp: or_else_def)
  have j1: "J s1 \<and> (\<forall>x. r1 = Inr x \<longrightarrow> Q x s1)" by (rule keepingD [OF assms(1) j m])
  then show "J s' \<and> (\<forall>x. r = Inr x \<longrightarrow> Q x s')"
    using run m keepingD [OF assms(2)] by (cases r1) (auto simp: or_else_def)
qed

lemma keeping_simple: "keeping J (fail_with e) Q" "(\<And>s. J s \<Longrightarrow> Q x s) \<Longrightarrow> keeping J (done_with x) Q"
  by (simp_all add: keeping_def fail_with_def done_with_def)

lemma keeping_weaken: "keeping J m P \<Longrightarrow> (\<And>x s. P x s \<Longrightarrow> Q x s) \<Longrightarrow> keeping J m Q"
  unfolding keeping_def by blast

lemma keeping_on_timeout: "keeping J m Q \<Longrightarrow> keeping J again Q \<Longrightarrow> keeping J (on_timeout m again) Q"
  unfolding on_timeout_def by (rule keeping_or_else) (simp_all add: keeping_simple)

text \<open>An invariant that every step of a caller but a write keeps.\<close>

definition caller_keeps :: "'w host \<Rightarrow> (queues \<times> 'w \<Rightarrow> bool) \<Rightarrow> bool" where
  "caller_keeps h J \<longleftrightarrow>
     (\<forall>s. J s \<longrightarrow> J (catch_up h s)) \<and> (\<forall>q w c p q'. J (q, w) \<longrightarrow> queue_pop q c = Some (p, q') \<longrightarrow> J (q', w)) \<and>
     (\<forall>q w c. J (q, w) \<longrightarrow> J (q(c := []), w)) \<and> (\<forall>q w. J (q, w) \<longrightarrow> J (q, snd (host_stopped h w))) \<and>
     (\<forall>q w. J (q, w) \<longrightarrow> J (q, snd (host_now h w))) \<and> (\<forall>q w d. J (q, w) \<longrightarrow> J (q, host_wait h d w)) \<and>
     (\<forall>q w n. J (q, w) \<longrightarrow> J (q, host_sleep h n w))"

lemma caller_keepsD:
  assumes "caller_keeps h J"
  shows "J s \<Longrightarrow> J (catch_up h s)" "J (q, w) \<Longrightarrow> queue_pop q c = Some (p, q') \<Longrightarrow> J (q', w)"
    "J (q, w) \<Longrightarrow> J (q(c := []), w)" "J (q, w) \<Longrightarrow> J (q, snd (host_stopped h w))" "J (q, w) \<Longrightarrow> J (q, snd (host_now h w))"
    "J (q, w) \<Longrightarrow> J (q, host_wait h d w)" "J (q, w) \<Longrightarrow> J (q, host_sleep h n w)"
proof -
  note c = assms [unfolded caller_keeps_def]
  show "J s \<Longrightarrow> J (catch_up h s)" using c [THEN conjunct1] by blast
  note c = c [THEN conjunct2]
  show "J (q, w) \<Longrightarrow> queue_pop q c = Some (p, q') \<Longrightarrow> J (q', w)" using c [THEN conjunct1] by blast
  note c = c [THEN conjunct2]
  show "J (q, w) \<Longrightarrow> J (q(c := []), w)" using c [THEN conjunct1] by simp
  note c = c [THEN conjunct2]
  show "J (q, w) \<Longrightarrow> J (q, snd (host_stopped h w))" using c [THEN conjunct1] by simp
  note c = c [THEN conjunct2]
  show "J (q, w) \<Longrightarrow> J (q, snd (host_now h w))" using c [THEN conjunct1] by simp
  note c = c [THEN conjunct2]
  show "J (q, w) \<Longrightarrow> J (q, host_wait h d w)" using c [THEN conjunct1] by simp
  show "J (q, w) \<Longrightarrow> J (q, host_sleep h n w)" using c [THEN conjunct2] by simp
qed

lemma await_loop_keeps:
  assumes "await_loop h cmd deadline s = Some out"
  shows "caller_keeps h J \<longrightarrow> J s \<longrightarrow> J (snd out) \<and> (\<forall>p. fst out = Inr p \<longrightarrow>
    (\<exists>q q' w. J (q, w) \<and> queue_pop q cmd = Some (p, q') \<and> snd out = (q', w)))"
proof (rule await_loop.raw_induct [OF _ assms, where P = "\<lambda>h cmd deadline s out. caller_keeps h J \<longrightarrow> J s \<longrightarrow>
    J (snd out) \<and> (\<forall>p. fst out = Inr p \<longrightarrow> (\<exists>q q' w. J (q, w) \<and> queue_pop q cmd = Some (p, q') \<and> snd out = (q', w)))"],
    intro impI, goal_cases)
  case (1 loop h cmd deadline s out)
  note k = caller_keepsD [OF 1(3)]
  obtain q w where c: "catch_up h s = (q, w)" by (cases "catch_up h s")
  have j: "J (q, w)" using k(1) [OF 1(4)] c by simp
  show ?case
  proof (cases "queue_pop q cmd")
    case (Some pq)
    then obtain p q' where pop: "queue_pop q cmd = Some (p, q')" by (cases pq) auto
    then have "out = (Inr p, (q', w))" using 1(2) c by simp
    then show ?thesis using k(2) [OF j pop] j pop by auto
  next
    case None
    obtain stop w1 where st: "host_stopped h w = (stop, w1)" by (cases "host_stopped h w")
    obtain now w2 where n: "host_now h w1 = (now, w2)" by (cases "host_now h w1")
    have j1: "J (q, w1)" using k(4) [OF j] st by simp
    have j2: "J (q, w2)" using k(5) [OF j1] n by simp
    note step = 1(2) [unfolded c prod.case None option.case st n]
    show ?thesis
    proof (cases "stop \<or> now \<ge> deadline")
      case True
      then have "out = (Inl G_IO_ERROR_CLOSED, (q, w1)) \<or> out = (Inl G_IO_ERROR_TIMED_OUT, (q, w2))"
        using step by (auto split: if_splits)
      then show ?thesis using j1 j2 by auto
    next
      case False
      then have "loop h cmd deadline (q, host_wait h deadline w2) = Some out" using step by simp
      then show ?thesis using 1(1) 1(3) k(6) [OF j2] by blast
    qed
  qed
qed

lemma await_keeps:
  assumes "caller_keeps h J" and "\<And>q q' w p. J (q, w) \<Longrightarrow> queue_pop q cmd = Some (p, q') \<Longrightarrow> Q p (q', w)"
  shows "keeping J (gdix51c0_listener_await h cmd timeout) Q"
  unfolding keeping_def
proof (intro allI impI)
  fix s r s' assume j: "J s" and run: "gdix51c0_listener_await h cmd timeout s = Some (r, s')"
  obtain q w where s: "s = (q, w)" by (cases s)
  obtain now w1 where n: "host_now h w = (now, w1)" by (cases "host_now h w")
  have "await_loop h cmd (now + int timeout) (q, w1) = Some (r, s')"
    using run n s by (simp add: gdix51c0_listener_await_def)
  from await_loop_keeps [OF this, of J, THEN mp, OF assms(1)] have "J (q, w1) \<longrightarrow> J s' \<and> (\<forall>p. r = Inr p \<longrightarrow> (\<exists>q q' w. J (q, w) \<and> queue_pop q cmd = Some (p, q') \<and> s' = (q', w)))"
    by (simp only: fst_conv snd_conv)
  moreover have "J (q, w1)" using caller_keepsD(5) [OF assms(1), of q w] j s n by simp
  ultimately have out: "J s' \<and> (\<forall>p. r = Inr p \<longrightarrow> (\<exists>q q' w. J (q, w) \<and> queue_pop q cmd = Some (p, q') \<and> s' = (q', w)))" by (rule mp)
  show "J s' \<and> (\<forall>x. r = Inr x \<longrightarrow> Q x s')"
  proof (intro conjI allI impI)
    fix x assume "r = Inr x"
    then obtain q q' w where "J (q, w)" "queue_pop q cmd = Some (x, q')" "s' = (q', w)" using out by auto
    then show "Q x s'" using assms(2) by simp
  qed (use out in simp)
qed

lemma keeping_drain:
  assumes "caller_keeps h J" and "keeping J m Q"
  shows "keeping J (\<lambda>s. m (drain_cmd h cmd s)) Q"
proof (rule keepingI)
  fix s r s' assume j: "J s" and run: "m (drain_cmd h cmd s) = Some (r, s')"
  obtain q w where c: "catch_up h s = (q, w)" by (cases "catch_up h s")
  have "J (drain_cmd h cmd s)"
    using caller_keepsD(1) [OF assms(1) j] caller_keepsD(3) [OF assms(1)] c
    by (simp add: drain_cmd_def gdix51c0_listener_drain_cmd_def)
  from keepingD [OF assms(2) this run] show "J s' \<and> (\<forall>x. r = Inr x \<longrightarrow> Q x s')" .
qed

lemma keeping_write:
  assumes "caller_keeps h J" and "\<And>q w b. J (q, w) \<Longrightarrow> J (q, snd (host_write h b w))"
  shows "keeping J (gdix51c0_listener_write_internal h payload initial) (\<lambda>_ _. True)"
proof (rule keepingI)
  fix s r s' assume j: "J s" and run: "gdix51c0_listener_write_internal h payload initial s = Some (r, s')"
  obtain q w where s: "s = (q, w)" by (cases s)
  have "J (q, if initial then host_sleep h 1000 w else w)" using j s caller_keepsD(7) [OF assms(1)] by simp
  from assms(2) [OF this, of payload] show "J s' \<and> (\<forall>x. r = Inr x \<longrightarrow> True)"
    using run s
    by (cases "host_write h payload (if initial then host_sleep h 1000 w else w)") (simp add: gdix51c0_listener_write_internal_def)
qed

lemma keeping_send_ack:
  assumes "caller_keeps h J" and "\<And>q w b. J (q, w) \<Longrightarrow> J (q, snd (host_write h b w))"
  shows "keeping J (gdix51c0_listener_send_ack h payload) (\<lambda>_ _. True)"
proof -
  have wait: "keeping J (and_then (gdix51c0_listener_await h PKT_READ 1000000) (\<lambda>_. done_with ())) (\<lambda>_ _. True)"
    by (rule keeping_and_then [OF await_keeps [OF assms(1), where Q = "\<lambda>_ _. True"]]) (simp_all add: keeping_simple)
  have submit: "keeping J (submit_and_wait h payload initial again) (\<lambda>_ _. True)" if "keeping J again (\<lambda>_ _. True)" for initial again
    unfolding submit_and_wait_def by (intro keeping_and_then [OF keeping_write] keeping_on_timeout wait that assms) 
  have "keeping J (\<lambda>s. submit_and_wait h payload True (submit_and_wait h payload False (fail_with G_IO_ERROR_TIMED_OUT))
      (drain_cmd h PKT_READ s)) (\<lambda>_ _. True)"
    by (intro keeping_drain submit keeping_simple assms(1))
  then show ?thesis by (simp add: keeping_def gdix51c0_listener_send_ack_def)
qed

lemma keeping_command:
  assumes "caller_keeps h J" and "\<And>q w b. J (q, w) \<Longrightarrow> J (q, snd (host_write h b w))"
    and "\<And>q q' w p. J (q, w) \<Longrightarrow> queue_pop q cmd = Some (p, q') \<Longrightarrow> Q p (q', w)"
  shows "keeping J (gdix51c0_listener_command h payload cmd timeout) Q"
proof -
  have attempt: "keeping J (command_attempt h payload cmd timeout again) Q" if "keeping J again Q" for again
  proof -
    have "keeping J (\<lambda>s. and_then (gdix51c0_listener_send_ack h payload)
        (\<lambda>_. on_timeout (gdix51c0_listener_await h cmd timeout) again) (drain_cmd h cmd s)) Q"
      by (intro keeping_drain keeping_and_then [OF keeping_send_ack] keeping_on_timeout await_keeps that assms)
    then show ?thesis by (simp add: keeping_def command_attempt_def)
  qed
  show ?thesis unfolding gdix51c0_listener_command_def by (intro attempt keeping_simple)
qed

section \<open>Properties\<close>

text \<open>The states the queues can be in: every step is a dispatch of a packet that is not empty, a take, or a drain.\<close>

inductive listener_reachable :: "queues \<Rightarrow> bool" where
  Start: "listener_reachable listener_new"
| Dispatch: "listener_reachable q \<Longrightarrow> payload \<noteq> [] \<Longrightarrow> listener_reachable (dispatch q payload)"
| Take: "listener_reachable q \<Longrightarrow> queue_pop q cmd = Some (p, q') \<Longrightarrow> listener_reachable q'"
| Drain_Cmd: "listener_reachable q \<Longrightarrow> listener_reachable (gdix51c0_listener_drain_cmd q cmd)"
| Drain_All: "listener_reachable q \<Longrightarrow> listener_reachable (gdix51c0_listener_drain_all q)"

definition queues_ok :: "queues \<Rightarrow> bool" where
  "queues_ok q \<longleftrightarrow> (\<forall>cmd. length (q cmd) \<le> LISTENER_QUEUE_CAP \<and> (\<forall>p. p \<in> set (q cmd) \<longrightarrow> p \<noteq> [] \<and> p ! 0 = cmd))"

lemma queues_ok_dispatch:
  assumes "queues_ok q" and "payload \<noteq> []"
  shows "queues_ok (dispatch q payload)"
proof -
  have "set (newest n xs) \<subseteq> set xs" for n and xs :: "bytes list" by (simp add: newest_def set_drop_subset)
  then have "p \<in> set (dispatch q payload cmd) \<Longrightarrow> p \<in> set (q cmd) \<or> p = payload \<and> payload ! 0 = cmd" for p cmd
    using assms(1) command_queue.view_put [of q cmd payload]
    unfolding dispatch_at [of q payload cmd] queues_ok_def by (fastforce split: if_splits)
  moreover have "length (dispatch q payload cmd) \<le> LISTENER_QUEUE_CAP" for cmd
    using assms(1) command_queue.length_view_put [of q cmd payload] unfolding dispatch_at [of q payload cmd] queues_ok_def by simp
  ultimately show ?thesis using assms unfolding queues_ok_def by blast
qed

lemma reachable_queues_ok: "listener_reachable q \<Longrightarrow> queues_ok q"
proof (induction rule: listener_reachable.induct)
  case (Take q cmd p q')
  then obtain rest where eq: "q cmd = p # rest" "q' = q(cmd := rest)" by (auto simp: queue_pop_def split: list.splits)
  have h: "length (q c) \<le> LISTENER_QUEUE_CAP \<and> (\<forall>x. x \<in> set (q c) \<longrightarrow> x \<noteq> [] \<and> x ! 0 = c)" for c
    using Take.IH by (simp add: queues_ok_def)
  show ?case unfolding queues_ok_def
  proof
    fix c show "length (q' c) \<le> LISTENER_QUEUE_CAP \<and> (\<forall>x. x \<in> set (q' c) \<longrightarrow> x \<noteq> [] \<and> x ! 0 = c)"
      using h [of c] eq by (cases "c = cmd") simp_all
  qed
qed (auto simp: queues_ok_dispatch, auto simp: queues_ok_def listener_new_def gdix51c0_listener_drain_cmd_def gdix51c0_listener_drain_all_def)

lemma drain_reachable:
  assumes "listener_drain_irq_high k g q w = Some out"
  shows "listener_reachable q \<longrightarrow> listener_reachable (fst out)"
proof (rule listener_drain_irq_high.raw_induct [OF _ assms, where P = "\<lambda>k g q w out. listener_reachable q \<longrightarrow> listener_reachable (fst out)"],
    intro impI, goal_cases)
  case (1 loop k g q w out)
  have later: "listener_reachable q1 \<Longrightarrow> listener_reachable (fst out)" if "loop k g q1 w1 = Some out" for q1 w1
    using 1(1) [OF that] by simp
  show ?case
    using 1(2,3) by (auto split: prod.splits if_splits option.splits sum.splits intro: later Dispatch)
qed

lemma loop_reachable:
  assumes "listener_loop k g poll q w = Some out"
  shows "listener_reachable q \<longrightarrow> listener_reachable (fst out)"
proof (rule listener_loop.raw_induct [OF _ assms, where P = "\<lambda>k g poll q w out. listener_reachable q \<longrightarrow> listener_reachable (fst out)"],
    intro impI, goal_cases)
  case (1 loop k g poll q w out)
  have later: "listener_reachable (fst out)" if "loop k g poll q1 w1 = Some out" "listener_reachable q1" for q1 w1
    using 1(1) [OF that(1)] that(2) by simp
  have drained: "listener_reachable q1" if "listener_drain_irq_high k g q w1 = Some (q1, w2)" for q1 w1 w2
    using drain_reachable [OF that] 1(3) by simp
  show ?case
    using 1(2,3) by (auto split: prod.splits if_splits option.splits polled.splits intro: later drained)
qed

text \<open>C24: Whatever the device sends, when the listener thread ends its queues are in a reachable state, and in every
  reachable state, so for any interleaving of dispatches with callers that take or drain packets, no queue
  holds more than 16 packets and every packet is in the queue of its own first byte.\<close>

theorem listener_queues_ok:
  assumes "listener_thread_main k g poll listener_new w = Some (q, w')" and "listener_reachable q'"
  shows "listener_reachable q \<and> queues_ok q \<and> queues_ok q'"
proof -
  obtain q1 w1 where d: "listener_drain_irq_high k g listener_new w = Some (q1, w1)" "listener_loop k g poll q1 w1 = Some (q, w')"
    using assms(1) by (auto simp: listener_thread_main_def split: option.splits)
  have "listener_reachable q"
    using drain_reachable [OF d(1)] loop_reachable [OF d(2)] Start by simp
  then show ?thesis using assms(2) by (simp add: reachable_queues_ok)
qed
text \<open>C26: The queue of a command byte is a bounded FIFO of the packets that start with it: after any dispatches it
  holds the newest 16 of what it held and of the dispatched packets of that byte, in their order, whatever
  other packets came between them, and a caller takes the oldest of them.\<close>

theorem listener_keeps_newest:
  assumes "listener_reachable q"
  shows "foldl dispatch q ps cmd = newest 16 (q cmd @ filter (\<lambda>p. p ! 0 = cmd) ps) \<and>
    (queue_pop (foldl dispatch q ps) cmd = Some (p, q') \<longrightarrow>
      newest 16 (q cmd @ filter (\<lambda>p. p ! 0 = cmd) ps) = p # q' cmd)"
proof -
  have "length (q cmd) \<le> 16" using reachable_queues_ok [OF assms] by (simp add: queues_ok_def)
  then have "foldl dispatch q ps cmd = newest 16 (q cmd @ filter (\<lambda>p. p ! 0 = cmd) ps)" by (rule dispatched_at)
  then show ?thesis using command_queue.take_some [of "foldl dispatch q ps" cmd p q'] by simp
qed

theorem listener_keeps_newest_witness:
  "foldl dispatch listener_new [[0xb0, 1], [0x32, 2], [0xb0, 3]] 0xb0 = [[0xb0, 1], [0xb0, 3]]"
  using listener_keeps_newest [OF Start, of "[[0xb0, 1], [0x32, 2], [0xb0, 3]]" "0xb0"] by (simp add: listener_new_def newest_def)

text \<open>\<open>seen\<close> is the history of the dispatched packets.\<close>

definition records_arrivals :: "'w host \<Rightarrow> ('w \<Rightarrow> bytes list) \<Rightarrow> bool" where
  "records_arrivals h seen \<longleftrightarrow>
     (\<forall>w. seen (snd (host_arrivals h w)) = seen w @ fst (host_arrivals h w)) \<and>
     (\<forall>w. seen (snd (host_stopped h w)) = seen w) \<and> (\<forall>w. seen (snd (host_now h w)) = seen w) \<and>
     (\<forall>d w. seen (host_wait h d w) = seen w) \<and> (\<forall>n w. seen (host_sleep h n w) = seen w) \<and>
     (\<forall>b w. seen (snd (host_write h b w)) = seen w)"

lemma dispatched_from:
  "p \<in> set (foldl dispatch q ps cmd) \<Longrightarrow> p \<in> set (q cmd) \<or> p \<in> set ps \<and> p ! 0 = cmd"
proof (induction ps arbitrary: q)
  case (Cons x ps)
  have "p \<in> set (dispatch q x cmd) \<Longrightarrow> p \<in> set (q cmd) \<or> p = x \<and> x ! 0 = cmd"
    unfolding dispatch_def listener_enqueue_locked_def Let_def by (auto split: if_splits dest: list.set_sel(2) [rotated])
  then show ?case using Cons by auto
qed simp

text \<open>What the queue of the response can hold after it was drained when \<open>n\<close> packets had been seen.\<close>

definition only_fresh :: "('w \<Rightarrow> bytes list) \<Rightarrow> byte \<Rightarrow> nat \<Rightarrow> queues \<times> 'w \<Rightarrow> bool" where
  "only_fresh seen cmd n = (\<lambda>(q, w). n \<le> length (seen w) \<and> (\<forall>p. p \<in> set (q cmd) \<longrightarrow> p \<in> set (drop n (seen w)) \<and> p ! 0 = cmd))"

lemma only_fresh_kept:
  assumes "records_arrivals h seen"
  shows "caller_keeps h (only_fresh seen cmd n)"
proof -
  note seen = assms [unfolded records_arrivals_def]
  have "only_fresh seen cmd n (catch_up h s)" if "only_fresh seen cmd n s" for s
  proof -
    obtain q w where s: "s = (q, w)" by (cases s)
    obtain ps w' where a: "host_arrivals h w = (ps, w')" by (cases "host_arrivals h w")
    have "seen w' = seen w @ ps" using seen a by (metis fst_conv snd_conv)
    then show ?thesis
      using that a dispatched_from [of _ q ps cmd] unfolding s only_fresh_def catch_up_def by fastforce
  qed
  then show ?thesis
    using seen unfolding caller_keeps_def
    by (auto simp: only_fresh_def queue_pop_def split: list.splits if_splits)
qed

text \<open>A host that plays a script: what arrives each time the lock is taken. Its clock ticks at every wait; writes are counted.\<close>

definition script_host :: "(bytes list list \<times> bytes list \<times> int \<times> nat) host" where
  "script_host =
     \<lparr> host_arrivals = (\<lambda>(script, seen, t, n). case script of [] \<Rightarrow> ([], ([], seen, t, n)) | ps # script' \<Rightarrow> (ps, (script', seen @ ps, t, n))),
       host_stopped = (\<lambda>w. (False, w)), host_now = (\<lambda>(script, seen, t, n). (t, (script, seen, t, n))),
       host_wait = (\<lambda>d (script, seen, t, n). (script, seen, t + 1000, n)), host_sleep = (\<lambda>u w. w),
       host_write = (\<lambda>b (script, seen, t, n). (Inr (), (script, seen, t, n + 1))) \<rparr>"

lemma script_run:
  "gdix51c0_listener_command script_host [0x36, 0] 0x36 500000 (listener_new(0x36 := [[0x36, 1]]), ([[[0x36, 2]], [], [[0xb0]], [], [[0x36, 3]]], [], 0, 0)) =
    Some (Inr [0x36, 3], (listener_new, ([], [[0x36, 2], [0xb0], [0x36, 3]], 1000, 1)))"
  by (simp add: gdix51c0_listener_command_def command_attempt_def gdix51c0_listener_send_ack_def submit_and_wait_def
      gdix51c0_listener_write_internal_def gdix51c0_listener_await_def await_loop.simps drain_cmd_def catch_up_def
      gdix51c0_listener_drain_cmd_def queue_pop_def dispatch_def listener_enqueue_locked_def listener_new_def on_timeout_def
      and_then_def or_else_def done_with_def script_host_def fun_eq_iff)


text \<open>A counter of the writes, and a clock that ticks at every wait.\<close>

definition host_counts :: "'w host \<Rightarrow> ('w \<Rightarrow> nat) \<Rightarrow> bool" where
  "host_counts h f \<longleftrightarrow>
     (\<forall>w. f (snd (host_arrivals h w)) \<le> f w) \<and> (\<forall>w. f (snd (host_stopped h w)) \<le> f w) \<and> (\<forall>w. f (snd (host_now h w)) \<le> f w) \<and>
     (\<forall>d w. f (host_wait h d w) \<le> f w) \<and> (\<forall>n w. f (host_sleep h n w) \<le> f w) \<and> (\<forall>b w. f (snd (host_write h b w)) \<le> f w + 1)"

definition host_clock :: "'w host \<Rightarrow> ('w \<Rightarrow> int) \<Rightarrow> bool" where
  "host_clock h clock \<longleftrightarrow>
     (\<forall>w. fst (host_now h w) = clock w) \<and> (\<forall>w. clock (snd (host_now h w)) \<ge> clock w) \<and>
     (\<forall>w. clock (snd (host_arrivals h w)) \<ge> clock w) \<and> (\<forall>w. clock (snd (host_stopped h w)) \<ge> clock w) \<and>
     (\<forall>d w. clock (host_wait h d w) > clock w)"

lemma counts_kept: "host_counts h f \<Longrightarrow> caller_keeps h (\<lambda>(q, w). f w \<le> n)"
  unfolding host_counts_def caller_keeps_def catch_up_def
  by (auto split: prod.split intro: order_trans) (metis le_trans snd_conv)+

lemma raises_kept:
  assumes "\<And>n. keeping (\<lambda>(q, w). f w \<le> n) m (\<lambda>_ _. True)"
  shows "raises (\<lambda>(q, w). f w) 0 m"
  unfolding raises_def
proof (intro allI impI)
  fix s r s' assume "m s = Some (r, s')"
  from keepingD [OF assms [of "case s of (q, w) \<Rightarrow> f w"] _ this]
  show "(case s' of (q, w) \<Rightarrow> f w) \<le> (case s of (q, w) \<Rightarrow> f w) + 0" by (cases s; cases s') simp
qed

lemma raises_drained:
  assumes "host_counts h f" and "raises (\<lambda>(q, w). f w) n m"
  shows "raises (\<lambda>(q, w). f w) n (\<lambda>s. m (drain_cmd h cmd s))"
proof -
  have "(case drain_cmd h cmd s of (q, w) \<Rightarrow> f w) \<le> (case s of (q, w) \<Rightarrow> f w)" for s
    using assms(1) unfolding host_counts_def
    by (cases s; cases "host_arrivals h (snd s)") (auto simp: drain_cmd_def catch_up_def, metis snd_conv)
  then show ?thesis using assms(2) unfolding raises_def by (meson add_le_mono1 le_trans)
qed

lemma raises_on_timeout:
  assumes "raises f a m" and "raises f b again"
  shows "raises f (a + b) (on_timeout m again)"
proof -
  have "raises f b (if e = G_IO_ERROR_TIMED_OUT then again else fail_with e)" for e
    by (cases "e = G_IO_ERROR_TIMED_OUT") (simp_all add: assms(2) raises_mono [OF raises_fail])
  then show ?thesis unfolding on_timeout_def by (rule raises_or_else [OF assms(1)])
qed

lemma raises_await: "host_counts h f \<Longrightarrow> raises (\<lambda>(q, w). f w) 0 (gdix51c0_listener_await h cmd timeout)"
  by (rule raises_kept) (rule await_keeps [OF counts_kept], simp_all)

lemma raises_send_ack_listener:
  assumes "host_counts h f"
  shows "raises (\<lambda>(q, w). f w) 2 (gdix51c0_listener_send_ack h payload)"
proof -
  let ?f = "\<lambda>(q :: queues, w). f w"
  have wr: "raises ?f 1 (gdix51c0_listener_write_internal h payload initial)" for initial
    unfolding raises_def
  proof (intro allI impI)
    fix s r s' assume run: "gdix51c0_listener_write_internal h payload initial s = Some (r, s')"
    obtain q w where s: "s = (q, w)" by (cases s)
    have "f (snd (host_write h payload (if initial then host_sleep h 1000 w else w))) \<le> f w + 1"
      using assms unfolding host_counts_def by (metis (full_types) add_le_mono1 le_trans order_refl)
    then show "?f s' \<le> ?f s + 1"
      using run s by (cases "host_write h payload (if initial then host_sleep h 1000 w else w)")
        (auto simp: gdix51c0_listener_write_internal_def)
  qed
  have wait: "raises ?f (0 + 0) (and_then (gdix51c0_listener_await h PKT_READ 1000000) (\<lambda>_. done_with ()))"
    by (rule raises_and_then [OF raises_await [OF assms] raises_done])
  have submit: "raises ?f (1 + ((0 + 0) + n)) (submit_and_wait h payload initial again)" if "raises ?f n again" for n initial again
    unfolding submit_and_wait_def by (rule raises_and_then [OF wr raises_on_timeout [OF wait that]])
  have "raises ?f (1 + ((0 + 0) + (1 + ((0 + 0) + 0)))) (\<lambda>s. submit_and_wait h payload True
      (submit_and_wait h payload False (fail_with G_IO_ERROR_TIMED_OUT)) (drain_cmd h PKT_READ s))"
    by (intro raises_drained submit raises_fail assms)
  then show ?thesis by (simp add: raises_def gdix51c0_listener_send_ack_def)
qed

lemma await_loop_returns:
  assumes "host_clock h clock"
  shows "await_loop h cmd deadline (q, w) \<noteq> None"
proof (induction "nat (deadline - clock w)" arbitrary: q w rule: less_induct)
  case less
  note clock = assms [unfolded host_clock_def]
  obtain q1 w1 where c: "catch_up h (q, w) = (q1, w1)" by (cases "catch_up h (q, w)")
  obtain stop w2 where s: "host_stopped h w1 = (stop, w2)" by (cases "host_stopped h w1")
  obtain now w3 where n: "host_now h w2 = (now, w3)" by (cases "host_now h w2")
  have "clock w \<le> clock w1" using clock c by (metis (no_types, lifting) catch_up_def case_prod_conv old.prod.exhaust snd_conv)
  moreover have "clock w1 \<le> clock w2" using clock s by (metis snd_conv)
  moreover have "now = clock w2" "clock w2 \<le> clock w3" using clock n by (metis fst_conv, metis snd_conv)
  moreover have "clock w3 < clock (host_wait h deadline w3)" using clock by blast
  ultimately have "now < deadline \<Longrightarrow> nat (deadline - clock (host_wait h deadline w3)) < nat (deadline - clock w)" by linarith
  then have "now < deadline \<Longrightarrow> await_loop h cmd deadline (q1, host_wait h deadline w3) \<noteq> None" by (rule less)
  then show ?case by (subst await_loop.simps) (simp add: c s n split: option.split)
qed

lemma await_returns: "host_clock h clock \<Longrightarrow> returns (gdix51c0_listener_await h cmd timeout)"
  using await_loop_returns [of h clock] by (auto simp: returns_def gdix51c0_listener_await_def split: prod.split)

lemma returns_drained: "returns m \<Longrightarrow> returns (\<lambda>s. m (drain_cmd h cmd s))"
  unfolding returns_def by blast

lemma returns_on_timeout: "returns m \<Longrightarrow> returns again \<Longrightarrow> returns (on_timeout m again)"
  unfolding on_timeout_def by (rule returns_or_else) (auto simp: returns_simple)

lemma send_ack_returns:
  assumes "host_clock h clock"
  shows "returns (gdix51c0_listener_send_ack h payload)"
proof -
  have wr: "returns (gdix51c0_listener_write_internal h payload initial)" for initial
    by (simp add: returns_def gdix51c0_listener_write_internal_def split: prod.split)
  have "returns (submit_and_wait h payload initial again)" if "returns again" for initial again
    unfolding submit_and_wait_def
    by (intro returns_and_then wr returns_on_timeout await_returns [OF assms] returns_simple that)
  then have "returns (submit_and_wait h payload True (submit_and_wait h payload False (fail_with G_IO_ERROR_TIMED_OUT)))"
    by (simp add: returns_simple)
  from returns_drained [OF this] show ?thesis unfolding returns_def gdix51c0_listener_send_ack_def .
qed

text \<open>C25: With a clock that advances while a caller waits every command of the listener returns, after at most four
  writes: each of its two attempts submits the command at most twice.\<close>

theorem listener_command_bounded:
  assumes "host_clock h clock" and "host_counts h writes"
  shows "returns (gdix51c0_listener_command h payload cmd timeout) \<and>
    raises (\<lambda>(q, w). writes w) 4 (gdix51c0_listener_command h payload cmd timeout) \<and>
    raises (\<lambda>(q, w). writes w) 2 (gdix51c0_listener_send_ack h payload)"
proof (intro conjI)
  have "returns (command_attempt h payload cmd timeout again)" if "returns again" for again
  proof -
    have "returns (and_then (gdix51c0_listener_send_ack h payload) (\<lambda>_. on_timeout (gdix51c0_listener_await h cmd timeout) again))"
      by (intro returns_and_then send_ack_returns [OF assms(1)] returns_on_timeout await_returns [OF assms(1)] that)
    from returns_drained [OF this] show ?thesis unfolding returns_def command_attempt_def .
  qed
  then show "returns (gdix51c0_listener_command h payload cmd timeout)"
    by (simp add: gdix51c0_listener_command_def returns_simple)
  have attempt: "raises (\<lambda>(q, w). writes w) (2 + (0 + n)) (command_attempt h payload cmd timeout again)"
    if "raises (\<lambda>(q, w). writes w) n again" for n again
  proof -
    have "raises (\<lambda>(q, w). writes w) (2 + (0 + n)) (\<lambda>s. and_then (gdix51c0_listener_send_ack h payload)
        (\<lambda>_. on_timeout (gdix51c0_listener_await h cmd timeout) again) (drain_cmd h cmd s))"
      by (intro raises_drained raises_and_then raises_send_ack_listener raises_on_timeout raises_await that assms(2))
    then show ?thesis by (simp add: raises_def command_attempt_def)
  qed
  have "raises (\<lambda>(q, w). writes w) (2 + (0 + (2 + (0 + 0)))) (gdix51c0_listener_command h payload cmd timeout)"
    unfolding gdix51c0_listener_command_def by (intro attempt raises_fail)
  then show "raises (\<lambda>(q, w). writes w) 4 (gdix51c0_listener_command h payload cmd timeout)" by simp
  show "raises (\<lambda>(q, w). writes w) 2 (gdix51c0_listener_send_ack h payload)" by (rule raises_send_ack_listener [OF assms(2)])
qed

theorem listener_command_bounded_witness:
  "returns (gdix51c0_listener_command script_host [0x36, 0] 0x36 500000) \<and>
    raises (\<lambda>(q, script, seen, t, n). n) 4 (gdix51c0_listener_command script_host [0x36, 0] 0x36 500000)"
proof -
  have "host_clock script_host (\<lambda>(script, seen, t, n). t)" "host_counts script_host (\<lambda>(script, seen, t, n). n)"
    by (auto simp: host_clock_def host_counts_def script_host_def split: list.splits)
  from listener_command_bounded [OF this] show ?thesis by simp
qed

theorem listener_queues_ok_witness:
  "\<exists>w'. listener_thread_main queue_kernel \<lparr> flag_stop = (\<lambda>w. (snd w = [[]], w)), flag_suppress = (\<lambda>w. (False, w)) \<rparr>
      (\<lambda>w. (Poll_Woken, w)) listener_new (0, [[0xb0, 1, 0, 0xb1, 0x36]]) = Some (dispatch listener_new [0x36], w') \<and>
    queues_ok (dispatch listener_new [0x36])"
proof -
  let ?g = "\<lparr> flag_stop = (\<lambda>w. (snd w = [[]], w)), flag_suppress = (\<lambda>w. (False, w)) \<rparr> :: (nat \<times> bytes list) flags"
  have read: "gdix51c0_spi_read_typed queue_kernel (0, [[0xb0, 1, 0, 0xb1, 0x36]]) = Some (Inr (0xb0, [0x36]), (0, [[]]))"
    by (simp add: gdix51c0_spi_read_typed_def xfer_read_once queue_kernel_simps and_then_def call_def done_with_def
        all_zero_def all_ff_def le16_at_def)
  have level: "bus_level queue_kernel (0, [[0xb0, 1, 0, 0xb1, 0x36]]) = (Inr True, (0, [[0xb0, 1, 0, 0xb1, 0x36]]))"
    by (simp add: queue_kernel_def)
  have "listener_drain_irq_high queue_kernel ?g q (0, [[]]) = Some (q, (0, [[]]))" for q
    by (subst listener_drain_irq_high.simps) simp
  then have "listener_drain_irq_high queue_kernel ?g listener_new (0, [[0xb0, 1, 0, 0xb1, 0x36]]) =
      Some (dispatch listener_new [0x36], (0, [[]]))"
    by (subst listener_drain_irq_high.simps) (simp add: read level)
  moreover have "listener_loop queue_kernel ?g (\<lambda>w. (Poll_Woken, w)) q (0, [[]]) = Some (q, (0, [[]]))" for q
    by (subst listener_loop.simps) simp
  ultimately have run: "listener_thread_main queue_kernel ?g (\<lambda>w. (Poll_Woken, w)) listener_new (0, [[0xb0, 1, 0, 0xb1, 0x36]]) =
      Some (dispatch listener_new [0x36], (0, [[]]))"
    by (simp add: listener_thread_main_def)
  then show ?thesis using listener_queues_ok [OF run Start] by blast
qed

end
