(* ===== verification/Gdix_Tls.thy ===== *)
theory Gdix_Tls
  imports Gdix_Bus
begin

text \<open>
  The TLS layer of the driver (gdix51c0-tls.c): the transport OpenSSL reads from and writes to, the repairs of
  inbound packets, the progress of the client's flight, the handshake with its one retry, and the decryption
  of a record.

  OpenSSL is a parameter: an engine that, once asked to accept or to read, makes requests (bytes of the
  transport, bytes to the transport, the key of an identity) until it is done or has failed. What its
  allocations do is part of the world. Messages are left out.
\<close>

section \<open>Inbound packets\<close>

abbreviation (input) BOOT_TIMEOUT_USEC :: nat where "BOOT_TIMEOUT_USEC \<equiv> 3 * 1000 * 1000"
abbreviation (input) PSK_IDENTITY :: string where "PSK_IDENTITY \<equiv> ''Client_identity''"

definition gdix51c0_cke_header :: bytes where
  "gdix51c0_cke_header = [0x16, 0x03, 0x03, 0x00, 0x15, 0x10, 0x00, 0x00, 0x11, 0x00, 0x0f]"

definition gdix51c0_cke_identity :: bytes where
  "gdix51c0_cke_identity = map (\<lambda>c. of_nat (of_char c)) PSK_IDENTITY"

definition patch_change_cipher_spec :: "bytes \<Rightarrow> bytes" where
  "patch_change_cipher_spec buf =
     (if length buf \<ge> 6 \<and> take 6 buf = [0x14, 0x03, 0x03, 0x00, 0x00, 0x00] then buf[4 := 0x01, 5 := 0x01] else buf)"

definition patch_identity :: "bytes \<Rightarrow> bytes" where
  "patch_identity buf =
     (if length buf \<ge> 26 \<and> take 11 buf = gdix51c0_cke_header \<and> take 15 (drop 11 buf) \<noteq> gdix51c0_cke_identity
      then write_at buf 11 gdix51c0_cke_identity else buf)"

definition gdix51c0_patch_inbound :: "bytes \<Rightarrow> bytes" where
  "gdix51c0_patch_inbound buf = patch_identity (patch_change_cipher_spec buf)"

text \<open>What the client has shown of its flight.\<close>

record flight =
  handshake_saw_client_hello :: bool
  handshake_saw_client_key_exchange :: bool
  handshake_saw_change_cipher_spec :: bool

definition no_flight :: flight where
  "no_flight = \<lparr> handshake_saw_client_hello = False, handshake_saw_client_key_exchange = False,
     handshake_saw_change_cipher_spec = False \<rparr>"

definition complete_client_flight :: "flight \<Rightarrow> bool" where
  "complete_client_flight p \<longleftrightarrow>
     handshake_saw_client_hello p \<and> handshake_saw_client_key_exchange p \<and> handshake_saw_change_cipher_spec p"

definition note_record :: "byte \<Rightarrow> nat \<Rightarrow> bool \<Rightarrow> byte \<Rightarrow> flight \<Rightarrow> flight" where
  "note_record content_type record_len whole handshake_type p =
     (if content_type = 0x14 then p\<lparr> handshake_saw_change_cipher_spec := True \<rparr>
      else if content_type = 0x16 \<and> record_len \<ge> 4 \<and> whole then
        if handshake_type = 0x01 then p\<lparr> handshake_saw_client_hello := True \<rparr>
        else if handshake_type = 0x10 then p\<lparr> handshake_saw_client_key_exchange := True \<rparr> else p
      else p)"

text \<open>The records from the offset on.\<close>

function gdix51c0_note_handshake_progress :: "bytes \<Rightarrow> flight \<Rightarrow> flight" where
  "gdix51c0_note_handshake_progress buf p =
     (if length buf < 5 then p
      else
        let record_len = unat (buf ! 3) * 2 ^ 8 + unat (buf ! 4);
            whole = (5 + record_len \<le> length buf);
            p' = note_record (buf ! 0) record_len whole (buf ! 5) p
        in if record_len = 0 \<or> \<not> whole then p' else gdix51c0_note_handshake_progress (drop (5 + record_len) buf) p')"
  by pat_completeness auto
termination by (relation "measure (\<lambda>(buf, p). length buf)") auto

declare gdix51c0_note_handshake_progress.simps [simp del]

section \<open>The transport\<close>

text \<open>\<open>rd_buf\<close> is what OpenSSL has not read yet of the last packet.\<close>

record 'ssl tls =
  tls_ctx :: bool
  tls_ssl :: "'ssl option"
  rd_buf :: bytes
  tls_flight :: flight
  tls_psk :: bytes

text \<open>An action on the bus, next to another state.\<close>

definition on_bus :: "('w, 'a) action \<Rightarrow> ('t \<times> 'w, 'a) action" where
  "on_bus m = (\<lambda>(t, w). case m w of None \<Rightarrow> None | Some (r, w') \<Rightarrow> Some (r, (t, w')))"

definition ignoring :: "('w, unit) action \<Rightarrow> ('w, unit) action" where
  "ignoring m = or_else m (\<lambda>_. done_with ())"

text \<open>The results are those of the callbacks, a length or -1, and the bytes read.\<close>

definition gdix51c0_bio_write :: "'w kernel \<Rightarrow> bytes \<Rightarrow> ('ssl tls \<times> 'w, int) action" where
  "gdix51c0_bio_write k buf =
     on_bus (or_else (and_then (gdix51c0_spi_write k PKT_READ buf) (\<lambda>_. done_with (int (length buf)))) (\<lambda>_. done_with (- 1)))"

text \<open>One packet from the device, with one retry after the line has been idle.\<close>

definition bio_refill :: "'w kernel \<Rightarrow> ('w, bytes) action" where
  "bio_refill k =
     and_then (gdix51c0_irq_wait k True BOOT_TIMEOUT_USEC) (\<lambda>_.
     and_then (or_else (gdix51c0_spi_read k) (\<lambda>_.
       and_then (gdix51c0_irq_drain k) (\<lambda>_.
       and_then (ignoring (gdix51c0_irq_wait k False 500000)) (\<lambda>_.
       and_then (gdix51c0_irq_drain k) (\<lambda>_.
       and_then (gdix51c0_irq_wait k True BOOT_TIMEOUT_USEC) (\<lambda>_. gdix51c0_spi_read k)))))) (\<lambda>pkt.
     and_then (ignoring (gdix51c0_irq_wait k False BOOT_TIMEOUT_USEC)) (\<lambda>_. done_with pkt)))"

definition bio_deliver :: "nat \<Rightarrow> 'ssl tls \<times> 'w \<Rightarrow> (bytes option result \<times> 'ssl tls \<times> 'w) option" where
  "bio_deliver len = (\<lambda>(t, w). Some (Inr (Some (take len (rd_buf t))), (t\<lparr> rd_buf := drop len (rd_buf t) \<rparr>, w)))"

definition gdix51c0_bio_read :: "'w kernel \<Rightarrow> nat \<Rightarrow> ('ssl tls \<times> 'w, bytes option) action" where
  "gdix51c0_bio_read k len = (\<lambda>(t, w).
     if rd_buf t \<noteq> [] then bio_deliver len (t, w)
     else case bio_refill k w of
       None \<Rightarrow> None
     | Some (Inl e, w') \<Rightarrow> Some (Inr None, (t, w'))
     | Some (Inr pkt, w') \<Rightarrow>
         bio_deliver len (t\<lparr> tls_flight := gdix51c0_note_handshake_progress pkt (tls_flight t),
                             rd_buf := gdix51c0_patch_inbound pkt \<rparr>, w'))"

text \<open>The key for an identity; nothing when it is refused.\<close>

definition gdix51c0_psk_server_cb :: "'ssl tls \<Rightarrow> string option \<Rightarrow> nat \<Rightarrow> bytes" where
  "gdix51c0_psk_server_cb t identity max_len =
     (if identity \<noteq> Some PSK_IDENTITY then []
      else if tls_psk t = [] \<or> length (tls_psk t) > max_len then []
      else tls_psk t)"

section \<open>OpenSSL\<close>

datatype ssl_error = SSL_ERROR_SSL | SSL_ERROR_OTHER nat

datatype ssl_reason =
    SSL_R_DECRYPTION_FAILED_OR_BAD_RECORD_MAC | SSL_R_DECRYPTION_FAILED | SSL_R_RECORD_LAYER_FAILURE | SSL_R_OTHER nat

datatype ssl_request =
    Want_Read nat
  | Want_Write bytes
  | Want_Psk "string option" nat
  | Ssl_Done bytes
  | Ssl_Failed ssl_error "ssl_reason list"

datatype ssl_reply = Read_Reply "bytes option" | Write_Reply int | Psk_Reply bytes

text \<open>\<open>ossl_accept\<close> and \<open>ossl_read\<close> start an operation of an engine, \<open>ossl_reply\<close> continues it; the queue of
  errors after a failure is part of the request that ends it.\<close>

record ('ssl, 'w) openssl =
  ossl_ctx_new :: "'w \<Rightarrow> bool \<times> 'w"
  ossl_set_cipher_list :: "'w \<Rightarrow> bool \<times> 'w"
  ossl_new :: "'w \<Rightarrow> 'ssl option \<times> 'w"
  ossl_bio_new :: "'w \<Rightarrow> bool \<times> 'w"
  ossl_accept :: "'ssl \<Rightarrow> 'ssl \<times> ssl_request"
  ossl_read :: "nat \<Rightarrow> 'ssl \<Rightarrow> 'ssl \<times> ssl_request"
  ossl_reply :: "ssl_reply \<Rightarrow> 'ssl \<Rightarrow> 'ssl \<times> ssl_request"

text \<open>Running an operation to its end.\<close>

partial_function (option) ssl_run ::
    "'w kernel \<Rightarrow> ('ssl, 'w) openssl \<Rightarrow> 'ssl \<times> ssl_request \<Rightarrow> ('ssl tls \<times> 'w, 'ssl \<times> ssl_request) action" where
  "ssl_run k ossl engine s =
     (case engine of (ssl, request) \<Rightarrow>
        (case request of
          Want_Read len \<Rightarrow> (case gdix51c0_bio_read k len s of
              None \<Rightarrow> None
            | Some (Inl e, s') \<Rightarrow> Some (Inl e, s')
            | Some (Inr got, s') \<Rightarrow> ssl_run k ossl (ossl_reply ossl (Read_Reply got) ssl) s')
        | Want_Write buf \<Rightarrow> (case gdix51c0_bio_write k buf s of
              None \<Rightarrow> None
            | Some (Inl e, s') \<Rightarrow> Some (Inl e, s')
            | Some (Inr n, s') \<Rightarrow> ssl_run k ossl (ossl_reply ossl (Write_Reply n) ssl) s')
        | Want_Psk identity max_len \<Rightarrow>
            ssl_run k ossl (ossl_reply ossl (Psk_Reply (gdix51c0_psk_server_cb (fst s) identity max_len)) ssl) s
        | Ssl_Done data \<Rightarrow> Some (Inr (ssl, request), s)
        | Ssl_Failed err reasons \<Rightarrow> Some (Inr (ssl, request), s)))"

declare ssl_run.simps [code]

section \<open>Setting up and tearing down\<close>

definition blank_tls :: "'ssl tls" where
  "blank_tls = \<lparr> tls_ctx = False, tls_ssl = None, rd_buf = [], tls_flight = no_flight, tls_psk = [] \<rparr>"

text \<open>A new engine on a new transport.\<close>

definition ssl_create :: "('ssl, 'w) openssl \<Rightarrow> ('ssl tls \<times> 'w, unit) action" where
  "ssl_create ossl = (\<lambda>(t, w).
     case ossl_new ossl w of
       (None, w') \<Rightarrow> Some (Inl G_IO_ERROR_FAILED, (t, w'))
     | (Some ssl, w') \<Rightarrow>
         let t' = t\<lparr> tls_ssl := Some ssl \<rparr>
         in case ossl_bio_new ossl w' of
           (False, w'') \<Rightarrow> Some (Inl G_IO_ERROR_FAILED, (t', w''))
         | (True, w'') \<Rightarrow> Some (Inr (), (t', w'')))"

definition gdix51c0_tls_init :: "('ssl, 'w) openssl \<Rightarrow> bytes \<Rightarrow> ('ssl tls \<times> 'w, unit) action" where
  "gdix51c0_tls_init ossl psk = (\<lambda>(_, w).
     if length psk > 32 then Some (Inl G_IO_ERROR_INVALID_DATA, (blank_tls, w))
     else
       let t = blank_tls\<lparr> tls_psk := psk \<rparr>
       in case ossl_ctx_new ossl w of
         (False, w1) \<Rightarrow> Some (Inl G_IO_ERROR_FAILED, (t, w1))
       | (True, w1) \<Rightarrow>
           let t1 = t\<lparr> tls_ctx := True \<rparr>
           in case ossl_set_cipher_list ossl w1 of
             (False, w2) \<Rightarrow> Some (Inl G_IO_ERROR_FAILED, (t1, w2))
           | (True, w2) \<Rightarrow> ssl_create ossl (t1, w2))"

definition gdix51c0_tls_recreate_ssl :: "('ssl, 'w) openssl \<Rightarrow> ('ssl tls \<times> 'w, unit) action" where
  "gdix51c0_tls_recreate_ssl ossl = (\<lambda>(t, w).
     ssl_create ossl (t\<lparr> rd_buf := [], tls_flight := no_flight, tls_ssl := None \<rparr>, w))"

definition gdix51c0_tls_free :: "'ssl tls \<Rightarrow> 'ssl tls" where
  "gdix51c0_tls_free t = t\<lparr> tls_ssl := None, tls_ctx := False, rd_buf := [] \<rparr>"

section \<open>The handshake\<close>

abbreviation (input) d1_payload :: bytes where "d1_payload \<equiv> [0xd1, 0x03, 0x00, 0x00, 0x00, 0xd7]"

text \<open>A failure that a wrong key explains: the whole flight was seen and a record did not authenticate.\<close>

definition auth_record_failure :: "flight \<Rightarrow> ssl_error \<Rightarrow> ssl_reason list \<Rightarrow> bool" where
  "auth_record_failure p err reasons \<longleftrightarrow>
     err = SSL_ERROR_SSL \<and> complete_client_flight p \<and>
     (list_ex (\<lambda>r. r = SSL_R_DECRYPTION_FAILED_OR_BAD_RECORD_MAC \<or> r = SSL_R_DECRYPTION_FAILED) reasons \<or>
      list_ex (\<lambda>r. r = SSL_R_RECORD_LAYER_FAILURE) reasons)"

text \<open>Before the accept: an idle line if it can be had, then the trigger.\<close>

definition handshake_trigger :: "'w kernel \<Rightarrow> ('w, unit) action" where
  "handshake_trigger k =
     and_then (gdix51c0_irq_drain k) (\<lambda>_.
     and_then (ignoring (gdix51c0_irq_wait k False 500000)) (\<lambda>_.
     and_then (gdix51c0_irq_drain k) (\<lambda>_ w.
     gdix51c0_spi_write k PKT_WRITE d1_payload (bus_sleep k 1000 w))))"

text \<open>One attempt gives how the accept ended and whether its failure is one of authentication. Without an
  engine, which the callers rule out, there is nothing to accept.\<close>

definition handshake_accept :: "'w kernel \<Rightarrow> ('ssl, 'w) openssl \<Rightarrow> ('ssl tls \<times> 'w, bool \<times> bool) action" where
  "handshake_accept k ossl s =
     (case tls_ssl (fst s) of
        None \<Rightarrow> Some (Inr (False, False), s)
      | Some ssl \<Rightarrow>
          and_then (ssl_run k ossl (ossl_accept ossl ssl)) (\<lambda>(ssl', request) (t, w).
            let t' = t\<lparr> tls_ssl := Some ssl' \<rparr>
            in case request of
              Ssl_Failed err reasons \<Rightarrow>
                and_then (on_bus (gdix51c0_irq_drain k))
                  (\<lambda>_. done_with (False, auth_record_failure (tls_flight t) err reasons)) (t', w)
            | _ \<Rightarrow>
                and_then (on_bus (gdix51c0_irq_drain k)) (\<lambda>_. done_with (True, False)) (t'\<lparr> rd_buf := [] \<rparr>, w)) s)"

definition handshake_attempt :: "'w kernel \<Rightarrow> ('ssl, 'w) openssl \<Rightarrow> ('ssl tls \<times> 'w, bool \<times> bool) action" where
  "handshake_attempt k ossl = and_then (on_bus (handshake_trigger k)) (\<lambda>_. handshake_accept k ossl)"

definition gdix51c0_tls_handshake :: "'w kernel \<Rightarrow> ('ssl, 'w) openssl \<Rightarrow> ('ssl tls \<times> 'w, unit) action" where
  "gdix51c0_tls_handshake k ossl =
     and_then (handshake_attempt k ossl) (\<lambda>(accepted, first_auth_failure).
     if accepted then done_with ()
     else
       and_then (gdix51c0_tls_recreate_ssl ossl) (\<lambda>_ (t, w).
       and_then (handshake_attempt k ossl) (\<lambda>(accepted, auth_failure).
       if accepted then done_with ()
       else if first_auth_failure \<and> auth_failure then fail_with G_IO_ERROR_PERMISSION_DENIED
       else fail_with G_IO_ERROR_CONNECTION_CLOSED) (t, bus_sleep k 200000 w)))"

section \<open>Records\<close>

definition gdix51c0_tls_record_header_ok :: "bytes \<Rightarrow> bool" where
  "gdix51c0_tls_record_header_ok record \<longleftrightarrow>
     (if length record < 5 then False
      else if record ! 0 \<noteq> 0x14 \<and> record ! 0 \<noteq> 0x15 \<and> record ! 0 \<noteq> 0x16 \<and> record ! 0 \<noteq> 0x17 then False
      else if record ! 1 \<noteq> 0x03 then False
      else \<not> unat (record ! 3) * 2 ^ 8 + unat (record ! 4) + 5 > length record)"

definition gdix51c0_tls_decrypt_record :: "'w kernel \<Rightarrow> ('ssl, 'w) openssl \<Rightarrow> bytes \<Rightarrow> ('ssl tls \<times> 'w, bytes) action" where
  "gdix51c0_tls_decrypt_record k ossl record = (\<lambda>(t, w).
     if \<not> gdix51c0_tls_record_header_ok record then Some (Inl G_IO_ERROR_INVALID_DATA, (t, w))
     else
       let t1 = t\<lparr> rd_buf := record \<rparr>
       in case tls_ssl t1 of
         None \<Rightarrow> Some (Inl G_IO_ERROR_FAILED, (t1, w))
       | Some ssl \<Rightarrow>
           and_then (ssl_run k ossl (ossl_read ossl (length record) ssl)) (\<lambda>(ssl', request) (t2, w2).
             let t3 = t2\<lparr> tls_ssl := Some ssl' \<rparr>
             in case request of
               Ssl_Done data \<Rightarrow> if data = [] then Some (Inl G_IO_ERROR_FAILED, (t3, w2)) else Some (Inr data, (t3, w2))
             | _ \<Rightarrow> Some (Inl G_IO_ERROR_FAILED, (t3, w2))) (t1, w))"

section \<open>Packets\<close>

text \<open>The repairs change nothing but the two malformed packets they are for, keep the length, and leave a
  repaired packet alone.\<close>

lemma length_cke: "length gdix51c0_cke_header = 11" "length gdix51c0_cke_identity = 15"
  by (simp_all add: gdix51c0_cke_header_def gdix51c0_cke_identity_def)

lemma patched_identity: "26 \<le> length buf \<Longrightarrow> take 15 (drop 11 (write_at buf 11 gdix51c0_cke_identity)) = gdix51c0_cke_identity"
  by (simp add: write_at_def length_cke)

lemma patch_identity_length [simp]: "length (patch_identity buf) = length buf"
  by (simp add: patch_identity_def write_at_def length_cke)

lemma patch_ccs_length [simp]: "length (patch_change_cipher_spec buf) = length buf"
  by (simp add: patch_change_cipher_spec_def)

lemma take6: "6 \<le> length xs \<Longrightarrow> take 6 xs = [xs ! 0, xs ! 1, xs ! 2, xs ! 3, xs ! 4, xs ! 5]"
  by (rule nth_equalityI) (auto simp: less_Suc_eq numeral_eq_Suc)

lemma patch_ccs_again: "patch_change_cipher_spec (patch_change_cipher_spec buf) = patch_change_cipher_spec buf"
  by (auto simp: patch_change_cipher_spec_def take6)

lemma patch_identity_again: "patch_identity (patch_identity buf) = patch_identity buf"
proof (cases "length buf \<ge> 26 \<and> take 11 buf = gdix51c0_cke_header \<and> take 15 (drop 11 buf) \<noteq> gdix51c0_cke_identity")
  case True
  then have "patch_identity buf = write_at buf 11 gdix51c0_cke_identity" by (simp add: patch_identity_def)
  then show ?thesis using True patched_identity [of buf] by (simp add: patch_identity_def [of "write_at _ _ _"])
next
  case False
  then have "patch_identity buf = buf" unfolding patch_identity_def by (rule if_not_P)
  then show ?thesis by simp
qed

text \<open>The first byte tells the two repairs apart.\<close>

lemma patch_first:
  "0 < length buf \<Longrightarrow> patch_change_cipher_spec buf ! 0 = buf ! 0" "0 < length buf \<Longrightarrow> patch_identity buf ! 0 = buf ! 0"
  "buf ! 0 \<noteq> 0x14 \<Longrightarrow> patch_change_cipher_spec buf = buf" "buf ! 0 \<noteq> 0x16 \<Longrightarrow> patch_identity buf = buf"
proof -
  show "0 < length buf \<Longrightarrow> patch_change_cipher_spec buf ! 0 = buf ! 0" by (simp add: patch_change_cipher_spec_def)
  have "write_at buf 11 gdix51c0_cke_identity ! 0 = take 11 buf ! 0" if "0 < length buf"
    using that by (simp add: write_at_def nth_append)
  then show "0 < length buf \<Longrightarrow> patch_identity buf ! 0 = buf ! 0" by (simp add: patch_identity_def)
  show "buf ! 0 \<noteq> 0x14 \<Longrightarrow> patch_change_cipher_spec buf = buf" by (auto simp: patch_change_cipher_spec_def take6)
  have "take 11 buf = gdix51c0_cke_header \<Longrightarrow> 26 \<le> length buf \<Longrightarrow> buf ! 0 = 0x16"
    using nth_take [of 0 11 buf] by (simp add: gdix51c0_cke_header_def)
  then show "buf ! 0 \<noteq> 0x16 \<Longrightarrow> patch_identity buf = buf" by (auto simp: patch_identity_def)
qed

lemma patch_inbound_again: "gdix51c0_patch_inbound (gdix51c0_patch_inbound buf) = gdix51c0_patch_inbound buf"
proof (cases "length buf > 0 \<and> buf ! 0 = 0x14")
  case True
  then have "patch_change_cipher_spec buf ! 0 \<noteq> 0x16" by (simp add: patch_first(1))
  then have "gdix51c0_patch_inbound buf = patch_change_cipher_spec buf"
    unfolding gdix51c0_patch_inbound_def by (rule patch_first(4))
  moreover have "patch_identity (patch_change_cipher_spec buf) = patch_change_cipher_spec buf"
    using True by (intro patch_first(4)) (simp add: patch_first(1))
  ultimately show ?thesis using patch_ccs_again [of buf] by (simp add: gdix51c0_patch_inbound_def)
next
  case False
  then have "patch_change_cipher_spec buf = buf" by (cases buf) (auto simp: patch_change_cipher_spec_def take6)
  then have p: "gdix51c0_patch_inbound buf = patch_identity buf" by (simp add: gdix51c0_patch_inbound_def)
  have "patch_change_cipher_spec (patch_identity buf) = patch_identity buf"
  proof (cases buf)
    case (Cons b bs)
    then have "patch_identity buf ! 0 \<noteq> 0x14" using False patch_first(2) [of buf] by simp
    then show ?thesis by (rule patch_first(3))
  qed (simp add: patch_identity_def patch_change_cipher_spec_def)
  then show ?thesis unfolding p by (simp add: gdix51c0_patch_inbound_def patch_identity_again)
qed

section \<open>A confirmed mismatch\<close>

text \<open>A packet that came from the device, and the flight a list of packets shows.\<close>

definition received :: "'w kernel \<Rightarrow> bytes \<Rightarrow> bool" where
  "received k pkt \<longleftrightarrow> (\<exists>w w'. bio_refill k w = Some (Inr pkt, w'))"

definition flight_of :: "flight \<Rightarrow> bytes list \<Rightarrow> flight" where
  "flight_of = foldl (\<lambda>p pkt. gdix51c0_note_handshake_progress pkt p)"

text \<open>What OpenSSL does to the state: it takes packets, and their flight is noted.\<close>

definition flown :: "'w kernel \<Rightarrow> 'ssl tls \<Rightarrow> 'ssl tls \<Rightarrow> bool" where
  "flown k t t' \<longleftrightarrow> (\<exists>pkts. list_all (received k) pkts \<and> tls_flight t' = flight_of (tls_flight t) pkts) \<and>
     tls_psk t' = tls_psk t \<and> tls_ssl t' = tls_ssl t \<and> tls_ctx t' = tls_ctx t"

lemma flown_refl: "flown k t t"
  by (auto simp: flown_def flight_of_def intro: exI [of _ "[]"])

lemma flown_trans: "flown k t t' \<Longrightarrow> flown k t' t'' \<Longrightarrow> flown k t t''"
  unfolding flown_def flight_of_def by (metis foldl_append list_all_append)

lemma bio_read_flown:
  assumes "gdix51c0_bio_read k len (t, w) = Some (r, (t', w'))"
  shows "flown k t t' \<and> (\<exists>got. r = Inr got)"
proof (cases "rd_buf t = []")
  case False
  then show ?thesis using assms by (auto simp: gdix51c0_bio_read_def bio_deliver_def flown_def flight_of_def intro: exI [of _ "[]"])
next
  case True
  note run = assms [unfolded gdix51c0_bio_read_def prod.case]
  show ?thesis
  proof (cases "bio_refill k w")
    case (Some out)
    obtain r1 w1 where out: "out = (r1, w1)" by (cases out)
    show ?thesis
    proof (cases r1)
      case (Inl e)
      then show ?thesis using run True Some out flown_refl by auto
    next
      case (Inr pkt)
      have "t' = (let t1 = t\<lparr> tls_flight := gdix51c0_note_handshake_progress pkt (tls_flight t), rd_buf := gdix51c0_patch_inbound pkt \<rparr>
          in t1\<lparr> rd_buf := drop len (rd_buf t1) \<rparr>) \<and> (\<exists>got. r = Inr got)"
        using run True Some out Inr by (auto simp: bio_deliver_def Let_def)
      moreover have "received k pkt" using Some out Inr by (auto simp: received_def)
      ultimately show ?thesis by (auto simp: flown_def flight_of_def Let_def intro!: exI [of _ "[pkt]"])
    qed
  qed (use run True in simp)
qed

lemma bio_write_same:
  assumes "gdix51c0_bio_write k buf (t, w) = Some (r, (t', w'))"
  shows "t' = t \<and> (\<exists>n. r = Inr n)"
  using assms by (auto simp: gdix51c0_bio_write_def on_bus_def or_else_def and_then_def done_with_def split: option.splits sum.splits)

lemma ssl_run_flown:
  assumes "ssl_run k ossl engine s = Some out"
  shows "flown k (fst s) (fst (snd out)) \<and> (\<exists>ssl request. fst out = Inr (ssl, request))"
proof (rule ssl_run.raw_induct [OF _ assms, where P = "\<lambda>k ossl engine s out. flown k (fst s) (fst (snd out)) \<and> (\<exists>ssl request. fst out = Inr (ssl, request))"], goal_cases)
  case (1 run k ossl engine s out)
  obtain ssl request where e: "engine = (ssl, request)" by (cases engine)
  obtain t w where s: "s = (t, w)" by (cases s)
  note step = 1(2) [unfolded e prod.case]
  have later: "flown k t (fst (snd out)) \<and> (\<exists>ssl request. fst out = Inr (ssl, request))"
    if "flown k t t'" "run k ossl engine' (t', w') = Some out" for engine' t' w'
    using 1(1) [OF that(2)] flown_trans [OF that(1)] by simp
  show ?case
  proof (cases request)
    case (Want_Read len)
    obtain r t' w' where r: "gdix51c0_bio_read k len s = Some (r, (t', w'))"
      using step Want_Read by (cases "gdix51c0_bio_read k len s") auto
    note f = bio_read_flown [OF r [unfolded s]]
    then obtain got where "r = Inr got" by blast
    then show ?thesis using step Want_Read r f later s by auto
  next
    case (Want_Write buf)
    obtain r t' w' where r: "gdix51c0_bio_write k buf s = Some (r, (t', w'))"
      using step Want_Write by (cases "gdix51c0_bio_write k buf s") auto
    note f = bio_write_same [OF r [unfolded s]]
    then obtain n where "r = Inr n" by blast
    then show ?thesis using step Want_Write r f later [OF flown_refl] s by auto
  next
    case (Want_Psk identity max_len)
    then show ?thesis using step later [OF flown_refl] s by auto
  qed (use step s flown_refl in auto)
qed

lemma on_busD: "on_bus m (t, w) = Some (r, (t', w')) \<Longrightarrow> t' = t \<and> m w = Some (r, w')"
  by (auto simp: on_bus_def split: option.splits)

lemma ssl_create_flight: "ssl_create ossl (t, w) = Some (r, (t', w')) \<Longrightarrow> tls_flight t' = tls_flight t"
  by (auto simp: ssl_create_def Let_def split: prod.splits option.splits bool.splits)

text \<open>What a failed accept tells.\<close>

lemma accept_failure:
  assumes "handshake_accept k ossl (t, w) = Some (Inr (False, auth), (t', w'))"
  shows "\<exists>pkts. list_all (received k) pkts \<and> tls_flight t' = flight_of (tls_flight t) pkts \<and> (auth \<longrightarrow> complete_client_flight (tls_flight t'))"
proof (cases "tls_ssl t")
  case None
  then show ?thesis using assms by (auto simp: handshake_accept_def flight_of_def intro: exI [of _ "[]"])
next
  case (Some ssl)
  note run = assms [unfolded handshake_accept_def fst_conv Some option.case and_then_def]
  obtain r t1 w1 where r: "ssl_run k ossl (ossl_accept ossl ssl) (t, w) = Some (r, (t1, w1))"
    using run by (cases "ssl_run k ossl (ossl_accept ossl ssl) (t, w)") auto
  obtain ssl' request where f: "flown k t t1" "r = Inr (ssl', request)" using ssl_run_flown [OF r] by auto
  obtain err reasons where failed: "request = Ssl_Failed err reasons"
    using run r f(2)
    by (cases request) (auto simp: Let_def and_then_def done_with_def on_bus_def split: option.splits sum.splits)
  then have "t' = t1\<lparr> tls_ssl := Some ssl' \<rparr> \<and> auth = auth_record_failure (tls_flight t1) err reasons"
    using run r f(2)
    by (auto simp: Let_def and_then_def done_with_def on_bus_def split: option.splits sum.splits)
  then show ?thesis using f(1) by (auto simp: flown_def auth_record_failure_def)
qed

text \<open>An attempt fails with an error only when the trigger could not be written.\<close>

lemma spi_write_error:
  assumes "gdix51c0_spi_write k ty buf w = Some (Inl e, w')"
  shows "\<exists>b w. fst (bus_write k b w) = Inl e"
proof -
  let ?h = "gdix51c0_make_header_packet ty (of_nat (length buf))"
  obtain r1 w1 where h: "bus_write k ?h w = (r1, w1)" by (cases "bus_write k ?h w")
  obtain r2 w2 where p: "bus_write k buf w1 = (r2, w2)" by (cases "bus_write k buf w1")
  have "r1 = Inl e \<or> r2 = Inl e"
    using assms h p by (cases r1) (auto simp: gdix51c0_spi_write_def and_then_def call_def done_with_def split: if_splits)
  then show ?thesis using h p by (metis fst_conv)
qed

lemma irq_drain_ok:
  assumes "irq_drain k w = Some out"
  shows "fst out = Inr ()"
proof (rule irq_drain.raw_induct [OF _ assms, where P = "\<lambda>k w out. fst out = Inr ()"], goal_cases)
  case (1 drain k w out)
  then show ?case by (auto split: prod.splits if_splits)
qed

lemma drain_no_error: "\<not> gdix51c0_irq_drain k w = Some (Inl e, w')"
  using irq_drain_ok unfolding gdix51c0_irq_drain_def by (metis fst_conv sum.distinct(1))

lemma trigger_error:
  assumes "handshake_trigger k w = Some (Inl e, w')"
  shows "\<exists>b w. fst (bus_write k b w) = Inl e"
  using assms spi_write_error
  by (auto simp: handshake_trigger_def and_then_def ignoring_def or_else_def done_with_def drain_no_error
      split: option.splits sum.splits)

lemma accept_no_error:
  assumes "handshake_accept k ossl (t, w) = Some (r, s')"
  shows "\<not> r = Inl e"
proof (cases "tls_ssl t")
  case None
  then show ?thesis using assms by (auto simp: handshake_accept_def)
next
  case (Some ssl)
  note run = assms [unfolded handshake_accept_def fst_conv Some option.case and_then_def]
  obtain r1 t1 w1 where r: "ssl_run k ossl (ossl_accept ossl ssl) (t, w) = Some (r1, (t1, w1))"
    using run by (cases "ssl_run k ossl (ossl_accept ossl ssl) (t, w)") auto
  obtain ssl' request where f: "r1 = Inr (ssl', request)" using ssl_run_flown [OF r] by auto
  show ?thesis using run r f
    by (cases request) (auto simp: Let_def and_then_def done_with_def on_bus_def drain_no_error split: option.splits sum.splits)
qed

lemma attempt_failure:
  assumes "handshake_attempt k ossl (t, w) = Some (Inr (False, auth), (t', w'))"
  shows "\<exists>pkts. list_all (received k) pkts \<and> tls_flight t' = flight_of (tls_flight t) pkts \<and> (auth \<longrightarrow> complete_client_flight (tls_flight t'))"
proof -
  obtain w1 where "handshake_accept k ossl (t, w1) = Some (Inr (False, auth), (t', w'))"
    using assms by (auto simp: handshake_attempt_def and_then_def on_bus_def split: option.splits sum.splits)
  then show ?thesis by (rule accept_failure)
qed

lemma attempt_error:
  assumes "handshake_attempt k ossl (t, w) = Some (Inl e, s')"
  shows "\<exists>b w. fst (bus_write k b w) = Inl e"
proof -
  obtain r w1 where tr: "handshake_trigger k w = Some (r, w1)"
    using assms by (cases "handshake_trigger k w") (auto simp: handshake_attempt_def and_then_def on_bus_def)
  show ?thesis
  proof (cases r)
    case (Inl e')
    then have "e' = e" using assms tr by (simp add: handshake_attempt_def and_then_def on_bus_def)
    then show ?thesis using trigger_error tr Inl by metis
  next
    case (Inr u)
    then have "handshake_accept k ossl (t, w1) = Some (Inl e, s')"
      using assms tr by (simp add: handshake_attempt_def and_then_def on_bus_def)
    from accept_no_error [OF this, of e] show ?thesis by simp
  qed
qed


text \<open>A client whose whole flight arrives in one packet, and an engine that reads it and does not authenticate it.\<close>

definition sample_flight :: bytes where
  "sample_flight = [0x16, 3, 3, 0, 4, 0x01, 0, 0, 0, 0x16, 3, 3, 0, 4, 0x10, 0, 0, 0, 0x14, 3, 3, 0, 1, 1]"

definition refusing_openssl :: "(unit, nat \<times> bytes list) openssl" where
  "refusing_openssl =
     \<lparr> ossl_ctx_new = (\<lambda>w. (True, w)), ossl_set_cipher_list = (\<lambda>w. (True, w)), ossl_new = (\<lambda>w. (Some (), w)),
       ossl_bio_new = (\<lambda>w. (True, w)), ossl_accept = (\<lambda>ssl. (ssl, Want_Read 1)), ossl_read = (\<lambda>len ssl. (ssl, Want_Read len)),
       ossl_reply = (\<lambda>reply ssl. (ssl, Ssl_Failed SSL_ERROR_SSL [SSL_R_DECRYPTION_FAILED_OR_BAD_RECORD_MAC])) \<rparr>"

lemma sample_flight_noted: "complete_client_flight (gdix51c0_note_handshake_progress sample_flight p)"
  by (simp add: sample_flight_def gdix51c0_note_handshake_progress.simps Let_def note_record_def complete_client_flight_def)

lemma refused_attempt:
  "\<exists>t'. handshake_attempt queue_kernel refusing_openssl (blank_tls\<lparr> tls_ctx := c, tls_ssl := Some (), tls_psk := psk \<rparr>,
      (n, ([0xb0, 24, 0, 0] @ sample_flight) # ps)) = Some (Inr (False, True), (t', (n + 2, ps)))"
proof -
  have idle: "gdix51c0_irq_wait queue_kernel False 500000 (m, (b # p) # ps) = Some (Inl IRQ_TIMED_OUT, (m, (b # p) # ps))" for m b p ps
    by (simp add: queue_kernel_def gdix51c0_irq_wait_def and_then_def call_def irq_wait_loop.simps)
  have read: "gdix51c0_spi_read queue_kernel (m, ([0xb0, 24, 0, 0] @ sample_flight) # ps) = Some (Inr sample_flight, (m, [] # ps))" for m
    using queue_read [where t = "0xb0" and p = sample_flight and n = m and x = 0 and ps = ps] by (simp add: sample_flight_def)
  have refill: "bio_refill queue_kernel (m, ([0xb0, 24, 0, 0] @ sample_flight) # ps) = Some (Inr sample_flight, (m, ps))" for m
    using read [of m] by (simp add: bio_refill_def and_then_def or_else_def ignoring_def done_with_def queue_kernel_simps)
  have trigger: "handshake_trigger queue_kernel (n, ([0xb0, 24, 0, 0] @ sample_flight) # ps) = Some (Inr (), (n + 2, ([0xb0, 24, 0, 0] @ sample_flight) # ps))"
    using idle by (simp add: handshake_trigger_def and_then_def ignoring_def or_else_def done_with_def gdix51c0_spi_write_def call_def
        queue_kernel_simps)
  let ?t = "blank_tls\<lparr> tls_ctx := c, tls_ssl := Some (), tls_psk := psk \<rparr>"
  let ?w = "(n + 2, ([0xb0, 24, 0, 0] @ sample_flight) # ps)"
  obtain t1 where "gdix51c0_bio_read queue_kernel 1 (?t, ?w) = Some (Inr (Some (take 1 (gdix51c0_patch_inbound sample_flight))), (t1, (n + 2, ps)))"
    and t1: "complete_client_flight (tls_flight t1)"
    using refill [of "n + 2"] sample_flight_noted by (simp add: gdix51c0_bio_read_def bio_deliver_def blank_tls_def)
  then have "ssl_run queue_kernel refusing_openssl (ossl_accept refusing_openssl ()) (?t, ?w) =
      Some (Inr ((), Ssl_Failed SSL_ERROR_SSL [SSL_R_DECRYPTION_FAILED_OR_BAD_RECORD_MAC]), (t1, (n + 2, ps)))"
    by (simp add: refusing_openssl_def ssl_run.simps)
  then show ?thesis
    using trigger t1
    by (simp add: handshake_attempt_def handshake_accept_def and_then_def on_bus_def blank_tls_def queue_kernel_simps done_with_def
        auth_record_failure_def Let_def)
qed


end
