(* ===== verification/Gdix_Device.thy ===== *)
theory Gdix_Device
  imports Gdix_Tls Gdix_Provision Gdix_Listener Goodix_Command Goodix_Image Chicago_Calibration Chicago_Probe
begin

text \<open>
  The state of an open device (gdix51c0.c) and the parts of it that outlive a session: the thresholds of finger
  detection, the key that was provisioned, the frame without a finger, and the calibration.

  \<open>rig\<close> is what the driver runs on: the kernel, the reset line, the listener's calls, OpenSSL and the other
  libraries, files and the environment. The builds without \<open>GOODIX_SPI_DEVELOPER\<close> are modelled, where
  \<open>GDIX51C0_DEV_ENV\<close> is the null pointer. Log output is left out.
\<close>

section \<open>State\<close>

abbreviation (input) FRAME_PIXELS :: nat where "FRAME_PIXELS \<equiv> 5120"
abbreviation (input) FRAME_BYTES :: nat where "FRAME_BYTES \<equiv> 7680"
abbreviation (input) CMD_IMAGE_T0 :: byte where "CMD_IMAGE_T0 \<equiv> 0x20"
abbreviation (input) CMD_IMAGE_T1 :: byte where "CMD_IMAGE_T1 \<equiv> 0x22"
abbreviation (input) CMD_FDT_DOWN :: byte where "CMD_FDT_DOWN \<equiv> 0x32"
abbreviation (input) CMD_FDT_UP :: byte where "CMD_FDT_UP \<equiv> 0x34"
abbreviation (input) CMD_FDT_MANUAL :: byte where "CMD_FDT_MANUAL \<equiv> 0x36"
abbreviation (input) CMD_NAV_BASE :: byte where "CMD_NAV_BASE \<equiv> 0x50"

lemma command_bytes:
  "goodix_command_value GOODIX_COMMAND_MCU_GET_IMAGE = CMD_IMAGE_T0"
  "goodix_wire_command_id 0x2 0x1 = CMD_IMAGE_T1"
  "goodix_command_value GOODIX_COMMAND_MCU_SWITCH_TO_FDT_DOWN = CMD_FDT_DOWN"
  "goodix_command_value GOODIX_COMMAND_MCU_SWITCH_TO_FDT_UP = CMD_FDT_UP"
  "goodix_command_value GOODIX_COMMAND_MCU_SWITCH_TO_FDT_MODE = CMD_FDT_MANUAL"
  "goodix_command_value GOODIX_COMMAND_NAV = CMD_NAV_BASE"
  by (simp_all add: goodix_wire_command_id_def)

record ('ssl, 'pre) device =
  listener :: "queues option"
  tls :: "'ssl tls"
  tls_ready :: bool
  skip_next_identify :: bool
  session_desynced :: bool
  psk_reprovision_pending :: bool
  psk_reprovision_attempted_this_open :: bool
  psk_reprovision_completed_this_open :: bool
  fdt_down_regs :: bytes
  fdt_down_sample :: "u16 list"
  fdt_down_sample_valid :: bool
  require_lift_gap :: bool
  fdt_baseline :: "u16 list"
  fdt_baseline_valid :: bool
  active_dac_main :: u16
  sensor_profile :: "goodix_sensor_profile option"
  sensor_id :: bytes
  sensor_id_valid :: bool
  chicago_calibration :: "bytes option"
  chicago_preprocessor :: "'pre option"
  t0_baseline :: "u16 list"
  t0_baseline_valid :: bool
  image_base_refreshed_this_open :: bool

text \<open>The calls that write the state of a file system: creating a directory, opening a file, writing, closing,
  removing and renaming.\<close>

record 'w files =
  file_mkdir :: "string \<Rightarrow> 'w \<Rightarrow> unit result \<times> 'w"
  file_open :: "string \<Rightarrow> 'w \<Rightarrow> unit result \<times> 'w"
  file_write :: "bytes \<Rightarrow> 'w \<Rightarrow> unit result \<times> 'w"
  file_close :: "'w \<Rightarrow> 'w"
  file_unlink :: "string \<Rightarrow> 'w \<Rightarrow> 'w"
  file_rename :: "string \<Rightarrow> string \<Rightarrow> 'w \<Rightarrow> unit result \<times> 'w"

text \<open>What an action tells libfprint, each as an event that is posted to its main context. A print is the one to
  verify or one of the gallery.\<close>

datatype action_kind = ACTION_ENROLL | ACTION_VERIFY | ACTION_IDENTIFY

datatype finger_status = FP_FINGER_STATUS_NONE | FP_FINGER_STATUS_NEEDED | FP_FINGER_STATUS_PRESENT

datatype match_verdict = FPI_MATCH_ERROR | FPI_MATCH_FAIL | FPI_MATCH_SUCCESS

datatype device_retry = FP_DEVICE_RETRY_GENERAL string | FP_DEVICE_RETRY_CENTER_FINGER string

datatype print_ref = Verify_Print | Gallery_Print nat

datatype main_event =
    Finger_Status_Event finger_status
  | Enroll_Progress_Event nat "device_retry option"
  | Enroll_Complete_Event bool "g_variant option" "gio_error option"
  | Match_Report_Event action_kind match_verdict "print_ref option" "device_retry option"
  | Match_Complete_Event action_kind bool match_verdict "print_ref option" "print_ref option" "g_variant option" "gio_error option"

text \<open>A read of a whole file does not change the world, and a failed replacement of one leaves it as it was;
  \<open>rig_reset\<close> is the offset of the reset line, \<open>rig_utc_ms\<close> the milliseconds since the last full minute,
  \<open>rig_unset\<close> what the pairs of a match hold before they are set.\<close>

record ('ssl, 'pre, 'w) rig =
  rig_kernel :: "'w kernel"
  rig_gpio :: "'w gpio option"
  rig_reset :: nat
  rig_host :: "'w host"
  rig_listener_new :: "'w \<Rightarrow> unit result \<times> 'w"
  rig_listener_free :: "'w \<Rightarrow> 'w"
  rig_suppress :: "bool \<Rightarrow> 'w \<Rightarrow> 'w"
  rig_crypto :: crypto
  rig_sha256 :: "bytes \<Rightarrow> bytes"
  rig_ssl :: "('ssl, 'w) openssl"
  rig_random :: "nat \<Rightarrow> 'w \<Rightarrow> bytes option \<times> 'w"
  rig_getenv :: "string \<Rightarrow> string option"
  rig_get_contents :: "'w \<Rightarrow> string \<Rightarrow> bytes result"
  rig_set_contents :: "'w \<Rightarrow> string \<Rightarrow> bytes \<Rightarrow> 'w result"
  rig_files :: "'w files"
  rig_real_time :: "'w \<Rightarrow> 64 word \<times> 'w"
  rig_preprocessor_new :: "bytes \<Rightarrow> u16 list \<Rightarrow> 'pre result"
  rig_cancelled :: "'w \<Rightarrow> bool \<times> 'w"
  rig_utc_ms :: "'w \<Rightarrow> u32 \<times> 'w"
  rig_stages :: "'pre stages"
  rig_unset :: "(int \<times> int) list"
  rig_post :: "main_event \<Rightarrow> 'w \<Rightarrow> 'w"

type_synonym ('ssl, 'pre, 'w, 'a) step = "(('ssl, 'pre) device \<times> 'w, 'a) action"

text \<open>A variable of the environment that is set and not empty.\<close>

definition env_set :: "('ssl, 'pre, 'w) rig \<Rightarrow> string \<Rightarrow> string option" where
  "env_set r var = (case rig_getenv r var of None \<Rightarrow> None | Some s \<Rightarrow> if s = [] then None else Some s)"

definition gdix51c0_mark_cold_boundary :: "('ssl, 'pre) device \<Rightarrow> ('ssl, 'pre) device" where
  "gdix51c0_mark_cold_boundary self =
     self\<lparr> image_base_refreshed_this_open := False, fdt_baseline_valid := False,
           fdt_down_sample_valid := False, require_lift_gap := False \<rparr>"

section \<open>Finger detection\<close>

definition gdix51c0_default_fdt_down_regs :: bytes where
  "gdix51c0_default_fdt_down_regs = [0x80, 0xad, 0x80, 0xbb, 0x80, 0xa2, 0x80, 0xae, 0x80, 0xa3, 0x80, 0xae]"

text \<open>The bits of the zones, lowest first.\<close>

function touch_bits :: "byte \<Rightarrow> nat" where
  "touch_bits zones = (if zones = 0 then 0 else unat (zones AND 1) + touch_bits (drop_bit 1 zones))"
  by pat_completeness auto
termination
proof (relation "measure unat")
  fix zones :: byte assume "zones \<noteq> 0"
  then have "0 < unat zones" by (simp add: unat_gt_0)
  moreover have "unat (drop_bit 1 zones) = unat zones div 2" by (simp add: drop_bit_Suc unat_div)
  ultimately show "(drop_bit 1 zones, zones) \<in> measure unat" by simp
qed simp

declare touch_bits.simps [simp del]

definition gdix51c0_fdt_touch_count :: "byte \<Rightarrow> nat" where
  "gdix51c0_fdt_touch_count touchflag = touch_bits (touchflag AND 0x3f)"

definition gdix51c0_fdt_trigger_min :: "('ssl, 'pre) device \<Rightarrow> nat" where
  "gdix51c0_fdt_trigger_min self =
     (case sensor_profile self of
        Some p \<Rightarrow> if fdt_trigger_min p > 0 then unat (fdt_trigger_min p) else 5
      | None \<Rightarrow> 5)"

definition gdix51c0_fdt_touch_is_finger :: "('ssl, 'pre) device \<Rightarrow> byte \<Rightarrow> bool" where
  "gdix51c0_fdt_touch_is_finger self touchflag \<longleftrightarrow> gdix51c0_fdt_touch_count touchflag \<ge> gdix51c0_fdt_trigger_min self"

definition clamp_register :: "int \<Rightarrow> byte" where
  "clamp_register thr = of_int (if thr < 1 then 1 else if thr > 0xff then 0xff else thr)"

text \<open>Every threshold is half the base of its zone.\<close>

definition gdix51c0_fdt_update_down_thresholds :: "('ssl, 'pre) device \<Rightarrow> ('ssl, 'pre) device" where
  "gdix51c0_fdt_update_down_thresholds self =
     (if \<not> fdt_baseline_valid self then self
      else self\<lparr> fdt_down_regs :=
        concat (map (\<lambda>i. [0x80, clamp_register (uint (fdt_baseline self ! i) div 2)]) [0..<6]) \<rparr>)"

definition gdix51c0_fdt_store_zero_touch_baseline :: "('ssl, 'pre) device \<Rightarrow> u16 list \<Rightarrow> ('ssl, 'pre) device" where
  "gdix51c0_fdt_store_zero_touch_baseline self sample = self\<lparr> fdt_baseline := sample, fdt_baseline_valid := True \<rparr>"

definition gdix51c0_session_reset_capture_state :: "('ssl, 'pre) device \<Rightarrow> ('ssl, 'pre) device" where
  "gdix51c0_session_reset_capture_state self =
     self\<lparr> session_desynced := False, fdt_down_sample_valid := False, require_lift_gap := False,
           fdt_down_regs := gdix51c0_default_fdt_down_regs \<rparr>"

section \<open>The provisioned key\<close>

abbreviation (input) ENV_PSK_HEX :: string where "ENV_PSK_HEX \<equiv> ''GOODIX_TLS_PSK_HEX''"
abbreviation (input) ENV_PROVISION_PSK :: string where "ENV_PROVISION_PSK \<equiv> ''GDIX51C0_PROVISION_PSK''"
abbreviation (input) ENV_PSK_STATE_FILE :: string where "ENV_PSK_STATE_FILE \<equiv> ''GDIX51C0_PSK_STATE_FILE''"

definition hex_digits :: string where "hex_digits = ''0123456789abcdef''"

definition hex_value :: "char \<Rightarrow> nat option" where
  "hex_value c =
     (let n = of_char c in
      if 48 \<le> n \<and> n \<le> 57 then Some (n - 48)
      else if 97 \<le> n \<and> n \<le> 102 then Some (n - 87)
      else if 65 \<le> n \<and> n \<le> 70 then Some (n - 55)
      else None)"

text \<open>What \<open>g_ascii_strtoull\<close> does with two characters in base 16: white space and a sign may come before the
  digits, a minus negates, and the text is accepted when all of it was used.\<close>

definition strtoull_space :: "char \<Rightarrow> bool" where
  "strtoull_space c \<longleftrightarrow> of_char c \<in> {9, 10, 11, 12, 13, 32 :: nat}"

definition strtoull_pair :: "char \<Rightarrow> char \<Rightarrow> byte option" where
  "strtoull_pair a b =
     (if strtoull_space a \<or> a = CHR ''+'' then map_option of_nat (hex_value b)
      else if a = CHR ''-'' then map_option (\<lambda>d. - of_nat d) (hex_value b)
      else case (hex_value a, hex_value b) of
        (Some x, Some y) \<Rightarrow> Some (of_nat (16 * x + y))
      | _ \<Rightarrow> None)"

fun parse_pairs :: "string \<Rightarrow> bytes option" where
  "parse_pairs (a # b # hex) =
     (case strtoull_pair a b of None \<Rightarrow> None | Some x \<Rightarrow> map_option ((#) x) (parse_pairs hex))"
| "parse_pairs _ = Some []"

definition gdix51c0_parse_psk_hex :: "string \<Rightarrow> bytes result" where
  "gdix51c0_parse_psk_hex hex =
     (if length hex \<noteq> 64 then Inl G_IO_ERROR_INVALID_DATA
      else case parse_pairs hex of None \<Rightarrow> Inl G_IO_ERROR_INVALID_DATA | Some out \<Rightarrow> Inr out)"

definition gdix51c0_psk_to_hex :: "bytes \<Rightarrow> string" where
  "gdix51c0_psk_to_hex psk = concat (map (\<lambda>b. [hex_digits ! (unat b div 16), hex_digits ! (unat b mod 16)]) psk)"

definition gdix51c0_psk_state_path :: "('ssl, 'pre, 'w) rig \<Rightarrow> string" where
  "gdix51c0_psk_state_path r =
     (case env_set r ENV_PSK_STATE_FILE of Some p \<Rightarrow> p | None \<Rightarrow> ''/var/lib/fprint/gdix51c0.psk'')"

text \<open>The contents of a file as a C string, and \<open>g_strstrip\<close>, whose white space has no vertical tab.\<close>

definition c_string :: "bytes \<Rightarrow> string" where
  "c_string contents = map (\<lambda>b. char_of (unat b)) (takeWhile (\<lambda>b. b \<noteq> 0) contents)"

definition ascii_space :: "char \<Rightarrow> bool" where
  "ascii_space c \<longleftrightarrow> of_char c \<in> {9, 10, 12, 13, 32 :: nat}"

definition strstrip :: "string \<Rightarrow> string" where
  "strstrip s = rev (dropWhile ascii_space (rev (dropWhile ascii_space s)))"

definition psk_of_contents :: "bytes \<Rightarrow> bytes option" where
  "psk_of_contents contents =
     (let s = strstrip (c_string contents) in
      if length s \<noteq> 64 then None
      else case gdix51c0_parse_psk_hex s of Inl _ \<Rightarrow> None | Inr psk \<Rightarrow> Some psk)"

definition gdix51c0_load_psk_state :: "('ssl, 'pre, 'w) rig \<Rightarrow> 'w \<Rightarrow> bytes option" where
  "gdix51c0_load_psk_state r w =
     (case rig_get_contents r w (gdix51c0_psk_state_path r) of Inl _ \<Rightarrow> None | Inr contents \<Rightarrow> psk_of_contents contents)"

text \<open>The text of the file is the key in hexadecimal and a new line. It is written to a temporary file that
  then replaces the old one; \<open>file_mkdir\<close> gets the path whose directory is made.\<close>

definition psk_file :: "bytes \<Rightarrow> bytes" where
  "psk_file psk = map (\<lambda>c. of_nat (of_char c)) (gdix51c0_psk_to_hex psk) @ [10]"

definition gdix51c0_save_psk_state :: "('ssl, 'pre, 'w) rig \<Rightarrow> bytes \<Rightarrow> 'w \<Rightarrow> unit result \<times> 'w" where
  "gdix51c0_save_psk_state r psk w =
     (let path = gdix51c0_psk_state_path r; tmp = path @ ''.tmp''; f = rig_files r in
      case file_mkdir f path w of
        (Inl e, w1) \<Rightarrow> (Inl e, w1)
      | (Inr _, w1) \<Rightarrow> (case file_open f tmp w1 of
          (Inl e, w2) \<Rightarrow> (Inl e, w2)
        | (Inr _, w2) \<Rightarrow> (case file_write f (psk_file psk) w2 of
            (Inl e, w3) \<Rightarrow> (Inl e, file_unlink f tmp (file_close f w3))
          | (Inr _, w3) \<Rightarrow> (case file_rename f tmp path (file_close f w3) of
              (Inl e, w4) \<Rightarrow> (Inl e, file_unlink f tmp w4)
            | (Inr _, w4) \<Rightarrow> (Inr (), w4)))))"

definition gdix51c0_load_psk :: "('ssl, 'pre, 'w) rig \<Rightarrow> 'w \<Rightarrow> bytes result" where
  "gdix51c0_load_psk r w =
     (case env_set r ENV_PSK_HEX of
        Some hex \<Rightarrow> gdix51c0_parse_psk_hex hex
      | None \<Rightarrow> (case gdix51c0_load_psk_state r w of Some psk \<Rightarrow> Inr psk | None \<Rightarrow> Inl G_IO_ERROR_NOT_INITIALIZED))"

section \<open>The frame without a finger\<close>

abbreviation (input) BASELINE_PATH :: string where "BASELINE_PATH \<equiv> ''/var/lib/fprint/gdix51c0-image-base.bin''"
abbreviation (input) BASELINE_MAGIC :: u32 where "BASELINE_MAGIC \<equiv> 0x30584447"
abbreviation (input) BASELINE_VERSION :: byte where "BASELINE_VERSION \<equiv> 0x02"
abbreviation (input) BASELINE_LEN :: nat where "BASELINE_LEN \<equiv> 10272"

definition le64_bytes :: "64 word \<Rightarrow> bytes" where
  "le64_bytes v = map (\<lambda>k. ucast (drop_bit (8 * k) v)) [0..<8]"

definition baseline_file :: "('ssl, 'pre) device \<Rightarrow> 64 word \<Rightarrow> bytes" where
  "baseline_file self now =
     le32_bytes BASELINE_MAGIC @ [BASELINE_VERSION, 0, 0, 0] @ le64_bytes now @ sensor_id self @ le16s (t0_baseline self)"

definition gdix51c0_baseline_save :: "('ssl, 'pre, 'w) rig \<Rightarrow> ('ssl, 'pre) device \<times> 'w \<Rightarrow> ('ssl, 'pre) device \<times> 'w" where
  "gdix51c0_baseline_save r = (\<lambda>(self, w).
     if \<not> sensor_id_valid self then (self, w)
     else case rig_real_time r w of (now, w1) \<Rightarrow>
       (case rig_set_contents r w1 BASELINE_PATH (baseline_file self now) of
          Inl _ \<Rightarrow> (self, w1)
        | Inr w2 \<Rightarrow> (self, w2)))"

definition baseline_of_contents :: "('ssl, 'pre) device \<Rightarrow> bytes \<Rightarrow> ('ssl, 'pre) device" where
  "baseline_of_contents self contents =
     (if length contents \<noteq> BASELINE_LEN then self
      else if le32_at contents 0 \<noteq> BASELINE_MAGIC then self
      else if contents ! 4 \<noteq> BASELINE_VERSION then self
      else if \<not> sensor_id_valid self then self
      else if take SENSOR_ID_LEN (drop 16 contents) \<noteq> sensor_id self then self
      else self\<lparr> t0_baseline := map (\<lambda>k. le16_at contents (32 + 2 * k)) [0..<FRAME_PIXELS], t0_baseline_valid := True \<rparr>)"

definition gdix51c0_baseline_load :: "('ssl, 'pre, 'w) rig \<Rightarrow> ('ssl, 'pre) device \<times> 'w \<Rightarrow> ('ssl, 'pre) device \<times> 'w" where
  "gdix51c0_baseline_load r = (\<lambda>(self, w).
     case rig_get_contents r w BASELINE_PATH of
       Inl _ \<Rightarrow> (self, w)
     | Inr contents \<Rightarrow> (baseline_of_contents self contents, w))"

section \<open>The calibration\<close>

abbreviation (input) ENV_CALIBRATION_FILE :: string where "ENV_CALIBRATION_FILE \<equiv> ''GDIX51C0_CHICAGO_CALIBRATION_FILE''"

definition calibration_path :: "('ssl, 'pre, 'w) rig \<Rightarrow> string" where
  "calibration_path r =
     (case env_set r ENV_CALIBRATION_FILE of Some p \<Rightarrow> p | None \<Rightarrow> ''/var/lib/fprint/gdix51c0-calibration.bin'')"

text \<open>A calibration that cannot be saved is used all the same.\<close>

definition save_calibration :: "('ssl, 'pre, 'w) rig \<Rightarrow> ('ssl, 'pre) device \<Rightarrow> bytes \<Rightarrow> 'w \<Rightarrow> 'w" where
  "save_calibration r self calibration w =
     (case goodix_chicago_calibration_save (rig_set_contents r) w (calibration_path r) (sensor_id self) calibration of
        Inl _ \<Rightarrow> w
      | Inr w' \<Rightarrow> w')"

definition gdix51c0_chicago_calibration_maybe_load_or_generate ::
    "('ssl, 'pre, 'w) rig \<Rightarrow> ('ssl, 'pre) device \<times> 'w \<Rightarrow> ('ssl, 'pre) device \<times> 'w" where
  "gdix51c0_chicago_calibration_maybe_load_or_generate r = (\<lambda>(self, w).
     if chicago_calibration self \<noteq> None \<or> \<not> sensor_id_valid self then (self, w)
     else case goodix_chicago_calibration_load (rig_get_contents r) w (calibration_path r) (sensor_id self) of
       Inr calibration \<Rightarrow> (self\<lparr> chicago_calibration := Some calibration \<rparr>, w)
     | Inl e \<Rightarrow>
         if e \<noteq> G_IO_ERROR_NOT_FOUND then (self, w)
         else if \<not> t0_baseline_valid self then (self, w)
         else
           let calibration = goodix_chicago_calibration_generate (t0_baseline self)
           in (self\<lparr> chicago_calibration := Some calibration \<rparr>, save_calibration r self calibration w))"

definition gdix51c0_chicago_preprocessor_maybe_init :: "('ssl, 'pre, 'w) rig \<Rightarrow> ('ssl, 'pre) device \<Rightarrow> ('ssl, 'pre) device" where
  "gdix51c0_chicago_preprocessor_maybe_init r self =
     (case (chicago_preprocessor self, chicago_calibration self, t0_baseline_valid self) of
        (None, Some calibration, True) \<Rightarrow>
          (case rig_preprocessor_new r calibration (t0_baseline self) of
             Inl _ \<Rightarrow> self
           | Inr pre \<Rightarrow> self\<lparr> chicago_preprocessor := Some pre \<rparr>)
      | _ \<Rightarrow> self)"

text \<open>A new frame without a finger replaces the old one, in memory and on disk, and the calibration is rebased
  on it.\<close>

definition rebase_calibration :: "('ssl, 'pre, 'w) rig \<Rightarrow> ('ssl, 'pre) device \<times> 'w \<Rightarrow> ('ssl, 'pre) device \<times> 'w" where
  "rebase_calibration r = (\<lambda>(self, w).
     case chicago_calibration self of
       None \<Rightarrow> (self, w)
     | Some calibration \<Rightarrow>
         (case goodix_chicago_calibration_rebase calibration (t0_baseline self) of
            Inl _ \<Rightarrow> (self, w)
          | Inr rebased \<Rightarrow> (self\<lparr> chicago_calibration := Some rebased \<rparr>, save_calibration r self rebased w)))"

definition gdix51c0_baseline_adopt_and_save ::
    "('ssl, 'pre, 'w) rig \<Rightarrow> u16 list \<Rightarrow> ('ssl, 'pre) device \<times> 'w \<Rightarrow> ('ssl, 'pre) device \<times> 'w" where
  "gdix51c0_baseline_adopt_and_save r raw = (\<lambda>(self, w).
     case gdix51c0_chicago_calibration_maybe_load_or_generate r
            (rebase_calibration r
              (gdix51c0_baseline_save r (self\<lparr> t0_baseline := raw, t0_baseline_valid := True \<rparr>, w))) of
       (self', w') \<Rightarrow> (gdix51c0_chicago_preprocessor_maybe_init r (self'\<lparr> chicago_preprocessor := None \<rparr>), w'))"

section \<open>Touched zones\<close>

lemma touch_bits_sum: "touch_bits zones = (\<Sum>k<8. of_bool (bit zones k))"
proof (induction zones rule: touch_bits.induct)
  case (1 zones)
  show ?case
  proof (cases "zones = 0")
    case True
    then show ?thesis by (simp add: touch_bits.simps)
  next
    case False
    have low: "unat (zones AND 1) = of_bool (bit zones 0)" by (cases "odd zones") (simp_all add: and_one_eq bit_0 odd_iff_mod_2_eq_one)
    have top: "\<not> bit zones 8" using bit_imp_le_length [of zones 8] by auto
    have "(\<Sum>k<8. of_bool (bit (drop_bit 1 zones) k)) = (\<Sum>k<8. of_bool (bit zones (Suc k)) :: nat)"
      by (simp add: bit_drop_bit_eq)
    also have "of_bool (bit zones 0) + \<dots> = (\<Sum>k<Suc 8. of_bool (bit zones k))" by (rule sum.lessThan_Suc_shift [symmetric])
    also have "\<dots> = (\<Sum>k<8. of_bool (bit zones k))" unfolding sum.lessThan_Suc using top by simp
    finally show ?thesis using False "1.IH" low by (simp add: touch_bits.simps [of zones])
  qed
qed

text \<open>The count is the number of zones whose bit is set.\<close>

lemma touch_count_zones: "gdix51c0_fdt_touch_count touchflag = card {k. k < 6 \<and> bit touchflag k}"
proof -
  have mask: "bit (0x3f :: byte) k \<longleftrightarrow> k < 6" for k
    using bit_mask_iff [of 6 k, where 'a = byte] by (auto simp: mask_eq_exp_minus_1)
  have "gdix51c0_fdt_touch_count touchflag = (\<Sum>k<8. of_bool (k < 6 \<and> bit touchflag k))"
    unfolding gdix51c0_fdt_touch_count_def touch_bits_sum bit_and_iff mask by (simp only: conj_commute)
  also have "\<dots> = card {k \<in> {..<8}. k < 6 \<and> bit touchflag k}" by (simp add: sum_of_bool_eq Int_def conj_commute)
  also have "{k \<in> {..<8}. k < 6 \<and> bit touchflag k} = {k. k < 6 \<and> bit touchflag k}" by auto
  finally show ?thesis .
qed

text \<open>Finger detection counts the six zones: a touch is a finger exactly when at least the minimum number of
  zones of the sensor's profile is set, which is from 1 to 255. Once there is a base without a finger the threshold of
  every zone is half its base, kept between 1 and 255, behind the fixed byte 0x80.\<close>

theorem fdt_thresholds:
  "(gdix51c0_fdt_touch_is_finger self touchflag = (gdix51c0_fdt_trigger_min self \<le> card {k. k < 6 \<and> bit touchflag k})) \<and>
   gdix51c0_fdt_touch_count touchflag \<le> 6 \<and> 1 \<le> gdix51c0_fdt_trigger_min self \<and> gdix51c0_fdt_trigger_min self \<le> 255 \<and>
   (let regs = fdt_down_regs (gdix51c0_fdt_update_down_thresholds (gdix51c0_fdt_store_zero_touch_baseline self [b0, b1, b2, b3, b4, b5]));
        half = (\<lambda>b :: u16. max 1 (min 255 (unat b div 2)))
    in map (\<lambda>i. (regs ! (2 * i), unat (regs ! (2 * i + 1)))) [0..<6] =
       [(0x80, half b0), (0x80, half b1), (0x80, half b2), (0x80, half b3), (0x80, half b4), (0x80, half b5)] \<and> length regs = 12)"
proof (intro conjI)
  show "gdix51c0_fdt_touch_is_finger self touchflag = (gdix51c0_fdt_trigger_min self \<le> card {k. k < 6 \<and> bit touchflag k})"
    by (simp add: gdix51c0_fdt_touch_is_finger_def touch_count_zones)
  have "card {k. k < 6 \<and> bit touchflag k} \<le> card {..<6 :: nat}" by (rule card_mono) auto
  then show "gdix51c0_fdt_touch_count touchflag \<le> 6" by (simp add: touch_count_zones)
  have "0 < w \<Longrightarrow> 1 \<le> unat w" for w :: byte by (simp add: Suc_le_eq word_less_nat_alt)
  moreover have "unat w \<le> 255" for w :: byte
  proof -
    have "unat w < 2 ^ LENGTH(8)" by (rule unsigned_less)
    then show ?thesis by simp
  qed
  ultimately show "1 \<le> gdix51c0_fdt_trigger_min self" "gdix51c0_fdt_trigger_min self \<le> 255"
    by (auto simp: gdix51c0_fdt_trigger_min_def split: option.split)
  have zones: "[0..<6] = [0, 1, 2, 3, 4, 5 :: nat]" by code_simp
  have clamp: "unat (clamp_register (uint b div 2)) = max 1 (min 255 (unat b div 2))" for b :: u16
  proof -
    have "uint b div 2 = int (unat b div 2)" by (simp add: zdiv_int)
    then show ?thesis
      by (auto simp: clamp_register_def min_def max_def unsigned_of_nat take_bit_nat_eq_self_iff)
  qed
  show "let regs = fdt_down_regs (gdix51c0_fdt_update_down_thresholds (gdix51c0_fdt_store_zero_touch_baseline self [b0, b1, b2, b3, b4, b5]));
        half = (\<lambda>b :: u16. max 1 (min 255 (unat b div 2)))
    in map (\<lambda>i. (regs ! (2 * i), unat (regs ! (2 * i + 1)))) [0..<6] =
       [(0x80, half b0), (0x80, half b1), (0x80, half b2), (0x80, half b3), (0x80, half b4), (0x80, half b5)] \<and> length regs = 12"
    by (simp add: gdix51c0_fdt_update_down_thresholds_def gdix51c0_fdt_store_zero_touch_baseline_def clamp zones Let_def)
qed

section \<open>Files\<close>

lemma hex_pair: "strtoull_pair (hex_digits ! (unat b div 16)) (hex_digits ! (unat b mod 16)) = Some b"
proof -
  have digit: "hex_value (hex_digits ! n) = Some n \<and> \<not> strtoull_space (hex_digits ! n) \<and> hex_digits ! n \<noteq> CHR ''+'' \<and> hex_digits ! n \<noteq> CHR ''-''"
    if "n < 16" for n
  proof -
    have "list_all (\<lambda>n. hex_value (hex_digits ! n) = Some n \<and> \<not> strtoull_space (hex_digits ! n) \<and> hex_digits ! n \<noteq> CHR ''+'' \<and> hex_digits ! n \<noteq> CHR ''-'') [0..<16]"
      by code_simp
    then show ?thesis using that by (simp add: list_all_iff)
  qed
  have "unat b < 2 ^ LENGTH(8)" by (rule unsigned_less)
  then have "unat b div 16 < 16" "unat b mod 16 < 16" by simp_all
  then show ?thesis using digit by (simp add: strtoull_pair_def)
qed

lemma parse_hex: "parse_pairs (gdix51c0_psk_to_hex psk) = Some psk"
  by (induction psk) (simp_all add: gdix51c0_psk_to_hex_def hex_pair)

lemma length_hex [simp]: "length (gdix51c0_psk_to_hex psk) = 2 * length psk"
  by (induction psk) (simp_all add: gdix51c0_psk_to_hex_def)

lemma hex_chars: "c \<in> set (gdix51c0_psk_to_hex psk) \<Longrightarrow> \<not> ascii_space c \<and> of_char c < (256 :: nat) \<and> c \<noteq> CHR 0x00"
proof -
  have all: "list_all (\<lambda>n. \<not> ascii_space (hex_digits ! n) \<and> of_char (hex_digits ! n) < (256 :: nat) \<and> hex_digits ! n \<noteq> CHR 0x00) [0..<16]"
    by code_simp
  assume "c \<in> set (gdix51c0_psk_to_hex psk)"
  then obtain b where "c = hex_digits ! (unat b div 16) \<or> c = hex_digits ! (unat (b :: byte) mod 16)"
    by (auto simp: gdix51c0_psk_to_hex_def)
  moreover have "unat b < 2 ^ LENGTH(8)" by (rule unsigned_less)
  then have "unat b div 16 < 16" "unat b mod 16 < 16" by simp_all
  ultimately show ?thesis using all by (auto simp: list_all_iff)
qed

lemma char_byte: "char_of (unat (of_nat (of_char c) :: byte)) = c"
proof -
  have "of_char c < (256 :: nat)" by simp
  then have "take_bit 8 (of_char c) = (of_char c :: nat)" by (simp add: take_bit_nat_eq_self_iff)
  then show ?thesis by (simp add: unsigned_of_nat)
qed

lemma byte_zero: "(of_nat (of_char c) :: byte) = 0 \<longleftrightarrow> c = CHR 0x00"
proof
  assume "(of_nat (of_char c) :: byte) = 0"
  then have "char_of (unat (of_nat (of_char c) :: byte)) = char_of (0 :: nat)" by simp
  then show "c = CHR 0x00" unfolding char_byte by (simp add: char_of_def)
qed simp

lemma psk_file_text: "c_string (psk_file psk) = gdix51c0_psk_to_hex psk @ [CHR 0x0A]"
proof -
  have "takeWhile (\<lambda>b. b \<noteq> 0) (psk_file psk) = psk_file psk"
    using hex_chars by (auto simp: psk_file_def takeWhile_eq_all_conv byte_zero)
  then have "c_string (psk_file psk) = map (\<lambda>b. char_of (unat b)) (psk_file psk)" by (simp only: c_string_def)
  moreover have "char_of (unat (10 :: byte)) = CHR 0x0A" by code_simp
  ultimately show ?thesis by (simp add: psk_file_def char_byte comp_def)
qed

lemma strip_line:
  assumes "\<And>c. c \<in> set s \<Longrightarrow> \<not> ascii_space c"
  shows "strstrip (s @ [CHR 0x0A]) = s"
proof -
  have nl: "ascii_space (CHR 0x0A)" by code_simp
  have "dropWhile ascii_space s = s" using assms by (cases s) auto
  then show ?thesis
  proof (cases s rule: rev_cases)
    case (snoc ys y)
    moreover have "\<not> ascii_space y" using assms snoc by simp
    moreover have "dropWhile ascii_space (ys @ [y, CHR 0x0A]) = ys @ [y, CHR 0x0A]"
      using assms snoc by (cases ys) auto
    ultimately show ?thesis by (simp add: strstrip_def nl)
  qed (simp add: strstrip_def nl)
qed

text \<open>C28: The key survives a restart. The file that is written for a key of 32 bytes is 65 bytes long, and reading it
  back, with the white space around it stripped, gives that key; the text itself is accepted for the variable of
  the environment, and no text of another length is.\<close>

theorem psk_file_roundtrip:
  "(length psk = PSK_LEN \<longrightarrow> length (psk_file psk) = 65 \<and> psk_of_contents (psk_file psk) = Some psk \<and>
      gdix51c0_parse_psk_hex (gdix51c0_psk_to_hex psk) = Inr psk) \<and>
   (gdix51c0_parse_psk_hex hex = Inr out \<longrightarrow> length hex = 64 \<and> length out = PSK_LEN)"
proof (intro conjI impI)
  assume len: "length psk = PSK_LEN"
  show "length (psk_file psk) = 65" using len by (simp add: psk_file_def)
  show parse: "gdix51c0_parse_psk_hex (gdix51c0_psk_to_hex psk) = Inr psk" using len by (simp add: gdix51c0_parse_psk_hex_def parse_hex)
  have "strstrip (c_string (psk_file psk)) = gdix51c0_psk_to_hex psk"
    unfolding psk_file_text using hex_chars by (intro strip_line) blast
  then show "psk_of_contents (psk_file psk) = Some psk" using len parse by (simp add: psk_of_contents_def)
next
  assume ok: "gdix51c0_parse_psk_hex hex = Inr out"
  then show "length hex = 64" by (auto simp: gdix51c0_parse_psk_hex_def split: if_splits)
  have "parse_pairs hex = Some out \<Longrightarrow> length out = length hex div 2" for hex out
    by (induction hex arbitrary: out rule: parse_pairs.induct) (auto split: option.splits)
  then show "length out = PSK_LEN" using ok by (auto simp: gdix51c0_parse_psk_hex_def split: if_splits option.splits)
qed

theorem psk_file_roundtrip_witness: "psk_of_contents (psk_file (replicate PSK_LEN 0xa5)) = Some (replicate PSK_LEN 0xa5)"
  using psk_file_roundtrip [of "replicate PSK_LEN 0xa5" "[]" "[]"] by simp

lemma length_le64 [simp]: "length (le64_bytes v) = 8"
  by (simp add: le64_bytes_def)

lemma le16s_at: "k < length ws \<Longrightarrow> le16_at (pre @ le16s ws) (length pre + 2 * k) = ws ! k"
  by (simp add: le16_at_append le16_at_le16s)

text \<open>The frame without a finger survives a restart of the same sensor only. What a device saves, with a sensor id of
  16 bytes and a frame of 5120 samples, is a file that any device whose id has been read takes the frame from exactly
  when its id is the same; otherwise, as for a file of another length, the device is left as it was.\<close>

theorem baseline_file_roundtrip:
  "(length (sensor_id self) = SENSOR_ID_LEN \<and> length (t0_baseline self) = FRAME_PIXELS \<longrightarrow>
     baseline_of_contents self' (baseline_file self now) =
       (if sensor_id_valid self' \<and> sensor_id self' = sensor_id self
        then self'\<lparr> t0_baseline := t0_baseline self, t0_baseline_valid := True \<rparr> else self')) \<and>
   (length contents \<noteq> BASELINE_LEN \<longrightarrow> baseline_of_contents self' contents = self')"
proof (intro conjI impI)
  assume len: "length (sensor_id self) = SENSOR_ID_LEN \<and> length (t0_baseline self) = FRAME_PIXELS"
  let ?pre = "le32_bytes BASELINE_MAGIC @ [BASELINE_VERSION, 0, 0, 0] @ le64_bytes now @ sensor_id self"
  have saved: "baseline_file self now = ?pre @ le16s (t0_baseline self)" by (simp add: baseline_file_def)
  have pre: "length ?pre = 32" using len by (simp add: le32_bytes_def)
  have head: "length (baseline_file self now) = BASELINE_LEN" "le32_at (baseline_file self now) 0 = BASELINE_MAGIC"
    "baseline_file self now ! 4 = BASELINE_VERSION" "take SENSOR_ID_LEN (drop 16 (baseline_file self now)) = sensor_id self"
    using len by (simp_all add: baseline_file_def le32_bytes_def le32_at_def)
  have "map (\<lambda>k. le16_at (baseline_file self now) (32 + 2 * k)) [0..<FRAME_PIXELS] = t0_baseline self"
  proof (rule nth_equalityI)
    show "length (map (\<lambda>k. le16_at (baseline_file self now) (32 + 2 * k)) [0..<FRAME_PIXELS]) = length (t0_baseline self)"
      using len by simp
    show "map (\<lambda>k. le16_at (baseline_file self now) (32 + 2 * k)) [0..<FRAME_PIXELS] ! k = t0_baseline self ! k"
      if "k < length (map (\<lambda>k. le16_at (baseline_file self now) (32 + 2 * k)) [0..<FRAME_PIXELS])" for k
      using that len le16s_at [of k "t0_baseline self" ?pre] unfolding saved pre by simp
  qed
  then show "baseline_of_contents self' (baseline_file self now) =
       (if sensor_id_valid self' \<and> sensor_id self' = sensor_id self
        then self'\<lparr> t0_baseline := t0_baseline self, t0_baseline_valid := True \<rparr> else self')"
    unfolding baseline_of_contents_def head by auto
qed (simp add: baseline_of_contents_def)

text \<open>A device without a session, whose sensor is known.\<close>

definition sample_device :: "(unit, unit) device" where
  "sample_device = \<lparr> listener = None, tls = blank_tls, tls_ready = False, skip_next_identify = False, session_desynced = False,
     psk_reprovision_pending = False, psk_reprovision_attempted_this_open = False, psk_reprovision_completed_this_open = False,
     fdt_down_regs = gdix51c0_default_fdt_down_regs, fdt_down_sample = replicate 6 0, fdt_down_sample_valid = False,
     require_lift_gap = False, fdt_baseline = replicate 6 0, fdt_baseline_valid = False, active_dac_main = 0x0b38,
     sensor_profile = goodix_sensor_profile_lookup 0x2504, sensor_id = replicate SENSOR_ID_LEN 3, sensor_id_valid = True,
     chicago_calibration = None, chicago_preprocessor = None, t0_baseline = replicate FRAME_PIXELS 7, t0_baseline_valid = True,
     image_base_refreshed_this_open = False \<rparr>"

theorem baseline_file_roundtrip_witness:
  "baseline_of_contents (sample_device\<lparr> t0_baseline := [], t0_baseline_valid := False \<rparr>) (baseline_file sample_device 5) = sample_device"
  using baseline_file_roundtrip [of sample_device "sample_device\<lparr> t0_baseline := [], t0_baseline_valid := False \<rparr>" 5 "[]"]
  by (simp add: sample_device_def)

end
