(* ===== verification/Gdix_Capture.thy ===== *)
theory Gdix_Capture
  imports Gdix_Device
begin

text \<open>
  Captures (gdix51c0.c): arming and reading finger detection in its three modes, waiting for the finger to come
  and to go, and reading an image. All of it goes through the listener; only the read of the navigation data
  also has a synchronous form.
\<close>

section \<open>Steps\<close>

definition set_device :: "(('ssl, 'pre) device \<Rightarrow> ('ssl, 'pre) device) \<Rightarrow> ('ssl, 'pre, 'w, unit) step" where
  "set_device f = (\<lambda>(self, w). Some (Inr (), (f self, w)))"

definition pause :: "('ssl, 'pre, 'w) rig \<Rightarrow> nat \<Rightarrow> ('ssl, 'pre, 'w, unit) step" where
  "pause r usec = (\<lambda>(self, w). Some (Inr (), (self, bus_sleep (rig_kernel r) usec w)))"

text \<open>A call of the listener, which has to be up.\<close>

definition with_listener :: "(queues \<times> 'w, 'a) action \<Rightarrow> ('ssl, 'pre, 'w, 'a) step" where
  "with_listener m = (\<lambda>(self, w).
     case listener self of
       None \<Rightarrow> Some (Inl G_IO_ERROR_NOT_INITIALIZED, (self, w))
     | Some queues \<Rightarrow> (case m (queues, w) of
         None \<Rightarrow> None
       | Some (result, (queues', w')) \<Rightarrow> Some (result, (self\<lparr> listener := Some queues' \<rparr>, w'))))"

definition with_tls :: "('ssl tls \<times> 'w, 'a) action \<Rightarrow> ('ssl, 'pre, 'w, 'a) step" where
  "with_tls m = (\<lambda>(self, w).
     case m (tls self, w) of None \<Rightarrow> None | Some (result, (t, w')) \<Rightarrow> Some (result, (self\<lparr> tls := t \<rparr>, w')))"

text \<open>The packet of a command; the data of all commands here fit.\<close>

definition command_packet :: "byte \<Rightarrow> bytes \<Rightarrow> bytes" where
  "command_packet cmd data = (case gdix51c0_make_payload_packet cmd data of None \<Rightarrow> [] | Some packet \<Rightarrow> packet)"

text \<open>A cancelled action leaves the session out of step.\<close>

definition gdix51c0_action_check_cancelled :: "('ssl, 'pre, 'w) rig \<Rightarrow> ('ssl, 'pre, 'w, unit) step" where
  "gdix51c0_action_check_cancelled r = (\<lambda>(self, w).
     case rig_cancelled r w of (cancelled, w') \<Rightarrow>
       if cancelled then Some (Inl G_IO_ERROR_CANCELLED, (self\<lparr> session_desynced := True \<rparr>, w'))
       else Some (Inr (), (self, w')))"

text \<open>An action may be the body of a loop.\<close>

lemma and_then_bind:
  "and_then m g s = Option.bind (m s) (\<lambda>(r, s'). case r of Inl e \<Rightarrow> Some (Inl e, s') | Inr x \<Rightarrow> g x s')"
  by (auto simp: and_then_def split: option.split sum.split)

lemma and_then_mono [partial_function_mono]:
  assumes "\<And>s. mono_option (\<lambda>f. m f s)" and "\<And>x s. mono_option (\<lambda>f. g f x s)"
  shows "mono_option (\<lambda>f. and_then (m f) (g f) s)"
proof -
  have "mono_option (\<lambda>f. case p of (r, s') \<Rightarrow> case r of Inl e \<Rightarrow> Some (Inl e, s') | Inr x \<Rightarrow> g f x s')" for p
    by (cases p; cases "fst p") (auto intro: assms(2) option.const_mono)
  then show ?thesis unfolding and_then_bind by (intro bind_mono assms(1))
qed

section \<open>Finger detection\<close>

abbreviation (input) TOUCH_IGNORE :: byte where "TOUCH_IGNORE \<equiv> 0xff"

definition zone_samples :: "bytes \<Rightarrow> u16 list" where
  "zone_samples resp = map (\<lambda>i. le16_at resp (7 + i * 2)) [0..<6]"

definition fdt_down_data :: "bytes \<Rightarrow> u16 \<Rightarrow> bytes" where
  "fdt_down_data regs ts = [0x08, 0x01] @ regs @ le16_bytes ts"

definition gdix51c0_fdt_down_arm :: "('ssl, 'pre, 'w) rig \<Rightarrow> ('ssl, 'pre, 'w, unit) step" where
  "gdix51c0_fdt_down_arm r = (\<lambda>(self, w).
     let self1 = gdix51c0_fdt_update_down_thresholds self in
     case host_now (rig_host r) w of (now, w1) \<Rightarrow>
       let packet = command_packet CMD_FDT_DOWN (fdt_down_data (fdt_down_regs self1) (of_int now)) in
       if listener self1 = None then Some (Inl G_IO_ERROR_NOT_INITIALIZED, (self1, w1))
       else and_then (pause r 80000) (\<lambda>_.
         with_listener (\<lambda>s. gdix51c0_listener_send_ack (rig_host r) packet (drain_cmd (rig_host r) CMD_FDT_DOWN s)))
         (self1, w1))"

text \<open>What an answer does to the device: a short one is ignored, one without a touch renews the base.\<close>

definition fdt_down_response :: "bytes \<Rightarrow> ('ssl, 'pre) device \<Rightarrow> byte \<times> ('ssl, 'pre) device" where
  "fdt_down_response resp self =
     (if length resp < 17 then (TOUCH_IGNORE, self)
      else
        let touchflag = resp ! 5; self1 = self\<lparr> fdt_down_sample_valid := False \<rparr> in
        if length resp \<ge> 20 then
          let self2 = self1\<lparr> fdt_down_sample := zone_samples resp, fdt_down_sample_valid := True \<rparr>
          in (touchflag, if touchflag AND 0x3f = 0
              then gdix51c0_fdt_store_zero_touch_baseline self2 (fdt_down_sample self2) else self2)
        else (touchflag, self1))"

definition gdix51c0_fdt_down_read :: "('ssl, 'pre, 'w) rig \<Rightarrow> nat \<Rightarrow> ('ssl, 'pre, 'w, byte) step" where
  "gdix51c0_fdt_down_read r finger_timeout_usec =
     and_then (with_listener (gdix51c0_listener_await (rig_host r) CMD_FDT_DOWN finger_timeout_usec))
       (\<lambda>resp (self, w). case fdt_down_response resp self of (touchflag, self') \<Rightarrow> Some (Inr touchflag, (self', w)))"

definition store_touched_sample :: "u16 list \<Rightarrow> ('ssl, 'pre) device \<Rightarrow> ('ssl, 'pre) device" where
  "store_touched_sample sample self = self\<lparr> fdt_down_sample := sample, fdt_down_sample_valid := True \<rparr>"

text \<open>A sample without a touch is the new base, any other one what the thresholds of the lift are taken from.\<close>

definition store_sample :: "byte \<Rightarrow> u16 list \<Rightarrow> ('ssl, 'pre) device \<Rightarrow> ('ssl, 'pre) device" where
  "store_sample touchflag sample self =
     (if touchflag AND 0x3f = 0 then gdix51c0_fdt_store_zero_touch_baseline self sample
      else store_touched_sample sample self)"

definition gdix51c0_parse_fdt_up_response :: "bytes \<Rightarrow> ('ssl, 'pre) device \<Rightarrow> byte result \<times> ('ssl, 'pre) device" where
  "gdix51c0_parse_fdt_up_response resp self =
     (if length resp < 17 \<or> resp ! 0 \<noteq> CMD_FDT_UP then (Inl G_IO_ERROR_INVALID_DATA, self)
      else if length resp \<ge> 20 then (Inr (resp ! 5), store_sample (resp ! 5) (zone_samples resp) self)
      else (Inr (resp ! 5), self))"

definition fdt_up_data :: "u16 list \<Rightarrow> bytes" where
  "fdt_up_data sample =
     [0x0a, 0x02] @ concat (map (\<lambda>i. [0x80, clamp_register (uint (sample ! i) div 2 + 29)]) [0..<6])"

definition gdix51c0_fdt_up_arm :: "('ssl, 'pre, 'w) rig \<Rightarrow> ('ssl, 'pre, 'w, unit) step" where
  "gdix51c0_fdt_up_arm r = (\<lambda>(self, w).
     if \<not> fdt_down_sample_valid self then Some (Inl G_IO_ERROR_FAILED, (self, w))
     else
       let packet = command_packet CMD_FDT_UP (fdt_up_data (fdt_down_sample self))
       in with_listener (\<lambda>s. gdix51c0_listener_send_ack (rig_host r) packet (drain_cmd (rig_host r) CMD_FDT_UP s)) (self, w))"

definition gdix51c0_fdt_up_read :: "('ssl, 'pre, 'w) rig \<Rightarrow> nat \<Rightarrow> ('ssl, 'pre, 'w, byte) step" where
  "gdix51c0_fdt_up_read r lift_timeout_usec =
     and_then (with_listener (gdix51c0_listener_await (rig_host r) CMD_FDT_UP lift_timeout_usec))
       (\<lambda>resp (self, w). case gdix51c0_parse_fdt_up_response resp self of (result, self') \<Rightarrow> Some (result, (self', w)))"

definition gdix51c0_fdt_manual_read :: "('ssl, 'pre, 'w) rig \<Rightarrow> ('ssl, 'pre, 'w, byte \<times> u16 list) step" where
  "gdix51c0_fdt_manual_read r = (\<lambda>(self, w).
     and_then (with_listener (gdix51c0_listener_command (rig_host r)
         (command_packet CMD_FDT_MANUAL ([0x09, 0x03] @ fdt_down_regs self)) CMD_FDT_MANUAL 10000000))
       (\<lambda>resp. if length resp < 20 then fail_with G_IO_ERROR_INVALID_DATA
               else done_with (resp ! 5, zone_samples resp)) (self, w))"

text \<open>The result is whether the finger is off.\<close>

definition gdix51c0_fdt_measure_base :: "('ssl, 'pre, 'w) rig \<Rightarrow> ('ssl, 'pre, 'w, bool) step" where
  "gdix51c0_fdt_measure_base r =
     and_then (gdix51c0_fdt_manual_read r) (\<lambda>(touchflag, sample).
       and_then (set_device (store_sample touchflag sample)) (\<lambda>_. done_with (touchflag AND 0x3f = 0)))"

section \<open>Images\<close>

text \<open>The stream runs along the 64 rows; the image has rows of 80 samples.\<close>

definition gdix51c0_decode_12bpp_to_16bpp :: "bytes \<Rightarrow> nat \<Rightarrow> u16 list" where
  "gdix51c0_decode_12bpp_to_16bpp packed out_pixels =
     (case goodix_raw12_decode packed (replicate out_pixels 0) of (stream, decoded) \<Rightarrow>
       foldl (\<lambda>out n.
         let dst = n mod 64 * 80 + n div 64
         in if dst < out_pixels then out[dst := stream ! n] else out) (replicate out_pixels 0) [0..<decoded])"

definition image_setmode :: "byte \<Rightarrow> bytes" where
  "image_setmode cmd =
     (let p = [cmd, 0x03, 0x00, 0x01, 0x00, 0x00] in p[5 := gdix51c0_payload_checksum p 5])"

text \<open>The listener keeps off the bus while the sensor reads the array out.\<close>

definition quiet_readout :: "('ssl, 'pre, 'w) rig \<Rightarrow> ('ssl, 'pre, 'w, unit) step" where
  "quiet_readout r = (\<lambda>(self, w).
     Some (Inr (), (self, rig_suppress r False (bus_sleep (rig_kernel r) 80000 (rig_suppress r True w)))))"

text \<open>One submission and the wait for its record; only a missing record is retried.\<close>

definition image_attempt :: "('ssl, 'pre, 'w) rig \<Rightarrow> byte \<Rightarrow> (gio_error \<Rightarrow> ('ssl, 'pre, 'w, bytes) step) \<Rightarrow> ('ssl, 'pre, 'w, bytes) step" where
  "image_attempt r cmd on_missing =
     and_then (with_listener (\<lambda>s. gdix51c0_listener_send_ack (rig_host r) (image_setmode cmd) (drain_cmd (rig_host r) 0x17 s)))
       (\<lambda>_. and_then (quiet_readout r)
         (\<lambda>_. or_else (with_listener (gdix51c0_listener_await (rig_host r) 0x17 1000000)) on_missing))"

definition image_record :: "('ssl, 'pre, 'w) rig \<Rightarrow> byte \<Rightarrow> ('ssl, 'pre, 'w, bytes) step" where
  "image_record r cmd =
     image_attempt r cmd (\<lambda>e. if e = G_IO_ERROR_TIMED_OUT
       then image_attempt r cmd (\<lambda>_. fail_with G_IO_ERROR_CONNECTION_CLOSED)
       else fail_with G_IO_ERROR_CONNECTION_CLOSED)"

text \<open>A record is decrypted once: after that nothing is retried. The error of the decryption is replaced.\<close>

definition decode_record :: "('ssl, 'pre, 'w) rig \<Rightarrow> bytes \<Rightarrow> ('ssl, 'pre, 'w, u16 list) step" where
  "decode_record r encrypted =
     (if length encrypted < 5 then fail_with G_IO_ERROR_INVALID_DATA
      else if \<not> gdix51c0_tls_record_header_ok encrypted then fail_with G_IO_ERROR_INVALID_DATA
      else if encrypted ! 0 \<noteq> 0x17 then fail_with G_IO_ERROR_INVALID_DATA
      else
        and_then (or_else (with_tls (gdix51c0_tls_decrypt_record (rig_kernel r) (rig_ssl r) encrypted)) (\<lambda>_. fail_with G_IO_ERROR_FAILED))
          (\<lambda>plain. if length plain < 8 + FRAME_BYTES then fail_with G_IO_ERROR_INVALID_DATA
                   else done_with (gdix51c0_decode_12bpp_to_16bpp (take FRAME_BYTES (drop 8 plain)) FRAME_PIXELS)))"

definition gdix51c0_capture_image_raw :: "('ssl, 'pre, 'w) rig \<Rightarrow> byte \<Rightarrow> bool \<Rightarrow> ('ssl, 'pre, 'w, u16 list) step" where
  "gdix51c0_capture_image_raw r cmd retry_image = (\<lambda>(self, w).
     if listener self = None then Some (Inl G_IO_ERROR_NOT_INITIALIZED, (self, w))
     else
       and_then (if retry_image then done_with () else pause r 10000)
         (\<lambda>_. and_then (image_record r cmd) (decode_record r)) (self, w))"

definition gdix51c0_capture_nav_data :: "('ssl, 'pre, 'w) rig \<Rightarrow> ('ssl, 'pre, 'w, unit) step" where
  "gdix51c0_capture_nav_data r = (\<lambda>(self, w).
     let packet = command_packet CMD_NAV_BASE [0x00, 0x00] in
     and_then
       (if listener self \<noteq> None then with_listener (gdix51c0_listener_command (rig_host r) packet CMD_NAV_BASE 1000000)
        else on_bus (gdix51c0_cmd_ack_then_resp_read (rig_kernel r) packet 1000000))
       (\<lambda>nav. if length nav < 3 \<or> nav ! 0 \<noteq> CMD_NAV_BASE then fail_with G_IO_ERROR_INVALID_DATA else done_with ())
       (self, w))"

text \<open>The frame without a finger, as far as it can be had.\<close>

definition gdix51c0_baseline_capture_and_save :: "('ssl, 'pre, 'w) rig \<Rightarrow> ('ssl, 'pre, 'w, unit) step" where
  "gdix51c0_baseline_capture_and_save r =
     or_else
       (and_then (gdix51c0_capture_image_raw r CMD_IMAGE_T0 False) (\<lambda>raw (self, w).
          case gdix51c0_baseline_adopt_and_save r raw (self, w) of (self', w') \<Rightarrow>
            Some (Inr (), (self'\<lparr> image_base_refreshed_this_open := True \<rparr>, w'))))
       (\<lambda>_. done_with ())"

section \<open>Waiting for the finger\<close>

abbreviation (input) FINGER_TIMEOUT_USEC :: nat where "FINGER_TIMEOUT_USEC \<equiv> 60 * 1000 * 1000"
abbreviation (input) CANCEL_POLL_USEC :: int where "CANCEL_POLL_USEC \<equiv> 500 * 1000"
abbreviation (input) FDT_UP_DRAIN_USEC :: int where "FDT_UP_DRAIN_USEC \<equiv> 300 * 1000"

text \<open>What a touch says while a finger is awaited: that it is one, or that detection is armed again. Until a gap
  without a touch was seen that is due, nothing is a finger.\<close>

definition judge_touch :: "byte \<Rightarrow> ('ssl, 'pre) device \<Rightarrow> bool \<times> ('ssl, 'pre) device" where
  "judge_touch touchflag self =
     (if touchflag = TOUCH_IGNORE then (False, self)
      else if require_lift_gap self \<and> touchflag \<noteq> 0 then (False, self)
      else
        let self' = (if require_lift_gap self then self\<lparr> require_lift_gap := False \<rparr> else self)
        in (gdix51c0_fdt_touch_is_finger self' touchflag, self'))"

partial_function (option) finger_loop :: "('ssl, 'pre, 'w) rig \<Rightarrow> int \<Rightarrow> ('ssl, 'pre, 'w, unit) step" where
  "finger_loop r finger_deadline s =
     and_then (gdix51c0_action_check_cancelled r) (\<lambda>_ (self, w).
       case host_now (rig_host r) w of (now, w1) \<Rightarrow>
         if now \<ge> finger_deadline then Some (Inl G_IO_ERROR_TIMED_OUT, (self, w1))
         else case gdix51c0_fdt_down_read r (nat (min (finger_deadline - now) CANCEL_POLL_USEC)) (self, w1) of
           None \<Rightarrow> None
         | Some (Inl e, (self2, w2)) \<Rightarrow>
             (case host_now (rig_host r) w2 of (now2, w3) \<Rightarrow>
               if now2 \<ge> finger_deadline then Some (Inl G_IO_ERROR_TIMED_OUT, (self2, w3))
               else if e = G_IO_ERROR_TIMED_OUT then finger_loop r finger_deadline (self2, w3)
               else and_then (gdix51c0_fdt_down_arm r) (\<lambda>_. finger_loop r finger_deadline) (self2, w3))
         | Some (Inr touchflag, (self2, w2)) \<Rightarrow>
             (case judge_touch touchflag self2 of (finger, self3) \<Rightarrow>
               if finger then Some (Inr (), (self3, w2))
               else and_then (gdix51c0_fdt_down_arm r) (\<lambda>_. finger_loop r finger_deadline) (self3, w2))) s"

declare finger_loop.simps [code]

text \<open>Without a base one is measured first, as far as it can be.\<close>

definition gdix51c0_wait_for_finger :: "('ssl, 'pre, 'w) rig \<Rightarrow> ('ssl, 'pre, 'w, unit) step" where
  "gdix51c0_wait_for_finger r = (\<lambda>(self, w).
     case host_now (rig_host r) w of (now, w1) \<Rightarrow>
       and_then
         (if fdt_baseline_valid self then done_with ()
          else or_else (and_then (gdix51c0_fdt_measure_base r) (\<lambda>_. done_with ())) (\<lambda>_. done_with ()))
         (\<lambda>_. and_then (gdix51c0_fdt_down_arm r) (\<lambda>_. finger_loop r (now + int FINGER_TIMEOUT_USEC))) (self, w1))"

section \<open>Waiting for the lift\<close>

text \<open>When the event of a lift does not come the touch is read on demand; the result is the touch flag.\<close>

definition lift_probe :: "('ssl, 'pre, 'w) rig \<Rightarrow> ('ssl, 'pre, 'w, byte) step" where
  "lift_probe r =
     and_then (with_listener (\<lambda>s. Some (Inr (), drain_cmd (rig_host r) CMD_FDT_UP s))) (\<lambda>_.
       or_else
         (and_then (gdix51c0_fdt_manual_read r) (\<lambda>(touchflag, sample).
            and_then (set_device (store_sample touchflag sample)) (\<lambda>_. done_with touchflag)))
         (\<lambda>_. done_with 0xff))"

definition lift_touch :: "('ssl, 'pre, 'w) rig \<Rightarrow> nat \<Rightarrow> ('ssl, 'pre, 'w, byte) step" where
  "lift_touch r usec =
     or_else (gdix51c0_fdt_up_read r usec) (\<lambda>e. if e = G_IO_ERROR_TIMED_OUT then lift_probe r else fail_with e)"

text \<open>How long an armed event is waited for: what is left, but at least until it fires and at most one poll.\<close>

definition lift_wait :: "int \<Rightarrow> int \<Rightarrow> nat" where
  "lift_wait lift_deadline now =
     nat (min (max (if lift_deadline > now then min (lift_deadline - now) 0xffffffff else 0) FDT_UP_DRAIN_USEC) CANCEL_POLL_USEC)"

partial_function (option) lift_loop :: "('ssl, 'pre, 'w) rig \<Rightarrow> int \<Rightarrow> ('ssl, 'pre, 'w, unit) step" where
  "lift_loop r lift_deadline s =
     and_then (gdix51c0_action_check_cancelled r) (\<lambda>_ (self, w).
       case host_now (rig_host r) w of (now, w1) \<Rightarrow>
         if now \<ge> lift_deadline then Some (Inl G_IO_ERROR_TIMED_OUT, (self, w1))
         else
           and_then (gdix51c0_fdt_up_arm r) (\<lambda>_.
           and_then (pause r 20000) (\<lambda>_ (self2, w2).
             case host_now (rig_host r) w2 of (now2, w3) \<Rightarrow>
               and_then (lift_touch r (lift_wait lift_deadline now2)) (\<lambda>touchflag (self4, w4).
                 if touchflag = 0 then
                   (if \<not> image_base_refreshed_this_open self4 then gdix51c0_baseline_capture_and_save r (self4, w4)
                    else Some (Inr (), (self4, w4)))
                 else and_then (pause r 50000) (\<lambda>_. lift_loop r lift_deadline) (self4, w4)) (self2, w3))) (self, w1)) s"

declare lift_loop.simps [code]

definition gdix51c0_wait_for_lift :: "('ssl, 'pre, 'w) rig \<Rightarrow> nat \<Rightarrow> ('ssl, 'pre, 'w, unit) step" where
  "gdix51c0_wait_for_lift r timeout_usec = (\<lambda>(self, w).
     case host_now (rig_host r) w of (now, w1) \<Rightarrow>
       and_then (pause r 20000) (\<lambda>_. lift_loop r (now + int timeout_usec)) (self, w1))"

section \<open>What a capture keeps\<close>

text \<open>An invariant of the listener's callers, on a device.\<close>

definition device_keeps :: "(queues \<times> 'w \<Rightarrow> bool) \<Rightarrow> ('ssl, 'pre) device \<times> 'w \<Rightarrow> bool" where
  "device_keeps J = (\<lambda>(self, w). \<forall>q. listener self = Some q \<longrightarrow> J (q, w))"

definition on_listener :: "('a \<Rightarrow> queues \<times> 'w \<Rightarrow> bool) \<Rightarrow> 'a \<Rightarrow> ('ssl, 'pre) device \<times> 'w \<Rightarrow> bool" where
  "on_listener Q x = (\<lambda>(self, w). \<exists>q. listener self = Some q \<and> Q x (q, w))"

lemma keeping_with_listener:
  assumes "keeping J m Q"
  shows "keeping (device_keeps J) (with_listener m) (on_listener Q)"
proof (rule keepingI)
  fix s r s' assume j: "device_keeps J s" and run: "with_listener m s = Some (r, s')"
  obtain self w where s: "s = (self, w)" by (cases s)
  show "device_keeps J s' \<and> (\<forall>x. r = Inr x \<longrightarrow> on_listener Q x s')"
  proof (cases "listener self")
    case None
    then show ?thesis using run s j by (auto simp: with_listener_def)
  next
    case (Some q)
    then obtain q' w' where m: "m (q, w) = Some (r, (q', w'))" "s' = (self\<lparr> listener := Some q' \<rparr>, w')"
      using run s by (auto simp: with_listener_def split: option.splits)
    then show ?thesis
      using keepingD [OF assms _ m(1)] j s Some by (simp add: device_keeps_def on_listener_def)
  qed
qed

text \<open>What leaves the listener alone.\<close>

lemma keeping_device:
  assumes "\<And>self. listener (f self) = listener self"
  shows "keeping (device_keeps J) (set_device f) (\<lambda>_ _. True)"
  using assms by (auto simp: keeping_def set_device_def device_keeps_def)

lemma keeping_pause: "(\<And>q w. J (q, w) \<Longrightarrow> J (q, bus_sleep (rig_kernel r) n w)) \<Longrightarrow> keeping (device_keeps J) (pause r n) (\<lambda>_ _. True)"
  by (auto simp: keeping_def pause_def device_keeps_def)

lemma keeping_true: "keeping J m Q \<Longrightarrow> keeping J m (\<lambda>_ _. True)"
  by (rule keeping_weaken) simp_all

lemma keeping_if: "keeping J m Q \<Longrightarrow> keeping J m' Q \<Longrightarrow> keeping J (if b then m else m') Q"
  by simp

lemma store_sample_listener [simp]: "listener (store_sample touchflag sample self) = listener self"
  by (simp add: store_sample_def store_touched_sample_def gdix51c0_fdt_store_zero_touch_baseline_def)

lemma thresholds_listener [simp]: "listener (gdix51c0_fdt_update_down_thresholds self) = listener self"
  by (simp add: gdix51c0_fdt_update_down_thresholds_def)

text \<open>The rig records what the listener dispatches, and neither a pause nor a question dispatches anything.\<close>

definition rig_records :: "('ssl, 'pre, 'w) rig \<Rightarrow> ('w \<Rightarrow> bytes list) \<Rightarrow> bool" where
  "rig_records r seen \<longleftrightarrow> records_arrivals (rig_host r) seen \<and>
     (\<forall>n w. seen (bus_sleep (rig_kernel r) n w) = seen w) \<and> (\<forall>w. seen (snd (rig_cancelled r w)) = seen w)"

lemma fresh_writes:
  "records_arrivals h seen \<Longrightarrow> only_fresh seen cmd n (q, w) \<Longrightarrow> only_fresh seen cmd n (q, snd (host_write h b w))"
  by (simp add: only_fresh_def records_arrivals_def)

text \<open>At least \<open>n\<close> packets have been seen.\<close>

definition seen_from :: "('w \<Rightarrow> bytes list) \<Rightarrow> nat \<Rightarrow> queues \<times> 'w \<Rightarrow> bool" where
  "seen_from seen n = (\<lambda>(q, w). n \<le> length (seen w))"

lemma seen_from_kept:
  assumes "records_arrivals h seen"
  shows "caller_keeps h (seen_from seen n)" "seen_from seen n (q, w) \<Longrightarrow> seen_from seen n (q, snd (host_write h b w))"
proof -
  note seen = assms [unfolded records_arrivals_def]
  have "seen_from seen n (catch_up h s)" if "seen_from seen n s" for s
  proof -
    obtain q w where s: "s = (q, w)" by (cases s)
    obtain ps w' where a: "host_arrivals h w = (ps, w')" by (cases "host_arrivals h w")
    have "seen w' = seen w @ ps" using seen a by (metis fst_conv snd_conv)
    then show ?thesis using that a unfolding s by (simp add: seen_from_def catch_up_def)
  qed
  then show "caller_keeps h (seen_from seen n)"
    using seen unfolding caller_keeps_def by (auto simp: seen_from_def)
  show "seen_from seen n (q, w) \<Longrightarrow> seen_from seen n (q, snd (host_write h b w))" using seen by (simp add: seen_from_def)
qed

lemma drained_fresh:
  assumes "records_arrivals h seen" and "seen_from seen n s"
  shows "only_fresh seen cmd n (drain_cmd h cmd s)"
proof -
  obtain q w where s: "s = (q, w)" by (cases s)
  obtain ps w1 where a: "host_arrivals h w = (ps, w1)" by (cases "host_arrivals h w")
  have "seen w1 = seen w @ ps" using assms(1) a unfolding records_arrivals_def by (metis fst_conv snd_conv)
  then show ?thesis using a assms(2) unfolding s
    by (simp add: drain_cmd_def catch_up_def gdix51c0_listener_drain_cmd_def only_fresh_def seen_from_def)
qed

lemma fresh_seen: "only_fresh seen cmd n s \<Longrightarrow> seen_from seen n s"
  by (cases s) (simp add: only_fresh_def seen_from_def)

text \<open>An acknowledged command after a drain leaves only fresh packets of the drained queue.\<close>

lemma drained_send_fresh:
  assumes "records_arrivals h seen"
  shows "keeping (seen_from seen n) (\<lambda>s. gdix51c0_listener_send_ack h pkt (drain_cmd h cmd s)) (\<lambda>_. only_fresh seen cmd n)"
proof (rule keepingI)
  fix s r s' assume s: "seen_from seen n s" and run: "gdix51c0_listener_send_ack h pkt (drain_cmd h cmd s) = Some (r, s')"
  have "keeping (only_fresh seen cmd n) (gdix51c0_listener_send_ack h pkt) (\<lambda>_ _. True)"
    by (intro keeping_send_ack only_fresh_kept fresh_writes assms)
  from keepingD [OF this drained_fresh [OF assms s] run] have "only_fresh seen cmd n s'" by simp
  then show "seen_from seen n s' \<and> (\<forall>x. r = Inr x \<longrightarrow> only_fresh seen cmd n s')" using fresh_seen by simp
qed

lemma down_arm_fresh:
  assumes "rig_records r seen" and "device_keeps (seen_from seen n) (self, w)"
    and "gdix51c0_fdt_down_arm r (self, w) = Some (result, s')"
  shows "device_keeps (seen_from seen n) s'" and "result = Inr () \<Longrightarrow> device_keeps (only_fresh seen CMD_FDT_DOWN n) s'"
proof -
  note rec = assms(1) [unfolded rig_records_def]
  obtain now w1 where n: "host_now (rig_host r) w = (now, w1)" by (cases "host_now (rig_host r) w")
  have "seen w1 = seen w" using rec n unfolding records_arrivals_def by (metis snd_conv)
  then have j: "device_keeps (seen_from seen n) (gdix51c0_fdt_update_down_thresholds self, w1)"
    using assms(2) by (simp add: device_keeps_def seen_from_def)
  have step: "keeping (device_keeps (seen_from seen n))
      (and_then (pause r 80000) (\<lambda>_. with_listener (\<lambda>s. gdix51c0_listener_send_ack (rig_host r) pkt (drain_cmd (rig_host r) CMD_FDT_DOWN s))))
      (on_listener (\<lambda>_. only_fresh seen CMD_FDT_DOWN n))" for pkt
    by (intro keeping_and_then [OF keeping_pause] keeping_with_listener drained_send_fresh) (use rec in \<open>auto simp: seen_from_def\<close>)
  note run = assms(3) [unfolded gdix51c0_fdt_down_arm_def Let_def prod.case n]
  have "device_keeps (seen_from seen n) s' \<and> (result = Inr () \<longrightarrow> device_keeps (only_fresh seen CMD_FDT_DOWN n) s')"
  proof (cases "listener self")
    case None
    then show ?thesis using run j by auto
  next
    case (Some q)
    then have "device_keeps (seen_from seen n) s' \<and> (\<forall>x. result = Inr x \<longrightarrow> on_listener (\<lambda>_. only_fresh seen CMD_FDT_DOWN n) x s')"
      using keepingD [OF step j] run by simp
    then show ?thesis by (cases s') (auto simp: on_listener_def device_keeps_def)
  qed
  then show "device_keeps (seen_from seen n) s'" "result = Inr () \<Longrightarrow> device_keeps (only_fresh seen CMD_FDT_DOWN n) s'" by simp_all
qed

text \<open>A touch that is read is that of a fresh packet.\<close>

definition fresh_touch :: "('w \<Rightarrow> bytes list) \<Rightarrow> nat \<Rightarrow> byte \<Rightarrow> 'w \<Rightarrow> bool" where
  "fresh_touch seen n touchflag w \<longleftrightarrow> touchflag = TOUCH_IGNORE \<or>
     (\<exists>resp. resp \<in> set (drop n (seen w)) \<and> resp ! 0 = CMD_FDT_DOWN \<and> 17 \<le> length resp \<and> resp ! 5 = touchflag)"

lemma down_read_fresh:
  assumes "rig_records r seen" and "device_keeps (only_fresh seen CMD_FDT_DOWN n) s"
    and "gdix51c0_fdt_down_read r usec s = Some (result, (self', w'))"
  shows "device_keeps (only_fresh seen CMD_FDT_DOWN n) (self', w') \<and> (\<forall>touchflag. result = Inr touchflag \<longrightarrow> fresh_touch seen n touchflag w')"
proof -
  let ?J = "only_fresh seen CMD_FDT_DOWN n"
  let ?Q = "\<lambda>p (q, w'). p ! 0 = CMD_FDT_DOWN \<and> p \<in> set (drop n (seen w'))"
  have pop: "?Q p (q', w')" if "?J (q, w')" "queue_pop q CMD_FDT_DOWN = Some (p, q')" for p q q' w'
    using that by (auto simp: only_fresh_def queue_pop_def split: list.splits)
  have "keeping (device_keeps ?J) (with_listener (gdix51c0_listener_await (rig_host r) CMD_FDT_DOWN usec)) (on_listener ?Q)"
    by (intro keeping_with_listener await_keeps only_fresh_kept pop) (use assms(1) in \<open>simp add: rig_records_def\<close>)
  note await = keepingD [OF this assms(2)]
  obtain r1 self1 w1 where m: "with_listener (gdix51c0_listener_await (rig_host r) CMD_FDT_DOWN usec) s = Some (r1, (self1, w1))"
    using assms(3) by (cases "with_listener (gdix51c0_listener_await (rig_host r) CMD_FDT_DOWN usec) s")
      (auto simp: gdix51c0_fdt_down_read_def and_then_def)
  show ?thesis
  proof (cases r1)
    case (Inl e)
    then show ?thesis using await [OF m] assms(3) m by (auto simp: gdix51c0_fdt_down_read_def and_then_def)
  next
    case (Inr resp)
    obtain touchflag self2 where t: "fdt_down_response resp self1 = (touchflag, self2)" by (cases "fdt_down_response resp self1")
    then have out: "result = Inr touchflag" "self' = self2" "w' = w1"
      using assms(3) m Inr by (auto simp: gdix51c0_fdt_down_read_def and_then_def)
    have same: "listener self2 = listener self1"
      using t by (auto simp: fdt_down_response_def gdix51c0_fdt_store_zero_touch_baseline_def Let_def split: if_splits)
    have "length resp < 17 \<and> touchflag = TOUCH_IGNORE \<or> 17 \<le> length resp \<and> touchflag = resp ! 5"
      using t by (auto simp: fdt_down_response_def Let_def split: if_splits)
    then show ?thesis using await [OF m] Inr out same by (auto simp: on_listener_def fresh_touch_def device_keeps_def)
  qed
qed

text \<open>What the end of a wait for a finger says.\<close>

definition finger_found :: "('w \<Rightarrow> bytes list) \<Rightarrow> nat \<Rightarrow> ('ssl, 'pre) device \<times> 'w \<Rightarrow> bool" where
  "finger_found seen n = (\<lambda>(self, w). \<not> require_lift_gap self \<and>
     (\<exists>resp. resp \<in> set (drop n (seen w)) \<and> resp ! 0 = CMD_FDT_DOWN \<and> 17 \<le> length resp \<and>
        gdix51c0_fdt_touch_is_finger self (resp ! 5)))"

lemma judged:
  "judge_touch touchflag self = (finger, self') \<Longrightarrow> listener self' = listener self \<and>
     (finger \<longrightarrow> touchflag \<noteq> TOUCH_IGNORE \<and> \<not> require_lift_gap self' \<and> gdix51c0_fdt_touch_is_finger self' touchflag)"
  by (auto simp: judge_touch_def Let_def split: if_splits)

lemma check_cancelled_then:
  "and_then (gdix51c0_action_check_cancelled r) f (self, w) =
     (case rig_cancelled r w of (cancelled, w') \<Rightarrow>
        if cancelled then Some (Inl G_IO_ERROR_CANCELLED, (self\<lparr> session_desynced := True \<rparr>, w')) else f () (self, w'))"
  by (simp add: and_then_def gdix51c0_action_check_cancelled_def split: prod.split)

lemma finger_loop_found:
  assumes "finger_loop r deadline s = Some out"
  shows "rig_records r seen \<longrightarrow> device_keeps (only_fresh seen CMD_FDT_DOWN n) s \<longrightarrow> fst out = Inr () \<longrightarrow> finger_found seen n (snd out)"
proof (rule finger_loop.raw_induct [OF _ assms, where P = "\<lambda>r deadline s out. rig_records r seen \<longrightarrow>
    device_keeps (only_fresh seen CMD_FDT_DOWN n) s \<longrightarrow> fst out = Inr () \<longrightarrow> finger_found seen n (snd out)"], intro impI, goal_cases)
  case (1 loop r deadline s out)
  let ?J = "device_keeps (only_fresh seen CMD_FDT_DOWN n)"
  note rec = 1(3) [unfolded rig_records_def]
  obtain self w where s: "s = (self, w)" by (cases s)
  obtain cancelled w0 where c: "rig_cancelled r w = (cancelled, w0)" by (cases "rig_cancelled r w")
  obtain now w1 where n1: "host_now (rig_host r) w0 = (now, w1)" by (cases "host_now (rig_host r) w0")
  note step = 1(2) [unfolded s check_cancelled_then c prod.case n1]
  have live: "\<not> cancelled" "\<not> now \<ge> deadline" using step n1 1(5) by (auto split: if_splits)
  have "seen w0 = seen w" using rec c by (metis snd_conv)
  moreover have "seen w1 = seen w0" using rec n1 unfolding records_arrivals_def by (metis snd_conv)
  ultimately have j1: "?J (self, w1)" using 1(4) s by (auto simp: device_keeps_def only_fresh_def)
  have later: "finger_found seen n (snd out)" if "loop r deadline s' = Some out" "?J s'" for s'
    using 1(1) [OF that(1)] 1(3) that(2) 1(5) by blast
  have rearm: "finger_found seen n (snd out)"
    if arm: "and_then (gdix51c0_fdt_down_arm r) (\<lambda>_. loop r deadline) (self', w') = Some out" and j: "?J (self', w')" for self' w'
  proof -
    have up: "device_keeps (seen_from seen n) (self', w')"
      using j fresh_seen by (auto simp: device_keeps_def)
    obtain result s2 where a: "gdix51c0_fdt_down_arm r (self', w') = Some (result, s2)"
      using arm by (cases "gdix51c0_fdt_down_arm r (self', w')") (auto simp: and_then_def)
    have ok: "result = Inr ()" using arm a 1(5) by (cases result) (auto simp: and_then_def)
    have "loop r deadline s2 = Some out" using arm a ok by (simp add: and_then_def)
    then show ?thesis by (rule later) (rule down_arm_fresh(2) [OF 1(3) up a ok])
  qed
  let ?usec = "nat (min (deadline - now) CANCEL_POLL_USEC)"
  obtain result self2 w2 where d: "gdix51c0_fdt_down_read r ?usec (self, w1) = Some (result, (self2, w2))"
    using step n1 live by (cases "gdix51c0_fdt_down_read r ?usec (self, w1)") auto
  have j2: "?J (self2, w2)" and touch: "\<And>touchflag. result = Inr touchflag \<Longrightarrow> fresh_touch seen n touchflag w2"
    using down_read_fresh [OF 1(3) j1 d] by blast+
  show ?case
  proof (cases result)
    case (Inl e)
    obtain now2 w3 where n2: "host_now (rig_host r) w2 = (now2, w3)" by (cases "host_now (rig_host r) w2")
    have "seen w3 = seen w2" using rec n2 unfolding records_arrivals_def by (metis snd_conv)
    then have j3: "?J (self2, w3)" using j2 by (auto simp: device_keeps_def only_fresh_def)
    show ?thesis
    proof (cases "e = G_IO_ERROR_TIMED_OUT")
      case True
      then have "loop r deadline (self2, w3) = Some out" using step n1 live d Inl n2 1(5) by (auto split: if_splits)
      then show ?thesis using later j3 by blast
    next
      case False
      then have "and_then (gdix51c0_fdt_down_arm r) (\<lambda>_. loop r deadline) (self2, w3) = Some out"
        using step n1 live d Inl n2 1(5) by (auto split: if_splits)
      then show ?thesis using rearm j3 by blast
    qed
  next
    case (Inr touchflag)
    obtain finger self3 where f: "judge_touch touchflag self2 = (finger, self3)" by (cases "judge_touch touchflag self2")
    note judged = judged [OF f]
    show ?thesis
    proof (cases finger)
      case True
      then have "out = (Inr (), (self3, w2))" using step n1 live d Inr f by auto
      then show ?thesis using judged True touch [OF Inr] by (auto simp: finger_found_def fresh_touch_def)
    next
      case False
      then have "and_then (gdix51c0_fdt_down_arm r) (\<lambda>_. loop r deadline) (self3, w2) = Some out"
        using step n1 live d Inr f by auto
      moreover have "?J (self3, w2)" using j2 judged by (simp add: device_keeps_def)
      ultimately show ?thesis using rearm by blast
    qed
  qed
qed

lemma manual_read_grows:
  assumes "rig_records r seen" and "device_keeps (seen_from seen n) (self, w)"
    and "gdix51c0_fdt_manual_read r (self, w) = Some (result, s')"
  shows "device_keeps (seen_from seen n) s'"
proof -
  note rec = assms(1) [unfolded rig_records_def]
  have "keeping (device_keeps (seen_from seen n)) (and_then (with_listener (gdix51c0_listener_command (rig_host r) pkt CMD_FDT_MANUAL 10000000))
      (\<lambda>resp. if length resp < 20 then fail_with G_IO_ERROR_INVALID_DATA else done_with (resp ! 5, zone_samples resp))) (\<lambda>_ _. True)" for pkt
    by (intro keeping_and_then [OF keeping_with_listener [OF keeping_command [where Q = "\<lambda>_ _. True"]]] keeping_if keeping_simple
        seen_from_kept) (use rec in auto)
  from keepingD [OF this assms(2)] assms(3) show ?thesis by (simp add: gdix51c0_fdt_manual_read_def)
qed

lemma measure_base_grows:
  assumes "rig_records r seen"
  shows "keeping (device_keeps (seen_from seen n)) (gdix51c0_fdt_measure_base r) (\<lambda>_ _. True)"
proof -
  have manual: "keeping (device_keeps (seen_from seen n)) (gdix51c0_fdt_manual_read r) (\<lambda>_ _. True)"
  proof (rule keepingI)
    fix s result s' assume "device_keeps (seen_from seen n) s" and "gdix51c0_fdt_manual_read r s = Some (result, s')"
    then show "device_keeps (seen_from seen n) s' \<and> (\<forall>x. result = Inr x \<longrightarrow> True)"
      using manual_read_grows [OF assms] by (cases s) blast
  qed
  have "keeping (device_keeps (seen_from seen n))
      (case x of (touchflag, sample) \<Rightarrow> and_then (set_device (store_sample touchflag sample)) (\<lambda>_. done_with (touchflag AND 0x3f = 0)))
      (\<lambda>_ _. True)" for x
    by (cases x) (auto intro!: keeping_and_then [OF keeping_device] keeping_simple)
  then show ?thesis unfolding gdix51c0_fdt_measure_base_def by (rule keeping_and_then [OF manual])
qed

text \<open>C13: A finger is reported only for a touch of the sensor that is not stale: when the wait succeeds, an answer
  of the finger-down mode that was dispatched after the wait began says that at least the minimum of zones is
  touched, and no gap between two presses is due any more.\<close>

theorem finger_is_fresh_touch:
  assumes "rig_records r seen" and "gdix51c0_wait_for_finger r (self, w) = Some (Inr (), (self', w'))"
  shows "\<not> require_lift_gap self' \<and>
    (\<exists>resp. resp \<in> set (drop (length (seen w)) (seen w')) \<and> resp ! 0 = CMD_FDT_DOWN \<and> 17 \<le> length resp \<and>
       gdix51c0_fdt_touch_is_finger self' (resp ! 5))"
proof -
  let ?n = "length (seen w)"
  let ?first = "if fdt_baseline_valid self then done_with ()
      else or_else (and_then (gdix51c0_fdt_measure_base r) (\<lambda>_. done_with ())) (\<lambda>_. done_with ())"
  note rec = assms(1) [unfolded rig_records_def]
  obtain now w1 where n: "host_now (rig_host r) w = (now, w1)" by (cases "host_now (rig_host r) w")
  have "seen w1 = seen w" using rec n unfolding records_arrivals_def by (metis snd_conv)
  then have j: "device_keeps (seen_from seen ?n) (self, w1)" by (simp add: device_keeps_def seen_from_def)
  have first: "keeping (device_keeps (seen_from seen ?n)) ?first (\<lambda>_ _. True)"
    by (intro keeping_if keeping_or_else keeping_and_then [OF measure_base_grows [OF assms(1)]] keeping_simple) simp_all
  note run = assms(2) [unfolded gdix51c0_wait_for_finger_def prod.case n]
  obtain u s2 where f: "?first (self, w1) = Some (Inr u, s2)"
    and run2: "and_then (gdix51c0_fdt_down_arm r) (\<lambda>_. finger_loop r (now + int FINGER_TIMEOUT_USEC)) s2 = Some (Inr (), (self', w'))"
    using run unfolding returned_and_then by blast
  obtain v s3 where a: "gdix51c0_fdt_down_arm r s2 = Some (Inr v, s3)"
    and loop: "finger_loop r (now + int FINGER_TIMEOUT_USEC) s3 = Some (Inr (), (self', w'))"
    using run2 unfolding returned_and_then by blast
  obtain self2 w2 where s2: "s2 = (self2, w2)" by (cases s2)
  have j2: "device_keeps (seen_from seen ?n) (self2, w2)" using keepingD [OF first j f] s2 by simp
  have "device_keeps (only_fresh seen CMD_FDT_DOWN ?n) s3" by (rule down_arm_fresh(2) [OF assms(1) j2 a [unfolded s2]]) simp
  then have "finger_found seen ?n (self', w')" using finger_loop_found [OF loop] assms(1) by simp
  then show ?thesis by (simp add: finger_found_def)
qed

text \<open>A rig on a given kernel and host whose other parts do nothing.\<close>

definition sample_rig :: "'w kernel \<Rightarrow> 'w host \<Rightarrow> (unit, unit, 'w) rig" where
  "sample_rig k h =
     \<lparr> rig_kernel = k, rig_gpio = None, rig_reset = 0, rig_host = h, rig_listener_new = (\<lambda>w. (Inr (), w)),
       rig_listener_free = id, rig_suppress = (\<lambda>b w. w),
       rig_crypto = sample_crypto, rig_sha256 = (\<lambda>bs. replicate 32 0),
       rig_ssl = \<lparr> ossl_ctx_new = (\<lambda>w. (False, w)), ossl_set_cipher_list = (\<lambda>w. (False, w)), ossl_new = (\<lambda>w. (None, w)),
                   ossl_bio_new = (\<lambda>w. (False, w)), ossl_accept = (\<lambda>s. (s, Ssl_Done [])), ossl_read = (\<lambda>n s. (s, Ssl_Done [])),
                   ossl_reply = (\<lambda>a s. (s, Ssl_Done [])) \<rparr>,
       rig_random = (\<lambda>n w. (None, w)), rig_getenv = (\<lambda>s. None), rig_get_contents = (\<lambda>w p. Inl G_IO_ERROR_NOT_FOUND),
       rig_set_contents = (\<lambda>w p bs. Inl G_IO_ERROR_FAILED),
       rig_files = \<lparr> file_mkdir = (\<lambda>p w. (Inl G_IO_ERROR_FAILED, w)), file_open = (\<lambda>p w. (Inl G_IO_ERROR_FAILED, w)),
                     file_write = (\<lambda>bs w. (Inl G_IO_ERROR_FAILED, w)), file_close = id, file_unlink = (\<lambda>p w. w),
                     file_rename = (\<lambda>p q w. (Inl G_IO_ERROR_FAILED, w)) \<rparr>,
       rig_real_time = (\<lambda>w. (0, w)), rig_preprocessor_new = (\<lambda>c f. Inl G_IO_ERROR_FAILED), rig_cancelled = (\<lambda>w. (False, w)),
       rig_utc_ms = (\<lambda>w. (0, w)),
       rig_stages = \<lparr> build_enhanced_checked = (\<lambda>p raw. (PREPROCESS_STATUS_BAD_INPUT, [], p)),
                      compute_base_quality_from_enhanced = (\<lambda>e. 0), compute_coverage = (\<lambda>e. 0),
                      extract_subtemplate_full = (\<lambda>e. ([], 0, 0, (0, 0, 0))), feature_planes = (\<lambda>e. ([], [])),
                      build_resolution_map_full = (\<lambda>p raw. ([], 0)) \<rparr>,
       rig_unset = replicate 31 (0, 0), rig_post = (\<lambda>e w. w) \<rparr>"

text \<open>A kernel on which nothing ever happens.\<close>

definition idle_kernel :: "'w kernel" where
  "idle_kernel =
     \<lparr> bus_write = (\<lambda>b w. (Inl G_IO_ERROR_FAILED, w)), bus_transfer = (\<lambda>n w. (Inl G_IO_ERROR_FAILED, w)),
       bus_level = (\<lambda>w. (Inr False, w)), bus_wait_edge = (\<lambda>d w. (Inr False, w)), bus_read_edges = (\<lambda>n w. (Inr [], w)),
       bus_now = (\<lambda>w. (0, w)), bus_sleep = (\<lambda>n w. w) \<rparr>"

definition finger_rig :: "(unit, unit, bytes list list \<times> bytes list \<times> int \<times> nat) rig" where
  "finger_rig = sample_rig idle_kernel script_host"

definition touched_packet :: bytes where
  "touched_packet = [0x32, 0, 0, 0, 0, 0x1f] @ replicate 11 0"

definition awaiting_device :: "(unit, unit) device" where
  "awaiting_device = sample_device\<lparr> listener := Some listener_new, fdt_baseline_valid := True, require_lift_gap := False, sensor_profile := None \<rparr>"

lemma touched_finger: "gdix51c0_fdt_touch_is_finger awaiting_device 0x1f"
proof -
  have "gdix51c0_fdt_touch_count 0x1f = 5" by code_simp
  then show ?thesis by (simp add: gdix51c0_fdt_touch_is_finger_def gdix51c0_fdt_trigger_min_def awaiting_device_def)
qed

lemmas script_simps = gdix51c0_listener_send_ack_def submit_and_wait_def gdix51c0_listener_write_internal_def gdix51c0_listener_await_def
  await_loop.simps drain_cmd_def catch_up_def gdix51c0_listener_drain_cmd_def queue_pop_def dispatch_def listener_enqueue_locked_def
  listener_new_def on_timeout_def and_then_def or_else_def done_with_def script_host_def fun_eq_iff

lemma arm_run:
  assumes "listener self = Some listener_new"
  shows "gdix51c0_fdt_down_arm finger_rig (self, ([] # [] # [[0xb0]] # rest, seen, t, n)) =
    Some (Inr (), (gdix51c0_fdt_update_down_thresholds self, (rest, seen @ [[0xb0]], t, n + 1)))"
proof -
  let ?h = "script_host"
  have ack: "gdix51c0_listener_send_ack ?h pkt (drain_cmd ?h CMD_FDT_DOWN (listener_new, ([] # [] # [[0xb0]] # rest, seen, t, n))) =
      Some (Inr (), (listener_new, (rest, seen @ [[0xb0]], t, n + 1)))" for pkt
    by (simp add: script_simps)
  show ?thesis
    using assms ack by (simp add: gdix51c0_fdt_down_arm_def finger_rig_def sample_rig_def idle_kernel_def pause_def with_listener_def
        and_then_def Let_def script_host_def [THEN arg_cong, where f = host_now])
qed

lemma await_run:
  "gdix51c0_listener_await script_host CMD_FDT_DOWN 500000 (listener_new, ([touched_packet] # rest, seen, t, n)) =
     Some (Inr touched_packet, (listener_new, (rest, seen @ [touched_packet], t, n)))"
  by (simp add: script_simps touched_packet_def)

lemma finger_run:
  "gdix51c0_wait_for_finger finger_rig (awaiting_device, ([[], [], [[0xb0]], [touched_packet]], [], 0, 0)) =
     Some (Inr (), (gdix51c0_fdt_update_down_thresholds awaiting_device\<lparr> fdt_down_sample_valid := False \<rparr>,
       ([], [[0xb0], touched_packet], 0, 1)))"
proof -
  let ?self = "gdix51c0_fdt_update_down_thresholds awaiting_device"
  have up: "listener awaiting_device = Some listener_new" by (simp add: awaiting_device_def)
  have now: "host_now (rig_host finger_rig) (script, seen, t, n) = (t, (script, seen, t, n))" for script seen t n
    by (simp add: finger_rig_def sample_rig_def script_host_def)
  have live: "rig_cancelled finger_rig w = (False, w)" for w by (simp add: finger_rig_def sample_rig_def)
  have host: "rig_host finger_rig = script_host" by (simp add: finger_rig_def sample_rig_def)
  have read: "gdix51c0_fdt_down_read finger_rig 500000 (?self, ([[touched_packet]], seen, t, n)) =
      Some (Inr 0x1f, (?self\<lparr> fdt_down_sample_valid := False \<rparr>, ([], seen @ [touched_packet], t, n)))" for seen t n
    using up await_run [of "[]"]
    by (simp add: gdix51c0_fdt_down_read_def host with_listener_def and_then_def fdt_down_response_def touched_packet_def Let_def
        gdix51c0_fdt_update_down_thresholds_def)
  have "judge_touch 0x1f (?self\<lparr> fdt_down_sample_valid := False \<rparr>) = (True, ?self\<lparr> fdt_down_sample_valid := False \<rparr>)"
    using touched_finger
    by (simp add: judge_touch_def awaiting_device_def gdix51c0_fdt_update_down_thresholds_def gdix51c0_fdt_touch_is_finger_def
        gdix51c0_fdt_trigger_min_def)
  then have loop: "finger_loop finger_rig 60000000 (?self, ([[touched_packet]], seen, 0, n)) =
      Some (Inr (), (?self\<lparr> fdt_down_sample_valid := False \<rparr>, ([], seen @ [touched_packet], 0, n)))" for seen n
    by (subst finger_loop.simps) (simp add: check_cancelled_then live now read)
  have base: "fdt_baseline_valid awaiting_device" by (simp add: awaiting_device_def)
  show ?thesis
    using arm_run [OF up, of "[[touched_packet]]"] loop
    by (simp add: gdix51c0_wait_for_finger_def now base and_then_def done_with_def)
qed

theorem finger_is_fresh_touch_witness:
  "touched_packet \<in> set (drop 0 [[0xb0], touched_packet]) \<and> 17 \<le> length touched_packet"
proof -
  let ?seen = "\<lambda>(script, seen, t, n). seen :: bytes list"
  have "records_arrivals script_host ?seen"
    by (auto simp: records_arrivals_def script_host_def split: list.splits)
  then have "rig_records finger_rig ?seen"
    by (simp add: rig_records_def finger_rig_def sample_rig_def idle_kernel_def)
  from finger_is_fresh_touch [OF this finger_run] show ?thesis by (auto simp: touched_packet_def)
qed

end
