(* ===== verification/Gdix_Session.thy ===== *)
theory Gdix_Session
  imports Gdix_Capture
begin

text \<open>
  Bringing a session up and taking it down (gdix51c0.c): the boot of the sensor, the sequence before TLS with the
  identity of the sensor, its DAC and its configuration, the choice and the repair of the key, the handshake, the
  calibration pass, and the bounded retries around all of it.
\<close>

section \<open>Booting\<close>

abbreviation (input) unlock_tls_payload :: bytes where "unlock_tls_payload \<equiv> [0xd5, 0x03, 0x00, 0x00, 0x00, 0xd3]"

definition bus_pause :: "'w kernel \<Rightarrow> nat \<Rightarrow> ('w, unit) action" where
  "bus_pause k usec = (\<lambda>w. Some (Inr (), bus_sleep k usec w))"

definition reset_sensor :: "('ssl, 'pre, 'w) rig \<Rightarrow> ('w, unit) action" where
  "reset_sensor r = call (gdix51c0_reset_pulse (rig_gpio r) (rig_reset r))"

definition gdix51c0_boot_probe :: "('ssl, 'pre, 'w) rig \<Rightarrow> ('w, unit) action" where
  "gdix51c0_boot_probe r =
     (let k = rig_kernel r in
      and_then (gdix51c0_irq_drain k) (\<lambda>_.
      and_then (reset_sensor r) (\<lambda>_.
      and_then (gdix51c0_irq_wait k True BOOT_TIMEOUT_USEC) (\<lambda>_.
      and_then (gdix51c0_irq_wait k False BOOT_TIMEOUT_USEC) (\<lambda>_.
      and_then (bus_pause k 200000) (\<lambda>_.
      and_then (gdix51c0_irq_drain k) (\<lambda>_. gdix51c0_cmd_no_ack k unlock_tls_payload)))))))"

section \<open>The sequence before TLS\<close>

abbreviation (input) prefix01 :: bytes where "prefix01 \<equiv> [0x01, 0x05, 0x00, 0x00, 0x00, 0x00, 0x00, 0x88]"
abbreviation (input) a8_payload :: bytes where "a8_payload \<equiv> [0xa8, 0x03, 0x00, 0x00, 0x00, 0xff]"
abbreviation (input) otp_payload :: bytes where "otp_payload \<equiv> [0xa6, 0x03, 0x00, 0x00, 0x00, 0x01]"

definition gdix51c0_cmd_required_same_irq :: "'w kernel \<Rightarrow> bytes \<Rightarrow> nat \<Rightarrow> ('w, unit) action" where
  "gdix51c0_cmd_required_same_irq k payload timeout_usec =
     and_then (gdix51c0_cmd_ack_resp_same_irq k payload timeout_usec) (\<lambda>_. done_with ())"

text \<open>The version of the firmware: \<open>n\<close> attempts with a reset between them.\<close>

definition evk_attempt :: "'w kernel \<Rightarrow> ('w, unit) action" where
  "evk_attempt k =
     and_then (gdix51c0_cmd_no_ack k prefix01) (\<lambda>_.
     and_then (bus_pause k 10000) (\<lambda>_. gdix51c0_cmd_required_same_irq k a8_payload 1000000))"

fun evk_attempts :: "('ssl, 'pre, 'w) rig \<Rightarrow> nat \<Rightarrow> ('w, unit) action" where
  "evk_attempts r 0 = done_with ()"
| "evk_attempts r (Suc n) =
     or_else (evk_attempt (rig_kernel r)) (\<lambda>e.
       if n = 0 then fail_with e
       else
         and_then (reset_sensor r) (\<lambda>_.
         and_then (bus_pause (rig_kernel r) 500000) (\<lambda>_.
         and_then (gdix51c0_irq_drain (rig_kernel r)) (\<lambda>_. evk_attempts r n))))"

text \<open>The state of the controller, asked for with a time stamp; the answer is only logged.\<close>

definition mcu_state_packet :: "u16 \<Rightarrow> bytes" where
  "mcu_state_packet ms16 =
     (let af_data = [0xaf, 0x06, 0x00, 0x55] @ le16_bytes ms16 @ [0x00]
      in af_data @ [0x00, gdix51c0_payload_checksum_ts af_data (length af_data)])"

definition query_mcu_state :: "('ssl, 'pre, 'w) rig \<Rightarrow> ('w, unit) action" where
  "query_mcu_state r =
     (let k = rig_kernel r in
      and_then (gdix51c0_cmd_no_ack k prefix01) (\<lambda>_.
      and_then (bus_pause k 10000) (\<lambda>_ w.
        case rig_utc_ms r w of (ms, w1) \<Rightarrow>
          and_then (gdix51c0_cmd_single_resp_level k (mcu_state_packet (ucast ms)) 1000000) (\<lambda>_. done_with ()) w1)))"

text \<open>A command that the shared encoder builds into a buffer of the right size.\<close>

definition encoded_command :: "goodix_command_id \<Rightarrow> bytes \<Rightarrow> ('w, bytes) action" where
  "encoded_command cmd data =
     (case goodix_wire_encode_command (goodix_command_value cmd) (Some data) (length data) (replicate (length data + 4) 0) of
        None \<Rightarrow> fail_with G_IO_ERROR_FAILED
      | Some (packet, n) \<Rightarrow> if n \<noteq> length packet then fail_with G_IO_ERROR_FAILED else done_with packet)"

text \<open>The identity of the chip, and its profile, which is taken over before it is checked.\<close>

definition read_chip_id :: "'w kernel \<Rightarrow> ('w, u32) action" where
  "read_chip_id k =
     and_then (encoded_command GOODIX_COMMAND_READ_SENSOR_REGISTER (goodix_command_encode_register_read 0 4)) (\<lambda>chip_payload.
     and_then (gdix51c0_cmd_ack_resp_same_irq k chip_payload 200000) (\<lambda>chip_response.
     case goodix_wire_decode_command chip_response False of
       None \<Rightarrow> fail_with G_IO_ERROR_INVALID_DATA
     | Some (chip_command, chip_data) \<Rightarrow>
         if chip_command \<noteq> goodix_command_value GOODIX_COMMAND_READ_SENSOR_REGISTER \<or> length chip_data \<noteq> 4
         then fail_with G_IO_ERROR_INVALID_DATA
         else done_with (ucast (le16_at chip_data 1))))"

definition adopt_profile :: "u32 \<Rightarrow> ('ssl, 'pre, 'w, goodix_sensor_profile) step" where
  "adopt_profile chip =
     and_then (set_device (\<lambda>self. self\<lparr> sensor_profile := goodix_sensor_profile_lookup chip \<rparr>)) (\<lambda>_.
     case goodix_sensor_profile_lookup chip of
       None \<Rightarrow> fail_with G_IO_ERROR_NOT_SUPPORTED
     | Some p \<Rightarrow>
         if algorithm p \<noteq> GOODIX_SENSOR_ALGORITHM_CHICAGO_HS \<or> profile_width p \<noteq> 80 \<or> profile_height p \<noteq> 64
         then fail_with G_IO_ERROR_NOT_SUPPORTED else done_with p)"

text \<open>The memory of the sensor begins with its id. Everything that belongs to another sensor is dropped.\<close>

definition read_otp :: "'w kernel \<Rightarrow> goodix_sensor_profile \<Rightarrow> ('w, bytes) action" where
  "read_otp k profile =
     and_then (gdix51c0_cmd_ack_then_resp_read k otp_payload 500000) (\<lambda>otp.
     case goodix_wire_decode_command otp False of
       None \<Rightarrow> fail_with G_IO_ERROR_INVALID_DATA
     | Some (otp_command, otp_data) \<Rightarrow>
         if otp_command \<noteq> goodix_command_value GOODIX_COMMAND_READ_OTP \<or> length otp_data \<noteq> unat (otp_size profile)
         then fail_with G_IO_ERROR_INVALID_DATA else done_with otp_data)"

definition adopt_sensor_id :: "bytes \<Rightarrow> ('ssl, 'pre) device \<Rightarrow> ('ssl, 'pre) device" where
  "adopt_sensor_id otp_data self =
     (let self1 =
        (if sensor_id_valid self \<and> sensor_id self \<noteq> take SENSOR_ID_LEN otp_data
         then self\<lparr> t0_baseline_valid := False, image_base_refreshed_this_open := False,
                    chicago_preprocessor := None, chicago_calibration := None \<rparr>
         else self)
      in self1\<lparr> sensor_id := take SENSOR_ID_LEN otp_data, sensor_id_valid := True \<rparr>)"

section \<open>DAC and configuration\<close>

record dac =
  dac_main :: u32
  dac_1 :: u32
  dac_2 :: u32
  dac_3 :: u32

definition legacy_dac :: dac where
  "legacy_dac = \<lparr> dac_main = 0x0b38, dac_1 = 0xb5, dac_2 = 0xb3, dac_3 = 0xb3 \<rparr>"

definition dac_of_block :: "bytes \<Rightarrow> dac" where
  "dac_of_block block =
     \<lparr> dac_main = push_bit 4 (ucast (block ! 0)) OR 8, dac_1 = ucast (block ! 1),
       dac_2 = ucast (block ! 2), dac_3 = ucast (block ! 3) \<rparr>"

text \<open>The block for fingers, else the one for the mask, else what older drivers used.\<close>

definition dac_of_otp :: "bytes \<Rightarrow> dac" where
  "dac_of_otp otp_data =
     (let ftd = take 4 (drop 0x32 otp_data); mtd = take 4 (drop 0x2e otp_data) in
      if length otp_data < 54 then legacy_dac
      else if list_all (\<lambda>b. b \<noteq> 0) ftd then dac_of_block ftd
      else if list_all (\<lambda>b. b \<noteq> 0) mtd then dac_of_block mtd
      else legacy_dac)"

definition dac_packet :: "dac \<Rightarrow> bytes" where
  "dac_packet d =
     (let body = [0x98, 0x09, 0x00, ucast (dac_main d), ucast (drop_bit 8 (dac_main d)), ucast (dac_1 d), 0x00,
                  ucast (dac_2 d), 0x00, ucast (dac_3 d), 0x00]
      in body @ [gdix51c0_payload_checksum body (length body)])"

definition cfg_template :: bytes where
  "cfg_template =
    [0x90, 0xe1, 0x00, 0x70, 0x11, 0x74, 0x85, 0x00, 0x85, 0x2c, 0xb1, 0x18, 0xc9, 0x14, 0xdd, 0x00,
     0xdd, 0x00, 0xdd, 0x00, 0xba, 0x00, 0x01, 0x80, 0xca, 0x00, 0x04, 0x00, 0x84, 0x00, 0x15, 0xb3,
     0x86, 0x00, 0x00, 0xc4, 0x88, 0x00, 0x00, 0xba, 0x8a, 0x00, 0x00, 0xb2, 0x8c, 0x00, 0x00, 0xaa,
     0x8e, 0x00, 0x00, 0xc1, 0x90, 0x00, 0xbb, 0xbb, 0x92, 0x00, 0xb1, 0xb1, 0x94, 0x00, 0x00, 0xa8,
     0x96, 0x00, 0x00, 0xb6, 0x98, 0x00, 0x00, 0x00, 0x9a, 0x00, 0x00, 0x00, 0xd2, 0x00, 0x00, 0x00,
     0xd4, 0x00, 0x00, 0x00, 0xd6, 0x00, 0x00, 0x00, 0xd8, 0x00, 0x00, 0x00, 0x50, 0x00, 0x01, 0x05,
     0xd0, 0x00, 0x00, 0x00, 0x70, 0x00, 0x00, 0x00, 0x72, 0x00, 0x78, 0x56, 0x74, 0x00, 0x34, 0x12,
     0x20, 0x00, 0x10, 0x40, 0x5c, 0x00, 0x00, 0x01, 0x20, 0x02, 0x38, 0x0b, 0x36, 0x02, 0xb5, 0x00,
     0x38, 0x02, 0xb3, 0x00, 0x3a, 0x02, 0xb3, 0x00, 0x2a, 0x01, 0x82, 0x03, 0x22, 0x00, 0x01, 0x20,
     0x24, 0x00, 0x14, 0x00, 0x80, 0x00, 0x01, 0x00, 0x5c, 0x00, 0x00, 0x01, 0x56, 0x00, 0x04, 0x20,
     0x58, 0x00, 0x03, 0x02, 0x32, 0x00, 0x0c, 0x02, 0x66, 0x00, 0x03, 0x00, 0x7c, 0x00, 0x00, 0x58,
     0x82, 0x00, 0x80, 0x1b, 0x2a, 0x01, 0x08, 0x00, 0x54, 0x00, 0x10, 0x01, 0x62, 0x00, 0x04, 0x03,
     0x64, 0x00, 0x19, 0x00, 0x66, 0x00, 0x03, 0x00, 0x7c, 0x00, 0x00, 0x58, 0x2a, 0x01, 0x08, 0x00,
     0x52, 0x00, 0x08, 0x00, 0x54, 0x00, 0x00, 0x01, 0x66, 0x00, 0x03, 0x00, 0x7c, 0x00, 0x00, 0x58,
     0x00, 0x53, 0x66, 0x8f]"

definition cfg_patch_dac :: "dac \<Rightarrow> bytes \<Rightarrow> bytes" where
  "cfg_patch_dac d cfg =
     cfg[122 := ucast (dac_main d), 123 := ucast (drop_bit 8 (dac_main d)), 126 := ucast (dac_1 d),
         130 := ucast (dac_2 d), 134 := ucast (dac_3 d)]"

text \<open>Away from the legacy bias the registers of the readout timing change, too.\<close>

definition cfg_patch_timing :: "dac \<Rightarrow> bytes \<Rightarrow> bytes" where
  "cfg_patch_timing d cfg =
     (if dac_main d \<noteq> 0x0b38 then cfg[118 := 0x10, 119 := 0x01, 178 := 0x80, 179 := 0x1d] else cfg)"

definition cfg_packet :: "dac \<Rightarrow> bytes option" where
  "cfg_packet d =
     (let cfg = cfg_patch_timing d (cfg_patch_dac d cfg_template) in
      case goodix_mcu_config_update_checksum (take (length cfg - 4) (drop 3 cfg)) of
        None \<Rightarrow> None
      | Some config \<Rightarrow>
          let cfg' = write_at cfg 3 config
          in Some (cfg'[length cfg' - 1 := gdix51c0_payload_checksum cfg' (length cfg' - 1)]))"

definition upload_config :: "'w kernel \<Rightarrow> dac \<Rightarrow> ('ssl, 'pre, 'w, unit) step" where
  "upload_config k d =
     and_then (on_bus (gdix51c0_cmd_required_same_irq k (dac_packet d) 1000000)) (\<lambda>_.
     and_then (set_device (\<lambda>self. self\<lparr> active_dac_main := ucast (dac_main d) \<rparr>)) (\<lambda>_.
     case cfg_packet d of
       None \<Rightarrow> fail_with G_IO_ERROR_FAILED
     | Some cfg_payload \<Rightarrow>
         and_then (on_bus (gdix51c0_cmd_required_same_irq k cfg_payload 1000000)) (\<lambda>_.
         and_then (on_bus (bus_pause k 200000)) (\<lambda>_. on_bus (gdix51c0_irq_drain k)))))"

text \<open>The frame without a finger and the calibration are loaded once the sensor is known.\<close>

definition load_sensor_state :: "('ssl, 'pre, 'w) rig \<Rightarrow> ('ssl, 'pre, 'w, unit) step" where
  "load_sensor_state r = (\<lambda>(self, w).
     case gdix51c0_chicago_calibration_maybe_load_or_generate r
            (if t0_baseline_valid self then (self, w) else gdix51c0_baseline_load r (self, w)) of
       (self', w') \<Rightarrow> Some (Inr (), (gdix51c0_chicago_preprocessor_maybe_init r self', w')))"

definition gdix51c0_init_sequence :: "('ssl, 'pre, 'w) rig \<Rightarrow> ('ssl, 'pre, 'w, unit) step" where
  "gdix51c0_init_sequence r =
     (let k = rig_kernel r in
      and_then (on_bus (evk_attempts r 3)) (\<lambda>_.
      and_then (on_bus (query_mcu_state r)) (\<lambda>_.
      and_then (encoded_command GOODIX_COMMAND_RESET (goodix_command_encode_reset True False 0x14)) (\<lambda>a2_payload.
      and_then (on_bus (gdix51c0_cmd_ack_then_resp k a2_payload)) (\<lambda>_.
      and_then (on_bus (read_chip_id k)) (\<lambda>chip.
      and_then (adopt_profile chip) (\<lambda>profile.
      and_then (on_bus (read_otp k profile)) (\<lambda>otp_data.
      and_then (set_device (adopt_sensor_id otp_data)) (\<lambda>_.
      and_then (load_sensor_state r) (\<lambda>_.
      and_then (on_bus (gdix51c0_cmd_ack_then_resp k a2_payload)) (\<lambda>_.
      and_then (encoded_command GOODIX_COMMAND_MCU_SWITCH_TO_IDLE_MODE (goodix_command_encode_idle 0x14)) (\<lambda>setmode_idle.
      and_then (on_bus (gdix51c0_cmd_ack k setmode_idle)) (\<lambda>_.
      upload_config k (dac_of_otp otp_data))))))))))))))"

section \<open>The key and the handshake\<close>

definition ascii_lower :: "char \<Rightarrow> char" where
  "ascii_lower c = (let n = of_char c in if 65 \<le> n \<and> n \<le> 90 then char_of (n + 32 :: nat) else c)"

text \<open>The key that is known: from the environment, else from the file.\<close>

definition existing_psk :: "('ssl, 'pre, 'w) rig \<Rightarrow> 'w \<Rightarrow> bytes option" where
  "existing_psk r w =
     (case env_set r ENV_PSK_HEX of
        None \<Rightarrow> gdix51c0_load_psk_state r w
      | Some hex \<Rightarrow> (case gdix51c0_parse_psk_hex hex of
          Inr psk \<Rightarrow> Some psk
        | Inl _ \<Rightarrow> gdix51c0_load_psk_state r w))"

text \<open>The key to write to the sensor, if one is to be written.\<close>

definition wanted_psk :: "('ssl, 'pre, 'w) rig \<Rightarrow> bool \<Rightarrow> bytes option \<Rightarrow> string \<Rightarrow> ('w, bytes option) action" where
  "wanted_psk r repair_requested existing prov =
     (if map ascii_lower prov = ''random'' then
        (if repair_requested \<and> existing \<noteq> None then done_with existing
         else if existing \<noteq> None then done_with None
         else (\<lambda>w. case rig_random r PSK_LEN w of
             (None, w') \<Rightarrow> Some (Inl G_IO_ERROR_FAILED, w')
           | (Some want, w') \<Rightarrow> Some (Inr (Some want), w')))
      else case gdix51c0_parse_psk_hex prov of
        Inl e \<Rightarrow> fail_with e
      | Inr want \<Rightarrow> done_with (if \<not> repair_requested \<and> existing = Some want then None else Some want))"

text \<open>A repair is used up before the write. The result is whether a reset has to come first.\<close>

definition provision_wanted :: "('ssl, 'pre, 'w) rig \<Rightarrow> bool \<Rightarrow> bytes \<Rightarrow> ('ssl, 'pre, 'w, unit) step" where
  "provision_wanted r repair_requested want =
     and_then (if repair_requested
               then set_device (\<lambda>self. self\<lparr> psk_reprovision_pending := False, psk_reprovision_attempted_this_open := True \<rparr>)
               else done_with ()) (\<lambda>_.
     and_then (on_bus (gdix51c0_provision_psk (rig_kernel r) (rig_crypto r) want True)) (\<lambda>_.
     and_then (if repair_requested then set_device (\<lambda>self. self\<lparr> psk_reprovision_completed_this_open := True \<rparr>)
               else done_with ()) (\<lambda>_.
     on_bus (ignoring (call (gdix51c0_save_psk_state r want))))))"

text \<open>The key of the session: just written, else known, else from the sensor, else an error.\<close>

definition session_psk :: "('ssl, 'pre, 'w) rig \<Rightarrow> bytes option \<Rightarrow> bytes option \<Rightarrow> ('w, bytes) action" where
  "session_psk r known mcu_psk =
     (case known of
        Some psk \<Rightarrow> done_with psk
      | None \<Rightarrow> (case mcu_psk of
          Some psk \<Rightarrow> done_with psk
        | None \<Rightarrow> (\<lambda>w. Some (gdix51c0_load_psk r w, w))))"

text \<open>A confirmed mismatch schedules a repair when provisioning is allowed, a key is known and none was tried.\<close>

definition handshake_failed :: "bool \<Rightarrow> bool \<Rightarrow> gio_error \<Rightarrow> ('ssl, 'pre) device \<Rightarrow> ('ssl, 'pre) device" where
  "handshake_failed provisioning have_existing e self =
     (let self1 = self\<lparr> tls := gdix51c0_tls_free (tls self) \<rparr> in
      if e = G_IO_ERROR_PERMISSION_DENIED \<and> provisioning \<and> have_existing \<and> \<not> psk_reprovision_attempted_this_open self1
      then self1\<lparr> psk_reprovision_pending := True \<rparr> else self1)"

definition tls_connect :: "('ssl, 'pre, 'w) rig \<Rightarrow> bool \<Rightarrow> bool \<Rightarrow> bytes \<Rightarrow> ('ssl, 'pre, 'w, unit) step" where
  "tls_connect r provisioning have_existing psk =
     (let k = rig_kernel r in
      and_then (with_tls (gdix51c0_tls_init (rig_ssl r) psk)) (\<lambda>_.
      and_then (or_else (with_tls (gdix51c0_tls_handshake k (rig_ssl r)))
                 (\<lambda>e. and_then (set_device (handshake_failed provisioning have_existing e)) (\<lambda>_. fail_with e))) (\<lambda>_.
      and_then (pause r 100000) (\<lambda>_.
      and_then (or_else (on_bus (gdix51c0_cmd_ack k [0xd4, 0x03, 0x00, 0x00, 0x00, 0xd3]))
                 (\<lambda>e. and_then (set_device (\<lambda>self. self\<lparr> tls := gdix51c0_tls_free (tls self) \<rparr>)) (\<lambda>_. fail_with e))) (\<lambda>_.
      set_device (\<lambda>self. self\<lparr> tls_ready := True \<rparr>))))))"

definition recover_and_connect :: "('ssl, 'pre, 'w) rig \<Rightarrow> bool \<Rightarrow> bytes option \<Rightarrow> ('ssl, 'pre, 'w, bool) step" where
  "recover_and_connect r provisioning known =
     and_then (on_bus (or_else (gdix51c0_recover_psk_from_mcu (rig_kernel r) (rig_crypto r)) (\<lambda>_. done_with None))) (\<lambda>mcu_psk.
     and_then (on_bus (session_psk r known mcu_psk)) (\<lambda>psk.
     and_then (tls_connect r provisioning (known \<noteq> None) psk) (\<lambda>_. done_with False)))"

text \<open>The result is whether the sensor has to be reset before TLS.\<close>

definition gdix51c0_session_tls_start :: "('ssl, 'pre, 'w) rig \<Rightarrow> ('ssl, 'pre, 'w, bool) step" where
  "gdix51c0_session_tls_start r = (\<lambda>(self, w).
     let repair_requested = psk_reprovision_pending self; existing = existing_psk r w in
     (case env_set r ENV_PROVISION_PSK of
        None \<Rightarrow> recover_and_connect r False existing
      | Some prov \<Rightarrow>
          and_then (on_bus (wanted_psk r repair_requested existing prov)) (\<lambda>wanted.
          case wanted of
            None \<Rightarrow> recover_and_connect r True existing
          | Some want \<Rightarrow>
              and_then (provision_wanted r repair_requested want) (\<lambda>_.
              if repair_requested then done_with True else recover_and_connect r True (Some want)))) (self, w))"

section \<open>The calibration pass\<close>

text \<open>A step whose error is looked at later.\<close>

definition attempt :: "('s, 'a) action \<Rightarrow> ('s, 'a result) action" where
  "attempt m s = (case m s of None \<Rightarrow> None | Some (result, s') \<Rightarrow> Some (Inr result, s'))"

definition finger_off :: "bool result \<Rightarrow> bool" where
  "finger_off result \<longleftrightarrow> result = Inr True"

definition want_prime :: "('ssl, 'pre) device \<Rightarrow> bool" where
  "want_prime self \<longleftrightarrow>
     \<not> image_base_refreshed_this_open self \<or> \<not> t0_baseline_valid self \<or> active_dac_main self \<noteq> 0x0b38"

text \<open>The new frame is used when both measurements around it saw no finger, once in an open device.\<close>

definition adopt_t0 :: "('ssl, 'pre, 'w) rig \<Rightarrow> bool \<Rightarrow> u16 list \<Rightarrow> ('ssl, 'pre, 'w, unit) step" where
  "adopt_t0 r no_finger frame = (\<lambda>(self, w).
     if \<not> image_base_refreshed_this_open self \<and> no_finger then
       (case gdix51c0_baseline_adopt_and_save r frame (self, w) of (self', w') \<Rightarrow>
          Some (Inr (), (self'\<lparr> image_base_refreshed_this_open := True \<rparr>, w')))
     else Some (Inr (), (self, w)))"

definition require_baseline :: "('ssl, 'pre, 'w, unit) step" where
  "require_baseline = (\<lambda>(self, w).
     if t0_baseline_valid self then Some (Inr (), (self, w)) else Some (Inl G_IO_ERROR_NOT_INITIALIZED, (self, w)))"

definition prime_pass :: "('ssl, 'pre, 'w) rig \<Rightarrow> ('ssl, 'pre, 'w, unit) step" where
  "prime_pass r =
     and_then (attempt (gdix51c0_fdt_measure_base r)) (\<lambda>fdt1.
     and_then (attempt (gdix51c0_capture_nav_data r)) (\<lambda>nav.
     and_then (attempt (gdix51c0_fdt_measure_base r)) (\<lambda>fdt2.
     and_then (attempt (gdix51c0_capture_image_raw r CMD_IMAGE_T0 False)) (\<lambda>image.
     and_then (attempt (gdix51c0_fdt_measure_base r)) (\<lambda>fdt3.
     case image of
       Inl e \<Rightarrow> fail_with (if e = NO_ERROR then G_IO_ERROR_CONNECTION_CLOSED else e)
     | Inr frame \<Rightarrow> and_then (adopt_t0 r (finger_off fdt2 \<and> finger_off fdt3) frame) (\<lambda>_. require_baseline))))))"

definition gdix51c0_session_prime_t0 :: "('ssl, 'pre, 'w) rig \<Rightarrow> ('ssl, 'pre, 'w, unit) step" where
  "gdix51c0_session_prime_t0 r = (\<lambda>(self, w).
     if want_prime self then prime_pass r (self, w) else Some (Inr (), (self, w)))"

section \<open>Activation\<close>

text \<open>A listener that is still there ends the program.\<close>

definition start_listener :: "('ssl, 'pre, 'w) rig \<Rightarrow> ('ssl, 'pre, 'w, unit) step" where
  "start_listener r = (\<lambda>(self, w).
     if listener self \<noteq> None then None
     else and_then (on_bus (gdix51c0_irq_drain (rig_kernel r))) (\<lambda>_ (self1, w1).
       case rig_listener_new r w1 of
         (Inl e, w2) \<Rightarrow> Some (Inl e, (self1, w2))
       | (Inr _, w2) \<Rightarrow> Some (Inr (), (self1\<lparr> listener := Some listener_new \<rparr>, w2))) (self, w))"

definition gdix51c0_session_activate_once :: "('ssl, 'pre, 'w) rig \<Rightarrow> ('ssl, 'pre, 'w, unit) step" where
  "gdix51c0_session_activate_once r =
     and_then (set_device gdix51c0_session_reset_capture_state) (\<lambda>_.
     and_then (on_bus (gdix51c0_boot_probe r)) (\<lambda>_.
     and_then (gdix51c0_init_sequence r) (\<lambda>_.
     and_then (gdix51c0_session_tls_start r) (\<lambda>reset_required.
     if reset_required then fail_with G_IO_ERROR_BUSY
     else and_then (start_listener r) (\<lambda>_. gdix51c0_session_prime_t0 r)))))"

text \<open>Taking a session down cannot fail; the reset of the sensor may, which changes nothing.\<close>

definition drop_session :: "('ssl, 'pre) device \<Rightarrow> ('ssl, 'pre) device" where
  "drop_session self =
     (let self1 = self\<lparr> listener := None \<rparr>;
          self2 = (if tls_ready self1 then self1\<lparr> tls := gdix51c0_tls_free (tls self1), tls_ready := False \<rparr> else self1)
      in self2\<lparr> session_desynced := False \<rparr>)"

definition gdix51c0_session_deactivate :: "('ssl, 'pre, 'w) rig \<Rightarrow> ('ssl, 'pre, 'w, unit) step" where
  "gdix51c0_session_deactivate r = (\<lambda>(self, w).
     let k = rig_kernel r in
     and_then (on_bus (gdix51c0_irq_drain k)) (\<lambda>_.
       if rig_gpio r = None then done_with ()
       else
         and_then (on_bus (ignoring (reset_sensor r))) (\<lambda>_.
         and_then (pause r 1000000) (\<lambda>_. on_bus (gdix51c0_irq_drain k))))
       (drop_session self, if listener self = None then w else rig_listener_free r w))"

text \<open>The pause between two attempts, in ten slices.\<close>

fun retry_delay :: "('ssl, 'pre, 'w) rig \<Rightarrow> nat \<Rightarrow> ('ssl, 'pre, 'w, unit) step" where
  "retry_delay r 0 = done_with ()"
| "retry_delay r (Suc n) =
     and_then (gdix51c0_action_check_cancelled r) (\<lambda>_. and_then (pause r 100000) (\<lambda>_. retry_delay r n))"

text \<open>A repair that was completed by the attempt that failed grants one more budget, once.\<close>

function activation_loop :: "('ssl, 'pre, 'w) rig \<Rightarrow> nat \<Rightarrow> nat \<Rightarrow> bool \<Rightarrow> ('ssl, 'pre, 'w, unit) step" where
  "activation_loop r max_attempts failures granted =
     (if failures < max_attempts then
        and_then (gdix51c0_action_check_cancelled r) (\<lambda>_ (self, w).
          case gdix51c0_session_activate_once r (self, w) of
            None \<Rightarrow> None
          | Some (Inr _, s') \<Rightarrow> Some (Inr (), s')
          | Some (Inl e, (self', w')) \<Rightarrow>
              and_then (gdix51c0_session_deactivate r) (\<lambda>_.
              and_then (gdix51c0_action_check_cancelled r) (\<lambda>_.
                if \<not> psk_reprovision_completed_this_open self \<and> psk_reprovision_completed_this_open self' \<and> \<not> granted
                then activation_loop r max_attempts 0 True
                else if Suc failures = max_attempts then fail_with e
                else and_then (retry_delay r 10) (\<lambda>_. activation_loop r max_attempts (Suc failures) granted))) (self', w'))
      else fail_with G_IO_ERROR_FAILED)"
  by pat_completeness auto
termination
  by (relation "measures [\<lambda>(r, n, failures, granted). if granted then 0 else 1, \<lambda>(r, n, failures, granted). n - failures]") auto

declare activation_loop.simps [simp del]

definition gdix51c0_session_activate_with_attempts :: "('ssl, 'pre, 'w) rig \<Rightarrow> nat \<Rightarrow> ('ssl, 'pre, 'w, unit) step" where
  "gdix51c0_session_activate_with_attempts r max_attempts = (\<lambda>(self, w).
     if tls_ready self then
       and_then (set_device gdix51c0_session_reset_capture_state) (\<lambda>_.
         if \<not> image_base_refreshed_this_open self then gdix51c0_session_prime_t0 r else done_with ()) (self, w)
     else activation_loop r (max max_attempts 1) 0 False (self, w))"

definition gdix51c0_session_activate :: "('ssl, 'pre, 'w) rig \<Rightarrow> ('ssl, 'pre, 'w, unit) step" where
  "gdix51c0_session_activate r = gdix51c0_session_activate_with_attempts r 4"

section \<open>The configuration\<close>

lemma cfg_template_fields: "length cfg_template = 228" "take 3 cfg_template = [0x90, 0xe1, 0x00]"
  by (simp_all add: cfg_template_def)

lemma cfg_patched:
  fixes d
  defines "cfg \<equiv> cfg_patch_timing d (cfg_patch_dac d cfg_template)"
  shows "length cfg = 228" "take 3 cfg = [0x90, 0xe1, 0x00]"
    "cfg ! 122 = ucast (dac_main d)" "cfg ! 123 = ucast (drop_bit 8 (dac_main d))" "cfg ! 126 = ucast (dac_1 d)"
    "cfg ! 130 = ucast (dac_2 d)" "cfg ! 134 = ucast (dac_3 d)"
  using cfg_template_fields
  by (simp_all add: cfg_def cfg_patch_timing_def cfg_patch_dac_def take_update_cancel)

text \<open>C3: The sensor never gets a configuration it would silently reject. Whatever DAC was derived, the packet of the
  configuration exists, has the 228 bytes and the outer checksum of a valid command, the checksum inside the blob
  is the one of the patched registers, and the four DAC registers of the blob say what the DAC command says.\<close>

theorem config_always_valid:
  "\<exists>p. cfg_packet d = Some p \<and> length p = 228 \<and> goodix_wire_decode_command p False = Some (0x90, take 224 (drop 3 p)) \<and>
     goodix_mcu_config_checksum_valid (take 224 (drop 3 p)) \<and>
     [p ! 122, p ! 123, p ! 126, p ! 130, p ! 134] = [dac_packet d ! 3, dac_packet d ! 4, dac_packet d ! 5, dac_packet d ! 7, dac_packet d ! 9]"
proof -
  define cfg where "cfg = cfg_patch_timing d (cfg_patch_dac d cfg_template)"
  note cfg = cfg_patched [of d, folded cfg_def]
  let ?old = "take 224 (drop 3 cfg)"
  have "config_shape_valid ?old" using cfg(1) by (simp add: config_shape_valid_def)
  then obtain config where config: "goodix_mcu_config_update_checksum ?old = Some config"
    "goodix_mcu_config_checksum_valid config" "length config = 224" "take 222 config = take 222 ?old"
    using goodix_mcu_config_update_valid [of ?old] cfg(1) by (auto split: option.splits)
  define p1 where "p1 = write_at cfg 3 config"
  define p where "p = p1[227 := gdix51c0_payload_checksum p1 227]"
  have len: "length p1 = 228" "length p = 228" using config(3) cfg(1) by (simp_all add: p1_def p_def)
  have p: "cfg_packet d = Some p" using config(1) cfg(1) len by (simp add: cfg_packet_def cfg_def [symmetric] p_def p1_def Let_def)
  have front: "take 3 p = [0x90, 0xe1, 0x00]"
    using cfg(1,2) config(3) by (simp add: p_def p1_def take_write_at_before)
  have inner: "take 224 (drop 3 p) = config"
    using take_drop_write_at_same [of 3 config cfg] config(3) cfg(1) by (simp add: p_def p1_def drop_update_swap)
  have keep: "p ! i = cfg ! i" if "3 \<le> i" "i < 225" for i
  proof -
    have "p ! i = config ! (i - 3)" using that config(3) cfg(1) by (simp add: p_def p1_def nth_write_at_inside)
    also have "\<dots> = take 222 config ! (i - 3)" using that by simp
    also have "\<dots> = cfg ! i" using that cfg(1) unfolding config(4) by simp
    finally show ?thesis .
  qed
  have at: "p ! 0 = 0x90" "p ! 1 = 0xe1" "p ! 2 = 0x00"
    using arg_cong [OF front, of "\<lambda>xs. xs ! 0"] arg_cong [OF front, of "\<lambda>xs. xs ! 1"] arg_cong [OF front, of "\<lambda>xs. xs ! 2"] by simp_all
  have wire: "le16_at p 1 = 0x00e1" using at by (simp add: le16_at_def flip: numeral_2_eq_2)
  have "goodix_wire_checksum p 227 = goodix_wire_checksum p1 227"
    by (simp add: p_def goodix_wire_checksum_def)
  then have sum: "p ! 227 = goodix_wire_checksum p 227" using len by (simp add: p_def gdix51c0_payload_checksum_def)
  have "goodix_wire_validate_command p False = Some 224"
    using len wire sum by (simp add: goodix_wire_validate_command_def Let_def)
  then have "goodix_wire_decode_command p False = Some (0x90, take 224 (drop 3 p))"
    using at by (simp add: goodix_wire_decode_command_def)
  then show ?thesis using p len(2) inner config(2) keep cfg by (simp add: dac_packet_def)
qed

section \<open>The repair of a key\<close>

text \<open>The three flags of the device are the four states of a machine that only moves forward.\<close>

datatype repair_state = Repair_Idle | Repair_Pending | Repair_Attempted | Repair_Completed

inductive repair_move :: "repair_state \<Rightarrow> repair_state \<Rightarrow> bool" where
  mismatch: "repair_move Repair_Idle Repair_Pending"
| consume: "repair_move Repair_Pending Repair_Attempted"
| verified: "repair_move Repair_Attempted Repair_Completed"

inductive_simps repair_move_simps: "repair_move a b"

fun repair_rank :: "repair_state \<Rightarrow> nat" where
  "repair_rank Repair_Idle = 0"
| "repair_rank Repair_Pending = 1"
| "repair_rank Repair_Attempted = 2"
| "repair_rank Repair_Completed = 3"

fun repair_of_flags :: "bool \<times> bool \<times> bool \<Rightarrow> repair_state option" where
  "repair_of_flags (False, False, False) = Some Repair_Idle"
| "repair_of_flags (True, False, False) = Some Repair_Pending"
| "repair_of_flags (False, True, False) = Some Repair_Attempted"
| "repair_of_flags (False, True, True) = Some Repair_Completed"
| "repair_of_flags _ = None"

definition repair_flags :: "('ssl, 'pre) device \<Rightarrow> bool \<times> bool \<times> bool" where
  "repair_flags self = (psk_reprovision_pending self, psk_reprovision_attempted_this_open self, psk_reprovision_completed_this_open self)"

definition repair_state_of :: "('ssl, 'pre) device \<Rightarrow> repair_state option" where
  "repair_state_of self = repair_of_flags (repair_flags self)"

text \<open>Moves are made only where they are \<open>ok\<close>.\<close>

definition repairs_forward :: "bool \<Rightarrow> ('ssl, 'pre) device \<Rightarrow> ('ssl, 'pre) device \<Rightarrow> bool" where
  "repairs_forward ok self self' \<longleftrightarrow>
     (if ok then \<forall>st. repair_state_of self = Some st \<longrightarrow> (\<exists>st'. repair_state_of self' = Some st' \<and> repair_move\<^sup>*\<^sup>* st st')
      else repair_flags self' = repair_flags self)"

lemma repairs_forward_refl: "repairs_forward ok self self"
  by (auto simp: repairs_forward_def)

lemma repairs_forward_trans: "repairs_forward ok a b \<Longrightarrow> repairs_forward ok b c \<Longrightarrow> repairs_forward ok a c"
  unfolding repairs_forward_def by (auto split: if_splits) (meson rtranclp_trans)

lemma repairs_forward_same: "repair_flags self' = repair_flags self \<Longrightarrow> repairs_forward ok self self'"
  by (auto simp: repairs_forward_def repair_state_of_def)

text \<open>The fields that few steps change: the flags of the repair, and the id of the sensor.\<close>

definition device_core :: "('ssl, 'pre) device \<Rightarrow> (bool \<times> bool \<times> bool) \<times> bytes" where
  "device_core self = (repair_flags self, sensor_id self)"


lemma baseline_flags [simp]:
  "device_core (fst (gdix51c0_baseline_save r s)) = device_core (fst s)"
  "device_core (fst (gdix51c0_baseline_load r s)) = device_core (fst s)"
  "device_core (fst (rebase_calibration r s)) = device_core (fst s)"
  "device_core (fst (gdix51c0_chicago_calibration_maybe_load_or_generate r s)) = device_core (fst s)"
  "device_core (gdix51c0_chicago_preprocessor_maybe_init r self) = device_core self"
proof -
  obtain self0 w where s: "s = (self0, w)" by (cases s)
  show "device_core (fst (gdix51c0_baseline_save r s)) = device_core (fst s)"
    by (auto simp: s gdix51c0_baseline_save_def split: prod.split sum.split)
  have "device_core (baseline_of_contents self0 contents) = device_core self0" for contents
    by (simp add: baseline_of_contents_def device_core_def repair_flags_def)
  then show "device_core (fst (gdix51c0_baseline_load r s)) = device_core (fst s)"
    by (auto simp: s gdix51c0_baseline_load_def split: sum.split)
  show "device_core (fst (rebase_calibration r s)) = device_core (fst s)"
    by (auto simp: s rebase_calibration_def device_core_def repair_flags_def split: option.split sum.split)
  show "device_core (fst (gdix51c0_chicago_calibration_maybe_load_or_generate r s)) = device_core (fst s)"
    by (auto simp: s gdix51c0_chicago_calibration_maybe_load_or_generate_def device_core_def repair_flags_def Let_def split: sum.split)
  show "device_core (gdix51c0_chicago_preprocessor_maybe_init r self) = device_core self"
    by (auto simp: gdix51c0_chicago_preprocessor_maybe_init_def device_core_def repair_flags_def split: sum.split option.split bool.split)
qed

lemma device_core_fields [simp]:
  "device_core (self\<lparr> t0_baseline := raw, t0_baseline_valid := b \<rparr>) = device_core self"
  "device_core (self\<lparr> chicago_preprocessor := pre \<rparr>) = device_core self"
  by (simp_all add: device_core_def repair_flags_def)

lemma adopt_flags [simp]: "device_core (fst (gdix51c0_baseline_adopt_and_save r raw s)) = device_core (fst s)"
proof -
  obtain self w where s: "s = (self, w)" by (cases s)
  let ?c = "gdix51c0_chicago_calibration_maybe_load_or_generate r (rebase_calibration r
      (gdix51c0_baseline_save r (self\<lparr> t0_baseline := raw, t0_baseline_valid := True \<rparr>, w)))"
  obtain self' w' where c: "?c = (self', w')" by (cases ?c)
  have "device_core (fst ?c) = device_core self" by simp
  then have "device_core self' = device_core self" unfolding c fst_conv .
  then show ?thesis using c s by (simp add: gdix51c0_baseline_adopt_and_save_def)
qed

lemma device_flags [simp]:
  "device_core (store_sample touchflag sample self) = device_core self"
  "device_core (gdix51c0_fdt_update_down_thresholds self) = device_core self"
  "device_core (gdix51c0_session_reset_capture_state self) = device_core self"
  "device_core (drop_session self) = device_core self"
  by (simp_all add: store_sample_def store_touched_sample_def gdix51c0_fdt_store_zero_touch_baseline_def
      gdix51c0_fdt_update_down_thresholds_def gdix51c0_session_reset_capture_state_def drop_session_def
      Let_def device_core_def repair_flags_def)

lemma handshake_failed_forward: "repairs_forward provisioning self (handshake_failed provisioning have_existing e self)"
proof (cases "e = G_IO_ERROR_PERMISSION_DENIED \<and> provisioning \<and> have_existing \<and> \<not> psk_reprovision_attempted_this_open self")
  case True
  then have f: "repair_flags (handshake_failed provisioning have_existing e self) = (True, False, psk_reprovision_completed_this_open self)"
    by (simp add: handshake_failed_def Let_def repair_flags_def)
  have "\<exists>st'. repair_state_of (handshake_failed provisioning have_existing e self) = Some st' \<and> repair_move\<^sup>*\<^sup>* st st'"
    if st: "repair_state_of self = Some st" for st
  proof -
    have "st = Repair_Idle \<or> st = Repair_Pending" "\<not> psk_reprovision_completed_this_open self"
      using st True by (auto simp: repair_state_of_def repair_flags_def elim: repair_of_flags.elims)
    moreover have "repair_move\<^sup>*\<^sup>* Repair_Idle Repair_Pending" by (rule r_into_rtranclp) (rule repair_move.intros)
    ultimately show ?thesis by (auto simp: repair_state_of_def f)
  qed
  then show ?thesis using True by (simp add: repairs_forward_def)
next
  case False
  then have "repair_flags (handshake_failed provisioning have_existing e self) = repair_flags self"
    by (auto simp: handshake_failed_def Let_def repair_flags_def)
  then show ?thesis by (rule repairs_forward_same)
qed

lemma handshake_failed_id: "sensor_id (handshake_failed provisioning have_existing e self) = sensor_id self"
  by (simp add: handshake_failed_def Let_def)

lemma repairs_forward_weaken: "repairs_forward provisioning self self' \<Longrightarrow> provisioning \<longrightarrow> ok \<Longrightarrow> repairs_forward ok self self'"
  by (cases provisioning) (auto simp: repairs_forward_def repair_state_of_def)

lemma and_then_bus: "m w = Some (Inr x, w') \<Longrightarrow> and_then (on_bus m) g (t, w) = g x (t, w')"
  by (simp add: and_then_def on_bus_def)

lemma and_then_device: "and_then (set_device f) g (self, w) = g () (f self, w)"
  by (simp add: and_then_def set_device_def)

text \<open>Provisioning with the flags of a scheduled repair.\<close>

lemma provision_repairs:
  assumes "provision_wanted r True want (self, w) = Some (result, (self', w'))" and "psk_reprovision_pending self"
  shows "repairs_forward True self self' \<and> sensor_id self' = sensor_id self"
proof -
  let ?self1 = "self\<lparr> psk_reprovision_pending := False, psk_reprovision_attempted_this_open := True \<rparr>"
  let ?done = "\<lambda>self. self\<lparr> psk_reprovision_completed_this_open := True \<rparr>"
  let ?save = "on_bus (ignoring (call (gdix51c0_save_psk_state r want)))"
  have run: "and_then (on_bus (gdix51c0_provision_psk (rig_kernel r) (rig_crypto r) want True))
      (\<lambda>_. and_then (set_device ?done) (\<lambda>_. ?save)) (?self1, w) = Some (result, (self', w'))"
    using assms(1) by (simp add: provision_wanted_def and_then_device)
  then have "self' = ?self1 \<or> self' = ?done ?self1"
    by (auto simp: and_then_def on_bus_def set_device_def split: option.splits sum.splits)
  then have end_flags: "repair_flags self' = repair_flags ?self1 \<or> repair_flags self' = repair_flags (?done ?self1)"
    and same: "sensor_id self' = sensor_id self" by auto
  have moves: "repair_move\<^sup>*\<^sup>* Repair_Pending Repair_Attempted" "repair_move\<^sup>*\<^sup>* Repair_Pending Repair_Completed"
    using repair_move.intros by (meson rtranclp.simps)+
  have "\<exists>st'. repair_state_of self' = Some st' \<and> repair_move\<^sup>*\<^sup>* st st'" if st: "repair_state_of self = Some st" for st
  proof -
    have "st = Repair_Pending" "\<not> psk_reprovision_completed_this_open self"
      using st assms(2) by (auto simp: repair_state_of_def repair_flags_def elim: repair_of_flags.elims)
    then show ?thesis using end_flags moves by (auto simp: repair_state_of_def repair_flags_def)
  qed
  then show ?thesis using same by (simp add: repairs_forward_def)
qed

text \<open>Steps relate the device before to the one after.\<close>

definition related :: "(('ssl, 'pre) device \<Rightarrow> ('ssl, 'pre) device \<Rightarrow> bool) \<Rightarrow> ('ssl, 'pre, 'w, 'a) step \<Rightarrow> bool" where
  "related R m \<longleftrightarrow> (\<forall>s result s'. m s = Some (result, s') \<longrightarrow> R (fst s) (fst s'))"

named_theorems forwarding \<open>steps that keep a relation of the device\<close>

text \<open>A relation that does not look beyond the flags of the repair and the id of the sensor is kept by every step
  that leaves these alone.\<close>

locale device_steps =
  fixes R :: "('ssl, 'pre) device \<Rightarrow> ('ssl, 'pre) device \<Rightarrow> bool"
  assumes refl: "R self self"
    and trans: "R a b \<Longrightarrow> R b c \<Longrightarrow> R a c"
    and same: "device_core self' = device_core self \<Longrightarrow> R self self'"
begin

lemma forwardI: "(\<And>self w result self' w'. m (self, w) = Some (result, (self', w')) \<Longrightarrow> R self self') \<Longrightarrow> related R m"
  by (auto simp: related_def)

lemma forwardD: "related R m \<Longrightarrow> m (self, w) = Some (result, (self', w')) \<Longrightarrow> R self self'"
  by (fastforce simp: related_def)

lemma forward_yields:
  assumes "related R m" and "yields m P" and "\<And>x. P x \<Longrightarrow> related R (g x)"
  shows "related R (and_then m g)"
proof (rule forwardI)
  fix self w result self' w' assume run: "and_then m g (self, w) = Some (result, (self', w'))"
  then obtain r self1 w1 where m: "m (self, w) = Some (r, (self1, w1))" by (auto simp: and_then_def split: option.splits)
  note first = forwardD [OF assms(1) m]
  show "R self self'"
  proof (cases r)
    case (Inr x)
    then have "g x (self1, w1) = Some (result, (self', w'))" using run m by (simp add: and_then_def)
    moreover have "P x" using assms(2) m Inr unfolding yields_def by blast
    ultimately show ?thesis using trans [OF first forwardD [OF assms(3)]] by blast
  qed (use run m first in \<open>simp add: and_then_def\<close>)
qed

lemma forward_and_then [forwarding]:
  assumes "related R m" and "\<And>x. related R (g x)"
  shows "related R (and_then m g)"
  by (rule forward_yields [OF assms(1), where P = "\<lambda>_. True"]) (simp_all add: yields_def assms(2))

lemma forward_or_else [forwarding]:
  assumes "related R m" and "\<And>e. related R (g e)"
  shows "related R (or_else m g)"
proof (rule forwardI)
  fix self w result self' w' assume run: "or_else m g (self, w) = Some (result, (self', w'))"
  then obtain r self1 w1 where m: "m (self, w) = Some (r, (self1, w1))" by (auto simp: or_else_def split: option.splits)
  note first = forwardD [OF assms(1) m]
  show "R self self'"
  proof (cases r)
    case (Inl e)
    then have "g e (self1, w1) = Some (result, (self', w'))" using run m by (simp add: or_else_def)
    then show ?thesis using trans [OF first forwardD [OF assms(2)]] by blast
  qed (use run m first in \<open>simp add: or_else_def\<close>)
qed

lemma forward_attempt [forwarding]: "related R m \<Longrightarrow> related R (attempt m)"
  unfolding related_def attempt_def by (auto split: option.splits)

lemma forward_if [forwarding]: "related R m \<Longrightarrow> related R m' \<Longrightarrow> related R (if b then m else m')"
  by simp

lemma forward_simple [forwarding]: "related R (done_with x)" "related R (fail_with e)"
  by (simp_all add: related_def done_with_def fail_with_def refl)

lemma forward_on_bus [forwarding]: "related R (on_bus m)"
  by (auto simp: on_bus_def refl intro!: forwardI split: option.splits)

lemma forward_pause [forwarding]: "related R (pause r n)"
  by (auto simp: pause_def refl intro!: forwardI)

lemma forward_device [forwarding]: "(\<And>self. R self (f self)) \<Longrightarrow> related R (set_device f)"
  by (auto simp: set_device_def intro!: forwardI)

lemma forward_with_listener [forwarding]: "related R (with_listener m)"
  by (auto simp: with_listener_def device_core_def repair_flags_def intro!: forwardI same split: option.splits)

lemma forward_with_tls [forwarding]: "related R (with_tls m)"
  by (auto simp: with_tls_def device_core_def repair_flags_def intro!: forwardI same split: option.splits)

lemma forward_cancelled [forwarding]: "related R (gdix51c0_action_check_cancelled r)"
  by (auto simp: gdix51c0_action_check_cancelled_def device_core_def repair_flags_def intro!: forwardI same split: prod.splits if_splits)

lemma forward_state: "(\<And>self w. related R (f self w)) \<Longrightarrow> related R (\<lambda>(self, w). f self w (self, w))"
  by (auto intro!: forwardI dest: forwardD)

lemma forward_measure [forwarding]: "related R (gdix51c0_fdt_manual_read r)" "related R (gdix51c0_fdt_measure_base r)"
proof -
  show manual: "related R (gdix51c0_fdt_manual_read r)"
    unfolding gdix51c0_fdt_manual_read_def by (intro forward_state forwarding)
  have "related R (case x of (touchflag, sample) \<Rightarrow> and_then (set_device (store_sample touchflag sample)) (\<lambda>_. done_with (touchflag AND 0x3f = 0)))" for x
    by (cases x) (auto intro!: forwarding same)
  then show "related R (gdix51c0_fdt_measure_base r)"
    unfolding gdix51c0_fdt_measure_base_def by (intro forwarding manual)
qed

lemma forward_nav [forwarding]: "related R (gdix51c0_capture_nav_data r)"
  unfolding gdix51c0_capture_nav_data_def Let_def by (intro forward_state forwarding)

lemma forward_image [forwarding]: "related R (gdix51c0_capture_image_raw r cmd retry_image)"
proof -
  have quiet: "related R (quiet_readout r)" by (auto simp: quiet_readout_def refl intro!: forwardI)
  have once: "related R (image_attempt r cmd on_missing)" if "\<And>e. related R (on_missing e)" for on_missing
    unfolding image_attempt_def by (intro forwarding quiet that)
  have rec: "related R (image_record r cmd)" unfolding image_record_def by (intro once forwarding)
  have dec: "related R (decode_record r encrypted)" for encrypted unfolding decode_record_def by (intro forwarding)
  have body: "related R (and_then (if b then done_with () else pause r 10000) (\<lambda>_. and_then (image_record r cmd) (decode_record r)))" for b
    by (intro forwarding rec dec)
  show ?thesis
  proof (rule forwardI)
    fix self w result self' w' assume run: "gdix51c0_capture_image_raw r cmd retry_image (self, w) = Some (result, (self', w'))"
    show "R self self'"
    proof (cases "listener self")
      case (Some q)
      then show ?thesis using run by (intro forwardD [OF body [of retry_image]]) (simp add: gdix51c0_capture_image_raw_def)
    qed (use run in \<open>simp add: gdix51c0_capture_image_raw_def refl\<close>)
  qed
qed

lemma forward_adopt_t0 [forwarding]: "related R (adopt_t0 r no_finger frame)"
proof (rule forwardI)
  fix self w result self' w' assume run: "adopt_t0 r no_finger frame (self, w) = Some (result, (self', w'))"
  have "device_core (fst (gdix51c0_baseline_adopt_and_save r frame (self, w))) = device_core self" by simp
  then have "device_core self' = device_core self"
    using run by (auto simp: adopt_t0_def device_core_def repair_flags_def split: prod.splits if_splits)
  then show "R self self'" by (rule same)
qed

lemma forward_prime [forwarding]: "related R (gdix51c0_session_prime_t0 r)"
proof -
  have base: "related R require_baseline" by (auto simp: require_baseline_def refl intro!: forwardI split: if_splits)
  have "related R (case image of Inl e \<Rightarrow> fail_with (f e) | Inr frame \<Rightarrow> and_then (adopt_t0 r b frame) (\<lambda>_. require_baseline))" for image f b
    by (cases image) (auto intro!: forwarding base)
  then have "related R (prime_pass r)" unfolding prime_pass_def by (intro forwarding)
  then show ?thesis unfolding gdix51c0_session_prime_t0_def by (auto intro!: forwardI refl split: if_splits dest: forwardD)
qed

lemma forward_deactivate [forwarding]: "related R (gdix51c0_session_deactivate r)"
proof (rule forwardI)
  fix self w result self' w' assume run: "gdix51c0_session_deactivate r (self, w) = Some (result, (self', w'))"
  have body: "related R (and_then (on_bus (gdix51c0_irq_drain (rig_kernel r))) (\<lambda>_.
      if rig_gpio r = None then done_with ()
      else and_then (on_bus (ignoring (reset_sensor r))) (\<lambda>_. and_then (pause r 1000000) (\<lambda>_. on_bus (gdix51c0_irq_drain (rig_kernel r))))))"
    by (intro forwarding)
  have "R (drop_session self) self'"
    by (rule forwardD [OF body]) (use run in \<open>simp add: gdix51c0_session_deactivate_def Let_def\<close>)
  then show "R self self'" by (rule trans [OF same, rotated]) simp
qed

lemma forward_delay [forwarding]: "related R (retry_delay r n)"
  by (induction n) (auto intro!: forwarding)

lemma forward_down_arm [forwarding]: "related R (gdix51c0_fdt_down_arm r)"
proof (rule forwardI)
  fix self w result self' w' assume run: "gdix51c0_fdt_down_arm r (self, w) = Some (result, (self', w'))"
  let ?self = "gdix51c0_fdt_update_down_thresholds self"
  have arm: "related R (and_then (pause r 80000) (\<lambda>_. with_listener m))" for m by (intro forwarding)
  have "R ?self self'"
    using run by (auto simp: gdix51c0_fdt_down_arm_def Let_def refl split: prod.splits if_splits intro: forwardD [OF arm])
  then show "R self self'" by (rule trans [OF same, rotated]) simp
qed

lemma down_response_core: "device_core (snd (fdt_down_response resp self)) = device_core self"
  by (simp add: fdt_down_response_def gdix51c0_fdt_store_zero_touch_baseline_def Let_def device_core_def repair_flags_def)

lemma forward_update:
  "(\<And>self. device_core (snd (f self)) = device_core self) \<Longrightarrow>
     related R (\<lambda>(self, w). case f self of (x, self') \<Rightarrow> Some (g x, (self', w)))"
  by (rule forwardI, rule same) (auto split: prod.splits, metis snd_conv)

lemma forward_down_read [forwarding]: "related R (gdix51c0_fdt_down_read r usec)"
  unfolding gdix51c0_fdt_down_read_def by (intro forward_and_then forward_with_listener forward_update down_response_core)

lemma judge_core: "device_core (snd (judge_touch touchflag self)) = device_core self"
  by (simp add: judge_touch_def Let_def device_core_def repair_flags_def)

lemma forward_finger_loop [forwarding]: "related R (finger_loop r deadline)"
proof (rule forwardI)
  fix self w result self' w' assume run: "finger_loop r deadline (self, w) = Some (result, (self', w'))"
  have "R (fst (self, w)) (fst (snd (result, (self', w'))))"
  proof (rule finger_loop.raw_induct [OF _ run, where P = "\<lambda>r deadline s out. R (fst s) (fst (snd out))"], goal_cases)
    case (1 loop r deadline s out)
    have again: "related R (loop r deadline)" by (rule forwardI) (use 1(1) in fastforce)
    have rearm: "related R (and_then (gdix51c0_fdt_down_arm r) (\<lambda>_. loop r deadline))" by (intro forward_and_then forward_down_arm again)
    have "related R (\<lambda>(self, w). case host_now (rig_host r) w of (now, w1) \<Rightarrow>
         if now \<ge> deadline then Some (Inl G_IO_ERROR_TIMED_OUT, (self, w1))
         else case gdix51c0_fdt_down_read r (nat (min (deadline - now) CANCEL_POLL_USEC)) (self, w1) of
           None \<Rightarrow> None
         | Some (Inl e, (self2, w2)) \<Rightarrow>
             (case host_now (rig_host r) w2 of (now2, w3) \<Rightarrow>
               if now2 \<ge> deadline then Some (Inl G_IO_ERROR_TIMED_OUT, (self2, w3))
               else if e = G_IO_ERROR_TIMED_OUT then loop r deadline (self2, w3)
               else and_then (gdix51c0_fdt_down_arm r) (\<lambda>_. loop r deadline) (self2, w3))
         | Some (Inr touchflag, (self2, w2)) \<Rightarrow>
             (case judge_touch touchflag self2 of (finger, self3) \<Rightarrow>
               if finger then Some (Inr (), (self3, w2))
               else and_then (gdix51c0_fdt_down_arm r) (\<lambda>_. loop r deadline) (self3, w2)))" (is "related R ?turn")
    proof (rule forwardI)
      fix self w result self' w' assume run: "?turn (self, w) = Some (result, (self', w'))"
      obtain now w1 where n: "host_now (rig_host r) w = (now, w1)" by (cases "host_now (rig_host r) w")
      show "R self self'"
      proof (cases "now \<ge> deadline")
        case False
        let ?read = "gdix51c0_fdt_down_read r (nat (min (deadline - now) CANCEL_POLL_USEC)) (self, w1)"
        obtain res self2 w2 where read: "?read = Some (res, (self2, w2))"
          using run False by (cases ?read) (auto simp: n)
        have first: "R self self2" by (rule forwardD [OF forward_down_read read])
        show ?thesis
        proof (cases res)
          case (Inl e)
          obtain now2 w3 where n2: "host_now (rig_host r) w2 = (now2, w3)" by (cases "host_now (rig_host r) w2")
          have "R self2 self'"
          proof (cases "now2 \<ge> deadline")
            case late: False
            show ?thesis
            proof (cases "e = G_IO_ERROR_TIMED_OUT")
              case True
              then have "loop r deadline (self2, w3) = Some (result, (self', w'))"
                using run False Inl late by (simp add: n read [simplified] n2)
              then show ?thesis by (rule forwardD [OF again])
            next
              case other: False
              then have "and_then (gdix51c0_fdt_down_arm r) (\<lambda>_. loop r deadline) (self2, w3) = Some (result, (self', w'))"
                using run False Inl late by (simp add: n read [simplified] n2)
              then show ?thesis by (rule forwardD [OF rearm])
            qed
          qed (use run False Inl in \<open>simp add: n read [simplified] n2 refl\<close>)
          then show ?thesis by (rule trans [OF first])
        next
          case (Inr touchflag)
          obtain finger self3 where j: "judge_touch touchflag self2 = (finger, self3)" by (cases "judge_touch touchflag self2")
          have "R self2 self3" using judge_core [of touchflag self2] by (intro same) (simp add: j)
          moreover have "R self3 self'"
          proof (cases finger)
            case other: False
            then have "and_then (gdix51c0_fdt_down_arm r) (\<lambda>_. loop r deadline) (self3, w2) = Some (result, (self', w'))"
              using run False Inr by (simp add: n read [simplified] j)
            then show ?thesis by (rule forwardD [OF rearm])
          qed (use run False Inr in \<open>simp add: n read [simplified] j refl\<close>)
          ultimately show ?thesis using trans first by blast
        qed
      qed (use run n in \<open>simp add: refl\<close>)
    qed
    then have body: "related R (and_then (gdix51c0_action_check_cancelled r) (\<lambda>_. ?turn))" by (intro forward_and_then forward_cancelled)
    obtain self0 w0 res self1 w1' where eq: "s = (self0, w0)" "out = (res, (self1, w1'))" by (cases s; cases out) auto
    show ?case using forwardD [OF body 1(2) [unfolded eq]] by (simp add: eq)
  qed
  then show "R self self'" by simp
qed

lemma forward_finger [forwarding]: "related R (gdix51c0_wait_for_finger r)"
proof -
  have body: "related R (and_then
         (if b then done_with ()
          else or_else (and_then (gdix51c0_fdt_measure_base r) (\<lambda>_. done_with ())) (\<lambda>_. done_with ()))
         (\<lambda>_. and_then (gdix51c0_fdt_down_arm r) (\<lambda>_. finger_loop r deadline)))" for b deadline
    by (intro forwarding)
  show ?thesis
  proof (rule forwardI)
    fix self w result self' w' assume run: "gdix51c0_wait_for_finger r (self, w) = Some (result, (self', w'))"
    obtain now w1 where n: "host_now (rig_host r) w = (now, w1)" by (cases "host_now (rig_host r) w")
    show "R self self'" by (rule forwardD [OF body run [unfolded gdix51c0_wait_for_finger_def prod.case n]])
  qed
qed

lemma forward_up_arm [forwarding]: "related R (gdix51c0_fdt_up_arm r)"
  unfolding gdix51c0_fdt_up_arm_def Let_def
  by (auto simp: refl intro!: forwardI split: if_splits intro: forwardD [OF forward_with_listener])

lemma up_response_core: "device_core (snd (gdix51c0_parse_fdt_up_response resp self)) = device_core self"
  by (simp add: gdix51c0_parse_fdt_up_response_def Let_def)

lemma forward_up_read [forwarding]: "related R (gdix51c0_fdt_up_read r usec)"
  unfolding gdix51c0_fdt_up_read_def
  by (intro forward_and_then forward_with_listener forward_update [where g = "\<lambda>x. x"] up_response_core)

lemma forward_lift_touch [forwarding]: "related R (lift_touch r usec)"
proof -
  have "related R (case x of (touchflag, sample) \<Rightarrow> and_then (set_device (store_sample touchflag sample)) (\<lambda>_. done_with touchflag))" for x
    by (cases x) (auto intro!: forwarding same)
  then have "related R (lift_probe r)" unfolding lift_probe_def by (intro forwarding)
  then show ?thesis unfolding lift_touch_def by (intro forwarding)
qed

lemma forward_baseline_capture [forwarding]: "related R (gdix51c0_baseline_capture_and_save r)"
proof -
  have adopt: "related R (\<lambda>(self, w). case gdix51c0_baseline_adopt_and_save r raw (self, w) of (self', w') \<Rightarrow>
      Some (Inr (), (self'\<lparr> image_base_refreshed_this_open := True \<rparr>, w')))" for raw
  proof (rule forwardI)
    fix self w result self' w'
    assume run: "(case (self, w) of (self, w) \<Rightarrow> case gdix51c0_baseline_adopt_and_save r raw (self, w) of (self', w') \<Rightarrow>
      Some (Inr (), (self'\<lparr> image_base_refreshed_this_open := True \<rparr>, w'))) = Some (result, (self', w'))"
    have "device_core (fst (gdix51c0_baseline_adopt_and_save r raw (self, w))) = device_core self" by simp
    then show "R self self'" using run by (intro same) (auto simp: device_core_def repair_flags_def split: prod.splits)
  qed
  show ?thesis unfolding gdix51c0_baseline_capture_and_save_def by (intro forwarding adopt)
qed

lemma forward_lift_loop [forwarding]: "related R (lift_loop r deadline)"
proof (rule forwardI)
  fix self w result self' w' assume run: "lift_loop r deadline (self, w) = Some (result, (self', w'))"
  have "R (fst (self, w)) (fst (snd (result, (self', w'))))"
  proof (rule lift_loop.raw_induct [OF _ run, where P = "\<lambda>r deadline s out. R (fst s) (fst (snd out))"], goal_cases)
    case (1 loop r deadline s out)
    have again: "related R (loop r deadline)" by (rule forwardI) (use 1(1) in fastforce)
    let ?judge = "\<lambda>touchflag (self4, w4).
        if touchflag = 0 then
          (if \<not> image_base_refreshed_this_open self4 then gdix51c0_baseline_capture_and_save r (self4, w4)
           else Some (Inr (), (self4, w4)))
        else and_then (pause r 50000) (\<lambda>_. loop r deadline) (self4, w4)"
    have wait: "related R (and_then (pause r 50000) (\<lambda>_. loop r deadline))" by (intro forward_and_then forward_pause again)
    have "related R (?judge touchflag)" for touchflag
    proof (rule forwardI, unfold prod.case)
      fix self w result self' w'
      assume run: "(if touchflag = 0 then
          (if \<not> image_base_refreshed_this_open self then gdix51c0_baseline_capture_and_save r (self, w)
           else Some (Inr (), (self, w)))
        else and_then (pause r 50000) (\<lambda>_. loop r deadline) (self, w)) = Some (result, (self', w'))"
      show "R self self'"
      proof (cases "touchflag = 0")
        case True
        then show ?thesis
          using run by (cases "image_base_refreshed_this_open self") (simp_all add: refl forwardD [OF forward_baseline_capture])
      next
        case False
        then show ?thesis using run by (simp add: forwardD [OF wait])
      qed
    qed
    then have touch: "related R (and_then (lift_touch r usec) ?judge)" for usec by (intro forward_and_then forward_lift_touch)
    let ?timed = "\<lambda>_ (self2, w2). case host_now (rig_host r) w2 of (now2, w3) \<Rightarrow>
        and_then (lift_touch r (lift_wait deadline now2)) ?judge (self2, w3)"
    have "related R (?timed u)" for u
    proof (rule forwardI, unfold prod.case)
      fix self w result self' w'
      assume run: "(case host_now (rig_host r) w of (now2, w3) \<Rightarrow>
        and_then (lift_touch r (lift_wait deadline now2)) ?judge (self, w3)) = Some (result, (self', w'))"
      obtain now2 w3 where n: "host_now (rig_host r) w = (now2, w3)" by (cases "host_now (rig_host r) w")
      show "R self self'" by (rule forwardD [OF touch run [unfolded n prod.case]])
    qed
    then have armed: "related R (and_then (gdix51c0_fdt_up_arm r) (\<lambda>_. and_then (pause r 20000) ?timed))"
      by (intro forward_and_then forward_up_arm forward_pause)
    have "related R (\<lambda>(self, w). case host_now (rig_host r) w of (now, w1) \<Rightarrow>
        if now \<ge> deadline then Some (Inl G_IO_ERROR_TIMED_OUT, (self, w1))
        else and_then (gdix51c0_fdt_up_arm r) (\<lambda>_. and_then (pause r 20000) ?timed) (self, w1))" (is "related R ?turn")
    proof (rule forwardI)
      fix self w result self' w' assume run: "?turn (self, w) = Some (result, (self', w'))"
      obtain now w1 where n: "host_now (rig_host r) w = (now, w1)" by (cases "host_now (rig_host r) w")
      show "R self self'"
      proof (cases "now \<ge> deadline")
        case False
        show ?thesis by (rule forwardD [OF armed run [unfolded prod.case n if_not_P [OF False]]])
      qed (use run n in \<open>simp add: refl\<close>)
    qed
    then have body: "related R (and_then (gdix51c0_action_check_cancelled r) (\<lambda>_. ?turn))" by (intro forward_and_then forward_cancelled)
    obtain self0 w0 res self1 w1' where eq: "s = (self0, w0)" "out = (res, (self1, w1'))" by (cases s; cases out) auto
    show ?case using forwardD [OF body 1(2) [unfolded eq]] by (simp add: eq)
  qed
  then show "R self self'" by simp
qed

lemma forward_lift [forwarding]: "related R (gdix51c0_wait_for_lift r usec)"
proof -
  have body: "related R (and_then (pause r 20000) (\<lambda>_. lift_loop r deadline))" for deadline by (intro forwarding)
  show ?thesis
  proof (rule forwardI)
    fix self w result self' w' assume run: "gdix51c0_wait_for_lift r usec (self, w) = Some (result, (self', w'))"
    obtain now w1 where n: "host_now (rig_host r) w = (now, w1)" by (cases "host_now (rig_host r) w")
    show "R self self'" by (rule forwardD [OF body run [unfolded gdix51c0_wait_for_lift_def prod.case n]])
  qed
qed

end

text \<open>One that also allows for the repair where it is \<open>ok\<close>, and for the id of a sensor that is read, is kept by an
  activation.\<close>

locale device_relation = device_steps R for R :: "('ssl, 'pre) device \<Rightarrow> ('ssl, 'pre) device \<Rightarrow> bool" +
  fixes ok :: bool
  assumes keep: "sensor_id self' = sensor_id self \<Longrightarrow> repairs_forward ok self self' \<Longrightarrow> R self self'"
    and adopt: "length otp = 64 \<Longrightarrow> R self (adopt_sensor_id otp self)"
begin

lemma forward_init [forwarding]: "related R (gdix51c0_init_sequence r)"
proof -
  have enc: "related R (encoded_command cmd data)" for cmd data
    unfolding encoded_command_def by (auto intro!: forwarding split: option.split)
  have prof: "related R (adopt_profile chip)" for chip
  proof -
    have "related R (case p of None \<Rightarrow> fail_with G_IO_ERROR_NOT_SUPPORTED
        | Some p \<Rightarrow> if algorithm p \<noteq> GOODIX_SENSOR_ALGORITHM_CHICAGO_HS \<or> profile_width p \<noteq> 80 \<or> profile_height p \<noteq> 64
          then fail_with G_IO_ERROR_NOT_SUPPORTED else done_with p)" for p
      by (cases p) (auto intro!: forwarding)
    moreover have "related R (set_device (\<lambda>self. self\<lparr> sensor_profile := goodix_sensor_profile_lookup chip \<rparr>))"
      by (intro forwarding same) (simp add: device_core_def repair_flags_def)
    ultimately show ?thesis unfolding adopt_profile_def by (intro forward_and_then)
  qed
  have load: "related R (load_sensor_state r)"
  proof (rule forwardI)
    fix self w result self' w' assume run: "load_sensor_state r (self, w) = Some (result, (self', w'))"
    let ?c = "gdix51c0_chicago_calibration_maybe_load_or_generate r (if t0_baseline_valid self then (self, w) else gdix51c0_baseline_load r (self, w))"
    have "device_core (fst ?c) = device_core self" by (cases "t0_baseline_valid self") simp_all
    then have "device_core self' = device_core self"
      using run by (cases ?c) (auto simp: load_sensor_state_def)
    then show "R self self'" by (rule same)
  qed
  have cfg: "related R (upload_config k d)" for k d
  proof -
    have "related R (case c of None \<Rightarrow> fail_with G_IO_ERROR_FAILED
        | Some cfg_payload \<Rightarrow> and_then (on_bus (gdix51c0_cmd_required_same_irq k cfg_payload 1000000)) (\<lambda>_.
            and_then (on_bus (bus_pause k 200000)) (\<lambda>_. on_bus (gdix51c0_irq_drain k))))" for c
      by (cases c) (auto intro!: forwarding)
    moreover have "related R (set_device (\<lambda>self. self\<lparr> active_dac_main := ucast (dac_main d) \<rparr>))"
      by (intro forwarding same) (simp add: device_core_def repair_flags_def)
    ultimately show ?thesis unfolding upload_config_def by (intro forward_and_then forward_on_bus)
  qed
  have otp: "related R (set_device (adopt_sensor_id otp))" if "length otp = 64" for otp by (intro forwarding adopt that)
  have size: "yields (adopt_profile chip) (\<lambda>profile. otp_size profile = 64)" for chip
  proof -
    have "otp_size profile = 64" if "goodix_sensor_profile_lookup chip = Some profile" for profile
      using that by (simp add: goodix_sensor_profile_lookup_Some profiles_def)
    then show ?thesis
      by (auto simp: adopt_profile_def yields_def and_then_device fail_with_def done_with_def split: option.splits if_splits)
  qed
  have memory: "yields (on_bus (read_otp (rig_kernel r) profile)) (\<lambda>otp. length otp = 64)" if "otp_size profile = 64" for profile
  proof -
    have "yields (read_otp (rig_kernel r) profile) (\<lambda>otp. length otp = 64)"
      unfolding read_otp_def
      by (intro yields_and_then) (use that in \<open>auto simp: yields_def fail_with_def done_with_def split: option.splits if_splits\<close>)
    then show ?thesis unfolding yields_def on_bus_def by (auto split: option.splits)
  qed
  show ?thesis unfolding gdix51c0_init_sequence_def Let_def
    by (intro forward_and_then [OF forward_on_bus] forward_and_then [OF enc] forward_yields [OF prof size]
        forward_yields [OF forward_on_bus memory] forward_and_then [OF otp] forward_and_then [OF load] cfg)
qed


lemma forward_connect:
  assumes "provisioning \<longrightarrow> ok"
  shows "related R (recover_and_connect r provisioning known)"
proof -
  have freed: "related R (set_device (\<lambda>self. self\<lparr> tls := gdix51c0_tls_free (tls self) \<rparr>))"
    and ready: "related R (set_device (\<lambda>self. self\<lparr> tls_ready := True \<rparr>))"
    by (intro forwarding same; simp add: device_core_def repair_flags_def)+
  have failed: "related R (set_device (handshake_failed provisioning have_existing e))" for have_existing e
    by (intro forwarding keep handshake_failed_id repairs_forward_weaken [OF handshake_failed_forward] assms)
  have "related R (tls_connect r provisioning have_existing psk)" for have_existing psk
    unfolding tls_connect_def Let_def
    by (intro forward_and_then forward_or_else forward_with_tls forward_on_bus forward_pause forward_simple freed ready failed)
  then show ?thesis unfolding recover_and_connect_def by (intro forward_and_then forward_on_bus forward_simple)
qed

lemma forward_provision:
  assumes "provision_wanted r (psk_reprovision_pending self) want (self, w) = Some (result, (self', w'))" and ok
  shows "R self self'"
proof (cases "psk_reprovision_pending self")
  case False
  have "related R (provision_wanted r False want)" unfolding provision_wanted_def if_False
    by (intro forward_and_then forward_simple forward_on_bus)
  then show ?thesis using assms False by (auto dest: forwardD)
next
  case True
  then show ?thesis using provision_repairs [of r want self w result self' w'] assms by (intro keep) simp_all
qed

lemma forward_tls_start:
  assumes "env_set r ENV_PROVISION_PSK \<noteq> None \<longrightarrow> ok"
  shows "related R (gdix51c0_session_tls_start r)"
proof (rule forwardI)
  fix self w result self' w' assume run: "gdix51c0_session_tls_start r (self, w) = Some (result, (self', w'))"
  show "R self self'"
  proof (cases "env_set r ENV_PROVISION_PSK")
    case None
    then have "recover_and_connect r False (existing_psk r w) (self, w) = Some (result, (self', w'))"
      using run by (simp add: gdix51c0_session_tls_start_def Let_def)
    then show ?thesis by (rule forwardD [OF forward_connect, rotated]) simp
  next
    case (Some prov)
    then have ok using assms by simp
    note run = run [unfolded gdix51c0_session_tls_start_def prod.case Let_def Some option.case]
    let ?wanted = "wanted_psk r (psk_reprovision_pending self) (existing_psk r w) prov"
    have connect: "R self1 self'" if "recover_and_connect r True known (self1, w1) = Some (result, (self', w'))" for self1 w1 known
      by (rule forwardD [OF forward_connect that]) (use \<open>ok\<close> in simp)
    obtain res w1 where res: "?wanted w = Some (res, w1)" using run by (auto simp: and_then_def on_bus_def split: option.splits)
    show ?thesis
    proof (cases res)
      case (Inl e)
      then show ?thesis using run res by (auto simp: and_then_def on_bus_def refl)
    next
      case (Inr wanted)
      show ?thesis
      proof (cases wanted)
        case None
        then show ?thesis using run res Inr by (intro connect) (auto simp: and_then_def on_bus_def)
      next
        case (Some want)
        have run': "and_then (provision_wanted r (psk_reprovision_pending self) want)
            (\<lambda>_. if psk_reprovision_pending self then done_with True else recover_and_connect r True (Some want)) (self, w1) =
          Some (result, (self', w'))"
          using run unfolding and_then_bus [where m = ?wanted, OF res [unfolded Inr Some]] option.case .
        then obtain res2 self2 w2 where p: "provision_wanted r (psk_reprovision_pending self) want (self, w1) = Some (res2, (self2, w2))"
          by (auto simp: and_then_def split: option.splits)
        note first = forward_provision [OF p \<open>ok\<close>]
        have "self' = self2 \<or> (\<exists>u. res2 = Inr u \<and> recover_and_connect r True (Some want) (self2, w2) = Some (result, (self', w')))"
          using run' p by (auto simp: and_then_def done_with_def split: sum.splits if_splits)
        then show ?thesis using first trans [OF first connect] by blast
      qed
    qed
  qed
qed

lemma forward_once:
  assumes "env_set r ENV_PROVISION_PSK \<noteq> None \<longrightarrow> ok"
  shows "related R (gdix51c0_session_activate_once r)"
proof -
  have new: "related R (\<lambda>(self1, w1). case rig_listener_new r w1 of
      (Inl e, w2) \<Rightarrow> Some (Inl e, (self1, w2))
    | (Inr _, w2) \<Rightarrow> Some (Inr (), (self1\<lparr> listener := Some listener_new \<rparr>, w2)))"
    by (rule forwardI) (auto intro!: same simp: device_core_def repair_flags_def split: prod.splits sum.splits)
  have start: "related R (start_listener r)"
  proof (rule forwardI)
    fix self w result self' w' assume run: "start_listener r (self, w) = Some (result, (self', w'))"
    show "R self self'"
      by (rule forwardD [OF forward_and_then [OF forward_on_bus [where m = "gdix51c0_irq_drain (rig_kernel r)"] new]])
        (use run in \<open>simp add: start_listener_def split: if_splits\<close>)
  qed
  have reset: "related R (set_device gdix51c0_session_reset_capture_state)"
    by (intro forwarding same) simp
  show ?thesis
    unfolding gdix51c0_session_activate_once_def
    by (intro forward_and_then forward_on_bus forward_init forward_tls_start [OF assms] forward_if forward_simple forward_prime start reset)
qed

lemma forward_activation:
  assumes "env_set r ENV_PROVISION_PSK \<noteq> None \<longrightarrow> ok"
  shows "related R (activation_loop r n failures granted)"
proof (induction "(if granted then 0 else Suc n) + (n - failures)" arbitrary: failures granted rule: less_induct)
  case less
  have step: "related R (\<lambda>(self, w). case gdix51c0_session_activate_once r (self, w) of
      None \<Rightarrow> None
    | Some (Inr _, s') \<Rightarrow> Some (Inr (), s')
    | Some (Inl e, (self', w')) \<Rightarrow>
        and_then (gdix51c0_session_deactivate r) (\<lambda>_. and_then (gdix51c0_action_check_cancelled r) (\<lambda>_.
          if \<not> psk_reprovision_completed_this_open self \<and> psk_reprovision_completed_this_open self' \<and> \<not> granted
          then activation_loop r n 0 True
          else if Suc failures = n then fail_with e
          else and_then (retry_delay r 10) (\<lambda>_. activation_loop r n (Suc failures) granted))) (self', w'))"
    if live: "failures < n"
  proof (rule forwardI, unfold prod.case)
    fix self w result self' w'
    assume run: "(case gdix51c0_session_activate_once r (self, w) of
      None \<Rightarrow> None
    | Some (Inr _, s') \<Rightarrow> Some (Inr (), s')
    | Some (Inl e, (self', w')) \<Rightarrow>
        and_then (gdix51c0_session_deactivate r) (\<lambda>_. and_then (gdix51c0_action_check_cancelled r) (\<lambda>_.
          if \<not> psk_reprovision_completed_this_open self \<and> psk_reprovision_completed_this_open self' \<and> \<not> granted
          then activation_loop r n 0 True
          else if Suc failures = n then fail_with e
          else and_then (retry_delay r 10) (\<lambda>_. activation_loop r n (Suc failures) granted))) (self', w')) = Some (result, (self', w'))"
    obtain res self1 w1 where once: "gdix51c0_session_activate_once r (self, w) = Some (res, (self1, w1))"
      using run by (cases "gdix51c0_session_activate_once r (self, w)") auto
    note first = forwardD [OF forward_once [OF assms] once]
    show "R self self'"
    proof (cases res)
      case (Inl e)
      let ?fresh = "\<not> psk_reprovision_completed_this_open self \<and> psk_reprovision_completed_this_open self1 \<and> \<not> granted"
      have again: "related R (if ?fresh then activation_loop r n 0 True
          else if Suc failures = n then fail_with e
          else and_then (retry_delay r 10) (\<lambda>_. activation_loop r n (Suc failures) granted))"
      proof -
        have "related R (activation_loop r n 0 True)" if "\<not> granted" by (rule less) (use that in simp)
        moreover have "related R (activation_loop r n (Suc failures) granted)" by (rule less) (use live in simp)
        ultimately show ?thesis by (cases "?fresh") (auto intro: forwarding)
      qed
      have "related R (and_then (gdix51c0_session_deactivate r) (\<lambda>_. and_then (gdix51c0_action_check_cancelled r) (\<lambda>_.
          if ?fresh then activation_loop r n 0 True
          else if Suc failures = n then fail_with e
          else and_then (retry_delay r 10) (\<lambda>_. activation_loop r n (Suc failures) granted))))"
        by (intro forward_and_then forward_deactivate forward_cancelled again)
      from forwardD [OF this] have "R self1 self'" using run once Inl by simp
      then show ?thesis by (rule trans [OF first])
    next
      case (Inr u)
      then show ?thesis using run once first by simp
    qed
  qed
  show ?case
  proof (cases "failures < n")
    case True
    then show ?thesis
      unfolding activation_loop.simps [of r n failures] if_P [OF True] by (intro forward_and_then forward_cancelled step)
  qed (simp add: activation_loop.simps forward_simple)
qed

lemma forward_activate:
  assumes "env_set r ENV_PROVISION_PSK \<noteq> None \<longrightarrow> ok"
  shows "related R (gdix51c0_session_activate r)"
proof (rule forwardI)
  fix self w result self' w' assume run: "gdix51c0_session_activate r (self, w) = Some (result, (self', w'))"
  show "R self self'"
  proof (cases "tls_ready self")
    case True
    have reset: "related R (set_device gdix51c0_session_reset_capture_state)" by (intro forwarding same) simp
    have "related R (and_then (set_device gdix51c0_session_reset_capture_state)
        (\<lambda>_. if \<not> image_base_refreshed_this_open self then gdix51c0_session_prime_t0 r else done_with ()))"
      by (intro forward_and_then reset forward_if forward_prime forward_simple)
    from forwardD [OF this] show ?thesis
      using run True by (simp add: gdix51c0_session_activate_def gdix51c0_session_activate_with_attempts_def)
  next
    case False
    then show ?thesis
      using run forwardD [OF forward_activation [OF assms]]
      by (simp add: gdix51c0_session_activate_def gdix51c0_session_activate_with_attempts_def)
  qed
qed

end

text \<open>The repair moves forward, and the id of a sensor keeps its size. Most steps change neither.\<close>

interpretation repairs: device_relation "repairs_forward ok" ok for ok
proof
  show "repairs_forward ok self (adopt_sensor_id otp self)" for self :: "('ssl, 'pre) device" and otp
    by (rule repairs_forward_same) (simp add: adopt_sensor_id_def Let_def repair_flags_def)
qed (auto intro: repairs_forward_refl repairs_forward_trans repairs_forward_same simp: device_core_def)

definition sized_id :: "('ssl, 'pre) device \<Rightarrow> ('ssl, 'pre) device \<Rightarrow> bool" where
  "sized_id self self' \<longleftrightarrow> (length (sensor_id self) = SENSOR_ID_LEN \<longrightarrow> length (sensor_id self') = SENSOR_ID_LEN)"

interpretation sized: device_relation sized_id True
  by unfold_locales (auto simp: sized_id_def adopt_sensor_id_def Let_def device_core_def)

interpretation core: device_steps "\<lambda>self self'. device_core self' = device_core self"
  by unfold_locales simp_all


text \<open>Without a reset line every attempt fails at once.\<close>

definition stuck_rig :: "(unit, unit, bytes list list \<times> bytes list \<times> int \<times> nat) rig" where
  "stuck_rig = sample_rig idle_kernel script_host"

lemma stuck_drain: "gdix51c0_irq_drain (rig_kernel stuck_rig) w = Some (Inr (), w)"
  by (simp add: gdix51c0_irq_drain_def irq_drain.simps stuck_rig_def sample_rig_def idle_kernel_def)

lemma stuck_rig_simps: "rig_gpio stuck_rig = None" "rig_cancelled stuck_rig w = (False, w)"
  "pause stuck_rig n (self, w) = Some (Inr (), (self, w))" "env_set stuck_rig name = None"
  by (simp_all add: stuck_rig_def sample_rig_def pause_def idle_kernel_def env_set_def)

lemma stuck_once:
  "gdix51c0_session_activate_once stuck_rig (self, w) = Some (Inl G_IO_ERROR_CLOSED, (gdix51c0_session_reset_capture_state self, w))"
  by (simp add: gdix51c0_session_activate_once_def and_then_def set_device_def on_bus_def gdix51c0_boot_probe_def Let_def stuck_drain
      reset_sensor_def call_def gdix51c0_reset_pulse_def stuck_rig_simps)

lemma stuck_deactivate:
  "listener self = None \<Longrightarrow> gdix51c0_session_deactivate stuck_rig (self, w) = Some (Inr (), (drop_session self, w))"
  by (simp add: gdix51c0_session_deactivate_def Let_def and_then_def on_bus_def stuck_drain stuck_rig_simps done_with_def)

lemma stuck_delay: "retry_delay stuck_rig n (self, w) = Some (Inr (), (self, w))"
  by (induction n) (simp_all add: done_with_def check_cancelled_then stuck_rig_simps and_then_def [of "pause _ _"])

lemma stuck_loop:
  assumes "listener self = None" and "failures < 4"
  shows "\<exists>self'. activation_loop stuck_rig 4 failures granted (self, w) = Some (Inl G_IO_ERROR_CLOSED, (self', w))"
  using assms
proof (induction "4 - failures" arbitrary: self failures)
  case (Suc n)
  let ?self = "drop_session (gdix51c0_session_reset_capture_state self)"
  have up: "listener (gdix51c0_session_reset_capture_state self) = None" "listener ?self = None"
    using Suc.prems by (simp_all add: gdix51c0_session_reset_capture_state_def drop_session_def Let_def)
  have same: "psk_reprovision_completed_this_open (gdix51c0_session_reset_capture_state self) = psk_reprovision_completed_this_open self"
    by (simp add: gdix51c0_session_reset_capture_state_def)
  have step: "activation_loop stuck_rig 4 failures granted (self, w) =
      (if Suc failures = 4 then Some (Inl G_IO_ERROR_CLOSED, (?self, w)) else activation_loop stuck_rig 4 (Suc failures) granted (?self, w))"
    using Suc.prems
    by (auto simp: same activation_loop.simps [of stuck_rig 4 failures] check_cancelled_then stuck_rig_simps stuck_once
        and_then_def [of "gdix51c0_session_deactivate _"] stuck_deactivate [OF up(1)] and_then_def [of "retry_delay _ _"] stuck_delay fail_with_def)
  show ?case
  proof (cases "Suc failures = 4")
    case False
    then have "\<exists>self'. activation_loop stuck_rig 4 (Suc failures) granted (?self, w) = Some (Inl G_IO_ERROR_CLOSED, (self', w))"
      using Suc.prems Suc.hyps(2) by (intro Suc.hyps(1) up(2)) simp_all
    then show ?thesis using False by (simp add: step)
  next
    case True
    show ?thesis unfolding step if_P [OF True] by blast
  qed
qed simp


section \<open>Bounded activation\<close>

lemma returns_pause: "returns (pause r n)" "returns (gdix51c0_action_check_cancelled r)"
  by (auto simp: returns_def pause_def gdix51c0_action_check_cancelled_def split: prod.splits)

lemma delay_bounded:
  assumes "raises f 0 (gdix51c0_action_check_cancelled r)" and "raises f 0 (pause r 100000)"
  shows "returns (retry_delay r n) \<and> raises f 0 (retry_delay r n)"
proof (induction n)
  case (Suc n)
  have "raises f (0 + (0 + 0)) (retry_delay r (Suc n))"
    unfolding retry_delay.simps by (intro raises_and_then assms) (use Suc in simp)
  moreover have "returns (retry_delay r (Suc n))"
    unfolding retry_delay.simps by (intro returns_and_then returns_pause) (use Suc in simp)
  ultimately show ?case by simp
qed (simp add: returns_simple raises_done)

lemma activation_loop_bounded:
  assumes once: "returns (gdix51c0_session_activate_once r)" "raises f n (gdix51c0_session_activate_once r)"
    and down: "returns (gdix51c0_session_deactivate r)" "raises f 0 (gdix51c0_session_deactivate r)"
    and wait: "raises f 0 (gdix51c0_action_check_cancelled r)" "raises f 0 (pause r 100000)"
  shows "returns (activation_loop r m failures granted) \<and>
    raises f (n * ((m - failures) + (if granted then 0 else m))) (activation_loop r m failures granted)"
proof (induction "(if granted then 0 else Suc m) + (m - failures)" arbitrary: failures granted rule: less_induct)
  case less
  let ?bound = "n * ((m - failures) + (if granted then 0 else m))"
  show ?case
  proof (cases "failures < m")
    case live: True
    let ?rest = "n * ((m - Suc failures) + (if granted then 0 else m))"
    let ?again = "\<lambda>e fresh. if fresh \<and> \<not> granted then activation_loop r m 0 True
        else if Suc failures = m then fail_with e else and_then (retry_delay r 10) (\<lambda>_. activation_loop r m (Suc failures) granted)"
    define body where "body = (\<lambda>(self, w). case gdix51c0_session_activate_once r (self, w) of
        None \<Rightarrow> None
      | Some (Inr _, s') \<Rightarrow> Some (Inr (), s')
      | Some (Inl e, (self', w')) \<Rightarrow>
          and_then (gdix51c0_session_deactivate r) (\<lambda>_. and_then (gdix51c0_action_check_cancelled r) (\<lambda>_.
            ?again e (\<not> psk_reprovision_completed_this_open self \<and> psk_reprovision_completed_this_open self'))) (self', w'))"
    have step: "activation_loop r m failures granted = and_then (gdix51c0_action_check_cancelled r) (\<lambda>_. body)"
      unfolding activation_loop.simps [of r m failures] if_P [OF live] body_def conj_assoc ..
    have rest: "n + ?rest = ?bound"
    proof -
      have "(m - failures) + k = Suc ((m - Suc failures) + k)" for k using live by simp
      then show ?thesis by simp
    qed
    have again: "returns (?again e fresh) \<and> raises f ?rest (?again e fresh)" for e fresh
    proof (cases "fresh \<and> \<not> granted")
      case True
      then have "returns (activation_loop r m 0 True) \<and> raises f (n * ((m - 0) + (if True then 0 else m))) (activation_loop r m 0 True)"
        by (intro less) simp
      then show ?thesis using True by (auto intro: raises_mono)
    next
      case False
      have next_loop: "returns (activation_loop r m (Suc failures) granted) \<and> raises f ?rest (activation_loop r m (Suc failures) granted)"
        by (intro less) (use live in simp)
      have "raises f (0 + ?rest) (and_then (retry_delay r 10) (\<lambda>_. activation_loop r m (Suc failures) granted))"
        by (intro raises_and_then) (use delay_bounded [OF wait] next_loop in blast)+
      moreover have "returns (and_then (retry_delay r 10) (\<lambda>_. activation_loop r m (Suc failures) granted))"
        by (intro returns_and_then) (use delay_bounded [OF wait] next_loop in blast)+
      ultimately show ?thesis using False by (auto simp: returns_simple intro: raises_mono [OF raises_fail])
    qed
    have after: "returns (and_then (gdix51c0_session_deactivate r) (\<lambda>_. and_then (gdix51c0_action_check_cancelled r) (\<lambda>_. ?again e fresh)))"
      "raises f (0 + (0 + ?rest)) (and_then (gdix51c0_session_deactivate r) (\<lambda>_. and_then (gdix51c0_action_check_cancelled r) (\<lambda>_. ?again e fresh)))"
      for e fresh
      by (intro returns_and_then down returns_pause, use again in blast) (intro raises_and_then down wait, use again in blast)
    have "body s \<noteq> None \<and> (\<forall>res s'. body s = Some (res, s') \<longrightarrow> f s' \<le> f s + ?bound)" for s
    proof -
      obtain self w where s: "s = (self, w)" by (cases s)
      obtain res self1 w1 where o: "gdix51c0_session_activate_once r (self, w) = Some (res, (self1, w1))"
        using once(1) unfolding returns_def by (metis not_Some_eq surj_pair)
      have "f (self1, w1) \<le> f (self, w) + n" using once(2) o unfolding raises_def by blast
      then have go: "f s' \<le> f (self, w) + ?bound" if "f s' \<le> f (self1, w1) + ?rest" for s' using that rest by linarith
      show ?thesis
      proof (cases res)
        case (Inl e)
        note a = after [where e = e and fresh = "\<not> psk_reprovision_completed_this_open self \<and> psk_reprovision_completed_this_open self1"]
        show ?thesis
          using a(1) [unfolded returns_def, THEN spec, of "(self1, w1)"] a(2) [unfolded raises_def add_0]
          unfolding s body_def prod.case o Inl option.case sum.case by (metis go)
      next
        case (Inr u)
        then show ?thesis using o go s by (simp add: body_def)
      qed
    qed
    then have "returns body" "raises f ?bound body" unfolding returns_def raises_def by blast+
    then show ?thesis
      unfolding step using raises_and_then [OF wait(1), of ?bound "\<lambda>_. body"] by (auto intro: returns_and_then returns_pause)
  next
    case False
    then show ?thesis by (simp add: activation_loop.simps [of r m failures] returns_simple raises_mono [OF raises_fail])
  qed
qed



end
