(* ===== verification/Spec2Isabelle.thy ===== *)
theory Spec2Isabelle
  imports Goodix_Command Goodix_Image Chicago_Template Chicago_Policy Chicago_Packed Chicago_Capacity Chicago_Correspondence
    Chicago_Match Chicago_Runtime Chicago_Enrolled Chicago_Probe Gdix_Provision Gdix_Listener Gdix_Tls Gdix_Device
    Gdix_Capture Gdix_Session
begin

text \<open>
  An out-of-tree libfprint driver for the Goodix GDIX51C0 fingerprint sensor, which talks over SPI and has no
  matcher of its own. The driver boots the sensor, proves a shared key to it over TLS, waits for a finger, reads an
  encrypted image, and then enrolls or matches it on the host with a reimplementation of the vendor's Chicago
  engine.

  \<^bold>\<open>The parts and where they are modelled.\<close>

  \<^item> src/lib/goodix/common: the wire format, checksums, command payloads, raw images and sensor profiles
    (\<open>Goodix_Wire\<close>, \<open>Goodix_Crc\<close>, \<open>Goodix_Command\<close>, \<open>Goodix_Image\<close>; \<open>Goodix_Codec\<close> is the interface of their
    encoders and decoders). Every claim about a packet rests on \<open>goodix_wire_decode_command\<close>.
  \<^item> goodix-chicago-calibration.c, -template.c, -bir.c: the calibration of a sensor, the print data that libfprint
    stores and the record of a raw frame (\<open>Chicago_Calibration\<close>, \<open>Chicago_Template\<close>).
  \<^item> goodix-chicago-enrollment.c: the policy of a run (\<open>Chicago_Policy\<close>), the transforms, overlaps and metrics of two
    samples (\<open>Chicago_Transform\<close>, \<open>Chicago_Metrics\<close>), the enrollment with its relations and match order
    (\<open>Chicago_Enrollment\<close>), the adaptive study (\<open>Chicago_Study\<close>), the packed template (\<open>Chicago_Packed\<close>, with
    \<open>Chicago_Storable\<close> for what can be stored) and the choice of a sample to replace when the capacity is reached
    (\<open>Chicago_Search\<close>, \<open>Chicago_Capacity\<close>).
  \<^item> goodix-chicago-match.c, -late-rejection.c: the pairs of points (\<open>Chicago_Correspondence\<close>), the search and the
    consensus of a transform (\<open>Chicago_Geometry\<close>), the score and the result of a template (\<open>Chicago_Match\<close>) and the
    late rejection (\<open>Chicago_Late_Rejection\<close>).
  \<^item> goodix-chicago-runtime.c: a frame becomes a probe (\<open>Chicago_Probe\<close>); a probe is matched against, and studied
    into, print data (\<open>Chicago_Runtime\<close>). \<open>Chicago_Enrolled\<close> follows the stored print through its whole life.
  \<^item> gdix51c0-wb.c, -proto.c, -listener.c, -tls.c: the container of a key (\<open>Gdix_Wb\<close>), the bus (\<open>Gdix_Bus\<close>) and the
    provisioning of a key over it (\<open>Gdix_Provision\<close>), the reader thread with its queues (\<open>Gdix_Listener\<close>), the TLS
    session (\<open>Gdix_Tls\<close>).
  \<^item> gdix51c0.c: the state of a device and its files (\<open>Gdix_Device\<close>), finger detection and capture (\<open>Gdix_Capture\<close>),
    the session from the reset to the first calibration pass (\<open>Gdix_Session\<close>).

  A definition has the name of the function, type or field it translates; a helper that stands for a part of a
  function, such as the body of a loop, has a name of its own and the lines of that part in the manifest.

  \<^bold>\<open>How the code is modelled.\<close> \<open>guint8\<close>, \<open>guint16\<close>, \<open>guint32\<close> and \<open>guint64\<close> are words and wrap around. \<open>gint\<close> is an
  integer whose operations are cut to 32 or 64 bits by \<open>i32\<close> and \<open>i64\<close> where the code can overflow; a \<open>gsize\<close> or
  \<open>guint\<close> that counts something is a natural number. A buffer is the list of its bytes, a cursor the list of
  its unread bytes, an out-parameter a component of the result. A pointer that may be null is an option; a store
  through a null pointer makes the operation \<open>None\<close>, so a theorem that gives \<open>Some\<close> also says that the code does
  not crash there. \<open>g_malloc (0)\<close> is the null pointer, as GLib defines it. Memory the code reads before it was
  written is an argument (\<open>unset\<close>). A \<open>GError\<close> is the \<open>Inl\<close> of a result with its code.

  The driver's functions are actions: a function from the state of the world to a result and the next state, or
  to nothing when the call never returns. They are composed by \<open>and_then\<close>, \<open>or_else\<close> and the other operators of
  \<open>Gdix_Bus\<close> in the order of the code. The records \<open>kernel\<close>, \<open>host\<close>, \<open>gpio\<close>, \<open>crypto\<close>, \<open>openssl\<close>, \<open>files\<close>, \<open>rig\<close> and
  \<open>stages\<close> hold what is not in the repository: SPI transfers, edges, time, threads, OpenSSL, the file system and
  the image filters. All theorems hold for every such record; where one relies on the outside, it says so in a
  hypothesis, and its witness gives a concrete record that satisfies it. OpenSSL is an engine that asks for reads
  and writes of the transport, which the driver answers through its BIO.

  \<^bold>\<open>Loops.\<close> A loop over a list is a fold or a structural recursion; a bounded retry is unfolded or a function
  with a measure. The loops that wait for the hardware (\<open>irq_wait_loop\<close>, \<open>irq_drain\<close>, \<open>await_loop\<close>, \<open>finger_loop\<close>,
  \<open>lift_loop\<close>, \<open>ssl_run\<close>) have no bound in the code and are partial functions; that commands return is proved from
  a finite number of pending edges, that activation returns from its attempts returning. The searches of the
  engine (paths in the relation graph, components, the integer square root) run on fuel, and the theorems about
  them show that the fuel of the definition is enough: their results are the closure, the component or the root.

  \<^bold>\<open>What is shown.\<close> For the engine: every history of an enrollment keeps it well formed, the policy ends, the
  grouping, propagation, search and consensus compute what they are for, the packed template reads back, and a
  stored print stays usable through every match and study (\<open>Chicago_Enrolled\<close>). For the driver: framing and commands
  are sound, bounded and return; responses belong to their commands; the queues of the listener are bounded and
  fresh; a key is written only with a verified answer and at most once per open device, and a key mismatch is
  reported only when it is confirmed; the configuration is always one the sensor accepts; a finger is reported
  only on a fresh touch.

  The interfaces are locales, each interpreted where the model provides it: codecs, byte writers and readers,
  relations between devices that every step keeps, and others; \<open>raises\<close>, \<open>returns\<close>, \<open>yields\<close>, \<open>keeping\<close> and \<open>related\<close>
  are small calculi over the actions, one rule for each operator.

  \<^bold>\<open>What is not modelled.\<close> The fixed-point image filters of goodix-chicago-preprocess.c and the extraction of records
  in goodix-chicago-feature.c are operations of the record \<open>stages\<close>, and the late rejection for other template types
  (goodix-chicago-late-rejection-compat.c, decompiled code) is an argument. Opening the GPIO lines, the threads,
  the GObject boilerplate, log output, the tools under re/ and the code of \<open>GOODIX_SPI_DEVELOPER\<close> builds are left out.
\<close>

end
